(* ===== verification/Overlay_Prelude.thy ===== *)
theory Overlay_Prelude
  imports "HOL-Library.AList" "HOL-Library.Word"
begin

text \<open>
  Shared vocabulary of the development: the widths of Rust's machine integers and the arithmetic the
  source uses on them (wrapping, saturating), hash maps as association lists behind a contract
  (\<open>keyed_table\<close>), the string functions of the standard library that the program calls
  (\<open>strip_prefix\<close>, \<open>split_once\<close>, \<open>to_ascii_lowercase\<close>, decimal printing and parsing), and the
  collections of rewrite rules the component theories fill.

  A Rust \<open>String\<close> is a \<open>string\<close> (its bytes), a \<open>Vec<u8>\<close> a list of \<open>u8\<close>. A \<open>u64\<close> or \<open>u32\<close> that is
  counted or compared is a \<open>nat\<close> below its bound, with the wrap of a release build written out as
  \<open>wrap64\<close> or \<open>wrap32\<close> where it is added to; bytes are \<open>8 word\<close>.
\<close>

named_theorems table_simps \<open>what a table answers after an update\<close>
named_theorems store_defs \<open>unfolding rules of the storage operations\<close>
named_theorems frame_simps \<open>fields an operation leaves alone\<close>

type_synonym u8 = "8 word"
type_synonym bytes = "u8 list"
type_synonym txid = string
type_synonym topic = string

subsection \<open>Machine arithmetic\<close>

definition U64_MAX :: nat where
  "U64_MAX = 2 ^ 64 - 1"

definition wrap64 :: "nat \<Rightarrow> nat" where
  "wrap64 n = n mod 2 ^ 64"

definition wrap32 :: "nat \<Rightarrow> nat" where
  "wrap32 n = n mod 2 ^ 32"

definition saturating_add64 :: "nat \<Rightarrow> nat \<Rightarrow> nat" where
  "saturating_add64 a b = min (a + b) U64_MAX"

definition saturating_mul64 :: "nat \<Rightarrow> nat \<Rightarrow> nat" where
  "saturating_mul64 a b = min (a * b) U64_MAX"

text \<open>\<open>saturating_sub\<close> of an unsigned type is the truncated subtraction of \<open>nat\<close>.\<close>

abbreviation (input) saturating_sub :: "nat \<Rightarrow> nat \<Rightarrow> nat" where
  "saturating_sub a b \<equiv> a - b"

definition checked_add64 :: "nat \<Rightarrow> nat \<Rightarrow> nat option" where
  "checked_add64 a b = (if a + b \<le> U64_MAX then Some (a + b) else None)"

definition checked_add32 :: "nat \<Rightarrow> nat \<Rightarrow> nat option" where
  "checked_add32 a b = (if a + b < 2 ^ 32 then Some (a + b) else None)"

definition I64_MAX :: int where
  "I64_MAX = 2 ^ 63 - 1"

definition I64_MIN :: int where
  "I64_MIN = - (2 ^ 63)"

definition clamp_i64 :: "int \<Rightarrow> int" where
  "clamp_i64 n = max I64_MIN (min I64_MAX n)"

definition i64_try_from :: "nat \<Rightarrow> int option" where
  "i64_try_from n = (if int n \<le> I64_MAX then Some (int n) else None)"

lemma wrap64_id [simp]: "n < 2 ^ 64 \<Longrightarrow> wrap64 n = n"
  by (simp add: wrap64_def)

lemma wrap64_less [simp]: "wrap64 n < 2 ^ 64"
  by (simp add: wrap64_def)

lemma wrap32_id [simp]: "n < 2 ^ 32 \<Longrightarrow> wrap32 n = n"
  by (simp add: wrap32_def)

lemma saturating_add64_le [simp]: "saturating_add64 a b \<le> U64_MAX"
  by (simp add: saturating_add64_def)

lemma checked_add64_Some: "checked_add64 a b = Some c \<longleftrightarrow> c = a + b \<and> a + b \<le> U64_MAX"
  by (auto simp: checked_add64_def)

lemma clamp_i64_range: "I64_MIN \<le> clamp_i64 n \<and> clamp_i64 n \<le> I64_MAX"
  by (auto simp: clamp_i64_def I64_MIN_def I64_MAX_def)

lemma clamp_i64_id: "I64_MIN \<le> n \<Longrightarrow> n \<le> I64_MAX \<Longrightarrow> clamp_i64 n = n"
  by (simp add: clamp_i64_def)

lemma clamp_i64_mono: "a \<le> b \<Longrightarrow> clamp_i64 a \<le> clamp_i64 b"
  by (auto simp: clamp_i64_def)

subsection \<open>Hash maps\<close>

text \<open>
  A \<open>HashMap\<close> is an association list with distinct keys; the list's order is the iteration order,
  which Rust leaves open, so a statement about what an iteration returns is a statement about sets.
\<close>

type_synonym ('k, 'v) table = "('k \<times> 'v) list"

definition tbl_get :: "('k, 'v) table \<Rightarrow> 'k \<Rightarrow> 'v option" where
  "tbl_get m k = map_of m k"

definition tbl_insert :: "'k \<Rightarrow> 'v \<Rightarrow> ('k, 'v) table \<Rightarrow> ('k, 'v) table" where
  "tbl_insert k v m = AList.update k v m"

definition tbl_remove :: "'k \<Rightarrow> ('k, 'v) table \<Rightarrow> ('k, 'v) table" where
  "tbl_remove k m = AList.delete k m"

definition tbl_modify :: "'k \<Rightarrow> ('v \<Rightarrow> 'v) \<Rightarrow> ('k, 'v) table \<Rightarrow> ('k, 'v) table" where
  "tbl_modify k f m = (case tbl_get m k of None \<Rightarrow> m | Some v \<Rightarrow> tbl_insert k (f v) m)"

text \<open>\<open>entry(k).or_insert(v)\<close>: the value stays if the key is held.\<close>

definition tbl_or_insert :: "'k \<Rightarrow> 'v \<Rightarrow> ('k, 'v) table \<Rightarrow> ('k, 'v) table" where
  "tbl_or_insert k v m = (case tbl_get m k of None \<Rightarrow> tbl_insert k v m | Some _ \<Rightarrow> m)"

definition tbl_wf :: "('k, 'v) table \<Rightarrow> bool" where
  "tbl_wf m = distinct (map fst m)"

text \<open>The contract the components rely on: a keyed table answers what was last written.\<close>

locale keyed_table =
  fixes get :: "'m \<Rightarrow> 'k \<Rightarrow> 'v option"
    and ins :: "'k \<Rightarrow> 'v \<Rightarrow> 'm \<Rightarrow> 'm"
    and del :: "'k \<Rightarrow> 'm \<Rightarrow> 'm"
    and ok :: "'m \<Rightarrow> bool"
  assumes get_ins: "get (ins k v m) k' = (if k' = k then Some v else get m k')"
    and get_del: "get (del k m) k' = (if k' = k then None else get m k')"
    and ok_ins: "ok m \<Longrightarrow> ok (ins k v m)"
    and ok_del: "ok m \<Longrightarrow> ok (del k m)"
begin

lemma ins_ins: "get (ins k v (ins k u m)) = get (ins k v m)"
  by (rule ext) (simp add: get_ins)

lemma del_ins_fresh: "get m k = None \<Longrightarrow> get (del k (ins k v m)) = get m"
  by (rule ext) (simp add: get_ins get_del)

lemma get_fold_del: "get (fold del ks m) k = (if k \<in> set ks then None else get m k)"
  by (induction ks arbitrary: m) (auto simp: get_del)

lemma ok_fold_del: "ok m \<Longrightarrow> ok (fold del ks m)"
  by (induction ks arbitrary: m) (auto simp: ok_del)

lemma get_fold_ins:
  "get (fold (\<lambda>(k, v). ins k v) kvs m) k = (case map_of (rev kvs) k of None \<Rightarrow> get m k | Some v \<Rightarrow> Some v)"
  by (induction kvs arbitrary: m) (auto simp: get_ins map_add_def split: option.splits)

end

interpretation tbl: keyed_table "tbl_get :: ('k, 'v) table \<Rightarrow> 'k \<Rightarrow> 'v option" tbl_insert tbl_remove tbl_wf
proof
  show "tbl_get (tbl_insert k v m) k' = (if k' = k then Some v else tbl_get m k')"
    for k k' :: 'k and v :: 'v and m
    by (simp add: tbl_get_def tbl_insert_def update_conv')
  show "tbl_get (tbl_remove k m) k' = (if k' = k then None else tbl_get m k')"
    for k k' :: 'k and m :: "('k, 'v) table"
    by (simp add: tbl_get_def tbl_remove_def delete_conv')
  show "tbl_wf m \<Longrightarrow> tbl_wf (tbl_insert k v m)" for k :: 'k and v :: 'v and m
    by (simp add: tbl_wf_def tbl_insert_def distinct_update)
  show "tbl_wf m \<Longrightarrow> tbl_wf (tbl_remove k m)" for k :: 'k and m :: "('k, 'v) table"
    by (simp add: tbl_wf_def tbl_remove_def distinct_delete)
qed

lemmas tbl_laws [simp, table_simps] = tbl.get_ins tbl.get_del tbl.ok_ins tbl.ok_del

lemma tbl_get_Nil [simp]: "tbl_get [] k = None"
  by (simp add: tbl_get_def)

lemma tbl_wf_Nil [simp]: "tbl_wf []"
  by (simp add: tbl_wf_def)

lemma tbl_get_modify [simp, table_simps]:
  "tbl_get (tbl_modify k f m) k' = (if k' = k then map_option f (tbl_get m k) else tbl_get m k')"
  by (auto simp: tbl_modify_def split: option.splits)

lemma tbl_wf_modify [simp, table_simps]: "tbl_wf m \<Longrightarrow> tbl_wf (tbl_modify k f m)"
  by (auto simp: tbl_modify_def split: option.splits)

lemma tbl_get_or_insert [simp, table_simps]:
  "tbl_get (tbl_or_insert k v m) k' =
     (if k' = k then Some (case tbl_get m k of None \<Rightarrow> v | Some u \<Rightarrow> u) else tbl_get m k')"
  by (auto simp: tbl_or_insert_def split: option.splits)

lemma tbl_wf_or_insert [simp, table_simps]: "tbl_wf m \<Longrightarrow> tbl_wf (tbl_or_insert k v m)"
  by (auto simp: tbl_or_insert_def split: option.splits)

lemma tbl_get_in_set: "tbl_wf m \<Longrightarrow> tbl_get m k = Some v \<longleftrightarrow> (k, v) \<in> set m"
  by (simp add: tbl_get_def tbl_wf_def)

lemma tbl_get_None: "tbl_get m k = None \<longleftrightarrow> k \<notin> fst ` set m"
  by (simp add: tbl_get_def map_of_eq_None_iff)

lemma tbl_get_filter:
  assumes "tbl_wf m"
  shows "tbl_get (filter P m) k =
    (case tbl_get m k of None \<Rightarrow> None | Some v \<Rightarrow> if P (k, v) then Some v else None)"
proof -
  have wf: "tbl_wf (filter P m)"
    using assms by (simp add: tbl_wf_def distinct_map_filter)
  show ?thesis
  proof (cases "tbl_get m k")
    case None
    then have "k \<notin> fst ` set (filter P m)" by (auto simp: tbl_get_None)
    then have "tbl_get (filter P m) k = None" by (simp add: tbl_get_None)
    with None show ?thesis by simp
  next
    case (Some v)
    then have kv: "(k, v) \<in> set m" using assms by (simp add: tbl_get_in_set)
    show ?thesis
    proof (cases "P (k, v)")
      case True
      with kv have "(k, v) \<in> set (filter P m)" by simp
      with wf have "tbl_get (filter P m) k = Some v" by (simp add: tbl_get_in_set)
      with Some True show ?thesis by simp
    next
      case False
      have "k \<notin> fst ` set (filter P m)"
      proof
        assume "k \<in> fst ` set (filter P m)"
        then obtain v' where v': "(k, v') \<in> set m" "P (k, v')" by auto
        with assms have "tbl_get m k = Some v'" by (simp add: tbl_get_in_set)
        with Some v'(2) False show False by simp
      qed
      then have "tbl_get (filter P m) k = None" by (simp add: tbl_get_None)
      with Some False show ?thesis by simp
    qed
  qed
qed

lemma tbl_wf_filter [simp]: "tbl_wf m \<Longrightarrow> tbl_wf (filter P m)"
  by (simp add: tbl_wf_def distinct_map_filter)

subsection \<open>Strings\<close>

fun strip_prefix :: "string \<Rightarrow> string \<Rightarrow> string option" where
  "strip_prefix [] s = Some s"
| "strip_prefix (p # ps) [] = None"
| "strip_prefix (p # ps) (c # cs) = (if p = c then strip_prefix ps cs else None)"

definition starts_with :: "string \<Rightarrow> string \<Rightarrow> bool" where
  "starts_with p s = (strip_prefix p s \<noteq> None)"

text \<open>\<open>split_once\<close> at a character: the text before its first occurrence and the text after it.\<close>

fun split_once :: "char \<Rightarrow> string \<Rightarrow> (string \<times> string) option" where
  "split_once d [] = None"
| "split_once d (c # cs) =
     (if c = d then Some ([], cs) else map_option (\<lambda>(a, b). (c # a, b)) (split_once d cs))"

definition ascii_lower :: "char \<Rightarrow> char" where
  "ascii_lower c = (let n = of_char c :: nat in if 65 \<le> n \<and> n \<le> 90 then char_of (n + 32) else c)"

definition to_ascii_lowercase :: "string \<Rightarrow> string" where
  "to_ascii_lowercase s = map ascii_lower s"

definition eq_ignore_ascii_case :: "string \<Rightarrow> string \<Rightarrow> bool" where
  "eq_ignore_ascii_case a b = (to_ascii_lowercase a = to_ascii_lowercase b)"

lemma strip_prefix_Some: "strip_prefix p s = Some r \<longleftrightarrow> s = p @ r"
  by (induction p s rule: strip_prefix.induct) auto

lemma strip_prefix_append [simp]: "strip_prefix p (p @ r) = Some r"
  by (simp add: strip_prefix_Some)

lemma strip_prefix_None: "strip_prefix p s = None \<longleftrightarrow> (\<forall>r. s \<noteq> p @ r)"
  by (metis not_Some_eq strip_prefix_Some)

lemma starts_with_iff: "starts_with p s \<longleftrightarrow> (\<exists>r. s = p @ r)"
  by (auto simp: starts_with_def strip_prefix_None)

lemma split_once_Some: "split_once d s = Some (a, b) \<longleftrightarrow> s = a @ d # b \<and> d \<notin> set a"
proof (induction s arbitrary: a)
  case (Cons c cs)
  then show ?case by (cases a) auto
qed simp

lemma split_once_None: "split_once d s = None \<longleftrightarrow> d \<notin> set s"
  by (induction s) auto

lemma ascii_lower_idem [simp]: "ascii_lower (ascii_lower c) = ascii_lower c"
  by (simp add: ascii_lower_def Let_def of_char_of)

lemma to_ascii_lowercase_idem [simp]: "to_ascii_lowercase (to_ascii_lowercase s) = to_ascii_lowercase s"
  by (simp add: to_ascii_lowercase_def)

lemma to_ascii_lowercase_append [simp]:
  "to_ascii_lowercase (a @ b) = to_ascii_lowercase a @ to_ascii_lowercase b"
  by (simp add: to_ascii_lowercase_def)

lemma eq_ignore_ascii_case_refl [simp]: "eq_ignore_ascii_case a a"
  by (simp add: eq_ignore_ascii_case_def)

subsection \<open>Decimal numbers\<close>

definition digit_char :: "nat \<Rightarrow> char" where
  "digit_char d = char_of (48 + d)"

definition char_digit :: "char \<Rightarrow> nat option" where
  "char_digit c = (let n = of_char c :: nat in if 48 \<le> n \<and> n \<le> 57 then Some (n - 48) else None)"

text \<open>\<open>format!("{n}")\<close> of an unsigned integer.\<close>

fun show_nat :: "nat \<Rightarrow> string" where
  "show_nat n = (if n < 10 then [digit_char n] else show_nat (n div 10) @ [digit_char (n mod 10)])"

declare show_nat.simps [simp del]

fun parse_digits :: "nat \<Rightarrow> string \<Rightarrow> nat option" where
  "parse_digits acc [] = Some acc"
| "parse_digits acc (c # cs) =
     (case char_digit c of None \<Rightarrow> None | Some d \<Rightarrow> parse_digits (10 * acc + d) cs)"

text \<open>
  \<open>str::parse::<u32>\<close>: an optional leading \<open>+\<close>, then at least one decimal digit and nothing else,
  the value below \<open>2 ^ 32\<close>.
\<close>

definition parse_u32 :: "string \<Rightarrow> nat option" where
  "parse_u32 s =
     (let ds = (case s of c # cs \<Rightarrow> if c = CHR ''+'' then cs else s | [] \<Rightarrow> [])
      in if ds = [] then None
         else case parse_digits 0 ds of
                None \<Rightarrow> None
              | Some n \<Rightarrow> if n < 2 ^ 32 then Some n else None)"

lemma char_digit_digit_char: "d < 10 \<Longrightarrow> char_digit (digit_char d) = Some d"
  by (simp add: char_digit_def digit_char_def of_char_of)

lemma parse_digits_append:
  "parse_digits acc (xs @ ys) = (case parse_digits acc xs of None \<Rightarrow> None | Some n \<Rightarrow> parse_digits n ys)"
  by (induction xs arbitrary: acc) (auto split: option.splits)

lemma parse_digits_show_nat: "parse_digits 0 (show_nat n) = Some n"
proof (induction n rule: show_nat.induct)
  case (1 n)
  show ?case
  proof (cases "n < 10")
    case True
    then show ?thesis by (simp add: show_nat.simps [of n] char_digit_digit_char)
  next
    case False
    with 1 have "parse_digits 0 (show_nat (n div 10)) = Some (n div 10)" by simp
    with False show ?thesis
      by (simp add: show_nat.simps [of n] parse_digits_append char_digit_digit_char)
  qed
qed

lemma show_nat_nonempty [simp]: "show_nat n \<noteq> []"
  by (subst show_nat.simps) simp

lemma show_nat_digits: "c \<in> set (show_nat n) \<Longrightarrow> \<exists>d < 10. c = digit_char d"
proof (induction n rule: show_nat.induct)
  case (1 n)
  show ?case
  proof (cases "n < 10")
    case True
    with 1(2) have "c = digit_char n" by (simp add: show_nat.simps [of n])
    with True show ?thesis by blast
  next
    case False
    with 1(2) consider "c \<in> set (show_nat (n div 10))" | "c = digit_char (n mod 10)"
      by (auto simp: show_nat.simps [of n])
    then show ?thesis
    proof cases
      case 1
      with "1.IH" False show ?thesis by simp
    next
      case 2
      then show ?thesis by (intro exI [of _ "n mod 10"]) simp
    qed
  qed
qed

lemma digit_char_code: "d < 10 \<Longrightarrow> of_char (digit_char d) = 48 + d"
  by (simp add: digit_char_def of_char_of)

lemma show_nat_not_in: "of_char c < (48 :: nat) \<or> 57 < (of_char c :: nat) \<Longrightarrow> c \<notin> set (show_nat n)"
  using show_nat_digits digit_char_code by fastforce

lemma parse_u32_show_nat: "n < 2 ^ 32 \<Longrightarrow> parse_u32 (show_nat n) = Some n"
proof -
  assume n: "n < 2 ^ 32"
  have plus: "CHR ''+'' \<notin> set (show_nat n)" by (rule show_nat_not_in) simp
  obtain c cs where s: "show_nat n = c # cs" by (cases "show_nat n") auto
  with plus have "c \<noteq> CHR ''+''" by auto
  with s n parse_digits_show_nat [of n] show ?thesis by (simp add: parse_u32_def)
qed

lemma parse_u32_less: "parse_u32 s = Some n \<Longrightarrow> n < 2 ^ 32"
  by (auto simp: parse_u32_def Let_def split: list.splits if_splits option.splits)

end
