(* ===== verification/Overlay_Types.thy ===== *)
theory Overlay_Types
  imports Overlay_Prelude
begin

text \<open>
  The engine's shared types (\<open>crates/overlay-engine/src/types.rs\<close>, the error type of
  \<open>storage.rs\<close>): outpoints and their textual graph ids, the tracked output, the modes of a submit
  and of a lookup service, the payloads the engine hands to a lookup service, and the parts of a
  transaction the engine reads. An \<open>f64\<close> score is a millisecond count; it is modelled as an
  \<open>int\<close> (the engine only stores, compares and copies it).
\<close>

record outpoint =
  op_txid :: txid
  op_index :: nat

definition Outpoint :: "txid \<Rightarrow> nat \<Rightarrow> outpoint" where
  "Outpoint t i = \<lparr>op_txid = t, op_index = i\<rparr>"

text \<open>\<open>splitn(2, '.')\<close> cuts at the first dot, so the text after it is parsed whole.\<close>

definition from_graph_id :: "string \<Rightarrow> outpoint option" where
  "from_graph_id g =
     (case split_once CHR ''.'' g of
        None \<Rightarrow> None
      | Some (t, i) \<Rightarrow> (case parse_u32 i of None \<Rightarrow> None | Some n \<Rightarrow> Some (Outpoint t n)))"

definition to_graph_id :: "outpoint \<Rightarrow> string" where
  "to_graph_id p = op_txid p @ CHR ''.'' # show_nat (op_index p)"

record Output =
  out_txid :: txid
  output_index :: nat
  output_script :: bytes
  satoshis :: nat
  out_topic :: topic
  spent :: bool
  outputs_consumed :: "outpoint list"
  consumed_by :: "outpoint list"
  beef :: "bytes option"
  block_height :: "nat option"
  score :: "int option"

definition output_outpoint :: "Output \<Rightarrow> outpoint" where
  "output_outpoint o' = Outpoint (out_txid o') (output_index o')"

text \<open>The key of the outputs table: \<open>(txid, outputIndex, topic)\<close>.\<close>

type_synonym okey = "txid \<times> nat \<times> topic"

definition key_of :: "Output \<Rightarrow> okey" where
  "key_of o' = (out_txid o', output_index o', out_topic o')"

datatype storage_error =
    NotFound string
  | Duplicate string
  | Database string
  | Serialization string
  | Other string

datatype submit_mode = CurrentTx | HistoricalTx | HistoricalTxNoSpv

datatype admission_mode = Admit_LockingScript | Admit_WholeTx

datatype spend_notification_mode = Spend_None | Spend_Txid | Spend_Script | Spend_WholeTx

datatype output_admitted_by_topic =
    Admitted_LockingScript txid nat topic nat bytes "bytes option"
  | Admitted_WholeTx bytes nat topic "bytes option"

datatype output_spent =
    Spent_None txid nat topic
  | Spent_Txid txid nat topic txid
  | Spent_Script txid nat topic txid nat bytes nat "bytes option"
  | Spent_WholeTx txid nat topic bytes "bytes option"

record applied_transaction =
  app_txid :: txid
  app_topic :: topic

record admittance =
  outputs_to_admit :: "nat list"
  coins_to_retain :: "nat list"
  coins_removed :: "nat list option"

definition no_admittance :: admittance where
  "no_admittance = \<lparr>outputs_to_admit = [], coins_to_retain = [], coins_removed = None\<rparr>"

text \<open>
  The fields of a parsed transaction the engine reads. An empty source txid is what
  \<open>get_source_txid().unwrap_or_default()\<close> gives for an input that names none.
\<close>

record tx_input =
  source_txid :: txid
  source_output_index :: nat
  unlocking_script :: "bytes option"
  sequence :: nat

record tx_output =
  locking_script :: bytes
  tx_satoshis :: nat

record transaction =
  inputs :: "tx_input list"
  outputs :: "tx_output list"

text \<open>\<open>tx.outputs.get(i)\<close>: \<open>None\<close> out of range.\<close>

definition get_tx_output :: "transaction \<Rightarrow> nat \<Rightarrow> tx_output option" where
  "get_tx_output tx i = (if i < length (outputs tx) then Some (outputs tx ! i) else None)"

subsection \<open>Graph ids\<close>

lemma Outpoint_sel [simp]: "op_txid (Outpoint t i) = t" "op_index (Outpoint t i) = i"
  by (simp_all add: Outpoint_def)

lemma Outpoint_eq [simp]: "Outpoint t i = Outpoint t' i' \<longleftrightarrow> t = t' \<and> i = i'"
  by (simp add: Outpoint_def)

lemma Outpoint_collapse: "Outpoint (op_txid p) (op_index p) = p"
  by (simp add: Outpoint_def)

lemma dot_not_in_show_nat: "CHR ''.'' \<notin> set (show_nat n)"
  by (rule show_nat_not_in) simp

lemma from_to_graph_id:
  assumes "CHR ''.'' \<notin> set (op_txid p)" "op_index p < 2 ^ 32"
  shows "from_graph_id (to_graph_id p) = Some p"
proof -
  have "split_once CHR ''.'' (to_graph_id p) = Some (op_txid p, show_nat (op_index p))"
    using assms(1) by (simp add: split_once_Some to_graph_id_def)
  with assms(2) show ?thesis
    by (simp add: from_graph_id_def parse_u32_show_nat Outpoint_collapse)
qed

lemma from_graph_id_index: "from_graph_id g = Some p \<Longrightarrow> op_index p < 2 ^ 32 \<and> CHR ''.'' \<notin> set (op_txid p)"
  using parse_u32_less by (force simp: from_graph_id_def split_once_Some split: option.splits)

text \<open>
  The graph id of an outpoint parses back to it, for every index of a \<open>u32\<close> and every txid
  without a dot (a hex txid has none), and two such outpoints with one graph id are equal.
\<close>

theorem graph_id_round_trip:
  assumes "CHR ''.'' \<notin> set (op_txid p)" "op_index p < 2 ^ 32"
    and "CHR ''.'' \<notin> set (op_txid q)" "op_index q < 2 ^ 32"
  shows "from_graph_id (to_graph_id p) = Some p \<and> (to_graph_id p = to_graph_id q \<longrightarrow> p = q)"
  using from_to_graph_id [OF assms(1,2)] from_to_graph_id [OF assms(3,4)]
  by (metis option.inject)

theorem graph_id_round_trip_witness:
  "from_graph_id (to_graph_id (Outpoint ''ab12'' 7)) = Some (Outpoint ''ab12'' 7)"
  using graph_id_round_trip [of "Outpoint ''ab12'' 7" "Outpoint ''ab12'' 7"] by simp

end
