(* ===== verification/Deferred_Graphs.thy ===== *)
theory Deferred_Graphs
  imports Overlay_Types
begin

text \<open>
  The record of a deferred GASP graph (\<open>gasp.rs\<close>, \<open>DeferredGraph\<close>) with the reading of its reason,
  and the compact fault memo a faulted one becomes (\<open>fault_memo.rs\<close>). The size in bytes of a record
  is its JSON length, which is the serializer's and is a parameter where it is used.
\<close>

record gasp_node =
  graph_id :: string
  raw_tx :: string
  node_output_index :: nat
  proof_hex :: "string option"
  tx_metadata :: "string option"
  output_metadata :: "string option"
  node_inputs :: "(string \<times> string) list option"

record walked_node =
  node :: gasp_node
  wn_spent_by :: "string option"

record pending_input =
  pi_outpoint :: string
  pi_graph_id :: string
  pi_metadata :: bool
  pi_spent_by :: "string option"
  parent_proven :: bool

record deferred_graph =
  dg_peer :: string
  dg_topic :: topic
  dg_outpoint :: string
  dg_score :: nat
  dg_nodes :: "walked_node list"
  dg_pending :: "pending_input list"
  dg_calls :: nat
  dg_passes :: nat
  dg_reason :: string
  dg_configured :: bool
  idle_faults :: nat
  dg_cursor_passable :: bool
  dg_faults :: nat
  retry_at :: nat
  idle_resumes :: nat
  unanchorable_retries :: nat
  dg_expiry :: "nat option"

record deferred_graph_key =
  dk_outpoint :: string
  dk_score :: nat

datatype deferred_graph_save = Saved | AtCeiling

definition DEAD_REASON :: string where "DEAD_REASON = ''dead:''"
definition FAULT_RETRY_REASON :: string where "FAULT_RETRY_REASON = ''retry:fault:''"
definition UNANCHORABLE_REASON :: string where "UNANCHORABLE_REASON = ''unanchorable:''"
definition UNANCHORABLE_RETRIES :: nat where "UNANCHORABLE_RETRIES = 4"
definition EXPIRED_OUTPOINT_MEMO_SECS :: nat where "EXPIRED_OUTPOINT_MEMO_SECS = 7 * 24 * 3600"
definition EXPIRED_OUTPOINT_MEMO_MAX_ROWS :: nat where "EXPIRED_OUTPOINT_MEMO_MAX_ROWS = 20000"

definition is_struck :: "deferred_graph \<Rightarrow> bool" where
  "is_struck g =
     (dg_faults g > 0 \<and>
      (starts_with FAULT_RETRY_REASON (dg_reason g) \<or>
       starts_with UNANCHORABLE_REASON (dg_reason g) \<or>
       starts_with DEAD_REASON (dg_reason g)))"

definition is_unanchorable :: "deferred_graph \<Rightarrow> bool" where
  "is_unanchorable g = (is_struck g \<and> starts_with UNANCHORABLE_REASON (dg_reason g))"

definition is_dead :: "deferred_graph \<Rightarrow> bool" where
  "is_dead g = (is_struck g \<and> starts_with DEAD_REASON (dg_reason g))"

definition waits_idle :: "deferred_graph \<Rightarrow> nat \<Rightarrow> bool" where
  "waits_idle g now = (\<not> is_struck g \<and> dg_cursor_passable g \<and> now < retry_at g)"

definition or_else :: "'a option \<Rightarrow> 'a option \<Rightarrow> 'a option" where
  "or_else a b = (case a of Some x \<Rightarrow> Some x | None \<Rightarrow> b)"

definition fault_class :: "deferred_graph \<Rightarrow> string option" where
  "fault_class g =
     (if \<not> is_struck g then None
      else or_else (strip_prefix DEAD_REASON (dg_reason g))
             (or_else (strip_prefix UNANCHORABLE_REASON (dg_reason g))
                (strip_prefix FAULT_RETRY_REASON (dg_reason g))))"

record fault_memo =
  fm_peer :: string
  fm_topic :: topic
  fm_outpoint :: string
  fm_class :: string
  fm_faults :: nat
  fm_retries :: nat
  first_at :: nat
  next_at :: nat
  fm_score :: nat
  dead :: bool
  unanchorable :: bool
  fm_cursor_passable :: bool
  fm_expiry :: "nat option"
  fm_configured :: bool

definition FAULT_MEMO_MAX_ROWS :: nat where "FAULT_MEMO_MAX_ROWS = 20000"
definition FAULT_MEMO_DUE_LIMIT :: nat where "FAULT_MEMO_DUE_LIMIT = 128"

definition from_record :: "deferred_graph \<Rightarrow> nat \<Rightarrow> fault_memo option" where
  "from_record g observed_at =
     (case fault_class g of
        None \<Rightarrow> None
      | Some c \<Rightarrow> Some
         \<lparr>fm_peer = dg_peer g, fm_topic = dg_topic g, fm_outpoint = dg_outpoint g, fm_class = c,
          fm_faults = dg_faults g, fm_retries = unanchorable_retries g, first_at = observed_at,
          next_at = retry_at g, fm_score = dg_score g, dead = is_dead g,
          unanchorable = is_unanchorable g, fm_cursor_passable = dg_cursor_passable g,
          fm_expiry = dg_expiry g, fm_configured = dg_configured g\<rparr>)"

definition memo_prefix :: "fault_memo \<Rightarrow> string" where
  "memo_prefix m =
     (if dead m then DEAD_REASON else if unanchorable m then UNANCHORABLE_REASON else FAULT_RETRY_REASON)"

definition into_record :: "fault_memo \<Rightarrow> deferred_graph" where
  "into_record m =
     \<lparr>dg_peer = fm_peer m, dg_topic = fm_topic m, dg_outpoint = fm_outpoint m, dg_score = fm_score m,
      dg_nodes = [], dg_pending = [], dg_calls = 0, dg_passes = 0,
      dg_reason = memo_prefix m @ fm_class m, dg_configured = fm_configured m, idle_faults = 0,
      dg_cursor_passable = fm_cursor_passable m, dg_faults = fm_faults m, retry_at = next_at m,
      idle_resumes = 0, unanchorable_retries = fm_retries m, dg_expiry = fm_expiry m\<rparr>"

record fault_memo_batch =
  fb_records :: "fault_memo list"
  folded :: nat
  swept :: nat

subsection \<open>Lemmas\<close>

lemmas reason_consts = DEAD_REASON_def FAULT_RETRY_REASON_def UNANCHORABLE_REASON_def

text \<open>A memo that came from a record: it counts a fault and is not both dead and unanchorable.\<close>

definition memo_wf :: "fault_memo \<Rightarrow> bool" where
  "memo_wf m = (fm_faults m > 0 \<and> \<not> (dead m \<and> unanchorable m))"

lemma reason_prefixes_disjoint:
  "starts_with DEAD_REASON s \<Longrightarrow> \<not> starts_with UNANCHORABLE_REASON s \<and> \<not> starts_with FAULT_RETRY_REASON s"
  "starts_with UNANCHORABLE_REASON s \<Longrightarrow> \<not> starts_with FAULT_RETRY_REASON s"
  by (auto simp: starts_with_iff reason_consts)

lemma memo_reason:
  "starts_with DEAD_REASON (memo_prefix m @ c) \<longleftrightarrow> dead m"
  "starts_with UNANCHORABLE_REASON (memo_prefix m @ c) \<longleftrightarrow> \<not> dead m \<and> unanchorable m"
  "starts_with FAULT_RETRY_REASON (memo_prefix m @ c) \<longleftrightarrow> \<not> dead m \<and> \<not> unanchorable m"
  by (simp_all add: memo_prefix_def starts_with_iff reason_consts)

lemma into_record_status:
  assumes "fm_faults m > 0"
  shows "is_struck (into_record m)" "is_dead (into_record m) = dead m"
    "is_unanchorable (into_record m) = (\<not> dead m \<and> unanchorable m)"
    "fault_class (into_record m) = Some (fm_class m)"
proof -
  show s: "is_struck (into_record m)"
    using assms by (auto simp: is_struck_def into_record_def memo_reason)
  show "is_dead (into_record m) = dead m" "is_unanchorable (into_record m) = (\<not> dead m \<and> unanchorable m)"
    using s by (simp_all add: is_dead_def is_unanchorable_def) (simp_all add: into_record_def memo_reason)
  show "fault_class (into_record m) = Some (fm_class m)"
    using s by (simp add: fault_class_def)
      (simp add: into_record_def memo_prefix_def or_else_def reason_consts)
qed

lemma memo_record_round_trip: "memo_wf m \<Longrightarrow> from_record (into_record m) (first_at m) = Some m"
proof -
  assume "memo_wf m"
  then have "fm_faults m > 0" "(\<not> dead m \<and> unanchorable m) = unanchorable m"
    by (auto simp: memo_wf_def)
  then show ?thesis
    by (simp add: from_record_def into_record_status) (simp add: into_record_def)
qed

lemma from_record_wf: "from_record g t = Some m \<Longrightarrow> memo_wf m"
  using reason_prefixes_disjoint(1) [of "dg_reason g"]
  by (auto simp: from_record_def memo_wf_def fault_class_def is_struck_def is_dead_def is_unanchorable_def
      split: option.splits if_splits)

lemma from_record_iff_struck: "(\<exists>m. from_record g t = Some m) \<longleftrightarrow> is_struck g"
proof -
  have "fault_class g \<noteq> None \<longleftrightarrow> is_struck g"
    by (auto simp: fault_class_def or_else_def is_struck_def starts_with_def split: option.splits)
  then show ?thesis by (auto simp: from_record_def split: option.splits)
qed

lemma from_record_fields:
  assumes "from_record g t = Some m"
  shows "fm_peer m = dg_peer g" "fm_topic m = dg_topic g" "fm_outpoint m = dg_outpoint g"
    "first_at m = t" "next_at m = retry_at g" "fm_score m = dg_score g" "fm_faults m = dg_faults g"
    "fm_retries m = unanchorable_retries g"
  using assms by (auto simp: from_record_def split: option.splits)

text \<open>
  A fault record folded into a memo and read back as a record says the same of the graph: it is a
  fault of the same class and status (dead, unanchorable or retry), with the same key, score, counts
  and retry time, and folding it again at the same moment gives the same memo; a record that is not a
  struck one folds to nothing.
\<close>

theorem fault_memo_round_trip:
  "case from_record g t of
     None \<Rightarrow> \<not> is_struck g
   | Some m \<Rightarrow>
       is_struck g \<and> from_record (into_record m) t = Some m \<and>
       fault_class (into_record m) = fault_class g \<and>
       is_dead (into_record m) = is_dead g \<and> is_unanchorable (into_record m) = is_unanchorable g \<and>
       (dg_peer (into_record m), dg_topic (into_record m), dg_outpoint (into_record m)) =
         (dg_peer g, dg_topic g, dg_outpoint g) \<and>
       dg_score (into_record m) = dg_score g \<and> retry_at (into_record m) = retry_at g \<and>
       dg_faults (into_record m) = dg_faults g \<and>
       unanchorable_retries (into_record m) = unanchorable_retries g"
proof (cases "from_record g t")
  case None
  then show ?thesis using from_record_iff_struck [of g t] by simp
next
  case (Some m)
  have wf: "memo_wf m" using Some by (rule from_record_wf)
  then have f: "fm_faults m > 0" by (simp add: memo_wf_def)
  have d: "dead m = is_dead g" "unanchorable m = is_unanchorable g" "fault_class g = Some (fm_class m)"
    using Some by (auto simp: from_record_def split: option.splits)
  have "from_record (into_record m) t = Some m"
    using memo_record_round_trip [OF wf] from_record_fields(4) [OF Some] by simp
  moreover have "is_unanchorable (into_record m) = is_unanchorable g"
    using into_record_status(3) [OF f] wf d by (auto simp: memo_wf_def)
  moreover have "is_struck g" using from_record_iff_struck Some by blast
  ultimately show ?thesis
    using Some into_record_status [OF f] d from_record_fields [OF Some] by (simp add: into_record_def)
qed

end
