(* ===== verification/Sync_Rules.thy ===== *)
theory Sync_Rules
  imports Overlay_Prelude "HOL-Library.Char_ord" "HOL-Library.List_Lexorder"
    "HOL-Library.Product_Lexorder" "HOL-Library.Multiset"
begin

text \<open>
  The pure rules of the GASP sync: when an admitted output is served while it waits for its proof
  (\<open>proof_window.rs\<close>), how long a quiet peer is left alone (\<open>sync_load.rs\<close>), when a peer is
  quarantined or a yieldless sync counts as failed, the normalized origin of a peer URL and the one
  peer kept per origin (\<open>gasp.rs\<close>). Text is ASCII: \<open>trim\<close> drops the ASCII whitespace.
\<close>

subsection \<open>The proof window\<close>

definition PROOFLESS_FLAG_MS :: int where
  "PROOFLESS_FLAG_MS = 24 * 60 * 60 * 1000"

datatype verdict = Served | Held

definition proof_verdict :: "bool \<Rightarrow> int option \<Rightarrow> int \<Rightarrow> verdict" where
  "proof_verdict has_proof observed_ms now_ms =
     (if has_proof \<or> (case observed_ms of None \<Rightarrow> False
                       | Some seen \<Rightarrow> seen \<ge> clamp_i64 (now_ms - PROOFLESS_FLAG_MS))
      then Served else Held)"

subsection \<open>Quiet peers\<close>

definition QUIET_SYNCS_BEFORE_BACKOFF :: nat where "QUIET_SYNCS_BEFORE_BACKOFF = 3"
definition QUIET_RETRY_BASE_SECS :: nat where "QUIET_RETRY_BASE_SECS = 60"
definition QUIET_RETRY_MAX_SECS :: nat where "QUIET_RETRY_MAX_SECS = 3600"

definition quiet_retry_secs :: "nat \<Rightarrow> nat" where
  "quiet_retry_secs syncs =
     (if syncs < QUIET_SYNCS_BEFORE_BACKOFF then 0
      else min (wrap64 (QUIET_RETRY_BASE_SECS * 2 ^ min (syncs - QUIET_SYNCS_BEFORE_BACKOFF) 6))
               QUIET_RETRY_MAX_SECS)"

record peer_cadence =
  quiet_syncs :: nat
  retry_after_secs :: nat
  advertisement :: string

definition default_cadence :: peer_cadence where
  "default_cadence = \<lparr>quiet_syncs = 0, retry_after_secs = 0, advertisement = []\<rparr>"

subsection \<open>Peer health\<close>

record peer_yield_streak =
  yieldless_syncs :: nat
  secs_since_first :: "nat option"

record peer_sync_health =
  consecutive_failures :: nat
  secs_since_last_attempt :: "nat option"

definition default_streak :: peer_yield_streak where
  "default_streak = \<lparr>yieldless_syncs = 0, secs_since_first = None\<rparr>"

definition default_health :: peer_sync_health where
  "default_health = \<lparr>consecutive_failures = 0, secs_since_last_attempt = None\<rparr>"

definition PEER_QUARANTINE_THRESHOLD :: nat where "PEER_QUARANTINE_THRESHOLD = 8"
definition PEER_QUARANTINE_REPROBE_SECS :: nat where "PEER_QUARANTINE_REPROBE_SECS = 6 * 3600"
definition PEER_YIELDLESS_SYNCS_ALLOWED :: nat where "PEER_YIELDLESS_SYNCS_ALLOWED = 12"
definition PEER_YIELDLESS_SECS_ALLOWED :: nat where "PEER_YIELDLESS_SECS_ALLOWED = 3 * 3600"
definition PEER_YIELDLESS_DECAY_SECS :: nat where
  "PEER_YIELDLESS_DECAY_SECS = PEER_QUARANTINE_REPROBE_SECS"

definition yieldless_sync_failed :: "peer_yield_streak \<Rightarrow> bool" where
  "yieldless_sync_failed s =
     (yieldless_syncs s > PEER_YIELDLESS_SYNCS_ALLOWED \<and>
      (case secs_since_first s of None \<Rightarrow> False | Some secs \<Rightarrow> secs \<ge> PEER_YIELDLESS_SECS_ALLOWED))"

definition peer_sync_quarantined :: "peer_sync_health \<Rightarrow> bool" where
  "peer_sync_quarantined h =
     (consecutive_failures h \<ge> PEER_QUARANTINE_THRESHOLD \<and>
      (case secs_since_last_attempt h of None \<Rightarrow> False | Some secs \<Rightarrow> secs < PEER_QUARANTINE_REPROBE_SECS))"

definition RESUMES_SHARE_OF_PEER_BUDGET_PERCENT :: nat where
  "RESUMES_SHARE_OF_PEER_BUDGET_PERCENT = 33"

definition resume_share_ms :: "nat \<Rightarrow> nat \<Rightarrow> nat" where
  "resume_share_ms peer_budget_ms graph_budget_ms =
     saturating_mul64 peer_budget_ms RESUMES_SHARE_OF_PEER_BUDGET_PERCENT div 100"

lemmas health_consts =
  PEER_QUARANTINE_THRESHOLD_def PEER_QUARANTINE_REPROBE_SECS_def PEER_YIELDLESS_SYNCS_ALLOWED_def
  PEER_YIELDLESS_SECS_ALLOWED_def PEER_YIELDLESS_DECAY_SECS_def

subsection \<open>Peer origins\<close>

definition ascii_ws :: "char \<Rightarrow> bool" where
  "ascii_ws c = (let n = of_char c :: nat in n = 32 \<or> (9 \<le> n \<and> n \<le> 13))"

definition trim :: "string \<Rightarrow> string" where
  "trim s = rev (dropWhile ascii_ws (rev (dropWhile ascii_ws s)))"

text \<open>\<open>split_once\<close> at a string: around its first occurrence.\<close>

fun split_once_str :: "string \<Rightarrow> string \<Rightarrow> (string \<times> string) option" where
  "split_once_str d [] = (case strip_prefix d [] of Some r \<Rightarrow> Some ([], r) | None \<Rightarrow> None)"
| "split_once_str d (c # cs) =
     (case strip_prefix d (c # cs) of
        Some r \<Rightarrow> Some ([], r)
      | None \<Rightarrow> map_option (\<lambda>(a, b). (c # a, b)) (split_once_str d cs))"

text \<open>\<open>rsplit_once(d).map_or(s, |(_, h)| h)\<close>: what follows the last occurrence of \<open>d\<close>.\<close>

definition after_last :: "char \<Rightarrow> string \<Rightarrow> string" where
  "after_last d s = rev (takeWhile (\<lambda>c. c \<noteq> d) (rev s))"

definition trim_end_matches :: "char \<Rightarrow> string \<Rightarrow> string" where
  "trim_end_matches d s = rev (dropWhile (\<lambda>c. c = d) (rev s))"

definition host_and_port :: "string \<Rightarrow> string \<times> string option" where
  "host_and_port host_port =
     (case strip_prefix ''['' host_port of
        Some v6 \<Rightarrow>
          (case split_once CHR '']'' v6 of
             Some (addr, after) \<Rightarrow> (''['' @ addr @ '']'', strip_prefix '':'' after)
           | None \<Rightarrow> (host_port, None))
      | None \<Rightarrow>
          (case split_once CHR '':'' host_port of
             Some (host, port) \<Rightarrow> (host, Some port)
           | None \<Rightarrow> (host_port, None)))"

definition default_port :: "string \<Rightarrow> string" where
  "default_port scheme =
     (if scheme = ''https'' then ''443'' else if scheme = ''http'' then ''80'' else [])"

definition peer_authority :: "string \<Rightarrow> string \<times> string \<times> string option" where
  "peer_authority url0 =
     (let url = trim url0;
          (scheme0, rest) = (case split_once_str ''://'' url of Some p \<Rightarrow> p | None \<Rightarrow> (''https'', url));
          scheme = to_ascii_lowercase scheme0;
          authority = takeWhile (\<lambda>c. c \<notin> {CHR ''/'', CHR ''?'', CHR ''#''}) rest;
          (host, port) = host_and_port (after_last CHR ''@'' authority)
      in (scheme, to_ascii_lowercase (trim_end_matches CHR ''.'' host),
          case port of None \<Rightarrow> None
          | Some p \<Rightarrow> if p \<noteq> [] \<and> p \<noteq> default_port scheme then Some p else None))"

definition peer_origin :: "string \<Rightarrow> string" where
  "peer_origin url = fst (snd (peer_authority url))"

type_synonym rank = "bool \<times> bool \<times> string"

definition canonical_url :: "string \<Rightarrow> string" where
  "canonical_url domain =
     (let (scheme, origin, port) = peer_authority domain
      in case port of Some p \<Rightarrow> scheme @ ''://'' @ origin @ '':'' @ p
         | None \<Rightarrow> scheme @ ''://'' @ origin)"

definition peer_rank :: "string \<Rightarrow> rank" where
  "peer_rank domain =
     (let (scheme, origin, port) = peer_authority domain
      in (scheme \<noteq> ''https'', port \<noteq> None, canonical_url domain))"

definition ship_step :: "string \<Rightarrow> (string, rank \<times> string) table \<Rightarrow> (string, rank \<times> string) table" where
  "ship_step domain by_origin =
     (let origin = peer_origin domain; candidate = peer_rank domain
      in if origin = [] then by_origin
         else case tbl_get by_origin origin of
                Some (kept, u) \<Rightarrow> if kept \<le> candidate then by_origin
                                  else tbl_insert origin (candidate, canonical_url domain) by_origin
              | None \<Rightarrow> tbl_insert origin (candidate, canonical_url domain) by_origin)"

definition ship_table :: "string list \<Rightarrow> (string, rank \<times> string) table" where
  "ship_table domains = fold ship_step domains []"

definition ship_peers_by_origin :: "string list \<Rightarrow> string list" where
  "ship_peers_by_origin domains = sort (map (\<lambda>(k, v). snd v) (ship_table domains))"

subsection \<open>Lemmas: the window and the backoff\<close>

lemma proof_verdict_exact:
  assumes "I64_MIN \<le> now - PROOFLESS_FLAG_MS" "now \<le> I64_MAX"
  shows "proof_verdict p seen now = Served \<longleftrightarrow>
         p \<or> (\<exists>s. seen = Some s \<and> now - s \<le> PROOFLESS_FLAG_MS)"
proof -
  have "clamp_i64 (now - PROOFLESS_FLAG_MS) = now - PROOFLESS_FLAG_MS"
    using assms by (intro clamp_i64_id) (auto simp: PROOFLESS_FLAG_MS_def)
  then show ?thesis by (auto simp: proof_verdict_def split: option.splits)
qed

lemma proof_verdict_antimono_now:
  assumes "now \<le> now'" "proof_verdict p seen now' = Served"
  shows "proof_verdict p seen now = Served"
proof -
  have "clamp_i64 (now - PROOFLESS_FLAG_MS) \<le> clamp_i64 (now' - PROOFLESS_FLAG_MS)"
    using assms(1) by (intro clamp_i64_mono) simp
  with assms(2) show ?thesis
    by (auto simp: proof_verdict_def split: option.splits if_splits)
qed

lemma quiet_pow_bound: "QUIET_RETRY_BASE_SECS * 2 ^ min k 6 \<le> 3840"
proof -
  have "(2::nat) ^ min k 6 \<le> 2 ^ 6" by (rule power_increasing) simp_all
  then show ?thesis by (simp add: QUIET_RETRY_BASE_SECS_def)
qed

lemma quiet_retry_closed:
  "quiet_retry_secs n = (if n < 3 then 0 else min (60 * 2 ^ min (n - 3) 6) 3600)"
proof -
  have "QUIET_RETRY_BASE_SECS * 2 ^ min (n - 3) 6 < 2 ^ 64"
    using quiet_pow_bound [of "n - 3"] by simp
  then show ?thesis
    by (simp add: quiet_retry_secs_def QUIET_SYNCS_BEFORE_BACKOFF_def QUIET_RETRY_MAX_SECS_def
        QUIET_RETRY_BASE_SECS_def)
qed

lemma quiet_retry_mono: "m \<le> n \<Longrightarrow> quiet_retry_secs m \<le> quiet_retry_secs n"
proof -
  assume "m \<le> n"
  then have "60 * (2::nat) ^ min (m - 3) 6 \<le> 60 * 2 ^ min (n - 3) 6"
    by (intro mult_le_mono power_increasing) auto
  then have "min (60 * (2::nat) ^ min (m - 3) 6) 3600 \<le> min (60 * 2 ^ min (n - 3) 6) 3600"
    by (rule min.mono) simp
  with \<open>m \<le> n\<close> show ?thesis unfolding quiet_retry_closed by auto
qed

lemma quiet_retry_cap: "9 \<le> n \<Longrightarrow> quiet_retry_secs n = 3600"
proof -
  assume "9 \<le> n"
  then have "min (n - 3) 6 = 6" by simp
  with \<open>9 \<le> n\<close> show ?thesis by (simp add: quiet_retry_closed)
qed

subsection \<open>Lemmas: one peer per origin\<close>

text \<open>The rank of a domain carries its canonical URL, so a rank and its URL determine each other.\<close>

definition cand :: "string \<Rightarrow> rank \<times> string" where
  "cand d = (peer_rank d, canonical_url d)"

definition cands :: "string list \<Rightarrow> string \<Rightarrow> rank set" where
  "cands ds k = peer_rank ` {d \<in> set ds. peer_origin d = k}"

lemma finite_cands [simp]: "finite (cands ds k)"
  by (simp add: cands_def)

lemma cands_Cons:
  "cands (d # ds) k = (if peer_origin d = k then insert (peer_rank d) (cands ds k) else cands ds k)"
  by (auto simp: cands_def)

lemma peer_rank_url: "snd (snd (peer_rank d)) = canonical_url d"
  by (simp add: peer_rank_def split: prod.splits)

lemma ship_step_get:
  "tbl_get (ship_step d m) k =
     (if k = peer_origin d \<and> k \<noteq> [] then
        Some (case tbl_get m k of None \<Rightarrow> cand d
              | Some (r, u) \<Rightarrow> if r \<le> peer_rank d then (r, u) else cand d)
      else tbl_get m k)"
  by (auto simp: ship_step_def cand_def Let_def split: option.splits)

lemma ship_step_wf: "tbl_wf m \<Longrightarrow> tbl_wf (ship_step d m)"
  by (auto simp: ship_step_def Let_def split: option.splits)

lemma ship_table_wf: "tbl_wf (fold ship_step ds m)" if "tbl_wf m"
  using that by (induction ds arbitrary: m) (auto simp: ship_step_wf)

definition best :: "rank set \<Rightarrow> (rank \<times> string) option" where
  "best R = (if R = {} then None else Some (Min R, snd (snd (Min R))))"

lemma ship_table_snoc: "ship_table (ds @ [d]) = ship_step d (ship_table ds)"
  by (simp add: ship_table_def)

lemma cands_snoc:
  "cands (ds @ [d]) k = (if peer_origin d = k then insert (peer_rank d) (cands ds k) else cands ds k)"
  by (auto simp: cands_def)

lemma ship_table_get: "k \<noteq> [] \<Longrightarrow> tbl_get (ship_table ds) k = best (cands ds k)"
proof (induction ds rule: rev_induct)
  case Nil
  then show ?case by (simp add: ship_table_def best_def cands_def)
next
  case (snoc d ds)
  show ?case
  proof (cases "peer_origin d = k")
    case False
    with snoc show ?thesis by (simp add: ship_table_snoc ship_step_get cands_snoc)
  next
    case True
    with snoc have old: "tbl_get (ship_table ds) k = best (cands ds k)" by simp
    have new: "tbl_get (ship_table (ds @ [d])) k =
      Some (case best (cands ds k) of None \<Rightarrow> cand d
            | Some (r, u) \<Rightarrow> if r \<le> peer_rank d then (r, u) else cand d)"
      using True snoc.prems old by (simp add: ship_table_snoc ship_step_get)
    show ?thesis
    proof (cases "cands ds k = {}")
      case True
      with new \<open>peer_origin d = k\<close> show ?thesis
        by (simp add: best_def cands_snoc cand_def peer_rank_url)
    next
      case False
      define M where "M = Min (cands ds k)"
      from False have min: "Min (insert (peer_rank d) (cands ds k)) = min (peer_rank d) M"
        by (simp add: M_def)
      have "tbl_get (ship_table (ds @ [d])) k =
          Some (if M \<le> peer_rank d then (M, snd (snd M)) else cand d)"
        using new False by (simp add: best_def M_def)
      also have "\<dots> = Some (min (peer_rank d) M, snd (snd (min (peer_rank d) M)))"
        by (auto simp: min_def cand_def peer_rank_url)
      finally show ?thesis using \<open>peer_origin d = k\<close> min by (simp add: best_def cands_snoc)
    qed
  qed
qed

lemma ship_table_get_Nil: "tbl_get (ship_table ds) [] = None"
  by (induction ds rule: rev_induct) (simp_all add: ship_table_snoc ship_step_get, simp add: ship_table_def)

text \<open>Two well-formed tables with the same answers hold the same rows.\<close>

lemma tbl_same_rows:
  assumes "tbl_wf m" "tbl_wf m'" "tbl_get m = tbl_get m'"
  shows "mset m = mset m'"
proof -
  have "set m = set m'"
  proof (rule set_eqI)
    fix x show "x \<in> set m \<longleftrightarrow> x \<in> set m'"
      using assms by (cases x) (metis tbl_get_in_set)
  qed
  moreover have "distinct m" "distinct m'"
    using assms(1,2) by (auto simp: tbl_wf_def distinct_map)
  ultimately show ?thesis by (simp add: set_eq_iff_mset_eq_distinct)
qed

lemma ship_peers_same_set:
  assumes "set ds = set ds'"
  shows "ship_peers_by_origin ds = ship_peers_by_origin ds'"
proof -
  have "cands ds k = cands ds' k" for k using assms by (simp add: cands_def)
  then have "tbl_get (ship_table ds) k = tbl_get (ship_table ds') k" for k
    by (cases "k = []") (simp_all add: ship_table_get ship_table_get_Nil)
  then have "mset (ship_table ds) = mset (ship_table ds')"
    by (intro tbl_same_rows) (auto simp: ship_table_def ship_table_wf)
  then have "mset (map (\<lambda>(k, v). snd v) (ship_table ds)) = mset (map (\<lambda>(k, v). snd v) (ship_table ds'))"
    by simp
  then show ?thesis
    unfolding ship_peers_by_origin_def
    by (metis mset_sort properties_for_sort sorted_sort)
qed

lemma ship_table_keys: "fst ` set (ship_table ds) = {peer_origin d |d. d \<in> set ds \<and> peer_origin d \<noteq> []}"
proof (rule set_eqI)
  fix k
  have "k \<in> fst ` set (ship_table ds) \<longleftrightarrow> tbl_get (ship_table ds) k \<noteq> None"
    by (simp add: tbl_get_None)
  also have "\<dots> \<longleftrightarrow> k \<noteq> [] \<and> cands ds k \<noteq> {}"
    by (cases "k = []") (simp_all add: ship_table_get ship_table_get_Nil best_def del: not_None_eq)
  also have "\<dots> \<longleftrightarrow> k \<in> {peer_origin d |d. d \<in> set ds \<and> peer_origin d \<noteq> []}"
    by (auto simp: cands_def)
  finally show "k \<in> fst ` set (ship_table ds) \<longleftrightarrow> k \<in> {peer_origin d |d. d \<in> set ds \<and> peer_origin d \<noteq> []}" .
qed

lemma ship_peers_count:
  "length (ship_peers_by_origin ds) = card {peer_origin d |d. d \<in> set ds \<and> peer_origin d \<noteq> []}"
proof -
  have "tbl_wf (ship_table ds)" by (simp add: ship_table_def ship_table_wf)
  then have "card (fst ` set (ship_table ds)) = length (ship_table ds)"
    by (simp add: tbl_wf_def distinct_card [of "map fst (ship_table ds)", simplified])
  then show ?thesis by (simp add: ship_peers_by_origin_def ship_table_keys)
qed

lemma ship_peers_from:
  assumes "u \<in> set (ship_peers_by_origin ds)"
  shows "\<exists>d \<in> set ds. u = canonical_url d \<and> peer_origin d \<noteq> [] \<and>
           (\<forall>d' \<in> set ds. peer_origin d' = peer_origin d \<longrightarrow> peer_rank d \<le> peer_rank d')"
proof -
  from assms obtain k v where kv: "(k, v) \<in> set (ship_table ds)" and u: "u = snd v"
    by (auto simp: ship_peers_by_origin_def)
  have get: "tbl_get (ship_table ds) k = Some v"
    using kv by (simp add: tbl_get_in_set ship_table_def ship_table_wf)
  then have k: "k \<noteq> []" by (auto simp: ship_table_get_Nil)
  with get have b: "best (cands ds k) = Some v" by (simp add: ship_table_get)
  then have ne: "cands ds k \<noteq> {}" and v: "v = (Min (cands ds k), snd (snd (Min (cands ds k))))"
    by (auto simp: best_def split: if_splits)
  from ne have "Min (cands ds k) \<in> cands ds k" by simp
  then obtain d where d: "d \<in> set ds" "peer_origin d = k" "peer_rank d = Min (cands ds k)"
    by (auto simp: cands_def)
  have "peer_rank d \<le> peer_rank d'" if "d' \<in> set ds" "peer_origin d' = k" for d'
    using that d(3) by (auto simp: cands_def)
  moreover have "u = canonical_url d" using u v d(3) peer_rank_url [of d] by simp
  ultimately show ?thesis using d k by blast
qed

subsection \<open>Properties\<close>

text \<open>
  Of the peers discovered the sync keeps one per origin. The answer depends on the set of
  advertised domains alone, not on their order or repetition; it has exactly one URL for each origin
  that is not empty; and each URL is that of a domain whose rank (https before others, no port before
  a port, then the text) is the best of its origin.
\<close>

theorem ship_peers_one_per_origin:
  "length (ship_peers_by_origin ds) = card {peer_origin d |d. d \<in> set ds \<and> peer_origin d \<noteq> []} \<and>
   (\<forall>u \<in> set (ship_peers_by_origin ds).
      \<exists>d \<in> set ds. u = canonical_url d \<and> peer_origin d \<noteq> [] \<and>
        (\<forall>d' \<in> set ds. peer_origin d' = peer_origin d \<longrightarrow> peer_rank d \<le> peer_rank d')) \<and>
   (set ds = set ds' \<longrightarrow> ship_peers_by_origin ds = ship_peers_by_origin ds')"
  using ship_peers_count [of ds] ship_peers_from [of _ ds] ship_peers_same_set [of ds ds'] by blast

theorem ship_peers_one_per_origin_witness:
  "ship_peers_by_origin [''https://a.b'', ''https://c.d''] = ship_peers_by_origin [''https://c.d'', ''https://a.b'']"
proof -
  have "set [''https://a.b'', ''https://c.d''] = set [''https://c.d'', ''https://a.b'']" by auto
  then show ?thesis using ship_peers_one_per_origin by blast
qed

text \<open>
  A quiet peer is asked at once for its first three quiet syncs, then after one minute, doubled at
  each further quiet sync, and never after more than an hour; more quiet syncs never shorten the wait.
\<close>

theorem quiet_backoff:
  "quiet_retry_secs n = (if n < 3 then 0 else min (60 * 2 ^ (n - 3)) 3600) \<and>
   quiet_retry_secs n \<le> quiet_retry_secs (n + k)"
proof -
  have "min (60 * (2::nat) ^ min j 6) 3600 = min (60 * 2 ^ j) 3600" for j
  proof (cases "j \<le> 6")
    case False
    then have "(2::nat) ^ 6 \<le> 2 ^ j" by (intro power_increasing) simp_all
    with False show ?thesis by simp
  qed (simp add: min_def)
  then show ?thesis using quiet_retry_closed [of n] quiet_retry_mono [of n "n + k"] by simp
qed

end
