(* ===== verification/Memory_Storage.thy ===== *)
theory Memory_Storage
  imports Deferred_Graphs Sync_Rules
begin

text \<open>
  The storage the engine writes to, as \<open>MemoryStorage\<close> of \<open>storage.rs\<close> implements the \<open>Storage\<close>
  trait: the record of its tables, one definition per method, the invariant every method keeps (over
  the step relation \<open>ms_step\<close>) and what each method means for the rows held. Two clocks are read: the
  logical one, a field of the store, and the wall clock in seconds, an argument \<open>now\<close> of the methods
  that read it. \<open>usize\<close> is the 64-bit one of the hosts the memory store runs on. Whether a BEEF proves
  its transaction (\<open>has_proof\<close>) and the JSON size of a record (\<open>byte_size\<close>) are arguments.
\<close>

subsection \<open>State\<close>

type_synonym hkey = "string \<times> topic"
type_synonym gkey = "string \<times> topic \<times> string"

record memory_storage =
  ms_fault_memos :: "(gkey, fault_memo) table"
  ms_fault_memo_ceiling :: "nat option"
  ms_gasp_transactions :: "txid set"
  ms_cadence :: "(hkey, peer_cadence \<times> nat) table"
  ms_outputs :: "(okey, Output) table"
  ms_transactions :: "(txid, bytes) table"
  ms_proven :: "txid set"
  ms_applied :: "(txid \<times> topic, bool) table"
  ms_sync_state :: "(hkey, nat) table"
  ms_clock_secs :: nat
  ms_created_at :: "(txid, nat) table"
  ms_peer_health :: "(hkey, nat \<times> nat) table"
  ms_proven_at :: "(txid, nat option) table"
  ms_deferred_graphs :: "(gkey, deferred_graph) table"
  ms_deferred_graph_writes :: nat
  ms_deferred_graph_reads :: nat
  ms_deferred_graph_keys_fault :: bool
  ms_deferred_graph_ceiling :: "nat option"
  ms_deferred_graph_byte_ceiling :: "nat option"
  ms_deferred_graph_put_fault :: bool
  ms_expired_outpoints :: "(topic \<times> string, nat \<times> nat) table"
  ms_deferred_graph_put_attempts :: nat
  ms_peer_yieldless :: "(hkey, nat \<times> nat \<times> nat) table"

definition ms_new :: memory_storage where
  "ms_new =
     \<lparr>ms_fault_memos = [], ms_fault_memo_ceiling = None, ms_gasp_transactions = {}, ms_cadence = [],
      ms_outputs = [], ms_transactions = [], ms_proven = {}, ms_applied = [], ms_sync_state = [],
      ms_clock_secs = 0, ms_created_at = [], ms_peer_health = [], ms_proven_at = [],
      ms_deferred_graphs = [], ms_deferred_graph_writes = 0, ms_deferred_graph_reads = 0,
      ms_deferred_graph_keys_fault = False, ms_deferred_graph_ceiling = None,
      ms_deferred_graph_byte_ceiling = None, ms_deferred_graph_put_fault = False,
      ms_expired_outpoints = [], ms_deferred_graph_put_attempts = 0, ms_peer_yieldless = []\<rparr>"

definition graph_key :: "deferred_graph \<Rightarrow> gkey" where
  "graph_key g = (dg_peer g, dg_topic g, dg_outpoint g)"

definition seed_legacy_fault :: "deferred_graph \<Rightarrow> memory_storage \<Rightarrow> memory_storage" where
  "seed_legacy_fault g s =
     s\<lparr>ms_deferred_graphs := tbl_insert (graph_key g) g (ms_deferred_graphs s)\<rparr>"

definition advance_clock :: "nat \<Rightarrow> memory_storage \<Rightarrow> memory_storage" where
  "advance_clock secs s = s\<lparr>ms_clock_secs := wrap64 (ms_clock_secs s + secs)\<rparr>"

text \<open>The knobs: caps on what a save may add, and faults of the key read and of the saves.\<close>

definition set_fault_memo_ceiling :: "nat option \<Rightarrow> memory_storage \<Rightarrow> memory_storage" where
  "set_fault_memo_ceiling ceiling s = s\<lparr>ms_fault_memo_ceiling := ceiling\<rparr>"

definition set_deferred_graph_keys_fault :: "bool \<Rightarrow> memory_storage \<Rightarrow> memory_storage" where
  "set_deferred_graph_keys_fault fault s = s\<lparr>ms_deferred_graph_keys_fault := fault\<rparr>"

definition set_deferred_graph_ceiling :: "nat option \<Rightarrow> memory_storage \<Rightarrow> memory_storage" where
  "set_deferred_graph_ceiling ceiling s = s\<lparr>ms_deferred_graph_ceiling := ceiling\<rparr>"

definition set_deferred_graph_byte_ceiling :: "nat option \<Rightarrow> memory_storage \<Rightarrow> memory_storage" where
  "set_deferred_graph_byte_ceiling ceiling s = s\<lparr>ms_deferred_graph_byte_ceiling := ceiling\<rparr>"

definition set_deferred_graph_put_fault :: "bool \<Rightarrow> memory_storage \<Rightarrow> memory_storage" where
  "set_deferred_graph_put_fault fault s = s\<lparr>ms_deferred_graph_put_fault := fault\<rparr>"

subsection \<open>Outputs and transactions\<close>

definition stamp_created :: "txid \<Rightarrow> memory_storage \<Rightarrow> memory_storage" where
  "stamp_created t s = s\<lparr>ms_created_at := tbl_or_insert t (ms_clock_secs s) (ms_created_at s)\<rparr>"

definition age_gate_open :: "memory_storage \<Rightarrow> txid \<Rightarrow> nat \<Rightarrow> bool" where
  "age_gate_open s t min_age_secs =
     (if min_age_secs = 0 then True
      else case tbl_get (ms_created_at s) t of
             None \<Rightarrow> True
           | Some created \<Rightarrow> saturating_sub (ms_clock_secs s) created \<ge> min_age_secs)"

definition upsert_beef :: "txid \<Rightarrow> bytes \<Rightarrow> memory_storage \<Rightarrow> memory_storage" where
  "upsert_beef t b s = s\<lparr>ms_transactions := tbl_or_insert t b (ms_transactions s)\<rparr>"

definition insert_output :: "Output \<Rightarrow> memory_storage \<Rightarrow> memory_storage" where
  "insert_output o' s =
     (case tbl_get (ms_outputs s) (key_of o') of
        Some _ \<Rightarrow> (case beef o' of None \<Rightarrow> s | Some b \<Rightarrow> upsert_beef (out_txid o') b s)
      | None \<Rightarrow>
          (let s1 = s\<lparr>ms_outputs := tbl_insert (key_of o') (o'\<lparr>beef := None\<rparr>) (ms_outputs s)\<rparr>
           in case beef o' of
                None \<Rightarrow> s1
              | Some b \<Rightarrow> stamp_created (out_txid o') (upsert_beef (out_txid o') b s1)))"

definition insert_output_with_origin :: "Output \<Rightarrow> bool \<Rightarrow> memory_storage \<Rightarrow> memory_storage" where
  "insert_output_with_origin o' gasp s =
     (let s1 = insert_output o' s
      in if gasp \<and> beef o' \<noteq> None
         then s1\<lparr>ms_gasp_transactions := insert (out_txid o') (ms_gasp_transactions s1)\<rparr>
         else s1)"

definition has_remaining :: "(okey, Output) table \<Rightarrow> txid \<Rightarrow> bool" where
  "has_remaining m t = list_ex (\<lambda>((t', _, _), _). t' = t) m"

definition delete_output :: "txid \<Rightarrow> nat \<Rightarrow> topic \<Rightarrow> memory_storage \<Rightarrow> memory_storage" where
  "delete_output t i tp s =
     (let os = tbl_remove (t, i, tp) (ms_outputs s); s1 = s\<lparr>ms_outputs := os\<rparr>
      in if has_remaining os t then s1
         else s1\<lparr>ms_transactions := tbl_remove t (ms_transactions s),
                 ms_proven := ms_proven s - {t},
                 ms_gasp_transactions := ms_gasp_transactions s - {t}\<rparr>)"

definition modify_output :: "okey \<Rightarrow> (Output \<Rightarrow> Output) \<Rightarrow> memory_storage \<Rightarrow> memory_storage" where
  "modify_output k f s = s\<lparr>ms_outputs := tbl_modify k f (ms_outputs s)\<rparr>"

definition mark_utxo_as_spent :: "txid \<Rightarrow> nat \<Rightarrow> topic \<Rightarrow> memory_storage \<Rightarrow> memory_storage" where
  "mark_utxo_as_spent t i tp = modify_output (t, i, tp) (spent_update (\<lambda>_. True))"

definition update_consumed_by :: "txid \<Rightarrow> nat \<Rightarrow> topic \<Rightarrow> outpoint list \<Rightarrow> memory_storage \<Rightarrow> memory_storage" where
  "update_consumed_by t i tp ps = modify_output (t, i, tp) (consumed_by_update (\<lambda>_. ps))"

definition update_output_block_height :: "txid \<Rightarrow> nat \<Rightarrow> topic \<Rightarrow> nat \<Rightarrow> memory_storage \<Rightarrow> memory_storage" where
  "update_output_block_height t i tp h = modify_output (t, i, tp) (block_height_update (\<lambda>_. Some h))"

definition update_transaction_beef ::
  "(bytes \<Rightarrow> txid \<Rightarrow> bool) \<Rightarrow> txid \<Rightarrow> bytes \<Rightarrow> memory_storage \<Rightarrow> memory_storage" where
  "update_transaction_beef has_proof t b s =
     (let s1 = (if has_proof b t then s\<lparr>ms_proven := insert t (ms_proven s)\<rparr> else s)
      in stamp_created t (s1\<lparr>ms_transactions := tbl_insert t b (ms_transactions s1)\<rparr>))"

definition mark_transaction_proven :: "txid \<Rightarrow> memory_storage \<Rightarrow> memory_storage" where
  "mark_transaction_proven t s = s\<lparr>ms_proven := insert t (ms_proven s)\<rparr>"

definition mark_transaction_proven_at :: "txid \<Rightarrow> nat option \<Rightarrow> memory_storage \<Rightarrow> memory_storage" where
  "mark_transaction_proven_at t h s =
     s\<lparr>ms_proven := insert t (ms_proven s), ms_proven_at := tbl_insert t h (ms_proven_at s)\<rparr>"

definition proven_at_height :: "memory_storage \<Rightarrow> txid \<Rightarrow> nat option option" where
  "proven_at_height s t = tbl_get (ms_proven_at s) t"

definition insert_applied_transaction :: "txid \<Rightarrow> topic \<Rightarrow> memory_storage \<Rightarrow> memory_storage" where
  "insert_applied_transaction t tp s = s\<lparr>ms_applied := tbl_insert (t, tp) True (ms_applied s)\<rparr>"

definition does_applied_transaction_exist :: "memory_storage \<Rightarrow> txid \<Rightarrow> topic \<Rightarrow> bool" where
  "does_applied_transaction_exist s t tp = (tbl_get (ms_applied s) (t, tp) \<noteq> None)"

definition delete_applied_transaction :: "txid \<Rightarrow> topic \<Rightarrow> memory_storage \<Rightarrow> memory_storage" where
  "delete_applied_transaction t tp s = s\<lparr>ms_applied := tbl_remove (t, tp) (ms_applied s)\<rparr>"

subsection \<open>Reads of outputs\<close>

definition with_beef :: "memory_storage \<Rightarrow> bool \<Rightarrow> Output \<Rightarrow> Output" where
  "with_beef s include o' =
     (if include then o'\<lparr>beef := tbl_get (ms_transactions s) (out_txid o')\<rparr> else o')"

definition spent_matches :: "bool option \<Rightarrow> Output \<Rightarrow> bool" where
  "spent_matches f o' = (case f of None \<Rightarrow> True | Some b \<Rightarrow> spent o' = b)"

definition find_output ::
  "memory_storage \<Rightarrow> txid \<Rightarrow> nat \<Rightarrow> topic option \<Rightarrow> bool option \<Rightarrow> bool \<Rightarrow> Output option" where
  "find_output s t i tp f include =
     (let ret = (\<lambda>o'. if include then o'\<lparr>beef := tbl_get (ms_transactions s) t\<rparr> else o')
      in case tp of
           Some tp1 \<Rightarrow>
             (case tbl_get (ms_outputs s) (t, i, tp1) of
                None \<Rightarrow> None
              | Some o' \<Rightarrow> if spent_matches f o' then Some (ret o') else None)
         | None \<Rightarrow>
             map_option (\<lambda>(_, o'). ret o')
               (find (\<lambda>((t', i', _), o'). t' = t \<and> i' = i \<and> spent_matches f o') (ms_outputs s)))"

definition find_outputs_by_outpoints :: "memory_storage \<Rightarrow> outpoint list \<Rightarrow> bool \<Rightarrow> Output list" where
  "find_outputs_by_outpoints s ps include =
     List.map_filter (\<lambda>p. find_output s (op_txid p) (op_index p) None None include) ps"

definition ms_of_secs :: "nat \<Rightarrow> int option" where
  "ms_of_secs n = map_option (\<lambda>k. clamp_i64 (k * 1000)) (i64_try_from n)"

definition find_served_outputs :: "memory_storage \<Rightarrow> outpoint list \<Rightarrow> Output list" where
  "find_served_outputs s ps =
     (let now = clamp_i64 ((case i64_try_from (ms_clock_secs s) of None \<Rightarrow> I64_MAX | Some n \<Rightarrow> n) * 1000)
      in filter (\<lambda>o'.
           let seen = (case tbl_get (ms_created_at s) (out_txid o') of None \<Rightarrow> None | Some c \<Rightarrow> ms_of_secs c)
           in proof_verdict (out_txid o' \<in> ms_proven s) seen now = Served)
         (find_outputs_by_outpoints s ps True))"

definition find_outputs_for_transaction :: "memory_storage \<Rightarrow> txid \<Rightarrow> bool \<Rightarrow> Output list" where
  "find_outputs_for_transaction s t include =
     (let b = tbl_get (ms_transactions s) t
      in map (\<lambda>(_, o'). if include then o'\<lparr>beef := b\<rparr> else o')
           (filter (\<lambda>((t', _, _), _). t' = t) (ms_outputs s)))"

definition score_or_zero :: "Output \<Rightarrow> int" where
  "score_or_zero o' = (case score o' of None \<Rightarrow> 0 | Some x \<Rightarrow> x)"

definition find_utxos_for_topic ::
  "memory_storage \<Rightarrow> topic \<Rightarrow> int option \<Rightarrow> nat option \<Rightarrow> bool \<Rightarrow> Output list" where
  "find_utxos_for_topic s tp since limit include =
     (let rows = map (\<lambda>(_, o'). with_beef s include o')
                   (filter (\<lambda>((_, _, tp1), o'). tp1 = tp \<and> \<not> spent o' \<and>
                             (case since of None \<Rightarrow> True | Some x \<Rightarrow> score_or_zero o' \<ge> x)) (ms_outputs s));
          sorted_rows = sort_key score_or_zero rows
      in case limit of None \<Rightarrow> sorted_rows | Some n \<Rightarrow> take n sorted_rows)"

record transaction_beef =
  tb_txid :: txid
  tb_beef :: bytes
  early_gasp :: bool

definition find_transactions_for_proof_check :: "memory_storage \<Rightarrow> nat \<Rightarrow> nat \<Rightarrow> transaction_beef list" where
  "find_transactions_for_proof_check s limit min_age_secs =
     (let candidates =
            map (\<lambda>(t, b). \<lparr>tb_txid = t, tb_beef = b,
                           early_gasp = (t \<in> ms_gasp_transactions s \<and> \<not> age_gate_open s t min_age_secs)\<rparr>)
              (filter (\<lambda>(t, _). t \<notin> ms_proven s) (ms_transactions s))
      in take limit (filter (\<lambda>c. early_gasp c \<or> age_gate_open s (tb_txid c) min_age_secs) candidates))"

definition find_topic_outputs :: "memory_storage \<Rightarrow> topic \<Rightarrow> (txid \<times> nat) list \<Rightarrow> Output list" where
  "find_topic_outputs s tp ps = List.map_filter (\<lambda>(t, i). find_output s t i (Some tp) None False) ps"

definition find_applied_transactions :: "memory_storage \<Rightarrow> topic \<Rightarrow> txid list \<Rightarrow> txid list" where
  "find_applied_transactions s tp ts = filter (\<lambda>t. does_applied_transaction_exist s t tp) ts"

datatype page_write = PW_Output Output bool | PW_Applied txid topic | PW_Backend

fun write_batch_loop :: "page_write list \<Rightarrow> memory_storage \<Rightarrow> memory_storage \<times> storage_error option" where
  "write_batch_loop [] s = (s, None)"
| "write_batch_loop (PW_Output o' g # ws) s = write_batch_loop ws (insert_output_with_origin o' g s)"
| "write_batch_loop (PW_Applied t tp # ws) s = write_batch_loop ws (insert_applied_transaction t tp s)"
| "write_batch_loop (PW_Backend # ws) s =
     (s, Some (Other ''a backend statement this storage did not defer''))"

definition write_batch :: "page_write list \<Rightarrow> memory_storage \<Rightarrow> memory_storage \<times> (storage_error + nat)" where
  "write_batch ws s =
     (case write_batch_loop ws s of
        (s', None) \<Rightarrow> (s', Inr (length ws))
      | (s', Some e) \<Rightarrow> (s', Inl e))"

subsection \<open>Peers\<close>

definition update_last_interaction :: "string \<Rightarrow> topic \<Rightarrow> nat \<Rightarrow> memory_storage \<Rightarrow> memory_storage" where
  "update_last_interaction host tp since s =
     s\<lparr>ms_sync_state := tbl_insert (host, tp) since (ms_sync_state s)\<rparr>"

definition get_last_interaction :: "memory_storage \<Rightarrow> string \<Rightarrow> topic \<Rightarrow> nat" where
  "get_last_interaction s host tp =
     (case tbl_get (ms_sync_state s) (host, tp) of None \<Rightarrow> 0 | Some n \<Rightarrow> n)"

definition get_peer_cadence :: "memory_storage \<Rightarrow> string \<Rightarrow> topic \<Rightarrow> peer_cadence" where
  "get_peer_cadence s host tp =
     (case tbl_get (ms_cadence s) (host, tp) of
        None \<Rightarrow> default_cadence
      | Some (c, at) \<Rightarrow> c\<lparr>retry_after_secs := saturating_sub at (ms_clock_secs s)\<rparr>)"

definition set_peer_cadence :: "string \<Rightarrow> topic \<Rightarrow> peer_cadence \<Rightarrow> memory_storage \<Rightarrow> memory_storage" where
  "set_peer_cadence host tp c s =
     s\<lparr>ms_cadence := tbl_insert (host, tp)
          (c, saturating_add64 (ms_clock_secs s) (retry_after_secs c)) (ms_cadence s)\<rparr>"

definition record_peer_sync_outcome :: "string \<Rightarrow> topic \<Rightarrow> bool \<Rightarrow> memory_storage \<Rightarrow> memory_storage" where
  "record_peer_sync_outcome host tp success s =
     (let fails = (case tbl_get (ms_peer_health s) (host, tp) of None \<Rightarrow> 0 | Some (f, _) \<Rightarrow> f)
      in s\<lparr>ms_peer_health := tbl_insert (host, tp)
             (if success then 0 else wrap64 (fails + 1), ms_clock_secs s) (ms_peer_health s)\<rparr>)"

definition get_peer_sync_health :: "memory_storage \<Rightarrow> string \<Rightarrow> topic \<Rightarrow> peer_sync_health" where
  "get_peer_sync_health s host tp =
     (case tbl_get (ms_peer_health s) (host, tp) of
        None \<Rightarrow> default_health
      | Some (fails, attempt_at) \<Rightarrow>
          \<lparr>consecutive_failures = fails,
           secs_since_last_attempt = Some (saturating_sub (ms_clock_secs s) attempt_at)\<rparr>)"

definition record_peer_sync_yield ::
  "string \<Rightarrow> topic \<Rightarrow> bool \<Rightarrow> memory_storage \<Rightarrow> memory_storage \<times> peer_yield_streak" where
  "record_peer_sync_yield host tp yielded s =
     (let now = ms_clock_secs s; key = (host, tp);
          not_failed = (case tbl_get (ms_peer_health s) key of None \<Rightarrow> True | Some (f, _) \<Rightarrow> f = 0)
      in if yielded
         then (s\<lparr>ms_peer_yieldless := tbl_remove key (ms_peer_yieldless s)\<rparr>, default_streak)
         else
           let (n0, first0, last0) =
                 (case tbl_get (ms_peer_yieldless s) key of None \<Rightarrow> (0, now, now) | Some r \<Rightarrow> r);
               (n1, first1) =
                 (if n0 = 0 \<or> (not_failed \<and> saturating_sub now last0 > PEER_YIELDLESS_DECAY_SECS)
                  then (0, now) else (n0, first0));
               n2 = wrap64 (n1 + 1)
           in (s\<lparr>ms_peer_yieldless := tbl_insert key (n2, first1, now) (ms_peer_yieldless s)\<rparr>,
               \<lparr>yieldless_syncs = n2, secs_since_first = Some (saturating_sub now first1)\<rparr>))"

definition peer_yieldless_syncs :: "memory_storage \<Rightarrow> string \<Rightarrow> topic \<Rightarrow> nat" where
  "peer_yieldless_syncs s host tp =
     (case tbl_get (ms_peer_yieldless s) (peer_origin host, tp) of None \<Rightarrow> 0 | Some (n, _, _) \<Rightarrow> n)"

subsection \<open>Deferred graphs and fault memos\<close>

definition sorted_graphs :: "memory_storage \<Rightarrow> deferred_graph list" where
  "sorted_graphs s = sort_key (\<lambda>g. (dg_score g, dg_outpoint g)) (map snd (ms_deferred_graphs s))"

text \<open>The keys dropped from the memos of a topic: its oldest, by first fault and then by key.\<close>

definition cap_fault_memos :: "topic \<Rightarrow> (gkey, fault_memo) table \<Rightarrow> (gkey, fault_memo) table" where
  "cap_fault_memos tp held =
     (if length held \<le> FAULT_MEMO_MAX_ROWS then held
      else
        let keys = map (\<lambda>(k, r). (first_at r, k)) (filter (\<lambda>(_, r). fm_topic r = tp) held);
            excess = saturating_sub (length keys) FAULT_MEMO_MAX_ROWS
        in if excess > 0 then fold (\<lambda>(_, k). tbl_remove k) (take excess (sort keys)) held else held)"

definition others_size :: "(deferred_graph \<Rightarrow> nat) \<Rightarrow> gkey \<Rightarrow> (gkey, deferred_graph) table \<Rightarrow> nat" where
  "others_size byte_size key held =
     sum_list (map (\<lambda>(_, r). byte_size r) (filter (\<lambda>(k, _). k \<noteq> key) held))"

definition put_fault_memo ::
  "gkey \<Rightarrow> topic \<Rightarrow> fault_memo \<Rightarrow> memory_storage \<Rightarrow> memory_storage \<times> deferred_graph_save" where
  "put_fault_memo key tp memo s =
     (let held = ms_fault_memos s
      in if (case ms_fault_memo_ceiling s of None \<Rightarrow> False
             | Some n \<Rightarrow> tbl_get held key = None \<and> length held \<ge> n)
         then (s, AtCeiling)
         else
           let memo' = (case tbl_get held key of
                          None \<Rightarrow> memo
                        | Some prior \<Rightarrow>
                            if fm_score prior = fm_score memo then memo\<lparr>first_at := first_at prior\<rparr> else memo)
           in (s\<lparr>ms_fault_memos := cap_fault_memos tp (tbl_insert key memo' held),
                 ms_deferred_graphs := tbl_remove key (ms_deferred_graphs s),
                 ms_deferred_graph_writes := wrap64 (ms_deferred_graph_writes s + 1)\<rparr>, Saved))"

definition put_deferred_graph ::
  "(deferred_graph \<Rightarrow> nat) \<Rightarrow> nat \<Rightarrow> deferred_graph \<Rightarrow> memory_storage
     \<Rightarrow> memory_storage \<times> (storage_error + deferred_graph_save)" where
  "put_deferred_graph byte_size now g s0 =
     (let key = graph_key g;
          s = s0\<lparr>ms_deferred_graph_put_attempts := wrap64 (ms_deferred_graph_put_attempts s0 + 1)\<rparr>;
          held = ms_deferred_graphs s
      in if ms_deferred_graph_put_fault s then (s, Inl (Database ''deferred graph save faulted''))
         else case from_record g now of
           Some memo \<Rightarrow> (case put_fault_memo key (dg_topic g) memo s of (s', r) \<Rightarrow> (s', Inr r))
         | None \<Rightarrow>
             if (case ms_deferred_graph_ceiling s of None \<Rightarrow> False
                 | Some n \<Rightarrow> tbl_get held key = None \<and> length held \<ge> n)
             then (s, Inr AtCeiling)
             else if (case ms_deferred_graph_byte_ceiling s of None \<Rightarrow> False
                      | Some n \<Rightarrow> others_size byte_size key held + byte_size g > n)
             then (s, Inr AtCeiling)
             else (s\<lparr>ms_fault_memos := tbl_remove key (ms_fault_memos s),
                     ms_deferred_graph_writes := wrap64 (ms_deferred_graph_writes s + 1),
                     ms_deferred_graphs := tbl_insert key g held\<rparr>, Inr Saved))"

definition reserve_unanchorable_retry ::
  "nat \<Rightarrow> deferred_graph \<Rightarrow> memory_storage \<Rightarrow> memory_storage \<times> (storage_error + bool)" where
  "reserve_unanchorable_retry now g s0 =
     (let s = s0\<lparr>ms_deferred_graph_put_attempts := wrap64 (ms_deferred_graph_put_attempts s0 + 1)\<rparr>;
          key = graph_key g
      in if ms_deferred_graph_put_fault s then (s, Inl (Database ''retry reservation faulted''))
         else case tbl_get (ms_fault_memos s) key of
           None \<Rightarrow> (s, Inr False)
         | Some prior \<Rightarrow>
             if dead prior \<or> \<not> unanchorable prior \<or> fault_class g \<noteq> Some (fm_class prior) \<or>
                fm_score prior \<noteq> dg_score g \<or> next_at prior > now \<or>
                checked_add32 (fm_retries prior) 1 \<noteq> Some (unanchorable_retries g) \<or>
                unanchorable_retries g > UNANCHORABLE_RETRIES
             then (s, Inr False)
             else (s\<lparr>ms_fault_memos := tbl_insert key
                        (prior\<lparr>fm_retries := unanchorable_retries g, next_at := retry_at g\<rparr>) (ms_fault_memos s),
                     ms_deferred_graph_writes := wrap64 (ms_deferred_graph_writes s + 1)\<rparr>, Inr True))"

definition find_deferred_graphs ::
  "memory_storage \<Rightarrow> string \<Rightarrow> topic \<Rightarrow> storage_error + deferred_graph_key list" where
  "find_deferred_graphs s host tp =
     (if ms_deferred_graph_keys_fault s then Inl (Database ''deferred graph keys: fault'')
      else Inr (map (\<lambda>g. \<lparr>dk_outpoint = dg_outpoint g, dk_score = dg_score g\<rparr>)
             (filter (\<lambda>g. dg_peer g = host \<and> dg_topic g = tp) (sorted_graphs s))))"

definition get_deferred_graph ::
  "string \<Rightarrow> topic \<Rightarrow> string \<Rightarrow> memory_storage \<Rightarrow> memory_storage \<times> deferred_graph option" where
  "get_deferred_graph host tp p s =
     (s\<lparr>ms_deferred_graph_reads := wrap64 (ms_deferred_graph_reads s + 1)\<rparr>,
      case tbl_get (ms_fault_memos s) (host, tp, p) of
        Some memo \<Rightarrow> Some (into_record memo)
      | None \<Rightarrow> tbl_get (ms_deferred_graphs s) (host, tp, p))"

definition delete_deferred_graph :: "string \<Rightarrow> topic \<Rightarrow> string \<Rightarrow> memory_storage \<Rightarrow> memory_storage" where
  "delete_deferred_graph host tp p s =
     s\<lparr>ms_fault_memos := tbl_remove (host, tp, p) (ms_fault_memos s),
       ms_deferred_graphs := tbl_remove (host, tp, p) (ms_deferred_graphs s)\<rparr>"

definition remember_expired_outpoint :: "topic \<Rightarrow> string \<Rightarrow> nat \<Rightarrow> memory_storage \<Rightarrow> memory_storage" where
  "remember_expired_outpoint tp p expiry s =
     (let now = ms_clock_secs s;
          live = filter (\<lambda>(_, keep, _). keep > now) (ms_expired_outpoints s);
          held = tbl_insert (tp, p) (wrap64 (max expiry now + EXPIRED_OUTPOINT_MEMO_SECS), now) live;
          of_topic = map (\<lambda>((_, p'), (_, at)). (at, p')) (filter (\<lambda>((t, _), _). t = tp) held);
          cap = EXPIRED_OUTPOINT_MEMO_MAX_ROWS
      in s\<lparr>ms_expired_outpoints :=
             (if length of_topic > cap
              then fold (\<lambda>(_, p'). tbl_remove (tp, p')) (take (length of_topic - cap) (sort of_topic)) held
              else held)\<rparr>)"

definition find_expired_outpoints :: "memory_storage \<Rightarrow> topic \<Rightarrow> string list \<Rightarrow> string list" where
  "find_expired_outpoints s tp ps =
     filter (\<lambda>p. case tbl_get (ms_expired_outpoints s) (tp, p) of
                   None \<Rightarrow> False | Some (keep, _) \<Rightarrow> keep > ms_clock_secs s) ps"

subsection \<open>Reading the fault memos\<close>

text \<open>
  \<open>legacy.retain(..)\<close> of \<open>read_fault_memos\<close>: a struck record of the peer and topic leaves the deferred
  graphs for the memos, unless a memo of its key is held already.
\<close>

fun fold_legacy ::
  "string \<Rightarrow> topic \<Rightarrow> nat \<Rightarrow> (gkey, deferred_graph) table \<Rightarrow> (gkey, fault_memo) table
     \<Rightarrow> (gkey, deferred_graph) table \<times> (gkey, fault_memo) table \<times> nat" where
  "fold_legacy host tp now [] held = ([], held, 0)"
| "fold_legacy host tp now ((k, g) # rest) held =
     (if dg_peer g \<noteq> host \<or> dg_topic g \<noteq> tp
      then (case fold_legacy host tp now rest held of (kept, h, n) \<Rightarrow> ((k, g) # kept, h, n))
      else case from_record g now of
             None \<Rightarrow> (case fold_legacy host tp now rest held of (kept, h, n) \<Rightarrow> ((k, g) # kept, h, n))
           | Some memo \<Rightarrow>
               (case fold_legacy host tp now rest (tbl_or_insert k memo held) of (kept, h, n) \<Rightarrow> (kept, h, Suc n)))"

definition terminal_memo :: "string \<Rightarrow> topic \<Rightarrow> fault_memo \<Rightarrow> bool" where
  "terminal_memo host tp r = (fm_peer r = host \<and> fm_topic r = tp \<and> (dead r \<or> unanchorable r))"

definition memo_expired :: "nat \<Rightarrow> fault_memo \<Rightarrow> bool" where
  "memo_expired now r = (case fm_expiry r of None \<Rightarrow> False | Some t \<Rightarrow> t \<le> now)"

definition sweep_memo ::
  "string \<Rightarrow> topic \<Rightarrow> nat \<Rightarrow> nat \<Rightarrow> (topic \<times> string, nat \<times> nat) table \<Rightarrow> fault_memo \<Rightarrow> bool" where
  "sweep_memo host tp now logical_now expired r =
     (terminal_memo host tp r \<and>
      (memo_expired now r \<or>
       (case tbl_get expired (tp, fm_outpoint r) of None \<Rightarrow> False | Some (until, _) \<Rightarrow> until > logical_now)))"

text \<open>The first half of the method, run when no outpoints are named: fold, cap, expire, sweep.\<close>

definition settle_fault_memos ::
  "string \<Rightarrow> topic \<Rightarrow> nat \<Rightarrow> memory_storage \<Rightarrow> memory_storage \<times> nat \<times> nat" where
  "settle_fault_memos host tp now s =
     (let (legacy, held0, n) = fold_legacy host tp now (ms_deferred_graphs s) (ms_fault_memos s);
          held = cap_fault_memos tp held0;
          logical_now = ms_clock_secs s;
          expired = fold (\<lambda>(_, r). tbl_insert (tp, fm_outpoint r)
                                     (wrap64 (logical_now + EXPIRED_OUTPOINT_MEMO_SECS), logical_now))
                      (filter (\<lambda>(_, r). terminal_memo host tp r \<and> memo_expired now r) held)
                      (ms_expired_outpoints s);
          gone = filter (\<lambda>(_, r). sweep_memo host tp now logical_now expired r) held;
          kept = filter (\<lambda>(_, r). \<not> sweep_memo host tp now logical_now expired r) held
      in (s\<lparr>ms_fault_memos := kept, ms_deferred_graphs := legacy, ms_expired_outpoints := expired\<rparr>,
          n, length gone))"

definition read_fault_memos ::
  "string \<Rightarrow> topic \<Rightarrow> string list option \<Rightarrow> nat \<Rightarrow> memory_storage \<Rightarrow> memory_storage \<times> fault_memo_batch" where
  "read_fault_memos host tp keys now s0 =
     (let (s, n, m) = (case keys of None \<Rightarrow> settle_fault_memos host tp now s0 | Some _ \<Rightarrow> (s0, 0, 0));
          asked = (\<lambda>r. case keys of None \<Rightarrow> \<not> dead r \<and> next_at r \<le> now
                        | Some ks \<Rightarrow> fm_outpoint r \<in> set ks);
          rows = sort_key (\<lambda>r. (next_at r, fm_score r, fm_outpoint r))
                   (filter (\<lambda>r. fm_peer r = host \<and> fm_topic r = tp \<and> asked r) (map snd (ms_fault_memos s)))
      in (s, \<lparr>fb_records = (case keys of None \<Rightarrow> take FAULT_MEMO_DUE_LIMIT rows | Some _ \<Rightarrow> rows),
              folded = n, swept = m\<rparr>))"

end
