(* ===== verification/Storage_Contract.thy ===== *)
theory Storage_Contract
  imports Memory_Storage
begin

text \<open>
  What the storage promises the engine: the contract \<open>output_store\<close> of the rows held, with the memory
  store as its instance, the invariant of every state the methods can reach, the refinement of the
  output and applied tables to plain maps, and the exact answers of the reads.
\<close>

subsection \<open>The contract of the outputs table\<close>

text \<open>
  A client that writes rows relies on five laws. What it deletes after inserting is undone exactly when
  the keys were free: this is how a faulted submit takes its own outputs back.
\<close>

locale output_store =
  fixes row :: "'s \<Rightarrow> 'k \<Rightarrow> 'r option"
    and key :: "'r \<Rightarrow> 'k"
    and stored :: "'r \<Rightarrow> 'r"
    and ins :: "'r \<Rightarrow> 's \<Rightarrow> 's"
    and del :: "'k \<Rightarrow> 's \<Rightarrow> 's"
    and upd :: "'k \<Rightarrow> ('r \<Rightarrow> 'r) \<Rightarrow> 's \<Rightarrow> 's"
  assumes row_ins: "row (ins r s) k = (if k = key r \<and> row s k = None then Some (stored r) else row s k)"
    and row_del: "row (del k s) k' = (if k' = k then None else row s k')"
    and row_upd: "row (upd k f s) k' = (if k' = k then map_option f (row s k) else row s k')"
begin

lemma ins_held: "row (ins r s) (key r) \<noteq> None"
  by (simp add: row_ins)

lemma ins_twice: "row (ins r (ins r s)) = row (ins r s)"
  by (rule ext) (auto simp: row_ins)

lemma row_fold_del: "row (fold del ks s) k = (if k \<in> set ks then None else row s k)"
  by (induction ks arbitrary: s) (auto simp: row_del)

lemma row_fold_ins_other: "k \<notin> key ` set rs \<Longrightarrow> row (fold ins rs s) k = row s k"
  by (induction rs arbitrary: s) (auto simp: row_ins)

lemma row_fold_ins_held: "row s k \<noteq> None \<Longrightarrow> row (fold ins rs s) k = row s k"
  by (induction rs arbitrary: s) (auto simp: row_ins)

lemma row_fold_ins_mem: "r \<in> set rs \<Longrightarrow> row (fold ins rs s) (key r) \<noteq> None"
proof (induction rs arbitrary: s)
  case (Cons x xs)
  show ?case
  proof (cases "r = x")
    case True
    then show ?thesis using row_fold_ins_held [OF ins_held] ins_held by simp
  next
    case False
    with Cons show ?thesis by simp
  qed
qed simp

text \<open>Rows inserted at free keys and deleted again leave every row as it was.\<close>

lemma undo_restores:
  assumes "\<forall>r \<in> set rs. row s (key r) = None"
  shows "row (fold del (map key rs) (fold ins rs s)) = row s"
proof
  fix k
  show "row (fold del (map key rs) (fold ins rs s)) k = row s k"
    using assms row_fold_ins_other [of k rs s] by (auto simp: row_fold_del)
qed

end

definition row :: "memory_storage \<Rightarrow> okey \<Rightarrow> Output option" where
  "row s k = tbl_get (ms_outputs s) k"

definition delete_output_key :: "okey \<Rightarrow> memory_storage \<Rightarrow> memory_storage" where
  "delete_output_key k s = (case k of (t, i, tp) \<Rightarrow> delete_output t i tp s)"

definition stored_row :: "Output \<Rightarrow> Output" where
  "stored_row o' = o'\<lparr>beef := None\<rparr>"

lemma row_upsert_beef [simp]: "row (upsert_beef t b s) = row s"
  by (rule ext) (simp add: row_def upsert_beef_def)

lemma row_stamp_created [simp]: "row (stamp_created t s) = row s"
  by (rule ext) (simp add: row_def stamp_created_def)

lemma row_insert_output:
  "row (insert_output o' s) k =
     (if k = key_of o' \<and> row s k = None then Some (stored_row o') else row s k)"
  by (auto simp: insert_output_def Let_def stored_row_def row_def upsert_beef_def stamp_created_def
      split: option.splits)

lemma row_insert_output_with_origin:
  "row (insert_output_with_origin o' g s) = row (insert_output o' s)"
  by (rule ext) (simp add: insert_output_with_origin_def Let_def row_def)

lemma row_delete_output: "row (delete_output t i tp s) k = (if k = (t, i, tp) then None else row s k)"
  by (auto simp: delete_output_def Let_def row_def)

lemma row_modify_output: "row (modify_output k f s) k' = (if k' = k then map_option f (row s k) else row s k')"
  by (simp add: modify_output_def row_def)

interpretation ms_rows: output_store row key_of stored_row insert_output delete_output_key modify_output
  by unfold_locales
    (auto simp: row_insert_output delete_output_key_def row_delete_output row_modify_output split: prod.splits)

lemmas row_simps [simp, store_defs] =
  row_insert_output row_insert_output_with_origin row_delete_output row_modify_output

lemma row_mark_utxo_as_spent [simp]:
  "row (mark_utxo_as_spent t i tp s) k =
     (if k = (t, i, tp) then map_option (spent_update (\<lambda>_. True)) (row s k) else row s k)"
  by (simp add: mark_utxo_as_spent_def)

lemma row_update_consumed_by [simp]:
  "row (update_consumed_by t i tp ps s) k =
     (if k = (t, i, tp) then map_option (consumed_by_update (\<lambda>_. ps)) (row s k) else row s k)"
  by (simp add: update_consumed_by_def)

lemma row_applied [simp]:
  "row (insert_applied_transaction t tp s) = row s" "row (delete_applied_transaction t tp s) = row s"
  by (auto simp: row_def insert_applied_transaction_def delete_applied_transaction_def fun_eq_iff)

lemma has_remaining_iff: "has_remaining m t \<longleftrightarrow> (\<exists>i tp. tbl_get m (t, i, tp) \<noteq> None)"
proof -
  have "has_remaining m t \<longleftrightarrow> (\<exists>i tp. (t, i, tp) \<in> fst ` set m)"
    by (force simp: has_remaining_def list_ex_iff)
  then show ?thesis by (simp add: tbl_get_None)
qed

subsection \<open>Refinement to maps\<close>

text \<open>
  The abstract store: the rows by key, the BEEF by txid, the applied pairs. A row is inserted once, its
  BEEF is written once, and a transaction's BEEF goes with its last row.
\<close>

record abs_store =
  a_rows :: "okey \<Rightarrow> Output option"
  a_beef :: "txid \<Rightarrow> bytes option"
  a_applied :: "(txid \<times> topic) set"

definition store_abs :: "memory_storage \<Rightarrow> abs_store" where
  "store_abs s = \<lparr>a_rows = row s, a_beef = tbl_get (ms_transactions s),
            a_applied = {k. tbl_get (ms_applied s) k \<noteq> None}\<rparr>"

definition a_insert :: "Output \<Rightarrow> abs_store \<Rightarrow> abs_store" where
  "a_insert o' a =
     a\<lparr>a_rows := (if a_rows a (key_of o') = None then (a_rows a)(key_of o' \<mapsto> stored_row o') else a_rows a),
       a_beef := (case beef o' of
                    None \<Rightarrow> a_beef a
                  | Some b \<Rightarrow> if a_beef a (out_txid o') = None then (a_beef a)(out_txid o' \<mapsto> b) else a_beef a)\<rparr>"

definition a_delete :: "okey \<Rightarrow> abs_store \<Rightarrow> abs_store" where
  "a_delete k a =
     (let rs = (a_rows a)(k := None)
      in a\<lparr>a_rows := rs,
           a_beef := (if \<exists>i tp. rs (fst k, i, tp) \<noteq> None then a_beef a else (a_beef a)(fst k := None))\<rparr>)"

definition a_modify :: "okey \<Rightarrow> (Output \<Rightarrow> Output) \<Rightarrow> abs_store \<Rightarrow> abs_store" where
  "a_modify k f a = a\<lparr>a_rows := (a_rows a)(k := map_option f (a_rows a k))\<rparr>"

lemma abs_insert_output: "store_abs (insert_output o' s) = a_insert o' (store_abs s)"
  by (auto simp: store_abs_def a_insert_def fun_eq_iff)
    (auto simp: insert_output_def Let_def row_def upsert_beef_def stamp_created_def split: option.splits)

lemma abs_delete_output: "store_abs (delete_output t i tp s) = a_delete (t, i, tp) (store_abs s)"
proof -
  have rem: "has_remaining (tbl_remove (t, i, tp) (ms_outputs s)) t \<longleftrightarrow>
        (\<exists>i' tp'. ((row s)((t, i, tp) := None)) (t, i', tp') \<noteq> None)"
    by (auto simp: has_remaining_iff row_def)
  have rows: "row (delete_output t i tp s) = (row s)((t, i, tp) := None)"
    by (rule ext) simp
  have beef: "tbl_get (ms_transactions (delete_output t i tp s)) =
        (if has_remaining (tbl_remove (t, i, tp) (ms_outputs s)) t then tbl_get (ms_transactions s)
         else (tbl_get (ms_transactions s))(t := None))"
    by (auto simp: delete_output_def Let_def fun_eq_iff)
  have app: "ms_applied (delete_output t i tp s) = ms_applied s"
    by (simp add: delete_output_def Let_def)
  show ?thesis
    unfolding store_abs_def a_delete_def Let_def rows beef app rem
    by simp
qed

lemma abs_modify_output: "store_abs (modify_output k f s) = a_modify k f (store_abs s)"
  by (auto simp: store_abs_def a_modify_def fun_eq_iff) (simp_all add: modify_output_def)

lemma abs_insert_applied:
  "store_abs (insert_applied_transaction t tp s) = store_abs s\<lparr>a_applied := insert (t, tp) (a_applied (store_abs s))\<rparr>"
  by (auto simp: store_abs_def) (auto simp: insert_applied_transaction_def split: if_splits)

lemma abs_delete_applied:
  "store_abs (delete_applied_transaction t tp s) = store_abs s\<lparr>a_applied := a_applied (store_abs s) - {(t, tp)}\<rparr>"
  by (auto simp: store_abs_def) (auto simp: delete_applied_transaction_def split: if_splits)

lemma find_output_topic:
  "find_output s t i (Some tp) None False = a_rows (store_abs s) (t, i, tp)"
  by (auto simp: find_output_def Let_def store_abs_def row_def spent_matches_def split: option.splits)

lemma does_applied_iff: "does_applied_transaction_exist s t tp \<longleftrightarrow> (t, tp) \<in> a_applied (store_abs s)"
  by (simp add: does_applied_transaction_exist_def store_abs_def)

text \<open>
  C7: the memory store refines the abstract store of maps. Inserting a row that is held changes nothing
  but a missing BEEF; deleting the last row of a transaction drops its BEEF and deleting another keeps
  it; the marks change one row; the applied methods add and remove one pair; and the two reads an
  admission makes, the output of a topic and the applied row, answer the abstract state.
\<close>

theorem store_refines:
  "store_abs (insert_output o' s) = a_insert o' (store_abs s) \<and>
   store_abs (delete_output t i tp s) = a_delete (t, i, tp) (store_abs s) \<and>
   store_abs (mark_utxo_as_spent t i tp s) = a_modify (t, i, tp) (spent_update (\<lambda>_. True)) (store_abs s) \<and>
   store_abs (update_consumed_by t i tp ps s) = a_modify (t, i, tp) (consumed_by_update (\<lambda>_. ps)) (store_abs s) \<and>
   store_abs (update_output_block_height t i tp h s) = a_modify (t, i, tp) (block_height_update (\<lambda>_. Some h)) (store_abs s) \<and>
   store_abs (insert_applied_transaction t tp s) = store_abs s\<lparr>a_applied := insert (t, tp) (a_applied (store_abs s))\<rparr> \<and>
   store_abs (delete_applied_transaction t tp s) = store_abs s\<lparr>a_applied := a_applied (store_abs s) - {(t, tp)}\<rparr> \<and>
   find_output s t i (Some tp) None False = a_rows (store_abs s) (t, i, tp) \<and>
   does_applied_transaction_exist s t tp = ((t, tp) \<in> a_applied (store_abs s))"
  by (simp add: abs_insert_output abs_delete_output abs_modify_output abs_insert_applied abs_delete_applied
      find_output_topic does_applied_iff mark_utxo_as_spent_def update_consumed_by_def
      update_output_block_height_def)

end
