(* ===== verification/Storage_Invariant.thy ===== *)
theory Storage_Invariant
  imports Storage_Contract
begin

text \<open>
  The invariant of the memory store: its tables have distinct keys, a row lies under its own key and
  carries no inline BEEF, a deferred graph and a fault memo lie under their own key, a memo is one a
  fault record gives, no topic holds more memos than \<open>FAULT_MEMO_MAX_ROWS\<close>, and no transaction was
  stored after the present. Every method keeps it, so it holds in every state a client can reach.
\<close>

definition graph_keyed :: "gkey \<times> deferred_graph \<Rightarrow> bool" where
  "graph_keyed e = (graph_key (snd e) = fst e)"

definition memo_key :: "fault_memo \<Rightarrow> gkey" where
  "memo_key r = (fm_peer r, fm_topic r, fm_outpoint r)"

definition memo_ok :: "gkey \<times> fault_memo \<Rightarrow> bool" where
  "memo_ok e = (memo_key (snd e) = fst e \<and> memo_wf (snd e))"

definition row_ok :: "okey \<times> Output \<Rightarrow> bool" where
  "row_ok e = (key_of (snd e) = fst e \<and> beef (snd e) = None)"

text \<open>A table whose entries all satisfy a predicate.\<close>

definition table_ok :: "('k \<times> 'v \<Rightarrow> bool) \<Rightarrow> ('k, 'v) table \<Rightarrow> bool" where
  "table_ok P m = (tbl_wf m \<and> (\<forall>e \<in> set m. P e))"

definition topic_memos :: "topic \<Rightarrow> (gkey, fault_memo) table \<Rightarrow> (gkey, fault_memo) table" where
  "topic_memos tp m = filter (\<lambda>(_, r). fm_topic r = tp) m"

definition memos_ok :: "(gkey, fault_memo) table \<Rightarrow> bool" where
  "memos_ok m = (table_ok memo_ok m \<and> (\<forall>tp. length (topic_memos tp m) \<le> FAULT_MEMO_MAX_ROWS))"

definition ms_inv :: "memory_storage \<Rightarrow> bool" where
  "ms_inv s =
     (table_ok row_ok (ms_outputs s) \<and> tbl_wf (ms_transactions s) \<and> tbl_wf (ms_applied s) \<and>
      memos_ok (ms_fault_memos s) \<and> table_ok graph_keyed (ms_deferred_graphs s) \<and>
      tbl_wf (ms_expired_outpoints s) \<and>
      table_ok (\<lambda>(_, c). c \<le> ms_clock_secs s) (ms_created_at s))"

subsection \<open>Tables\<close>

lemma table_ok_alt: "table_ok P m \<longleftrightarrow> tbl_wf m \<and> (\<forall>k v. tbl_get m k = Some v \<longrightarrow> P (k, v))"
  by (auto simp: table_ok_def tbl_get_in_set)

lemma table_ok_Nil [simp]: "table_ok P []"
  by (simp add: table_ok_def)

lemma table_ok_insert [intro]: "table_ok P m \<Longrightarrow> P (k, v) \<Longrightarrow> table_ok P (tbl_insert k v m)"
  by (auto simp: table_ok_alt split: if_splits)

lemma table_ok_or_insert [intro]: "table_ok P m \<Longrightarrow> P (k, v) \<Longrightarrow> table_ok P (tbl_or_insert k v m)"
  by (auto simp: table_ok_alt split: if_splits option.splits)

lemma table_ok_remove [intro]: "table_ok P m \<Longrightarrow> table_ok P (tbl_remove k m)"
  by (auto simp: table_ok_alt split: if_splits)

lemma table_ok_modify [intro]:
  "table_ok P m \<Longrightarrow> (\<And>v. P (k, v) \<Longrightarrow> P (k, f v)) \<Longrightarrow> table_ok P (tbl_modify k f m)"
  by (auto simp: table_ok_alt split: if_splits)

lemma table_ok_filter [intro]: "table_ok P m \<Longrightarrow> table_ok P (filter Q m)"
  by (auto simp: table_ok_def)

lemma tbl_remove_filter: "tbl_remove k m = filter (\<lambda>(k', _). k' \<noteq> k) m"
  unfolding tbl_remove_def AList.delete_eq by (rule filter_cong) auto

lemma fold_remove_filter:
  "fold (\<lambda>x. tbl_remove (g x)) xs m = filter (\<lambda>(k, _). k \<notin> g ` set xs) m"
proof (induction xs arbitrary: m)
  case (Cons x xs)
  show ?case
    unfolding fold_Cons comp_apply Cons unfolding tbl_remove_filter filter_filter
    by (rule filter_cong) auto
qed (simp add: case_prod_unfold)

lemma length_filter_drop_keys:
  assumes "distinct (map fst rows)" "K \<subseteq> fst ` set rows"
  shows "length (filter (\<lambda>(k, _). k \<notin> K) rows) = length rows - card K"
proof -
  have eq: "map fst (filter (\<lambda>(k, _). k \<notin> K) rows) = filter (\<lambda>k. k \<notin> K) (map fst rows)"
    by (simp add: filter_map comp_def case_prod_unfold)
  have "length (filter (\<lambda>(k, _). k \<notin> K) rows) = card (set (filter (\<lambda>k. k \<notin> K) (map fst rows)))"
    using assms(1) eq distinct_card [of "filter (\<lambda>k. k \<notin> K) (map fst rows)"]
    by (metis distinct_filter length_map)
  also have "set (filter (\<lambda>k. k \<notin> K) (map fst rows)) = fst ` set rows - K"
    by auto
  also have "card (fst ` set rows - K) = length rows - card K"
    using assms card_Diff_subset [of K "fst ` set rows"] finite_subset [OF assms(2)]
    by (metis distinct_card finite_imageI length_map list.set_map finite_set)
  finally show ?thesis .
qed

subsection \<open>The cap of the fault memos\<close>

definition memo_age :: "gkey \<times> fault_memo \<Rightarrow> nat \<times> gkey" where
  "memo_age = (\<lambda>(k, r). (first_at r, k))"

definition capped_keys :: "topic \<Rightarrow> (gkey, fault_memo) table \<Rightarrow> gkey set" where
  "capped_keys tp m =
     (if length m \<le> FAULT_MEMO_MAX_ROWS then {}
      else snd ` set (take (length (topic_memos tp m) - FAULT_MEMO_MAX_ROWS)
                        (sort (map memo_age (topic_memos tp m)))))"

lemma cap_fault_memos_filter: "cap_fault_memos tp m = filter (\<lambda>(k, _). k \<notin> capped_keys tp m) m"
proof -
  let ?xs = "take (length (topic_memos tp m) - FAULT_MEMO_MAX_ROWS) (sort (map memo_age (topic_memos tp m)))"
  have cap: "cap_fault_memos tp m =
      (if length m \<le> FAULT_MEMO_MAX_ROWS then m
       else if length (topic_memos tp m) - FAULT_MEMO_MAX_ROWS > 0
       then fold (\<lambda>x. tbl_remove (snd x)) ?xs m else m)"
    unfolding cap_fault_memos_def topic_memos_def memo_age_def Let_def
    by (simp add: case_prod_unfold)
  have "fold (\<lambda>x. tbl_remove (snd x)) ?xs m = filter (\<lambda>(k, _). k \<notin> snd ` set ?xs) m"
    by (rule fold_remove_filter)
  then show ?thesis unfolding cap capped_keys_def by (simp add: case_prod_unfold)
qed

lemma memo_age_inj: "tbl_wf m \<Longrightarrow> inj_on snd (memo_age ` set m)"
  by (fastforce simp: inj_on_def memo_age_def tbl_wf_def distinct_map)

lemma card_capped_keys:
  assumes "tbl_wf m" "length m > FAULT_MEMO_MAX_ROWS"
  shows "card (capped_keys tp m) = length (topic_memos tp m) - FAULT_MEMO_MAX_ROWS"
    and "capped_keys tp m \<subseteq> fst ` set (topic_memos tp m)"
proof -
  let ?rows = "topic_memos tp m" let ?ages = "sort (map memo_age (topic_memos tp m))"
  have wf: "tbl_wf ?rows" using assms(1) by (simp add: topic_memos_def)
  have "map snd (map memo_age ?rows) = map fst ?rows"
    by (simp add: memo_age_def case_prod_unfold)
  with wf have "distinct (map memo_age ?rows)" by (metis distinct_map tbl_wf_def)
  then have d: "distinct ?ages" by simp
  have sub: "set (take n ?ages) \<subseteq> memo_age ` set ?rows" for n
    using set_take_subset [of n ?ages] by simp
  have "card (snd ` set (take n ?ages)) = card (set (take n ?ages))" for n
    using memo_age_inj [OF wf] sub [of n] by (intro card_image) (rule inj_on_subset)
  also have "card (set (take n ?ages)) = min (length ?rows) n" for n
    using distinct_card [OF distinct_take [OF d, of n]] by simp
  finally show "card (capped_keys tp m) = length ?rows - FAULT_MEMO_MAX_ROWS"
    using assms(2) by (simp add: capped_keys_def)
  have "snd ` memo_age ` set ?rows = fst ` set ?rows"
    by (force simp: memo_age_def)
  then have "snd ` set (take n ?ages) \<subseteq> fst ` set ?rows" for n
    using image_mono [OF sub] by metis
  then show "capped_keys tp m \<subseteq> fst ` set ?rows"
    by (simp add: capped_keys_def)
qed

lemma cap_fault_memos_bound:
  assumes "tbl_wf m"
  shows "length (topic_memos tp (cap_fault_memos tp m)) \<le> FAULT_MEMO_MAX_ROWS"
proof (cases "length m \<le> FAULT_MEMO_MAX_ROWS")
  case True
  then show ?thesis
    by (simp add: cap_fault_memos_def topic_memos_def le_trans [OF length_filter_le])
next
  case False
  let ?K = "capped_keys tp m"
  have "topic_memos tp (cap_fault_memos tp m) = filter (\<lambda>(k, _). k \<notin> ?K) (topic_memos tp m)"
    unfolding cap_fault_memos_filter topic_memos_def filter_filter by (rule filter_cong) auto
  moreover have "length (filter (\<lambda>(k, _). k \<notin> ?K) (topic_memos tp m)) = length (topic_memos tp m) - card ?K"
    using assms False card_capped_keys(2) [of m tp]
    by (intro length_filter_drop_keys) (auto simp: topic_memos_def distinct_map_filter tbl_wf_def)
  ultimately show ?thesis using card_capped_keys(1) [OF assms, of tp] False by simp
qed

lemma topic_memos_filter_le: "length (topic_memos tp (filter Q m)) \<le> length (topic_memos tp m)"
  by (induction m) (auto simp: topic_memos_def)

lemma memos_ok_filter [intro]: "memos_ok m \<Longrightarrow> memos_ok (filter Q m)"
  unfolding memos_ok_def by (meson table_ok_filter topic_memos_filter_le le_trans)

lemma memos_ok_remove [intro]: "memos_ok m \<Longrightarrow> memos_ok (tbl_remove k m)"
  by (simp add: tbl_remove_filter memos_ok_filter)

text \<open>
  After a cap of a topic every topic is within the bound when the others were before: the shape every
  insertion has.
\<close>

lemma memos_ok_cap:
  assumes "table_ok memo_ok m" "\<And>t. t \<noteq> tp \<Longrightarrow> length (topic_memos t m) \<le> FAULT_MEMO_MAX_ROWS"
  shows "memos_ok (cap_fault_memos tp m)"
proof -
  have "length (topic_memos t (cap_fault_memos tp m)) \<le> FAULT_MEMO_MAX_ROWS" for t
  proof (cases "t = tp")
    case True
    then show ?thesis using assms(1) cap_fault_memos_bound by (simp add: table_ok_def)
  next
    case False
    then show ?thesis
      using assms(2) topic_memos_filter_le le_trans by (metis cap_fault_memos_filter)
  qed
  with assms(1) show ?thesis by (auto simp: memos_ok_def cap_fault_memos_filter)
qed

lemma topic_memos_insert_other:
  "fm_topic v \<noteq> t \<Longrightarrow> length (topic_memos t (tbl_insert k v m)) \<le> length (topic_memos t m)"
  by (induction m) (auto simp: topic_memos_def tbl_insert_def)

lemma topic_memos_replace:
  "tbl_get m k = Some r \<Longrightarrow> fm_topic v = fm_topic r \<Longrightarrow>
     length (topic_memos t (tbl_insert k v m)) = length (topic_memos t m)"
  by (induction m) (auto simp: topic_memos_def tbl_insert_def tbl_get_def)

lemma memos_ok_insert_cap:
  assumes "memos_ok m" "memo_ok (k, v)" "fm_topic v = tp"
  shows "memos_ok (cap_fault_memos tp (tbl_insert k v m))"
proof (rule memos_ok_cap)
  show "table_ok memo_ok (tbl_insert k v m)" using assms by (auto simp: memos_ok_def)
  fix t assume "t \<noteq> tp"
  with assms show "length (topic_memos t (tbl_insert k v m)) \<le> FAULT_MEMO_MAX_ROWS"
    using topic_memos_insert_other [of v t k m] by (auto simp: memos_ok_def intro: le_trans)
qed

lemma from_record_memo_ok: "from_record g t = Some m \<Longrightarrow> memo_ok (graph_key g, m) \<and> fm_topic m = dg_topic g"
  using from_record_wf from_record_fields by (auto simp: memo_ok_def memo_key_def graph_key_def)

subsection \<open>Each method keeps the invariant\<close>

lemma ms_inv_new: "ms_inv ms_new"
  by (simp add: ms_inv_def ms_new_def memos_ok_def topic_memos_def)

lemma ms_inv_stamp_created: "ms_inv s \<Longrightarrow> ms_inv (stamp_created t s)"
  by (auto simp: ms_inv_def stamp_created_def)

lemma ms_inv_upsert_beef: "ms_inv s \<Longrightarrow> ms_inv (upsert_beef t b s)"
  by (auto simp: ms_inv_def upsert_beef_def)

lemma ms_inv_insert_output: "ms_inv s \<Longrightarrow> ms_inv (insert_output o' s)"
proof -
  assume inv: "ms_inv s"
  have "ms_inv (s\<lparr>ms_outputs := tbl_insert (key_of o') (o'\<lparr>beef := None\<rparr>) (ms_outputs s)\<rparr>)"
    using inv by (auto simp: ms_inv_def row_ok_def key_of_def)
  with inv show ?thesis
    by (auto simp: insert_output_def Let_def ms_inv_stamp_created ms_inv_upsert_beef split: option.splits)
qed

lemma ms_inv_insert_with_origin: "ms_inv s \<Longrightarrow> ms_inv (insert_output_with_origin o' g s)"
  using ms_inv_insert_output [of s o'] by (auto simp: insert_output_with_origin_def Let_def ms_inv_def)

lemma ms_inv_delete_output: "ms_inv s \<Longrightarrow> ms_inv (delete_output t i tp s)"
  by (auto simp: ms_inv_def delete_output_def Let_def)

lemma ms_inv_modify_output:
  "ms_inv s \<Longrightarrow> (\<And>o'. key_of (f o') = key_of o' \<and> beef (f o') = beef o') \<Longrightarrow> ms_inv (modify_output k f s)"
  by (auto simp: ms_inv_def modify_output_def row_ok_def intro!: table_ok_modify)

lemma ms_inv_update_beef: "ms_inv s \<Longrightarrow> ms_inv (update_transaction_beef hp t b s)"
  unfolding update_transaction_beef_def Let_def
  by (rule ms_inv_stamp_created) (auto simp: ms_inv_def)

lemma ms_inv_put_fault_memo:
  assumes "ms_inv s" "memo_ok (k, m)" "fm_topic m = tp"
  shows "ms_inv (fst (put_fault_memo k tp m s))"
proof -
  have "memos_ok (cap_fault_memos tp (tbl_insert k (m\<lparr>first_at := n\<rparr>) (ms_fault_memos s)))" for n
    using assms by (intro memos_ok_insert_cap) (auto simp: ms_inv_def memo_ok_def memo_key_def memo_wf_def)
  moreover have "memos_ok (cap_fault_memos tp (tbl_insert k m (ms_fault_memos s)))"
    using assms by (intro memos_ok_insert_cap) (auto simp: ms_inv_def)
  ultimately show ?thesis
    using assms(1) by (auto simp: put_fault_memo_def Let_def ms_inv_def split: option.splits if_splits)
qed

lemma ms_inv_attempts [simp]: "ms_inv (s\<lparr>ms_deferred_graph_put_attempts := n\<rparr>) = ms_inv s"
  by (simp add: ms_inv_def)

lemma ms_inv_put_deferred: "ms_inv s \<Longrightarrow> ms_inv (fst (put_deferred_graph bs now g s))"
proof -
  let ?s = "s\<lparr>ms_deferred_graph_put_attempts := wrap64 (ms_deferred_graph_put_attempts s + 1)\<rparr>"
  assume "ms_inv s"
  then have inv: "ms_inv ?s" by simp
  show ?thesis
  proof (cases "from_record g now")
    case None
    with inv show ?thesis
      by (auto simp: put_deferred_graph_def Let_def ms_inv_def graph_keyed_def split: option.splits)
  next
    case (Some m)
    have "ms_inv (fst (put_fault_memo (graph_key g) (dg_topic g) m ?s))"
      using inv from_record_memo_ok [OF Some] by (intro ms_inv_put_fault_memo) auto
    with Some inv show ?thesis
      by (auto simp: put_deferred_graph_def Let_def split: prod.splits)
  qed
qed

lemma ms_inv_reserve: "ms_inv s \<Longrightarrow> ms_inv (fst (reserve_unanchorable_retry now g s))"
proof -
  assume inv: "ms_inv s"
  have "memos_ok (tbl_insert (graph_key g) (r\<lparr>fm_retries := a, next_at := b\<rparr>) (ms_fault_memos s))"
    if r: "tbl_get (ms_fault_memos s) (graph_key g) = Some r" for r a b
  proof -
    have ok: "memos_ok (ms_fault_memos s)" using inv by (simp add: ms_inv_def)
    then have "memo_ok (graph_key g, r)" using r unfolding memos_ok_def table_ok_alt by blast
    then have "memo_ok (graph_key g, r\<lparr>fm_retries := a, next_at := b\<rparr>)"
      by (simp add: memo_ok_def memo_key_def memo_wf_def)
    with ok topic_memos_replace [OF r, of "r\<lparr>fm_retries := a, next_at := b\<rparr>"] show ?thesis
      by (auto simp: memos_ok_def)
  qed
  with inv show ?thesis
    by (auto simp: reserve_unanchorable_retry_def Let_def ms_inv_def split: option.splits)
qed

lemma fold_legacy_kept:
  "fst (fold_legacy host tp now gs held) =
     filter (\<lambda>(_, g). dg_peer g \<noteq> host \<or> dg_topic g \<noteq> tp \<or> from_record g now = None) gs"
  by (induction host tp now gs held rule: fold_legacy.induct) (auto split: option.splits prod.splits)

lemma fold_legacy_held:
  assumes "\<forall>e \<in> set gs. graph_keyed e" "table_ok memo_ok held"
    and "\<And>t. t \<noteq> tp \<Longrightarrow> length (topic_memos t held) \<le> N"
  shows "table_ok memo_ok (fst (snd (fold_legacy host tp now gs held))) \<and>
    (\<forall>t. t \<noteq> tp \<longrightarrow> length (topic_memos t (fst (snd (fold_legacy host tp now gs held)))) \<le> N)"
  using assms
proof (induction host tp now gs held rule: fold_legacy.induct)
  case (2 host tp now k g rest held)
  show ?case
  proof (cases "dg_peer g = host \<and> dg_topic g = tp \<and> from_record g now \<noteq> None")
    case False
    then show ?thesis using 2 by (auto split: option.splits prod.splits)
  next
    case True
    then obtain m where m: "from_record g now = Some m" by auto
    have "k = graph_key g" using "2.prems"(1) by (simp add: graph_keyed_def)
    then have mk: "memo_ok (k, m)" "fm_topic m = tp"
      using from_record_memo_ok [OF m] True by auto
    have "table_ok memo_ok (tbl_or_insert k m held)" using "2.prems"(2) mk by auto
    moreover have "length (topic_memos t (tbl_or_insert k m held)) \<le> N" if "t \<noteq> tp" for t
      using that "2.prems"(3) [OF that] topic_memos_insert_other [of m t k held] mk
      by (auto simp: tbl_or_insert_def split: option.splits)
    ultimately show ?thesis using "2.IH"(3) "2.prems"(1) True m by (auto split: prod.splits)
  qed
qed auto

lemma tbl_wf_fold_insert: "tbl_wf m \<Longrightarrow> tbl_wf (fold (\<lambda>x. tbl_insert (f x) (g x)) xs m)"
  by (induction xs arbitrary: m) auto

lemma ms_inv_settle: "ms_inv s \<Longrightarrow> ms_inv (fst (settle_fault_memos host tp now s))"
proof -
  assume inv: "ms_inv s"
  obtain legacy held n where f: "fold_legacy host tp now (ms_deferred_graphs s) (ms_fault_memos s) = (legacy, held, n)"
    by (metis prod_cases3)
  have "table_ok graph_keyed legacy"
    using inv fold_legacy_kept [of host tp now "ms_deferred_graphs s" "ms_fault_memos s"] f
    by (auto simp: ms_inv_def)
  moreover have "memos_ok (cap_fault_memos tp held)"
    using fold_legacy_held [of "ms_deferred_graphs s" "ms_fault_memos s" tp FAULT_MEMO_MAX_ROWS host now] inv f
    by (intro memos_ok_cap) (auto simp: ms_inv_def memos_ok_def table_ok_def)
  ultimately show ?thesis
    using inv by (auto simp: settle_fault_memos_def f Let_def ms_inv_def case_prod_unfold tbl_wf_fold_insert)
qed

lemma ms_inv_read_memos: "ms_inv s \<Longrightarrow> ms_inv (fst (read_fault_memos host tp keys now s))"
  using ms_inv_settle [of s host tp now]
  by (auto simp: read_fault_memos_def Let_def split: option.splits prod.splits)

lemma ms_inv_remember_expired: "ms_inv s \<Longrightarrow> ms_inv (remember_expired_outpoint tp p e s)"
  by (auto simp: remember_expired_outpoint_def Let_def ms_inv_def case_prod_unfold fold_remove_filter)

lemma ms_inv_write_batch: "ms_inv s \<Longrightarrow> ms_inv (fst (write_batch ws s))"
proof -
  have "ms_inv s \<Longrightarrow> ms_inv (fst (write_batch_loop ws s))"
    by (induction ws s rule: write_batch_loop.induct)
      (auto simp: ms_inv_insert_with_origin, auto simp: ms_inv_def insert_applied_transaction_def)
  then show "ms_inv s \<Longrightarrow> ms_inv (fst (write_batch ws s))"
    by (auto simp: write_batch_def split: prod.splits option.splits)
qed

subsection \<open>Reachable stores\<close>

text \<open>
  One step is one call of a method that writes. The clock's step is one that does not overflow
  \<open>u64\<close>; the test hook that seeds a legacy record is a step too.
\<close>

inductive ms_step :: "(bytes \<Rightarrow> txid \<Rightarrow> bool) \<Rightarrow> (deferred_graph \<Rightarrow> nat) \<Rightarrow> memory_storage \<Rightarrow> memory_storage \<Rightarrow> bool"
  for hp :: "bytes \<Rightarrow> txid \<Rightarrow> bool" and bs :: "deferred_graph \<Rightarrow> nat" where
  step_insert: "ms_step hp bs s (insert_output o' s)"
| step_insert_origin: "ms_step hp bs s (insert_output_with_origin o' g s)"
| step_delete: "ms_step hp bs s (delete_output t i tp s)"
| step_mark: "ms_step hp bs s (mark_utxo_as_spent t i tp s)"
| step_consumed: "ms_step hp bs s (update_consumed_by t i tp ps s)"
| step_height: "ms_step hp bs s (update_output_block_height t i tp h s)"
| step_beef: "ms_step hp bs s (update_transaction_beef hp t b s)"
| step_proven: "ms_step hp bs s (mark_transaction_proven t s)"
| step_proven_at: "ms_step hp bs s (mark_transaction_proven_at t ho s)"
| step_applied: "ms_step hp bs s (insert_applied_transaction t tp s)"
| step_unapplied: "ms_step hp bs s (delete_applied_transaction t tp s)"
| step_batch: "ms_step hp bs s (fst (write_batch ws s))"
| step_interaction: "ms_step hp bs s (update_last_interaction host tp n s)"
| step_cadence: "ms_step hp bs s (set_peer_cadence host tp c s)"
| step_outcome: "ms_step hp bs s (record_peer_sync_outcome host tp ok s)"
| step_yield: "ms_step hp bs s (fst (record_peer_sync_yield host tp y s))"
| step_put: "ms_step hp bs s (fst (put_deferred_graph bs now g s))"
| step_reserve: "ms_step hp bs s (fst (reserve_unanchorable_retry now g s))"
| step_get_deferred: "ms_step hp bs s (fst (get_deferred_graph host tp p s))"
| step_delete_deferred: "ms_step hp bs s (delete_deferred_graph host tp p s)"
| step_memos: "ms_step hp bs s (fst (read_fault_memos host tp keys now s))"
| step_expired: "ms_step hp bs s (remember_expired_outpoint tp p e s)"
| step_legacy: "ms_step hp bs s (seed_legacy_fault g s)"
| step_memo_ceiling: "ms_step hp bs s (set_fault_memo_ceiling c s)"
| step_keys_fault: "ms_step hp bs s (set_deferred_graph_keys_fault f s)"
| step_graph_ceiling: "ms_step hp bs s (set_deferred_graph_ceiling c s)"
| step_byte_ceiling: "ms_step hp bs s (set_deferred_graph_byte_ceiling c s)"
| step_put_fault: "ms_step hp bs s (set_deferred_graph_put_fault f s)"
| step_clock: "ms_clock_secs s + n < 2 ^ 64 \<Longrightarrow> ms_step hp bs s (advance_clock n s)"

inductive ms_reachable :: "(bytes \<Rightarrow> txid \<Rightarrow> bool) \<Rightarrow> (deferred_graph \<Rightarrow> nat) \<Rightarrow> memory_storage \<Rightarrow> bool"
  for hp :: "bytes \<Rightarrow> txid \<Rightarrow> bool" and bs :: "deferred_graph \<Rightarrow> nat" where
  reach_new: "ms_reachable hp bs ms_new"
| reach_step: "ms_reachable hp bs s \<Longrightarrow> ms_step hp bs s s' \<Longrightarrow> ms_reachable hp bs s'"

lemma ms_inv_modify_fields:
  assumes "ms_inv s"
  shows "ms_inv (mark_utxo_as_spent t i tp s)" "ms_inv (update_consumed_by t i tp ps s)"
    "ms_inv (update_output_block_height t i tp h s)"
  unfolding mark_utxo_as_spent_def update_consumed_by_def update_output_block_height_def
  using assms by (intro ms_inv_modify_output; simp add: key_of_def)+

lemma ms_inv_small_steps:
  assumes "ms_inv s"
  shows "ms_inv (mark_transaction_proven t s)" "ms_inv (mark_transaction_proven_at t ho s)"
    "ms_inv (insert_applied_transaction t tp s)" "ms_inv (delete_applied_transaction t tp s)"
    "ms_inv (update_last_interaction host tp n s)" "ms_inv (set_peer_cadence host tp c s)"
    "ms_inv (record_peer_sync_outcome host tp ok s)"
    "ms_inv (fst (record_peer_sync_yield host tp y s))"
    "ms_inv (fst (get_deferred_graph host tp p s))"
    "ms_inv (delete_deferred_graph host tp p s)" "ms_inv (seed_legacy_fault g s)"
  using assms
  by (auto simp: ms_inv_def mark_transaction_proven_def mark_transaction_proven_at_def
      insert_applied_transaction_def delete_applied_transaction_def update_last_interaction_def
      set_peer_cadence_def record_peer_sync_outcome_def record_peer_sync_yield_def get_deferred_graph_def
      delete_deferred_graph_def seed_legacy_fault_def graph_keyed_def Let_def case_prod_unfold)

lemma ms_inv_knobs [simp]:
  "ms_inv (set_fault_memo_ceiling c s) = ms_inv s" "ms_inv (set_deferred_graph_keys_fault f s) = ms_inv s"
  "ms_inv (set_deferred_graph_ceiling c s) = ms_inv s" "ms_inv (set_deferred_graph_byte_ceiling c s) = ms_inv s"
  "ms_inv (set_deferred_graph_put_fault f s) = ms_inv s"
  by (simp_all add: ms_inv_def set_fault_memo_ceiling_def set_deferred_graph_keys_fault_def
      set_deferred_graph_ceiling_def set_deferred_graph_byte_ceiling_def set_deferred_graph_put_fault_def)

lemma ms_inv_clock: "ms_inv s \<Longrightarrow> ms_clock_secs s + n < 2 ^ 64 \<Longrightarrow> ms_inv (advance_clock n s)"
  by (fastforce simp: ms_inv_def advance_clock_def table_ok_def)

lemma ms_step_inv: "ms_step hp bs s s' \<Longrightarrow> ms_inv s \<Longrightarrow> ms_inv s'"
  by (induction rule: ms_step.induct)
    (simp_all add: ms_inv_insert_output ms_inv_insert_with_origin ms_inv_delete_output ms_inv_modify_fields
      ms_inv_small_steps ms_inv_update_beef ms_inv_write_batch ms_inv_put_deferred ms_inv_reserve
      ms_inv_read_memos ms_inv_remember_expired ms_inv_clock)

lemma ms_reachable_ms_inv: "ms_reachable hp bs s \<Longrightarrow> ms_inv s"
  by (induction rule: ms_reachable.induct) (auto simp: ms_inv_new ms_step_inv)

end
