(* ===== verification/Storage_Properties.thy ===== *)
theory Storage_Properties
  imports Storage_Invariant
begin

text \<open>
  The properties of the storage component: the invariant of every reachable store, the exact answers of
  its reads, the life of a deferred graph and of a fault memo, and the health of a peer.
\<close>

definition sample_output :: Output where
  "sample_output =
     \<lparr>out_txid = ''aa'', output_index = 0, output_script = [], satoshis = 1000, out_topic = ''tm_a'',
      spent = False, outputs_consumed = [], consumed_by = [], beef = Some [1, 2], block_height = None,
      score = Some 7\<rparr>"

definition sample_store :: memory_storage where
  "sample_store = insert_output sample_output ms_new"

definition sample_fault :: deferred_graph where
  "sample_fault =
     \<lparr>dg_peer = ''p'', dg_topic = ''tm_a'', dg_outpoint = ''aa.0'', dg_score = 5, dg_nodes = [],
      dg_pending = [], dg_calls = 3, dg_passes = 2, dg_reason = ''unanchorable:courier'',
      dg_configured = False, idle_faults = 0, dg_cursor_passable = True, dg_faults = 3, retry_at = 900,
      idle_resumes = 0, unanchorable_retries = 0, dg_expiry = None\<rparr>"

definition sample_fault_store :: memory_storage where
  "sample_fault_store = fst (put_deferred_graph (\<lambda>_. 0) 100 sample_fault ms_new)"

definition sample_retry :: deferred_graph where
  "sample_retry = sample_fault\<lparr>unanchorable_retries := 1, retry_at := 5000\<rparr>"

definition unspent_row :: "topic \<Rightarrow> int option \<Rightarrow> Output \<Rightarrow> bool" where
  "unspent_row tp since r =
     (out_topic r = tp \<and> \<not> spent r \<and> (case since of None \<Rightarrow> True | Some x \<Rightarrow> score_or_zero r \<ge> x))"

definition fail_times :: "nat \<Rightarrow> string \<Rightarrow> topic \<Rightarrow> memory_storage \<Rightarrow> memory_storage" where
  "fail_times n host tp s = (record_peer_sync_outcome host tp False ^^ n) s"

subsection \<open>Reachability\<close>

lemma sample_store_inv: "ms_inv sample_store"
  by (simp add: sample_store_def ms_inv_insert_output ms_inv_new)

lemma sample_store_reachable: "ms_reachable hp bs sample_store"
  unfolding sample_store_def by (rule reach_step [OF reach_new step_insert])

text \<open>
  C8: every store that calls of the storage methods can reach keeps its invariant: distinct keys, each
  row under its own (txid, index, topic) key and without inline BEEF, each graph and memo under its own
  (peer, topic, outpoint) key, memos that a fault record gives, at most 20000 memos a topic, and no
  first-store stamp in the future.
\<close>

theorem reachable_store_ok: "ms_reachable hp bs s \<Longrightarrow> ms_inv s"
  by (rule ms_reachable_ms_inv)

theorem reachable_store_ok_witness: "ms_inv (insert_output sample_output ms_new)"
  using reachable_store_ok [of "\<lambda>_ _. False" "\<lambda>_. 0" sample_store] sample_store_reachable
  by (simp add: sample_store_def)

subsection \<open>Unspent outputs of a topic\<close>

lemma with_beef_simps [simp]:
  "key_of (with_beef s b r) = key_of r" "score_or_zero (with_beef s b r) = score_or_zero r"
  by (simp_all add: with_beef_def key_of_def score_or_zero_def)

lemma utxo_rows:
  assumes "ms_inv s"
  shows "filter (\<lambda>((_, _, t), r). t = tp \<and> \<not> spent r \<and>
           (case since of None \<Rightarrow> True | Some x \<Rightarrow> score_or_zero r \<ge> x)) (ms_outputs s) =
         filter (\<lambda>(_, r). unspent_row tp since r) (ms_outputs s)"
proof -
  have "key_of (snd e) = fst e" if "e \<in> set (ms_outputs s)" for e
    using assms that by (auto simp: ms_inv_def table_ok_def row_ok_def)
  then show ?thesis
    by (intro filter_cong refl) (fastforce simp: unspent_row_def key_of_def)
qed

lemma row_in_outputs: "ms_inv s \<Longrightarrow> row s k = Some r \<longleftrightarrow> (k, r) \<in> set (ms_outputs s)"
  by (simp add: row_def tbl_get_in_set ms_inv_def table_ok_def)

lemma inv_row_key: "ms_inv s \<Longrightarrow> row s k = Some r \<Longrightarrow> key_of r = k"
  using row_in_outputs [of s k r] by (auto simp: ms_inv_def table_ok_def row_ok_def)

lemma distinct_map_row_keys:
  "ms_inv s \<Longrightarrow> distinct (map (\<lambda>e. key_of (snd e)) (filter P (ms_outputs s)))"
proof -
  assume inv: "ms_inv s"
  have "map (\<lambda>e. key_of (snd e)) (filter P (ms_outputs s)) = map fst (filter P (ms_outputs s))"
    using inv by (intro map_cong) (auto simp: ms_inv_def table_ok_def row_ok_def)
  moreover have "distinct (map fst (filter P (ms_outputs s)))"
    using inv by (simp add: ms_inv_def table_ok_def tbl_wf_def distinct_map_filter)
  ultimately show ?thesis by (simp only:)
qed

text \<open>
  The unspent outputs of a topic come back in the order of their scores, each row once; without a
  limit they are exactly the topic's unspent rows at or after \<open>since\<close>, with the transaction's BEEF when
  it is asked for, and a limit \<open>n\<close> gives the first \<open>n\<close> of them, so no row left out scores below one
  returned.
\<close>

theorem utxos_for_topic_exact:
  assumes "ms_inv s"
  shows "sorted (map score_or_zero (find_utxos_for_topic s tp since None inc)) \<and>
    distinct (map key_of (find_utxos_for_topic s tp since None inc)) \<and>
    set (find_utxos_for_topic s tp since None inc) =
      {with_beef s inc r | r k. row s k = Some r \<and> unspent_row tp since r} \<and>
    find_utxos_for_topic s tp since (Some n) inc = take n (find_utxos_for_topic s tp since None inc)"
proof -
  let ?rows = "filter (\<lambda>(_, r). unspent_row tp since r) (ms_outputs s)"
  have eq: "find_utxos_for_topic s tp since None inc =
      sort_key score_or_zero (map (\<lambda>(_, r). with_beef s inc r) ?rows)"
    unfolding find_utxos_for_topic_def Let_def utxo_rows [OF assms] by simp
  have "distinct (map key_of (map (\<lambda>(_, r). with_beef s inc r) ?rows))"
    using distinct_map_row_keys [OF assms] by (simp add: case_prod_unfold comp_def)
  moreover have "mset (map key_of (sort_key f xs)) = mset (map key_of xs)" for f :: "Output \<Rightarrow> int" and xs
    by simp
  ultimately have "distinct (map key_of (find_utxos_for_topic s tp since None inc))"
    unfolding eq using mset_eq_imp_distinct_iff by blast
  moreover have "set (find_utxos_for_topic s tp since None inc) =
      {with_beef s inc r | r k. row s k = Some r \<and> unspent_row tp since r}"
    unfolding eq using row_in_outputs [OF assms] by force
  moreover have "find_utxos_for_topic s tp since (Some n) inc = take n (find_utxos_for_topic s tp since None inc)"
    by (simp add: find_utxos_for_topic_def Let_def)
  ultimately show ?thesis by (simp add: eq)
qed

theorem utxos_for_topic_exact_witness:
  "ms_inv sample_store \<and>
   find_utxos_for_topic sample_store ''tm_a'' None (Some 1) True =
     take 1 (find_utxos_for_topic sample_store ''tm_a'' None None True)"
  using utxos_for_topic_exact [of sample_store "''tm_a''" None True 1] sample_store_inv by blast

subsection \<open>Transactions waiting for a proof\<close>

text \<open>
  The transactions to check for a proof are stored ones whose proof flag is not set, each once, and
  past the age gate unless a sync admitted them; no more than the limit, and all of them when the limit
  leaves room. A transaction with no stamp counts as old.
\<close>

theorem proof_check_exact:
  assumes "ms_inv s"
  shows "length (find_transactions_for_proof_check s n age) \<le> n \<and>
    distinct (map tb_txid (find_transactions_for_proof_check s n age)) \<and>
    (\<forall>c \<in> set (find_transactions_for_proof_check s n age).
       tbl_get (ms_transactions s) (tb_txid c) = Some (tb_beef c) \<and> tb_txid c \<notin> ms_proven s \<and>
       (age_gate_open s (tb_txid c) age \<or> tb_txid c \<in> ms_gasp_transactions s)) \<and>
    (length (ms_transactions s) \<le> n \<longrightarrow>
       tb_txid ` set (find_transactions_for_proof_check s n age) =
       {t. tbl_get (ms_transactions s) t \<noteq> None \<and> t \<notin> ms_proven s \<and>
           (age_gate_open s t age \<or> t \<in> ms_gasp_transactions s)})"
proof -
  define cand where "cand = map (\<lambda>(t, b). \<lparr>tb_txid = t, tb_beef = b,
      early_gasp = (t \<in> ms_gasp_transactions s \<and> \<not> age_gate_open s t age)\<rparr>)
      (filter (\<lambda>(t, _). t \<notin> ms_proven s) (ms_transactions s))"
  define rows where "rows = filter (\<lambda>c. early_gasp c \<or> age_gate_open s (tb_txid c) age) cand"
  have fc: "find_transactions_for_proof_check s n age = take n rows"
    by (simp add: find_transactions_for_proof_check_def Let_def cand_def rows_def)
  have wf: "tbl_wf (ms_transactions s)" using assms by (simp add: ms_inv_def)
  have "map tb_txid cand = map fst (filter (\<lambda>(t, _). t \<notin> ms_proven s) (ms_transactions s))"
    by (simp add: cand_def case_prod_unfold)
  then have "distinct (map tb_txid cand)" using wf by (simp add: tbl_wf_def distinct_map_filter)
  then have d: "distinct (map tb_txid rows)" by (simp add: rows_def distinct_map_filter)
  have mem: "c \<in> set rows \<Longrightarrow> tbl_get (ms_transactions s) (tb_txid c) = Some (tb_beef c) \<and>
      tb_txid c \<notin> ms_proven s \<and> (age_gate_open s (tb_txid c) age \<or> tb_txid c \<in> ms_gasp_transactions s)" for c
    using wf by (auto simp: rows_def cand_def tbl_get_in_set)
  have all: "t \<in> tb_txid ` set rows" if t: "tbl_get (ms_transactions s) t \<noteq> None" "t \<notin> ms_proven s"
    "age_gate_open s t age \<or> t \<in> ms_gasp_transactions s" for t
  proof -
    obtain b where "tbl_get (ms_transactions s) t = Some b" using t(1) by blast
    then have "(t, b) \<in> set (ms_transactions s)" using wf by (simp add: tbl_get_in_set)
    with t(2,3) show ?thesis by (force simp: rows_def cand_def)
  qed
  have len: "length rows \<le> length (ms_transactions s)"
    unfolding rows_def cand_def by (meson length_filter_le le_trans length_map [THEN eq_refl])
  have "\<forall>c \<in> set (take n rows). tbl_get (ms_transactions s) (tb_txid c) = Some (tb_beef c) \<and>
      tb_txid c \<notin> ms_proven s \<and> (age_gate_open s (tb_txid c) age \<or> tb_txid c \<in> ms_gasp_transactions s)"
    using mem set_take_subset by fast
  moreover have "distinct (map tb_txid (take n rows))" using d by (simp add: take_map [symmetric])
  moreover have "tb_txid ` set rows = {t. tbl_get (ms_transactions s) t \<noteq> None \<and> t \<notin> ms_proven s \<and>
           (age_gate_open s t age \<or> t \<in> ms_gasp_transactions s)}"
    using mem all by blast
  ultimately show ?thesis unfolding fc using len by auto
qed

theorem proof_check_exact_witness:
  "ms_inv sample_store \<and> length (find_transactions_for_proof_check sample_store 3 0) \<le> 3"
  using proof_check_exact [of sample_store 3 0] sample_store_inv by blast

subsection \<open>Served outputs\<close>

lemma clamp_ms: "n \<le> 2 ^ 53 \<Longrightarrow> i64_try_from n = Some (int n) \<and> clamp_i64 (int n * 1000) = int n * 1000"
  by (auto simp: i64_try_from_def clamp_i64_def I64_MAX_def I64_MIN_def)

text \<open>
  An output a lookup found is served exactly when its transaction is proven or was first stored
  within the last 24 hours; a transaction with no stamp and no proof is held. The clock is a count of
  seconds below \<open>2 ^ 53\<close>.
\<close>

theorem served_outputs_window:
  assumes "ms_inv s" "ms_clock_secs s \<le> 2 ^ 53"
  shows "set (find_served_outputs s ps) =
    {o' \<in> set (find_outputs_by_outpoints s ps True).
       out_txid o' \<in> ms_proven s \<or>
       (\<exists>c. tbl_get (ms_created_at s) (out_txid o') = Some c \<and> ms_clock_secs s \<le> c + 86400)}"
proof -
  have now: "i64_try_from (ms_clock_secs s) = Some (int (ms_clock_secs s))"
    "clamp_i64 (int (ms_clock_secs s) * 1000) = int (ms_clock_secs s) * 1000"
    using clamp_ms [OF assms(2)] by auto
  have created: "ms_of_secs c = Some (int c * 1000)" if "tbl_get (ms_created_at s) t = Some c" for t c
  proof -
    have "c \<le> ms_clock_secs s" using assms(1) that by (auto simp: ms_inv_def table_ok_alt)
    then have "c \<le> 2 ^ 53" using assms(2) by simp
    then show ?thesis using clamp_ms by (simp add: ms_of_secs_def)
  qed
  have floor: "clamp_i64 (int n * 1000 - PROOFLESS_FLAG_MS) = int n * 1000 - 86400000" if "n \<le> 2 ^ 53" for n
    using that by (auto simp: clamp_i64_def PROOFLESS_FLAG_MS_def I64_MAX_def I64_MIN_def)
  have "proof_verdict p (case tbl_get (ms_created_at s) t of None \<Rightarrow> None | Some c \<Rightarrow> ms_of_secs c)
          (int (ms_clock_secs s) * 1000) = Served \<longleftrightarrow>
        p \<or> (\<exists>c. tbl_get (ms_created_at s) t = Some c \<and> ms_clock_secs s \<le> c + 86400)" for p t
    using floor [OF assms(2)] created [of t]
    by (cases "tbl_get (ms_created_at s) t") (auto simp: proof_verdict_def)
  then show ?thesis
    by (auto simp: find_served_outputs_def Let_def now)
qed

theorem served_outputs_window_witness:
  "set (find_served_outputs sample_store [Outpoint ''aa'' 0]) =
    {o' \<in> set (find_outputs_by_outpoints sample_store [Outpoint ''aa'' 0] True).
       out_txid o' \<in> ms_proven sample_store \<or>
       (\<exists>c. tbl_get (ms_created_at sample_store) (out_txid o') = Some c \<and> ms_clock_secs sample_store \<le> c + 86400)}"
  by (rule served_outputs_window [OF sample_store_inv])
    (simp add: sample_store_def insert_output_def ms_new_def sample_output_def stamp_created_def
      upsert_beef_def Let_def)

subsection \<open>Deferred graphs\<close>

definition held_graph :: "memory_storage \<Rightarrow> gkey \<Rightarrow> deferred_graph option" where
  "held_graph s k = (case k of (host, tp, p) \<Rightarrow> snd (get_deferred_graph host tp p s))"

definition held_bytes :: "(deferred_graph \<Rightarrow> nat) \<Rightarrow> memory_storage \<Rightarrow> nat" where
  "held_bytes bs s = sum_list (map (\<lambda>(_, g). bs g) (ms_deferred_graphs s))"

lemma held_graph_alt:
  "held_graph s k = (case tbl_get (ms_fault_memos s) k of Some m \<Rightarrow> Some (into_record m)
                     | None \<Rightarrow> tbl_get (ms_deferred_graphs s) k)"
  by (simp add: held_graph_def get_deferred_graph_def split: prod.splits)

lemma sum_list_insert_wf:
  "tbl_wf m \<Longrightarrow> sum_list (map (\<lambda>(_, g). bs g) (tbl_insert k v m)) = others_size bs k m + bs v"
proof (induction m)
  case (Cons e m)
  obtain k' g where e: "e = (k', g)" by (cases e)
  show ?case
  proof (cases "k' = k")
    case True
    then have "k \<notin> fst ` set m" using Cons.prems e by (simp add: tbl_wf_def)
    then have "filter (\<lambda>(k', _). k' \<noteq> k) m = m" by (intro filter_True) force
    with True e show ?thesis by (simp add: others_size_def tbl_insert_def)
  next
    case False
    with Cons e show ?thesis by (simp add: others_size_def tbl_insert_def tbl_wf_def)
  qed
qed (simp add: others_size_def tbl_insert_def)

text \<open>
  saving a graph that is not a fault. A refused or faulted save leaves every record as it was; a
  save that is taken gives the record back, whole, to the next read, leaves every other record as it
  was, and keeps the records held within the count ceiling's room and their bytes within the byte
  ceiling.
\<close>

theorem put_graph_exact:
  assumes "ms_inv s" "from_record g now = None"
  shows "case put_deferred_graph bs now g s of
     (s', Inl e) \<Rightarrow> ms_deferred_graph_put_fault s \<and> held_graph s' = held_graph s
   | (s', Inr AtCeiling) \<Rightarrow> held_graph s' = held_graph s
   | (s', Inr Saved) \<Rightarrow>
       held_graph s' = (held_graph s)(graph_key g := Some g) \<and>
       (\<forall>n. ms_deferred_graph_byte_ceiling s = Some n \<longrightarrow> held_bytes bs s' \<le> n) \<and>
       (\<forall>n. ms_deferred_graph_ceiling s = Some n \<and> tbl_get (ms_deferred_graphs s) (graph_key g) = None \<longrightarrow>
            length (ms_deferred_graphs s) < n)"
proof -
  have wf: "tbl_wf (ms_deferred_graphs s)" using assms(1) by (simp add: ms_inv_def table_ok_def)
  show ?thesis
    using assms(2) sum_list_insert_wf [OF wf, of bs "graph_key g" g]
    by (auto simp: put_deferred_graph_def Let_def held_graph_alt held_bytes_def fun_eq_iff
        split: option.splits if_splits)
qed

theorem put_graph_exact_witness:
  "held_graph (fst (put_deferred_graph (\<lambda>_. 0) 100 (sample_fault\<lparr>dg_reason := ''busy''\<rparr>) ms_new)) =
   (held_graph ms_new)(graph_key sample_fault := Some (sample_fault\<lparr>dg_reason := ''busy''\<rparr>))"
proof -
  have nf: "from_record (sample_fault\<lparr>dg_reason := ''busy''\<rparr>) 100 = None"
    by (simp add: from_record_def fault_class_def is_struck_def starts_with_def reason_consts)
  show ?thesis
    using put_graph_exact [OF ms_inv_new nf, of "\<lambda>_. 0"] nf
    by (simp add: put_deferred_graph_def Let_def ms_new_def graph_key_def)
qed

subsection \<open>Reserving a retry of an unanchorable root\<close>

text \<open>
  A reservation is taken only for a held unanchorable memo of the same class and score whose wait
  is over, and only as the next retry in turn, the fourth at most; taken, it is written and the same
  reservation made again is refused, so of two workers one wins. Refused, it changes no memo.
\<close>

theorem reserve_retry_once:
  "case reserve_unanchorable_retry now g s of
     (s', Inl e) \<Rightarrow> ms_fault_memos s' = ms_fault_memos s
   | (s', Inr False) \<Rightarrow> ms_fault_memos s' = ms_fault_memos s
   | (s', Inr True) \<Rightarrow>
       (\<exists>r. tbl_get (ms_fault_memos s) (graph_key g) = Some r \<and> unanchorable r \<and> \<not> dead r \<and>
            next_at r \<le> now \<and> fm_score r = dg_score g \<and> fault_class g = Some (fm_class r) \<and>
            unanchorable_retries g = fm_retries r + 1 \<and> fm_retries r < UNANCHORABLE_RETRIES \<and>
            tbl_get (ms_fault_memos s') (graph_key g) =
              Some (r\<lparr>fm_retries := unanchorable_retries g, next_at := retry_at g\<rparr>)) \<and>
       (\<forall>k. k \<noteq> graph_key g \<longrightarrow> tbl_get (ms_fault_memos s') k = tbl_get (ms_fault_memos s) k) \<and>
       snd (reserve_unanchorable_retry now' g s') = Inr False"
  by (auto simp: reserve_unanchorable_retry_def Let_def checked_add32_def UNANCHORABLE_RETRIES_def
      split: option.splits)

theorem reserve_retry_once_witness:
  "snd (reserve_unanchorable_retry 1000 sample_retry sample_fault_store) = Inr True \<and>
   snd (reserve_unanchorable_retry 9000 sample_retry
          (fst (reserve_unanchorable_retry 1000 sample_retry sample_fault_store))) = Inr False"
proof -
  have "snd (reserve_unanchorable_retry 1000 sample_retry sample_fault_store) = Inr True"
    by (simp add: sample_fault_store_def sample_retry_def sample_fault_def put_deferred_graph_def
        put_fault_memo_def ms_new_def Let_def from_record_def fault_class_def is_struck_def starts_with_def
        reason_consts or_else_def is_dead_def is_unanchorable_def cap_fault_memos_def FAULT_MEMO_MAX_ROWS_def
        tbl_insert_def reserve_unanchorable_retry_def graph_key_def tbl_get_def checked_add32_def
        UNANCHORABLE_RETRIES_def)
  then show ?thesis
    using reserve_retry_once [where now = 1000 and g = sample_retry and s = sample_fault_store and now' = 9000]
    by (auto split: prod.splits sum.splits bool.splits)
qed

subsection \<open>Peer health\<close>

lemma fail_times_health:
  "n < 2 ^ 64 \<Longrightarrow>
     get_peer_sync_health (advance_clock d (fail_times n h tp (record_peer_sync_outcome h tp True s))) h tp =
       \<lparr>consecutive_failures = n,
        secs_since_last_attempt = Some (wrap64 (ms_clock_secs s + d) - ms_clock_secs s)\<rparr>"
proof (induction n)
  case 0
  show ?case
    by (simp add: fail_times_def record_peer_sync_outcome_def get_peer_sync_health_def advance_clock_def Let_def)
next
  case (Suc n)
  have clock: "ms_clock_secs (fail_times k h tp s') = ms_clock_secs s'" for k s'
    by (induction k) (auto simp: fail_times_def record_peer_sync_outcome_def Let_def)
  let ?s = "record_peer_sync_outcome h tp True s"
  have "ms_clock_secs ?s = ms_clock_secs s" by (simp add: record_peer_sync_outcome_def Let_def)
  moreover have "fail_times (Suc n) h tp ?s = record_peer_sync_outcome h tp False (fail_times n h tp ?s)"
    by (simp add: fail_times_def)
  ultimately show ?case
    using Suc clock [of n ?s]
    by (auto simp: record_peer_sync_outcome_def [of _ _ False] get_peer_sync_health_def advance_clock_def Let_def
        default_health_def split: option.splits prod.splits)
qed

text \<open>
  a peer whose last success was followed by \<open>n\<close> failed syncs is quarantined exactly when \<open>n\<close> is
  eight or more and its last attempt lies less than six hours back; after six hours it is probed again,
  and one success clears it.
\<close>

theorem peer_quarantine_exact:
  assumes "n < 2 ^ 64" "ms_clock_secs s + d < 2 ^ 64"
  shows "peer_sync_quarantined
      (get_peer_sync_health (advance_clock d (fail_times n h tp (record_peer_sync_outcome h tp True s))) h tp)
    = (n \<ge> 8 \<and> d < 6 * 3600)"
  using fail_times_health [OF assms(1), of d h tp s] assms(2)
  by (simp add: peer_sync_quarantined_def health_consts)

theorem peer_quarantine_exact_witness:
  "peer_sync_quarantined
      (get_peer_sync_health (advance_clock 60 (fail_times 9 ''p'' ''tm_a'' (record_peer_sync_outcome ''p'' ''tm_a'' True ms_new))) ''p'' ''tm_a'')"
  using peer_quarantine_exact [of 9 ms_new 60 "''p''" "''tm_a''"] by (simp add: ms_new_def)

subsection \<open>The bound of the fault memos\<close>

lemma sorted_take_drop_le:
  fixes xs :: "'a :: linorder list"
  assumes "a \<in> set (take n (sort xs))" "b \<in> set xs" "b \<notin> set (take n (sort xs))"
  shows "a \<le> b"
proof -
  have "sorted (take n (sort xs) @ drop n (sort xs))" by simp
  moreover have "b \<in> set (drop n (sort xs))"
    using assms(2,3) by (metis Un_iff append_take_drop_id set_append set_sort)
  ultimately show ?thesis using assms(1) unfolding sorted_append by blast
qed

text \<open>
  The cap of a topic's fault memos leaves at most 20000 of them, touches no memo of another topic,
  and drops the oldest: a memo it drops was first seen no later than any memo of the topic it keeps.
\<close>

theorem memo_cap_drops_oldest:
  assumes "tbl_wf m"
  shows "length (topic_memos tp (cap_fault_memos tp m)) \<le> 20000 \<and>
    (\<forall>k r. tbl_get m k = Some r \<and> fm_topic r \<noteq> tp \<longrightarrow> tbl_get (cap_fault_memos tp m) k = Some r) \<and>
    (\<forall>k r k' r'. tbl_get m k = Some r \<and> tbl_get (cap_fault_memos tp m) k = None \<and>
       tbl_get (cap_fault_memos tp m) k' = Some r' \<and> fm_topic r' = tp \<longrightarrow> first_at r \<le> first_at r')"
proof -
  let ?xs = "map memo_age (topic_memos tp m)" let ?n = "length (topic_memos tp m) - FAULT_MEMO_MAX_ROWS"
  have get: "tbl_get (cap_fault_memos tp m) k = (if k \<in> capped_keys tp m then None else tbl_get m k)" for k
    unfolding cap_fault_memos_filter tbl_get_filter [OF assms] by (auto split: option.splits)
  have capped: "k \<in> capped_keys tp m \<Longrightarrow> \<exists>a. (a, k) \<in> set (take ?n (sort ?xs))" for k
    by (auto simp: capped_keys_def split: if_splits)
  have inx: "(a, k) \<in> set ?xs \<longleftrightarrow> (\<exists>r. tbl_get m k = Some r \<and> fm_topic r = tp \<and> a = first_at r)" for a k
    using tbl_get_in_set [OF assms] by (auto simp: topic_memos_def memo_age_def)
  have topic: "fm_topic r = tp" if c: "k \<in> capped_keys tp m" and g: "tbl_get m k = Some r" for k r
  proof -
    obtain a where "(a, k) \<in> set ?xs" using capped [OF c] in_set_takeD by (metis set_sort)
    then show ?thesis using inx g by auto
  qed
  have "first_at r \<le> first_at r'"
    if c: "k \<in> capped_keys tp m" "tbl_get m k = Some r" and
      d: "k' \<notin> capped_keys tp m" "tbl_get m k' = Some r'" "fm_topic r' = tp" for k r k' r'
  proof -
    obtain a where a: "(a, k) \<in> set (take ?n (sort ?xs))" using capped [OF c(1)] by blast
    then have "(a, k) \<in> set ?xs" using in_set_takeD by (metis set_sort)
    then have "a = first_at r" using inx c(2) by auto
    moreover have b: "(first_at r', k') \<in> set ?xs" using inx d(2,3) by auto
    moreover have "(first_at r', k') \<notin> set (take ?n (sort ?xs))"
    proof
      assume "(first_at r', k') \<in> set (take ?n (sort ?xs))"
      then have "k' \<in> snd ` set (take ?n (sort ?xs))" by force
      moreover have "\<not> length m \<le> FAULT_MEMO_MAX_ROWS" using c(1) by (auto simp: capped_keys_def split: if_splits)
      ultimately show False using d(1) by (simp add: capped_keys_def)
    qed
    ultimately have "(first_at r, k) \<le> (first_at r', k')" using sorted_take_drop_le a by blast
    then show ?thesis by (auto simp: less_eq_prod_def)
  qed
  then show ?thesis
    using cap_fault_memos_bound [OF assms, of tp] get topic
    by (auto simp: FAULT_MEMO_MAX_ROWS_def split: if_splits)
qed

theorem memo_cap_drops_oldest_witness:
  "length (topic_memos ''tm_a'' (cap_fault_memos ''tm_a'' (ms_fault_memos sample_fault_store))) \<le> 20000"
proof -
  have "ms_inv sample_fault_store"
    unfolding sample_fault_store_def by (rule ms_inv_put_deferred [OF ms_inv_new])
  then have "tbl_wf (ms_fault_memos sample_fault_store)" by (simp add: ms_inv_def memos_ok_def table_ok_def)
  from memo_cap_drops_oldest [OF this] show ?thesis by blast
qed

end
