(* ===== verification/Engine_World.thy ===== *)
theory Engine_World
  imports Storage_Properties
begin

text \<open>
  The world a submit runs in. Every call the engine makes of its storage or of a lookup service can
  fault, and a faulted write may have landed or not: the outcome of each call is a schedule of the
  environment, read at the call's number. \<open>Fault_before\<close> is a call that failed and did nothing,
  \<open>Fault_after\<close> one that did its work and failed to say so. The wall clock (\<open>current_timestamp_ms\<close>) is
  read the same way. The lookup services are known by what the engine reads of them, their name and
  their two modes; what they were told is the log. A submit of a door other than the sync's has no
  deadline (\<open>bound\<close> is \<open>None\<close>), which is the case modelled.
\<close>

datatype outcome = Done | Fault_before string | Fault_after string

record lookup_service =
  ls_name :: string
  ls_admission_mode :: admission_mode
  ls_spend_mode :: spend_notification_mode

datatype notification =
    Told_Admitted string output_admitted_by_topic
  | Told_Spent string output_spent
  | Told_No_Longer_Retained string txid nat topic
  | Told_Evicted string txid nat

record mutation_fault =
  mf_topic :: topic
  mf_site :: string
  mf_error :: string

record mutation_report =
  faults :: "mutation_fault list"
  applied_topics :: "topic list"
  deduped_topics :: "topic list"

record engine_env =
  e_outcome :: "nat \<Rightarrow> outcome"
  e_clock :: "nat \<Rightarrow> int"
  e_services :: "lookup_service list"

record world =
  w_store :: memory_storage
  w_calls :: nat
  w_not_landed :: "(txid \<times> topic) set"
  w_log :: "notification list"
  w_report :: mutation_report

definition empty_report :: mutation_report where
  "empty_report = \<lparr>faults = [], applied_topics = [], deduped_topics = []\<rparr>"

definition is_durable :: "mutation_report \<Rightarrow> bool" where
  "is_durable r = (faults r = [])"

definition PREDECESSOR_FAULT_TEXT :: nat where "PREDECESSOR_FAULT_TEXT = 320"

definition fault_line :: "mutation_fault \<Rightarrow> string" where
  "fault_line f =
     (let clip = (if mf_site f = ''predecessor_not_landed'' then PREDECESSOR_FAULT_TEXT else 120)
      in mf_topic f @ ''/'' @ mf_site f @ '': '' @ take clip (mf_error f))"

fun join :: "string \<Rightarrow> string list \<Rightarrow> string" where
  "join sep [] = []"
| "join sep [x] = x"
| "join sep (x # y # xs) = x @ sep @ join sep (y # xs)"

definition summary :: "mutation_report \<Rightarrow> string" where
  "summary r = join ''; '' (map fault_line (faults r))"

subsection \<open>Calls\<close>

definition tick :: "world \<Rightarrow> world" where
  "tick w = w\<lparr>w_calls := Suc (w_calls w)\<rparr>"

definition store_write ::
  "engine_env \<Rightarrow> (memory_storage \<Rightarrow> memory_storage) \<Rightarrow> world \<Rightarrow> world \<times> string option" where
  "store_write env f w =
     (case e_outcome env (w_calls w) of
        Done \<Rightarrow> (tick (w\<lparr>w_store := f (w_store w)\<rparr>), None)
      | Fault_before e \<Rightarrow> (tick w, Some e)
      | Fault_after e \<Rightarrow> (tick (w\<lparr>w_store := f (w_store w)\<rparr>), Some e))"

definition store_read :: "engine_env \<Rightarrow> (memory_storage \<Rightarrow> 'a) \<Rightarrow> world \<Rightarrow> world \<times> (string + 'a)" where
  "store_read env f w =
     (case e_outcome env (w_calls w) of
        Done \<Rightarrow> (tick w, Inr (f (w_store w)))
      | Fault_before e \<Rightarrow> (tick w, Inl e)
      | Fault_after e \<Rightarrow> (tick w, Inl e))"

definition tell :: "engine_env \<Rightarrow> notification \<Rightarrow> world \<Rightarrow> world \<times> string option" where
  "tell env n w =
     (case e_outcome env (w_calls w) of
        Done \<Rightarrow> (tick (w\<lparr>w_log := w_log w @ [n]\<rparr>), None)
      | Fault_before e \<Rightarrow> (tick w, Some e)
      | Fault_after e \<Rightarrow> (tick (w\<lparr>w_log := w_log w @ [n]\<rparr>), Some e))"

definition report_fault :: "topic \<Rightarrow> string \<Rightarrow> string \<Rightarrow> world \<Rightarrow> world" where
  "report_fault tp site e w =
     w\<lparr>w_report := (w_report w)\<lparr>faults := faults (w_report w) @
          [\<lparr>mf_topic = tp, mf_site = site, mf_error = e\<rparr>]\<rparr>\<rparr>"

definition hold_unapplied :: "txid \<Rightarrow> topic \<Rightarrow> world \<Rightarrow> world" where
  "hold_unapplied t tp w = w\<lparr>w_not_landed := insert (t, tp) (w_not_landed w)\<rparr>"

definition forget_not_landed :: "txid \<Rightarrow> topic \<Rightarrow> world \<Rightarrow> world" where
  "forget_not_landed t tp w = w\<lparr>w_not_landed := w_not_landed w - {(t, tp)}\<rparr>"

definition read_topic_output :: "engine_env \<Rightarrow> txid \<Rightarrow> nat \<Rightarrow> topic \<Rightarrow> world \<Rightarrow> world \<times> (string + Output option)" where
  "read_topic_output env t i tp = store_read env (\<lambda>s. find_output s t i (Some tp) None False)"

subsection \<open>Validation of a topic\<close>

text \<open>
  The topic manager is code of another crate behind a trait: \<open>judge\<close> is its answer for the transaction,
  the topic and the input indices whose previous coin the topic holds.
\<close>

type_synonym judge = "transaction \<Rightarrow> topic \<Rightarrow> nat list \<Rightarrow> string + admittance"

record topic_validation =
  v_topic :: topic
  v_is_dupe :: bool
  v_previous_coins :: "nat list"
  v_previous_outputs :: "Output list"
  v_admittance :: admittance
  v_failed :: bool
  v_read_fault :: "(string \<times> string) option"

definition blank_validation :: "topic \<Rightarrow> topic_validation" where
  "blank_validation tp =
     \<lparr>v_topic = tp, v_is_dupe = False, v_previous_coins = [], v_previous_outputs = [],
      v_admittance = no_admittance, v_failed = False, v_read_fault = None\<rparr>"

fun previous_coins_loop ::
  "engine_env \<Rightarrow> topic \<Rightarrow> nat \<Rightarrow> tx_input list \<Rightarrow> world
     \<Rightarrow> world \<times> (nat \<times> Output) list \<times> (string \<times> string) option" where
  "previous_coins_loop env tp i [] w = (w, [], None)"
| "previous_coins_loop env tp i (inp # rest) w =
     (if source_txid inp = [] then previous_coins_loop env tp (Suc i) rest w
      else case read_topic_output env (source_txid inp) (source_output_index inp) tp w of
             (w1, Inr (Some prev)) \<Rightarrow>
               (case previous_coins_loop env tp (Suc i) rest w1 of (w2, found, rf) \<Rightarrow> (w2, (i, prev) # found, rf))
           | (w1, Inr None) \<Rightarrow> previous_coins_loop env tp (Suc i) rest w1
           | (w1, Inl e) \<Rightarrow>
               (case previous_coins_loop env tp (Suc i) rest w1 of
                  (w2, found, _) \<Rightarrow> (w2, found, Some (''find_output'', e))))"

definition validate_topic ::
  "engine_env \<Rightarrow> judge \<Rightarrow> transaction \<Rightarrow> txid \<Rightarrow> topic \<Rightarrow> world \<Rightarrow> world \<times> topic_validation" where
  "validate_topic env judge tx t tp w =
     (case store_read env (\<lambda>s. does_applied_transaction_exist s t tp) w of
        (w1, Inl e) \<Rightarrow>
          (w1, (blank_validation tp)\<lparr>v_read_fault := Some (''does_applied_transaction_exist'', e)\<rparr>)
      | (w1, Inr True) \<Rightarrow> (w1, (blank_validation tp)\<lparr>v_is_dupe := True\<rparr>)
      | (w1, Inr False) \<Rightarrow>
          (case previous_coins_loop env tp 0 (inputs tx) w1 of
             (w2, found, rf) \<Rightarrow>
               (case judge tx tp (map fst found) of
                  Inr a \<Rightarrow>
                    (w2, (blank_validation tp)\<lparr>v_previous_coins := map fst found,
                           v_previous_outputs := map snd found, v_admittance := a, v_read_fault := rf\<rparr>)
                | Inl e \<Rightarrow> (w2, (blank_validation tp)\<lparr>v_failed := True, v_read_fault := rf\<rparr>))))"

subsection \<open>Frame\<close>

lemma tick_simps [simp]:
  "w_store (tick w) = w_store w" "w_not_landed (tick w) = w_not_landed w" "w_log (tick w) = w_log w"
  "w_report (tick w) = w_report w" "w_calls (tick w) = Suc (w_calls w)"
  by (simp_all add: tick_def)

lemma report_fault_simps [simp]:
  "w_store (report_fault tp site e w) = w_store w" "w_calls (report_fault tp site e w) = w_calls w"
  "w_not_landed (report_fault tp site e w) = w_not_landed w" "w_log (report_fault tp site e w) = w_log w"
  "applied_topics (w_report (report_fault tp site e w)) = applied_topics (w_report w)"
  "deduped_topics (w_report (report_fault tp site e w)) = deduped_topics (w_report w)"
  "length (faults (w_report (report_fault tp site e w))) = Suc (length (faults (w_report w)))"
  by (simp_all add: report_fault_def)

lemma hold_simps [simp]:
  "w_store (hold_unapplied t tp w) = w_store w" "w_calls (hold_unapplied t tp w) = w_calls w"
  "w_report (hold_unapplied t tp w) = w_report w"
  "w_store (forget_not_landed t tp w) = w_store w" "w_calls (forget_not_landed t tp w) = w_calls w"
  "w_report (forget_not_landed t tp w) = w_report w"
  by (simp_all add: hold_unapplied_def forget_not_landed_def)

end
