(* ===== verification/Submit_Engine.thy ===== *)
theory Submit_Engine
  imports Engine_World
begin

text \<open>
  Phase 3 of a submit (\<open>engine.rs\<close>, \<open>submit_counted_inner\<close>), topic by topic: the previous coins are
  marked spent and their lookup services told, the admitted outputs inserted and announced, the stale
  coins deleted with what they consumed, the retained ones pointed at their consumers, and the
  transaction recorded as applied when nothing faulted. The successor rule's answer is the argument
  \<open>waits\<close>: the topics that must wait, each with why.
\<close>

record submit_ctx =
  c_tx :: transaction
  c_txid :: txid
  c_beef :: bytes
  c_named_beef :: bytes
  c_off_chain :: "bytes option"
  c_finalize :: bool

subsection \<open>Previous coins\<close>

definition prevs :: "topic_validation \<Rightarrow> (nat \<times> Output) list" where
  "prevs v = zip (v_previous_coins v) (v_previous_outputs v)"

definition outputs_consumed_of :: "topic_validation \<Rightarrow> outpoint list" where
  "outputs_consumed_of v =
     map (output_outpoint \<circ> snd) (filter (\<lambda>(i, _). i \<in> set (coins_to_retain (v_admittance v))) (prevs v))"

definition stale_coins :: "topic_validation \<Rightarrow> Output list" where
  "stale_coins v = map snd (filter (\<lambda>(i, _). i \<notin> set (coins_to_retain (v_admittance v))) (prevs v))"

text \<open>
  The removed coins as the STEAK names them: the code pairs the \<open>i\<close>-th stale coin with the \<open>i\<close>-th
  previous coin.
\<close>

definition steak_coins_removed :: "topic_validation \<Rightarrow> nat list" where
  "steak_coins_removed v =
     List.map_filter (\<lambda>i. if i < length (v_previous_coins v) then Some (v_previous_coins v ! i) else None)
       [0..<length (stale_coins v)]"

text \<open>An input index the topic found a previous coin for is one of the transaction's inputs.\<close>

definition spend_payload :: "submit_ctx \<Rightarrow> topic \<Rightarrow> nat \<Rightarrow> Output \<Rightarrow> spend_notification_mode \<Rightarrow> output_spent" where
  "spend_payload c tp i prev m =
     (case m of
        Spend_None \<Rightarrow> Spent_None (out_txid prev) (output_index prev) tp
      | Spend_Txid \<Rightarrow> Spent_Txid (out_txid prev) (output_index prev) tp (c_txid c)
      | Spend_Script \<Rightarrow>
          (let inp = inputs (c_tx c) ! i
           in Spent_Script (out_txid prev) (output_index prev) tp (c_txid c) i
                (case unlocking_script inp of None \<Rightarrow> [] | Some u \<Rightarrow> u) (sequence inp) (c_off_chain c))
      | Spend_WholeTx \<Rightarrow> Spent_WholeTx (out_txid prev) (output_index prev) tp (c_named_beef c) (c_off_chain c))"

fun tell_spent ::
  "engine_env \<Rightarrow> submit_ctx \<Rightarrow> topic \<Rightarrow> nat \<Rightarrow> Output \<Rightarrow> lookup_service list \<Rightarrow> world \<Rightarrow> world \<times> bool" where
  "tell_spent env c tp i prev [] w = (w, False)"
| "tell_spent env c tp i prev (l # ls) w =
     (case tell env (Told_Spent (ls_name l) (spend_payload c tp i prev (ls_spend_mode l))) w of
        (w1, None) \<Rightarrow> tell_spent env c tp i prev ls w1
      | (w1, Some e) \<Rightarrow>
          (case tell_spent env c tp i prev ls (report_fault tp ''lookup_service.output_spent'' e w1) of
             (w2, _) \<Rightarrow> (w2, True)))"

fun mark_loop ::
  "engine_env \<Rightarrow> submit_ctx \<Rightarrow> topic \<Rightarrow> nat list \<Rightarrow> (nat \<times> Output) list \<Rightarrow> world \<Rightarrow> world \<times> bool \<times> bool" where
  "mark_loop env c tp keep [] w = (w, False, False)"
| "mark_loop env c tp keep ((i, prev) # rest) w =
     (let (w1, e) = store_write env (mark_utxo_as_spent (out_txid prev) (output_index prev) tp) w;
          (w2, rm) = (case e of None \<Rightarrow> (w1, False)
                      | Some err \<Rightarrow> (report_fault tp ''mark_utxo_as_spent'' err w1, i \<in> set keep));
          (w3, sn) = tell_spent env c tp i prev (e_services env) w2;
          (w4, rm', sn') = mark_loop env c tp keep rest w3
      in (w4, rm \<or> rm', sn \<or> sn'))"

subsection \<open>Admitted outputs\<close>

definition script_and_sats :: "transaction \<Rightarrow> nat \<Rightarrow> bytes \<times> nat" where
  "script_and_sats tx i =
     (case get_tx_output tx i of None \<Rightarrow> ([], 0) | Some q \<Rightarrow> (locking_script q, tx_satoshis q))"

definition new_output :: "engine_env \<Rightarrow> submit_ctx \<Rightarrow> topic \<Rightarrow> outpoint list \<Rightarrow> nat \<Rightarrow> world \<Rightarrow> Output" where
  "new_output env c tp consumed i w =
     \<lparr>out_txid = c_txid c, output_index = i, output_script = fst (script_and_sats (c_tx c) i),
      satoshis = snd (script_and_sats (c_tx c) i), out_topic = tp, spent = False,
      outputs_consumed = consumed, consumed_by = [], beef = Some (c_beef c), block_height = None,
      score = Some (e_clock env (w_calls w))\<rparr>"

definition admit_payload :: "submit_ctx \<Rightarrow> topic \<Rightarrow> nat \<Rightarrow> admission_mode \<Rightarrow> output_admitted_by_topic" where
  "admit_payload c tp i m =
     (case m of
        Admit_LockingScript \<Rightarrow>
          Admitted_LockingScript (c_txid c) i tp (snd (script_and_sats (c_tx c) i))
            (fst (script_and_sats (c_tx c) i)) (c_off_chain c)
      | Admit_WholeTx \<Rightarrow> Admitted_WholeTx (c_named_beef c) i tp (c_off_chain c))"

fun tell_admitted ::
  "engine_env \<Rightarrow> submit_ctx \<Rightarrow> topic \<Rightarrow> nat \<Rightarrow> lookup_service list \<Rightarrow> world \<Rightarrow> world \<times> bool" where
  "tell_admitted env c tp i [] w = (w, False)"
| "tell_admitted env c tp i (l # ls) w =
     (case tell env (Told_Admitted (ls_name l) (admit_payload c tp i (ls_admission_mode l))) w of
        (w1, None) \<Rightarrow> tell_admitted env c tp i ls w1
      | (w1, Some e) \<Rightarrow> (report_fault tp ''lookup_service.output_admitted_by_topic'' e w1, True))"

text \<open>
  The loop of the inserts: the world after it, the outputs inserted, the indices attempted and whether
  an insert or an announcement faulted. It stops at the first that does.
\<close>

fun insert_loop ::
  "engine_env \<Rightarrow> submit_ctx \<Rightarrow> topic \<Rightarrow> outpoint list \<Rightarrow> nat list \<Rightarrow> world
     \<Rightarrow> world \<times> outpoint list \<times> nat list \<times> bool" where
  "insert_loop env c tp consumed [] w = (w, [], [], False)"
| "insert_loop env c tp consumed (i # is) w =
     (case store_write env (insert_output_with_origin (new_output env c tp consumed i w) (c_finalize c)) w of
        (w1, Some e) \<Rightarrow> (report_fault tp ''insert_output'' e w1, [], [i], True)
      | (w1, None) \<Rightarrow>
          (case tell_admitted env c tp i (e_services env) w1 of
             (w2, True) \<Rightarrow> (w2, [Outpoint (c_txid c) i], [i], True)
           | (w2, False) \<Rightarrow>
               (case insert_loop env c tp consumed is w2 of
                  (w3, new, tried, f) \<Rightarrow> (w3, Outpoint (c_txid c) i # new, i # tried, f))))"

fun undo_inserts :: "engine_env \<Rightarrow> txid \<Rightarrow> topic \<Rightarrow> nat list \<Rightarrow> world \<Rightarrow> world" where
  "undo_inserts env t tp [] w = w"
| "undo_inserts env t tp (i # is) w =
     undo_inserts env t tp is
       (case read_topic_output env t i tp w of
          (w1, Inl e) \<Rightarrow> report_fault tp ''undo_insert_output'' e w1
        | (w1, Inr None) \<Rightarrow> w1
        | (w1, Inr (Some r)) \<Rightarrow>
            if \<not> spent r \<and> consumed_by r = []
            then (case store_write env (delete_output t i tp) w1 of
                    (w2, None) \<Rightarrow> w2
                  | (w2, Some e) \<Rightarrow> report_fault tp ''undo_insert_output'' e w2)
            else w1)"

subsection \<open>Deleting a coin with what it consumed\<close>

definition drop_consumer :: "Output \<Rightarrow> outpoint list \<Rightarrow> outpoint list" where
  "drop_consumer o' ps = filter (\<lambda>p. \<not> (op_txid p = out_txid o' \<and> op_index p = output_index o')) ps"

fun tell_dropped :: "engine_env \<Rightarrow> Output \<Rightarrow> lookup_service list \<Rightarrow> world \<Rightarrow> world" where
  "tell_dropped env o' [] w = w"
| "tell_dropped env o' (l # ls) w =
     tell_dropped env o' ls
       (fst (tell env (Told_No_Longer_Retained (ls_name l) (out_txid o') (output_index o') (out_topic o')) w))"

text \<open>
  The recursion follows \<open>outputs_consumed\<close>; its depth is the argument, and \<open>None\<close> is a depth that was
  not enough. The inner error is dropped, as \<open>let _ =\<close> drops it.
\<close>

function (sequential) delete_utxo_deep :: "engine_env \<Rightarrow> nat \<Rightarrow> Output \<Rightarrow> world \<Rightarrow> (world \<times> string option) option"
  and delete_consumed :: "engine_env \<Rightarrow> nat \<Rightarrow> Output \<Rightarrow> outpoint list \<Rightarrow> world \<Rightarrow> (world \<times> string option) option" where
  "delete_utxo_deep env 0 o' w = None"
| "delete_utxo_deep env (Suc n) o' w =
     (if consumed_by o' = []
      then (case store_write env (delete_output (out_txid o') (output_index o') (out_topic o')) w of
              (w1, Some e) \<Rightarrow> Some (w1, Some e)
            | (w1, None) \<Rightarrow>
                delete_consumed env n o' (outputs_consumed o') (tell_dropped env o' (e_services env) w1))
      else delete_consumed env n o' (outputs_consumed o') w)"
| "delete_consumed env n o' [] w = Some (w, None)"
| "delete_consumed env n o' (p # ps) w =
     (case read_topic_output env (op_txid p) (op_index p) (out_topic o') w of
        (w1, Inr (Some r)) \<Rightarrow>
          (let cb = drop_consumer o' (consumed_by r)
           in case store_write env (update_consumed_by (op_txid p) (op_index p) (out_topic o') cb) w1 of
                (w2, Some e) \<Rightarrow> Some (w2, Some e)
              | (w2, None) \<Rightarrow>
                  (case delete_utxo_deep env n (r\<lparr>consumed_by := cb\<rparr>) w2 of
                     None \<Rightarrow> None
                   | Some (w3, _) \<Rightarrow> delete_consumed env n o' ps w3))
      | (w1, _) \<Rightarrow> delete_consumed env n o' ps w1)"
  by pat_completeness auto

termination
  by (relation "measures [\<lambda>x. case x of Inl (_, n, _, _) \<Rightarrow> n | Inr (_, n, _, _, _) \<Rightarrow> n,
                          \<lambda>x. case x of Inl _ \<Rightarrow> 0 | Inr (_, _, _, ps, _) \<Rightarrow> Suc (length ps)]") auto

text \<open>A depth past the number of rows held is enough (\<open>delete_deep_returns\<close>).\<close>

definition delete_deep :: "engine_env \<Rightarrow> Output \<Rightarrow> world \<Rightarrow> world \<times> string option" where
  "delete_deep env o' w =
     (case delete_utxo_deep env (length (ms_outputs (w_store w)) + 2) o' w of
        Some r \<Rightarrow> r
      | None \<Rightarrow> (w, Some ''recursion too deep''))"

fun delete_loop :: "engine_env \<Rightarrow> topic \<Rightarrow> Output list \<Rightarrow> world \<Rightarrow> world \<times> bool \<times> bool" where
  "delete_loop env tp [] w = (w, False, False)"
| "delete_loop env tp (st # rest) w =
     (case store_write env (insert_applied_transaction (out_txid st) tp) w of
        (w1, Some e) \<Rightarrow>
          (case delete_loop env tp rest (report_fault tp ''record_spent_coin_applied'' e w1) of
             (w2, _, started) \<Rightarrow> (w2, True, started))
      | (w1, None) \<Rightarrow>
          (case read_topic_output env (out_txid st) (output_index st) tp (forget_not_landed (out_txid st) tp w1) of
             (w2, Inl e) \<Rightarrow>
               (case delete_loop env tp rest (report_fault tp ''find_output'' e w2) of
                  (w3, _, started) \<Rightarrow> (w3, True, started))
           | (w2, Inr None) \<Rightarrow> delete_loop env tp rest w2
           | (w2, Inr (Some r)) \<Rightarrow>
               (case delete_deep env r w2 of
                  (w3, None) \<Rightarrow> (case delete_loop env tp rest w3 of (w4, f, _) \<Rightarrow> (w4, f, True))
                | (w3, Some e) \<Rightarrow>
                    (case delete_loop env tp rest (report_fault tp ''delete_utxo_deep'' e w3) of
                       (w4, _, _) \<Rightarrow> (w4, True, True)))))"

text \<open>Whether every stale coin is read back held; the reads stop at the first that is not.\<close>

fun all_held :: "engine_env \<Rightarrow> topic \<Rightarrow> Output list \<Rightarrow> world \<Rightarrow> world \<times> bool" where
  "all_held env tp [] w = (w, True)"
| "all_held env tp (st # rest) w =
     (case read_topic_output env (out_txid st) (output_index st) tp w of
        (w1, Inr (Some _)) \<Rightarrow> all_held env tp rest w1
      | (w1, _) \<Rightarrow> (w1, False))"

subsection \<open>Retained coins\<close>

fun add_new :: "outpoint list \<Rightarrow> outpoint list \<Rightarrow> outpoint list" where
  "add_new acc [] = acc"
| "add_new acc (p # ps) =
     add_new (if list_ex (\<lambda>c. op_txid c = op_txid p \<and> op_index c = op_index p) acc then acc else acc @ [p]) ps"

fun consumed_loop :: "engine_env \<Rightarrow> topic \<Rightarrow> outpoint list \<Rightarrow> outpoint list \<Rightarrow> world \<Rightarrow> world" where
  "consumed_loop env tp new [] w = w"
| "consumed_loop env tp new (p # ps) w =
     consumed_loop env tp new ps
       (case read_topic_output env (op_txid p) (op_index p) tp w of
          (w1, Inl e) \<Rightarrow> report_fault tp ''find_output'' e w1
        | (w1, Inr None) \<Rightarrow> w1
        | (w1, Inr (Some r)) \<Rightarrow>
            (case store_write env (update_consumed_by (op_txid p) (op_index p) tp (add_new (consumed_by r) new)) w1 of
               (w2, None) \<Rightarrow> w2
             | (w2, Some e) \<Rightarrow> report_fault tp ''update_consumed_by'' e w2))"

subsection \<open>A topic\<close>

definition push_applied :: "topic \<Rightarrow> world \<Rightarrow> world" where
  "push_applied tp w = w\<lparr>w_report := (w_report w)\<lparr>applied_topics := applied_topics (w_report w) @ [tp]\<rparr>\<rparr>"

definition push_deduped :: "topic \<Rightarrow> world \<Rightarrow> world" where
  "push_deduped tp w = w\<lparr>w_report := (w_report w)\<lparr>deduped_topics := deduped_topics (w_report w) @ [tp]\<rparr>\<rparr>"

definition finish_topic :: "engine_env \<Rightarrow> submit_ctx \<Rightarrow> topic \<Rightarrow> nat \<Rightarrow> world \<Rightarrow> world" where
  "finish_topic env c tp faults_before w =
     (if length (faults (w_report w)) > faults_before then hold_unapplied (c_txid c) tp w
      else case store_write env (insert_applied_transaction (c_txid c) tp) w of
             (w1, None) \<Rightarrow> forget_not_landed (c_txid c) tp (push_applied tp w1)
           | (w1, Some e) \<Rightarrow>
               hold_unapplied (c_txid c) tp (report_fault tp ''insert_applied_transaction'' e w1))"

text \<open>The end of a topic whose inserts all landed: the deletes, the consumers, the applied row.\<close>

definition settle_topic ::
  "engine_env \<Rightarrow> submit_ctx \<Rightarrow> topic_validation \<Rightarrow> nat \<Rightarrow> outpoint list \<Rightarrow> nat list \<Rightarrow> world \<Rightarrow> world" where
  "settle_topic env c v faults_before new tried w =
     (let tp = v_topic v; (w1, del_faulted, started) = delete_loop env tp (stale_coins v) w
      in if del_faulted
         then
           let (w2, held) = (if started then (w1, False) else all_held env tp (stale_coins v) w1)
           in hold_unapplied (c_txid c) tp (if held then undo_inserts env (c_txid c) tp tried w2 else w2)
         else finish_topic env c tp faults_before (consumed_loop env tp new (outputs_consumed_of v) w1))"

definition mutate_topic :: "engine_env \<Rightarrow> submit_ctx \<Rightarrow> topic_validation \<Rightarrow> world \<Rightarrow> world" where
  "mutate_topic env c v w =
     (let tp = v_topic v; a = v_admittance v; faults_before = length (faults (w_report w));
          (w1, retained_mark_faulted, spend_notify_faulted) = mark_loop env c tp (coins_to_retain a) (prevs v) w
      in if retained_mark_faulted \<or> spend_notify_faulted then hold_unapplied (c_txid c) tp w1
         else
           let (w2, new, tried, f) = insert_loop env c tp (outputs_consumed_of v) (outputs_to_admit a) w1
           in if f then hold_unapplied (c_txid c) tp (undo_inserts env (c_txid c) tp tried w2)
              else settle_topic env c v faults_before new tried w2)"

definition apply_topic ::
  "engine_env \<Rightarrow> submit_ctx \<Rightarrow> (topic \<Rightarrow> string option) \<Rightarrow> topic_validation \<Rightarrow> world \<Rightarrow> world" where
  "apply_topic env c waits v w =
     (let tp = v_topic v
      in if v_is_dupe v then push_deduped tp w
         else if v_failed v then w
         else case v_read_fault v of
                Some (site, e) \<Rightarrow> hold_unapplied (c_txid c) tp (report_fault tp site e w)
              | None \<Rightarrow>
                  (case waits tp of
                     Some not_now \<Rightarrow>
                       hold_unapplied (c_txid c) tp (report_fault tp ''predecessor_not_landed'' not_now w)
                   | None \<Rightarrow> mutate_topic env c v w))"

fun phase3 ::
  "engine_env \<Rightarrow> submit_ctx \<Rightarrow> (topic \<Rightarrow> string option) \<Rightarrow> topic_validation list \<Rightarrow> world \<Rightarrow> world" where
  "phase3 env c waits [] w = w"
| "phase3 env c waits (v # vs) w = phase3 env c waits vs (apply_topic env c waits v w)"

text \<open>The STEAK after Phase 3: the removed coins of every topic whose mutation began.\<close>

type_synonym steak = "(topic, admittance) table"

definition mutated :: "(topic \<Rightarrow> string option) \<Rightarrow> topic_validation \<Rightarrow> bool" where
  "mutated waits v =
     (\<not> v_is_dupe v \<and> \<not> v_failed v \<and> v_read_fault v = None \<and> waits (v_topic v) = None)"

definition phase3_steak :: "(topic \<Rightarrow> string option) \<Rightarrow> topic_validation list \<Rightarrow> steak \<Rightarrow> steak" where
  "phase3_steak waits vs st =
     fold (\<lambda>v st. if mutated waits v
                  then tbl_modify (v_topic v) (coins_removed_update (\<lambda>_. Some (steak_coins_removed v))) st
                  else st) vs st"

end
