(* ===== verification/Deep_Delete.thy ===== *)
theory Deep_Delete
  imports Submit_Engine
begin

text \<open>
  The recursive delete of a coin (\<open>delete_utxo_deep\<close>). A transaction cannot consume an output of a
  transaction that consumes it, so the txids can be ranked; along that rank the recursion ends, it
  only removes rows and consumers, and it leaves every row of a higher rank alone.
\<close>

definition keyed :: "memory_storage \<Rightarrow> bool" where
  "keyed s = (\<forall>k r. row s k = Some r \<longrightarrow> key_of r = k)"

definition consumes_below :: "(txid \<Rightarrow> nat) \<Rightarrow> Output \<Rightarrow> bool" where
  "consumes_below rk r = (\<forall>p \<in> set (outputs_consumed r). rk (op_txid p) < rk (out_txid r))"

definition ranked :: "(txid \<Rightarrow> nat) \<Rightarrow> memory_storage \<Rightarrow> bool" where
  "ranked rk s = (\<forall>k r. row s k = Some r \<longrightarrow> consumes_below rk r)"

text \<open>A row that lost consumers and nothing else; a store that lost rows and consumers.\<close>

definition row_le :: "Output \<Rightarrow> Output \<Rightarrow> bool" where
  "row_le r' r = (r'\<lparr>consumed_by := []\<rparr> = r\<lparr>consumed_by := []\<rparr> \<and> set (consumed_by r') \<subseteq> set (consumed_by r))"

definition shrinks :: "memory_storage \<Rightarrow> memory_storage \<Rightarrow> bool" where
  "shrinks s s' = (\<forall>k r'. row s' k = Some r' \<longrightarrow> (\<exists>r. row s k = Some r \<and> row_le r' r))"

definition fault_between :: "engine_env \<Rightarrow> nat \<Rightarrow> nat \<Rightarrow> bool" where
  "fault_between env a b = (\<exists>n. a \<le> n \<and> n < b \<and> e_outcome env n \<noteq> Done)"

definition clean_from :: "engine_env \<Rightarrow> nat \<Rightarrow> bool" where
  "clean_from env a = (\<forall>n \<ge> a. e_outcome env n = Done)"

definition single_fault :: "engine_env \<Rightarrow> bool" where
  "single_fault env = (\<forall>m n. e_outcome env m \<noteq> Done \<and> e_outcome env n \<noteq> Done \<longrightarrow> m = n)"

definition below :: "(txid \<Rightarrow> nat) \<Rightarrow> memory_storage \<Rightarrow> txid \<Rightarrow> txid set" where
  "below rk s t = {t'. (\<exists>i tp. row s (t', i, tp) \<noteq> None) \<and> rk t' < rk t}"

lemma keyedD: "keyed s \<Longrightarrow> row s k = Some r \<Longrightarrow> key_of r = k"
  unfolding keyed_def by blast

lemma rankedD: "ranked rk s \<Longrightarrow> row s k = Some r \<Longrightarrow> consumes_below rk r"
  unfolding ranked_def by blast

subsection \<open>Fault schedules\<close>

lemma fault_between_mono: "fault_between env a b \<Longrightarrow> a' \<le> a \<Longrightarrow> b \<le> b' \<Longrightarrow> fault_between env a' b'"
  unfolding fault_between_def by (meson le_trans less_le_trans)

lemma single_fault_clean: "single_fault env \<Longrightarrow> fault_between env a b \<Longrightarrow> clean_from env b"
  unfolding single_fault_def fault_between_def clean_from_def by (metis leD)

lemma clean_from_no_fault: "clean_from env a \<Longrightarrow> a \<le> b \<Longrightarrow> \<not> fault_between env b c"
  unfolding clean_from_def fault_between_def by (meson le_trans)

lemma clean_from_mono: "clean_from env a \<Longrightarrow> a \<le> b \<Longrightarrow> clean_from env b"
  unfolding clean_from_def by (meson le_trans)

lemma store_write_calls: "store_write env f w = (w', e) \<Longrightarrow> w_calls w' = Suc (w_calls w)"
  by (auto simp: store_write_def split: outcome.splits)

lemma store_write_fault:
  "store_write env f w = (w', Some e) \<Longrightarrow> fault_between env (w_calls w) (w_calls w')"
  by (auto simp: store_write_def fault_between_def split: outcome.splits)

lemma store_write_ok:
  "store_write env f w = (w', None) \<Longrightarrow>
     w_store w' = f (w_store w) \<and> w_report w' = w_report w \<and> w_not_landed w' = w_not_landed w"
  by (auto simp: store_write_def split: outcome.splits)

lemma store_write_either:
  "store_write env f w = (w', e) \<Longrightarrow>
     (w_store w' = w_store w \<or> w_store w' = f (w_store w)) \<and> w_report w' = w_report w \<and>
     w_not_landed w' = w_not_landed w"
  by (auto simp: store_write_def split: outcome.splits)

lemma store_read_frame:
  "store_read env f w = (w', r) \<Longrightarrow>
     w_store w' = w_store w \<and> w_calls w' = Suc (w_calls w) \<and> w_report w' = w_report w \<and>
     w_not_landed w' = w_not_landed w"
  by (auto simp: store_read_def split: outcome.splits)

lemma store_read_Inr: "store_read env f w = (w', Inr x) \<Longrightarrow> x = f (w_store w)"
  by (auto simp: store_read_def split: outcome.splits)

lemma store_read_fault: "store_read env f w = (w', Inl e) \<Longrightarrow> fault_between env (w_calls w) (w_calls w')"
  by (auto simp: store_read_def fault_between_def split: outcome.splits)

lemma find_output_row: "find_output s t i (Some tp) None False = row s (t, i, tp)"
  by (simp add: find_output_topic store_abs_def)

lemma read_topic_output_row:
  "read_topic_output env t i tp w = (w', Inr x) \<Longrightarrow> x = row (w_store w) (t, i, tp)"
  unfolding read_topic_output_def by (drule store_read_Inr) (simp add: find_output_row)

lemmas read_topic_output_frame = store_read_frame [where f = "\<lambda>s. find_output s t i (Some tp) None False" for t i tp,
    folded read_topic_output_def]

lemmas read_topic_output_fault = store_read_fault [where f = "\<lambda>s. find_output s t i (Some tp) None False" for t i tp,
    folded read_topic_output_def]

lemma tell_frame:
  "tell env n w = (w', e) \<Longrightarrow>
     w_store w' = w_store w \<and> w_calls w' = Suc (w_calls w) \<and> w_report w' = w_report w \<and>
     w_not_landed w' = w_not_landed w"
  by (auto simp: tell_def split: outcome.splits)

lemma tell_fault: "tell env n w = (w', Some e) \<Longrightarrow> fault_between env (w_calls w) (w_calls w')"
  by (auto simp: tell_def fault_between_def split: outcome.splits)

lemma tell_dropped_frame:
  "w_store (tell_dropped env o' ls w) = w_store w \<and> w_calls w \<le> w_calls (tell_dropped env o' ls w) \<and>
   w_report (tell_dropped env o' ls w) = w_report w \<and> w_not_landed (tell_dropped env o' ls w) = w_not_landed w"
proof (induction ls arbitrary: w)
  case (Cons l ls)
  let ?n = "Told_No_Longer_Retained (ls_name l) (out_txid o') (output_index o') (out_topic o')"
  obtain w1 e where t: "tell env ?n w = (w1, e)" by (cases "tell env ?n w")
  then show ?case using Cons [of w1] tell_frame [OF t] by simp
qed simp

subsection \<open>Shrinking\<close>

lemma row_le_refl [simp]: "row_le r r"
  by (simp add: row_le_def)

lemma row_le_trans: "row_le a b \<Longrightarrow> row_le b c \<Longrightarrow> row_le a c"
  by (auto simp: row_le_def)

lemma shrinks_refl [simp]: "shrinks s s"
  by (simp add: shrinks_def)

lemma shrinks_trans: "shrinks a b \<Longrightarrow> shrinks b c \<Longrightarrow> shrinks a c"
  unfolding shrinks_def by (meson row_le_trans)

lemma shrinks_None: "shrinks s s' \<Longrightarrow> row s k = None \<Longrightarrow> row s' k = None"
  unfolding shrinks_def by (metis option.distinct(1) option.exhaust)

lemma row_le_fields:
  assumes "row_le r' r"
  shows "key_of r' = key_of r" "outputs_consumed r' = outputs_consumed r" "out_txid r' = out_txid r"
    "out_topic r' = out_topic r" "spent r' = spent r"
  using assms by (auto simp: row_le_def key_of_def dest: arg_cong [of _ _ out_txid] arg_cong [of _ _ output_index]
      arg_cong [of _ _ out_topic] arg_cong [of _ _ outputs_consumed] arg_cong [of _ _ spent])

lemma shrinks_keyed: "shrinks s s' \<Longrightarrow> keyed s \<Longrightarrow> keyed s'"
  unfolding shrinks_def keyed_def by (metis row_le_fields(1))

lemma shrinks_ranked: "shrinks s s' \<Longrightarrow> ranked rk s \<Longrightarrow> ranked rk s'"
  unfolding shrinks_def ranked_def consumes_below_def by (metis row_le_fields(2,3))

lemma shrinks_delete: "shrinks s (delete_output t i tp s)"
  by (auto simp: shrinks_def)

lemma shrinks_update:
  "row s (t, i, tp) = Some r \<Longrightarrow> set cb \<subseteq> set (consumed_by r) \<Longrightarrow> shrinks s (update_consumed_by t i tp cb s)"
  by (auto simp: shrinks_def row_le_def split: if_splits)

lemma drop_consumer_subset: "set (drop_consumer o' ps) \<subseteq> set ps"
  by (auto simp: drop_consumer_def)

lemma below_subset:
  assumes s: "shrinks s s'"
  shows "below rk s' t \<subseteq> below rk s t"
proof
  fix t' assume "t' \<in> below rk s' t"
  then obtain i tp where "row s' (t', i, tp) \<noteq> None" "rk t' < rk t" by (auto simp: below_def)
  moreover from this have "row s (t', i, tp) \<noteq> None" using shrinks_None [OF s] by metis
  ultimately show "t' \<in> below rk s t" unfolding below_def by blast
qed

lemma below_finite: "finite (below rk s t)" "card (below rk s t) \<le> length (ms_outputs s)"
proof -
  have sub: "below rk s t \<subseteq> (fst \<circ> fst) ` set (ms_outputs s)"
  proof
    fix t' assume "t' \<in> below rk s t"
    then obtain i tp where "tbl_get (ms_outputs s) (t', i, tp) \<noteq> None" by (auto simp: below_def row_def)
    then have "(t', i, tp) \<in> fst ` set (ms_outputs s)" by (simp add: tbl_get_None)
    then show "t' \<in> (fst \<circ> fst) ` set (ms_outputs s)" by force
  qed
  then show "finite (below rk s t)" by (rule finite_subset) simp
  show "card (below rk s t) \<le> length (ms_outputs s)"
    using card_mono [OF _ sub] card_image_le [of "set (ms_outputs s)" "fst \<circ> fst"]
      card_length [of "ms_outputs s"] by simp
qed

lemma below_strict:
  assumes "row s (t', i, tp) \<noteq> None" "rk t' < rk t"
  shows "card (below rk s t') < card (below rk s t)"
proof (rule psubset_card_mono [OF below_finite(1)])
  have "t' \<in> below rk s t" "t' \<notin> below rk s t'" using assms by (auto simp: below_def)
  moreover have "below rk s t' \<subseteq> below rk s t" using assms(2) by (auto simp: below_def)
  ultimately show "below rk s t' \<subset> below rk s t" by blast
qed

subsection \<open>The recursion\<close>

text \<open>What every run does, whatever faults.\<close>

definition deep_run :: "engine_env \<Rightarrow> world \<Rightarrow> world \<times> string option \<Rightarrow> bool" where
  "deep_run env w x =
     (shrinks (w_store w) (w_store (fst x)) \<and> w_calls w \<le> w_calls (fst x) \<and>
      w_report (fst x) = w_report w \<and> w_not_landed (fst x) = w_not_landed w \<and>
      (snd x \<noteq> None \<longrightarrow> fault_between env (w_calls w) (w_calls (fst x))))"

lemma deep_run_trans:
  "deep_run env w (w1, e) \<Longrightarrow> deep_run env w1 x \<Longrightarrow> deep_run env w x"
  unfolding deep_run_def
  using shrinks_trans fault_between_mono [of env "w_calls w1" "w_calls (fst x)" "w_calls w" "w_calls (fst x)"]
  by force

lemma deep_run_write:
  assumes "store_write env f w = (w1, e)" "shrinks (w_store w) (f (w_store w))"
  shows "deep_run env w (w1, e)"
  using assms store_write_either [OF assms(1)] store_write_calls [OF assms(1)] store_write_fault [of env f w w1]
  by (cases e) (auto simp: deep_run_def)

lemma deep_run_read: "read_topic_output env t i tp w = (w1, x) \<Longrightarrow> deep_run env w (w1, None)"
  using read_topic_output_frame [of env t i tp w w1 x] by (simp add: deep_run_def)

lemma deep_run_tell: "deep_run env w (tell_dropped env o' ls w, None)"
  using tell_dropped_frame [of env o' ls w] by (simp add: deep_run_def)

lemma delete_deep_run:
  "delete_utxo_deep env n o' w = Some x \<Longrightarrow> deep_run env w x"
  "delete_consumed env n o' ps w = Some x \<Longrightarrow> deep_run env w x"
proof (induction env n o' w and env n o' ps w arbitrary: x and x
    rule: delete_utxo_deep_delete_consumed.induct)
  case (2 env n o' w)
  show ?case
  proof (cases "consumed_by o' = []")
    case True
    obtain w1 e where wr: "store_write env (delete_output (out_txid o') (output_index o') (out_topic o')) w = (w1, e)"
      by (cases "store_write env (delete_output (out_txid o') (output_index o') (out_topic o')) w")
    have r1: "deep_run env w (w1, e)" using wr shrinks_delete by (rule deep_run_write)
    show ?thesis
    proof (cases e)
      case None
      have "deep_run env (tell_dropped env o' (e_services env) w1) x"
        using "2.IH"(1) [OF True wr [symmetric] None] "2.prems" True wr None by simp
      then show ?thesis using r1 deep_run_tell deep_run_trans by blast
    next
      case (Some err)
      then show ?thesis using "2.prems" True wr r1 by auto
    qed
  next
    case False
    then show ?thesis using "2.IH"(2) "2.prems" by simp
  qed
next
  case (4 env n o' p ps w)
  obtain w1 q where rd: "read_topic_output env (op_txid p) (op_index p) (out_topic o') w = (w1, q)"
    by (cases "read_topic_output env (op_txid p) (op_index p) (out_topic o') w")
  have r1: "deep_run env w (w1, None)" using rd by (rule deep_run_read)
  show ?case
  proof (cases "\<exists>r. q = Inr (Some r)")
    case False
    then have "delete_consumed env n o' ps w1 = Some x"
      using "4.prems" rd by (auto split: sum.splits option.splits)
    then have "deep_run env w1 x"
      using False "4.IH"(1,2) [OF rd [symmetric]] by (cases q) auto
    then show ?thesis using r1 deep_run_trans by blast
  next
    case True
    then obtain r where r: "q = Inr (Some r)" by blast
    let ?cb = "drop_consumer o' (consumed_by r)"
    obtain w2 e where wr: "store_write env (update_consumed_by (op_txid p) (op_index p) (out_topic o') ?cb) w1 = (w2, e)"
      by (cases "store_write env (update_consumed_by (op_txid p) (op_index p) (out_topic o') ?cb) w1")
    have "row (w_store w1) (op_txid p, op_index p, out_topic o') = Some r"
      using read_topic_output_row rd r read_topic_output_frame [OF rd] by metis
    then have r2: "deep_run env w1 (w2, e)"
      using wr shrinks_update drop_consumer_subset deep_run_write by meson
    show ?thesis
    proof (cases e)
      case (Some err)
      then show ?thesis using "4.prems" rd r wr r1 r2 deep_run_trans by (auto simp: Let_def)
    next
      case None
      then obtain w3 e3 where d: "delete_utxo_deep env n (r\<lparr>consumed_by := ?cb\<rparr>) w2 = Some (w3, e3)"
          and c: "delete_consumed env n o' ps w3 = Some x"
        using "4.prems" rd r wr by (auto simp: Let_def split: option.splits)
      have "deep_run env w2 (w3, e3)" "deep_run env w3 x"
        using "4.IH"(3) [OF rd [symmetric] r refl refl wr [symmetric] None d]
          "4.IH"(4) [OF rd [symmetric] r refl refl wr [symmetric] None d refl c] by auto
      then show ?thesis using r1 r2 None deep_run_trans by blast
    qed
  qed
qed (auto simp: deep_run_def)

text \<open>One round of the loop over the consumed outputs.\<close>

lemma delete_consumed_Cons:
  assumes "delete_consumed env n o' (p # ps) w = Some x"
  obtains
    (skip) w1 where "w_store w1 = w_store w" "delete_consumed env n o' ps w1 = Some x"
  | (stop) w2 where "x = (w2, snd x)" "w_store w2 = w_store w \<or>
        (\<exists>cb. w_store w2 = update_consumed_by (op_txid p) (op_index p) (out_topic o') cb (w_store w))"
  | (round) r w2 w3 e where "row (w_store w) (op_txid p, op_index p, out_topic o') = Some r"
      "w_store w2 = update_consumed_by (op_txid p) (op_index p) (out_topic o')
                      (drop_consumer o' (consumed_by r)) (w_store w)"
      "delete_utxo_deep env n (r\<lparr>consumed_by := drop_consumer o' (consumed_by r)\<rparr>) w2 = Some (w3, e)"
      "delete_consumed env n o' ps w3 = Some x"
proof -
  obtain w1 q where rd: "read_topic_output env (op_txid p) (op_index p) (out_topic o') w = (w1, q)"
    by (cases "read_topic_output env (op_txid p) (op_index p) (out_topic o') w")
  have st: "w_store w1 = w_store w" using read_topic_output_frame [OF rd] by simp
  show thesis
  proof (cases "\<exists>r. q = Inr (Some r)")
    case False
    then have "delete_consumed env n o' ps w1 = Some x"
      using assms rd by (auto split: sum.splits option.splits)
    with st show thesis by (rule skip)
  next
    case True
    then obtain r where r: "q = Inr (Some r)" by blast
    have held: "row (w_store w) (op_txid p, op_index p, out_topic o') = Some r"
      using read_topic_output_row rd r by metis
    let ?cb = "drop_consumer o' (consumed_by r)"
    let ?f = "update_consumed_by (op_txid p) (op_index p) (out_topic o') ?cb"
    obtain w2 e where wr: "store_write env ?f w1 = (w2, e)" by (cases "store_write env ?f w1")
    show thesis
    proof (cases e)
      case (Some err)
      then have x: "x = (w2, snd x)" using assms rd r wr by (auto simp: Let_def)
      have "w_store w2 = w_store w \<or> w_store w2 = ?f (w_store w)" using store_write_either [OF wr] st by auto
      then show thesis by (intro stop [OF x]) blast
    next
      case None
      then obtain w3 e3 where d: "delete_utxo_deep env n (r\<lparr>consumed_by := ?cb\<rparr>) w2 = Some (w3, e3)"
          and c: "delete_consumed env n o' ps w3 = Some x"
        using assms rd r wr by (auto simp: Let_def split: option.splits)
      have "w_store w2 = ?f (w_store w)" using store_write_ok wr None st by auto
      with held show thesis using d c by (rule round)
    qed
  qed
qed

lemma row_update_consumed_other:
  "rk (op_txid p) < rk (fst k) \<Longrightarrow> row (update_consumed_by (op_txid p) i tp cb s) k = row s k"
  for rk :: "txid \<Rightarrow> nat"
  by auto

text \<open>Rows of a rank above the deleted coin's stay as they are.\<close>

definition deep_frame :: "(txid \<Rightarrow> nat) \<Rightarrow> engine_env \<Rightarrow> nat \<Rightarrow> bool" where
  "deep_frame rk env n =
     (\<forall>o' w x k. delete_utxo_deep env n o' w = Some x \<and> keyed (w_store w) \<and> ranked rk (w_store w) \<and>
        consumes_below rk o' \<and> rk (out_txid o') < rk (fst k) \<longrightarrow> row (w_store (fst x)) k = row (w_store w) k)"

lemma consumed_frame:
  assumes "deep_frame rk env n" "delete_consumed env n o' ps w = Some x" "keyed (w_store w)"
    "ranked rk (w_store w)" "\<forall>p \<in> set ps. rk (op_txid p) < rk (out_txid o')" "rk (out_txid o') \<le> rk (fst k)"
  shows "row (w_store (fst x)) k = row (w_store w) k"
  using assms(2-5)
proof (induction ps arbitrary: w)
  case (Cons p ps)
  have pk: "rk (op_txid p) < rk (fst k)" using Cons.prems(4) assms(6) by auto
  from Cons.prems(1) show ?case
  proof (cases rule: delete_consumed_Cons)
    case (skip w1)
    then show ?thesis using Cons.IH [of w1] Cons.prems by simp
  next
    case (stop w2)
    then show ?thesis using row_update_consumed_other [of rk, OF pk] by (metis fst_conv)
  next
    case (round r w2 w3 e)
    let ?r = "r\<lparr>consumed_by := drop_consumer o' (consumed_by r)\<rparr>"
    have sh: "shrinks (w_store w) (w_store w2)"
      using round(1,2) shrinks_update drop_consumer_subset by metis
    have sh3: "shrinks (w_store w2) (w_store w3)"
      using delete_deep_run(1) [OF round(3)] by (simp add: deep_run_def)
    have kd: "keyed (w_store w2)" "ranked rk (w_store w2)" "keyed (w_store w3)" "ranked rk (w_store w3)"
      using sh sh3 Cons.prems(2,3) shrinks_keyed shrinks_ranked by blast+
    have "key_of r = (op_txid p, op_index p, out_topic o')" "consumes_below rk r"
      using round(1) Cons.prems(2,3) by (auto simp: keyed_def ranked_def)
    then have "out_txid ?r = op_txid p" "consumes_below rk ?r"
      by (auto simp: key_of_def consumes_below_def)
    then have "row (w_store w3) k = row (w_store w2) k"
      using assms(1) round(3) kd pk unfolding deep_frame_def by (metis fst_conv)
    also have "\<dots> = row (w_store w) k" using round(2) row_update_consumed_other [of rk, OF pk] by simp
    finally show ?thesis using Cons.IH [OF round(4) kd(3,4)] Cons.prems(4) by simp
  qed
qed auto

lemma deep_frame_all: "deep_frame rk env n"
proof (induction n)
  case (Suc n)
  show ?case
    unfolding deep_frame_def
  proof (intro allI impI, elim conjE)
    fix o' w x and k :: okey
    assume d: "delete_utxo_deep env (Suc n) o' w = Some x" and kd: "keyed (w_store w)" "ranked rk (w_store w)"
      and cb: "consumes_below rk o'" and k: "rk (out_txid o') < rk (fst k)"
    have ps: "\<forall>p \<in> set (outputs_consumed o'). rk (op_txid p) < rk (out_txid o')"
      using cb by (simp add: consumes_below_def)
    show "row (w_store (fst x)) k = row (w_store w) k"
    proof (cases "consumed_by o' = []")
      case False
      then show ?thesis using consumed_frame [OF Suc _ kd ps] d k by simp
    next
      case True
      let ?f = "delete_output (out_txid o') (output_index o') (out_topic o')"
      obtain w1 e where wr: "store_write env ?f w = (w1, e)" by (cases "store_write env ?f w")
      have del: "row (?f (w_store w)) k = row (w_store w) k" using k by auto
      show ?thesis
      proof (cases e)
        case (Some err)
        then show ?thesis using d True wr del store_write_either [OF wr] by auto
      next
        case None
        let ?w2 = "tell_dropped env o' (e_services env) w1"
        have st: "w_store ?w2 = ?f (w_store w)" using tell_dropped_frame store_write_ok wr None by metis
        have "keyed (w_store ?w2)" "ranked rk (w_store ?w2)"
          using st kd shrinks_delete shrinks_keyed shrinks_ranked by metis+
        moreover have "delete_consumed env n o' (outputs_consumed o') ?w2 = Some x"
          using d True wr None by simp
        ultimately show ?thesis using consumed_frame [OF Suc _ _ _ ps] st del k by (metis order_less_imp_le)
      qed
    qed
  qed
qed (simp add: deep_frame_def)

subsection \<open>The recursion ends\<close>

definition deep_ends :: "(txid \<Rightarrow> nat) \<Rightarrow> engine_env \<Rightarrow> nat \<Rightarrow> bool" where
  "deep_ends rk env n =
     (\<forall>o' w. keyed (w_store w) \<and> ranked rk (w_store w) \<and> consumes_below rk o' \<and>
        card (below rk (w_store w) (out_txid o')) < n \<longrightarrow> delete_utxo_deep env n o' w \<noteq> None)"

lemma card_below_shrinks: "shrinks s s' \<Longrightarrow> card (below rk s' t) \<le> card (below rk s t)"
  by (rule card_mono [OF below_finite(1) below_subset])

lemma consumed_ends:
  assumes "deep_ends rk env n" "keyed (w_store w)" "ranked rk (w_store w)"
    "\<forall>p \<in> set ps. rk (op_txid p) < rk (out_txid o')" "card (below rk (w_store w) (out_txid o')) \<le> n"
  shows "delete_consumed env n o' ps w \<noteq> None"
  using assms(2-5)
proof (induction ps arbitrary: w)
  case (Cons p ps)
  obtain w1 q where rd: "read_topic_output env (op_txid p) (op_index p) (out_topic o') w = (w1, q)"
    by (cases "read_topic_output env (op_txid p) (op_index p) (out_topic o') w")
  have st: "w_store w1 = w_store w" using read_topic_output_frame [OF rd] by simp
  show ?case
  proof (cases "\<exists>r. q = Inr (Some r)")
    case False
    have "delete_consumed env n o' ps w1 \<noteq> None" using Cons.IH [of w1] Cons.prems st by simp
    with False rd show ?thesis by (auto split: sum.splits option.splits)
  next
    case True
    then obtain r where r: "q = Inr (Some r)" by blast
    have held: "row (w_store w) (op_txid p, op_index p, out_topic o') = Some r"
      using read_topic_output_row rd r by metis
    let ?cb = "drop_consumer o' (consumed_by r)"
    let ?f = "update_consumed_by (op_txid p) (op_index p) (out_topic o') ?cb"
    obtain w2 e where wr: "store_write env ?f w1 = (w2, e)" by (cases "store_write env ?f w1")
    show ?thesis
    proof (cases e)
      case (Some err)
      then show ?thesis using rd r wr by (simp add: Let_def)
    next
      case None
      have w2: "w_store w2 = ?f (w_store w)" using store_write_ok wr None st by auto
      have sh: "shrinks (w_store w) (w_store w2)"
        using held w2 shrinks_update drop_consumer_subset by metis
      have kd: "keyed (w_store w2)" "ranked rk (w_store w2)"
        using sh Cons.prems(1,2) shrinks_keyed shrinks_ranked by blast+
      have "key_of r = (op_txid p, op_index p, out_topic o')" "consumes_below rk r"
        using held Cons.prems(1,2) by (auto simp: keyed_def ranked_def)
      then have r': "out_txid r = op_txid p" "consumes_below rk (r\<lparr>consumed_by := ?cb\<rparr>)"
        by (auto simp: key_of_def consumes_below_def)
      have "card (below rk (w_store w2) (op_txid p)) \<le> card (below rk (w_store w) (op_txid p))"
        using sh by (rule card_below_shrinks)
      also have "\<dots> < card (below rk (w_store w) (out_txid o'))"
        using held Cons.prems(3) by (intro below_strict) auto
      finally have "card (below rk (w_store w2) (op_txid p)) < n" using Cons.prems(4) by simp
      then obtain w3 e3 where d: "delete_utxo_deep env n (r\<lparr>consumed_by := ?cb\<rparr>) w2 = Some (w3, e3)"
        using assms(1) kd r' unfolding deep_ends_def by fastforce
      have sh3: "shrinks (w_store w) (w_store w3)"
        using delete_deep_run(1) [OF d] sh shrinks_trans by (auto simp: deep_run_def)
      have "delete_consumed env n o' ps w3 \<noteq> None"
        using Cons.IH [of w3] Cons.prems card_below_shrinks [OF sh3, of rk "out_txid o'"]
          shrinks_keyed [OF sh3] shrinks_ranked [OF sh3] by auto
      then show ?thesis using rd r wr None d by (simp add: Let_def)
    qed
  qed
qed simp

lemma deep_ends_all: "deep_ends rk env n"
proof (induction n)
  case (Suc n)
  show ?case
    unfolding deep_ends_def
  proof (intro allI impI, elim conjE)
    fix o' :: Output and w :: world
    assume kd: "keyed (w_store w)" "ranked rk (w_store w)" and cb: "consumes_below rk o'"
      and card: "card (below rk (w_store w) (out_txid o')) < Suc n"
    have ps: "\<forall>p \<in> set (outputs_consumed o'). rk (op_txid p) < rk (out_txid o')"
      using cb by (simp add: consumes_below_def)
    show "delete_utxo_deep env (Suc n) o' w \<noteq> None"
    proof (cases "consumed_by o' = []")
      case False
      then show ?thesis using consumed_ends [OF Suc kd ps] card by simp
    next
      case True
      let ?f = "delete_output (out_txid o') (output_index o') (out_topic o')"
      obtain w1 e where wr: "store_write env ?f w = (w1, e)" by (cases "store_write env ?f w")
      show ?thesis
      proof (cases e)
        case (Some err)
        then show ?thesis using True wr by simp
      next
        case None
        let ?w2 = "tell_dropped env o' (e_services env) w1"
        have "w_store ?w2 = ?f (w_store w)" using tell_dropped_frame store_write_ok wr None by metis
        then have sh: "shrinks (w_store w) (w_store ?w2)" using shrinks_delete by simp
        have "delete_consumed env n o' (outputs_consumed o') ?w2 \<noteq> None"
          using consumed_ends [OF Suc shrinks_keyed [OF sh kd(1)] shrinks_ranked [OF sh kd(2)] ps]
            card card_below_shrinks [OF sh, of rk "out_txid o'"] by simp
        then show ?thesis using True wr None by simp
      qed
    qed
  qed
qed (simp add: deep_ends_def)

lemma delete_deep_ends:
  assumes "keyed (w_store w)" "ranked rk (w_store w)" "consumes_below rk o'" "n > length (ms_outputs (w_store w))"
  shows "delete_utxo_deep env n o' w \<noteq> None"
  using deep_ends_all [of rk env n] assms below_finite(2) [of rk "w_store w" "out_txid o'"]
  unfolding deep_ends_def by (meson le_less_trans)

lemma delete_deep_some:
  assumes "keyed (w_store w)" "ranked rk (w_store w)" "consumes_below rk o'"
  obtains n where "delete_utxo_deep env n o' w = Some (delete_deep env o' w)"
    "n = length (ms_outputs (w_store w)) + 2"
proof -
  let ?n = "length (ms_outputs (w_store w)) + 2"
  have "delete_utxo_deep env ?n o' w \<noteq> None" using assms by (intro delete_deep_ends) auto
  then show thesis by (intro that [of ?n]) (auto simp: delete_deep_def)
qed

text \<open>The coin itself is gone when nothing consumed it and nothing faulted.\<close>

lemma delete_deep_gone:
  assumes "delete_utxo_deep env (Suc n) o' w = Some (w', None)" "consumed_by o' = []"
  shows "row (w_store w') (key_of o') = None"
proof -
  let ?f = "delete_output (out_txid o') (output_index o') (out_topic o')"
  obtain w1 e where wr: "store_write env ?f w = (w1, e)" by (cases "store_write env ?f w")
  with assms have e: "e = None" by (cases e) auto
  let ?w2 = "tell_dropped env o' (e_services env) w1"
  have "w_store ?w2 = ?f (w_store w)" using tell_dropped_frame store_write_ok wr e by metis
  then have "row (w_store ?w2) (key_of o') = None" by (simp add: key_of_def)
  moreover have "delete_consumed env n o' (outputs_consumed o') ?w2 = Some (w', None)"
    using assms wr e by simp
  then have "shrinks (w_store ?w2) (w_store w')"
    using delete_deep_run(2) by (fastforce simp: deep_run_def)
  ultimately show ?thesis using shrinks_None by blast
qed

end
