(* ===== verification/Successor_Rule.thy ===== *)
theory Successor_Rule
  imports Deep_Delete
begin

text \<open>
  The store's predecessor question (\<open>engine.rs\<close>, \<open>Engine::unlanded_predecessor\<close>): before a transaction
  that found no coin in a topic is recorded there, is one of the transactions it builds on known not to
  have landed? The question walks the ancestry the BEEF carries, breadth first from the transaction's own
  inputs, reading the store for each body, under one allowance of reads for the whole submit.

  The BEEF and the topic manager are arguments: the bodies the BEEF carries, the outpoints the manager
  names over the atomic BEEF of a transaction (nothing where it errs or the BEEF cannot be built), and its
  dry run of a body with no coins.
\<close>

datatype dry_run = Dry_Admits "nat list" | Dry_No_Admissible | Dry_Err string

record question_env =
  q_bodies :: "(txid \<Rightarrow> transaction option) option"
  q_named :: "txid \<Rightarrow> string list"
  q_dry :: "txid \<Rightarrow> dry_run"

record not_now =
  nn_why :: string
  nn_carried :: "txid option"

definition PREDECESSOR_READS_PER_SUBMIT :: nat where
  "PREDECESSOR_READS_PER_SUBMIT = 256"

definition nn_wait :: "string \<Rightarrow> not_now" where
  "nn_wait why = \<lparr>nn_why = why, nn_carried = None\<rparr>"

definition out_of_allowance :: "txid \<Rightarrow> not_now" where
  "out_of_allowance c = nn_wait (c @ '' is not known to have landed: the question ran out of the submit's ''
     @ show_nat PREDECESSOR_READS_PER_SUBMIT @ '' reads'')"

definition unread :: "txid \<Rightarrow> string \<Rightarrow> not_now" where
  "unread c e = nn_wait (c @ '' is not known to have landed: the store could not say ('' @ e @ '')'')"

text \<open>A spend the walk met: the candidate, who spends it, which output.\<close>

type_synonym walk_spend = "txid \<times> txid \<times> nat"

definition outpoint_id :: "txid \<Rightarrow> nat \<Rightarrow> string" where
  "outpoint_id t i = to_graph_id (Outpoint t i)"

text \<open>The coins of a carried body: a held one is the answer, the others are asked next.\<close>

fun ask_coins ::
  "engine_env \<Rightarrow> topic \<Rightarrow> txid \<Rightarrow> tx_input list \<Rightarrow> nat \<Rightarrow> world \<Rightarrow> world \<times> nat \<times> (not_now + walk_spend list)" where
  "ask_coins env tp c [] reads w = (w, reads, Inr [])"
| "ask_coins env tp c (inp # ins) reads w =
     (if source_txid inp = [] then ask_coins env tp c ins reads w
      else if PREDECESSOR_READS_PER_SUBMIT \<le> reads then (w, reads, Inl (out_of_allowance c))
      else case read_topic_output env (source_txid inp) (source_output_index inp) tp w of
             (w1, Inl e) \<Rightarrow> (w1, Suc reads, Inl (unread c e))
           | (w1, Inr (Some _)) \<Rightarrow>
               (w1, Suc reads, Inl \<lparr>nn_why = c @ '' has not landed'', nn_carried = Some c\<rparr>)
           | (w1, Inr None) \<Rightarrow>
               (case ask_coins env tp c ins (Suc reads) w1 of
                  (w2, r2, Inl nn) \<Rightarrow> (w2, r2, Inl nn)
                | (w2, r2, Inr met) \<Rightarrow>
                    (w2, r2, Inr ((source_txid inp, c, source_output_index inp) # met))))"

definition named_outputs :: "question_env \<Rightarrow> txid \<Rightarrow> walk_spend list \<Rightarrow> nat list" where
  "named_outputs q c spends =
     map (\<lambda>(_, _, v). v) (filter (\<lambda>(d, sp, v). d = c \<and> outpoint_id c v \<in> set (q_named q sp)) spends)"

definition judge_opener :: "question_env \<Rightarrow> txid \<Rightarrow> walk_spend list \<Rightarrow> not_now option" where
  "judge_opener q c spends =
     (let named = named_outputs q c spends
      in if named = [] then None
         else case q_dry q c of
                Dry_Admits vs \<Rightarrow>
                  if list_ex (\<lambda>v. v \<in> set named) vs
                  then Some \<lparr>nn_why = c @ '' has not landed (the manager names the output spent from it and would admit it with no coin: an opener)'',
                             nn_carried = Some c\<rparr>
                  else None
              | Dry_No_Admissible \<Rightarrow> None
              | Dry_Err e \<Rightarrow>
                  Some (nn_wait (c @ '' is not known to have landed: the manager could not judge it ('' @ e @ '')'')))"

text \<open>Whether an absent body is asked of the store: an input of the transaction itself that it names.\<close>

definition absent_asked :: "question_env \<Rightarrow> txid \<Rightarrow> txid list \<Rightarrow> bool \<Rightarrow> txid \<Rightarrow> walk_spend list \<Rightarrow> bool" where
  "absent_asked q t direct found_coin c spends \<longleftrightarrow>
     c \<in> set direct \<and> \<not> found_coin
     \<and> list_ex (\<lambda>(d, _, v). d = c \<and> outpoint_id c v \<in> set (q_named q t)) spends"

definition ask_candidate ::
  "engine_env \<Rightarrow> question_env \<Rightarrow> (txid \<Rightarrow> transaction option) \<Rightarrow> topic \<Rightarrow> txid \<Rightarrow> txid list \<Rightarrow> bool
    \<Rightarrow> txid \<Rightarrow> walk_spend list \<Rightarrow> nat \<Rightarrow> world \<Rightarrow> world \<times> nat \<times> (not_now + walk_spend list)" where
  "ask_candidate env q bodies tp t direct found_coin c spends reads w =
     (if bodies c = None \<and> \<not> absent_asked q t direct found_coin c spends then (w, reads, Inr [])
      else if PREDECESSOR_READS_PER_SUBMIT \<le> reads then (w, reads, Inl (out_of_allowance c))
      else case store_read env (\<lambda>s. does_applied_transaction_exist s c tp) w of
        (w1, Inl e) \<Rightarrow> (w1, Suc reads, Inl (unread c e))
      | (w1, Inr True) \<Rightarrow> (w1, Suc reads, Inr [])
      | (w1, Inr False) \<Rightarrow>
          if PREDECESSOR_READS_PER_SUBMIT \<le> Suc reads then (w1, Suc reads, Inl (out_of_allowance c))
          else (case store_read env (\<lambda>s. find_outputs_for_transaction s c False) w1 of
            (w2, Inl e) \<Rightarrow> (w2, Suc (Suc reads), Inl (unread c e))
          | (w2, Inr os) \<Rightarrow>
              if list_ex (\<lambda>o'. out_topic o' = tp) os then (w2, Suc (Suc reads), Inr [])
              else (case bodies c of
                None \<Rightarrow>
                  (w2, Suc (Suc reads),
                   Inl (nn_wait (c @ '' has not landed (the manager names it as history; the BEEF does not carry it)'')))
              | Some body \<Rightarrow>
                  (case ask_coins env tp c (inputs body) (Suc (Suc reads)) w2 of
                     (w3, r3, Inl nn) \<Rightarrow> (w3, r3, Inl nn)
                   | (w3, r3, Inr met) \<Rightarrow>
                       (case judge_opener q c (spends @ met) of
                          Some nn \<Rightarrow> (w3, r3, Inl nn)
                        | None \<Rightarrow> (w3, r3, Inr met))))))"

lemma ask_coins_reads:
  "ask_coins env tp c ins reads w = (w', r', x) \<Longrightarrow> reads \<le> r' \<and> (reads \<le> PREDECESSOR_READS_PER_SUBMIT \<longrightarrow> r' \<le> PREDECESSOR_READS_PER_SUBMIT)"
  by (induction ins arbitrary: reads w w' r' x) (fastforce split: if_splits prod.splits sum.splits option.splits)+

lemma ask_candidate_reads:
  assumes "ask_candidate env q bodies tp t direct fc c spends reads w = (w', r', x)"
  shows "reads \<le> r'" "reads \<le> PREDECESSOR_READS_PER_SUBMIT \<Longrightarrow> r' \<le> PREDECESSOR_READS_PER_SUBMIT"
    "x = Inr met \<Longrightarrow> met \<noteq> [] \<Longrightarrow> reads < r' \<and> reads < PREDECESSOR_READS_PER_SUBMIT"
  using assms
  by (fastforce simp: ask_candidate_def dest!: ask_coins_reads
      split: if_splits prod.splits sum.splits option.splits bool.splits)+

function (sequential) question_loop ::
  "engine_env \<Rightarrow> question_env \<Rightarrow> (txid \<Rightarrow> transaction option) \<Rightarrow> topic \<Rightarrow> txid \<Rightarrow> txid list \<Rightarrow> bool
    \<Rightarrow> txid list \<Rightarrow> txid list \<Rightarrow> walk_spend list \<Rightarrow> nat \<Rightarrow> world \<Rightarrow> world \<times> nat \<times> not_now option" where
  "question_loop env q bodies tp t direct fc [] asked spends reads w = (w, reads, None)"
| "question_loop env q bodies tp t direct fc (c # ask) asked spends reads w =
     (if c = [] \<or> c \<in> set asked then question_loop env q bodies tp t direct fc ask asked spends reads w
      else case ask_candidate env q bodies tp t direct fc c spends reads w of
             (w1, r1, Inl nn) \<Rightarrow> (w1, r1, Some nn)
           | (w1, r1, Inr met) \<Rightarrow>
               question_loop env q bodies tp t direct fc (ask @ map fst met) (c # asked) (spends @ met) r1 w1)"
  by pat_completeness auto

termination
proof (relation "measures [\<lambda>(_, _, _, _, _, _, _, _, _, _, reads, _). PREDECESSOR_READS_PER_SUBMIT - reads,
    \<lambda>(_, _, _, _, _, _, _, ask, _, _, _, _). length ask]", goal_cases)
  case (3 env q bodies tp t direct fc c ask asked spends reads w w1 y r1 x z)
  then have "ask_candidate env q bodies tp t direct fc c spends reads w = (w1, r1, Inr z)" by simp
  note r = ask_candidate_reads [OF this]
  show ?case
  proof (cases "z = []")
    case True
    then show ?thesis using r(1) by (auto simp: le_less diff_less_mono2 intro: diff_le_mono2)
  next
    case False
    then show ?thesis using r(3) [OF refl False] by auto
  qed
qed auto

text \<open>The inputs that start the walk: not held, and named where only named ones count.\<close>

definition spent_inputs :: "transaction \<Rightarrow> (txid \<times> nat) list" where
  "spent_inputs tx =
     map (\<lambda>i. (source_txid i, source_output_index i)) (filter (\<lambda>i. source_txid i \<noteq> []) (inputs tx))"

definition question_starts :: "question_env \<Rightarrow> transaction \<Rightarrow> txid \<Rightarrow> bool \<Rightarrow> string list \<Rightarrow> walk_spend list" where
  "question_starts q tx t named_only held =
     map (\<lambda>(s, v). (s, t, v))
       (filter (\<lambda>(s, v). outpoint_id s v \<notin> set held \<and> (named_only \<longrightarrow> outpoint_id s v \<in> set (q_named q t)))
         (spent_inputs tx))"

definition unlanded_predecessor ::
  "engine_env \<Rightarrow> question_env \<Rightarrow> transaction \<Rightarrow> txid \<Rightarrow> topic \<Rightarrow> bool \<Rightarrow> string list \<Rightarrow> bool \<Rightarrow> nat \<Rightarrow> world
    \<Rightarrow> world \<times> nat \<times> not_now option" where
  "unlanded_predecessor env q tx t tp named_only held found_coin reads w =
     (let starts = question_starts q tx t named_only held; ask = map fst starts
      in if ask = [] then (w, reads, None)
         else case q_bodies q of
                None \<Rightarrow> (w, reads, None)
              | Some bodies \<Rightarrow> question_loop env q bodies tp t ask found_coin ask [] starts reads w)"


subsection \<open>What the walk asks\<close>

definition landed_in :: "memory_storage \<Rightarrow> topic \<Rightarrow> txid \<Rightarrow> bool" where
  "landed_in s tp c \<longleftrightarrow>
     does_applied_transaction_exist s c tp
     \<or> list_ex (\<lambda>o'. out_topic o' = tp) (find_outputs_for_transaction s c False)"

definition spends_held_coin :: "memory_storage \<Rightarrow> topic \<Rightarrow> transaction \<Rightarrow> bool" where
  "spends_held_coin s tp body \<longleftrightarrow>
     list_ex (\<lambda>i. source_txid i \<noteq> [] \<and> row s (source_txid i, source_output_index i, tp) \<noteq> None) (inputs body)"

inductive walk_reaches :: "memory_storage \<Rightarrow> (txid \<Rightarrow> transaction option) \<Rightarrow> topic \<Rightarrow> walk_spend list \<Rightarrow> txid \<Rightarrow> bool"
  for s bodies tp starts where
  from_start: "(c, sp, v) \<in> set starts \<Longrightarrow> walk_reaches s bodies tp starts c"
| from_body: "walk_reaches s bodies tp starts c \<Longrightarrow> bodies c = Some body \<Longrightarrow> \<not> landed_in s tp c
    \<Longrightarrow> inp \<in> set (inputs body) \<Longrightarrow> source_txid inp \<noteq> [] \<Longrightarrow> walk_reaches s bodies tp starts (source_txid inp)"

definition coins_met :: "txid \<Rightarrow> transaction \<Rightarrow> walk_spend list" where
  "coins_met c body =
     map (\<lambda>i. (source_txid i, c, source_output_index i)) (filter (\<lambda>i. source_txid i \<noteq> []) (inputs body))"

text \<open>
  What keeps a transaction from being recorded: a candidate not landed that the topic waits for. It is judged
  over \<open>spends\<close>, the spends the walk has met when it asks of it.
\<close>

definition unsettled ::
  "memory_storage \<Rightarrow> question_env \<Rightarrow> (txid \<Rightarrow> transaction option) \<Rightarrow> topic \<Rightarrow> txid \<Rightarrow> bool \<Rightarrow> txid list
    \<Rightarrow> walk_spend list \<Rightarrow> txid \<Rightarrow> bool" where
  "unsettled s q bodies tp t found_coin direct spends c \<longleftrightarrow>
     \<not> landed_in s tp c
     \<and> (case bodies c of
          None \<Rightarrow> absent_asked q t direct found_coin c spends
        | Some body \<Rightarrow> spends_held_coin s tp body \<or> judge_opener q c spends \<noteq> None)"

text \<open>The spends a candidate adds: those of its body when it is carried and has not landed.\<close>

definition met_of :: "memory_storage \<Rightarrow> (txid \<Rightarrow> transaction option) \<Rightarrow> topic \<Rightarrow> txid \<Rightarrow> walk_spend list" where
  "met_of s bodies tp c =
     (case bodies c of None \<Rightarrow> [] | Some body \<Rightarrow> if landed_in s tp c then [] else coins_met c body)"

text \<open>
  The order of the walk, as a queue: each candidate once, with the spends met by then, which are the
  transaction's own, those of the bodies asked before it and its own.
\<close>

inductive walk_trail ::
  "memory_storage \<Rightarrow> (txid \<Rightarrow> transaction option) \<Rightarrow> topic \<Rightarrow> txid list \<Rightarrow> txid list \<Rightarrow> walk_spend list
    \<Rightarrow> (txid \<times> walk_spend list) list \<Rightarrow> bool"
  for s bodies tp where
  trail_end: "walk_trail s bodies tp [] asked spends []"
| trail_skip: "c = [] \<or> c \<in> set asked \<Longrightarrow> walk_trail s bodies tp ask asked spends trail
    \<Longrightarrow> walk_trail s bodies tp (c # ask) asked spends trail"
| trail_ask: "c \<noteq> [] \<Longrightarrow> c \<notin> set asked
    \<Longrightarrow> walk_trail s bodies tp (ask @ map fst (met_of s bodies tp c)) (c # asked) (spends @ met_of s bodies tp c) trail
    \<Longrightarrow> walk_trail s bodies tp (c # ask) asked spends ((c, spends @ met_of s bodies tp c) # trail)"

inductive_cases walk_trail_Nil: "walk_trail s bodies tp [] asked spends trail"
inductive_cases walk_trail_Cons: "walk_trail s bodies tp (c # ask) asked spends trail"

lemma walk_trail_unique:
  "walk_trail s bodies tp ask asked spends trail \<Longrightarrow> walk_trail s bodies tp ask asked spends trail' \<Longrightarrow> trail' = trail"
proof (induction arbitrary: trail' rule: walk_trail.induct)
  case (trail_end asked spends)
  then show ?case by (rule walk_trail_Nil)
next
  case (trail_skip c asked ask spends trail)
  from trail_skip.prems show ?case
    by (rule walk_trail_Cons) (use trail_skip.hyps(1) in \<open>auto intro: trail_skip.IH\<close>)
next
  case (trail_ask c asked ask spends trail)
  from trail_ask.prems show ?case
    by (rule walk_trail_Cons) (use trail_ask.hyps(1,2) in \<open>auto intro: trail_ask.IH\<close>)
qed

definition read_frame :: "world \<Rightarrow> nat \<Rightarrow> world \<Rightarrow> nat \<Rightarrow> bool" where
  "read_frame w reads w' reads' \<longleftrightarrow>
     w_store w' = w_store w \<and> w_report w' = w_report w \<and> w_not_landed w' = w_not_landed w
     \<and> w_calls w' + reads = w_calls w + reads' \<and> reads \<le> reads'
     \<and> (reads \<le> PREDECESSOR_READS_PER_SUBMIT \<longrightarrow> reads' \<le> PREDECESSOR_READS_PER_SUBMIT)"

lemma read_frame_refl [simp]: "read_frame w r w r"
  by (simp add: read_frame_def)

lemma read_frame_trans: "read_frame w r w1 r1 \<Longrightarrow> read_frame w1 r1 w2 r2 \<Longrightarrow> read_frame w r w2 r2"
  by (auto simp: read_frame_def)

lemma read_frame_read:
  "store_read env f w = (w1, x) \<Longrightarrow> reads < PREDECESSOR_READS_PER_SUBMIT \<Longrightarrow> read_frame w reads w1 (Suc reads)"
  by (drule store_read_frame) (simp add: read_frame_def)

lemma read_frame_store: "read_frame w r w' r' \<Longrightarrow> w_store w' = w_store w"
  by (simp add: read_frame_def)

lemma ask_coins_frame: "ask_coins env tp c ins reads w = (w', r', x) \<Longrightarrow> read_frame w reads w' r'"
proof (induction ins arbitrary: reads w w' r' x)
  case (Cons inp ins)
  show ?case
  proof (cases "source_txid inp = [] \<or> PREDECESSOR_READS_PER_SUBMIT \<le> reads")
    case True
    with Cons show ?thesis by (auto split: if_splits)
  next
    case False
    obtain w1 y where rd: "read_topic_output env (source_txid inp) (source_output_index inp) tp w = (w1, y)"
      by fastforce
    have "read_frame w reads w1 (Suc reads)"
      using read_frame_read [OF rd [unfolded read_topic_output_def]] False by simp
    with Cons False rd show ?thesis
      by (auto split: sum.splits option.splits prod.splits elim!: read_frame_trans)
  qed
qed simp

lemma ask_candidate_frame:
  assumes "ask_candidate env q bodies tp t direct fc c spends reads w = (w', r', x)"
  shows "read_frame w reads w' r'"
  using assms
  by (auto simp: ask_candidate_def not_le dest!: ask_coins_frame
      split: if_splits prod.splits sum.splits option.splits bool.splits
      intro: read_frame_read read_frame_trans [OF read_frame_read]
        read_frame_trans [OF read_frame_read read_frame_trans [OF read_frame_read]])

lemma question_loop_frame:
  "question_loop env q bodies tp t direct fc ask asked spends reads w = (w', r', x) \<Longrightarrow> read_frame w reads w' r'"
proof (induction env q bodies tp t direct fc ask asked spends reads w rule: question_loop.induct)
  case (2 env q bodies tp t direct fc c ask asked spends reads w)
  then show ?case
    by (auto split: if_splits prod.splits sum.splits dest: ask_candidate_frame
        intro: read_frame_trans [OF ask_candidate_frame])
qed simp


subsection \<open>Silence and answers\<close>

lemma ask_coins_met:
  "ask_coins env tp c ins reads w = (w', r', Inr met) \<Longrightarrow>
     met = map (\<lambda>i. (source_txid i, c, source_output_index i)) (filter (\<lambda>i. source_txid i \<noteq> []) ins)
     \<and> \<not> list_ex (\<lambda>i. source_txid i \<noteq> [] \<and> row (w_store w) (source_txid i, source_output_index i, tp) \<noteq> None) ins"
proof (induction ins arbitrary: reads w met)
  case (Cons inp ins)
  show ?case
  proof (cases "source_txid inp = []")
    case True
    with Cons show ?thesis by auto
  next
    case False
    with Cons.prems obtain w1 met1 where
      rd: "read_topic_output env (source_txid inp) (source_output_index inp) tp w = (w1, Inr None)"
      and rest: "ask_coins env tp c ins (Suc reads) w1 = (w', r', Inr met1)"
      and met: "met = (source_txid inp, c, source_output_index inp) # met1"
      by (auto split: if_splits sum.splits option.splits prod.splits)
    have "row (w_store w) (source_txid inp, source_output_index inp, tp) = None"
      using read_topic_output_row [OF rd] by simp
    with Cons.IH [OF rest] met False read_topic_output_frame [OF rd] show ?thesis by auto
  qed
qed simp

lemma ask_coins_answer:
  "ask_coins env tp c ins reads w = (w', r', Inl nn) \<Longrightarrow>
     (nn_carried nn = Some c
      \<and> list_ex (\<lambda>i. source_txid i \<noteq> [] \<and> row (w_store w) (source_txid i, source_output_index i, tp) \<noteq> None) ins)
     \<or> (nn_carried nn = None \<and> (fault_between env (w_calls w) (w_calls w') \<or> PREDECESSOR_READS_PER_SUBMIT \<le> r'))"
proof (induction ins arbitrary: reads w)
  case (Cons inp ins)
  show ?case
  proof (cases "source_txid inp = [] \<or> PREDECESSOR_READS_PER_SUBMIT \<le> reads")
    case True
    with Cons show ?thesis by (auto simp: out_of_allowance_def nn_wait_def split: if_splits)
  next
    case False
    obtain w1 y where rd: "read_topic_output env (source_txid inp) (source_output_index inp) tp w = (w1, y)"
      by fastforce
    note fr = read_topic_output_frame [OF rd]
    show ?thesis
    proof (cases y)
      case (Inl e)
      with Cons.prems False rd read_topic_output_fault [OF rd [unfolded Inl]] show ?thesis
        by (auto simp: unread_def nn_wait_def)
    next
      case (Inr ro)
      show ?thesis
      proof (cases ro)
        case None
        with Cons.prems False rd Inr have rest: "ask_coins env tp c ins (Suc reads) w1 = (w', r', Inl nn)"
          by (auto split: sum.splits prod.splits)
        then have "w_calls w1 \<le> w_calls w'" using ask_coins_frame [OF rest] by (auto simp: read_frame_def)
        with Cons.IH [OF rest] fr fault_between_mono [of env "w_calls w1" "w_calls w'" "w_calls w" "w_calls w'"]
        show ?thesis by auto
      next
        case (Some r)
        with Cons.prems False rd Inr read_topic_output_row [of env _ _ tp w w1] show ?thesis by force
      qed
    qed
  qed
qed simp


text \<open>A candidate the walk passed over.\<close>

definition passed ::
  "memory_storage \<Rightarrow> question_env \<Rightarrow> (txid \<Rightarrow> transaction option) \<Rightarrow> topic \<Rightarrow> txid \<Rightarrow> txid list \<Rightarrow> bool
    \<Rightarrow> walk_spend list \<Rightarrow> txid \<Rightarrow> walk_spend list \<Rightarrow> bool" where
  "passed s q bodies tp t direct fc spends c met \<longleftrightarrow>
     (case bodies c of
        None \<Rightarrow> met = [] \<and> (landed_in s tp c \<or> \<not> absent_asked q t direct fc c spends)
      | Some body \<Rightarrow>
          (landed_in s tp c \<and> met = [])
          \<or> (\<not> landed_in s tp c \<and> met = coins_met c body \<and> \<not> spends_held_coin s tp body \<and> judge_opener q c (spends @ met) = None))"

lemma ask_candidate_passes:
  assumes "ask_candidate env q bodies tp t direct fc c spends reads w = (w', r', Inr met)"
  shows "passed (w_store w) q bodies tp t direct fc spends c met"
proof (cases "bodies c = None \<and> \<not> absent_asked q t direct fc c spends")
  case True
  with assms show ?thesis by (simp add: ask_candidate_def passed_def)
next
  case False
  obtain w1 a where rd1: "store_read env (\<lambda>s. does_applied_transaction_exist s c tp) w = (w1, Inr a)"
    using assms False by (auto simp: ask_candidate_def split: if_splits prod.splits sum.splits)
  have a: "a = does_applied_transaction_exist (w_store w) c tp" using store_read_Inr [OF rd1] .
  show ?thesis
  proof (cases a)
    case True
    with assms False rd1 a show ?thesis
      by (auto simp: ask_candidate_def passed_def landed_in_def split: if_splits option.splits)
  next
    case na: False
    obtain w2 os where rd2: "store_read env (\<lambda>s. find_outputs_for_transaction s c False) w1 = (w2, Inr os)"
      using assms False rd1 na by (auto simp: ask_candidate_def split: if_splits prod.splits sum.splits)
    have os: "os = find_outputs_for_transaction (w_store w) c False"
      using store_read_Inr [OF rd2] store_read_frame [OF rd1] by simp
    have w2: "w_store w2 = w_store w" using store_read_frame [OF rd1] store_read_frame [OF rd2] by simp
    show ?thesis
    proof (cases "list_ex (\<lambda>o'. out_topic o' = tp) os")
      case True
      with assms False rd1 rd2 na os show ?thesis
        by (auto simp: ask_candidate_def passed_def landed_in_def split: if_splits option.splits)
    next
      case no: False
      then obtain body r3 where b: "bodies c = Some body"
        "ask_coins env tp c (inputs body) (Suc (Suc reads)) w2 = (w', r3, Inr met)"
        "judge_opener q c (spends @ met) = None"
        using assms False rd1 rd2 na
        by (auto simp: ask_candidate_def split: if_splits option.splits prod.splits sum.splits)
      with ask_coins_met [OF b(2)] w2 no na a os show ?thesis
        by (simp add: passed_def coins_met_def spends_held_coin_def landed_in_def)
    qed
  qed
qed

lemma passed_settled:
  assumes "passed s q bodies tp t direct fc spends c met"
  shows "met = met_of s bodies tp c \<and> \<not> unsettled s q bodies tp t fc direct (spends @ met) c"
  using assms by (auto simp: passed_def unsettled_def met_of_def split: option.splits)

lemma question_loop_silence:
  assumes "question_loop env q bodies tp t direct fc ask asked spends reads w = (w', r', None)"
  shows "\<exists>trail. walk_trail (w_store w) bodies tp ask asked spends trail
    \<and> (\<forall>(c, known) \<in> set trail. \<not> unsettled (w_store w) q bodies tp t fc direct known c)"
  using assms
proof (induction env q bodies tp t direct fc ask asked spends reads w rule: question_loop.induct)
  case (1 env q bodies tp t direct fc asked spends reads w)
  show ?case by (intro exI [of _ "[]"]) (simp add: trail_end)
next
  case (2 env q bodies tp t direct fc c ask asked spends reads w)
  show ?case
  proof (cases "c = [] \<or> c \<in> set asked")
    case True
    with "2.IH"(1) [OF True] "2.prems" trail_skip [OF True] show ?thesis by (simp, blast)
  next
    case False
    obtain w1 r1 met where cand: "ask_candidate env q bodies tp t direct fc c spends reads w = (w1, r1, Inr met)"
      and rest: "question_loop env q bodies tp t direct fc (ask @ map fst met) (c # asked) (spends @ met) r1 w1 = (w', r', None)"
      using "2.prems" False by (auto split: prod.splits sum.splits)
    note p = passed_settled [OF ask_candidate_passes [OF cand]]
    have st: "w_store w1 = w_store w" using read_frame_store [OF ask_candidate_frame [OF cand]] .
    from "2.IH"(2) [OF False cand [symmetric] refl refl rest] obtain trail where
      t: "walk_trail (w_store w) bodies tp (ask @ map fst met) (c # asked) (spends @ met) trail"
      "\<forall>(c, known) \<in> set trail. \<not> unsettled (w_store w) q bodies tp t fc direct known c"
      unfolding st by blast
    have "walk_trail (w_store w) bodies tp (c # ask) asked spends ((c, spends @ met) # trail)"
      using trail_ask [of c asked "w_store w" bodies tp ask spends trail] t(1) p False by simp
    moreover have "\<not> unsettled (w_store w) q bodies tp t fc direct (spends @ met) c" using p by blast
    ultimately show ?thesis using t(2) by (intro exI [of _ "(c, spends @ met) # trail"]) auto
  qed
qed

text \<open>The trail asks exactly what the walk reaches.\<close>

lemma walk_trail_closed:
  assumes "walk_trail s bodies tp ask asked spends trail"
    and "\<forall>d \<in> set asked. \<forall>x \<in> set (met_of s bodies tp d). fst x = [] \<or> fst x \<in> set ask \<union> set asked"
  shows "set ask - {[]} \<subseteq> fst ` set trail \<union> set asked \<and>
    (\<forall>d \<in> fst ` set trail \<union> set asked. \<forall>x \<in> set (met_of s bodies tp d). fst x = [] \<or> fst x \<in> fst ` set trail \<union> set asked)"
  using assms
proof (induction rule: walk_trail.induct)
  case (trail_end asked spends)
  then show ?case by auto
next
  case (trail_skip c asked ask spends trail)
  have "\<forall>d \<in> set asked. \<forall>x \<in> set (met_of s bodies tp d). fst x = [] \<or> fst x \<in> set ask \<union> set asked"
  proof (intro ballI)
    fix d x assume "d \<in> set asked" "x \<in> set (met_of s bodies tp d)"
    with trail_skip.prems have "fst x = [] \<or> fst x \<in> set (c # ask) \<union> set asked" by blast
    with trail_skip.hyps(1) show "fst x = [] \<or> fst x \<in> set ask \<union> set asked" by auto
  qed
  from trail_skip.IH [OF this] show ?case using trail_skip.hyps(1) by auto
next
  case (trail_ask c asked ask spends trail)
  have "\<forall>d \<in> set (c # asked). \<forall>x \<in> set (met_of s bodies tp d).
      fst x = [] \<or> fst x \<in> set (ask @ map fst (met_of s bodies tp c)) \<union> set (c # asked)"
  proof (intro ballI)
    fix d x assume d: "d \<in> set (c # asked)" and x: "x \<in> set (met_of s bodies tp d)"
    show "fst x = [] \<or> fst x \<in> set (ask @ map fst (met_of s bodies tp c)) \<union> set (c # asked)"
    proof (cases "d = c")
      case True
      then have "fst x \<in> set (map fst (met_of s bodies tp c))" using x by simp
      then show ?thesis by simp
    next
      case False
      then have "fst x = [] \<or> fst x \<in> set (c # ask) \<union> set asked" using trail_ask.prems d x by auto
      then show ?thesis by auto
    qed
  qed
  note ih = trail_ask.IH [OF this]
  have e: "fst ` set trail \<union> set (c # asked) = fst ` set ((c, spends @ met_of s bodies tp c) # trail) \<union> set asked" by simp
  have "set (c # ask) - {[]} \<subseteq> fst ` set trail \<union> set (c # asked)" using ih by auto
  with ih show ?case unfolding e [symmetric] by blast
qed

lemma walk_trail_reached:
  assumes "walk_trail s bodies tp ask asked spends trail"
    and "\<And>c. c \<in> set ask \<Longrightarrow> c \<noteq> [] \<Longrightarrow> walk_reaches s bodies tp starts c"
  shows "c \<in> fst ` set trail \<Longrightarrow> walk_reaches s bodies tp starts c"
  using assms
proof (induction rule: walk_trail.induct)
  case (trail_ask d asked ask spends trail)
  have d: "walk_reaches s bodies tp starts d" using trail_ask.prems(2) trail_ask.hyps(1) by simp
  have met: "walk_reaches s bodies tp starts e" if "e \<in> set (ask @ map fst (met_of s bodies tp d))" "e \<noteq> []" for e
  proof (cases "e \<in> set ask")
    case True
    then show ?thesis using trail_ask.prems(2) that(2) by simp
  next
    case False
    with that(1) obtain x where x: "x \<in> set (met_of s bodies tp d)" "e = fst x" by auto
    then obtain body inp where "bodies d = Some body" "\<not> landed_in s tp d" "inp \<in> set (inputs body)" "e = source_txid inp"
      by (cases "bodies d") (auto simp: met_of_def coins_met_def split: if_splits)
    then show ?thesis using from_body [OF d] that(2) by blast
  qed
  show ?case using trail_ask.prems(1) trail_ask.IH [OF _ met] d by auto
qed auto

definition walk_settled ::
  "memory_storage \<Rightarrow> question_env \<Rightarrow> (txid \<Rightarrow> transaction option) \<Rightarrow> topic \<Rightarrow> txid \<Rightarrow> bool \<Rightarrow> walk_spend list
    \<Rightarrow> (txid \<times> walk_spend list) list \<Rightarrow> bool" where
  "walk_settled s q bodies tp t found_coin starts trail \<longleftrightarrow>
     walk_trail s bodies tp (map fst starts) [] starts trail
     \<and> fst ` set trail = {c. walk_reaches s bodies tp starts c}
     \<and> (\<forall>(c, known) \<in> set trail. \<not> unsettled s q bodies tp t found_coin (map fst starts) known c)"

lemma starts_nonempty: "(c, sp, v) \<in> set (question_starts q tx t named_only held) \<Longrightarrow> c \<noteq> []"
  by (auto simp: question_starts_def spent_inputs_def)

lemma question_silence:
  assumes "unlanded_predecessor env q tx t tp named_only held found_coin reads w = (w', reads', None)"
    and "q_bodies q = Some bodies"
  shows "\<exists>trail. walk_settled (w_store w) q bodies tp t found_coin (question_starts q tx t named_only held) trail"
proof -
  let ?st = "question_starts q tx t named_only held" let ?s = "w_store w"
  have "question_loop env q bodies tp t (map fst ?st) found_coin (map fst ?st) [] ?st reads w = (w', reads', None)"
    using assms by (auto simp: unlanded_predecessor_def Let_def split: if_splits)
  from question_loop_silence [OF this] obtain trail where
    t: "walk_trail ?s bodies tp (map fst ?st) [] ?st trail"
    "\<forall>(c, known) \<in> set trail. \<not> unsettled ?s q bodies tp t found_coin (map fst ?st) known c" by blast
  have cl: "set (map fst ?st) - {[]} \<subseteq> fst ` set trail"
    "\<forall>d \<in> fst ` set trail. \<forall>x \<in> set (met_of ?s bodies tp d). fst x = [] \<or> fst x \<in> fst ` set trail"
    using walk_trail_closed [OF t(1)] by auto
  have "c \<in> fst ` set trail" if "walk_reaches ?s bodies tp ?st c" for c
    using that
  proof induction
    case (from_start c sp v)
    then show ?case using cl(1) starts_nonempty [OF from_start] by force
  next
    case (from_body c body inp)
    then have "(source_txid inp, c, source_output_index inp) \<in> set (met_of ?s bodies tp c)"
      by (auto simp: met_of_def coins_met_def)
    with cl(2) from_body.IH from_body.hyps(5) show ?case by (metis fst_conv)
  qed
  moreover have "walk_reaches ?s bodies tp ?st c" if "c \<in> fst ` set trail" for c
    by (rule walk_trail_reached [OF t(1) _ that]) (auto intro: from_start)
  ultimately show ?thesis using t unfolding walk_settled_def by blast
qed

text \<open>Who spends an output the walk asks about: the transaction itself, or a body the walk reached.\<close>

definition walk_spend_of ::
  "memory_storage \<Rightarrow> (txid \<Rightarrow> transaction option) \<Rightarrow> topic \<Rightarrow> walk_spend list \<Rightarrow> txid \<Rightarrow> txid \<Rightarrow> nat \<Rightarrow> bool" where
  "walk_spend_of s bodies tp starts c sp v \<longleftrightarrow>
     (c, sp, v) \<in> set starts
     \<or> (\<exists>body. walk_reaches s bodies tp starts sp \<and> bodies sp = Some body \<and> (c, sp, v) \<in> set (coins_met sp body))"

definition opener_of ::
  "memory_storage \<Rightarrow> question_env \<Rightarrow> (txid \<Rightarrow> transaction option) \<Rightarrow> topic \<Rightarrow> walk_spend list \<Rightarrow> txid \<Rightarrow> bool" where
  "opener_of s q bodies tp starts c \<longleftrightarrow>
     (\<exists>sp v vs. walk_spend_of s bodies tp starts c sp v \<and> outpoint_id c v \<in> set (q_named q sp)
        \<and> q_dry q c = Dry_Admits vs \<and> v \<in> set vs)"

definition answer_justified ::
  "engine_env \<Rightarrow> world \<Rightarrow> question_env \<Rightarrow> (txid \<Rightarrow> transaction option) \<Rightarrow> topic \<Rightarrow> txid \<Rightarrow> bool \<Rightarrow> walk_spend list
    \<Rightarrow> world \<Rightarrow> nat \<Rightarrow> not_now \<Rightarrow> txid \<Rightarrow> bool" where
  "answer_justified env w q bodies tp t fc starts w' reads' nn c \<longleftrightarrow>
     (case nn_carried nn of
        Some d \<Rightarrow> d = c \<and> \<not> landed_in (w_store w) tp c
          \<and> (\<exists>body. bodies c = Some body
               \<and> (spends_held_coin (w_store w) tp body \<or> opener_of (w_store w) q bodies tp starts c))
      | None \<Rightarrow>
          fault_between env (w_calls w) (w_calls w') \<or> PREDECESSOR_READS_PER_SUBMIT \<le> reads'
          \<or> (\<not> landed_in (w_store w) tp c
             \<and> (bodies c = None \<and> c \<in> set (map fst starts) \<and> \<not> fc \<or> (\<exists>e. bodies c \<noteq> None \<and> q_dry q c = Dry_Err e))))"

lemma judge_opener_Some:
  "judge_opener q c spends = Some nn \<Longrightarrow>
     (nn_carried nn = Some c \<and> (\<exists>sp v vs. (c, sp, v) \<in> set spends \<and> outpoint_id c v \<in> set (q_named q sp)
        \<and> q_dry q c = Dry_Admits vs \<and> v \<in> set vs))
     \<or> (nn_carried nn = None \<and> (\<exists>e. q_dry q c = Dry_Err e))"
  by (auto simp: judge_opener_def Let_def named_outputs_def list_ex_iff nn_wait_def split: if_splits dry_run.splits)

lemma ask_candidate_answers:
  assumes "ask_candidate env q bodies tp t (map fst starts) fc c spends reads w = (w', r', Inl nn)"
    and "\<And>d sp v. (d, sp, v) \<in> set spends \<Longrightarrow> walk_spend_of (w_store w) bodies tp starts d sp v"
    and "walk_reaches (w_store w) bodies tp starts c"
  shows "answer_justified env w q bodies tp t fc starts w' r' nn c"
proof (cases "PREDECESSOR_READS_PER_SUBMIT \<le> reads")
  case True
  with assms(1) show ?thesis
    by (auto simp: ask_candidate_def answer_justified_def out_of_allowance_def nn_wait_def split: if_splits)
next
  case False
  have asked: "\<not> (bodies c = None \<and> \<not> absent_asked q t (map fst starts) fc c spends)"
    using assms(1) by (auto simp: ask_candidate_def split: if_splits)
  obtain w1 x where rd1: "store_read env (\<lambda>s. does_applied_transaction_exist s c tp) w = (w1, x)" by fastforce
  note f1 = store_read_frame [OF rd1]
  show ?thesis
  proof (cases x)
    case (Inl e)
    with assms(1) asked False rd1 store_read_fault [OF rd1 [unfolded Inl]] show ?thesis
      by (auto simp: ask_candidate_def answer_justified_def unread_def nn_wait_def split: if_splits)
  next
    case (Inr a)
    have a: "a = does_applied_transaction_exist (w_store w) c tp" using store_read_Inr [OF rd1 [unfolded Inr]] .
    have na: "\<not> a" using assms(1) asked False rd1 Inr by (auto simp: ask_candidate_def split: if_splits)
    show ?thesis
    proof (cases "PREDECESSOR_READS_PER_SUBMIT \<le> Suc reads")
      case True
      with assms(1) asked False rd1 Inr na show ?thesis
        by (auto simp: ask_candidate_def answer_justified_def out_of_allowance_def nn_wait_def split: if_splits)
    next
      case less: False
      obtain w2 y where rd2: "store_read env (\<lambda>s. find_outputs_for_transaction s c False) w1 = (w2, y)" by fastforce
      note f2 = store_read_frame [OF rd2]
      show ?thesis
      proof (cases y)
        case (Inl e)
        have "fault_between env (w_calls w) (w_calls w2)"
          using fault_between_mono [OF store_read_fault [OF rd2 [unfolded Inl]]] f1 by simp
        with assms(1) asked False rd1 Inr na less rd2 Inl show ?thesis
          by (auto simp: ask_candidate_def answer_justified_def unread_def nn_wait_def split: if_splits)
      next
        case (Inr os)
        have os: "os = find_outputs_for_transaction (w_store w) c False"
          using store_read_Inr [OF rd2 [unfolded Inr]] f1 by simp
        have st: "w_store w2 = w_store w" using f1 f2 by simp
        have no: "\<not> list_ex (\<lambda>o'. out_topic o' = tp) os"
          using assms(1) asked False rd1 \<open>x = Inr a\<close> na less rd2 Inr
          by (auto simp: ask_candidate_def split: if_splits)
        have nl: "\<not> landed_in (w_store w) tp c" using a na os no by (simp add: landed_in_def)
        note run = assms(1) asked False rd1 \<open>x = Inr a\<close> na less rd2 Inr no
        show ?thesis
        proof (cases "bodies c")
          case None
          with run nl show ?thesis
            by (auto simp: ask_candidate_def answer_justified_def nn_wait_def absent_asked_def
                simp del: set_map split: if_splits)
        next
          case (Some body)
          obtain w3 r3 z where coins: "ask_coins env tp c (inputs body) (Suc (Suc reads)) w2 = (w3, r3, z)"
            using prod_cases3 by blast
          show ?thesis
          proof (cases z)
            case z: (Inl nn')
            with run Some coins have eq: "nn' = nn" "w3 = w'" "r3 = r'"
              by (auto simp: ask_candidate_def split: if_splits)
            show ?thesis
              using ask_coins_answer [OF coins [unfolded z]] nl Some st eq f1 f2
                fault_between_mono [of env "w_calls w2" "w_calls w'" "w_calls w" "w_calls w'"]
              by (auto simp: answer_justified_def spends_held_coin_def)
          next
            case z: (Inr met)
            have met: "met = coins_met c body"
              using ask_coins_met [OF coins [unfolded z]] by (simp add: coins_met_def)
            have j: "judge_opener q c (spends @ met) = Some nn"
              using run Some coins z by (auto simp: ask_candidate_def split: if_splits option.splits)
            have "walk_spend_of (w_store w) bodies tp starts d sp v" if "(d, sp, v) \<in> set (spends @ met)" for d sp v
            proof (cases "(d, sp, v) \<in> set spends")
              case True
              then show ?thesis by (rule assms(2))
            next
              case False
              with that met have "(d, sp, v) \<in> set (coins_met c body)" "sp = c" by (auto simp: coins_met_def)
              with assms(3) Some show ?thesis by (auto simp: walk_spend_of_def)
            qed
            with judge_opener_Some [OF j] nl Some show ?thesis
              by (auto simp: answer_justified_def opener_of_def split: option.splits)
          qed
        qed
      qed
    qed
  qed
qed


lemma answer_later:
  assumes "answer_justified env w1 q bodies tp t fc starts w' r' nn c" "read_frame w r w1 r1" "read_frame w1 r1 w' r'"
  shows "answer_justified env w q bodies tp t fc starts w' r' nn c"
proof -
  have "w_calls w \<le> w_calls w1" "w_store w1 = w_store w" using assms(2) by (auto simp: read_frame_def)
  with assms(1) fault_between_mono [of env "w_calls w1" "w_calls w'" "w_calls w" "w_calls w'"] show ?thesis
    by (auto simp: answer_justified_def split: option.splits)
qed

lemma question_loop_answers:
  assumes "question_loop env q bodies tp t direct fc ask asked spends reads w = (w', r', Some nn)"
    and "direct = map fst starts" "\<And>c. c \<in> set ask \<Longrightarrow> walk_reaches (w_store w) bodies tp starts c"
    and "\<And>d sp v. (d, sp, v) \<in> set spends \<Longrightarrow> walk_spend_of (w_store w) bodies tp starts d sp v"
  shows "\<exists>c. walk_reaches (w_store w) bodies tp starts c \<and> answer_justified env w q bodies tp t fc starts w' r' nn c"
  using assms
proof (induction env q bodies tp t direct fc ask asked spends reads w rule: question_loop.induct)
  case (2 env q bodies tp t direct fc c ask asked spends reads w)
  show ?case
  proof (cases "c = [] \<or> c \<in> set asked")
    case True
    with "2.IH"(1) [OF True] "2.prems" show ?thesis by auto
  next
    case False
    obtain w1 r1 x where cand: "ask_candidate env q bodies tp t direct fc c spends reads w = (w1, r1, x)"
      using prod_cases3 by blast
    have c: "walk_reaches (w_store w) bodies tp starts c" using "2.prems"(3) by simp
    show ?thesis
    proof (cases x)
      case (Inl nn')
      with "2.prems"(1) False cand have "nn' = nn" "w1 = w'" "r1 = r'" by auto
      with ask_candidate_answers [OF cand [unfolded Inl "2.prems"(2)] "2.prems"(4) c] c show ?thesis by blast
    next
      case (Inr met)
      have rest: "question_loop env q bodies tp t direct fc (ask @ map fst met) (c # asked) (spends @ met) r1 w1
          = (w', r', Some nn)"
        using "2.prems"(1) False cand Inr by simp
      note fr = ask_candidate_frame [OF cand]
      note p = ask_candidate_passes [OF cand [unfolded Inr]]
      have st: "w_store w1 = w_store w" using read_frame_store [OF fr] .
      have met: "sp = c \<and> walk_reaches (w_store w) bodies tp starts d \<and> walk_spend_of (w_store w) bodies tp starts d sp v"
        if m: "(d, sp, v) \<in> set met" for d sp v
      proof -
        obtain body where b: "bodies c = Some body" "\<not> landed_in (w_store w) tp c" "met = coins_met c body"
          using p m by (cases "bodies c") (auto simp: passed_def)
        obtain inp where i: "inp \<in> set (inputs body)" "source_txid inp \<noteq> []" "d = source_txid inp" "sp = c"
          using m b(3) by (auto simp: coins_met_def)
        show ?thesis
          using from_body [OF c b(1,2) i(1,2)] i(3,4) b c m by (auto simp: walk_spend_of_def)
      qed
      have "\<exists>c. walk_reaches (w_store w1) bodies tp starts c \<and> answer_justified env w1 q bodies tp t fc starts w' r' nn c"
        using "2.prems"(2-4) met
        by (intro "2.IH"(2) [OF False cand [symmetric] refl Inr rest]) (fastforce simp: st)+
      then show ?thesis using answer_later [OF _ fr question_loop_frame [OF rest]] by (auto simp: st)
    qed
  qed
qed simp

lemma opener_judged:
  assumes "outpoint_id c v \<in> set (q_named q sp)" "q_dry q c = Dry_Admits vs" "v \<in> set vs" "(c, sp, v) \<in> set known"
  shows "judge_opener q c known \<noteq> None"
proof -
  have v: "v \<in> set (named_outputs q c known)"
    unfolding named_outputs_def using assms(1,4) by (force simp: image_iff)
  then have "named_outputs q c known \<noteq> []" by auto
  with v assms(2,3) show ?thesis by (auto simp: judge_opener_def Let_def list_ex_iff)
qed

subsection \<open>Properties\<close>

text \<open>
  C11: when the question is silent the walk has asked of everything it reaches and found nothing to wait for.
  There is a trail, the queue order of the walk, that asks each transaction the walk reaches once (an input of
  the transaction that counts, or a source of a carried body that has not landed), and each is settled when it
  is asked: it has landed in the topic, or its body is not carried and it is no named input of the transaction,
  or it is carried, spends no coin the topic holds, and is no opener by the spends met so far, which are the
  transaction's own and those of the bodies asked before it. So an opener by the whole rule (named by the
  transaction or by any body the walk reached) that a silent question lets through is one that every spender
  naming it was asked after it, or had landed. This holds whatever calls fault and whatever allowance is left:
  a fault or an exhausted allowance never looks like silence.
\<close>
theorem question_silence_means_settled:
  assumes "unlanded_predecessor env q tx t tp named_only held found_coin reads w = (w', reads', None)"
    and "q_bodies q = Some bodies"
  shows "\<exists>trail. walk_settled (w_store w) q bodies tp t found_coin (question_starts q tx t named_only held) trail
    \<and> (\<forall>(c, known) \<in> set trail. \<forall>sp v vs. bodies c \<noteq> None \<and> \<not> landed_in (w_store w) tp c
         \<and> walk_spend_of (w_store w) bodies tp (question_starts q tx t named_only held) c sp v
         \<and> outpoint_id c v \<in> set (q_named q sp) \<and> q_dry q c = Dry_Admits vs \<and> v \<in> set vs
         \<longrightarrow> (c, sp, v) \<notin> set known)"
proof -
  from question_silence [OF assms] obtain trail where
    t: "walk_settled (w_store w) q bodies tp t found_coin (question_starts q tx t named_only held) trail" by blast
  have "(c, sp, v) \<notin> set known" if "(c, known) \<in> set trail" "bodies c \<noteq> None" "\<not> landed_in (w_store w) tp c"
    "outpoint_id c v \<in> set (q_named q sp)" "q_dry q c = Dry_Admits vs" "v \<in> set vs" for c known sp v vs
  proof
    assume m: "(c, sp, v) \<in> set known"
    have "judge_opener q c known \<noteq> None" using that(4-6) m by (rule opener_judged)
    moreover have "\<not> unsettled (w_store w) q bodies tp t found_coin (map fst (question_starts q tx t named_only held)) known c"
      using t that(1) by (auto simp: walk_settled_def)
    ultimately show False using that(2,3) by (auto simp: unsettled_def)
  qed
  with t show ?thesis by blast
qed

text \<open>
  C15: the question only reads, within its allowance, and never waits without cause. It leaves the store,
  the report and the memory of faulted submits as they were, its calls are exactly the reads it counts, and
  it stops at 256. When it answers with a predecessor to land first, that one is carried by the BEEF, has
  not landed, was reached by the walk, and spends a coin the topic holds or is an opener: a spender names
  its output and the manager would admit it with no coin. When it answers without one, a read faulted, the
  allowance ran out, an input the BEEF does not carry has not landed, or the manager could not judge a body.
\<close>
theorem question_answer_justified:
  assumes "unlanded_predecessor env q tx t tp named_only held found_coin reads w = (w', reads', Some nn)"
  shows "read_frame w reads w' reads'
    \<and> (\<exists>bodies c. q_bodies q = Some bodies
         \<and> walk_reaches (w_store w) bodies tp (question_starts q tx t named_only held) c
         \<and> answer_justified env w q bodies tp t found_coin (question_starts q tx t named_only held) w' reads' nn c)"
proof -
  let ?st = "question_starts q tx t named_only held"
  obtain bodies where b: "q_bodies q = Some bodies"
    and run: "question_loop env q bodies tp t (map fst ?st) found_coin (map fst ?st) [] ?st reads w = (w', reads', Some nn)"
    using assms by (auto simp: unlanded_predecessor_def Let_def split: if_splits option.splits)
  have "\<exists>c. walk_reaches (w_store w) bodies tp ?st c \<and> answer_justified env w q bodies tp t found_coin ?st w' reads' nn c"
    by (rule question_loop_answers [OF run refl]) (auto intro: from_start simp: walk_spend_of_def)
  with b question_loop_frame [OF run] show ?thesis by blast
qed


text \<open>
  A submit over an empty store: the transaction \<open>tt\<close> spends \<open>xx.0\<close> and \<open>bb.0\<close>, the body \<open>bb\<close> spends \<open>xx.1\<close>,
  and the manager would admit output 1 of \<open>xx\<close>.
\<close>

definition spend_of :: "(txid \<times> nat) list \<Rightarrow> transaction" where
  "spend_of ps = \<lparr>inputs = map (\<lambda>(s, v). \<lparr>source_txid = s, source_output_index = v, unlocking_script = None, sequence = 0\<rparr>) ps,
     outputs = []\<rparr>"

definition quiet_env :: engine_env where
  "quiet_env = \<lparr>e_outcome = (\<lambda>_. Done), e_clock = (\<lambda>_. 0), e_services = []\<rparr>"

definition empty_world :: world where
  "empty_world = \<lparr>w_store = ms_new, w_calls = 0, w_not_landed = {}, w_log = [], w_report = empty_report\<rparr>"

definition diamond_bodies :: "txid \<Rightarrow> transaction option" where
  "diamond_bodies = [''xx'' \<mapsto> spend_of [], ''bb'' \<mapsto> spend_of [(''xx'', 1)]]"

definition diamond_question :: "(txid \<Rightarrow> string list) \<Rightarrow> question_env" where
  "diamond_question named = \<lparr>q_bodies = Some diamond_bodies, q_named = named,
     q_dry = (\<lambda>c. if c = ''xx'' then Dry_Admits [1] else Dry_No_Admissible)\<rparr>"

lemmas question_run = unlanded_predecessor_def question_starts_def spent_inputs_def spend_of_def
  diamond_question_def diamond_bodies_def ask_candidate_def absent_asked_def judge_opener_def named_outputs_def
  outpoint_id_def to_graph_id_def read_topic_output_def store_read_def quiet_env_def empty_world_def ms_new_def
  does_applied_transaction_exist_def find_outputs_for_transaction_def find_output_def
  PREDECESSOR_READS_PER_SUBMIT_def Let_def

lemma show_one [simp]: "show_nat 1 = ''1''" "show_nat (Suc 0) = ''1''"
  by code_simp+

text \<open>The opener \<open>xx\<close> is found when \<open>bb\<close> alone spends it and names it.\<close>

lemma diamond_answer:
  "\<exists>w' nn. unlanded_predecessor quiet_env (diamond_question (\<lambda>c. if c = ''bb'' then [''xx.1''] else []))
     (spend_of [(''bb'', 0)]) ''tt'' ''tm_a'' False [] False 0 empty_world = (w', 5, Some nn)
     \<and> nn_carried nn = Some ''xx''"
  by (simp add: question_run)

lemma diamond_silence:
  "\<exists>w'. unlanded_predecessor quiet_env (diamond_question (\<lambda>c. if c = ''bb'' then [''xx.1''] else []))
     (spend_of [(''xx'', 0), (''bb'', 0)]) ''tt'' ''tm_a'' False [] False 0 empty_world = (w', 5, None)"
  by (simp add: question_run)

lemma diamond_opener:
  "\<not> landed_in ms_new ''tm_a'' ''xx'' \<and>
   walk_spend_of ms_new diamond_bodies ''tm_a''
     (question_starts (diamond_question (\<lambda>c. if c = ''bb'' then [''xx.1''] else []))
        (spend_of [(''xx'', 0), (''bb'', 0)]) ''tt'' False []) ''xx'' ''bb'' 1"
proof -
  let ?q = "diamond_question (\<lambda>c. if c = ''bb'' then [''xx.1''] else [])"
  let ?st = "question_starts ?q (spend_of [(''xx'', 0), (''bb'', 0)]) ''tt'' False []"
  have "(''bb'', ''tt'', 0) \<in> set ?st" by (simp add: question_starts_def spent_inputs_def spend_of_def)
  then have "walk_reaches ms_new diamond_bodies ''tm_a'' ?st ''bb''" by (rule from_start)
  moreover have "diamond_bodies ''bb'' = Some (spend_of [(''xx'', 1)])"
    "(''xx'', ''bb'', 1) \<in> set (coins_met ''bb'' (spend_of [(''xx'', 1)]))"
    by (simp_all add: diamond_bodies_def coins_met_def spend_of_def)
  moreover have "\<not> landed_in ms_new ''tm_a'' ''xx''"
    by (simp add: landed_in_def ms_new_def does_applied_transaction_exist_def find_outputs_for_transaction_def)
  ultimately show ?thesis by (auto simp: walk_spend_of_def)
qed

theorem question_silence_means_settled_witness:
  "\<exists>trail. walk_settled ms_new (diamond_question (\<lambda>c. if c = ''bb'' then [''xx.1''] else [])) diamond_bodies ''tm_a'' ''tt'' False
     (question_starts (diamond_question (\<lambda>c. if c = ''bb'' then [''xx.1''] else []))
        (spend_of [(''xx'', 0), (''bb'', 0)]) ''tt'' False []) trail
     \<and> (\<forall>known. (''xx'', known) \<in> set trail \<longrightarrow> (''xx'', ''bb'', 1) \<notin> set known)"
proof -
  let ?q = "diamond_question (\<lambda>c. if c = ''bb'' then [''xx.1''] else [])"
  let ?tx = "spend_of [(''xx'', 0), (''bb'', 0)]"
  obtain w' where w': "unlanded_predecessor quiet_env ?q ?tx ''tt'' ''tm_a'' False [] False 0 empty_world = (w', 5, None)"
    using diamond_silence by blast
  have st: "w_store empty_world = ms_new" "q_bodies ?q = Some diamond_bodies"
    by (simp_all add: diamond_question_def empty_world_def)
  have x: "diamond_bodies ''xx'' \<noteq> None" "\<not> landed_in ms_new ''tm_a'' ''xx''"
    "walk_spend_of ms_new diamond_bodies ''tm_a'' (question_starts ?q ?tx ''tt'' False []) ''xx'' ''bb'' 1"
    "outpoint_id ''xx'' 1 \<in> set (q_named ?q ''bb'')" "q_dry ?q ''xx'' = Dry_Admits [1]" "1 \<in> set [1::nat]"
    using diamond_opener by (simp_all add: diamond_question_def diamond_bodies_def outpoint_id_def to_graph_id_def)
  from question_silence_means_settled [OF w' st(2)] obtain trail where t:
    "walk_settled ms_new ?q diamond_bodies ''tm_a'' ''tt'' False (question_starts ?q ?tx ''tt'' False []) trail"
    "\<forall>(c, known) \<in> set trail. \<forall>sp v vs. diamond_bodies c \<noteq> None \<and> \<not> landed_in ms_new ''tm_a'' c
       \<and> walk_spend_of ms_new diamond_bodies ''tm_a'' (question_starts ?q ?tx ''tt'' False []) c sp v
       \<and> outpoint_id c v \<in> set (q_named ?q sp) \<and> q_dry ?q c = Dry_Admits vs \<and> v \<in> set vs \<longrightarrow> (c, sp, v) \<notin> set known"
    unfolding st(1) by blast
  then show ?thesis using x by blast
qed

theorem question_answer_justified_witness:
  "\<exists>w' nn. unlanded_predecessor quiet_env (diamond_question (\<lambda>c. if c = ''bb'' then [''xx.1''] else []))
     (spend_of [(''bb'', 0)]) ''tt'' ''tm_a'' False [] False 0 empty_world = (w', 5, Some nn)
     \<and> nn_carried nn = Some ''xx'' \<and> read_frame empty_world 0 w' 5"
  using diamond_answer
    question_answer_justified [of quiet_env "diamond_question (\<lambda>c. if c = ''bb'' then [''xx.1''] else [])"
      "spend_of [(''bb'', 0)]" "''tt''" "''tm_a''" False "[]" False 0 empty_world _ 5]
  by blast

text \<open>
  The walk asks \<open>xx\<close> once, as an input of \<open>tt\<close> that \<open>tt\<close> does not name; when \<open>bb\<close> is reached, which spends and
  names \<open>xx.1\<close>, \<open>xx\<close> is not asked again. So the question is silent although \<open>xx\<close> is carried, has not landed, and
  is an opener by a spender the walk reached.
\<close>

lemma opener_named_by_later_spender_missed:
  "let q = diamond_question (\<lambda>c. if c = ''bb'' then [''xx.1''] else []); tx = spend_of [(''xx'', 0), (''bb'', 0)] in
     (\<exists>w'. unlanded_predecessor quiet_env q tx ''tt'' ''tm_a'' False [] False 0 empty_world = (w', 5, None))
     \<and> \<not> landed_in (w_store empty_world) ''tm_a'' ''xx''
     \<and> opener_of (w_store empty_world) q diamond_bodies ''tm_a'' (question_starts q tx ''tt'' False []) ''xx''"
proof -
  let ?q = "diamond_question (\<lambda>c. if c = ''bb'' then [''xx.1''] else [])"
  have "w_store empty_world = ms_new" by (simp add: empty_world_def)
  moreover have "opener_of ms_new ?q diamond_bodies ''tm_a''
      (question_starts ?q (spend_of [(''xx'', 0), (''bb'', 0)]) ''tt'' False []) ''xx''"
    unfolding opener_of_def using diamond_opener
    by (intro exI [of _ "''bb''"] exI [of _ 1] exI [of _ "[1]"])
      (simp add: diamond_question_def outpoint_id_def to_graph_id_def)
  ultimately show ?thesis using diamond_silence diamond_opener by (simp add: Let_def)
qed

end
