(* ===== verification/Submit_Door.thy ===== *)
theory Submit_Door
  imports Successor_Rule
begin

text \<open>
  A whole submit (\<open>engine.rs\<close>, \<open>submit_counted_inner\<close> with \<open>run_validation\<close>, \<open>successors_waiting\<close>,
  \<open>land_carried\<close> and \<open>walk_cover\<close>): the subject is opened out of the BEEF and walked, every topic is
  validated, the successor rule is asked of every topic that found no coin or not every coin, a carried
  predecessor is landed first by a submit of its own, and what does not wait is written. A predecessor's
  own submit lands nothing itself: it names what blocks it, and the landing is a stack.

  The BEEF codec, the script walk, the topic managers and the landing guard are the argument \<open>door\<close>. The
  broadcast of Phase 2 (a \<open>current-tx\<close> alone, its failures ignored) is not modelled.
\<close>

datatype engine_error =
    Unsupported_Topic topic
  | Beef_Parse_Error string
  | Spv_Error string
  | Walk_Could_Not_Run string

datatype walk_breach_policy = Not_Now | Network_Accepted

record tagged_beef =
  tb_beef :: bytes
  tb_topics :: "topic list"
  tb_off_chain :: "bytes option"

record opened =
  op_tx :: transaction
  op_id :: txid
  op_named_beef :: bytes

record door =
  dr_topics :: "topic list"
  dr_open :: "bytes \<Rightarrow> string + opened"
  dr_walk :: "bytes \<Rightarrow> txid \<Rightarrow> txid list \<Rightarrow> string + string option"
  dr_judge :: "bool \<Rightarrow> submit_mode \<Rightarrow> bytes option \<Rightarrow> judge"
  dr_named :: "topic \<Rightarrow> bytes \<Rightarrow> string list"
  dr_dry :: "topic \<Rightarrow> submit_mode \<Rightarrow> bytes \<Rightarrow> txid \<Rightarrow> dry_run"
  dr_bodies :: "bytes \<Rightarrow> (txid \<times> transaction) list option"
  dr_proven :: "bytes \<Rightarrow> txid \<Rightarrow> bool"
  dr_atomic :: "bytes \<Rightarrow> txid \<Rightarrow> (transaction \<times> (string + bytes)) option"
  dr_guard :: "(txid \<Rightarrow> topic \<Rightarrow> string option) option"
  dr_reads_off_chain :: "topic \<Rightarrow> bool"
  dr_expiry :: "topic \<Rightarrow> bytes \<Rightarrow> nat option"

definition question_of :: "door \<Rightarrow> topic \<Rightarrow> submit_mode \<Rightarrow> txid \<Rightarrow> bytes \<Rightarrow> question_env" where
  "question_of D tp mode t bf =
     \<lparr>q_bodies = map_option map_of (dr_bodies D bf),
      q_named = (\<lambda>u. if u = t then dr_named D tp bf
                     else case dr_atomic D bf u of Some (_, Inr b) \<Rightarrow> dr_named D tp b | _ \<Rightarrow> []),
      q_dry = dr_dry D tp mode bf\<rparr>"

subsection \<open>Opening and validating\<close>

definition open_walk ::
  "door \<Rightarrow> tagged_beef \<Rightarrow> submit_mode \<Rightarrow> txid list option \<Rightarrow> walk_breach_policy
    \<Rightarrow> engine_error + (opened \<times> string option)" where
  "open_walk D tb mode walked policy =
     (case List.find (\<lambda>tp. tp \<notin> set (dr_topics D)) (tb_topics tb) of
        Some tp \<Rightarrow> Inl (Unsupported_Topic tp)
      | None \<Rightarrow>
          (case dr_open D (tb_beef tb) of
             Inl e \<Rightarrow> Inl (Beef_Parse_Error e)
           | Inr op \<Rightarrow>
               let ran = (if mode = HistoricalTxNoSpv then Inr None
                          else case walked of
                                 Some ws \<Rightarrow> if op_id op \<in> set ws then Inr None
                                            else dr_walk D (tb_beef tb) (op_id op) ws
                               | None \<Rightarrow> dr_walk D (tb_beef tb) (op_id op) [])
               in case ran of
                    Inl e \<Rightarrow> Inl (Spv_Error e)
                  | Inr None \<Rightarrow> Inr (op, None)
                  | Inr (Some stop) \<Rightarrow>
                      (case policy of
                         Not_Now \<Rightarrow> Inl (Walk_Could_Not_Run stop)
                       | Network_Accepted \<Rightarrow> Inr (op, Some stop))))"

fun validate_all ::
  "engine_env \<Rightarrow> judge \<Rightarrow> transaction \<Rightarrow> txid \<Rightarrow> topic list \<Rightarrow> world \<Rightarrow> world \<times> topic_validation list" where
  "validate_all env judge tx t [] w = (w, [])"
| "validate_all env judge tx t (tp # tps) w =
     (case validate_topic env judge tx t tp w of
        (w1, v) \<Rightarrow> (case validate_all env judge tx t tps w1 of (w2, vs) \<Rightarrow> (w2, v # vs)))"

text \<open>A sync's finalize keeps only outputs that have not expired.\<close>

definition keep_unexpired :: "door \<Rightarrow> transaction \<Rightarrow> nat \<Rightarrow> topic_validation \<Rightarrow> topic_validation" where
  "keep_unexpired D tx now v =
     v\<lparr>v_admittance := (v_admittance v)\<lparr>outputs_to_admit := filter
         (\<lambda>i. case get_tx_output tx i of
                None \<Rightarrow> True
              | Some o' \<Rightarrow> (case dr_expiry D (v_topic v) (locking_script o') of None \<Rightarrow> True | Some ex \<Rightarrow> now < ex))
         (outputs_to_admit (v_admittance v))\<rparr>\<rparr>"

definition steak_insert :: "topic_validation \<Rightarrow> steak \<Rightarrow> steak" where
  "steak_insert v st = tbl_insert (v_topic v) (v_admittance v) st"

subsection \<open>One question of the successor rule\<close>

definition judged :: "topic_validation \<Rightarrow> bool" where
  "judged v \<longleftrightarrow> \<not> v_is_dupe v \<and> \<not> v_failed v \<and> v_read_fault v = None"

definition asks_successor :: "transaction \<Rightarrow> bool \<Rightarrow> topic_validation \<Rightarrow> bool" where
  "asks_successor tx finalize v \<longleftrightarrow>
     spent_inputs tx \<noteq> [] \<and> judged v
     \<and> (v_previous_outputs v = [] \<or> \<not> finalize \<and> length (v_previous_coins v) < length (spent_inputs tx))"

definition spent_input :: "transaction \<Rightarrow> nat \<Rightarrow> string option" where
  "spent_input tx i =
     (if i < length (inputs tx) \<and> source_txid (inputs tx ! i) \<noteq> []
      then Some (outpoint_id (source_txid (inputs tx ! i)) (source_output_index (inputs tx ! i))) else None)"

definition held_of :: "transaction \<Rightarrow> topic_validation \<Rightarrow> string list" where
  "held_of tx v = List.map_filter (spent_input tx) (v_previous_coins v)"

definition only_named :: "topic_validation \<Rightarrow> bool" where
  "only_named v \<longleftrightarrow> outputs_to_admit (v_admittance v) \<noteq> [] \<or> v_previous_outputs v \<noteq> []"

datatype pass = Pass_Clear | Pass_Wait string | Pass_Carried txid string

definition successor_pass ::
  "engine_env \<Rightarrow> question_env \<Rightarrow> transaction \<Rightarrow> txid \<Rightarrow> bool \<Rightarrow> topic_validation \<Rightarrow> nat \<Rightarrow> world
    \<Rightarrow> world \<times> nat \<times> pass" where
  "successor_pass env q tx t finalize v reads w =
     (let tp = v_topic v; found = v_previous_outputs v \<noteq> []; held = held_of tx v; named = q_named q t
      in if found \<and> \<not> list_ex (\<lambda>(s, i). outpoint_id s i \<notin> set held \<and> outpoint_id s i \<in> set named) (spent_inputs tx)
         then (w, reads, Pass_Clear)
         else case List.find (\<lambda>(s, i). (only_named v \<longrightarrow> outpoint_id s i \<in> set named) \<and> (s, tp) \<in> w_not_landed w)
                     (spent_inputs tx) of
           Some (p, _) \<Rightarrow> (w, reads, Pass_Wait (p @ '' has not landed''))
         | None \<Rightarrow>
             if finalize then (w, reads, Pass_Clear)
             else (case unlanded_predecessor env q tx t tp (only_named v) held found reads w of
                (w1, r1, None) \<Rightarrow> (w1, r1, Pass_Clear)
              | (w1, r1, Some nn) \<Rightarrow>
                  (w1, r1, case nn_carried nn of None \<Rightarrow> Pass_Wait (nn_why nn) | Some c \<Rightarrow> Pass_Carried c (nn_why nn))))"

text \<open>A transaction that holds an output in the topic landed before: its replay does not wait.\<close>

type_synonym waiting = "(string \<times> txid option) option"

definition replay_finishes ::
  "engine_env \<Rightarrow> txid \<Rightarrow> topic \<Rightarrow> bool \<Rightarrow> waiting \<Rightarrow> nat \<Rightarrow> world \<Rightarrow> world \<times> nat \<times> waiting" where
  "replay_finishes env t tp finalize wt reads w =
     (if \<not> finalize \<and> wt \<noteq> None \<and> reads < PREDECESSOR_READS_PER_SUBMIT
      then (case store_read env (\<lambda>s. find_outputs_for_transaction s t False) w of
              (w1, Inl _) \<Rightarrow> (w1, Suc reads, wt)
            | (w1, Inr os) \<Rightarrow>
                (w1, Suc reads, if list_ex (\<lambda>o'. out_topic o' = tp) os then None else wt))
      else (w, reads, wt))"

subsection \<open>The submit of a carried predecessor\<close>

definition blocked_topic ::
  "engine_env \<Rightarrow> question_env \<Rightarrow> transaction \<Rightarrow> txid \<Rightarrow> topic_validation \<Rightarrow> nat \<Rightarrow> world \<Rightarrow> world \<times> nat \<times> waiting" where
  "blocked_topic env q tx t v reads w =
     (if \<not> asks_successor tx False v then (w, reads, None)
      else case successor_pass env q tx t False v reads w of
             (w1, r1, Pass_Clear) \<Rightarrow> (w1, r1, None)
           | (w1, r1, Pass_Wait why) \<Rightarrow> replay_finishes env t (v_topic v) False (Some (why, None)) r1 w1
           | (w1, r1, Pass_Carried c why) \<Rightarrow> replay_finishes env t (v_topic v) False (Some (why, Some c)) r1 w1)"

definition judge_again :: "judge \<Rightarrow> transaction \<Rightarrow> topic_validation \<Rightarrow> topic_validation" where
  "judge_again judge tx v =
     (case judge tx (v_topic v) (v_previous_coins v) of
        Inr a \<Rightarrow> v\<lparr>v_admittance := a\<rparr>
      | Inl e \<Rightarrow> v\<lparr>v_failed := True, v_previous_coins := [], v_previous_outputs := [], v_admittance := no_admittance\<rparr>)"

definition submit_ctx_of :: "tagged_beef \<Rightarrow> opened \<Rightarrow> bool \<Rightarrow> submit_ctx" where
  "submit_ctx_of tb op finalize =
     \<lparr>c_tx = op_tx op, c_txid = op_id op, c_beef = tb_beef tb, c_named_beef = op_named_beef op,
      c_off_chain = tb_off_chain tb, c_finalize = finalize\<rparr>"

text \<open>
  The predecessor goes to one topic, with no off-chain values, judged dry until its topic does not wait.
  The report of its submit is its own.
\<close>

definition submit_carried ::
  "engine_env \<Rightarrow> door \<Rightarrow> bytes \<Rightarrow> topic \<Rightarrow> submit_mode \<Rightarrow> txid list \<Rightarrow> nat \<Rightarrow> walk_breach_policy \<Rightarrow> world
    \<Rightarrow> world \<times> nat \<times> (engine_error + (mutation_report \<times> txid option \<times> string option))" where
  "submit_carried env D bf tp mode walked reads policy w =
     (let tb = \<lparr>tb_beef = bf, tb_topics = [tp], tb_off_chain = None\<rparr>
      in case open_walk D tb mode (Some walked) policy of
           Inl e \<Rightarrow> (w, reads, Inl e)
         | Inr (op, stop) \<Rightarrow>
             (let (w1, v) = validate_topic env (dr_judge D True mode None) (op_tx op) (op_id op) tp w;
                  q = question_of D tp mode (op_id op) (op_named_beef op);
                  (w2, r2, wt) = blocked_topic env q (op_tx op) (op_id op) v reads w1;
                  v' = (if judged v \<and> wt = None then judge_again (dr_judge D False mode None) (op_tx op) v else v);
                  w3 = phase3 env (submit_ctx_of tb op False) (\<lambda>tp'. if tp' = tp then map_option fst wt else None)
                         [v'] (w2\<lparr>w_report := empty_report\<rparr>)
              in (w3\<lparr>w_report := w_report w\<rparr>, r2,
                  Inr (w_report w3, (case wt of Some (_, Some c) \<Rightarrow> Some c | _ \<Rightarrow> None), stop))))"


lemma replay_finishes_frame: "replay_finishes env t tp fin wt reads w = (w', r', wt') \<Longrightarrow> read_frame w reads w' r'"
  by (auto simp: replay_finishes_def split: if_splits prod.splits sum.splits intro: read_frame_read)

lemma unlanded_frame:
  "unlanded_predecessor env q tx t tp no held fc reads w = (w', r', x) \<Longrightarrow> read_frame w reads w' r'"
  by (auto simp: unlanded_predecessor_def Let_def split: if_splits option.splits dest: question_loop_frame)

lemma successor_pass_frame: "successor_pass env q tx t fin v reads w = (w', r', x) \<Longrightarrow> read_frame w reads w' r'"
  by (auto simp: successor_pass_def Let_def split: if_splits option.splits prod.splits dest: unlanded_frame)

lemma blocked_topic_frame: "blocked_topic env q tx t v reads w = (w', r', wt) \<Longrightarrow> read_frame w reads w' r'"
  by (auto simp: blocked_topic_def split: if_splits prod.splits pass.splits
      dest!: successor_pass_frame replay_finishes_frame elim: read_frame_trans)

lemma submit_carried_Inl:
  "submit_carried env D bf tp mode walked reads policy w = (w', r', Inl e) \<Longrightarrow> w' = w \<and> r' = reads"
  by (auto simp: submit_carried_def Let_def split: sum.splits prod.splits)

lemma submit_carried_Inr:
  assumes "submit_carried env D bf tp mode walked reads policy w = (w', r', Inr (rep, blk, stop))"
  obtains op w1 v w2 wt v' w3 where
    "open_walk D \<lparr>tb_beef = bf, tb_topics = [tp], tb_off_chain = None\<rparr> mode (Some walked) policy = Inr (op, stop)"
    "validate_topic env (dr_judge D True mode None) (op_tx op) (op_id op) tp w = (w1, v)"
    "blocked_topic env (question_of D tp mode (op_id op) (op_named_beef op)) (op_tx op) (op_id op) v reads w1 = (w2, r', wt)"
    "v' = (if judged v \<and> wt = None then judge_again (dr_judge D False mode None) (op_tx op) v else v)"
    "w3 = apply_topic env (submit_ctx_of \<lparr>tb_beef = bf, tb_topics = [tp], tb_off_chain = None\<rparr> op False)
       (\<lambda>tp'. if tp' = tp then map_option fst wt else None) v' (w2\<lparr>w_report := empty_report\<rparr>)"
    "w' = w3\<lparr>w_report := w_report w\<rparr>" "rep = w_report w3"
    "blk = (case wt of Some (_, Some c) \<Rightarrow> Some c | _ \<Rightarrow> None)"
  using assms
  by (simp add: submit_carried_def Let_def split: sum.splits prod.splits)

lemma submit_carried_reads:
  assumes "submit_carried env D bf tp mode walked reads policy w = (w', r', x)"
  shows "reads \<le> r'" "reads \<le> PREDECESSOR_READS_PER_SUBMIT \<Longrightarrow> r' \<le> PREDECESSOR_READS_PER_SUBMIT"
  using assms
  by (auto simp: submit_carried_def Let_def read_frame_def split: sum.splits prod.splits dest!: blocked_topic_frame)

subsection \<open>What a walk covers\<close>

function (sequential) walk_cover ::
  "(txid \<times> transaction) list \<Rightarrow> (txid \<Rightarrow> bool) \<Rightarrow> txid list \<Rightarrow> txid list \<Rightarrow> txid list" where
  "walk_cover bodies proven [] cover = cover"
| "walk_cover bodies proven (t # queue) cover =
     (if t \<in> set cover then walk_cover bodies proven queue cover
      else if proven t then walk_cover bodies proven queue (t # cover)
      else case map_of bodies t of
             None \<Rightarrow> walk_cover bodies proven queue (t # cover)
           | Some tx \<Rightarrow>
               walk_cover bodies proven (rev (map source_txid (filter (\<lambda>i. source_txid i \<noteq> []) (inputs tx))) @ queue) (t # cover))"
  by pat_completeness auto

termination
proof (relation "measures [\<lambda>(bodies, _, _, cover). card (fst ` set bodies - set cover),
    \<lambda>(_, _, queue, _). length queue]", goal_cases)
  case (5 bodies proven t queue cover tx)
  then have "t \<in> fst ` set bodies" by (force dest: map_of_SomeD)
  then have "card (fst ` set bodies - set (t # cover)) < card (fst ` set bodies - set cover)"
    using 5(1) by (intro psubset_card_mono) auto
  then show ?case by simp
qed (auto simp: le_less [symmetric] intro: card_mono)

subsection \<open>Landing a carried predecessor\<close>

record landing =
  ld_reads :: nat
  ld_walked :: "txid list"
  ld_guarded :: "txid list"
  ld_landed :: "(txid \<times> topic) list"
  ld_breaches :: "string list"

definition landed_mode :: "submit_mode \<Rightarrow> submit_mode" where
  "landed_mode mode = (if mode = CurrentTx then HistoricalTx else mode)"

definition error_text :: "engine_error \<Rightarrow> string" where
  "error_text e = (case e of Unsupported_Topic tp \<Rightarrow> tp | Beef_Parse_Error x \<Rightarrow> x | Spv_Error x \<Rightarrow> x | Walk_Could_Not_Run x \<Rightarrow> x)"

text \<open>
  One body on top of the stack: \<open>Inl\<close> why the landing ends, or whether it landed, or the body under it.
\<close>

datatype step_end = Step_Landed | Step_Under txid

definition walked_after :: "door \<Rightarrow> bytes \<Rightarrow> submit_mode \<Rightarrow> txid \<Rightarrow> string option \<Rightarrow> txid list \<Rightarrow> txid list" where
  "walked_after D bf mode nxt stop walked =
     (if stop = None \<and> mode \<noteq> HistoricalTxNoSpv \<and> nxt \<notin> set walked
      then (case dr_bodies D bf of
              Some bs \<Rightarrow> List.union walked (walk_cover bs (dr_proven D bf) [nxt] [])
            | None \<Rightarrow> walked)
      else walked)"

definition land_answer ::
  "door \<Rightarrow> bytes \<Rightarrow> topic \<Rightarrow> submit_mode \<Rightarrow> txid \<Rightarrow> txid list \<Rightarrow> mutation_report \<Rightarrow> txid option \<Rightarrow> string option
    \<Rightarrow> landing \<Rightarrow> landing \<times> (string + step_end)" where
  "land_answer D bf tp mode nxt stack report blk stop l =
     (let l1 = l\<lparr>ld_breaches := ld_breaches l @ (case stop of Some st \<Rightarrow> [st] | None \<Rightarrow> []),
                 ld_walked := walked_after D bf mode nxt stop (ld_walked l)\<rparr>;
          landed_now = tp \<in> set (applied_topics report);
          failed = Inl (nxt @ (if is_durable report then '': the manager failed it'' else '': '' @ summary report))
      in if is_durable report \<and> (landed_now \<or> tp \<in> set (deduped_topics report))
         then (l1\<lparr>ld_landed := ld_landed l1 @ (if landed_now then [(nxt, tp)] else [])\<rparr>, Inr Step_Landed)
         else (l1, case blk of Some u \<Rightarrow> if u \<notin> set stack then Inr (Step_Under u) else failed | None \<Rightarrow> failed))"

definition land_guard :: "door \<Rightarrow> txid \<Rightarrow> topic \<Rightarrow> landing \<Rightarrow> landing \<times> string option" where
  "land_guard D nxt tp l =
     (case dr_guard D of
        None \<Rightarrow> (l, None)
      | Some g \<Rightarrow>
          if nxt \<in> set (ld_guarded l) then (l, None)
          else (l\<lparr>ld_guarded := nxt # ld_guarded l\<rparr>, g nxt tp))"

definition land_submit ::
  "engine_env \<Rightarrow> door \<Rightarrow> bytes \<Rightarrow> bytes \<Rightarrow> topic \<Rightarrow> submit_mode \<Rightarrow> walk_breach_policy \<Rightarrow> txid \<Rightarrow> txid list
    \<Rightarrow> landing \<Rightarrow> world \<Rightarrow> world \<times> landing \<times> (string + step_end)" where
  "land_submit env D bf atomic tp mode policy nxt stack l w =
     (case submit_carried env D atomic tp mode (ld_walked l) (ld_reads l) policy w of
        (w1, r1, Inl e) \<Rightarrow>
          (w1, l\<lparr>ld_reads := r1, ld_breaches := ld_breaches l @ (case e of Walk_Could_Not_Run st \<Rightarrow> [st] | _ \<Rightarrow> [])\<rparr>,
           Inl (nxt @ '': '' @ error_text e))
      | (w1, r1, Inr (report, blk, stop)) \<Rightarrow>
          (w1, land_answer D bf tp mode nxt stack report blk stop (l\<lparr>ld_reads := r1\<rparr>)))"

definition land_step ::
  "engine_env \<Rightarrow> door \<Rightarrow> bytes \<Rightarrow> topic \<Rightarrow> submit_mode \<Rightarrow> walk_breach_policy \<Rightarrow> txid \<Rightarrow> txid list
    \<Rightarrow> landing \<Rightarrow> world \<Rightarrow> world \<times> landing \<times> (string + step_end)" where
  "land_step env D bf tp mode policy nxt stack l w =
     (case dr_atomic D bf nxt of
        None \<Rightarrow> (w, l, Inl (nxt @ '': its body is not in the BEEF''))
      | Some (body, atomic) \<Rightarrow>
          (case land_guard D nxt tp l of
             (l1, Some why) \<Rightarrow> (w, l1, Inl (nxt @ '': refused by the landing guard ('' @ why @ '')''))
           | (l1, None) \<Rightarrow>
               let reads = ld_reads l1 + (1 + 2 * length (inputs body))
               in if PREDECESSOR_READS_PER_SUBMIT < reads
                  then (w, l1, Inl (nxt @ '': its submit does not fit in the submit's ''
                          @ show_nat PREDECESSOR_READS_PER_SUBMIT @ '' reads''))
                  else (case atomic of
                          Inl e \<Rightarrow>
                            (w, l1\<lparr>ld_reads := reads\<rparr>, Inl (nxt @ '': its BEEF could not be built ('' @ e @ '')''))
                        | Inr ab \<Rightarrow>
                            land_submit env D bf ab tp mode policy nxt stack (l1\<lparr>ld_reads := reads\<rparr>) w)))"

lemma land_answer_reads: "land_answer D bf tp mode nxt stack report blk stop l = (l', x) \<Longrightarrow> ld_reads l' = ld_reads l"
  by (auto simp: land_answer_def Let_def split: if_splits)

lemma land_guard_reads [simp]: "ld_reads (fst (land_guard D nxt tp l)) = ld_reads l"
  by (simp add: land_guard_def split: option.splits)

lemma land_submit_reads:
  assumes "land_submit env D bf ab tp mode policy nxt stack l w = (w', l', x)"
  shows "ld_reads l \<le> ld_reads l'
    \<and> (ld_reads l \<le> PREDECESSOR_READS_PER_SUBMIT \<longrightarrow> ld_reads l' \<le> PREDECESSOR_READS_PER_SUBMIT)"
proof -
  obtain w1 r1 y where c: "submit_carried env D ab tp mode (ld_walked l) (ld_reads l) policy w = (w1, r1, y)"
    using prod_cases3 by blast
  have "ld_reads l' = r1"
    using assms c by (cases y) (auto simp: land_submit_def split: prod.splits dest: land_answer_reads)
  with submit_carried_reads [OF c] show ?thesis by simp
qed

lemma land_step_reads:
  assumes "land_step env D bf tp mode policy nxt stack l w = (w', l', x)"
  shows "ld_reads l \<le> ld_reads l'"
    "ld_reads l \<le> PREDECESSOR_READS_PER_SUBMIT \<Longrightarrow> ld_reads l' \<le> PREDECESSOR_READS_PER_SUBMIT"
    "x = Inr y \<Longrightarrow> ld_reads l < ld_reads l' \<and> ld_reads l < PREDECESSOR_READS_PER_SUBMIT"
proof -
  obtain l1 g where g: "land_guard D nxt tp l = (l1, g)" by fastforce
  then have l1: "ld_reads l1 = ld_reads l" using land_guard_reads [of D nxt tp l] by simp
  show "ld_reads l \<le> ld_reads l'"
    "ld_reads l \<le> PREDECESSOR_READS_PER_SUBMIT \<Longrightarrow> ld_reads l' \<le> PREDECESSOR_READS_PER_SUBMIT"
    "x = Inr y \<Longrightarrow> ld_reads l < ld_reads l' \<and> ld_reads l < PREDECESSOR_READS_PER_SUBMIT"
    using assms g l1
    by (auto simp: land_step_def Let_def dest!: land_submit_reads
        split: option.splits prod.splits if_splits sum.splits)
qed

function (sequential) land_loop ::
  "engine_env \<Rightarrow> door \<Rightarrow> bytes \<Rightarrow> topic \<Rightarrow> submit_mode \<Rightarrow> walk_breach_policy \<Rightarrow> txid list \<Rightarrow> landing \<Rightarrow> world
    \<Rightarrow> world \<times> landing \<times> string option" where
  "land_loop env D bf tp mode policy [] l w = (w, l, None)"
| "land_loop env D bf tp mode policy (nxt # stack) l w =
     (case land_step env D bf tp mode policy nxt (nxt # stack) l w of
        (w1, l1, Inl why) \<Rightarrow> (w1, l1, Some why)
      | (w1, l1, Inr Step_Landed) \<Rightarrow> land_loop env D bf tp mode policy stack l1 w1
      | (w1, l1, Inr (Step_Under u)) \<Rightarrow> land_loop env D bf tp mode policy (u # nxt # stack) l1 w1)"
  by pat_completeness auto

termination
proof (relation "measure (\<lambda>(_, _, _, _, _, _, _, l, _). PREDECESSOR_READS_PER_SUBMIT - ld_reads l)", goal_cases)
  case (2 env D bf tp mode policy nxt stack l w w1 p l1 b z)
  then have "land_step env D bf tp mode policy nxt (nxt # stack) l w = (w1, l1, Inr z)" by simp
  from land_step_reads(3) [OF this refl] show ?case by auto
next
  case (3 env D bf tp mode policy nxt stack l w w1 p l1 b z)
  then have "land_step env D bf tp mode policy nxt (nxt # stack) l w = (w1, l1, Inr z)" by simp
  from land_step_reads(3) [OF this refl] show ?case by auto
qed simp


declare land_loop.simps(2) [simp del]

lemma land_loop_Cons:
  "land_step env D bf tp mode policy nxt (nxt # stack) l w = (w1, l1, y) \<Longrightarrow>
     land_loop env D bf tp mode policy (nxt # stack) l w =
       (case y of
          Inl why \<Rightarrow> (w1, l1, Some why)
        | Inr Step_Landed \<Rightarrow> land_loop env D bf tp mode policy stack l1 w1
        | Inr (Step_Under u) \<Rightarrow> land_loop env D bf tp mode policy (u # nxt # stack) l1 w1)"
  by (subst land_loop.simps) (simp split: sum.splits step_end.splits)

definition land_carried ::
  "engine_env \<Rightarrow> door \<Rightarrow> bytes \<Rightarrow> txid \<Rightarrow> txid \<Rightarrow> topic \<Rightarrow> submit_mode \<Rightarrow> walk_breach_policy \<Rightarrow> bool
    \<Rightarrow> landing \<Rightarrow> world \<Rightarrow> world \<times> landing \<times> string option" where
  "land_carried env D bf subject predecessor tp mode policy subject_walk_ran l w =
     (case dr_bodies D bf of
        None \<Rightarrow> (w, l, Some ''the BEEF could not be read again'')
      | Some bs \<Rightarrow>
          let m = landed_mode mode;
              cover = (if m \<noteq> HistoricalTxNoSpv \<and> subject_walk_ran
                       then walk_cover bs (dr_proven D bf) [subject] [] else [])
          in land_loop env D bf tp m policy [predecessor] (l\<lparr>ld_walked := cover, ld_guarded := []\<rparr>) w)"

lemma land_loop_reads:
  "land_loop env D bf tp mode policy stack l w = (w', l', x) \<Longrightarrow>
     ld_reads l \<le> ld_reads l'
     \<and> (ld_reads l \<le> PREDECESSOR_READS_PER_SUBMIT \<longrightarrow> ld_reads l' \<le> PREDECESSOR_READS_PER_SUBMIT)"
proof (induction env D bf tp mode policy stack l w rule: land_loop.induct)
  case (2 env D bf tp mode policy nxt stack l w)
  obtain w1 l1 y where st: "land_step env D bf tp mode policy nxt (nxt # stack) l w = (w1, l1, y)"
    using prod_cases3 by blast
  note r = land_step_reads(1,2) [OF st]
  show ?case
  proof (cases y)
    case (Inl why)
    with "2.prems" land_loop_Cons [OF st] r show ?thesis by auto
  next
    case (Inr e)
    then show ?thesis
      using "2.prems" "2.IH" [OF st [symmetric] refl] land_loop_Cons [OF st] r by (cases e) auto
  qed
qed simp

lemma land_carried_reads:
  "land_carried env D bf sb p tp mode policy rn l w = (w', l', x) \<Longrightarrow>
     ld_reads l \<le> ld_reads l'
     \<and> (ld_reads l \<le> PREDECESSOR_READS_PER_SUBMIT \<longrightarrow> ld_reads l' \<le> PREDECESSOR_READS_PER_SUBMIT)"
  by (auto simp: land_carried_def Let_def split: option.splits dest!: land_loop_reads)

subsection \<open>The door\<close>

text \<open>What one topic of a submit is judged with: the subject, its mode and how its walk went.\<close>

record door_submit =
  s_tb :: tagged_beef
  s_op :: opened
  s_mode :: submit_mode
  s_policy :: walk_breach_policy
  s_walk_ran :: bool
  s_finalize :: bool

definition s_judge :: "door \<Rightarrow> door_submit \<Rightarrow> judge" where
  "s_judge D S = dr_judge D False (s_mode S) (tb_off_chain (s_tb S))"

definition s_question :: "door \<Rightarrow> door_submit \<Rightarrow> topic \<Rightarrow> question_env" where
  "s_question D S tp = question_of D tp (s_mode S) (op_id (s_op S)) (op_named_beef (s_op S))"

function (sequential) door_topic ::
  "engine_env \<Rightarrow> door \<Rightarrow> door_submit \<Rightarrow> topic \<Rightarrow> topic_validation \<Rightarrow> steak \<Rightarrow> landing \<Rightarrow> world
    \<Rightarrow> world \<times> landing \<times> topic_validation \<times> steak \<times> string option" where
  "door_topic env D S tp v st l w =
     (let tx = op_tx (s_op S); t = op_id (s_op S); again = 1 + length (spent_inputs tx)
      in case successor_pass env (s_question D S tp) tx t (s_finalize S) v (ld_reads l) w of
           (w1, r1, Pass_Clear) \<Rightarrow> (w1, l\<lparr>ld_reads := r1\<rparr>, v, st, None)
         | (w1, r1, Pass_Wait why) \<Rightarrow> (w1, l\<lparr>ld_reads := r1\<rparr>, v, st, Some why)
         | (w1, r1, Pass_Carried c why) \<Rightarrow>
             if dr_reads_off_chain D tp
             then (w1, l\<lparr>ld_reads := r1\<rparr>, v, st,
                   Some (why @ ''; not landed first from the BEEF: the topic's manager or a lookup service reads off-chain values, and only the predecessor's own submit carries them''))
             else if PREDECESSOR_READS_PER_SUBMIT < r1 + again
             then (w1, l\<lparr>ld_reads := r1\<rparr>, v, st,
                   Some (why @ ''; its landing and the re-judgement after it do not fit in the submit's ''
                         @ show_nat PREDECESSOR_READS_PER_SUBMIT @ '' reads''))
             else (case land_carried env D (op_named_beef (s_op S)) t c tp (s_mode S) (s_policy S) (s_walk_ran S)
                          (l\<lparr>ld_reads := r1 + again\<rparr>) w1 of
                (w2, l2, Some e) \<Rightarrow>
                  (w2, l2\<lparr>ld_reads := ld_reads l2 - again\<rparr>, v, st,
                   Some (why @ ''; submitted first from the BEEF, it did not land ('' @ e @ '')''))
              | (w2, l2, None) \<Rightarrow>
                  (case validate_topic env (s_judge D S) tx t tp w2 of
                     (w3, v') \<Rightarrow>
                       if \<not> judged v' then (w3, l2, v', steak_insert v' st, None)
                       else door_topic env D S tp v' (steak_insert v' st) l2 w3)))"
  by pat_completeness auto

termination
proof (relation "measure (\<lambda>(_, _, _, _, _, _, l, _). PREDECESSOR_READS_PER_SUBMIT - ld_reads l)", goal_cases)
  case (2 env D S tp v st l w tx t again w1 p r1 y c why w2 q l2 z w3 v')
  then have p: "successor_pass env (s_question D S tp) tx t (s_finalize S) v (ld_reads l) w = (w1, r1, Pass_Carried c why)"
    and land: "land_carried env D (op_named_beef (s_op S)) t c tp (s_mode S) (s_policy S) (s_walk_ran S)
      (l\<lparr>ld_reads := r1 + again\<rparr>) w1 = (w2, l2, None)" by simp_all
  have "ld_reads l \<le> r1" using successor_pass_frame [OF p] by (simp add: read_frame_def)
  with land_carried_reads [OF land] 2(2,3,7,8) show ?case by auto
qed simp

declare door_topic.simps [simp del]

text \<open>
  The loop of one topic, told by its answers: it ends on a pass that is clear or waits, on a landing that
  failed, or on a judgement after a landing that is not one; otherwise it goes round with the new judgement.
\<close>

abbreviation topic_pass :: "engine_env \<Rightarrow> door \<Rightarrow> door_submit \<Rightarrow> topic \<Rightarrow> topic_validation \<Rightarrow> nat \<Rightarrow> world \<Rightarrow> world \<times> nat \<times> pass" where
  "topic_pass env D S tp \<equiv> successor_pass env (s_question D S tp) (op_tx (s_op S)) (op_id (s_op S)) (s_finalize S)"

abbreviation topic_again :: "door_submit \<Rightarrow> nat" where
  "topic_again S \<equiv> 1 + length (spent_inputs (op_tx (s_op S)))"

abbreviation topic_land ::
  "engine_env \<Rightarrow> door \<Rightarrow> door_submit \<Rightarrow> topic \<Rightarrow> txid \<Rightarrow> landing \<Rightarrow> world \<Rightarrow> world \<times> landing \<times> string option" where
  "topic_land env D S tp c \<equiv> land_carried env D (op_named_beef (s_op S)) (op_id (s_op S)) c tp (s_mode S) (s_policy S) (s_walk_ran S)"

abbreviation topic_validate :: "engine_env \<Rightarrow> door \<Rightarrow> door_submit \<Rightarrow> topic \<Rightarrow> world \<Rightarrow> world \<times> topic_validation" where
  "topic_validate env D S tp \<equiv> validate_topic env (s_judge D S) (op_tx (s_op S)) (op_id (s_op S)) tp"

lemma door_topic_run [consumes 1, case_names ends failed unjudged again]:
  assumes run: "door_topic env D S tp v st l w = (w', l', v', st', why)"
    and ends: "\<And>v l w w' r1 y why. topic_pass env D S tp v (ld_reads l) w = (w', r1, y) \<Longrightarrow> why = None \<longleftrightarrow> y = Pass_Clear
      \<Longrightarrow> Q v l w w' (l\<lparr>ld_reads := r1\<rparr>) v why"
    and failed: "\<And>v l w w' w1 r1 c y l2 e why. topic_pass env D S tp v (ld_reads l) w = (w1, r1, Pass_Carried c y)
      \<Longrightarrow> r1 + topic_again S \<le> PREDECESSOR_READS_PER_SUBMIT
      \<Longrightarrow> topic_land env D S tp c (l\<lparr>ld_reads := r1 + topic_again S\<rparr>) w1 = (w', l2, Some e)
      \<Longrightarrow> why \<noteq> None \<Longrightarrow> Q v l w w' (l2\<lparr>ld_reads := ld_reads l2 - topic_again S\<rparr>) v why"
    and unjudged: "\<And>v l w w' l' v' w1 r1 c y w2. topic_pass env D S tp v (ld_reads l) w = (w1, r1, Pass_Carried c y)
      \<Longrightarrow> r1 + topic_again S \<le> PREDECESSOR_READS_PER_SUBMIT
      \<Longrightarrow> topic_land env D S tp c (l\<lparr>ld_reads := r1 + topic_again S\<rparr>) w1 = (w2, l', None)
      \<Longrightarrow> topic_validate env D S tp w2 = (w', v') \<Longrightarrow> \<not> judged v' \<Longrightarrow> Q v l w w' l' v' None"
    and again: "\<And>v l w w' l' v' why w1 r1 c y w2 l2 w3 v3. topic_pass env D S tp v (ld_reads l) w = (w1, r1, Pass_Carried c y)
      \<Longrightarrow> r1 + topic_again S \<le> PREDECESSOR_READS_PER_SUBMIT
      \<Longrightarrow> topic_land env D S tp c (l\<lparr>ld_reads := r1 + topic_again S\<rparr>) w1 = (w2, l2, None)
      \<Longrightarrow> topic_validate env D S tp w2 = (w3, v3) \<Longrightarrow> judged v3 \<Longrightarrow> Q v3 l2 w3 w' l' v' why \<Longrightarrow> Q v l w w' l' v' why"
  shows "Q v l w w' l' v' why"
  using run
proof (induction "PREDECESSOR_READS_PER_SUBMIT - ld_reads l" arbitrary: v st l w rule: less_induct)
  case less
  obtain w1 r1 y where p: "topic_pass env D S tp v (ld_reads l) w = (w1, r1, y)" using prod_cases3 by blast
  have mono: "ld_reads l \<le> r1" using successor_pass_frame [OF p] by (simp add: read_frame_def)
  show ?case
  proof (cases "\<exists>c why. y = Pass_Carried c why \<and> \<not> dr_reads_off_chain D tp
      \<and> r1 + topic_again S \<le> PREDECESSOR_READS_PER_SUBMIT")
    case False
    with less.prems p ends [OF p] show ?thesis
      by (subst (asm) door_topic.simps) (auto simp: Let_def not_le split: pass.splits if_splits)
  next
    case True
    then obtain c z where y: "y = Pass_Carried c z" and go: "\<not> dr_reads_off_chain D tp"
      "r1 + topic_again S \<le> PREDECESSOR_READS_PER_SUBMIT" by auto
    obtain w2 l2 e where land: "topic_land env D S tp c (l\<lparr>ld_reads := r1 + topic_again S\<rparr>) w1 = (w2, l2, e)"
      using prod_cases3 by blast
    obtain w3 v3 where val: "topic_validate env D S tp w2 = (w3, v3)" by (meson surj_pair)
    note pc = p [unfolded y]
    have runs: "(case e of
          Some x \<Rightarrow> w' = w2 \<and> l' = l2\<lparr>ld_reads := ld_reads l2 - topic_again S\<rparr> \<and> v' = v \<and> why \<noteq> None
        | None \<Rightarrow> if judged v3 then door_topic env D S tp v3 (steak_insert v3 st) l2 w3 = (w', l', v', st', why)
                  else w' = w3 \<and> l' = l2 \<and> v' = v3 \<and> why = None)"
      using less.prems pc go land val
      by (subst (asm) door_topic.simps) (auto simp: Let_def not_less split: option.splits if_splits)
    show ?thesis
    proof (cases e)
      case (Some x)
      with runs failed [OF pc go(2)] land show ?thesis by auto
    next
      case None
      have "PREDECESSOR_READS_PER_SUBMIT - ld_reads l2 < PREDECESSOR_READS_PER_SUBMIT - ld_reads l"
        using land_carried_reads [OF land] mono go(2) by auto
      note ih = less.hyps [OF this]
      show ?thesis
        using runs None ih unjudged [OF pc go(2) land [unfolded None] val] again [OF pc go(2) land [unfolded None] val]
        by (auto split: if_splits)
    qed
  qed
qed

fun door_waits ::
  "engine_env \<Rightarrow> door \<Rightarrow> door_submit \<Rightarrow> topic_validation list \<Rightarrow> steak \<Rightarrow> (topic, string) table \<Rightarrow> landing \<Rightarrow> world
    \<Rightarrow> world \<times> landing \<times> topic_validation list \<times> steak \<times> (topic, string) table" where
  "door_waits env D S [] st waits l w = (w, l, [], st, waits)"
| "door_waits env D S (v # vs) st waits l w =
     (if \<not> asks_successor (op_tx (s_op S)) (s_finalize S) v
      then (case door_waits env D S vs st waits l w of (w3, l3, vs', st3, waits3) \<Rightarrow> (w3, l3, v # vs', st3, waits3))
      else
        let (w1, l1, v', st1, why) = door_topic env D S (v_topic v) v st l w;
            waits1 = (case why of None \<Rightarrow> waits | Some y \<Rightarrow> tbl_insert (v_topic v) y waits);
            (w2, r2, wt) = replay_finishes env (op_id (s_op S)) (v_topic v) (s_finalize S)
               (map_option (\<lambda>y. (y, None)) (tbl_get waits1 (v_topic v))) (ld_reads l1) w1;
            waits2 = (if wt = None then tbl_remove (v_topic v) waits1 else waits1);
            (w3, l3, vs', st3, waits3) = door_waits env D S vs st1 waits2 (l1\<lparr>ld_reads := r2\<rparr>) w2
        in (w3, l3, v' # vs', st3, waits3))"

text \<open>What the questions of all topics keep, told by what one topic keeps and what a read keeps.\<close>

lemma door_waits_inv:
  assumes "door_waits env D S vs st waits l w = (w', l', vs', st', waits')"
    and topic: "\<And>tp v st l w w1 l1 v1 st1 why. door_topic env D S tp v st l w = (w1, l1, v1, st1, why) \<Longrightarrow> Q l w \<Longrightarrow> Q l1 w1"
    and reads: "\<And>l w w1 r1. read_frame w (ld_reads l) w1 r1 \<Longrightarrow> Q l w \<Longrightarrow> Q (l\<lparr>ld_reads := r1\<rparr>) w1"
  shows "Q l w \<Longrightarrow> Q l' w'"
  using assms(1)
proof (induction vs arbitrary: st waits l w vs' st' waits')
  case (Cons v vs)
  show ?case
  proof (cases "asks_successor (op_tx (s_op S)) (s_finalize S) v")
    case False
    with Cons show ?thesis by (auto split: prod.splits)
  next
    case True
    obtain w1 l1 v' st1 why where a: "door_topic env D S (v_topic v) v st l w = (w1, l1, v', st1, why)"
      using prod_cases5 by blast
    let ?waits = "case why of None \<Rightarrow> waits | Some y \<Rightarrow> tbl_insert (v_topic v) y waits"
    obtain w2 r2 wt where b: "replay_finishes env (op_id (s_op S)) (v_topic v) (s_finalize S)
        (map_option (\<lambda>y. (y, None)) (tbl_get ?waits (v_topic v))) (ld_reads l1) w1 = (w2, r2, wt)" using prod_cases3 by blast
    have q2: "Q (l1\<lparr>ld_reads := r2\<rparr>) w2" using reads [OF replay_finishes_frame [OF b] topic [OF a Cons.prems(1)]] .
    obtain vs2 st2 waits2 where "door_waits env D S vs st1 (if wt = None then tbl_remove (v_topic v) ?waits else ?waits)
        (l1\<lparr>ld_reads := r2\<rparr>) w2 = (w', l', vs2, st2, waits2)"
      using Cons.prems(2) True a b by (auto simp: Let_def split: prod.splits)
    then show ?thesis using Cons.IH [OF q2] by blast
  qed
qed simp

record submit_answer =
  sa_steak :: steak
  sa_report :: mutation_report
  sa_walk_could_not_run :: "string option"
  sa_landed :: "(txid \<times> topic) list"
  sa_landed_breaches :: "string list"
  sa_reads :: nat

definition submit_door ::
  "engine_env \<Rightarrow> door \<Rightarrow> tagged_beef \<Rightarrow> submit_mode \<Rightarrow> bool \<Rightarrow> walk_breach_policy \<Rightarrow> world
    \<Rightarrow> world \<times> (engine_error + submit_answer)" where
  "submit_door env D tb mode finalize policy w =
     (case open_walk D tb mode None policy of
        Inl e \<Rightarrow> (w, Inl e)
      | Inr (op, stop) \<Rightarrow>
          (let S = \<lparr>s_tb = tb, s_op = op, s_mode = mode, s_policy = policy, s_walk_ran = (stop = None),
                     s_finalize = finalize\<rparr>;
               (w1, vs) = validate_all env (s_judge D S) (op_tx op) (op_id op) (tb_topics tb)
                            (w\<lparr>w_report := empty_report\<rparr>);
               now = nat (e_clock env (w_calls w1) div 1000);
               vs1 = (if finalize then map (keep_unexpired D (op_tx op) now) vs else vs);
               (w2, l, vs2, st, waits) = door_waits env D S vs1 (fold steak_insert vs1 []) []
                  \<lparr>ld_reads = 0, ld_walked = [], ld_guarded = [], ld_landed = [], ld_breaches = []\<rparr> w1;
               w3 = phase3 env (submit_ctx_of tb op finalize) (tbl_get waits) vs2 w2
           in (w3, Inr \<lparr>sa_steak = phase3_steak (tbl_get waits) vs2 st, sa_report = w_report w3,
                        sa_walk_could_not_run = stop, sa_landed = ld_landed l,
                        sa_landed_breaches = ld_breaches l, sa_reads = ld_reads l\<rparr>)))"

end
