(* ===== verification/Submit_Proofs.thy ===== *)
theory Submit_Proofs
  imports Deep_Delete
begin

text \<open>
  What the loops of Phase 3 do to the store and to the report under any schedule of faults: the lemmas
  the submit's properties rest on.
\<close>

text \<open>
  A stretch of Phase 3: the calls go on, the applied and deduped topics stay, and a fault is added to
  the report only when a call of the stretch faulted.
\<close>

definition runs :: "engine_env \<Rightarrow> world \<Rightarrow> world \<Rightarrow> bool" where
  "runs env w w' =
     (w_calls w \<le> w_calls w' \<and> applied_topics (w_report w') = applied_topics (w_report w) \<and>
      deduped_topics (w_report w') = deduped_topics (w_report w) \<and>
      length (faults (w_report w)) \<le> length (faults (w_report w')) \<and>
      (length (faults (w_report w)) < length (faults (w_report w')) \<longrightarrow>
         fault_between env (w_calls w) (w_calls w')))"

definition more_faults :: "world \<Rightarrow> world \<Rightarrow> bool" where
  "more_faults w w' = (length (faults (w_report w)) < length (faults (w_report w')))"

definition as_spent :: "Output option \<Rightarrow> Output option" where
  "as_spent = map_option (spent_update (\<lambda>_. True))"

text \<open>The rows are the same, but that rows of \<open>K\<close> may have been marked spent.\<close>

definition same_rows :: "okey set \<Rightarrow> memory_storage \<Rightarrow> memory_storage \<Rightarrow> bool" where
  "same_rows K s s' = (\<forall>k. (k \<notin> K \<longrightarrow> row s' k = row s k) \<and> as_spent (row s' k) = as_spent (row s k))"

definition untouched :: "Output option \<Rightarrow> bool" where
  "untouched x = (case x of None \<Rightarrow> True | Some r \<Rightarrow> \<not> spent r \<and> consumed_by r = [])"

definition okeys :: "txid \<Rightarrow> topic \<Rightarrow> nat list \<Rightarrow> okey set" where
  "okeys t tp is = {(t, i, tp) | i. i \<in> set is}"

definition coin_key :: "topic \<Rightarrow> Output \<Rightarrow> okey" where
  "coin_key tp r = (out_txid r, output_index r, tp)"

subsection \<open>Stretches\<close>

lemma runs_refl [simp]: "runs env w w"
  by (simp add: runs_def)

lemma runs_trans [trans]: "runs env a b \<Longrightarrow> runs env b c \<Longrightarrow> runs env a c"
proof -
  assume ab: "runs env a b" and bc: "runs env b c"
  have "fault_between env (w_calls a) (w_calls c)" if "more_faults a c"
  proof (cases "more_faults a b")
    case True
    then show ?thesis using ab bc fault_between_mono [of env "w_calls a" "w_calls b" "w_calls a" "w_calls c"]
      by (simp add: runs_def more_faults_def)
  next
    case False
    with that ab bc have "more_faults b c" by (auto simp: runs_def more_faults_def)
    then show ?thesis using ab bc fault_between_mono [of env "w_calls b" "w_calls c" "w_calls a" "w_calls c"]
      by (simp add: runs_def more_faults_def)
  qed
  with ab bc show ?thesis by (auto simp: runs_def more_faults_def)
qed

lemma more_faults_trans:
  "more_faults a b \<Longrightarrow> runs env b c \<Longrightarrow> more_faults a c"
  "runs env a b \<Longrightarrow> more_faults b c \<Longrightarrow> more_faults a c"
  by (auto simp: runs_def more_faults_def)

lemma runs_hold [simp]:
  "runs env w (hold_unapplied t tp w') = runs env w w'" "runs env w (forget_not_landed t tp w') = runs env w w'"
  "more_faults w (hold_unapplied t tp w') = more_faults w w'"
  by (simp_all add: runs_def more_faults_def)

lemma runs_write: "store_write env f w = (w', e) \<Longrightarrow> runs env w w'"
  using store_write_either [of env f w w' e] store_write_calls [of env f w w' e] by (simp add: runs_def)

lemma runs_write_fault:
  "store_write env f w = (w', Some e) \<Longrightarrow> runs env w (report_fault tp site err w') \<and>
     more_faults w (report_fault tp site err w')"
  using store_write_either [of env f w w' "Some e"] store_write_calls [of env f w w' "Some e"]
    store_write_fault [of env f w w' e]
  by (simp add: runs_def more_faults_def)

lemma runs_read: "read_topic_output env t i tp w = (w', x) \<Longrightarrow> runs env w w' \<and> w_store w' = w_store w"
  using read_topic_output_frame [of env t i tp w w' x] by (simp add: runs_def)

lemma runs_read_fault:
  "read_topic_output env t i tp w = (w', Inl e) \<Longrightarrow>
     runs env w (report_fault tp' site err w') \<and> more_faults w (report_fault tp' site err w')"
  using read_topic_output_frame [of env t i tp w w' "Inl e"] read_topic_output_fault [of env t i tp w w' e]
  by (simp add: runs_def more_faults_def)

lemma runs_tell: "tell env n w = (w', e) \<Longrightarrow> runs env w w' \<and> w_store w' = w_store w"
  using tell_frame [of env n w w' e] by (simp add: runs_def)

lemma runs_tell_fault:
  "tell env n w = (w', Some e) \<Longrightarrow>
     runs env w (report_fault tp site err w') \<and> more_faults w (report_fault tp site err w')"
  using tell_frame [of env n w w' "Some e"] tell_fault [of env n w w' e] by (simp add: runs_def more_faults_def)

lemma runs_deep:
  "deep_run env w (w', e) \<Longrightarrow> runs env w w'"
  by (simp add: deep_run_def runs_def)

lemma runs_deep_fault:
  "deep_run env w (w', Some e) \<Longrightarrow>
     runs env w (report_fault tp site err w') \<and> more_faults w (report_fault tp site err w')"
  by (simp add: deep_run_def runs_def more_faults_def)

subsection \<open>Marks\<close>

lemma same_rows_refl [simp]: "same_rows K s s"
  by (simp add: same_rows_def)

lemma same_rows_trans: "same_rows K a b \<Longrightarrow> same_rows K b c \<Longrightarrow> same_rows K a c"
  by (simp add: same_rows_def)

lemma same_rows_mono: "same_rows K a b \<Longrightarrow> K \<subseteq> K' \<Longrightarrow> same_rows K' a b"
  by (auto simp: same_rows_def)

lemma same_rows_mark: "(t, i, tp) \<in> K \<Longrightarrow> same_rows K s (mark_utxo_as_spent t i tp s)"
  by (auto simp: same_rows_def as_spent_def option.map_comp comp_def)

lemma same_rows_None: "same_rows K s s' \<Longrightarrow> row s' k = None \<longleftrightarrow> row s k = None"
proof -
  assume "same_rows K s s'"
  then have "as_spent (row s' k) = as_spent (row s k)" unfolding same_rows_def by blast
  then show ?thesis by (cases "row s' k"; cases "row s k") (auto simp: as_spent_def)
qed

lemma same_rows_Some:
  assumes "same_rows K s s'" "row s' k = Some r'"
  obtains r where "row s k = Some r" "r'\<lparr>spent := True\<rparr> = r\<lparr>spent := True\<rparr>"
proof -
  have "as_spent (row s k) = Some (r'\<lparr>spent := True\<rparr>)"
    using assms by (metis same_rows_def as_spent_def option.simps(9))
  then show thesis using that by (cases "row s k") (auto simp: as_spent_def)
qed

lemma spent_eq_fields:
  assumes "r'\<lparr>spent := True\<rparr> = r\<lparr>spent := True\<rparr>"
  shows "key_of r' = key_of r" "outputs_consumed r' = outputs_consumed r" "out_txid r' = out_txid r"
    "consumed_by r' = consumed_by r"
  using assms by (auto simp: key_of_def dest: arg_cong [of _ _ out_txid] arg_cong [of _ _ output_index]
      arg_cong [of _ _ out_topic] arg_cong [of _ _ outputs_consumed] arg_cong [of _ _ consumed_by])

lemma same_rows_keyed:
  assumes "same_rows K s s'" "keyed s"
  shows "keyed s'"
  unfolding keyed_def
proof (intro allI impI)
  fix k r' assume "row s' k = Some r'"
  with assms(1) obtain r where r: "row s k = Some r" "r'\<lparr>spent := True\<rparr> = r\<lparr>spent := True\<rparr>"
    by (rule same_rows_Some)
  then show "key_of r' = k" using keyedD [OF assms(2)] spent_eq_fields(1) [OF r(2)] by simp
qed

lemma same_rows_ranked:
  assumes "same_rows K s s'" "ranked rk s"
  shows "ranked rk s'"
  unfolding ranked_def
proof (intro allI impI)
  fix k r' assume "row s' k = Some r'"
  with assms(1) obtain r where r: "row s k = Some r" "r'\<lparr>spent := True\<rparr> = r\<lparr>spent := True\<rparr>"
    by (rule same_rows_Some)
  have "consumes_below rk r" using assms(2) r(1) by (rule rankedD)
  then show "consumes_below rk r'" by (simp add: consumes_below_def spent_eq_fields(2,3) [OF r(2)])
qed

lemma tell_spent_run:
  "tell_spent env c tp i prev ls w = (w', f) \<Longrightarrow>
     runs env w w' \<and> w_store w' = w_store w \<and> (f \<longrightarrow> more_faults w w')"
proof (induction ls arbitrary: w w' f)
  case (Cons l ls)
  let ?n = "Told_Spent (ls_name l) (spend_payload c tp i prev (ls_spend_mode l))"
  obtain w1 e where t: "tell env ?n w = (w1, e)" by (cases "tell env ?n w")
  show ?case
  proof (cases e)
    case None
    then have "tell_spent env c tp i prev ls w1 = (w', f)" using Cons.prems t by simp
    note w1 = Cons.IH [OF this]
    have r: "runs env w w1" "w_store w1 = w_store w" using runs_tell [OF t] by auto
    show ?thesis using w1 r runs_trans [OF r(1)] more_faults_trans(2) [OF r(1)] by simp
  next
    case (Some err)
    let ?w = "report_fault tp ''lookup_service.output_spent'' err w1"
    have w: "runs env w ?w" "more_faults w ?w" "w_store ?w = w_store w"
      using runs_tell_fault [OF t [unfolded Some]] runs_tell [OF t] by auto
    obtain f2 where t2: "tell_spent env c tp i prev ls ?w = (w', f2)"
      using Cons.prems t Some by (auto split: prod.splits)
    have "f" using Cons.prems t Some by (auto split: prod.splits)
    then show ?thesis using Cons.IH [OF t2] w(3) runs_trans [OF w(1)] more_faults_trans(1) [OF w(2)] by auto
  qed
qed simp

lemma mark_loop_run:
  assumes "mark_loop env c tp keep ps w = (w', rm, sn)" "coin_key tp ` snd ` set ps \<subseteq> K"
  shows "runs env w w' \<and> same_rows K (w_store w) (w_store w') \<and> (rm \<or> sn \<longrightarrow> more_faults w w')"
  using assms
proof (induction ps arbitrary: w w' rm sn)
  case (Cons p ps)
  obtain i prev where p: "p = (i, prev)" by (cases p)
  let ?f = "mark_utxo_as_spent (out_txid prev) (output_index prev) tp"
  obtain w1 e where wr: "store_write env ?f w = (w1, e)" by (cases "store_write env ?f w")
  have s1: "same_rows K (w_store w) (w_store w1)"
    using store_write_either [OF wr] same_rows_mark [of "out_txid prev" "output_index prev" tp K] Cons.prems(2) p
    by (auto simp: coin_key_def)
  define w2 where "w2 = (case e of None \<Rightarrow> w1 | Some err \<Rightarrow> report_fault tp ''mark_utxo_as_spent'' err w1)"
  have w2: "runs env w w2" "w_store w2 = w_store w1" "e \<noteq> None \<longrightarrow> more_faults w w2"
    using runs_write [OF wr] runs_write_fault [of env ?f w w1 "the e" tp "''mark_utxo_as_spent''" "the e"] wr
    by (auto simp: w2_def split: option.splits)
  obtain w3 sn1 where t: "tell_spent env c tp i prev (e_services env) w2 = (w3, sn1)"
    by (cases "tell_spent env c tp i prev (e_services env) w2")
  note w3 = tell_spent_run [OF t]
  obtain w4 rm2 sn2 where m: "mark_loop env c tp keep ps w3 = (w4, rm2, sn2)" by (metis prod_cases3)
  have "coin_key tp ` snd ` set ps \<subseteq> K" using Cons.prems(2) by auto
  note w4 = Cons.IH [OF m this]
  have eqs: "w' = w4" "sn = (sn1 \<or> sn2)" "rm \<longrightarrow> e \<noteq> None \<or> rm2"
    using Cons.prems(1) p wr t m by (auto simp: w2_def Let_def split: option.splits)
  have r34: "runs env w2 w4" "runs env w3 w4" and r23: "runs env w2 w3" "runs env w w3"
    using w2(1) w3 w4 runs_trans by blast+
  have "same_rows K (w_store w) (w_store w4)"
    using s1 w2(2) w3 w4 same_rows_trans by metis
  moreover have "more_faults w w4" if f: "rm \<or> sn"
  proof -
    consider "e \<noteq> None" | "sn1" | "rm2 \<or> sn2" using f eqs by blast
    then show ?thesis
    proof cases
      case 1
      then show ?thesis using w2(3) more_faults_trans(1) [OF _ r34(1)] by blast
    next
      case 2
      then have "more_faults w2 w4" using w3 more_faults_trans(1) [OF _ r34(2)] by blast
      then show ?thesis by (rule more_faults_trans(2) [OF w2(1)])
    next
      case 3
      then show ?thesis using w4 more_faults_trans(2) [OF r23(2)] by blast
    qed
  qed
  ultimately show ?case using eqs(1) runs_trans [OF w2(1) r34(1)] by blast
qed simp

subsection \<open>Inserts and their undo\<close>

lemma tell_admitted_run:
  "tell_admitted env c tp i ls w = (w', f) \<Longrightarrow>
     runs env w w' \<and> w_store w' = w_store w \<and> (f \<longrightarrow> more_faults w w')"
proof (induction ls arbitrary: w w' f)
  case (Cons l ls)
  let ?n = "Told_Admitted (ls_name l) (admit_payload c tp i (ls_admission_mode l))"
  obtain w1 e where t: "tell env ?n w = (w1, e)" by (cases "tell env ?n w")
  have r: "runs env w w1" "w_store w1 = w_store w" using runs_tell [OF t] by auto
  show ?case
  proof (cases e)
    case None
    then have "tell_admitted env c tp i ls w1 = (w', f)" using Cons.prems t by simp
    from Cons.IH [OF this] show ?thesis
      using r runs_trans [OF r(1)] more_faults_trans(2) [OF r(1)] by simp
  next
    case (Some err)
    then show ?thesis using Cons.prems t r runs_tell_fault [OF t [unfolded Some]] by auto
  qed
qed simp

lemma new_output_key [simp]: "key_of (new_output env c tp consumed i w) = (c_txid c, i, tp)"
  by (simp add: new_output_def key_of_def)

lemma row_insert_new:
  "row (insert_output_with_origin (new_output env c tp consumed i w) g s) k =
     (if k = (c_txid c, i, tp) \<and> row s k = None
      then Some (stored_row (new_output env c tp consumed i w)) else row s k)"
  by simp

lemma untouched_new [simp]: "untouched (Some (stored_row (new_output env c tp consumed i w)))"
  by (simp add: untouched_def stored_row_def new_output_def)

lemma outputs_consumed_new [simp]:
  "outputs_consumed (stored_row (new_output env c tp consumed i w)) = consumed"
  "out_txid (stored_row (new_output env c tp consumed i w)) = c_txid c"
  "key_of (stored_row (new_output env c tp consumed i w)) = (c_txid c, i, tp)"
  by (simp_all add: stored_row_def new_output_def key_of_def)

text \<open>Rows that a stretch adds under the keys of the transaction, and no other change.\<close>

definition adds_rows :: "txid \<Rightarrow> topic \<Rightarrow> outpoint list \<Rightarrow> nat list \<Rightarrow> memory_storage \<Rightarrow> memory_storage \<Rightarrow> bool" where
  "adds_rows t tp consumed is s s' =
     (\<forall>k. row s' k = row s k \<or>
        (k \<in> okeys t tp is \<and> row s k = None \<and>
         (\<exists>r. row s' k = Some r \<and> untouched (Some r) \<and> key_of r = k \<and> outputs_consumed r = consumed)))"

lemma adds_rows_refl [simp]: "adds_rows t tp consumed is s s"
  by (simp add: adds_rows_def)

lemma adds_rows_trans:
  assumes "adds_rows t tp consumed is a b" "adds_rows t tp consumed js b d"
    "set is \<subseteq> set ks" "set js \<subseteq> set ks"
  shows "adds_rows t tp consumed ks a d"
proof -
  have "okeys t tp is \<subseteq> okeys t tp ks" "okeys t tp js \<subseteq> okeys t tp ks"
    using assms(3,4) by (auto simp: okeys_def)
  with assms(1,2) show ?thesis unfolding adds_rows_def by (smt (verit, best) subsetD)
qed

lemma adds_rows_insert:
  "adds_rows (c_txid c) tp consumed [i] s (insert_output_with_origin (new_output env c tp consumed i w) g s)"
  unfolding adds_rows_def row_insert_new okeys_def by auto

lemma insert_loop_run:
  assumes "insert_loop env c tp consumed is w = (w', new, tried, f)"
  shows "runs env w w' \<and> (f \<longrightarrow> more_faults w w') \<and> set tried \<subseteq> set is \<and>
    adds_rows (c_txid c) tp consumed tried (w_store w) (w_store w') \<and>
    (\<not> f \<longrightarrow> tried = is \<and> new = map (Outpoint (c_txid c)) is \<and>
       (\<forall>i \<in> set is. row (w_store w') (c_txid c, i, tp) \<noteq> None))"
  using assms
proof (induction "is" arbitrary: w w' new tried f)
  case (Cons i "is")
  let ?o = "new_output env c tp consumed i w"
  let ?f = "insert_output_with_origin ?o (c_finalize c)"
  obtain w1 e where wr: "store_write env ?f w = (w1, e)" by (cases "store_write env ?f w")
  have a1: "adds_rows (c_txid c) tp consumed [i] (w_store w) (w_store w1)"
    using store_write_either [OF wr] adds_rows_insert by auto
  have r1: "runs env w w1" using wr by (rule runs_write)
  show ?case
  proof (cases e)
    case (Some err)
    then show ?thesis using Cons.prems wr a1 runs_write_fault [OF wr [unfolded Some]] by auto
  next
    case None
    obtain w2 g where t: "tell_admitted env c tp i (e_services env) w1 = (w2, g)"
      by (cases "tell_admitted env c tp i (e_services env) w1")
    note w2 = tell_admitted_run [OF t]
    have r2: "runs env w w2" using r1 w2 runs_trans by blast
    have a2: "adds_rows (c_txid c) tp consumed [i] (w_store w) (w_store w2)" using a1 w2 by simp
    have held: "row (w_store w2) (c_txid c, i, tp) \<noteq> None"
      using store_write_ok [OF wr [unfolded None]] w2 row_insert_new by auto
    show ?thesis
    proof (cases g)
      case True
      then show ?thesis using Cons.prems wr None t r2 a2 w2 more_faults_trans(2) [OF r1] by auto
    next
      case False
      obtain w3 new3 tried3 f3 where l: "insert_loop env c tp consumed is w2 = (w3, new3, tried3, f3)"
        by (metis prod_cases4)
      note w3 = Cons.IH [OF l]
      have eqs: "w' = w3" "new = Outpoint (c_txid c) i # new3" "tried = i # tried3" "f = f3"
        using Cons.prems wr None t False l by auto
      have "adds_rows (c_txid c) tp consumed (i # tried3) (w_store w) (w_store w3)"
        by (rule adds_rows_trans [OF a2, of tried3]) (use w3 in auto)
      moreover have "row (w_store w3) (c_txid c, i, tp) \<noteq> None"
        using held w3 unfolding adds_rows_def by metis
      ultimately show ?thesis
        using eqs w3 runs_trans [OF r2] more_faults_trans(2) [OF r2] by auto
    qed
  qed
qed simp

lemma undo_inserts_run: "runs env w (undo_inserts env t tp is w)"
proof (induction "is" arbitrary: w)
  case (Cons i "is")
  obtain w1 x where rd: "read_topic_output env t i tp w = (w1, x)" by (cases "read_topic_output env t i tp w")
  obtain w2 e where wr: "store_write env (delete_output t i tp) w1 = (w2, e)"
    by (cases "store_write env (delete_output t i tp) w1")
  have r1: "runs env w w1" using runs_read [OF rd] by simp
  have r2: "runs env w w2" using r1 runs_write [OF wr] runs_trans by blast
  have f1: "x = Inl err \<Longrightarrow> runs env w (report_fault tp ''undo_insert_output'' err w1)" for err
    using runs_read_fault rd by blast
  have f2: "e = Some err \<Longrightarrow> runs env w (report_fault tp ''undo_insert_output'' err w2)" for err
    using runs_write_fault wr r1 runs_trans by blast
  obtain w' where step: "undo_inserts env t tp (i # is) w = undo_inserts env t tp is w'" "runs env w w'"
    using rd wr r1 r2 f1 f2 by (cases x rule: sum.exhaust) (auto split: option.splits)
  then show ?case using Cons [of w'] runs_trans by simp
qed simp

lemma undo_inserts_clean:
  assumes "clean_from env (w_calls w)" "\<forall>i \<in> set is. untouched (row (w_store w) (t, i, tp))"
  shows "row (w_store (undo_inserts env t tp is w)) k =
    (if k \<in> okeys t tp is then None else row (w_store w) k)"
  using assms
proof (induction "is" arbitrary: w)
  case (Cons i "is")
  have c: "e_outcome env (w_calls w) = Done" "e_outcome env (Suc (w_calls w)) = Done"
    using Cons.prems(1) by (auto simp: clean_from_def)
  have rd: "read_topic_output env t i tp w = (tick w, Inr (row (w_store w) (t, i, tp)))"
    using c by (simp add: read_topic_output_def store_read_def find_output_row)
  have wr: "store_write env (delete_output t i tp) (tick w) =
      (tick ((tick w)\<lparr>w_store := delete_output t i tp (w_store w)\<rparr>), None)"
    using c by (simp add: store_write_def)
  let ?w = "(if row (w_store w) (t, i, tp) = None then tick w
             else tick ((tick w)\<lparr>w_store := delete_output t i tp (w_store w)\<rparr>))"
  have step: "undo_inserts env t tp (i # is) w = undo_inserts env t tp is ?w"
    using Cons.prems(2) by (auto simp: rd wr untouched_def split: option.splits)
  have rows: "row (w_store ?w) k = (if k = (t, i, tp) then None else row (w_store w) k)" for k
    by auto
  have "clean_from env (w_calls ?w)" using Cons.prems(1) by (auto simp: clean_from_def)
  moreover have "\<forall>j \<in> set is. untouched (row (w_store ?w) (t, j, tp))"
    using Cons.prems(2) unfolding rows by (auto simp: untouched_def)
  ultimately have "row (w_store (undo_inserts env t tp is ?w)) k =
      (if k \<in> okeys t tp is then None else row (w_store ?w) k)" by (rule Cons.IH)
  then show ?case unfolding step rows by (auto simp: okeys_def)
qed (simp add: okeys_def)

text \<open>What a stretch of inserts added, a clean undo takes out again.\<close>

lemma undo_adds:
  assumes "adds_rows t tp consumed tried s (w_store w)" "clean_from env (w_calls w)"
    "\<forall>i \<in> set tried. row s (t, i, tp) = None"
  shows "row (w_store (undo_inserts env t tp tried w)) = row s"
proof
  fix k
  have add: "row (w_store w) k = row s k \<or> (k \<in> okeys t tp tried \<and>
        (\<exists>r. row (w_store w) k = Some r \<and> untouched (Some r)))" for k
    using assms(1) unfolding adds_rows_def by metis
  have "\<forall>i \<in> set tried. untouched (row (w_store w) (t, i, tp))"
  proof
    fix i assume "i \<in> set tried"
    then have "row s (t, i, tp) = None" using assms(3) by blast
    then show "untouched (row (w_store w) (t, i, tp))"
      using add [of "(t, i, tp)"] by (auto simp: untouched_def)
  qed
  then have "row (w_store (undo_inserts env t tp tried w)) k =
      (if k \<in> okeys t tp tried then None else row (w_store w) k)"
    by (rule undo_inserts_clean [OF assms(2)])
  then show "row (w_store (undo_inserts env t tp tried w)) k = row s k"
    using add [of k] assms(3) by (auto simp: okeys_def)
qed

subsection \<open>Stale coins\<close>

text \<open>What the loop over the stale coins does; \<open>N\<close> bounds the ranks of their transactions.\<close>

definition deletes :: "(txid \<Rightarrow> nat) \<Rightarrow> nat \<Rightarrow> engine_env \<Rightarrow> world \<Rightarrow> world \<Rightarrow> bool" where
  "deletes rk N env w w' =
     (runs env w w' \<and> shrinks (w_store w) (w_store w') \<and>
      (\<forall>k. N \<le> rk (fst k) \<longrightarrow> row (w_store w') k = row (w_store w) k))"

lemma deletes_refl [simp]: "deletes rk N env w w"
  by (simp add: deletes_def)

lemma deletes_trans: "deletes rk N env a b \<Longrightarrow> deletes rk N env b c \<Longrightarrow> deletes rk N env a c"
  unfolding deletes_def by (auto intro: runs_trans shrinks_trans)

lemma deletes_rows:
  "runs env w w' \<Longrightarrow> row (w_store w') = row (w_store w) \<Longrightarrow> deletes rk N env w w'"
  by (simp add: deletes_def shrinks_def)

lemma deletes_report [simp]:
  "deletes rk N env w w1 \<Longrightarrow> fault_between env (w_calls w) (w_calls w1) \<Longrightarrow> deletes rk N env w (report_fault tp site e w1)"
  unfolding deletes_def runs_def by simp

lemma deep_deletes:
  assumes "keyed (w_store w)" "ranked rk (w_store w)" "row (w_store w) k = Some r" "rk (out_txid r) < N"
    and "delete_deep env r w = (w', e)"
  shows "deletes rk N env w w' \<and> (e \<noteq> None \<longrightarrow> fault_between env (w_calls w) (w_calls w')) \<and>
    (e = None \<and> consumed_by r = [] \<longrightarrow> row (w_store w') k = None)"
proof -
  have cb: "consumes_below rk r" using assms(2,3) by (rule rankedD)
  obtain n where d: "delete_utxo_deep env n r w = Some (w', e)" and n: "n = length (ms_outputs (w_store w)) + 2"
    using delete_deep_some [OF assms(1,2) cb] assms(5) by metis
  have run: "deep_run env w (w', e)" using d by (rule delete_deep_run(1))
  have "row (w_store w') k' = row (w_store w) k'" if "N \<le> rk (fst k')" for k'
    using deep_frame_all [of rk env n] d assms(1,2,4) cb that unfolding deep_frame_def
    by (metis fst_conv less_le_trans)
  then have "deletes rk N env w w'" using run runs_deep [OF run] by (simp add: deletes_def deep_run_def)
  moreover have "row (w_store w') k = None" if "e = None" "consumed_by r = []"
    using delete_deep_gone [of env "Suc (length (ms_outputs (w_store w)))" r w w'] d n that
      keyedD [OF assms(1,3)] by simp
  ultimately show ?thesis using run by (auto simp: deep_run_def)
qed

definition gone_after :: "topic \<Rightarrow> Output list \<Rightarrow> memory_storage \<Rightarrow> memory_storage \<Rightarrow> bool" where
  "gone_after tp sts s s' =
     (\<forall>st \<in> set sts. \<forall>r. row s (coin_key tp st) = Some r \<and> consumed_by r = [] \<longrightarrow> row s' (coin_key tp st) = None)"

lemma gone_after_shrinks:
  assumes "shrinks a b" "gone_after tp sts b d"
  shows "shrinks b d \<Longrightarrow> gone_after tp sts a d"
  unfolding gone_after_def
proof (intro ballI allI impI, elim conjE)
  fix st r assume bd: "shrinks b d" and st: "st \<in> set sts" "row a (coin_key tp st) = Some r" "consumed_by r = []"
  show "row d (coin_key tp st) = None"
  proof (cases "row b (coin_key tp st)")
    case None
    then show ?thesis using bd shrinks_None by blast
  next
    case (Some r')
    then have "row_le r' r" using assms(1) st(2) unfolding shrinks_def by (metis option.inject)
    then have "consumed_by r' = []" using st(3) by (simp add: row_le_def)
    then show ?thesis using assms(2) st(1) Some unfolding gone_after_def by blast
  qed
qed

lemma delete_loop_run:
  assumes "delete_loop env tp sts w = (w', f, started)" "keyed (w_store w)" "ranked rk (w_store w)"
    "\<forall>st \<in> set sts. rk (out_txid st) < N"
  shows "deletes rk N env w w' \<and> (f \<longrightarrow> more_faults w w') \<and>
    (\<not> started \<longrightarrow> row (w_store w') = row (w_store w)) \<and>
    (\<not> f \<longrightarrow> gone_after tp sts (w_store w) (w_store w'))"
  using assms
proof (induction sts arbitrary: w w' f started)
  case (Cons st sts)
  let ?app = "insert_applied_transaction (out_txid st) tp"
  obtain w1 e where wr: "store_write env ?app w = (w1, e)" by (cases "store_write env ?app w")
  have rows1: "row (w_store w1) = row (w_store w)" using store_write_either [OF wr] by auto
  have r1: "runs env w w1" using wr by (rule runs_write)
  text \<open>Whatever comes before the rest of the loop is a stretch that ends in a world \<open>v\<close>.\<close>
  have rest: "deletes rk N env w w' \<and> (more_faults w v \<or> f' \<longrightarrow> more_faults w w') \<and>
      (\<not> started' \<and> row (w_store v) = row (w_store w) \<longrightarrow> row (w_store w') = row (w_store w)) \<and>
      (\<not> f' \<longrightarrow> gone_after tp sts (w_store w) (w_store w')) \<and> shrinks (w_store v) (w_store w')"
    if l: "delete_loop env tp sts v = (w', f', started')" and d: "deletes rk N env w v" for v f' started'
  proof -
    have sh: "shrinks (w_store w) (w_store v)" using d by (simp add: deletes_def)
    have ih: "deletes rk N env v w'" "f' \<longrightarrow> more_faults v w'"
      "\<not> started' \<longrightarrow> row (w_store w') = row (w_store v)"
      "\<not> f' \<longrightarrow> gone_after tp sts (w_store v) (w_store w')"
      using Cons.IH [OF l shrinks_keyed [OF sh Cons.prems(2)] shrinks_ranked [OF sh Cons.prems(3)]]
        Cons.prems(4) by auto
    have r: "runs env w v" "runs env v w'" "shrinks (w_store v) (w_store w')"
      using d ih(1) by (auto simp: deletes_def)
    show ?thesis
      using deletes_trans [OF d ih(1)] ih r more_faults_trans(1) [OF _ r(2)] more_faults_trans(2) [OF r(1)]
        gone_after_shrinks [OF sh _ r(3)] by auto
  qed
  show ?case
  proof (cases e)
    case (Some err)
    let ?v = "report_fault tp ''record_spent_coin_applied'' err w1"
    have v: "runs env w ?v" "more_faults w ?v" using runs_write_fault [OF wr [unfolded Some]] by auto
    obtain f' st' where l: "delete_loop env tp sts ?v = (w', f', st')" and fs: "f" "started = st'"
      using Cons.prems(1) wr Some by (auto split: prod.splits)
    have "deletes rk N env w ?v" using v(1) rows1 by (intro deletes_rows) simp_all
    from rest [OF l this] show ?thesis using fs v(2) rows1 by simp
  next
    case None
    let ?w = "forget_not_landed (out_txid st) tp w1"
    obtain w2 x where rd: "read_topic_output env (out_txid st) (output_index st) tp ?w = (w2, x)"
      by (cases "read_topic_output env (out_txid st) (output_index st) tp ?w")
    have st2: "w_store w2 = w_store w1" using runs_read [OF rd] by simp
    have r2: "runs env w w2" using runs_trans [of env w ?w w2] r1 runs_read [OF rd] by simp
    have d2: "deletes rk N env w w2" using r2 rows1 st2 by (intro deletes_rows) simp_all
    show ?thesis
    proof (cases x)
      case (Inl err)
      let ?v = "report_fault tp ''find_output'' err w2"
      have "runs env ?w ?v" "more_faults ?w ?v" using runs_read_fault [OF rd [unfolded Inl]] by auto
      moreover have rw: "runs env w ?w" using r1 by simp
      ultimately have v: "runs env w ?v" "more_faults w ?v"
        using runs_trans more_faults_trans(2) [OF rw] by blast+
      obtain f' st' where l: "delete_loop env tp sts ?v = (w', f', st')" and fs: "f" "started = st'"
        using Cons.prems(1) wr None rd Inl by (auto split: prod.splits)
      have "deletes rk N env w ?v" using v(1) rows1 st2 by (intro deletes_rows) simp_all
      from rest [OF l this] show ?thesis using fs v(2) rows1 st2 by simp
    next
      case (Inr q)
      have q: "q = row (w_store w) (coin_key tp st)"
        using read_topic_output_row [OF rd [unfolded Inr]] rows1 by (simp add: coin_key_def)
      show ?thesis
      proof (cases q)
        case None': None
        then have "delete_loop env tp sts w2 = (w', f, started)"
          using Cons.prems(1) wr None rd Inr by simp
        from rest [OF this d2] show ?thesis using q None' rows1 st2 by (auto simp: gone_after_def)
      next
        case (Some r)
        have held: "row (w_store w2) (coin_key tp st) = Some r" using q Some rows1 st2 by simp
        have kd: "keyed (w_store w2)" "ranked rk (w_store w2)"
          using Cons.prems(2,3) rows1 st2 by (simp_all add: keyed_def ranked_def)
        have "out_txid r = out_txid st" using keyedD [OF kd(1) held] by (simp add: key_of_def coin_key_def)
        then have rN: "rk (out_txid r) < N" using Cons.prems(4) by simp
        obtain w3 e3 where dd: "delete_deep env r w2 = (w3, e3)" by (cases "delete_deep env r w2")
        note deep = deep_deletes [OF kd held rN dd]
        have d3: "deletes rk N env w w3" using deletes_trans [OF d2] deep by blast
        show ?thesis
        proof (cases e3)
          case None'': None
          obtain st' where l: "delete_loop env tp sts w3 = (w', f, st')" and fs: "started"
            using Cons.prems(1) wr None rd Inr Some dd None'' by (auto split: prod.splits)
          note rs = rest [OF l d3]
          have "consumed_by r = [] \<Longrightarrow> row (w_store w') (coin_key tp st) = None"
            using deep None'' rs shrinks_None by blast
          then show ?thesis using rs fs q Some by (auto simp: gone_after_def)
        next
          case (Some err)
          let ?v = "report_fault tp ''delete_utxo_deep'' err w3"
          obtain f' st' where l: "delete_loop env tp sts ?v = (w', f', st')" and fs: "f" "started"
            using Cons.prems(1) wr None rd Inr \<open>q = Some r\<close> dd Some by (auto split: prod.splits)
          have fb: "fault_between env (w_calls w2) (w_calls w3)" using deep Some by simp
          have c: "w_calls w \<le> w_calls w2" using r2 by (simp add: runs_def)
          have "deletes rk N env w ?v"
            using d3 fault_between_mono [OF fb c order_refl] by (rule deletes_report)
          moreover have "more_faults w ?v" using d3 by (simp add: deletes_def runs_def more_faults_def)
          ultimately show ?thesis using rest [OF l] fs by blast
        qed
      qed
    qed
  qed
qed (simp add: gone_after_def)

lemma all_held_run:
  "all_held env tp sts w = (w', h) \<Longrightarrow> runs env w w' \<and> w_store w' = w_store w \<and> w_not_landed w' = w_not_landed w"
proof (induction sts arbitrary: w)
  case (Cons st sts)
  obtain w1 x where rd: "read_topic_output env (out_txid st) (output_index st) tp w = (w1, x)"
    by (cases "read_topic_output env (out_txid st) (output_index st) tp w")
  note r = runs_read [OF rd] read_topic_output_frame [OF rd]
  show ?case
  proof (cases "\<exists>r. x = Inr (Some r)")
    case True
    then have "all_held env tp sts w1 = (w', h)" using Cons.prems rd by auto
    from Cons.IH [OF this] show ?thesis using r runs_trans [of env w w1 w'] by simp
  next
    case False
    then have "w' = w1" using Cons.prems rd by (cases x) (auto split: option.splits)
    then show ?thesis using r by simp
  qed
qed simp

end
