(* ===== verification/Submit_Properties.thy ===== *)
theory Submit_Properties
  imports Submit_Proofs
begin

text \<open>
  The properties of a submit's Phase 3: when a topic is recorded as applied, what one faulted call can
  leave behind, and that a faulted submit's replay is judged over the coins it was judged with.
\<close>

subsection \<open>Consumers and the applied row\<close>

lemma consumed_loop_run:
  "runs env w (consumed_loop env tp new ps w) \<and>
   (\<forall>k. row (w_store (consumed_loop env tp new ps w)) k = None \<longleftrightarrow> row (w_store w) k = None)"
proof (induction ps arbitrary: w)
  case (Cons p ps)
  obtain w1 x where rd: "read_topic_output env (op_txid p) (op_index p) tp w = (w1, x)"
    by (cases "read_topic_output env (op_txid p) (op_index p) tp w")
  have r1: "runs env w w1" "w_store w1 = w_store w" using runs_read [OF rd] by auto
  have "\<exists>w'. consumed_loop env tp new (p # ps) w = consumed_loop env tp new ps w' \<and> runs env w w' \<and>
      (\<forall>k. row (w_store w') k = None \<longleftrightarrow> row (w_store w) k = None)"
  proof (cases "\<exists>r. x = Inr (Some r)")
    case False
    then consider err where "x = Inl err" | "x = Inr None" by (cases x) auto
    then show ?thesis
    proof cases
      case (1 err)
      let ?w = "report_fault tp ''find_output'' err w1"
      have "runs env w ?w" using runs_read_fault [OF rd [unfolded 1]] by blast
      then show ?thesis using 1 rd r1 by (intro exI [of _ ?w]) simp
    next
      case 2
      then show ?thesis using rd r1 by (intro exI [of _ w1]) simp
    qed
  next
    case True
    then obtain r where r: "x = Inr (Some r)" by blast
    let ?f = "update_consumed_by (op_txid p) (op_index p) tp (add_new (consumed_by r) new)"
    obtain w2 e where wr: "store_write env ?f w1 = (w2, e)" by (cases "store_write env ?f w1")
    have rows: "row (w_store w2) k = None \<longleftrightarrow> row (w_store w) k = None" for k
      using store_write_either [OF wr] r1(2) by (auto split: if_splits)
    have r2: "runs env w w2" using runs_trans [OF r1(1) runs_write [OF wr]] .
    show ?thesis
    proof (cases e)
      case None
      then show ?thesis using rd r wr r2 rows by (intro exI [of _ w2]) simp
    next
      case (Some err)
      let ?w = "report_fault tp ''update_consumed_by'' err w2"
      have "runs env w ?w" using runs_trans [OF r1(1)] runs_write_fault [OF wr [unfolded Some]] by blast
      then show ?thesis using Some rd r wr rows by (intro exI [of _ ?w]) simp
    qed
  qed
  then obtain w' where "consumed_loop env tp new (p # ps) w = consumed_loop env tp new ps w'" "runs env w w'"
    "\<forall>k. row (w_store w') k = None \<longleftrightarrow> row (w_store w) k = None" by blast
  then show ?case using Cons [of w'] runs_trans [of env w w'] by simp
qed simp

text \<open>How the mutation of a topic ends.\<close>

definition landed :: "submit_ctx \<Rightarrow> topic_validation \<Rightarrow> world \<Rightarrow> bool" where
  "landed c v w = (\<forall>i \<in> set (outputs_to_admit (v_admittance v)). row (w_store w) (c_txid c, i, v_topic v) \<noteq> None)"

definition ends_applied :: "submit_ctx \<Rightarrow> topic_validation \<Rightarrow> world \<Rightarrow> world \<Rightarrow> bool" where
  "ends_applied c v w w' =
     (length (faults (w_report w')) = length (faults (w_report w)) \<and>
      applied_topics (w_report w') = applied_topics (w_report w) @ [v_topic v] \<and>
      does_applied_transaction_exist (w_store w') (c_txid c) (v_topic v) \<and>
      (c_txid c, v_topic v) \<notin> w_not_landed w')"

definition ends_held :: "engine_env \<Rightarrow> submit_ctx \<Rightarrow> topic_validation \<Rightarrow> world \<Rightarrow> world \<Rightarrow> bool" where
  "ends_held env c v w w' =
     (more_faults w w' \<and> fault_between env (w_calls w) (w_calls w') \<and>
      applied_topics (w_report w') = applied_topics (w_report w) \<and> (c_txid c, v_topic v) \<in> w_not_landed w')"

definition previous_keys :: "topic_validation \<Rightarrow> okey set" where
  "previous_keys v = coin_key (v_topic v) ` set (v_previous_outputs v)"

lemma hold_ends_held:
  "runs env w w' \<Longrightarrow> more_faults w w' \<Longrightarrow> v_topic v = tp \<Longrightarrow> ends_held env c v w (hold_unapplied (c_txid c) tp w')"
  by (simp add: ends_held_def runs_def more_faults_def) (simp add: hold_unapplied_def)

text \<open>
  What a submit relies on: rows under their keys, txids that can be ranked along what they consume (a
  transaction names the transactions it spends by their hash, so no chain of spends comes back), and a
  topic that does not hold the outputs yet.
\<close>

definition submit_ok :: "(txid \<Rightarrow> nat) \<Rightarrow> submit_ctx \<Rightarrow> topic_validation \<Rightarrow> memory_storage \<Rightarrow> bool" where
  "submit_ok rk c v s =
     (keyed s \<and> ranked rk s \<and> (\<forall>r \<in> set (v_previous_outputs v). rk (out_txid r) < rk (c_txid c)) \<and>
      (\<forall>i \<in> set (outputs_to_admit (v_admittance v)). row s (c_txid c, i, v_topic v) = None))"

lemma set_prevs: "snd ` set (prevs v) \<subseteq> set (v_previous_outputs v)"
  by (auto simp: prevs_def dest: set_zip_rightD)

lemma stale_rank: "submit_ok rk c v s \<Longrightarrow> \<forall>st \<in> set (stale_coins v). rk (out_txid st) < rk (c_txid c)"
  using set_prevs [of v] by (force simp: submit_ok_def stale_coins_def)

lemma consumed_rank: "submit_ok rk c v s \<Longrightarrow> \<forall>p \<in> set (outputs_consumed_of v). rk (op_txid p) < rk (c_txid c)"
  using set_prevs [of v] by (force simp: submit_ok_def outputs_consumed_of_def output_outpoint_def)

lemma adds_rows_kept:
  assumes "adds_rows t tp consumed is s s'" "keyed s" "ranked rk s" "\<forall>p \<in> set consumed. rk (op_txid p) < rk t"
  shows "keyed s'" "ranked rk s'"
proof -
  have "key_of r = k \<and> consumes_below rk r" if r: "row s' k = Some r" for k r
  proof (cases "row s' k = row s k")
    case True
    then show ?thesis using r keyedD [OF assms(2)] rankedD [OF assms(3)] by simp
  next
    case False
    then have "k \<in> okeys t tp is" "key_of r = k" "outputs_consumed r = consumed"
      using assms(1) r unfolding adds_rows_def by (metis option.inject)+
    moreover from this have "out_txid r = t" by (auto simp: okeys_def key_of_def)
    ultimately show ?thesis using assms(4) by (simp add: consumes_below_def)
  qed
  then show "keyed s'" "ranked rk s'" unfolding keyed_def ranked_def by blast+
qed

lemma finish_topic_ends:
  assumes "runs env w0 w" "finish_topic env c tp (length (faults (w_report w0))) w = w'" "v_topic v = tp"
  shows "row (w_store w') = row (w_store w) \<and> (ends_applied c v w0 w' \<or> ends_held env c v w0 w') \<and>
    (ends_applied c v w0 w' \<longrightarrow> \<not> more_faults w0 w)"
proof (cases "more_faults w0 w")
  case True
  then have "w' = hold_unapplied (c_txid c) tp w" using assms(2) by (simp add: finish_topic_def more_faults_def)
  then show ?thesis using hold_ends_held [OF assms(1) True assms(3)] True
    by (simp add: ends_applied_def more_faults_def)
next
  case False
  then have len: "length (faults (w_report w)) = length (faults (w_report w0))"
    using assms(1) by (simp add: more_faults_def runs_def)
  let ?f = "insert_applied_transaction (c_txid c) tp"
  obtain w1 e where wr: "store_write env ?f w = (w1, e)" by (cases "store_write env ?f w")
  have rows: "row (w_store w1) = row (w_store w)" using store_write_either [OF wr] by auto
  show ?thesis
  proof (cases e)
    case None
    then have w': "w' = forget_not_landed (c_txid c) tp (push_applied tp w1)"
      using assms(2) False wr by (simp add: finish_topic_def more_faults_def)
    have "does_applied_transaction_exist (w_store w1) (c_txid c) tp"
      using store_write_ok [OF wr [unfolded None]]
      by (simp add: does_applied_transaction_exist_def insert_applied_transaction_def)
    then have "ends_applied c v w0 w'"
      using w' store_write_ok [OF wr [unfolded None]] len assms(1,3)
      by (simp add: ends_applied_def forget_not_landed_def push_applied_def runs_def)
    moreover have "row (w_store w') = row (w_store w)" using w' rows by (simp add: push_applied_def)
    ultimately show ?thesis using False by simp
  next
    case (Some err)
    let ?w = "report_fault tp ''insert_applied_transaction'' err w1"
    have w': "w' = hold_unapplied (c_txid c) tp ?w"
      using assms(2) False wr Some by (simp add: finish_topic_def more_faults_def)
    have r: "runs env w ?w" "more_faults w ?w" using runs_write_fault [OF wr [unfolded Some]] by auto
    have "ends_held env c v w0 w'"
      unfolding w' by (rule hold_ends_held [OF runs_trans [OF assms(1) r(1)] more_faults_trans(2) [OF assms(1) r(2)] assms(3)])
    then show ?thesis using False rows w' by simp
  qed
qed

subsection \<open>Spent or gone\<close>

definition closed :: "memory_storage \<Rightarrow> okey \<Rightarrow> bool" where
  "closed s k = (case row s k of None \<Rightarrow> True | Some r \<Rightarrow> spent r)"

lemma closed_shrinks: "shrinks s s' \<Longrightarrow> closed s k \<Longrightarrow> closed s' k"
proof (cases "row s' k")
  case (Some r')
  assume "shrinks s s'" and c: "closed s k"
  with Some obtain r where "row s k = Some r" "row_le r' r" unfolding shrinks_def by blast
  with Some c show ?thesis using row_le_fields(5) by (simp add: closed_def)
qed (simp add: closed_def)

lemma closed_mark: "closed s k \<Longrightarrow> closed (mark_utxo_as_spent t i tp s) k"
  "closed (mark_utxo_as_spent t i tp s) (t, i, tp)"
  by (auto simp: closed_def split: option.splits)

lemma closed_consumed: "closed (update_consumed_by t i tp ps s) k = closed s k"
  by (auto simp: closed_def split: option.splits)

lemma closed_cong: "row s' k = row s k \<Longrightarrow> closed s' k = closed s k"
  by (simp add: closed_def)

lemma closed_consumed_loop: "closed (w_store (consumed_loop env tp new ps w)) k = closed (w_store w) k"
proof (induction ps arbitrary: w)
  case (Cons p ps)
  obtain w1 x where rd: "read_topic_output env (op_txid p) (op_index p) tp w = (w1, x)"
    by (cases "read_topic_output env (op_txid p) (op_index p) tp w")
  have st: "w_store w1 = w_store w" using runs_read [OF rd] by simp
  have wr: "closed (w_store w2) k = closed (w_store w) k"
    if "store_write env (update_consumed_by (op_txid p) (op_index p) tp qs) w1 = (w2, e)" for qs w2 e
    using store_write_either [OF that] st by (auto simp: closed_consumed)
  show ?case using Cons rd st wr
    by (cases x rule: sum.exhaust) (auto split: option.splits prod.splits)
qed simp

lemma mark_loop_closed:
  assumes "mark_loop env c tp keep ps w = (w', rm, sn)"
  shows "(closed (w_store w) k \<longrightarrow> closed (w_store w') k) \<and>
    (\<not> more_faults w w' \<longrightarrow> (\<forall>p \<in> set ps. closed (w_store w') (coin_key tp (snd p))))"
  using assms
proof (induction ps arbitrary: k w w' rm sn)
  case (Cons p ps)
  obtain i prev where p: "p = (i, prev)" by (cases p)
  let ?f = "mark_utxo_as_spent (out_txid prev) (output_index prev) tp"
  obtain w1 e where wr: "store_write env ?f w = (w1, e)" by (cases "store_write env ?f w")
  define w2 where "w2 = (case e of None \<Rightarrow> w1 | Some err \<Rightarrow> report_fault tp ''mark_utxo_as_spent'' err w1)"
  obtain w3 sn1 where t: "tell_spent env c tp i prev (e_services env) w2 = (w3, sn1)"
    by (cases "tell_spent env c tp i prev (e_services env) w2")
  obtain rm2 sn2 where m: "mark_loop env c tp keep ps w3 = (w', rm2, sn2)"
    using Cons.prems p wr t by (auto simp: w2_def Let_def split: option.splits prod.splits)
  have st: "w_store w3 = w_store w1" using tell_spent_run [OF t] by (simp add: w2_def split: option.splits)
  have c1: "closed (w_store w) k \<longrightarrow> closed (w_store w1) k" for k
    using store_write_either [OF wr] by (auto intro: closed_mark(1))
  have r: "runs env w3 w'" using mark_loop_run [OF m, of UNIV] by simp
  have "more_faults w w'" if "e \<noteq> None"
  proof -
    have "more_faults w w2" using that store_write_either [OF wr] by (auto simp: w2_def more_faults_def)
    then show ?thesis using tell_spent_run [OF t] r more_faults_trans(1) by blast
  qed
  then have "\<not> more_faults w w' \<longrightarrow> closed (w_store w1) (coin_key tp prev)"
    using store_write_ok [of env ?f w w1] wr closed_mark(2) by (cases e) (auto simp: coin_key_def)
  moreover have "\<not> more_faults w w' \<longrightarrow> \<not> more_faults w3 w'"
    using tell_spent_run [OF t] runs_write [OF wr] by (auto simp: runs_def more_faults_def w2_def split: option.splits)
  ultimately show ?case
    using Cons.IH [OF m] c1 st p by auto
qed simp

text \<open>The three ends of a topic: applied, taken back, or landed without its record.\<close>

definition stale_closed :: "topic_validation \<Rightarrow> memory_storage \<Rightarrow> memory_storage \<Rightarrow> bool" where
  "stale_closed v s s' =
     (\<forall>st \<in> set (stale_coins v). \<forall>r. row s (coin_key (v_topic v) st) = Some r \<and> consumed_by r = [] \<longrightarrow>
        closed s' (coin_key (v_topic v) st))"

lemma settle_topic_ends:
  assumes "submit_ok rk c v s0" "runs env w0 w"
    and "adds_rows (c_txid c) (v_topic v) (outputs_consumed_of v) tried s0 (w_store w)"
    and "set tried \<subseteq> set (outputs_to_admit (v_admittance v))" "landed c v w"
    and w': "w' = settle_topic env c v (length (faults (w_report w0))) new tried w"
  shows "(ends_held env c v w0 w' \<and> (single_fault env \<longrightarrow> row (w_store w') = row s0)) \<or>
    ((ends_applied c v w0 w' \<or> ends_held env c v w0 w') \<and> landed c v w' \<and>
     (\<forall>k. closed (w_store w) k \<longrightarrow> closed (w_store w') k) \<and>
     (ends_applied c v w0 w' \<or> clean_from env (w_calls w) \<longrightarrow>
        gone_after (v_topic v) (stale_coins v) (w_store w) (w_store w')))"
proof -
  let ?tp = "v_topic v" let ?t = "c_txid c" let ?N = "rk (c_txid c)"
  obtain w1 f st where d: "delete_loop env ?tp (stale_coins v) w = (w1, f, st)" by (metis prod_cases3)
  have kd: "keyed (w_store w)" "ranked rk (w_store w)"
    using adds_rows_kept [OF assms(3)] consumed_rank [OF assms(1)] assms(1) by (auto simp: submit_ok_def)
  note dl = delete_loop_run [OF d kd stale_rank [OF assms(1)]]
  have r1: "runs env w0 w1" using dl runs_trans [OF assms(2)] by (auto simp: deletes_def)
  have l1: "landed c v w1" using assms(5) dl by (simp add: landed_def deletes_def)
  have cl1: "closed (w_store w) k \<longrightarrow> closed (w_store w1) k" for k
    using dl closed_shrinks [of "w_store w" "w_store w1" k] unfolding deletes_def by blast
  show ?thesis
  proof (cases f)
    case True
    have m: "more_faults w0 w1" using dl True more_faults_trans(2) [OF assms(2)] by blast
    have nc: "\<not> clean_from env (w_calls w)"
      using dl True clean_from_no_fault [of env "w_calls w" "w_calls w" "w_calls w1"]
      by (auto simp: deletes_def runs_def more_faults_def)
    define held w2 where hw: "held = (if st then False else snd (all_held env ?tp (stale_coins v) w1))"
      "w2 = (if st then w1 else fst (all_held env ?tp (stale_coins v) w1))"
    have w2: "runs env w1 w2" "w_store w2 = w_store w1"
      using all_held_run [of env ?tp "stale_coins v" w1 w2 held] hw by (auto split: if_splits)
    have r2: "runs env w0 w2" "more_faults w0 w2"
      using runs_trans [OF r1 w2(1)] more_faults_trans(1) [OF m w2(1)] by auto
    have eq: "w' = hold_unapplied ?t ?tp (if held then undo_inserts env ?t ?tp tried w2 else w2)"
      using w' d True hw by (auto simp: settle_topic_def Let_def split: prod.splits)
    show ?thesis
    proof (cases held)
      case False
      then have "ends_held env c v w0 w'" using eq r2 hold_ends_held by simp
      moreover from this have "\<not> ends_applied c v w0 w'" by (simp add: ends_held_def ends_applied_def)
      ultimately show ?thesis using False eq l1 w2(2) cl1 nc by (simp add: landed_def)
    next
      case h: True
      have rows: "row (w_store w2) = row (w_store w)" using h hw dl w2(2) by (auto split: if_splits)
      have clean: "single_fault env \<Longrightarrow> clean_from env (w_calls w2)"
        using single_fault_clean r2 by (auto simp: runs_def more_faults_def)
      have "adds_rows ?t ?tp (outputs_consumed_of v) tried s0 (w_store w2)"
        using assms(3) unfolding adds_rows_def rows by blast
      then have "single_fault env \<longrightarrow> row (w_store (undo_inserts env ?t ?tp tried w2)) = row s0"
        using clean assms(1,4) by (intro impI undo_adds) (auto simp: submit_ok_def)
      moreover have "ends_held env c v w0 (hold_unapplied ?t ?tp (undo_inserts env ?t ?tp tried w2))"
        by (intro hold_ends_held runs_trans [OF r2(1) undo_inserts_run]
            more_faults_trans(1) [OF r2(2) undo_inserts_run] refl)
      ultimately show ?thesis using eq h by simp
    qed
  next
    case False
    define w2 where "w2 = consumed_loop env ?tp new (outputs_consumed_of v) w1"
    have w2: "runs env w1 w2" "\<forall>k. row (w_store w2) k = None \<longleftrightarrow> row (w_store w1) k = None"
      using consumed_loop_run [of env w1 ?tp new "outputs_consumed_of v"] by (simp_all add: w2_def)
    have eq: "finish_topic env c ?tp (length (faults (w_report w0))) w2 = w'"
      using w' d False by (simp add: settle_topic_def Let_def w2_def)
    note fin = finish_topic_ends [OF runs_trans [OF r1 w2(1)] eq refl]
    have none: "row (w_store w') k = None \<longleftrightarrow> row (w_store w1) k = None" for k
      using fin w2(2) by (metis)
    have "landed c v w'" using l1 none by (simp add: landed_def)
    moreover have "gone_after ?tp (stale_coins v) (w_store w) (w_store w')"
      using dl False none unfolding gone_after_def by blast
    moreover have "closed (w_store w) k \<longrightarrow> closed (w_store w') k" for k
    proof -
      have "closed (w_store w') k = closed (w_store w2) k" using fin by (intro closed_cong) metis
      then show ?thesis using cl1 [of k] by (simp add: w2_def closed_consumed_loop)
    qed
    ultimately show ?thesis using fin by blast
  qed
qed

subsection \<open>A topic's mutation\<close>

text \<open>
  The ends of a topic's mutation: applied with every admitted output held and the stale coins gone;
  held back with every row as it was but for spent marks; or landed and not recorded, the stale coins
  spent or gone.
\<close>

definition atomic_end :: "engine_env \<Rightarrow> submit_ctx \<Rightarrow> topic_validation \<Rightarrow> world \<Rightarrow> world \<Rightarrow> bool" where
  "atomic_end env c v w w' =
     ((ends_applied c v w w' \<and> landed c v w' \<and> gone_after (v_topic v) (stale_coins v) (w_store w) (w_store w')) \<or>
      (ends_held env c v w w' \<and>
       (single_fault env \<longrightarrow>
          same_rows (previous_keys v) (w_store w) (w_store w') \<or>
          (landed c v w' \<and> stale_closed v (w_store w) (w_store w')))))"

lemma row_same_rows: "row a = row b \<Longrightarrow> same_rows K s a = same_rows K s b"
  by (simp add: same_rows_def)

lemma stale_key_facts:
  assumes "submit_ok rk c v s" "st \<in> set (stale_coins v)"
  shows "coin_key (v_topic v) st \<notin> okeys (c_txid c) (v_topic v) is"
    and "\<exists>i. (i, st) \<in> set (prevs v)"
proof -
  have "rk (out_txid st) < rk (c_txid c)" using stale_rank [OF assms(1)] assms(2) by blast
  then show "coin_key (v_topic v) st \<notin> okeys (c_txid c) (v_topic v) is"
    by (auto simp: okeys_def coin_key_def)
  show "\<exists>i. (i, st) \<in> set (prevs v)" using assms(2) by (auto simp: stale_coins_def)
qed

lemma mark_loop_stale:
  assumes "same_rows K s s'" "adds_rows t tp consumed is s' s''" "k \<notin> okeys t tp is"
    and "row s k = Some r" "consumed_by r = []"
  shows "\<exists>r''. row s'' k = Some r'' \<and> consumed_by r'' = []"
proof -
  have "row s'' k = row s' k" using assms(2,3) unfolding adds_rows_def by blast
  moreover obtain r' where r': "row s' k = Some r'"
    using same_rows_None [OF assms(1), of k] assms(4) by (cases "row s' k") auto
  moreover obtain r0 where r0: "row s k = Some r0" "r'\<lparr>spent := True\<rparr> = r0\<lparr>spent := True\<rparr>"
    using assms(1) r' by (rule same_rows_Some)
  moreover have "consumed_by r' = []" using spent_eq_fields(4) [OF r0(2)] r0(1) assms(4,5) by simp
  ultimately show ?thesis by simp
qed

lemma gone_before_marks:
  assumes "same_rows K s s'" "adds_rows (c_txid c) (v_topic v) consumed is s' s''" "submit_ok rk c v s"
    and "gone_after (v_topic v) (stale_coins v) s'' d"
  shows "gone_after (v_topic v) (stale_coins v) s d"
  unfolding gone_after_def
proof (intro ballI allI impI, elim conjE)
  fix st r assume st: "st \<in> set (stale_coins v)" "row s (coin_key (v_topic v) st) = Some r" "consumed_by r = []"
  then obtain r'' where "row s'' (coin_key (v_topic v) st) = Some r''" "consumed_by r'' = []"
    using mark_loop_stale [OF assms(1,2)] stale_key_facts(1) [OF assms(3)] by blast
  then show "row d (coin_key (v_topic v) st) = None" using assms(4) st(1) unfolding gone_after_def by blast
qed

lemma mutate_topic_ends:
  assumes ok: "submit_ok rk c v (w_store w)"
  shows "atomic_end env c v w (mutate_topic env c v w)"
proof -
  let ?tp = "v_topic v" let ?t = "c_txid c" let ?a = "v_admittance v" let ?K = "previous_keys v"
  let ?w' = "mutate_topic env c v w" let ?n = "length (faults (w_report w))"
  obtain w1 rm sn where m: "mark_loop env c ?tp (coins_to_retain ?a) (prevs v) w = (w1, rm, sn)"
    by (metis prod_cases3)
  have "coin_key ?tp ` snd ` set (prevs v) \<subseteq> ?K" using set_prevs by (auto simp: previous_keys_def)
  note w1 = mark_loop_run [OF m this]
  show ?thesis
  proof (cases "rm \<or> sn")
    case True
    then have "?w' = hold_unapplied ?t ?tp w1" using m by (simp add: mutate_topic_def Let_def)
    moreover from this have "ends_held env c v w ?w'" using w1 True hold_ends_held by simp
    ultimately show ?thesis using w1 by (simp add: atomic_end_def)
  next
    case False
    have ok1: "submit_ok rk c v (w_store w1)"
      using ok w1 same_rows_keyed same_rows_ranked same_rows_None unfolding submit_ok_def by blast
    obtain w2 new tried f where l:
      "insert_loop env c ?tp (outputs_consumed_of v) (outputs_to_admit ?a) w1 = (w2, new, tried, f)"
      by (metis prod_cases4)
    note w2 = insert_loop_run [OF l]
    have r2: "runs env w w2" using w1 w2 runs_trans by blast
    have undone: "row (w_store (undo_inserts env ?t ?tp tried w2)) = row (w_store w1)"
      if "more_faults w w2" "single_fault env"
      using that w2 ok1 single_fault_clean r2
      by (intro undo_adds) (auto simp: submit_ok_def runs_def more_faults_def)
    show ?thesis
    proof (cases f)
      case True
      have m2: "more_faults w w2" using w2 True more_faults_trans(2) w1 by blast
      let ?u = "undo_inserts env ?t ?tp tried w2"
      have w': "?w' = hold_unapplied ?t ?tp ?u" using m False l True by (simp add: mutate_topic_def Let_def)
      have "ends_held env c v w ?w'"
        unfolding w' by (intro hold_ends_held runs_trans [OF r2 undo_inserts_run]
            more_faults_trans(1) [OF m2 undo_inserts_run] refl)
      moreover have "single_fault env \<longrightarrow> same_rows ?K (w_store w) (w_store ?w')"
        using w1 undone [OF m2] w' row_same_rows by (metis hold_simps(1))
      ultimately show ?thesis by (simp add: atomic_end_def)
    next
      case g: False
      have w': "?w' = settle_topic env c v ?n new tried w2"
        using m False l g by (simp add: mutate_topic_def Let_def)
      have land: "landed c v w2" using w2 g by (simp add: landed_def)
      note ends = settle_topic_ends [OF ok1 r2 _ _ land w']
      have ends: "(ends_held env c v w ?w' \<and> (single_fault env \<longrightarrow> row (w_store ?w') = row (w_store w1))) \<or>
        ((ends_applied c v w ?w' \<or> ends_held env c v w ?w') \<and> landed c v ?w' \<and>
         (\<forall>k. closed (w_store w2) k \<longrightarrow> closed (w_store ?w') k) \<and>
         (ends_applied c v w ?w' \<or> clean_from env (w_calls w2) \<longrightarrow>
            gone_after ?tp (stale_coins v) (w_store w2) (w_store ?w')))"
        using ends w2 by blast
      have gone: "gone_after ?tp (stale_coins v) (w_store w2) (w_store ?w') \<Longrightarrow>
          gone_after ?tp (stale_coins v) (w_store w) (w_store ?w')"
        using gone_before_marks [of ?K "w_store w" "w_store w1" c v] w1 w2 ok by blast
      have closed: "stale_closed v (w_store w) (w_store ?w')"
        if sf: "single_fault env" and c: "\<forall>k. closed (w_store w2) k \<longrightarrow> closed (w_store ?w') k"
          and cg: "clean_from env (w_calls w2) \<longrightarrow> gone_after ?tp (stale_coins v) (w_store w2) (w_store ?w')"
      proof (cases "more_faults w w1")
        case True
        then have "clean_from env (w_calls w1)" using single_fault_clean [OF sf] w1
          by (auto simp: runs_def more_faults_def)
        then have "clean_from env (w_calls w2)" using w2 clean_from_mono by (auto simp: runs_def)
        then show ?thesis using cg gone by (auto simp: stale_closed_def gone_after_def closed_def)
      next
        case False
        have "closed (w_store ?w') (coin_key ?tp st)" if st: "st \<in> set (stale_coins v)" for st
        proof -
          obtain i where "(i, st) \<in> set (prevs v)" using stale_key_facts(2) [OF ok st] by blast
          then have "closed (w_store w1) (coin_key ?tp st)" using mark_loop_closed [OF m] False by force
          moreover have "row (w_store w2) (coin_key ?tp st) = row (w_store w1) (coin_key ?tp st)"
            using w2 stale_key_facts(1) [OF ok st] unfolding adds_rows_def by blast
          ultimately show ?thesis using c closed_cong by blast
        qed
        then show ?thesis by (simp add: stale_closed_def)
      qed
      show ?thesis using ends gone closed w1 row_same_rows unfolding atomic_end_def by metis
    qed
  qed
qed

end
