(* ===== verification/Submit_Frame.thy ===== *)
theory Submit_Frame
  imports Submit_Properties
begin

text \<open>
  What the writes of Phase 3 keep. A property of the store that the marks, the inserts, the deletes and the
  consumer updates keep is kept by every loop that makes only those writes, whatever faults
  (\<open>kept_by_writes\<close>); it is interpreted on the applied rows, which only \<open>insert_applied_transaction\<close>
  writes. So a submit that did not land leaves no applied row of its transaction.
\<close>

locale kept_by_writes =
  fixes P :: "memory_storage \<Rightarrow> bool"
  assumes mark: "P s \<Longrightarrow> P (mark_utxo_as_spent t i tp s)"
    and insert: "P s \<Longrightarrow> P (insert_output_with_origin o' g s)"
    and delete: "P s \<Longrightarrow> P (delete_output t i tp s)"
    and consumed: "P s \<Longrightarrow> P (update_consumed_by t i tp ps s)"
begin

lemma stored: "store_write env f w = (w', e) \<Longrightarrow> P (w_store w) \<Longrightarrow> (\<And>s. P s \<Longrightarrow> P (f s)) \<Longrightarrow> P (w_store w')"
  by (auto simp: store_write_def split: outcome.splits)

lemma read: "store_read env f w = (w', x) \<Longrightarrow> P (w_store w) \<Longrightarrow> P (w_store w')"
  by (auto dest: store_read_frame)

lemma read_output: "read_topic_output env t i tp w = (w', x) \<Longrightarrow> P (w_store w) \<Longrightarrow> P (w_store w')"
  by (auto dest: read_topic_output_frame)

lemma told: "tell env n w = (w', x) \<Longrightarrow> P (w_store w) \<Longrightarrow> P (w_store w')"
  by (auto simp: tell_def split: outcome.splits)

lemma spent_told: "tell_spent env c tp i prev ls w = (w', x) \<Longrightarrow> P (w_store w) \<Longrightarrow> P (w_store w')"
  by (induction ls arbitrary: w x) (auto split: prod.splits option.splits dest!: told)

lemma marked: "mark_loop env c tp keep ps w = (w', x) \<Longrightarrow> P (w_store w) \<Longrightarrow> P (w_store w')"
proof (induction ps arbitrary: w x)
  case (Cons p ps)
  obtain i prev where p: "p = (i, prev)" by fastforce
  from Cons show ?case
    by (fastforce simp: p Let_def split: prod.splits option.splits
        dest: stored [OF _ _ mark] spent_told)
qed simp

lemma admitted_told: "tell_admitted env c tp i ls w = (w', x) \<Longrightarrow> P (w_store w) \<Longrightarrow> P (w_store w')"
  by (induction ls arbitrary: w x) (auto split: prod.splits option.splits dest!: told)

lemma inserted: "insert_loop env c tp cs is w = (w', x) \<Longrightarrow> P (w_store w) \<Longrightarrow> P (w_store w')"
proof (induction "is" arbitrary: w x)
  case (Cons i "is")
  then show ?case
    by (fastforce split: prod.splits option.splits bool.splits dest: stored [OF _ _ insert] admitted_told)
qed simp

lemma undone: "P (w_store w) \<Longrightarrow> P (w_store (undo_inserts env t tp is w))"
proof (induction "is" arbitrary: w)
  case (Cons i "is")
  have "P (w_store (case read_topic_output env t i tp w of
          (w1, Inl e) \<Rightarrow> report_fault tp ''undo_insert_output'' e w1
        | (w1, Inr None) \<Rightarrow> w1
        | (w1, Inr (Some r)) \<Rightarrow>
            if \<not> spent r \<and> consumed_by r = []
            then (case store_write env (delete_output t i tp) w1 of
                    (w2, None) \<Rightarrow> w2
                  | (w2, Some e) \<Rightarrow> report_fault tp ''undo_insert_output'' e w2)
            else w1))"
    using Cons.prems
    by (auto split: prod.splits sum.splits option.splits dest!: read_output dest: stored [OF _ _ delete])
  from Cons.IH [OF this] show ?case by simp
qed simp

lemma dropped_told: "P (w_store w) \<Longrightarrow> P (w_store (tell_dropped env o' ls w))"
proof (induction ls arbitrary: w)
  case (Cons l ls)
  have "P (w_store (fst (tell env n w)))" for n using Cons.prems by (cases "tell env n w") (auto dest: told)
  with Cons.IH show ?case by simp
qed simp

lemma deep:
  "delete_utxo_deep env n o' w = Some (w', e) \<Longrightarrow> P (w_store w) \<Longrightarrow> P (w_store w')"
  "delete_consumed env n o' ps w = Some (w', e) \<Longrightarrow> P (w_store w) \<Longrightarrow> P (w_store w')"
proof (induction env n o' w and env n o' ps w arbitrary: w' e and w' e rule: delete_utxo_deep_delete_consumed.induct)
  case (2 env n o' w)
  then show ?case
    by (fastforce split: if_splits prod.splits option.splits dest: stored [OF _ _ delete] intro: dropped_told)
next
  case (4 env n o' p ps w)
  then show ?case
    by (fastforce simp: Let_def split: prod.splits sum.splits option.splits
        dest: read_output stored [OF _ _ consumed])
qed simp_all

lemma deep_deleted: "delete_deep env o' w = (w', e) \<Longrightarrow> P (w_store w) \<Longrightarrow> P (w_store w')"
  by (auto simp: delete_deep_def simp del: delete_utxo_deep.simps split: option.splits dest: deep)

lemma held_read: "all_held env tp sts w = (w', x) \<Longrightarrow> P (w_store w) \<Longrightarrow> P (w_store w')"
  by (induction sts arbitrary: w x) (auto split: prod.splits sum.splits option.splits dest!: read_output)

lemma consumers: "P (w_store w) \<Longrightarrow> P (w_store (consumed_loop env tp new ps w))"
proof (induction ps arbitrary: w)
  case (Cons p ps)
  have "P (w_store (case read_topic_output env (op_txid p) (op_index p) tp w of
          (w1, Inl e) \<Rightarrow> report_fault tp ''find_output'' e w1
        | (w1, Inr None) \<Rightarrow> w1
        | (w1, Inr (Some r)) \<Rightarrow>
            (case store_write env (update_consumed_by (op_txid p) (op_index p) tp (add_new (consumed_by r) new)) w1 of
               (w2, None) \<Rightarrow> w2
             | (w2, Some e) \<Rightarrow> report_fault tp ''update_consumed_by'' e w2)))"
    using Cons.prems
    by (auto split: prod.splits sum.splits option.splits dest!: read_output dest: stored [OF _ _ consumed])
  from Cons.IH [OF this] show ?case by simp
qed simp

lemma coins_kept: "previous_coins_loop env tp i ins w = (w', x) \<Longrightarrow> P (w_store w) \<Longrightarrow> P (w_store w')"
  by (induction ins arbitrary: i w x)
    (fastforce split: if_splits prod.splits sum.splits option.splits dest: read_output)+

lemma validated: "validate_topic env judge tx t tp w = (w', v) \<Longrightarrow> P (w_store w) \<Longrightarrow> P (w_store w')"
  by (auto simp: validate_topic_def split: prod.splits sum.splits bool.splits dest!: read coins_kept)

end

subsection \<open>The applied rows\<close>

lemma applied_after_writes [simp]:
  "does_applied_transaction_exist (mark_utxo_as_spent t i tp s) u tq = does_applied_transaction_exist s u tq"
  "does_applied_transaction_exist (insert_output_with_origin o' g s) u tq = does_applied_transaction_exist s u tq"
  "does_applied_transaction_exist (delete_output t i tp s) u tq = does_applied_transaction_exist s u tq"
  "does_applied_transaction_exist (update_consumed_by t i tp ps s) u tq = does_applied_transaction_exist s u tq"
  "does_applied_transaction_exist (insert_applied_transaction t tp s) u tq
     \<longleftrightarrow> (u = t \<and> tq = tp) \<or> does_applied_transaction_exist s u tq"
  by (auto simp: does_applied_transaction_exist_def mark_utxo_as_spent_def insert_output_with_origin_def
      insert_output_def delete_output_def update_consumed_by_def insert_applied_transaction_def
      stamp_created_def upsert_beef_def modify_output_def Let_def split: option.splits)

interpretation rec: kept_by_writes "\<lambda>s. does_applied_transaction_exist s t tp = b" for t tp b
  by unfold_locales simp_all

lemma delete_loop_applied:
  "delete_loop env tp sts w = (w', x) \<Longrightarrow> \<forall>st \<in> set sts. out_txid st \<noteq> t \<Longrightarrow>
     does_applied_transaction_exist (w_store w') t tq = does_applied_transaction_exist (w_store w) t tq"
proof (induction sts arbitrary: w x)
  case (Cons st sts)
  let ?A = "\<lambda>w. does_applied_transaction_exist (w_store w) t tq"
  obtain w1 e where a: "store_write env (insert_applied_transaction (out_txid st) tp) w = (w1, e)" by fastforce
  have w1: "?A w1 = ?A w" using store_write_either [OF a] Cons.prems(2) by auto
  have ih: "delete_loop env tp sts w2 = (w', y) \<Longrightarrow> ?A w' = ?A w2" for w2 y using Cons.IH Cons.prems(2) by simp
  show ?case
  proof (cases e)
    case (Some err)
    with Cons.prems(1) a w1 show ?thesis by (auto split: prod.splits dest!: ih)
  next
    case None
    obtain w2 y where rd: "read_topic_output env (out_txid st) (output_index st) tp (forget_not_landed (out_txid st) tp w1) = (w2, y)"
      by fastforce
    have w2: "?A w2 = ?A w" using rec.read_output [OF rd, of t tq "?A w"] w1 by simp
    have "?A w3 = ?A w" if "delete_deep env r w2 = (w3, z)" for r w3 z using rec.deep_deleted [OF that w2] .
    with Cons.prems(1) a None rd w2 show ?thesis
      by (auto split: prod.splits sum.splits option.splits dest!: ih)
  qed
qed simp

text \<open>A topic's mutation records its transaction only when every admitted output is held at its end.\<close>

lemma settle_topic_applied:
  assumes "submit_ok rk c v s0" "adds_rows (c_txid c) (v_topic v) (outputs_consumed_of v) tried s0 (w_store w)"
    and "landed c v w" "w' = settle_topic env c v n new tried w"
  shows "landed c v w' \<or> does_applied_transaction_exist (w_store w') (c_txid c) (v_topic v) =
    does_applied_transaction_exist (w_store w) (c_txid c) (v_topic v)"
proof -
  let ?tp = "v_topic v" let ?t = "c_txid c"
  let ?A = "\<lambda>w. does_applied_transaction_exist (w_store w) ?t ?tp"
  obtain w1 f st where d: "delete_loop env ?tp (stale_coins v) w = (w1, f, st)" by (metis prod_cases3)
  have rk: "\<forall>st \<in> set (stale_coins v). rk (out_txid st) < rk ?t" using stale_rank [OF assms(1)] .
  have kd: "keyed (w_store w)" "ranked rk (w_store w)"
    using adds_rows_kept [OF assms(2)] consumed_rank [OF assms(1)] assms(1) by (auto simp: submit_ok_def)
  have "\<forall>st \<in> set (stale_coins v). out_txid st \<noteq> ?t" using rk by auto
  then have w1: "?A w1 = ?A w" by (rule delete_loop_applied [OF d])
  have l1: "landed c v w1" using delete_loop_run [OF d kd rk] assms(3) by (simp add: landed_def deletes_def)
  show ?thesis
  proof (cases f)
    case True
    obtain w2 held where h: "(if st then (w1, False) else all_held env ?tp (stale_coins v) w1) = (w2, held)" by fastforce
    have a2: "?A w2 = ?A w" using h w1 rec.held_read [of env ?tp "stale_coins v" w1 w2 held ?t ?tp] by (auto split: if_splits)
    have "w' = hold_unapplied ?t ?tp (if held then undo_inserts env ?t ?tp tried w2 else w2)"
      using assms(4) d True h by (simp add: settle_topic_def Let_def)
    then show ?thesis using a2 rec.undone [OF a2] by simp
  next
    case False
    let ?w2 = "consumed_loop env ?tp new (outputs_consumed_of v) w1"
    have "landed c v ?w2" using l1 consumed_loop_run [of env w1 ?tp new "outputs_consumed_of v"] by (simp add: landed_def)
    moreover have "row (w_store (finish_topic env c ?tp n ?w2)) = row (w_store ?w2)"
      by (auto simp: finish_topic_def push_applied_def split: prod.splits option.splits dest!: store_write_either)
    ultimately have "landed c v w'" using assms(4) d False by (simp add: settle_topic_def Let_def landed_def)
    then show ?thesis ..
  qed
qed

lemma mutate_topic_applied:
  assumes ok: "submit_ok rk c v (w_store w)" and "\<not> landed c v (mutate_topic env c v w)"
  shows "does_applied_transaction_exist (w_store (mutate_topic env c v w)) (c_txid c) (v_topic v) =
    does_applied_transaction_exist (w_store w) (c_txid c) (v_topic v)"
proof -
  let ?tp = "v_topic v" let ?t = "c_txid c" let ?a = "v_admittance v"
  let ?A = "\<lambda>w. does_applied_transaction_exist (w_store w) ?t ?tp"
  obtain w1 rm sn where m: "mark_loop env c ?tp (coins_to_retain ?a) (prevs v) w = (w1, rm, sn)"
    by (metis prod_cases3)
  obtain w2 new tried f where l:
    "insert_loop env c ?tp (outputs_consumed_of v) (outputs_to_admit ?a) w1 = (w2, new, tried, f)"
    by (metis prod_cases4)
  have a1: "?A w1 = ?A w" using rec.marked [OF m refl] .
  have a2: "?A w2 = ?A w" using rec.inserted [OF l a1] .
  have ok1: "submit_ok rk c v (w_store w1)"
    using ok mark_loop_run [OF m subset_refl] same_rows_keyed same_rows_ranked same_rows_None
    unfolding submit_ok_def by blast
  note w2 = insert_loop_run [OF l]
  consider "rm \<or> sn" | "\<not> (rm \<or> sn)" "f" | "\<not> (rm \<or> sn)" "\<not> f" by blast
  then show ?thesis
  proof cases
    case 1
    then show ?thesis using m a1 by (simp add: mutate_topic_def Let_def)
  next
    case 2
    then show ?thesis using m l rec.undone [OF a2] by (simp add: mutate_topic_def Let_def)
  next
    case 3
    have e: "mutate_topic env c v w = settle_topic env c v (length (faults (w_report w))) new tried w2"
      using m l 3 by (simp add: mutate_topic_def Let_def)
    have "landed c v w2" using w2 3 by (simp add: landed_def)
    moreover have "adds_rows ?t ?tp (outputs_consumed_of v) tried (w_store w1) (w_store w2)" using w2 by blast
    ultimately show ?thesis using settle_topic_applied [OF ok1 _ _ e] assms(2) a2 by blast
  qed
qed

end
