(* ===== verification/Submit_Claims.thy ===== *)
theory Submit_Claims
  imports Submit_Frame
begin

text \<open>
  The submit's properties over Phase 3 of a topic, each with an instance on a head chain: a coin
  \<open>aa.0\<close> of topic \<open>tm_a\<close> that the transaction \<open>bb\<close> spends, not retained, for its output 0.
\<close>

definition head_coin :: Output where
  "head_coin =
     \<lparr>out_txid = ''aa'', output_index = 0, output_script = [], satoshis = 1000, out_topic = ''tm_a'',
      spent = False, outputs_consumed = [], consumed_by = [], beef = None, block_height = None, score = Some 7\<rparr>"

definition head_world :: world where
  "head_world =
     \<lparr>w_store = ms_new\<lparr>ms_outputs := [((''aa'', 0, ''tm_a''), head_coin)]\<rparr>, w_calls = 0, w_not_landed = {},
      w_log = [], w_report = empty_report\<rparr>"

definition head_tx :: transaction where
  "head_tx = \<lparr>inputs = [\<lparr>source_txid = ''aa'', source_output_index = 0, unlocking_script = None, sequence = 0\<rparr>],
              outputs = [\<lparr>locking_script = [81], tx_satoshis = 900\<rparr>]\<rparr>"

definition head_ctx :: submit_ctx where
  "head_ctx = \<lparr>c_tx = head_tx, c_txid = ''bb'', c_beef = [1], c_named_beef = [2], c_off_chain = None,
               c_finalize = False\<rparr>"

definition head_validation :: topic_validation where
  "head_validation =
     (blank_validation ''tm_a'')\<lparr>v_previous_coins := [0], v_previous_outputs := [head_coin],
        v_admittance := \<lparr>outputs_to_admit = [0], coins_to_retain = [], coins_removed = None\<rparr>\<rparr>"

definition fault_at :: "nat \<Rightarrow> engine_env" where
  "fault_at k = \<lparr>e_outcome = (\<lambda>n. if n = k then Fault_before ''down'' else Done), e_clock = (\<lambda>_. 0), e_services = []\<rparr>"

definition no_faults :: engine_env where
  "no_faults = \<lparr>e_outcome = (\<lambda>_. Done), e_clock = (\<lambda>_. 0), e_services = []\<rparr>"

definition head_rank :: "txid \<Rightarrow> nat" where
  "head_rank t = (if t = ''bb'' then 1 else 0)"

definition faultless :: "engine_env \<Rightarrow> bool" where
  "faultless env = (\<forall>n. e_outcome env n = Done)"

definition unspent_at :: "memory_storage \<Rightarrow> okey \<Rightarrow> bool" where
  "unspent_at s k = (\<exists>r. row s k = Some r \<and> \<not> spent r)"

lemma head_row: "row (w_store head_world) k = (if k = (''aa'', 0, ''tm_a'') then Some head_coin else None)"
  by (simp add: head_world_def row_def tbl_get_def)

lemma head_ok: "submit_ok head_rank head_ctx head_validation (w_store head_world)"
proof -
  have "keyed (w_store head_world)" "ranked head_rank (w_store head_world)"
    unfolding keyed_def ranked_def by (auto simp: head_row key_of_def head_coin_def consumes_below_def)
  then show ?thesis
    by (auto simp: submit_ok_def head_validation_def blank_validation_def head_ctx_def head_rank_def head_coin_def head_row)
qed

lemma fault_at_single: "single_fault (fault_at k)"
  by (simp add: single_fault_def fault_at_def)

lemma faultless_single: "faultless env \<Longrightarrow> single_fault env \<and> \<not> fault_between env a b"
  by (simp add: faultless_def single_fault_def fault_between_def)

lemma apply_mutated: "mutated waits v \<Longrightarrow> apply_topic env c waits v w = mutate_topic env c v w"
  by (simp add: apply_topic_def mutated_def Let_def)

lemma head_mutated: "mutated (\<lambda>_. None) head_validation"
  by (simp add: mutated_def head_validation_def blank_validation_def)

text \<open>
  C1: the mutation of a topic is atomic against any one faulted call, of storage or of a lookup service,
  landed or not. It ends applied, with every admitted output held and every stale coin nothing consumed
  gone; or it ends with a fault reported, no applied record and the pair remembered as not landed, and
  then either every row is as it was (previous coins at most marked spent, nothing of the transaction
  held) or every admitted output is held and every stale coin is spent or gone.
\<close>

theorem submit_topic_atomic:
  assumes "single_fault env" "submit_ok rk c v (w_store w)" "mutated waits v"
  shows "let w' = apply_topic env c waits v w in
     (ends_applied c v w w' \<and> landed c v w' \<and> gone_after (v_topic v) (stale_coins v) (w_store w) (w_store w')) \<or>
     (ends_held env c v w w' \<and> same_rows (previous_keys v) (w_store w) (w_store w')) \<or>
     (ends_held env c v w w' \<and> landed c v w' \<and> stale_closed v (w_store w) (w_store w'))"
  using mutate_topic_ends [OF assms(2), of env] assms(1) apply_mutated [OF assms(3)]
  by (auto simp: atomic_end_def Let_def)

theorem submit_topic_atomic_witness:
  "let w' = apply_topic (fault_at 1) head_ctx (\<lambda>_. None) head_validation head_world in
     (ends_applied head_ctx head_validation head_world w' \<and> landed head_ctx head_validation w' \<and>
      gone_after (v_topic head_validation) (stale_coins head_validation) (w_store head_world) (w_store w')) \<or>
     (ends_held (fault_at 1) head_ctx head_validation head_world w' \<and>
      same_rows (previous_keys head_validation) (w_store head_world) (w_store w')) \<or>
     (ends_held (fault_at 1) head_ctx head_validation head_world w' \<and> landed head_ctx head_validation w' \<and>
      stale_closed head_validation (w_store head_world) (w_store w'))"
  by (rule submit_topic_atomic [OF fault_at_single head_ok head_mutated])

text \<open>
  C2: whatever calls fault, in any number, a topic recorded as applied has landed. If the mutation adds an
  applied topic, then it reported no fault, the applied row is there, the pair is not remembered as not
  landed, every admitted output is held and every stale coin that nothing consumed is gone. Otherwise the
  topic is held back: a fault is reported, a call of the mutation did fault, and the pair is remembered as
  not landed. A call whose error the code drops (the lookup services told of a deleted coin, the deletes
  below the first level) may fault unreported: the topic still counts as applied, and still has landed.
\<close>

theorem applied_means_landed:
  assumes "submit_ok rk c v (w_store w)" "mutated waits v"
  shows "let w' = apply_topic env c waits v w in
     if applied_topics (w_report w') \<noteq> applied_topics (w_report w)
     then ends_applied c v w w' \<and> landed c v w' \<and> gone_after (v_topic v) (stale_coins v) (w_store w) (w_store w')
     else ends_held env c v w w'"
  using mutate_topic_ends [OF assms(1), of env] apply_mutated [OF assms(2)]
  by (auto simp: atomic_end_def Let_def ends_applied_def ends_held_def)

theorem applied_means_landed_witness:
  "let w' = apply_topic (fault_at 0) head_ctx (\<lambda>_. None) head_validation head_world in
     if applied_topics (w_report w') \<noteq> applied_topics (w_report head_world)
     then ends_applied head_ctx head_validation head_world w' \<and> landed head_ctx head_validation w' \<and>
       gone_after (v_topic head_validation) (stale_coins head_validation) (w_store head_world) (w_store w')
     else ends_held (fault_at 0) head_ctx head_validation head_world w'"
  by (rule applied_means_landed [OF head_ok head_mutated])

text \<open>
  C3: with no fault a submitted topic lands: it is recorded as applied, every admitted output is held
  and every stale coin that nothing consumed is gone.
\<close>

theorem faultless_submit_lands:
  assumes "faultless env" "submit_ok rk c v (w_store w)" "mutated waits v"
  shows "let w' = apply_topic env c waits v w in
     ends_applied c v w w' \<and> landed c v w' \<and> gone_after (v_topic v) (stale_coins v) (w_store w) (w_store w')"
  using mutate_topic_ends [OF assms(2), of env] faultless_single [OF assms(1)] apply_mutated [OF assms(3)]
  by (auto simp: atomic_end_def Let_def ends_held_def)

theorem faultless_submit_lands_witness:
  "let w' = apply_topic no_faults head_ctx (\<lambda>_. None) head_validation head_world in
     ends_applied head_ctx head_validation head_world w' \<and> landed head_ctx head_validation w' \<and>
     gone_after (v_topic head_validation) (stale_coins head_validation) (w_store head_world) (w_store w')"
  by (rule faultless_submit_lands [OF _ head_ok head_mutated]) (simp add: faultless_def no_faults_def)

text \<open>
  C4: a chain that keeps one head, spending it for the next and retaining nothing, never has two unspent
  heads after a submit in which at most one call faulted, and never loses both: the coin or its
  successor is held.
\<close>

theorem head_chain_single:
  assumes "single_fault env" "submit_ok rk c v (w_store w)" "mutated waits v"
    and "v_previous_coins v = [i]" "v_previous_outputs v = [coin]" "coins_to_retain (v_admittance v) = []"
    and "outputs_to_admit (v_admittance v) = [j]"
    and "row (w_store w) (coin_key (v_topic v) coin) = Some coin" "consumed_by coin = []"
  shows "let s' = w_store (apply_topic env c waits v w) in
     \<not> (unspent_at s' (coin_key (v_topic v) coin) \<and> unspent_at s' (c_txid c, j, v_topic v)) \<and>
     (row s' (coin_key (v_topic v) coin) \<noteq> None \<or> row s' (c_txid c, j, v_topic v) \<noteq> None)"
proof -
  let ?w' = "mutate_topic env c v w" let ?k = "coin_key (v_topic v) coin" let ?n = "(c_txid c, j, v_topic v)"
  have stale: "stale_coins v = [coin]" using assms(4-6) by (simp add: stale_coins_def prevs_def)
  have fresh: "row (w_store w) ?n = None" using assms(2,7) by (simp add: submit_ok_def)
  have "?n \<noteq> ?k" using assms(8) fresh by auto
  then have nk: "?n \<notin> previous_keys v" using assms(5) by (simp add: previous_keys_def)
  have goal: "\<not> (unspent_at s' ?k \<and> unspent_at s' ?n) \<and> (row s' ?k \<noteq> None \<or> row s' ?n \<noteq> None)"
    if "(row s' ?k = None \<and> row s' ?n \<noteq> None) \<or> (row s' ?k \<noteq> None \<and> row s' ?n = None) \<or>
        (row s' ?n \<noteq> None \<and> closed s' ?k)" for s'
    using that by (auto simp: unspent_at_def closed_def)
  from mutate_topic_ends [OF assms(2), of env] consider
      "landed c v ?w'" "gone_after (v_topic v) (stale_coins v) (w_store w) (w_store ?w')"
    | "same_rows (previous_keys v) (w_store w) (w_store ?w')"
    | "landed c v ?w'" "stale_closed v (w_store w) (w_store ?w')"
    using assms(1) by (auto simp: atomic_end_def)
  then have "(row (w_store ?w') ?k = None \<and> row (w_store ?w') ?n \<noteq> None) \<or>
      (row (w_store ?w') ?k \<noteq> None \<and> row (w_store ?w') ?n = None) \<or>
      (row (w_store ?w') ?n \<noteq> None \<and> closed (w_store ?w') ?k)"
  proof cases
    case 1
    then show ?thesis using stale assms(7-9) by (auto simp: landed_def gone_after_def)
  next
    case 2
    then have "row (w_store ?w') ?n = None" using nk fresh unfolding same_rows_def by metis
    moreover have "row (w_store ?w') ?k \<noteq> None" using same_rows_None [OF 2] assms(8) by simp
    ultimately show ?thesis by simp
  next
    case 3
    then show ?thesis using stale assms(7-9) by (auto simp: landed_def stale_closed_def)
  qed
  from goal [OF this] show ?thesis using apply_mutated [OF assms(3)] by (simp add: Let_def)
qed

theorem head_chain_single_witness:
  "let s' = w_store (apply_topic (fault_at 2) head_ctx (\<lambda>_. None) head_validation head_world) in
     \<not> (unspent_at s' (coin_key (v_topic head_validation) head_coin) \<and>
        unspent_at s' (c_txid head_ctx, 0, v_topic head_validation)) \<and>
     (row s' (coin_key (v_topic head_validation) head_coin) \<noteq> None \<or>
      row s' (c_txid head_ctx, 0, v_topic head_validation) \<noteq> None)"
  by (rule head_chain_single [OF fault_at_single head_ok head_mutated])
    (simp_all add: head_validation_def blank_validation_def head_row coin_key_def head_coin_def)

subsection \<open>The replay\<close>

text \<open>What a faultless read of the inputs finds: the index and the row of every input the topic holds.\<close>

fun scan_inputs :: "memory_storage \<Rightarrow> topic \<Rightarrow> nat \<Rightarrow> tx_input list \<Rightarrow> (nat \<times> Output) list" where
  "scan_inputs s tp i [] = []"
| "scan_inputs s tp i (inp # rest) =
     (case (if source_txid inp = [] then None else row s (source_txid inp, source_output_index inp, tp)) of
        None \<Rightarrow> scan_inputs s tp (Suc i) rest
      | Some r \<Rightarrow> (i, r) # scan_inputs s tp (Suc i) rest)"

lemma previous_coins_faultless:
  "faultless env \<Longrightarrow> \<exists>w'. previous_coins_loop env tp i ins w = (w', scan_inputs (w_store w) tp i ins, None) \<and>
     w_store w' = w_store w"
proof (induction ins arbitrary: i w)
  case (Cons inp ins)
  have rd: "read_topic_output env t j tp w = (tick w, Inr (row (w_store w) (t, j, tp)))" for t j
    using Cons.prems by (simp add: read_topic_output_def store_read_def faultless_def find_output_row)
  show ?case
    using Cons.IH [OF Cons.prems, of "Suc i" w] Cons.IH [OF Cons.prems, of "Suc i" "tick w"]
    by (auto simp: rd split: option.splits)
qed simp

lemma scan_same_rows:
  "same_rows K s s' \<Longrightarrow>
     map (\<lambda>(i, r). (i, r\<lparr>spent := True\<rparr>)) (scan_inputs s' tp i ins) =
     map (\<lambda>(i, r). (i, r\<lparr>spent := True\<rparr>)) (scan_inputs s tp i ins)"
proof (induction ins arbitrary: i)
  case (Cons inp ins)
  let ?k = "(source_txid inp, source_output_index inp, tp)"
  have "as_spent (row s' ?k) = as_spent (row s ?k)" using Cons.prems unfolding same_rows_def by blast
  then show ?case
    using Cons.IH [OF Cons.prems, of "Suc i"] by (auto simp: as_spent_def split: option.splits)
qed simp

lemma same_rows_submit_ok: "same_rows K s s' \<Longrightarrow> submit_ok rk c v s \<Longrightarrow> submit_ok rk c v s'"
  using same_rows_keyed same_rows_ranked same_rows_None unfolding submit_ok_def by blast

lemma map_fst_marked: "map fst (map (\<lambda>(i, r). (i, r\<lparr>spent := True\<rparr>)) xs) = map fst xs"
  by (simp add: case_prod_unfold)

lemma map_snd_marked: "map snd (map (\<lambda>(i, r). (i, r\<lparr>spent := True\<rparr>)) xs) = map (spent_update (\<lambda>_. True)) (map snd xs)"
  by (simp add: case_prod_unfold)

lemma previous_coins_unfaulted:
  "previous_coins_loop env tp i ins w = (w', found, rf) \<Longrightarrow>
     w_store w' = w_store w \<and> (rf = None \<longrightarrow> found = scan_inputs (w_store w) tp i ins)"
proof (induction ins arbitrary: i w w' found rf)
  case (Cons inp ins)
  obtain w1 x where rd: "read_topic_output env (source_txid inp) (source_output_index inp) tp w = (w1, x)" by fastforce
  note fr = read_topic_output_frame [OF rd]
  show ?case
  proof (cases "source_txid inp = []")
    case True
    with Cons show ?thesis by simp
  next
    case False
    obtain w2 found2 rf2 where l: "previous_coins_loop env tp (Suc i) ins w1 = (w2, found2, rf2)" by (rule prod_cases3)
    show ?thesis
      using Cons.prems Cons.IH [OF l] rd l fr False read_topic_output_row [of env _ _ tp w w1]
      by (auto split: sum.splits option.splits)
  qed
qed simp

text \<open>
  What the replay is stated over: a store whose rows are ranked, in which the topic neither holds an output
  of the transaction nor has it recorded, and a transaction ranked above the ones it spends.
\<close>

definition topic_fresh :: "(txid \<Rightarrow> nat) \<Rightarrow> submit_ctx \<Rightarrow> topic \<Rightarrow> memory_storage \<Rightarrow> bool" where
  "topic_fresh rk c tp s =
     (keyed s \<and> ranked rk s \<and> (\<forall>inp \<in> set (inputs (c_tx c)). rk (source_txid inp) < rk (c_txid c)) \<and>
      (\<forall>i. row s (c_txid c, i, tp) = None) \<and> \<not> does_applied_transaction_exist s (c_txid c) tp)"

lemma scan_rows:
  "keyed s \<Longrightarrow> (j, r) \<in> set (scan_inputs s tp i ins) \<Longrightarrow> out_txid r \<in> source_txid ` set ins"
  by (induction ins arbitrary: i) (auto split: if_splits option.splits dest: keyedD simp: key_of_def)

lemma scan_ok:
  assumes "topic_fresh rk c tp s" "v_topic v = tp"
    and "v_previous_outputs v = map snd (scan_inputs s tp 0 (inputs (c_tx c)))"
  shows "submit_ok rk c v s"
  using assms scan_rows [of s] by (fastforce simp: submit_ok_def topic_fresh_def)

lemma validate_topic_cases:
  assumes "validate_topic env judge tx t tp w = (w', v)"
  shows "w_store w' = w_store w" "v_topic v = tp"
    "\<not> v_is_dupe v \<Longrightarrow> \<not> v_failed v \<Longrightarrow> v_read_fault v = None \<Longrightarrow>
       \<not> does_applied_transaction_exist (w_store w) t tp
       \<and> judge tx tp (map fst (scan_inputs (w_store w) tp 0 (inputs tx))) = Inr (v_admittance v)
       \<and> v_previous_outputs v = map snd (scan_inputs (w_store w) tp 0 (inputs tx))"
proof -
  obtain w1 x where rd: "store_read env (\<lambda>s. does_applied_transaction_exist s t tp) w = (w1, x)" by fastforce
  obtain w2 found rf where l: "previous_coins_loop env tp 0 (inputs tx) w1 = (w2, found, rf)" by (rule prod_cases3)
  have "w_store w1 = w_store w" using store_read_frame [OF rd] by simp
  moreover have "x = Inr b \<Longrightarrow> b = does_applied_transaction_exist (w_store w) t tp" for b
    using store_read_Inr [of env _ w w1 b] rd by blast
  ultimately show "w_store w' = w_store w" "v_topic v = tp"
    "\<not> v_is_dupe v \<Longrightarrow> \<not> v_failed v \<Longrightarrow> v_read_fault v = None \<Longrightarrow>
       \<not> does_applied_transaction_exist (w_store w) t tp
       \<and> judge tx tp (map fst (scan_inputs (w_store w) tp 0 (inputs tx))) = Inr (v_admittance v)
       \<and> v_previous_outputs v = map snd (scan_inputs (w_store w) tp 0 (inputs tx))"
    using assms rd l previous_coins_unfaulted [OF l]
    by (auto simp: validate_topic_def blank_validation_def split: sum.splits bool.splits)
qed

lemma validate_topic_faultless:
  assumes "faultless env" "\<not> does_applied_transaction_exist (w_store w) t tp"
    and "judge tx tp (map fst (scan_inputs (w_store w) tp 0 (inputs tx))) = Inr a"
  shows "\<exists>w'. validate_topic env judge tx t tp w =
      (w', (blank_validation tp)\<lparr>v_previous_coins := map fst (scan_inputs (w_store w) tp 0 (inputs tx)),
             v_previous_outputs := map snd (scan_inputs (w_store w) tp 0 (inputs tx)), v_admittance := a\<rparr>)
    \<and> w_store w' = w_store w"
proof -
  have rd: "store_read env (\<lambda>s. does_applied_transaction_exist s t tp) w = (tick w, Inr False)"
    using assms(1,2) by (simp add: store_read_def faultless_def)
  obtain w' where "previous_coins_loop env tp 0 (inputs tx) (tick w) = (w', scan_inputs (w_store w) tp 0 (inputs tx), None)"
    "w_store w' = w_store w"
    using previous_coins_faultless [OF assms(1), of tp 0 "inputs tx" "tick w"] by auto
  then show ?thesis using assms(3) by (simp add: validate_topic_def rd blank_validation_def)
qed

lemma apply_unmutated: "\<not> mutated waits v \<Longrightarrow> w_store (apply_topic env c waits v w) = w_store w"
  by (auto simp: apply_topic_def mutated_def Let_def push_deduped_def split: option.splits prod.splits)

text \<open>One faulted call in either phase, an admitted output not held: rows as before, no applied row.\<close>

lemma not_landed_leaves:
  assumes "single_fault env" "topic_fresh rk c tp (w_store w)"
    and "judge (c_tx c) tp (map fst (scan_inputs (w_store w) tp 0 (inputs (c_tx c)))) = Inr a"
    and v: "validate_topic env judge (c_tx c) (c_txid c) tp w = (w1, v)"
    and "i \<in> set (outputs_to_admit a)" "row (w_store (apply_topic env c waits v w1)) (c_txid c, i, tp) = None"
  shows "(\<exists>K. same_rows K (w_store w) (w_store (apply_topic env c waits v w1))) \<and>
    \<not> does_applied_transaction_exist (w_store (apply_topic env c waits v w1)) (c_txid c) tp"
proof (cases "mutated waits v")
  case False
  then have "w_store (apply_topic env c waits v w1) = w_store w"
    using validate_topic_cases(1) [OF v] by (simp add: apply_unmutated)
  then show ?thesis using assms(2) same_rows_refl by (auto simp: topic_fresh_def)
next
  case True
  note vc = validate_topic_cases [OF v]
  have v3: "v_admittance v = a" "v_previous_outputs v = map snd (scan_inputs (w_store w) tp 0 (inputs (c_tx c)))"
    using vc(3) True assms(3) by (auto simp: mutated_def)
  have ok: "submit_ok rk c v (w_store w1)" using scan_ok [OF assms(2) vc(2) v3(2)] vc(1) by simp
  have ap: "apply_topic env c waits v w1 = mutate_topic env c v w1" using apply_mutated [OF True] .
  have nl: "\<not> landed c v (mutate_topic env c v w1)"
    using assms(5,6) vc(2) v3(1) unfolding ap landed_def by metis
  have "same_rows (previous_keys v) (w_store w) (w_store (mutate_topic env c v w1))"
    using mutate_topic_ends [OF ok, of env] assms(1) nl vc(1) by (auto simp: atomic_end_def)
  moreover have "\<not> does_applied_transaction_exist (w_store (mutate_topic env c v w1)) (c_txid c) tp"
    using mutate_topic_applied [OF ok nl] vc(1,2) assms(2) by (simp add: topic_fresh_def)
  ultimately show ?thesis unfolding ap by blast
qed

lemma same_rows_fresh:
  assumes "topic_fresh rk c tp s" "same_rows K s s'" "\<not> does_applied_transaction_exist s' (c_txid c) tp"
  shows "topic_fresh rk c tp s'"
  using assms same_rows_keyed same_rows_ranked same_rows_None unfolding topic_fresh_def by blast

text \<open>
  C5: a submit that one fault kept from landing is judged the same when it is replayed, and lands. The first
  submit runs Phase 1 and Phase 3 of a topic that neither holds nor has recorded the transaction, with at most
  one call faulted anywhere in the two, and ends with an admitted output not held. Then the replay, whose calls
  do not fault and which the successor rule does not hold back, is not answered as a dupe; it finds the coins
  of the same inputs in the same order, the same but for the spent mark; the topic manager, which is given
  those indices, answers as it would have the first time; and the topic ends applied with every admitted
  output held.
\<close>

theorem replay_judged_the_same:
  assumes "single_fault env" "faultless env'" "topic_fresh rk c tp (w_store w)"
    and "judge (c_tx c) tp (map fst (scan_inputs (w_store w) tp 0 (inputs (c_tx c)))) = Inr a"
    and "validate_topic env judge (c_tx c) (c_txid c) tp w = (w1, v)" "w' = apply_topic env c waits v w1"
    and "i \<in> set (outputs_to_admit a)" "row (w_store w') (c_txid c, i, tp) = None" "waits' tp = None"
  shows "let found = scan_inputs (w_store w) tp 0 (inputs (c_tx c));
             (w2, v') = validate_topic env' judge (c_tx c) (c_txid c) tp w';
             w'' = apply_topic env' c waits' v' w2
         in \<not> v_is_dupe v' \<and> \<not> v_failed v' \<and> v_read_fault v' = None \<and>
            v_previous_coins v' = map fst found \<and> v_admittance v' = a \<and>
            map (spent_update (\<lambda>_. True)) (v_previous_outputs v') = map (spent_update (\<lambda>_. True)) (map snd found) \<and>
            ends_applied c v' w2 w'' \<and> landed c v' w''"
proof -
  obtain K where sr: "same_rows K (w_store w) (w_store w')"
    and na: "\<not> does_applied_transaction_exist (w_store w') (c_txid c) tp"
    using not_landed_leaves [OF assms(1,3,4,5,7)] assms(6,8) by blast
  let ?f = "scan_inputs (w_store w) tp 0 (inputs (c_tx c))" let ?f' = "scan_inputs (w_store w') tp 0 (inputs (c_tx c))"
  have m: "map (\<lambda>(i, r). (i, r\<lparr>spent := True\<rparr>)) ?f' = map (\<lambda>(i, r). (i, r\<lparr>spent := True\<rparr>)) ?f"
    using sr by (rule scan_same_rows)
  have f: "map fst ?f' = map fst ?f" using arg_cong [OF m, of "map fst"] unfolding map_fst_marked .
  have s: "map (spent_update (\<lambda>_. True)) (map snd ?f') = map (spent_update (\<lambda>_. True)) (map snd ?f)"
    using arg_cong [OF m, of "map snd"] unfolding map_snd_marked .
  let ?v' = "(blank_validation tp)\<lparr>v_previous_coins := map fst ?f', v_previous_outputs := map snd ?f', v_admittance := a\<rparr>"
  have bl: "v_topic ?v' = tp" "mutated waits' ?v'" using assms(9) by (simp_all add: mutated_def blank_validation_def)
  obtain w2 where w2: "validate_topic env' judge (c_tx c) (c_txid c) tp w' = (w2, ?v')" "w_store w2 = w_store w'"
    using validate_topic_faultless [of env' w' "c_txid c" tp judge "c_tx c" a] assms(2,4) na f by auto
  have ok: "submit_ok rk c ?v' (w_store w2)"
    using scan_ok [OF same_rows_fresh [OF assms(3) sr na] bl(1)] w2(2) by simp
  have "ends_applied c ?v' w2 (apply_topic env' c waits' ?v' w2) \<and> landed c ?v' (apply_topic env' c waits' ?v' w2)"
    using mutate_topic_ends [OF ok, of env'] faultless_single [OF assms(2)] apply_mutated [OF bl(2)]
    by (auto simp: atomic_end_def ends_held_def)
  then show ?thesis using w2(1) f s by (simp add: Let_def blank_validation_def)
qed

text \<open>A topic whose first insert faults: the marks before it all land, and the undo takes the insert back.\<close>

lemma tell_spent_done:
  "\<forall>n. w_calls w \<le> n \<and> n < w_calls w + length ls \<longrightarrow> e_outcome env n = Done \<Longrightarrow>
     \<exists>w'. tell_spent env c tp i prev ls w = (w', False) \<and> w_store w' = w_store w \<and> w_calls w' = w_calls w + length ls"
proof (induction ls arbitrary: w)
  case (Cons l ls)
  let ?n = "Told_Spent (ls_name l) (spend_payload c tp i prev (ls_spend_mode l))"
  let ?w = "tick (w\<lparr>w_log := w_log w @ [?n]\<rparr>)"
  have t: "tell env ?n w = (?w, None)" using Cons.prems by (simp add: tell_def)
  have "\<forall>n. w_calls ?w \<le> n \<and> n < w_calls ?w + length ls \<longrightarrow> e_outcome env n = Done" using Cons.prems by auto
  from Cons.IH [OF this] show ?case by (auto simp: t)
qed simp

lemma mark_loop_done:
  "\<forall>n. w_calls w \<le> n \<and> n < w_calls w + length ps * Suc (length (e_services env)) \<longrightarrow> e_outcome env n = Done \<Longrightarrow>
     \<exists>w'. mark_loop env c tp keep ps w = (w', False, False)
       \<and> w_calls w' = w_calls w + length ps * Suc (length (e_services env))
       \<and> (\<forall>k. closed (w_store w) k \<or> k \<in> coin_key tp ` snd ` set ps \<longrightarrow> closed (w_store w') k)"
proof (induction ps arbitrary: w)
  case (Cons p ps)
  obtain i prev where p: "p = (i, prev)" by fastforce
  let ?w1 = "tick (w\<lparr>w_store := mark_utxo_as_spent (out_txid prev) (output_index prev) tp (w_store w)\<rparr>)"
  have wr: "store_write env (mark_utxo_as_spent (out_txid prev) (output_index prev) tp) w = (?w1, None)"
    using Cons.prems by (simp add: store_write_def)
  obtain w2 where t: "tell_spent env c tp i prev (e_services env) ?w1 = (w2, False)" "w_store w2 = w_store ?w1"
    "w_calls w2 = Suc (w_calls w) + length (e_services env)"
    using tell_spent_done [of ?w1 "e_services env" env c tp i prev] Cons.prems by auto
  have "\<forall>n. w_calls w2 \<le> n \<and> n < w_calls w2 + length ps * Suc (length (e_services env)) \<longrightarrow> e_outcome env n = Done"
    using Cons.prems t(3) by auto
  from Cons.IH [OF this] obtain w' where w': "mark_loop env c tp keep ps w2 = (w', False, False)"
    "w_calls w' = w_calls w2 + length ps * Suc (length (e_services env))"
    "\<forall>k. closed (w_store w2) k \<or> k \<in> coin_key tp ` snd ` set ps \<longrightarrow> closed (w_store w') k" by blast
  have c2: "closed (w_store w2) k" if "closed (w_store w) k \<or> k = coin_key tp prev" for k
    using that closed_mark(1) [of "w_store w" k] closed_mark(2) t(2) by (auto simp: coin_key_def)
  have "closed (w_store w') k" if k: "closed (w_store w) k \<or> k \<in> coin_key tp ` snd ` set (p # ps)" for k
  proof -
    consider "closed (w_store w2) k" | "k \<in> coin_key tp ` snd ` set ps" using k c2 [of k] p by auto
    then show ?thesis using w'(3) by blast
  qed
  moreover have "mark_loop env c tp keep (p # ps) w = (w', False, False)" using w'(1) t(1) wr p by (simp add: Let_def)
  moreover have "w_calls w' = w_calls w + length (p # ps) * Suc (length (e_services env))" using w'(2) t(3) by simp
  ultimately show ?case by blast
qed simp

text \<open>
  C39: between a faulted insert and its replay a topic lists no head. When the one call that faults in a
  topic's mutation is the insert of its first admitted output, whether or not the insert landed, the mutation
  ends with every previous coin marked spent or gone, retained ones included, and no admitted output held. A
  chain of one head then shows no unspent head until the submit is sent again.
\<close>

theorem head_gap_after_insert_fault:
  assumes "submit_ok rk c v (w_store w)" "mutated waits v" "outputs_to_admit (v_admittance v) \<noteq> []"
    and "\<forall>n. e_outcome env n = Done \<longleftrightarrow> n \<noteq> w_calls w + length (prevs v) * Suc (length (e_services env))"
  shows "let s' = w_store (apply_topic env c waits v w) in
     (\<forall>(i, coin) \<in> set (prevs v). \<not> unspent_at s' (coin_key (v_topic v) coin)) \<and>
     (\<forall>j \<in> set (outputs_to_admit (v_admittance v)). row s' (c_txid c, j, v_topic v) = None)"
proof -
  let ?tp = "v_topic v" let ?t = "c_txid c" let ?a = "v_admittance v"
  obtain j js where j: "outputs_to_admit ?a = j # js" using assms(3) by (cases "outputs_to_admit ?a") auto
  have "\<forall>n. w_calls w \<le> n \<and> n < w_calls w + length (prevs v) * Suc (length (e_services env)) \<longrightarrow> e_outcome env n = Done"
    using assms(4) by auto
  from mark_loop_done [OF this, of c ?tp "coins_to_retain ?a"] obtain w1 where
    m: "mark_loop env c ?tp (coins_to_retain ?a) (prevs v) w = (w1, False, False)"
    and calls: "w_calls w1 = w_calls w + length (prevs v) * Suc (length (e_services env))"
    and cl: "\<forall>k. k \<in> coin_key ?tp ` snd ` set (prevs v) \<longrightarrow> closed (w_store w1) k" by blast
  obtain w2 e where wr: "store_write env (insert_output_with_origin (new_output env c ?tp (outputs_consumed_of v) j w1) (c_finalize c)) w1
      = (w2, Some e)" using assms(4) calls by (cases "e_outcome env (w_calls w1)") (auto simp: store_write_def)
  have l: "insert_loop env c ?tp (outputs_consumed_of v) (outputs_to_admit ?a) w1
      = (report_fault ?tp ''insert_output'' e w2, [], [j], True)" by (simp add: j wr)
  let ?w = "report_fault ?tp ''insert_output'' e w2"
  note sr = mark_loop_run [OF m subset_refl]
  have fresh: "row (w_store w1) (?t, i, ?tp) = None" if "i \<in> set (outputs_to_admit ?a)" for i
    using that assms(1) sr same_rows_None unfolding submit_ok_def by metis
  have clean: "clean_from env (w_calls ?w)"
    using assms(4) calls store_write_calls [OF wr] by (simp add: clean_from_def)
  have rows: "row (w_store (undo_inserts env ?t ?tp [j] ?w)) = row (w_store w1)"
    using insert_loop_run [OF l] fresh j by (intro undo_adds [OF _ clean]) auto
  have s': "row (w_store (apply_topic env c waits v w)) = row (w_store w1)"
    using rows m l by (simp add: apply_mutated [OF assms(2)] mutate_topic_def Let_def)
  have "\<not> unspent_at (w_store (apply_topic env c waits v w)) (coin_key ?tp coin)" if "(i, coin) \<in> set (prevs v)" for i coin
  proof -
    have "coin_key ?tp coin \<in> coin_key ?tp ` snd ` set (prevs v)" using that by (metis image_eqI snd_conv)
    then have "closed (w_store w1) (coin_key ?tp coin)" using cl by blast
    then show ?thesis by (auto simp: unspent_at_def closed_def s')
  qed
  then show ?thesis using fresh by (auto simp: Let_def s')
qed

theorem head_gap_after_insert_fault_witness:
  "let s' = w_store (apply_topic (fault_at 1) head_ctx (\<lambda>_. None) head_validation head_world) in
     \<not> unspent_at s' (''aa'', 0, ''tm_a'') \<and> row s' (''bb'', 0, ''tm_a'') = None"
proof -
  have "\<forall>n. e_outcome (fault_at 1) n = Done \<longleftrightarrow>
      n \<noteq> w_calls head_world + length (prevs head_validation) * Suc (length (e_services (fault_at 1)))"
    by (simp add: fault_at_def head_world_def prevs_def head_validation_def)
  moreover have "outputs_to_admit (v_admittance head_validation) \<noteq> []" by (simp add: head_validation_def)
  ultimately show ?thesis
    using head_gap_after_insert_fault [OF head_ok head_mutated, of "fault_at 1"]
    by (simp add: Let_def prevs_def head_validation_def blank_validation_def head_ctx_def coin_key_def head_coin_def)
qed

text \<open>The replay of the head chain after its insert, the fourth call of the submit, faulted.\<close>

definition head_judge :: judge where
  "head_judge tx tp coins = Inr \<lparr>outputs_to_admit = [0], coins_to_retain = [], coins_removed = None\<rparr>"

definition head_first :: world where
  "head_first = (case validate_topic (fault_at 3) head_judge head_tx ''bb'' ''tm_a'' head_world of
     (w1, v) \<Rightarrow> apply_topic (fault_at 3) head_ctx (\<lambda>_. None) v w1)"

lemma head_first_gap: "row (w_store head_first) (''bb'', 0, ''tm_a'') = None"
  by code_simp

lemma head_fresh: "topic_fresh head_rank head_ctx ''tm_a'' (w_store head_world)"
proof -
  have "\<not> does_applied_transaction_exist (w_store head_world) ''bb'' ''tm_a''"
    by (simp add: does_applied_transaction_exist_def head_world_def ms_new_def)
  then show ?thesis
    using head_ok by (simp add: topic_fresh_def submit_ok_def head_row) (simp add: head_ctx_def head_tx_def head_rank_def)
qed

theorem replay_judged_the_same_witness:
  "let (w2, v') = validate_topic no_faults head_judge head_tx ''bb'' ''tm_a'' head_first;
       w'' = apply_topic no_faults head_ctx (\<lambda>_. None) v' w2
   in \<not> v_is_dupe v' \<and> v_previous_coins v' = [0] \<and> ends_applied head_ctx v' w2 w'' \<and> landed head_ctx v' w''"
proof -
  obtain w1 v where v: "validate_topic (fault_at 3) head_judge head_tx ''bb'' ''tm_a'' head_world = (w1, v)" by fastforce
  have sc: "scan_inputs (w_store head_world) ''tm_a'' 0 (inputs head_tx) = [(0, head_coin)]"
    by (simp add: head_tx_def head_row)
  have "head_first = apply_topic (fault_at 3) head_ctx (\<lambda>_. None) v w1" by (simp add: head_first_def v)
  moreover have "faultless no_faults" by (simp add: faultless_def no_faults_def)
  ultimately show ?thesis
    using replay_judged_the_same [OF fault_at_single _ head_fresh, of no_faults head_judge
        "\<lparr>outputs_to_admit = [0], coins_to_retain = [], coins_removed = None\<rparr>" 3 w1 v head_first "\<lambda>_. None" 0 "\<lambda>_. None"]
      v head_first_gap
    by (auto simp: head_ctx_def head_judge_def sc Let_def)
qed

subsection \<open>Dupes\<close>

text \<open>
  A transaction already applied in a topic is a dupe there: when its applied row is read, Phase 1
  finds it before the topic manager is asked, and Phase 3 then writes nothing, tells no lookup service
  and reports the topic as deduped.
\<close>

theorem applied_replay_is_noop:
  assumes "does_applied_transaction_exist (w_store w) (c_txid c) tp" "e_outcome env (w_calls w) = Done"
  shows "let (w1, v) = validate_topic env judge (c_tx c) (c_txid c) tp w; w2 = apply_topic env c waits v w1
         in w_store w2 = w_store w \<and> w_log w2 = w_log w \<and> w_not_landed w2 = w_not_landed w \<and>
            faults (w_report w2) = faults (w_report w) \<and>
            deduped_topics (w_report w2) = deduped_topics (w_report w) @ [tp]"
  using assms
  by (simp add: validate_topic_def store_read_def apply_topic_def blank_validation_def push_deduped_def Let_def)

theorem applied_replay_is_noop_witness:
  "let w = head_world\<lparr>w_store := insert_applied_transaction ''bb'' ''tm_a'' (w_store head_world)\<rparr>;
       (w1, v) = validate_topic no_faults (\<lambda>_ _ _. Inl ''no'') head_tx ''bb'' ''tm_a'' w;
       w2 = apply_topic no_faults head_ctx (\<lambda>_. None) v w1
   in w_store w2 = w_store w \<and> w_log w2 = w_log w"
proof -
  let ?w = "head_world\<lparr>w_store := insert_applied_transaction ''bb'' ''tm_a'' (w_store head_world)\<rparr>"
  have "does_applied_transaction_exist (w_store ?w) (c_txid head_ctx) ''tm_a''"
    by (simp add: does_applied_transaction_exist_def insert_applied_transaction_def head_ctx_def)
  moreover have "e_outcome no_faults (w_calls ?w) = Done" by (simp add: no_faults_def)
  ultimately show ?thesis
    using applied_replay_is_noop [of ?w head_ctx "''tm_a''" no_faults "\<lambda>_ _ _. Inl ''no''" "\<lambda>_. None"]
    by (auto simp: Let_def head_ctx_def)
qed

subsection \<open>The recursive delete\<close>

text \<open>
  C10: deleting a held coin with what it consumed ends, whatever faults: a depth past the number of rows
  held is enough. It only takes rows out and consumers off rows, never touches a row of a transaction
  ranked above the coin's (the transaction that spends it), and when it answers no error a coin that
  nothing consumed is gone.
\<close>

theorem deep_delete_ends:
  assumes "keyed (w_store w)" "ranked rk (w_store w)" "row (w_store w) k = Some r"
    and "n > length (ms_outputs (w_store w))"
  shows "\<exists>w' e. delete_utxo_deep env n r w = Some (w', e) \<and> shrinks (w_store w) (w_store w') \<and>
    (\<forall>k'. rk (out_txid r) < rk (fst k') \<longrightarrow> row (w_store w') k' = row (w_store w) k') \<and>
    (e \<noteq> None \<longrightarrow> fault_between env (w_calls w) (w_calls w')) \<and>
    (e = None \<and> consumed_by r = [] \<longrightarrow> row (w_store w') k = None)"
proof -
  have cb: "consumes_below rk r" using assms(2,3) by (rule rankedD)
  obtain w' e where d: "delete_utxo_deep env n r w = Some (w', e)"
    using delete_deep_ends [OF assms(1,2) cb assms(4)] by fast
  have run: "deep_run env w (w', e)" using d by (rule delete_deep_run(1))
  have "\<forall>k'. rk (out_txid r) < rk (fst k') \<longrightarrow> row (w_store w') k' = row (w_store w) k'"
    using deep_frame_all [of rk env n] d assms(1,2) cb unfolding deep_frame_def by (metis fst_conv)
  moreover have "e = None \<and> consumed_by r = [] \<longrightarrow> row (w_store w') k = None"
    using delete_deep_gone [of env "n - 1" r w w'] d keyedD [OF assms(1,3)] assms(4) by auto
  ultimately show ?thesis using d run by (auto simp: deep_run_def)
qed

theorem deep_delete_ends_witness:
  "\<exists>w' e. delete_utxo_deep no_faults 5 head_coin head_world = Some (w', e) \<and> shrinks (w_store head_world) (w_store w')"
proof -
  have "row (w_store head_world) (''aa'', 0, ''tm_a'') = Some head_coin" by (simp add: head_row)
  moreover have "keyed (w_store head_world)" "ranked head_rank (w_store head_world)"
    using head_ok by (auto simp: submit_ok_def)
  ultimately show ?thesis
    using deep_delete_ends [of head_world head_rank "(''aa'', 0, ''tm_a'')" head_coin 5 no_faults]
    by (auto simp: head_world_def)
qed

subsection \<open>The STEAK's removed coins\<close>

lemma map_filter_nth: "k \<le> length xs \<Longrightarrow>
  List.map_filter (\<lambda>i. if i < length xs then Some (xs ! i) else None) [0..<k] = take k xs"
proof -
  assume k: "k \<le> length xs"
  have "List.map_filter (\<lambda>i. if i < length xs then Some (xs ! i) else None) [0..<k] = map (\<lambda>i. xs ! i) [0..<k]"
    using k by (subst List.map_filter_def) (simp add: filter_id_conv comp_def)
  then show ?thesis using k by (simp add: list_eq_iff_nth_eq)
qed

lemma filter_is_prefix:
  "take (length (filter P xs)) xs = filter P xs \<longleftrightarrow> (\<exists>as bs. xs = as @ bs \<and> (\<forall>x \<in> set as. P x) \<and> (\<forall>x \<in> set bs. \<not> P x))"
proof
  assume t: "take (length (filter P xs)) xs = filter P xs"
  define a b where ab: "a = take (length (filter P xs)) xs" "b = drop (length (filter P xs)) xs"
  have xs: "xs = a @ b" by (simp add: ab)
  have a: "a = filter P xs" using t unfolding ab(1) .
  have P: "\<forall>x \<in> set a. P x" unfolding a by simp
  then have "filter P xs = a @ filter P b" unfolding xs by simp
  with a have "filter P b = []" by simp
  with P xs show "\<exists>as bs. xs = as @ bs \<and> (\<forall>x \<in> set as. P x) \<and> (\<forall>x \<in> set bs. \<not> P x)"
    unfolding filter_empty_conv by blast
qed (auto simp: filter_id_conv)

lemma stale_count:
  assumes "length (v_previous_coins v) = length (v_previous_outputs v)"
  shows "length (stale_coins v) = length (filter (\<lambda>i. i \<notin> set (coins_to_retain (v_admittance v))) (v_previous_coins v))"
proof -
  have "map fst (prevs v) = v_previous_coins v" using assms by (simp add: prevs_def)
  then have "filter (\<lambda>i. i \<notin> set (coins_to_retain (v_admittance v))) (v_previous_coins v) =
      filter (\<lambda>i. i \<notin> set (coins_to_retain (v_admittance v))) (map fst (prevs v))" by simp
  then show ?thesis by (simp add: stale_coins_def filter_map comp_def case_prod_unfold)
qed

text \<open>
  C40: when the STEAK names the right removed coins. The code pairs the \<open>i\<close>-th stale coin with the \<open>i\<close>-th
  previous coin, so what it names is the first previous coins, as many as are stale. These are the inputs
  whose coins were not retained exactly when every stale coin comes before every retained one: a topic that
  retains an input and lets a later one go reports the wrong inputs as removed.
\<close>

theorem steak_coins_removed_exact:
  assumes "length (v_previous_coins v) = length (v_previous_outputs v)"
  shows "steak_coins_removed v = take (length (stale_coins v)) (v_previous_coins v) \<and>
    (steak_coins_removed v = filter (\<lambda>i. i \<notin> set (coins_to_retain (v_admittance v))) (v_previous_coins v) \<longleftrightarrow>
     (\<exists>gone kept. v_previous_coins v = gone @ kept \<and> set gone \<inter> set (coins_to_retain (v_admittance v)) = {} \<and>
        set kept \<subseteq> set (coins_to_retain (v_admittance v))))"
proof -
  let ?P = "\<lambda>i. i \<notin> set (coins_to_retain (v_admittance v))"
  have n: "length (stale_coins v) = length (filter ?P (v_previous_coins v))" using assms by (rule stale_count)
  have t: "steak_coins_removed v = take (length (stale_coins v)) (v_previous_coins v)"
    unfolding steak_coins_removed_def by (rule map_filter_nth) (simp add: n)
  have "(\<forall>x \<in> set as. ?P x) = (set as \<inter> set (coins_to_retain (v_admittance v)) = {})"
    "(\<forall>x \<in> set as. \<not> ?P x) = (set as \<subseteq> set (coins_to_retain (v_admittance v)))" for as by auto
  with filter_is_prefix [of ?P "v_previous_coins v"] show ?thesis using t n by simp
qed

theorem steak_coins_removed_exact_witness:
  "let v = head_validation\<lparr>v_previous_coins := [0, 1], v_previous_outputs := [head_coin, head_coin\<lparr>output_index := 1\<rparr>],
             v_admittance := \<lparr>outputs_to_admit = [0], coins_to_retain = [0], coins_removed = None\<rparr>\<rparr>
   in steak_coins_removed v = [0] \<and> stale_coins v = [head_coin\<lparr>output_index := 1\<rparr>]"
  using steak_coins_removed_exact [of "head_validation\<lparr>v_previous_coins := [0, 1],
      v_previous_outputs := [head_coin, head_coin\<lparr>output_index := 1\<rparr>],
      v_admittance := \<lparr>outputs_to_admit = [0], coins_to_retain = [0], coins_removed = None\<rparr>\<rparr>"]
  by (simp add: stale_coins_def prevs_def Let_def)

end
