(* ===== verification/Door_Properties.thy ===== *)
theory Door_Properties
  imports Submit_Door Submit_Claims
begin

text \<open>
  What a whole submit promises, the landings of carried predecessors included: what every write of
  Phase 3 keeps is kept by the submit (\<open>kept_by_submit\<close>, interpreted on the storage invariant and on a
  recorded application), its reads beyond its own validation and writes stop at the allowance, the
  predecessors it reports as landed are recorded, and a topic it applies without its coins has nothing
  left to wait for.
\<close>

locale kept_by_submit = kept_by_writes +
  assumes applied: "P s \<Longrightarrow> P (insert_applied_transaction t tp s)"
begin

lemma deleted: "delete_loop env tp sts w = (w', x) \<Longrightarrow> P (w_store w) \<Longrightarrow> P (w_store w')"
proof (induction sts arbitrary: w x)
  case (Cons st sts)
  obtain w1 e where a: "store_write env (insert_applied_transaction (out_txid st) tp) w = (w1, e)" by fastforce
  have w1: "P (w_store w1)" using stored [OF a Cons.prems(2) applied] .
  show ?case
  proof (cases e)
    case (Some err)
    with Cons.prems a w1 show ?thesis by (auto split: prod.splits intro: Cons.IH)
  next
    case None
    obtain w2 y where rd: "read_topic_output env (out_txid st) (output_index st) tp (forget_not_landed (out_txid st) tp w1) = (w2, y)"
      by fastforce
    have w2: "P (w_store w2)" using read_output [OF rd] w1 by simp
    have "P (w_store w3)" if "delete_deep env r w2 = (w3, z)" for r w3 z using deep_deleted [OF that w2] .
    with Cons.prems a None rd w2 show ?thesis
      by (auto split: prod.splits sum.splits option.splits intro: Cons.IH)
  qed
qed simp

lemma finished: "P (w_store w) \<Longrightarrow> P (w_store (finish_topic env c tp n w))"
  by (auto simp: finish_topic_def push_applied_def split: prod.splits option.splits dest: stored [OF _ _ applied])

lemma settled: "P (w_store w) \<Longrightarrow> P (w_store (settle_topic env c v n new tried w))"
  by (auto simp: settle_topic_def Let_def split: prod.splits
      intro!: finished consumers undone dest: deleted held_read)

lemma mutated_kept: "P (w_store w) \<Longrightarrow> P (w_store (mutate_topic env c v w))"
  by (auto simp: mutate_topic_def Let_def split: prod.splits intro!: settled undone dest!: marked inserted)

lemma applied_kept: "P (w_store w) \<Longrightarrow> P (w_store (apply_topic env c waits v w))"
  by (auto simp: apply_topic_def Let_def push_deduped_def mutated_kept split: option.splits prod.splits)

lemma phase3_kept: "P (w_store w) \<Longrightarrow> P (w_store (phase3 env c waits vs w))"
  by (induction vs arbitrary: w) (auto simp: applied_kept)

lemma all_validated: "validate_all env judge tx t tps w = (w', vs) \<Longrightarrow> P (w_store w) \<Longrightarrow> P (w_store w')"
  by (induction tps arbitrary: w vs) (auto split: prod.splits dest: validated)

lemma framed: "read_frame w r w' r' \<Longrightarrow> P (w_store w) \<Longrightarrow> P (w_store w')"
  by (simp add: read_frame_def)

lemma carried_kept:
  "submit_carried env D bf tp mode walked reads policy w = (w', r', x) \<Longrightarrow> P (w_store w) \<Longrightarrow> P (w_store w')"
proof (cases x)
  case (Inl e)
  then show "submit_carried env D bf tp mode walked reads policy w = (w', r', x) \<Longrightarrow> P (w_store w) \<Longrightarrow> ?thesis"
    using submit_carried_Inl by blast
next
  case (Inr y)
  obtain rep blk stop where y: "y = (rep, blk, stop)" by (rule prod_cases3)
  assume run: "submit_carried env D bf tp mode walked reads policy w = (w', r', x)" and w: "P (w_store w)"
  from run [unfolded Inr y] show ?thesis
  proof (rule submit_carried_Inr, goal_cases)
    case (1 op w1 v w2 wt v' w3)
    have "P (w_store w2)" using framed [OF blocked_topic_frame [OF 1(3)] validated [OF 1(2) w]] .
    then show ?case by (simp add: 1(5,6) applied_kept)
  qed
qed

lemma step_kept:
  "land_step env D bf tp mode policy nxt stack l w = (w', l', x) \<Longrightarrow> P (w_store w) \<Longrightarrow> P (w_store w')"
  by (auto simp: land_step_def land_submit_def Let_def
      split: option.splits prod.splits if_splits sum.splits dest: carried_kept)

lemma landing_kept:
  "land_loop env D bf tp mode policy stack l w = (w', l', x) \<Longrightarrow> P (w_store w) \<Longrightarrow> P (w_store w')"
proof (induction env D bf tp mode policy stack l w rule: land_loop.induct)
  case (2 env D bf tp mode policy nxt stack l w)
  obtain w1 l1 y where st: "land_step env D bf tp mode policy nxt (nxt # stack) l w = (w1, l1, y)"
    using prod_cases3 by blast
  have w1: "P (w_store w1)" using step_kept [OF st "2.prems"(2)] .
  show ?case
  proof (cases y)
    case (Inl why)
    with "2.prems" land_loop_Cons [OF st] w1 show ?thesis by auto
  next
    case (Inr e)
    then show ?thesis
      using "2.prems" "2.IH" [OF st [symmetric] refl] land_loop_Cons [OF st] w1 by (cases e) auto
  qed
qed simp

lemma land_kept:
  "land_carried env D bf sb p tp mode policy rn l w = (w', l', x) \<Longrightarrow> P (w_store w) \<Longrightarrow> P (w_store w')"
  by (auto simp: land_carried_def Let_def split: option.splits dest: landing_kept)

lemma topic_kept:
  "door_topic env D S tp v st l w = (w', l', v', st', x) \<Longrightarrow> P (w_store w) \<Longrightarrow> P (w_store w')"
  by (induction rule: door_topic_run)
    (auto dest: framed [OF successor_pass_frame] land_kept validated)

lemma waits_kept:
  assumes "door_waits env D S vs st waits l w = (w', x)" "P (w_store w)"
  shows "P (w_store w')"
proof -
  obtain l' vs' st' waits' where "door_waits env D S vs st waits l w = (w', l', vs', st', waits')"
    using assms(1) by (cases x) auto
  then show ?thesis
    by (rule door_waits_inv [where Q = "\<lambda>l w. P (w_store w)"]) (auto intro: assms(2) topic_kept framed)
qed

lemma door_kept: "submit_door env D tb mode fin policy w = (w', x) \<Longrightarrow> P (w_store w) \<Longrightarrow> P (w_store w')"
  by (auto simp: submit_door_def Let_def split: sum.splits prod.splits
      intro!: phase3_kept dest!: waits_kept dest: all_validated)

end

subsection \<open>The two properties kept\<close>

interpretation inv: kept_by_submit ms_inv
  by unfold_locales
    (auto intro: ms_inv_modify_fields ms_inv_insert_with_origin ms_inv_delete_output ms_inv_small_steps(3))

interpretation app: kept_by_submit "\<lambda>s. does_applied_transaction_exist s t tp" for t tp
  by unfold_locales simp_all

subsection \<open>An applied topic is recorded\<close>

lemma delete_deep_runs: "delete_deep env o' w = (w', e) \<Longrightarrow> applied_topics (w_report w') = applied_topics (w_report w)"
  by (auto simp: delete_deep_def deep_run_def simp del: delete_utxo_deep.simps split: option.splits dest!: delete_deep_run(1))

lemma delete_loop_topics:
  "delete_loop env tp sts w = (w', x) \<Longrightarrow> applied_topics (w_report w') = applied_topics (w_report w)"
proof (induction sts arbitrary: w x)
  case (Cons st sts)
  obtain w1 e where a: "store_write env (insert_applied_transaction (out_txid st) tp) w = (w1, e)" by fastforce
  have w1: "w_report w1 = w_report w" using store_write_either [OF a] by simp
  show ?case
  proof (cases e)
    case (Some err)
    with Cons.prems a w1 show ?thesis by (auto split: prod.splits dest: Cons.IH)
  next
    case None
    obtain w2 y where rd: "read_topic_output env (out_txid st) (output_index st) tp (forget_not_landed (out_txid st) tp w1) = (w2, y)"
      by fastforce
    have "w_report w2 = w_report w" using read_topic_output_frame [OF rd] w1 by simp
    with Cons.prems a None rd show ?thesis
      by (auto split: prod.splits sum.splits option.splits dest!: Cons.IH delete_deep_runs)
  qed
qed simp


lemma finish_topic_recorded:
  "tp \<in> set (applied_topics (w_report (finish_topic env c tq n w))) \<Longrightarrow>
     tp \<in> set (applied_topics (w_report w))
     \<or> tp = tq \<and> does_applied_transaction_exist (w_store (finish_topic env c tq n w)) (c_txid c) tq"
  by (auto simp: finish_topic_def push_applied_def split: prod.splits option.splits if_splits
      dest!: store_write_ok dest: store_write_either)

lemma phase3_topics:
  "applied_topics (w_report (undo_inserts env t tq is w)) = applied_topics (w_report w)"
  "applied_topics (w_report (consumed_loop env tq new ps w)) = applied_topics (w_report w)"
  "all_held env tq sts w = (w', h) \<Longrightarrow> applied_topics (w_report w') = applied_topics (w_report w)"
  "mark_loop env c tq keep qs w = (w', rm, sn) \<Longrightarrow> applied_topics (w_report w') = applied_topics (w_report w)"
  "insert_loop env c tq cs is w = (w', new, tried, f) \<Longrightarrow> applied_topics (w_report w') = applied_topics (w_report w)"
  using undo_inserts_run [of env w t tq "is"] consumed_loop_run [of env w tq new ps] all_held_run [of env tq sts w w' h]
    mark_loop_run [of env c tq keep qs w w' rm sn, OF _ subset_refl] insert_loop_run [of env c tq cs "is" w w' new tried f]
  by (simp_all add: runs_def)

lemma settle_topic_recorded:
  assumes "tp \<in> set (applied_topics (w_report (settle_topic env c v n new tried w)))"
  shows "tp \<in> set (applied_topics (w_report w))
    \<or> tp = v_topic v \<and> does_applied_transaction_exist (w_store (settle_topic env c v n new tried w)) (c_txid c) tp"
proof -
  obtain w1 df started where d: "delete_loop env (v_topic v) (stale_coins v) w = (w1, df, started)"
    using prod_cases3 by blast
  note w1 = delete_loop_topics [OF d]
  show ?thesis
  proof (cases df)
    case True
    with assms d w1 show ?thesis
      by (auto simp: settle_topic_def Let_def phase3_topics(1) split: prod.splits if_splits dest: phase3_topics(3))
  next
    case False
    with assms d w1 finish_topic_recorded [of tp env c "v_topic v" n "consumed_loop env (v_topic v) new (outputs_consumed_of v) w1"]
    show ?thesis by (auto simp: settle_topic_def Let_def phase3_topics(2))
  qed
qed

lemma apply_topic_recorded:
  assumes "tp \<in> set (applied_topics (w_report (apply_topic env c waits v w)))"
  shows "tp \<in> set (applied_topics (w_report w))
    \<or> tp = v_topic v \<and> does_applied_transaction_exist (w_store (apply_topic env c waits v w)) (c_txid c) tp"
proof -
  obtain w1 rm sn where m: "mark_loop env c (v_topic v) (coins_to_retain (v_admittance v)) (prevs v) w = (w1, rm, sn)"
    using prod_cases3 by blast
  obtain w2 new tried f where i: "insert_loop env c (v_topic v) (outputs_consumed_of v) (outputs_to_admit (v_admittance v)) w1
      = (w2, new, tried, f)" using prod_cases4 by blast
  have "tp \<in> set (applied_topics (w_report w))
    \<or> tp = v_topic v \<and> does_applied_transaction_exist (w_store (mutate_topic env c v w)) (c_txid c) tp"
    if "tp \<in> set (applied_topics (w_report (mutate_topic env c v w)))"
    using that m i phase3_topics(4) [OF m] phase3_topics(5) [OF i]
      settle_topic_recorded [of tp env c v "length (faults (w_report w))" new tried w2]
    by (auto simp: mutate_topic_def Let_def phase3_topics(1) split: if_splits)
  with assms show ?thesis
    by (auto simp: apply_topic_def Let_def push_deduped_def split: if_splits option.splits prod.splits)
qed

text \<open>What one step of the landing adds to the list of the landed is recorded in the store.\<close>

definition landed_recorded :: "landing \<Rightarrow> world \<Rightarrow> bool" where
  "landed_recorded l w \<longleftrightarrow> (\<forall>(p, tp) \<in> set (ld_landed l). does_applied_transaction_exist (w_store w) p tp)"

text \<open>The codec's promise: the BEEF built for a carried body opens on that body.\<close>

definition atomic_opens :: "door \<Rightarrow> bool" where
  "atomic_opens D \<longleftrightarrow> (\<forall>bf n body ab op. dr_atomic D bf n = Some (body, Inr ab) \<longrightarrow> dr_open D ab = Inr op \<longrightarrow> op_id op = n)"

lemma open_walk_op: "open_walk D tb mode walked policy = Inr (op, stop) \<Longrightarrow> dr_open D (tb_beef tb) = Inr op"
  by (auto simp: open_walk_def Let_def split: option.splits sum.splits walk_breach_policy.splits)

lemma validate_topic_topic: "validate_topic env judge tx t tp w = (w', v) \<Longrightarrow> v_topic v = tp"
  by (auto simp: validate_topic_def blank_validation_def split: prod.splits sum.splits bool.splits)

lemma judge_again_topic [simp]: "v_topic (judge_again judge tx v) = v_topic v"
  by (simp add: judge_again_def split: sum.splits)

lemma submit_carried_recorded:
  assumes "submit_carried env D bf tp mode walked reads policy w = (w', r', Inr (rep, blk, stop))"
    and "tq \<in> set (applied_topics rep)" "dr_open D bf = Inr op"
  shows "tq = tp \<and> does_applied_transaction_exist (w_store w') (op_id op) tp"
  using assms(1)
proof (rule submit_carried_Inr, goal_cases)
  case (1 op' w1 v w2 wt v' w3)
  from open_walk_op [OF 1(1)] assms(3) have "op' = op" by simp
  moreover have "v_topic v' = tp" using validate_topic_topic [OF 1(2)] by (simp add: 1(4))
  ultimately show ?case
    using apply_topic_recorded [OF assms(2) [unfolded 1(7) 1(5)]]
    by (auto simp: 1(5,6) empty_report_def submit_ctx_of_def)
qed


lemma landed_recorded_mono:
  assumes "landed_recorded l w" "ld_landed l' = ld_landed l"
    and "\<And>p tp. does_applied_transaction_exist (w_store w) p tp \<Longrightarrow> does_applied_transaction_exist (w_store w') p tp"
  shows "landed_recorded l' w'"
  using assms by (auto simp: landed_recorded_def)

lemma land_guard_landed: "land_guard D nxt tp l = (l', x) \<Longrightarrow> ld_landed l' = ld_landed l"
  by (auto simp: land_guard_def split: option.splits if_splits)

lemma land_submit_recorded:
  assumes "land_submit env D bf ab tp mode policy nxt stack l w = (w', l', x)" "landed_recorded l w"
    and "\<And>op. dr_open D ab = Inr op \<Longrightarrow> op_id op = nxt"
  shows "landed_recorded l' w'"
proof -
  obtain w1 r1 y where c: "submit_carried env D ab tp mode (ld_walked l) (ld_reads l) policy w = (w1, r1, y)"
    using prod_cases3 by blast
  have w1: "landed_recorded l w1" using landed_recorded_mono [OF assms(2) refl app.carried_kept [OF c]] .
  show ?thesis
  proof (cases y)
    case (Inl e)
    with assms(1) c w1 show ?thesis by (auto simp: land_submit_def landed_recorded_def)
  next
    case (Inr z)
    obtain rep blk stop where z: "z = (rep, blk, stop)" by (rule prod_cases3)
    from c [unfolded Inr z] obtain op where op: "dr_open D ab = Inr op"
      by (rule submit_carried_Inr) (auto dest!: open_walk_op)
    have "does_applied_transaction_exist (w_store w1) nxt tp" if "tp \<in> set (applied_topics rep)"
      using submit_carried_recorded [OF c [unfolded Inr z] that op] assms(3) [OF op] by simp
    with assms(1) c [unfolded Inr z] w1 show ?thesis
      by (auto simp: land_submit_def land_answer_def Let_def landed_recorded_def split: if_splits)
  qed
qed

lemma land_step_recorded:
  assumes "land_step env D bf tp mode policy nxt stack l w = (w', l', x)" "landed_recorded l w" "atomic_opens D"
  shows "landed_recorded l' w'"
proof (cases "\<exists>body ab l1 r. dr_atomic D bf nxt = Some (body, Inr ab) \<and> ld_landed l1 = ld_landed l
    \<and> land_submit env D bf ab tp mode policy nxt stack (l1\<lparr>ld_reads := r\<rparr>) w = (w', l', x)")
  case True
  then obtain body ab l1 r where a: "dr_atomic D bf nxt = Some (body, Inr ab)" "ld_landed l1 = ld_landed l"
    "land_submit env D bf ab tp mode policy nxt stack (l1\<lparr>ld_reads := r\<rparr>) w = (w', l', x)" by blast
  have "landed_recorded (l1\<lparr>ld_reads := r\<rparr>) w" using assms(2) a(2) by (simp add: landed_recorded_def)
  with land_submit_recorded [OF a(3)] a(1) assms(3) show ?thesis by (auto simp: atomic_opens_def)
next
  case False
  then have "w' = w \<and> ld_landed l' = ld_landed l"
    using assms(1)
    by (auto simp: land_step_def Let_def split: option.splits prod.splits if_splits sum.splits dest: land_guard_landed)
  with assms(2) show ?thesis by (simp add: landed_recorded_def)
qed

lemma land_loop_recorded:
  "land_loop env D bf tp mode policy stack l w = (w', l', x) \<Longrightarrow> landed_recorded l w \<Longrightarrow> atomic_opens D \<Longrightarrow>
     landed_recorded l' w'"
proof (induction env D bf tp mode policy stack l w rule: land_loop.induct)
  case (2 env D bf tp mode policy nxt stack l w)
  obtain w1 l1 y where st: "land_step env D bf tp mode policy nxt (nxt # stack) l w = (w1, l1, y)"
    using prod_cases3 by blast
  have r1: "landed_recorded l1 w1" using land_step_recorded [OF st "2.prems"(2,3)] .
  show ?case
  proof (cases y)
    case (Inl why)
    with "2.prems" land_loop_Cons [OF st] r1 show ?thesis by auto
  next
    case (Inr e)
    then show ?thesis
      using "2.prems" "2.IH" [OF st [symmetric] refl] land_loop_Cons [OF st] r1 by (cases e) auto
  qed
qed simp

lemma land_carried_recorded:
  "land_carried env D bf sb p tp mode policy rn l w = (w', l', x) \<Longrightarrow> landed_recorded l w \<Longrightarrow> atomic_opens D \<Longrightarrow>
     landed_recorded l' w'"
  by (auto simp: land_carried_def Let_def landed_recorded_def split: option.splits
      dest!: land_loop_recorded [where l = "l\<lparr>ld_walked := a, ld_guarded := b\<rparr>" for l a b])

lemma read_frame_recorded: "read_frame w r w' r' \<Longrightarrow> landed_recorded l w \<Longrightarrow> landed_recorded (l\<lparr>ld_reads := n\<rparr>) w'"
  by (simp add: read_frame_def landed_recorded_def)


subsection \<open>One topic and all topics\<close>

lemma topic_reads:
  "door_topic env D S tp v st l w = (w', l', v', st', why) \<Longrightarrow>
     ld_reads l \<le> PREDECESSOR_READS_PER_SUBMIT \<longrightarrow> ld_reads l' \<le> PREDECESSOR_READS_PER_SUBMIT"
proof (induction rule: door_topic_run)
  case ends
  then show ?case using successor_pass_frame by (fastforce simp: read_frame_def)
qed (auto dest!: land_carried_reads)

lemma topic_recorded:
  assumes "door_topic env D S tp v st l w = (w', l', v', st', why)" "atomic_opens D"
  shows "landed_recorded l w \<longrightarrow> landed_recorded l' w'"
  using assms(1)
proof (induction rule: door_topic_run)
  case (ends v l w w' r1 y why)
  then show ?case using read_frame_recorded [OF successor_pass_frame] by blast
next
  case (failed v l w w' w1 r1 c y l2 e why)
  then show ?case
    using land_carried_recorded [OF failed(3) read_frame_recorded [OF successor_pass_frame [OF failed(1)]] assms(2)]
    by (simp add: landed_recorded_def)
next
  case (unjudged v l w w' l' v' w1 r1 c y w2)
  then show ?case
    using land_carried_recorded [OF unjudged(3) read_frame_recorded [OF successor_pass_frame [OF unjudged(1)]] assms(2)]
      landed_recorded_mono [OF _ refl app.validated [OF unjudged(4)]] by blast
next
  case (again v l w w' l' v' why w1 r1 c y w2 l2 w3 v3)
  then show ?case
    using land_carried_recorded [OF again(3) read_frame_recorded [OF successor_pass_frame [OF again(1)]] assms(2)]
      landed_recorded_mono [OF _ refl app.validated [OF again(4)]] by blast
qed

lemma submit_door_Inr:
  assumes "submit_door env D tb mode fin policy w = (w', Inr a)"
  obtains S vs st l0 w1 l vs2 st2 waits w2 where
    "door_waits env D S vs st [] l0 w1 = (w2, l, vs2, st2, waits)"
    "ld_reads l0 = 0" "ld_landed l0 = []" "ld_landed l = sa_landed a" "ld_reads l = sa_reads a"
    "w' = phase3 env (submit_ctx_of tb (s_op S) fin) (tbl_get waits) vs2 w2"
  using assms
  by (fastforce simp: submit_door_def Let_def split: sum.splits prod.splits)

subsection \<open>Properties\<close>

lemma submit_keeps_store_invariant:
  "ms_inv (w_store w) \<Longrightarrow> submit_door env D tb mode finalize policy w = (w', r) \<Longrightarrow> ms_inv (w_store w')"
  by (rule inv.door_kept)

text \<open>
  C14: what a submit reads to settle its predecessors is bounded. The questions of the successor rule, the
  landings and the judgements after them, over all topics of the submit, count at most 256 reads.
\<close>
theorem submit_reads_bounded:
  assumes "submit_door env D tb mode finalize policy w = (w', Inr a)"
  shows "sa_reads a \<le> PREDECESSOR_READS_PER_SUBMIT"
  using assms
proof (rule submit_door_Inr, goal_cases)
  case (1 S vs st l0 w1 l vs2 st2 waits w2)
  have "ld_reads l \<le> PREDECESSOR_READS_PER_SUBMIT"
    by (rule door_waits_inv [OF 1(1), where Q = "\<lambda>l w. ld_reads l \<le> PREDECESSOR_READS_PER_SUBMIT"])
      (auto simp: 1 read_frame_def dest: topic_reads)
  with 1 show ?case by simp
qed

text \<open>
  C13: a predecessor the submit reports as landed is recorded as applied in its topic in the store the
  submit leaves, whatever faults: its own submit wrote the row, and nothing the submit does after it
  takes the row away.
\<close>
theorem landed_predecessors_are_recorded:
  assumes "submit_door env D tb mode finalize policy w = (w', Inr a)"
    and "atomic_opens D" "(p, tp) \<in> set (sa_landed a)"
  shows "does_applied_transaction_exist (w_store w') p tp"
  using assms(1)
proof (rule submit_door_Inr, goal_cases)
  case (1 S vs st l0 w1 l vs2 st2 waits w2)
  have "landed_recorded l w2"
    by (rule door_waits_inv [OF 1(1), where Q = landed_recorded])
      (auto simp: 1 landed_recorded_def [of l0] assms(2) dest: topic_recorded intro: read_frame_recorded)
  then have "does_applied_transaction_exist (w_store w2) p tp" using assms(3) 1(4) by (auto simp: landed_recorded_def)
  then show ?case unfolding 1(6) by (rule app.phase3_kept)
qed

text \<open>
  C12: a topic that goes on has nothing left to wait for. When the loop of a topic (question, landing, new
  judgement, question again) of a submit that does not finalize a graph ends without a reason to wait, and the
  topic holds no coin of the transaction, then in the store it is written to the walk has a trail over every
  transaction it reaches, each settled by the spends met when it is asked: landed, not carried and not named,
  or carried with no held coin and no opener by a spend of the transaction or of a body asked before it. (A
  finalize only looks at the memory of faulted submits; the store is not asked.)
\<close>
theorem cleared_topic_is_settled:
  assumes "door_topic env D S tp v st l w = (w', l', v', st', None)" "v_topic v = tp"
    and "\<not> s_finalize S" "judged v'" "v_previous_outputs v' = []"
    and "q_bodies (s_question D S tp) = Some bodies"
  shows "\<exists>trail. walk_settled (w_store w') (s_question D S tp) bodies tp (op_id (s_op S)) False
    (question_starts (s_question D S tp) (op_tx (s_op S)) (op_id (s_op S)) (only_named v') (held_of (op_tx (s_op S)) v')) trail"
proof -
  have "v_topic v = tp \<longrightarrow> why = None \<longrightarrow> judged v' \<longrightarrow> v_previous_outputs v' = [] \<longrightarrow>
      (\<exists>w0 r0 r1. w_store w0 = w_store w' \<and>
         unlanded_predecessor env (s_question D S tp) (op_tx (s_op S)) (op_id (s_op S)) tp (only_named v')
           (held_of (op_tx (s_op S)) v') False r0 w0 = (w', r1, None))"
    if "door_topic env D S tp v st l w = (w', l', v', st', why)" for why
    using that
  proof (induction rule: door_topic_run)
    case (ends v l w w' r1 y why)
    then show ?case
      using read_frame_store [OF successor_pass_frame [OF ends(1)]] assms(3)
      by (fastforce simp: successor_pass_def Let_def split: if_splits option.splits prod.splits)
  next
    case (again v l w w' l' v' why w1 r1 c y w2 l2 w3 v3)
    then show ?case using validate_topic_topic [OF again(4)] by blast
  qed auto
  from this [OF assms(1)] assms(2,4,5) obtain w0 r0 r1 where st: "w_store w0 = w_store w'"
    and q: "unlanded_predecessor env (s_question D S tp) (op_tx (s_op S)) (op_id (s_op S)) tp (only_named v')
           (held_of (op_tx (s_op S)) v') False r0 w0 = (w', r1, None)" by blast
  show ?thesis using question_silence [OF q assms(6)] by (simp add: st)
qed

subsection \<open>A submit that lands its predecessor first\<close>

text \<open>
  The BEEF \<open>[1]\<close> carries \<open>tt\<close>, which spends and names \<open>xx.0\<close>, and the body \<open>xx\<close>, whose own BEEF is \<open>[2]\<close> and
  whose output 0 the manager admits with no coin.
\<close>

definition chain_opened :: "bytes \<Rightarrow> string + opened" where
  "chain_opened bf =
     (if bf = [2] then Inr \<lparr>op_tx = spend_of [], op_id = ''xx'', op_named_beef = [2]\<rparr>
      else if bf = [1] then Inr \<lparr>op_tx = spend_of [(''xx'', 0)], op_id = ''tt'', op_named_beef = [1]\<rparr>
      else Inl ''not a BEEF'')"

definition chain_judge :: judge where
  "chain_judge tx tp coins = Inr \<lparr>outputs_to_admit = [0], coins_to_retain = [], coins_removed = None\<rparr>"

definition chain_door :: door where
  "chain_door = \<lparr>dr_topics = [''tm_a''], dr_open = chain_opened, dr_walk = (\<lambda>_ _ _. Inr None),
     dr_judge = (\<lambda>_ _ _. chain_judge), dr_named = (\<lambda>_ bf. if bf = [1] then [''xx.0''] else []),
     dr_dry = (\<lambda>_ _ _ c. if c = ''xx'' then Dry_Admits [0] else Dry_No_Admissible),
     dr_bodies = (\<lambda>_. Some [(''tt'', spend_of [(''xx'', 0)]), (''xx'', spend_of [])]), dr_proven = (\<lambda>_ _. False),
     dr_atomic = (\<lambda>_ t. if t = ''xx'' then Some (spend_of [], Inr [2]) else None), dr_guard = None,
     dr_reads_off_chain = (\<lambda>_. False), dr_expiry = (\<lambda>_ _. None)\<rparr>"

definition chain_submit :: "world \<times> (engine_error + submit_answer)" where
  "chain_submit = submit_door quiet_env chain_door \<lparr>tb_beef = [1], tb_topics = [''tm_a''], tb_off_chain = None\<rparr>
     CurrentTx False Not_Now empty_world"

lemma chain_atomic_opens: "atomic_opens chain_door"
  by (auto simp: atomic_opens_def chain_door_def chain_opened_def split: if_splits)

lemma chain_answer:
  "map_sum id (\<lambda>a. (sa_landed a, sa_reads a, applied_topics (sa_report a))) (snd chain_submit)
     = Inr ([(''xx'', ''tm_a'')], 5, [''tm_a''])"
  by code_simp

text \<open>The same topic asked when the manager names and admits nothing: the question is silent.\<close>

definition plain_door :: door where
  "plain_door = chain_door\<lparr>dr_named := (\<lambda>_ _. []), dr_dry := (\<lambda>_ _ _ _. Dry_No_Admissible)\<rparr>"

definition plain_submit :: door_submit where
  "plain_submit = \<lparr>s_tb = \<lparr>tb_beef = [1], tb_topics = [''tm_a''], tb_off_chain = None\<rparr>,
     s_op = \<lparr>op_tx = spend_of [(''xx'', 0)], op_id = ''tt'', op_named_beef = [1]\<rparr>, s_mode = CurrentTx,
     s_policy = Not_Now, s_walk_ran = True, s_finalize = False\<rparr>"

definition no_landing :: landing where
  "no_landing = \<lparr>ld_reads = 0, ld_walked = [], ld_guarded = [], ld_landed = [], ld_breaches = []\<rparr>"

lemma plain_cleared:
  "\<exists>w' l'. door_topic quiet_env plain_door plain_submit ''tm_a'' (blank_validation ''tm_a'') [] no_landing empty_world
     = (w', l', blank_validation ''tm_a'', [], None) \<and> w_store w' = ms_new"
proof -
  obtain w' l' v' st' why where run: "door_topic quiet_env plain_door plain_submit ''tm_a'' (blank_validation ''tm_a'') []
      no_landing empty_world = (w', l', v', st', why)" using prod_cases5 by blast
  have "(\<lambda>(w', l', v', st', why). (w_store w', v', st', why)) (door_topic quiet_env plain_door plain_submit ''tm_a''
      (blank_validation ''tm_a'') [] no_landing empty_world) = (ms_new, blank_validation ''tm_a'', [], None)"
    by code_simp
  with run show ?thesis by simp
qed

theorem submit_reads_bounded_witness:
  "\<exists>a. snd chain_submit = Inr a \<and> sa_reads a = 5 \<and> sa_reads a \<le> PREDECESSOR_READS_PER_SUBMIT"
proof -
  from chain_answer obtain a where a: "snd chain_submit = Inr a" "sa_reads a = 5"
    by (cases "snd chain_submit") auto
  then show ?thesis
    using submit_reads_bounded [of quiet_env chain_door _ CurrentTx False Not_Now empty_world "fst chain_submit" a]
    by (auto simp: chain_submit_def prod_eq_iff)
qed

theorem landed_predecessors_are_recorded_witness:
  "does_applied_transaction_exist (w_store (fst chain_submit)) ''xx'' ''tm_a''
   \<and> \<not> does_applied_transaction_exist (w_store empty_world) ''xx'' ''tm_a''"
proof -
  from chain_answer obtain a where a: "snd chain_submit = Inr a" "sa_landed a = [(''xx'', ''tm_a'')]"
    by (cases "snd chain_submit") auto
  then show ?thesis
    using landed_predecessors_are_recorded [of quiet_env chain_door _ CurrentTx False Not_Now empty_world "fst chain_submit" a "''xx''" "''tm_a''"]
      chain_atomic_opens
    by (auto simp: chain_submit_def prod_eq_iff empty_world_def ms_new_def does_applied_transaction_exist_def)
qed

theorem cleared_topic_is_settled_witness:
  "\<exists>bodies trail. q_bodies (s_question plain_door plain_submit ''tm_a'') = Some bodies \<and> bodies ''xx'' \<noteq> None
     \<and> walk_settled ms_new (s_question plain_door plain_submit ''tm_a'') bodies ''tm_a'' ''tt'' False
          (question_starts (s_question plain_door plain_submit ''tm_a'') (spend_of [(''xx'', 0)]) ''tt'' False []) trail
     \<and> ''xx'' \<in> fst ` set trail"
proof -
  let ?q = "s_question plain_door plain_submit ''tm_a''"
  let ?b = "map_of [(''tt'', spend_of [(''xx'', 0)]), (''xx'', spend_of [])]"
  let ?v = "blank_validation ''tm_a''" let ?st = "question_starts ?q (spend_of [(''xx'', 0)]) ''tt'' False []"
  from plain_cleared obtain w' l' where run: "door_topic quiet_env plain_door plain_submit ''tm_a'' ?v [] no_landing empty_world
      = (w', l', ?v, [], None)" and st: "w_store w' = ms_new" by blast
  have q: "q_bodies ?q = Some ?b" by (simp add: s_question_def question_of_def plain_door_def chain_door_def)
  have v: "only_named ?v = False" "held_of tx ?v = []" "judged ?v" "v_previous_outputs ?v = []" "v_topic ?v = ''tm_a''" for tx
    by (simp_all add: only_named_def held_of_def judged_def blank_validation_def no_admittance_def List.map_filter_def)
  have S: "op_tx (s_op plain_submit) = spend_of [(''xx'', 0)]" "op_id (s_op plain_submit) = ''tt''" "\<not> s_finalize plain_submit"
    by (simp_all add: plain_submit_def)
  have "(''xx'', ''tt'', 0) \<in> set ?st" by (simp add: question_starts_def spent_inputs_def spend_of_def)
  then have x: "walk_reaches ms_new ?b ''tm_a'' ?st ''xx''" by (rule from_start)
  obtain trail where t: "walk_settled ms_new ?q ?b ''tm_a'' ''tt'' False ?st trail"
    using cleared_topic_is_settled [OF run v(5) S(3) v(3,4) q] by (auto simp: v S st)
  with x have "''xx'' \<in> fst ` set trail" by (simp add: walk_settled_def)
  with t q show ?thesis by (intro exI [of _ ?b] exI [of _ trail]) simp
qed

end
