(* ===== verification/Engine_Admin.thy ===== *)
theory Engine_Admin
  imports Submit_Properties
begin

text \<open>
  The engine's administration of what it admitted (\<open>engine.rs\<close>): telling the lookup services again of
  a transaction's outputs, forgetting an applied row that holds nothing, evicting an output. The
  subject-named body of a stored BEEF is the BEEF library's and is the argument \<open>named\<close>.
\<close>

record renotify_report =
  rn_outputs :: nat
  rn_notified :: nat
  rn_faults :: "string list"
  rn_vouts :: "nat list"

definition no_renotify :: renotify_report where
  "no_renotify = \<lparr>rn_outputs = 0, rn_notified = 0, rn_faults = [], rn_vouts = []\<rparr>"

definition em_dash :: string where
  "em_dash = [CHR 0xE2, CHR 0x80, CHR 0x94]"

definition renotify_payload ::
  "(bytes \<Rightarrow> txid \<Rightarrow> bytes) \<Rightarrow> txid \<Rightarrow> topic \<Rightarrow> Output \<Rightarrow> admission_mode \<Rightarrow> output_admitted_by_topic option" where
  "renotify_payload named t tp o' m =
     (case m of
        Admit_LockingScript \<Rightarrow>
          Some (Admitted_LockingScript t (output_index o') tp (satoshis o') (output_script o') None)
      | Admit_WholeTx \<Rightarrow>
          (case beef o' of None \<Rightarrow> None | Some b \<Rightarrow> Some (Admitted_WholeTx (named b t) (output_index o') tp None)))"

fun renotify_services ::
  "engine_env \<Rightarrow> (bytes \<Rightarrow> txid \<Rightarrow> bytes) \<Rightarrow> txid \<Rightarrow> topic \<Rightarrow> Output \<Rightarrow> lookup_service list
     \<Rightarrow> world \<times> renotify_report \<Rightarrow> world \<times> renotify_report" where
  "renotify_services env named t tp o' [] wr = wr"
| "renotify_services env named t tp o' (l # ls) (w, r) =
     renotify_services env named t tp o' ls
       (case renotify_payload named t tp o' (ls_admission_mode l) of
          None \<Rightarrow>
            (w, r\<lparr>rn_faults := rn_faults r @
                   [ls_name l @ '': '' @ t @ '':'' @ show_nat (output_index o') @
                    '' is stored without its BEEF '' @ em_dash @ '' a WholeTx service cannot be re-notified'']\<rparr>)
        | Some p \<Rightarrow>
            (case tell env (Told_Admitted (ls_name l) p) w of
               (w1, None) \<Rightarrow> (w1, r\<lparr>rn_notified := wrap32 (rn_notified r + 1)\<rparr>)
             | (w1, Some e) \<Rightarrow> (w1, r\<lparr>rn_faults := rn_faults r @ [ls_name l @ '': '' @ e]\<rparr>)))"

fun renotify_outputs ::
  "engine_env \<Rightarrow> (bytes \<Rightarrow> txid \<Rightarrow> bytes) \<Rightarrow> txid \<Rightarrow> topic \<Rightarrow> Output list
     \<Rightarrow> world \<times> renotify_report \<Rightarrow> world \<times> renotify_report" where
  "renotify_outputs env named t tp [] wr = wr"
| "renotify_outputs env named t tp (o' # os) (w, r) =
     renotify_outputs env named t tp os
       (renotify_services env named t tp o' (e_services env)
          (w, r\<lparr>rn_outputs := wrap32 (rn_outputs r + 1), rn_vouts := rn_vouts r @ [output_index o']\<rparr>))"

definition renotify_admitted ::
  "engine_env \<Rightarrow> (bytes \<Rightarrow> txid \<Rightarrow> bytes) \<Rightarrow> txid \<Rightarrow> topic \<Rightarrow> world \<Rightarrow> world \<times> (string + renotify_report)" where
  "renotify_admitted env named t0 tp w =
     (let t = to_ascii_lowercase t0
      in case store_read env (\<lambda>s. find_outputs_for_transaction s t True) w of
           (w1, Inl e) \<Rightarrow> (w1, Inl e)
         | (w1, Inr os) \<Rightarrow>
             (case renotify_outputs env named t tp (filter (\<lambda>o'. out_topic o' = tp) os) (w1, no_renotify) of
                (w2, r) \<Rightarrow> (w2, Inr r)))"

definition forget_phantom_applied :: "engine_env \<Rightarrow> txid \<Rightarrow> topic \<Rightarrow> world \<Rightarrow> world \<times> (string + bool)" where
  "forget_phantom_applied env t0 tp w =
     (let t = to_ascii_lowercase t0
      in case store_read env (\<lambda>s. find_outputs_for_transaction s t False) w of
           (w1, Inl e) \<Rightarrow> (w1, Inl e)
         | (w1, Inr os) \<Rightarrow>
             if list_ex (\<lambda>o'. out_topic o' = tp) os then (w1, Inr False)
             else case store_read env (\<lambda>s. does_applied_transaction_exist s t tp) w1 of
                    (w2, Inl e) \<Rightarrow> (w2, Inl e)
                  | (w2, Inr False) \<Rightarrow> (w2, Inr False)
                  | (w2, Inr True) \<Rightarrow>
                      (case store_write env (delete_applied_transaction t tp) w2 of
                         (w3, Some e) \<Rightarrow> (w3, Inl e)
                       | (w3, None) \<Rightarrow> (w3, Inr True)))"

fun tell_evicted :: "engine_env \<Rightarrow> txid \<Rightarrow> nat \<Rightarrow> lookup_service list \<Rightarrow> world \<Rightarrow> world" where
  "tell_evicted env t i [] w = w"
| "tell_evicted env t i (l # ls) w =
     tell_evicted env t i ls (fst (tell env (Told_Evicted (ls_name l) t i) w))"

fun evict_loop :: "engine_env \<Rightarrow> txid \<Rightarrow> nat \<Rightarrow> Output list \<Rightarrow> world \<Rightarrow> world \<times> string option" where
  "evict_loop env t i [] w = (w, None)"
| "evict_loop env t i (o' # os) w =
     (if output_index o' = i
      then (case store_write env (delete_output t i (out_topic o')) w of
              (w1, Some e) \<Rightarrow> (w1, Some e)
            | (w1, None) \<Rightarrow> evict_loop env t i os w1)
      else evict_loop env t i os w)"

definition evict_output :: "engine_env \<Rightarrow> txid \<Rightarrow> nat \<Rightarrow> topic option \<Rightarrow> world \<Rightarrow> world \<times> string option" where
  "evict_output env t i tpo w =
     (case tpo of
        Some tp \<Rightarrow>
          (case store_write env (delete_output t i tp) w of
             (w1, Some e) \<Rightarrow> (w1, Some e)
           | (w1, None) \<Rightarrow> (tell_evicted env t i (e_services env) w1, None))
      | None \<Rightarrow>
          (case store_read env (\<lambda>s. find_outputs_for_transaction s t False) w of
             (w1, Inl e) \<Rightarrow> (w1, Some e)
           | (w1, Inr os) \<Rightarrow>
               (case evict_loop env t i os w1 of
                  (w2, Some e) \<Rightarrow> (w2, Some e)
                | (w2, None) \<Rightarrow> (tell_evicted env t i (e_services env) w2, None))))"

subsection \<open>Eviction\<close>

lemma tell_evicted_store: "w_store (tell_evicted env t i ls w) = w_store w"
proof (induction ls arbitrary: w)
  case (Cons l ls)
  obtain w1 e where t: "tell env (Told_Evicted (ls_name l) t i) w = (w1, e)"
    by (cases "tell env (Told_Evicted (ls_name l) t i) w")
  show ?case using Cons [of w1] tell_frame [OF t] t by simp
qed simp

lemma tell_evicted_log:
  "(\<forall>n. e_outcome env n = Done) \<Longrightarrow>
     w_log (tell_evicted env t i ls w) = w_log w @ map (\<lambda>l. Told_Evicted (ls_name l) t i) ls"
  by (induction ls arbitrary: w) (auto simp: tell_def)

lemma evict_loop_rows:
  assumes "evict_loop env t i os w = (w', None)"
  shows "row (w_store w') k =
      (if \<exists>o' \<in> set os. output_index o' = i \<and> k = (t, i, out_topic o') then None else row (w_store w) k) \<and>
    w_log w' = w_log w"
  using assms
proof (induction os arbitrary: w)
  case (Cons o' os)
  show ?case
  proof (cases "output_index o' = i")
    case False
    then show ?thesis using Cons by simp
  next
    case True
    obtain w1 e where wr: "store_write env (delete_output t i (out_topic o')) w = (w1, e)"
      by (cases "store_write env (delete_output t i (out_topic o')) w")
    then have e: "e = None" using Cons.prems True by (cases e) auto
    have st: "w_store w1 = delete_output t i (out_topic o') (w_store w)" "w_log w1 = w_log w"
      using wr e by (auto simp: store_write_def split: outcome.splits)
    have "evict_loop env t i os w1 = (w', None)" using Cons.prems True wr e by simp
    from Cons.IH [OF this] show ?thesis using st True by auto
  qed
qed simp

lemma outputs_of_transaction:
  assumes "ms_inv s"
  shows "(\<exists>o' \<in> set (find_outputs_for_transaction s t False). output_index o' = i \<and> out_topic o' = tp)
    \<longleftrightarrow> row s (t, i, tp) \<noteq> None"
proof -
  have "(\<exists>o' \<in> set (find_outputs_for_transaction s t False). output_index o' = i \<and> out_topic o' = tp) \<longleftrightarrow>
      (\<exists>k r. (k, r) \<in> set (ms_outputs s) \<and> fst k = t \<and> output_index r = i \<and> out_topic r = tp)"
    by (force simp: find_outputs_for_transaction_def)
  also have "\<dots> \<longleftrightarrow> (\<exists>r. ((t, i, tp), r) \<in> set (ms_outputs s))"
  proof
    assume "\<exists>k r. (k, r) \<in> set (ms_outputs s) \<and> fst k = t \<and> output_index r = i \<and> out_topic r = tp"
    then obtain k r where k: "(k, r) \<in> set (ms_outputs s)" "fst k = t" "output_index r = i" "out_topic r = tp" by blast
    then have "key_of r = k" using assms by (auto simp: ms_inv_def table_ok_def row_ok_def)
    with k show "\<exists>r. ((t, i, tp), r) \<in> set (ms_outputs s)" by (auto simp: key_of_def)
  next
    assume "\<exists>r. ((t, i, tp), r) \<in> set (ms_outputs s)"
    then obtain r where r: "((t, i, tp), r) \<in> set (ms_outputs s)" by blast
    then have "key_of r = (t, i, tp)" using assms by (auto simp: ms_inv_def table_ok_def row_ok_def)
    with r show "\<exists>k r. (k, r) \<in> set (ms_outputs s) \<and> fst k = t \<and> output_index r = i \<and> out_topic r = tp"
      by (force simp: key_of_def)
  qed
  also have "\<dots> \<longleftrightarrow> row s (t, i, tp) \<noteq> None"
    using row_in_outputs [OF assms] by (metis not_None_eq)
  finally show ?thesis .
qed

text \<open>
  an eviction without a topic that answers removes the output under every topic and no other row,
  and every lookup service was told of it once when no call faulted; one with a topic removes that row
  alone.
\<close>

theorem evict_output_exact:
  assumes "ms_inv (w_store w)" "evict_output env t i tpo w = (w', None)"
  shows "row (w_store w') k =
      (if fst k = t \<and> fst (snd k) = i \<and> (\<forall>tp. tpo = Some tp \<longrightarrow> snd (snd k) = tp) then None
       else row (w_store w) k) \<and>
    ((\<forall>n. e_outcome env n = Done) \<longrightarrow>
       w_log w' = w_log w @ map (\<lambda>l. Told_Evicted (ls_name l) t i) (e_services env))"
proof (cases tpo)
  case (Some tp)
  obtain w1 e where wr: "store_write env (delete_output t i tp) w = (w1, e)"
    by (cases "store_write env (delete_output t i tp) w")
  with assms(2) Some have e: "e = None" "w' = tell_evicted env t i (e_services env) w1"
    by (auto simp: evict_output_def split: option.splits)
  have st: "w_store w1 = delete_output t i tp (w_store w)" "w_log w1 = w_log w"
    using wr e by (auto simp: store_write_def split: outcome.splits)
  show ?thesis using Some e st tell_evicted_log by (cases k) (auto simp: tell_evicted_store)
next
  case None
  obtain w1 x where rd: "store_read env (\<lambda>s. find_outputs_for_transaction s t False) w = (w1, x)"
    by (cases "store_read env (\<lambda>s. find_outputs_for_transaction s t False) w")
  have st: "w_store w1 = w_store w" "w_log w1 = w_log w"
    using rd by (auto simp: store_read_def split: outcome.splits)
  obtain os where x: "x = Inr os"
    using assms(2) None rd by (cases x) (simp_all add: evict_output_def)
  obtain w2 e where l0: "evict_loop env t i os w1 = (w2, e)" by (cases "evict_loop env t i os w1")
  have l: "evict_loop env t i os w1 = (w2, None)" and w': "w' = tell_evicted env t i (e_services env) w2"
    using assms(2) None rd x l0 by (cases e; simp add: evict_output_def)+
  have os: "os = find_outputs_for_transaction (w_store w) t False" by (rule store_read_Inr [OF rd [unfolded x]])
  obtain t' i' tp' where k: "k = (t', i', tp')" by (metis prod_cases3)
  have "row (w_store w2) k = (if t' = t \<and> i' = i \<and> row (w_store w) k \<noteq> None then None else row (w_store w) k)"
  proof -
    have "(\<exists>o' \<in> set os. output_index o' = i \<and> k = (t, i, out_topic o')) \<longleftrightarrow>
        t' = t \<and> i' = i \<and> (\<exists>o' \<in> set os. output_index o' = i \<and> out_topic o' = tp')"
      unfolding k by blast
    also have "\<dots> \<longleftrightarrow> t' = t \<and> i' = i \<and> row (w_store w) k \<noteq> None"
      unfolding os outputs_of_transaction [OF assms(1)] k by blast
    finally have eq: "(\<exists>o' \<in> set os. output_index o' = i \<and> k = (t, i, out_topic o')) \<longleftrightarrow>
        t' = t \<and> i' = i \<and> row (w_store w) k \<noteq> None" .
    show ?thesis using conjunct1 [OF evict_loop_rows [OF l, of k]] unfolding eq st(1) .
  qed
  then show ?thesis
    using None w' k st evict_loop_rows [OF l] tell_evicted_log by (auto simp: tell_evicted_store)
qed

subsection \<open>Phantom applied rows\<close>

text \<open>
  With no fault, an applied row is forgotten exactly when it is held and the topic holds no output
  of the transaction, and only that row goes; an admission with any output on the topic is never
  touched. The txid is read in lower case.
\<close>

theorem forget_phantom_exact:
  assumes "\<forall>n. e_outcome env n = Done" "ms_inv (w_store w)"
  shows "let t = to_ascii_lowercase t0; (w', r) = forget_phantom_applied env t0 tp w;
             phantom = ((\<forall>i. row (w_store w) (t, i, tp) = None) \<and> does_applied_transaction_exist (w_store w) t tp)
         in r = Inr phantom \<and>
            w_store w' = (if phantom then delete_applied_transaction t tp (w_store w) else w_store w)"
proof -
  let ?t = "to_ascii_lowercase t0"
  have "list_ex (\<lambda>o'. out_topic o' = tp) (find_outputs_for_transaction (w_store w) ?t False)
      \<longleftrightarrow> (\<exists>i. row (w_store w) (?t, i, tp) \<noteq> None)"
    unfolding list_ex_iff outputs_of_transaction [OF assms(2), of ?t _ tp, symmetric] by blast
  then show ?thesis
    using assms(1)
    by (auto simp: forget_phantom_applied_def Let_def store_read_def store_write_def split: prod.splits)
qed

subsection \<open>Telling again\<close>

lemma renotify_services_store:
  "w_store (fst (renotify_services env named t tp o' ls wr)) = w_store (fst wr) \<and>
   rn_outputs (snd (renotify_services env named t tp o' ls wr)) = rn_outputs (snd wr) \<and>
   rn_vouts (snd (renotify_services env named t tp o' ls wr)) = rn_vouts (snd wr)"
proof (induction ls arbitrary: wr)
  case (Cons l ls)
  obtain w r where wr: "wr = (w, r)" by (cases wr)
  show ?case
  proof (cases "renotify_payload named t tp o' (ls_admission_mode l)")
    case None
    then show ?thesis using Cons wr by simp
  next
    case (Some p)
    obtain w1 e where t: "tell env (Told_Admitted (ls_name l) p) w = (w1, e)"
      by (cases "tell env (Told_Admitted (ls_name l) p) w")
    show ?thesis using Cons wr Some t tell_frame [OF t] by (cases e) auto
  qed
qed simp

lemma renotify_outputs_store:
  "w_store (fst (renotify_outputs env named t tp os wr)) = w_store (fst wr) \<and>
   rn_vouts (snd (renotify_outputs env named t tp os wr)) = rn_vouts (snd wr) @ map output_index os"
proof (induction os arbitrary: wr)
  case (Cons o' os)
  obtain w r where wr: "wr = (w, r)" by (cases wr)
  show ?case using Cons wr renotify_services_store by simp
qed simp

text \<open>
  Telling the lookup services again writes none of the engine's tables, whatever faults, and names
  in its report the index of every output of the transaction the topic holds, and no other.
\<close>

theorem renotify_writes_nothing:
  assumes "ms_inv (w_store w)" "renotify_admitted env named t0 tp w = (w', r)"
  shows "w_store w' = w_store w \<and>
    (\<forall>rep. r = Inr rep \<longrightarrow>
       set (rn_vouts rep) = {i. row (w_store w) (to_ascii_lowercase t0, i, tp) \<noteq> None})"
proof -
  let ?t = "to_ascii_lowercase t0"
  obtain w1 x where rd: "store_read env (\<lambda>s. find_outputs_for_transaction s ?t True) w = (w1, x)"
    by (cases "store_read env (\<lambda>s. find_outputs_for_transaction s ?t True) w")
  have st: "w_store w1 = w_store w" using store_read_frame [OF rd] by simp
  show ?thesis
  proof (cases x)
    case (Inl e)
    then show ?thesis using assms(2) rd st by (auto simp: renotify_admitted_def Let_def)
  next
    case (Inr os)
    have os: "os = find_outputs_for_transaction (w_store w) ?t True" by (rule store_read_Inr [OF rd [unfolded Inr]])
    have "map (\<lambda>o'. (output_index o', out_topic o')) os =
        map (\<lambda>o'. (output_index o', out_topic o')) (find_outputs_for_transaction (w_store w) ?t False)"
      by (simp add: os find_outputs_for_transaction_def case_prod_unfold)
    then have eq: "(\<lambda>o'. (output_index o', out_topic o')) ` set os =
        (\<lambda>o'. (output_index o', out_topic o')) ` set (find_outputs_for_transaction (w_store w) ?t False)"
      by (metis list.set_map)
    have "(i, tp) \<in> (\<lambda>o'. (output_index o', out_topic o')) ` set os \<longleftrightarrow> row (w_store w) (?t, i, tp) \<noteq> None" for i
      unfolding eq outputs_of_transaction [OF assms(1), of ?t i tp, symmetric] by (auto simp: image_iff)
    then have "output_index ` set (filter (\<lambda>o'. out_topic o' = tp) os) = {i. row (w_store w) (?t, i, tp) \<noteq> None}"
      by force
    moreover have "r = Inr (snd (renotify_outputs env named ?t tp (filter (\<lambda>o'. out_topic o' = tp) os) (w1, no_renotify)))"
      "w' = fst (renotify_outputs env named ?t tp (filter (\<lambda>o'. out_topic o' = tp) os) (w1, no_renotify))"
      using assms(2) rd Inr by (auto simp: renotify_admitted_def Let_def split: prod.splits)
    ultimately show ?thesis
      using renotify_outputs_store st by (auto simp: no_renotify_def)
  qed
qed

subsection \<open>Instances\<close>

definition admin_env :: engine_env where
  "admin_env = \<lparr>e_outcome = (\<lambda>_. Done), e_clock = (\<lambda>_. 0),
     e_services = [\<lparr>ls_name = ''ls_a'', ls_admission_mode = Admit_LockingScript, ls_spend_mode = Spend_None\<rparr>]\<rparr>"

definition admin_world :: world where
  "admin_world =
     \<lparr>w_store = insert_applied_transaction ''dd'' ''tm_a'' sample_store, w_calls = 0, w_not_landed = {},
      w_log = [], w_report = empty_report\<rparr>"

lemma admin_world_inv: "ms_inv (w_store admin_world)"
  by (simp add: admin_world_def ms_inv_small_steps sample_store_inv)

theorem evict_output_exact_witness:
  "\<exists>w'. evict_output admin_env ''aa'' 0 None admin_world = (w', None) \<and>
     row (w_store w') (''aa'', 0, ''tm_a'') = None"
proof -
  obtain w' e where ev: "evict_output admin_env ''aa'' 0 None admin_world = (w', e)"
    by (cases "evict_output admin_env ''aa'' 0 None admin_world")
  have loop: "\<exists>w2. evict_loop admin_env t i os w = (w2, None)" for t i os w
    by (induction os arbitrary: w) (auto simp: store_write_def admin_env_def)
  obtain w2 where "evict_loop admin_env ''aa'' 0
      (find_outputs_for_transaction (w_store admin_world) ''aa'' False) (tick admin_world) = (w2, None)"
    using loop by blast
  with ev have e: "e = None" by (auto simp: evict_output_def store_read_def admin_env_def)
  with ev evict_output_exact [OF admin_world_inv, of admin_env "''aa''" 0 None w' "(''aa'', 0, ''tm_a'')"]
  show ?thesis by simp
qed

theorem forget_phantom_exact_witness:
  "let t = to_ascii_lowercase ''dd''; (w', r) = forget_phantom_applied admin_env ''dd'' ''tm_a'' admin_world;
       phantom = ((\<forall>i. row (w_store admin_world) (t, i, ''tm_a'') = None) \<and>
                  does_applied_transaction_exist (w_store admin_world) t ''tm_a'')
   in r = Inr phantom \<and>
      w_store w' = (if phantom then delete_applied_transaction t ''tm_a'' (w_store admin_world) else w_store admin_world)"
  by (rule forget_phantom_exact [OF _ admin_world_inv]) (simp add: admin_env_def)

theorem renotify_writes_nothing_witness:
  "w_store (fst (renotify_admitted admin_env (\<lambda>b _. b) ''AA'' ''tm_a'' admin_world)) = w_store admin_world"
proof -
  obtain w' r where rn: "renotify_admitted admin_env (\<lambda>b _. b) ''AA'' ''tm_a'' admin_world = (w', r)"
    by (cases "renotify_admitted admin_env (\<lambda>b _. b) ''AA'' ''tm_a'' admin_world")
  show ?thesis using renotify_writes_nothing [OF admin_world_inv rn] rn by simp
qed

end
