(* ===== verification/Graph_Order.thy ===== *)
theory Graph_Order
  imports Deferred_Graphs
begin

text \<open>
  The order a pending graph is finalized in (\<open>gasp_overlay.rs\<close>, \<open>PendingNode\<close>, \<open>ordered_keys\<close>): depth first from
  the root over the children of each node, a node after its children, each key once. The code keeps an explicit
  stack where a recursion stood before it; the recursion is kept here as the reference definition.
\<close>

record pending_node =
  pn_node :: gasp_node
  pn_spent_by :: "string option"
  pn_children :: "string list"

type_synonym refs = "(string, pending_node) table"

definition children_in :: "refs \<Rightarrow> string \<Rightarrow> string list" where
  "children_in refs k = (case tbl_get refs k of None \<Rightarrow> [] | Some p \<Rightarrow> pn_children p)"

definition held_keys :: "refs \<Rightarrow> string set" where
  "held_keys refs = {k. tbl_get refs k \<noteq> None}"

lemma finite_held_keys [simp]: "finite (held_keys refs)"
  using finite_dom_map_of [of refs] by (simp add: held_keys_def tbl_get_def dom_def)

subsection \<open>The explicit stack\<close>

text \<open>The locals of the loop: the stack has its top first.\<close>

record order_run =
  or_order :: "string list"
  or_visited :: "string list"
  or_stack :: "(string \<times> string list \<times> nat) list"

definition enter_key :: "refs \<Rightarrow> string option \<Rightarrow> order_run \<Rightarrow> order_run" where
  "enter_key refs entering r =
     (case entering of
        None \<Rightarrow> r
      | Some key \<Rightarrow>
          if key \<in> set (or_visited r) then r
          else
            let r1 = r\<lparr>or_visited := key # or_visited r\<rparr>
            in case tbl_get refs key of
                 None \<Rightarrow> r1
               | Some p \<Rightarrow> r1\<lparr>or_stack := (key, pn_children p, 0) # or_stack r1\<rparr>)"

definition unvisited :: "refs \<Rightarrow> order_run \<Rightarrow> nat" where
  "unvisited refs r = card (held_keys refs - set (or_visited r))"

definition stack_left :: "order_run \<Rightarrow> nat" where
  "stack_left r = sum_list (map (\<lambda>(_, cs, i). Suc (length cs - i)) (or_stack r))"

lemma enter_key_cases:
  "or_stack (enter_key refs e r) = or_stack r \<and> unvisited refs (enter_key refs e r) = unvisited refs r
    \<or> unvisited refs (enter_key refs e r) < unvisited refs r"
proof (cases "\<exists>k. e = Some k \<and> k \<notin> set (or_visited r)")
  case True
  then obtain k where k: "e = Some k" "k \<notin> set (or_visited r)" by blast
  show ?thesis
  proof (cases "tbl_get refs k")
    case None
    then have "held_keys refs - insert k (set (or_visited r)) = held_keys refs - set (or_visited r)"
      by (auto simp: held_keys_def)
    with None k show ?thesis by (simp add: enter_key_def unvisited_def)
  next
    case (Some p)
    then have "held_keys refs - insert k (set (or_visited r)) \<subset> held_keys refs - set (or_visited r)"
      using k by (auto simp: held_keys_def)
    then have "card (held_keys refs - insert k (set (or_visited r))) < card (held_keys refs - set (or_visited r))"
      by (intro psubset_card_mono) auto
    with Some k show ?thesis by (simp add: enter_key_def unvisited_def)
  qed
qed (auto simp: enter_key_def split: option.split)

function order_loop :: "refs \<Rightarrow> string option \<Rightarrow> order_run \<Rightarrow> string list" where
  "order_loop refs entering r0 =
     (let r = enter_key refs entering r0
      in case or_stack r of
           [] \<Rightarrow> or_order r
         | (key, cs, i) # rest \<Rightarrow>
             if i < length cs
             then order_loop refs (Some (cs ! i)) (r\<lparr>or_stack := (key, cs, i + 1) # rest\<rparr>)
             else order_loop refs None (r\<lparr>or_order := or_order r @ [key], or_stack := rest\<rparr>))"
  by pat_completeness auto

termination
proof (relation "measures [\<lambda>(refs, e, r). unvisited refs r, \<lambda>(refs, e, r). stack_left r]", goal_cases)
  case (2 refs e r0 r f rest key g cs i)
  then consider "or_stack r0 = (key, cs, i) # rest" "unvisited refs r = unvisited refs r0" | "unvisited refs r < unvisited refs r0"
    using enter_key_cases [of refs e r0] by fastforce
  then show ?case using 2(5) by cases (auto simp: unvisited_def stack_left_def)
next
  case (3 refs e r0 r f rest key g cs i)
  then consider "or_stack r0 = (key, cs, i) # rest" "unvisited refs r = unvisited refs r0" | "unvisited refs r < unvisited refs r0"
    using enter_key_cases [of refs e r0] by fastforce
  then show ?case by cases (auto simp: unvisited_def stack_left_def)
qed simp

declare order_loop.simps [simp del]

definition ordered_keys :: "string \<Rightarrow> refs \<Rightarrow> string list" where
  "ordered_keys gid refs = order_loop refs (Some gid) \<lparr>or_order = [], or_visited = [], or_stack = []\<rparr>"

subsection \<open>The recursion\<close>

lemma unvisited_less:
  assumes "tbl_get refs k = Some p" "k \<notin> set vis" "set (k # vis) \<subseteq> V"
  shows "card (held_keys refs - V) < card (held_keys refs - set vis)"
proof (rule psubset_card_mono)
  show "held_keys refs - V \<subset> held_keys refs - set vis" using assms by (auto simp: held_keys_def)
qed simp

text \<open>The keys of a list visited in turn: what is visited, and the order so far.\<close>

function visit_all :: "refs \<Rightarrow> string list \<Rightarrow> string list \<times> string list \<Rightarrow> string list \<times> string list" where
  "visit_all refs [] s = s"
| "visit_all refs (k # ks) (vis, ord) =
     (if k \<in> set vis then visit_all refs ks (vis, ord)
      else case tbl_get refs k of
             None \<Rightarrow> visit_all refs ks (k # vis, ord)
           | Some p \<Rightarrow>
               let (vis', ord') = visit_all refs (pn_children p) (k # vis, ord)
               in visit_all refs ks (vis', ord' @ [k]))"
  by pat_completeness auto

termination
proof (relation "measures [\<lambda>(refs, ks, s). card (held_keys refs - set (fst s)), \<lambda>(refs, ks, s). length ks]", goal_cases)
  case (3 refs k ks vis ord)
  then have "held_keys refs - set (k # vis) = held_keys refs - set vis" by (auto simp: held_keys_def)
  then show ?case by simp
next
  case (4 refs k ks vis ord p)
  then show ?case using unvisited_less [of refs k p vis "set (k # vis)"] by simp
next
  case (5 refs k ks vis ord p x v o')
  have grows: "visit_all_dom (refs, ks, s) \<Longrightarrow> set (fst s) \<subseteq> set (fst (visit_all refs ks s))" for refs ks s
  proof (induction rule: visit_all.pinduct)
    case (2 refs k ks vis ord)
    show ?case
    proof (cases "k \<in> set vis \<or> tbl_get refs k = None")
      case False
      then obtain p where k: "k \<notin> set vis" "tbl_get refs k = Some p" by blast
      obtain v o' where v: "visit_all refs (pn_children p) (k # vis, ord) = (v, o')" by fastforce
      from 2(4) [OF k] 2(5) [OF k v [symmetric]] v show ?thesis using 2(1) k by (auto simp: visit_all.psimps)
    qed (use 2 in \<open>auto simp: visit_all.psimps\<close>)
  qed (simp add: visit_all.psimps)
  have "set (k # vis) \<subseteq> set v" using grows [OF 5(5)] 5(3,4) by (metis fst_conv)
  then show ?case using unvisited_less [of refs k p vis "set v"] 5(1,2) by simp
qed simp_all

lemma visit_all_append: "visit_all refs (xs @ ys) s = visit_all refs ys (visit_all refs xs s)"
proof (induction refs xs s rule: visit_all.induct)
  case (2 refs k ks vis ord)
  then show ?case by (auto split: option.split prod.split)
qed simp

subsection \<open>The stack is the recursion\<close>

text \<open>What is left to do once the frames of the stack are open.\<close>

primrec unwind :: "refs \<Rightarrow> (string \<times> string list \<times> nat) list \<Rightarrow> string list \<times> string list \<Rightarrow> string list \<times> string list" where
  "unwind refs [] s = s"
| "unwind refs (f # st) s =
     (case f of (k, cs, i) \<Rightarrow> case visit_all refs (drop i cs) s of (v, o') \<Rightarrow> unwind refs st (v, o' @ [k]))"

definition run_of :: "order_run \<Rightarrow> string list \<times> string list" where
  "run_of r = (or_visited r, or_order r)"

lemma unwind_enter:
  "unwind refs (or_stack (enter_key refs e r)) (run_of (enter_key refs e r)) =
   unwind refs (or_stack r) (visit_all refs (case e of None \<Rightarrow> [] | Some k \<Rightarrow> [k]) (run_of r))"
  by (auto simp: enter_key_def run_of_def split: option.split prod.split)

lemma order_loop_unwind:
  "order_loop refs e r = snd (unwind refs (or_stack r) (visit_all refs (case e of None \<Rightarrow> [] | Some k \<Rightarrow> [k]) (run_of r)))"
proof (induction refs e r rule: order_loop.induct)
  case (1 refs e r0)
  let ?r = "enter_key refs e r0"
  have "order_loop refs e r0 = snd (unwind refs (or_stack ?r) (run_of ?r))"
  proof (cases "or_stack ?r")
    case Nil
    then show ?thesis by (simp add: order_loop.simps [of refs e r0] run_of_def Let_def)
  next
    case (Cons f rest)
    obtain key cs i where f: "f = (key, cs, i)" by (cases f)
    show ?thesis
    proof (cases "i < length cs")
      case True
      have "drop i cs = [cs ! i] @ drop (i + 1) cs" using True by (simp add: Cons_nth_drop_Suc)
      then have v: "visit_all refs (drop i cs) s = visit_all refs (drop (i + 1) cs) (visit_all refs [cs ! i] s)" for s
        by (metis visit_all_append)
      show ?thesis using 1(1) [OF refl Cons f [symmetric] refl True] True
        by (simp add: order_loop.simps [of refs e r0] Let_def Cons f run_of_def v del: visit_all.simps)
    next
      case False
      show ?thesis using 1(2) [OF refl Cons f [symmetric] refl False] False
        by (simp add: order_loop.simps [of refs e r0] Let_def Cons f run_of_def)
    qed
  qed
  then show ?case by (simp only: unwind_enter)
qed

lemma ordered_keys_visit: "ordered_keys gid refs = snd (visit_all refs [gid] ([], []))"
  by (simp add: ordered_keys_def order_loop_unwind run_of_def)

subsection \<open>What the order is\<close>

definition links :: "refs \<Rightarrow> (string \<times> string) set" where
  "links refs = {(k, c). c \<in> set (children_in refs k)}"

lemma linksI: "tbl_get refs k = Some p \<Longrightarrow> c \<in> set (pn_children p) \<Longrightarrow> (k, c) \<in> links refs"
  by (simp add: links_def children_in_def)

lemma links_held: "(k, c) \<in> links refs \<Longrightarrow> k \<in> held_keys refs"
  by (cases "tbl_get refs k") (auto simp: links_def children_in_def held_keys_def)

text \<open>The visited set holds the keys asked for, the children of the keys it lists, and nothing the keys do not reach.\<close>

definition visited_ok :: "refs \<Rightarrow> string list \<Rightarrow> string list \<Rightarrow> string list \<Rightarrow> string list \<Rightarrow> bool" where
  "visited_ok refs ks vis vis' ext \<longleftrightarrow>
     set vis \<subseteq> set vis' \<and> set ks \<subseteq> set vis' \<and> set ext = (set vis' - set vis) \<inter> held_keys refs \<and> distinct ext
       \<and> (\<forall>k \<in> set ext. set (children_in refs k) \<subseteq> set vis')
       \<and> (\<forall>x \<in> set vis' - set vis. \<exists>k \<in> set ks. (k, x) \<in> (links refs)\<^sup>*)"

text \<open>A child stands before its parent, or was open when the parent was visited, or the two are on a cycle.\<close>

definition order_ok :: "refs \<Rightarrow> string list \<Rightarrow> string list \<Rightarrow> bool" where
  "order_ok refs vis ext \<longleftrightarrow>
     (\<forall>xs k ys c. ext = xs @ k # ys \<longrightarrow> (k, c) \<in> links refs \<longrightarrow> c \<in> held_keys refs
        \<longrightarrow> c \<in> set vis \<or> c \<in> set xs \<or> (c, k) \<in> (links refs)\<^sup>*)"

lemma order_okD: "order_ok refs vis ext \<Longrightarrow> ext = xs @ k # ys \<Longrightarrow> (k, c) \<in> links refs \<Longrightarrow> c \<in> held_keys refs
    \<Longrightarrow> c \<in> set vis \<or> c \<in> set xs \<or> (c, k) \<in> (links refs)\<^sup>*"
  by (simp add: order_ok_def)

lemma order_ok_append:
  assumes "order_ok refs vis ext" "order_ok refs vis' ext'" "set vis' \<inter> held_keys refs \<subseteq> set vis \<union> set ext"
  shows "order_ok refs vis (ext @ ext')"
  unfolding order_ok_def
proof (intro allI impI)
  fix xs k ys c
  assume e: "ext @ ext' = xs @ k # ys" and l: "(k, c) \<in> links refs" and h: "c \<in> held_keys refs"
  from e consider us where "ext = xs @ k # us" | us where "xs = ext @ us" "ext' = us @ k # ys"
    by (auto simp: append_eq_append_conv2 append_eq_Cons_conv Cons_eq_append_conv)
  then show "c \<in> set vis \<or> c \<in> set xs \<or> (c, k) \<in> (links refs)\<^sup>*"
  proof cases
    case 1
    with order_okD [OF assms(1) _ l h] show ?thesis by blast
  next
    case 2
    with order_okD [OF assms(2) _ l h] assms(3) h show ?thesis by auto
  qed
qed

lemma visited_okD:
  assumes "visited_ok refs ks vis vis' ext"
  shows "set vis \<subseteq> set vis'" "set ks \<subseteq> set vis'" "set ext = (set vis' - set vis) \<inter> held_keys refs" "distinct ext"
    "k \<in> set ext \<Longrightarrow> set (children_in refs k) \<subseteq> set vis'"
    "x \<in> set vis' \<Longrightarrow> x \<notin> set vis \<Longrightarrow> \<exists>k \<in> set ks. (k, x) \<in> (links refs)\<^sup>*"
  using assms by (auto simp: visited_ok_def)

lemma visited_ok_skip:
  assumes "visited_ok refs ks (k # vis) vis' ext" "tbl_get refs k = None" "k \<notin> set vis"
  shows "visited_ok refs (k # ks) vis vis' ext"
  using assms by (auto simp: visited_ok_def held_keys_def)

lemma order_ok_skip: "order_ok refs (k # vis) ext \<Longrightarrow> tbl_get refs k = None \<Longrightarrow> order_ok refs vis ext"
  unfolding order_ok_def [of refs vis] by (auto simp: held_keys_def dest: order_okD)

lemma visited_ok_reach:
  assumes "visited_ok refs (pn_children p) (k # vis) v ext" "tbl_get refs k = Some p" "x \<in> set v - set vis"
  shows "(k, x) \<in> (links refs)\<^sup>*"
proof (cases "x = k")
  case False
  then obtain c where "c \<in> set (pn_children p)" "(c, x) \<in> (links refs)\<^sup>*"
    using visited_okD(6) [OF assms(1), of x] assms(3) by auto
  then show ?thesis using linksI [OF assms(2)] by (meson converse_rtrancl_into_rtrancl)
qed simp

lemma visited_ok_node:
  assumes a: "visited_ok refs (pn_children p) (k # vis) v ext1" and b: "visited_ok refs ks v vis' ext2"
    and k: "tbl_get refs k = Some p" "k \<notin> set vis"
  shows "visited_ok refs (k # ks) vis vis' (ext1 @ k # ext2)"
proof -
  have kv: "k \<in> set v" "k \<in> held_keys refs" using a k by (auto simp: visited_ok_def held_keys_def)
  note A = visited_okD [OF a] and B = visited_okD [OF b]
  show ?thesis unfolding visited_ok_def
  proof (intro conjI ballI)
    show "set vis \<subseteq> set vis'" "set (k # ks) \<subseteq> set vis'" using A(1) B(1,2) by auto
    show "set (ext1 @ k # ext2) = (set vis' - set vis) \<inter> held_keys refs" using A(1,3) B(1,3) kv k(2) by auto
    show "distinct (ext1 @ k # ext2)" using A(1,3,4) B(3,4) kv by auto
  next
    fix j assume "j \<in> set (ext1 @ k # ext2)"
    then consider "j \<in> set ext1" | "j = k" | "j \<in> set ext2" by auto
    then show "set (children_in refs j) \<subseteq> set vis'"
      using A(2,5) B(1,5) k(1) by cases (auto simp: children_in_def)
  next
    fix x assume x: "x \<in> set vis' - set vis"
    show "\<exists>c \<in> set (k # ks). (c, x) \<in> (links refs)\<^sup>*"
    proof (cases "x \<in> set v")
      case True
      with x visited_ok_reach [OF a k(1)] show ?thesis by auto
    next
      case False
      with x B(6) [of x] show ?thesis by auto
    qed
  qed
qed

lemma order_ok_node:
  assumes a: "visited_ok refs (pn_children p) (k # vis) v ext1" and b: "visited_ok refs ks v vis' ext2"
    and k: "tbl_get refs k = Some p" and o1: "order_ok refs (k # vis) ext1" and o2: "order_ok refs v ext2"
  shows "order_ok refs vis (ext1 @ k # ext2)"
proof -
  have held: "set v \<inter> held_keys refs \<subseteq> set vis \<union> set (ext1 @ [k])" using a by (auto simp: visited_ok_def)
  have "order_ok refs vis ext1" unfolding order_ok_def
  proof (intro allI impI)
    fix xs j ys c
    assume e: "ext1 = xs @ j # ys" and l: "(j, c) \<in> links refs" and h: "c \<in> held_keys refs"
    have "j \<in> set v - set vis" using a e by (auto simp: visited_ok_def)
    then have "(k, j) \<in> (links refs)\<^sup>*" by (rule visited_ok_reach [OF a k])
    with order_okD [OF o1 e l h] show "c \<in> set vis \<or> c \<in> set xs \<or> (c, j) \<in> (links refs)\<^sup>*" by auto
  qed
  moreover have "order_ok refs (vis @ ext1) [k]" unfolding order_ok_def
  proof (intro allI impI)
    fix xs j ys c
    assume e: "[k] = xs @ j # ys" and l: "(j, c) \<in> links refs" and h: "c \<in> held_keys refs"
    have j: "j = k" using e by (cases xs) auto
    then have "c \<in> set v" using l a k by (auto simp: visited_ok_def links_def children_in_def)
    with held h j show "c \<in> set (vis @ ext1) \<or> c \<in> set xs \<or> (c, j) \<in> (links refs)\<^sup>*" by auto
  qed
  ultimately have "order_ok refs vis (ext1 @ [k])" by (rule order_ok_append) auto
  from order_ok_append [OF this o2 held] show ?thesis by simp
qed

lemma visit_all_ok:
  "visit_all refs ks (vis, ord) = (vis', ord') \<Longrightarrow> \<exists>ext. ord' = ord @ ext \<and> visited_ok refs ks vis vis' ext \<and> order_ok refs vis ext"
proof (induction refs ks "(vis, ord)" arbitrary: vis ord vis' ord' rule: visit_all.induct)
  case (1 refs vis ord)
  then show ?case by (simp add: visited_ok_def order_ok_def)
next
  case (2 refs k ks vis ord)
  consider "k \<in> set vis" | "k \<notin> set vis" "tbl_get refs k = None" | p where "k \<notin> set vis" "tbl_get refs k = Some p" by blast
  then show ?case
  proof cases
    case 1
    with 2(1) [of vis' ord'] 2(5) show ?thesis by (auto simp: visited_ok_def)
  next
    case a: 2
    have "visit_all refs ks (k # vis, ord) = (vis', ord')" using 2(5) a by simp
    from 2(2) [OF a this] obtain ext where "ord' = ord @ ext" "visited_ok refs ks (k # vis) vis' ext"
      "order_ok refs (k # vis) ext" by blast
    with visited_ok_skip [OF _ a(2,1)] order_ok_skip [OF _ a(2)] show ?thesis by blast
  next
    case a: (3 p)
    obtain v o1 where v: "visit_all refs (pn_children p) (k # vis, ord) = (v, o1)" by fastforce
    from 2(3) [OF a v] obtain ext1 where e1: "o1 = ord @ ext1" "visited_ok refs (pn_children p) (k # vis) v ext1"
      "order_ok refs (k # vis) ext1" by blast
    have run: "visit_all refs ks (v, o1 @ [k]) = (vis', ord')" using 2(5) a by (simp add: v)
    from 2(4) [OF a v [symmetric] refl run] obtain ext2 where "ord' = (o1 @ [k]) @ ext2" "visited_ok refs ks v vis' ext2"
      "order_ok refs v ext2" by blast
    note e2 = this
    show ?thesis
    proof (intro exI conjI)
      show "ord' = ord @ (ext1 @ k # ext2)" using e1 e2 by simp
      show "visited_ok refs (k # ks) vis vis' (ext1 @ k # ext2)" by (rule visited_ok_node [OF e1(2) e2(2) a(2,1)])
      show "order_ok refs vis (ext1 @ k # ext2)" by (rule order_ok_node [OF e1(2) e2(2) a(2) e1(3) e2(3)])
    qed
  qed
qed

lemma ordered_keys_run:
  obtains vis where "visited_ok refs [gid] [] vis (ordered_keys gid refs)" "order_ok refs [] (ordered_keys gid refs)"
  using visit_all_ok [of refs "[gid]" "[]" "[]"] by (cases "visit_all refs [gid] ([], [])") (auto simp: ordered_keys_visit)

lemma set_ordered_keys: "set (ordered_keys gid refs) = {k \<in> held_keys refs. (gid, k) \<in> (links refs)\<^sup>*}"
proof -
  obtain vis where v: "visited_ok refs [gid] [] vis (ordered_keys gid refs)" using ordered_keys_run .
  note V = visited_okD [OF v]
  have closed: "c \<in> set vis" if "k \<in> set vis" "(k, c) \<in> links refs" for k c
    using V(3) V(5) [of k] links_held [OF that(2)] that by (auto simp: links_def)
  have "k \<in> set vis" if "(gid, k) \<in> (links refs)\<^sup>*" for k
    using that by induction (use V(2) closed in auto)
  moreover have "(gid, k) \<in> (links refs)\<^sup>*" if "k \<in> set vis" for k
    using V(6) [of k] that by simp
  ultimately show ?thesis using V(3) by auto
qed

lemma distinct_ordered_keys: "distinct (ordered_keys gid refs)"
  by (rule ordered_keys_run) (rule visited_okD(4))

lemma last_ordered_keys: "tbl_get refs gid \<noteq> None \<Longrightarrow> \<exists>ks. ordered_keys gid refs = ks @ [gid]"
  by (auto simp: ordered_keys_visit split: prod.split)

text \<open>
  C22: The explicit stack lists the nodes of a graph as the recursion it replaced did. The list is the nodes the
  root reaches over the children of each, each once, the root last; a child that is in the graph stands before its
  parent, unless the two are on a cycle.
\<close>

theorem finalize_order:
  "ordered_keys gid refs = snd (visit_all refs [gid] ([], [])) \<and>
   distinct (ordered_keys gid refs) \<and>
   set (ordered_keys gid refs) = {k \<in> held_keys refs. (gid, k) \<in> (links refs)\<^sup>*} \<and>
   (tbl_get refs gid \<noteq> None \<longrightarrow> (\<exists>ks. ordered_keys gid refs = ks @ [gid])) \<and>
   (\<forall>xs k ys c. ordered_keys gid refs = xs @ k # ys \<longrightarrow> (k, c) \<in> links refs \<longrightarrow> c \<in> held_keys refs
      \<longrightarrow> c \<in> set xs \<or> (c, k) \<in> (links refs)\<^sup>*)"
proof (intro conjI impI allI)
  show "ordered_keys gid refs = snd (visit_all refs [gid] ([], []))" by (rule ordered_keys_visit)
  show "distinct (ordered_keys gid refs)" by (rule distinct_ordered_keys)
  show "set (ordered_keys gid refs) = {k \<in> held_keys refs. (gid, k) \<in> (links refs)\<^sup>*}" by (rule set_ordered_keys)
  show "tbl_get refs gid \<noteq> None \<Longrightarrow> \<exists>ks. ordered_keys gid refs = ks @ [gid]" by (rule last_ordered_keys)
  fix xs k ys c
  assume "ordered_keys gid refs = xs @ k # ys" "(k, c) \<in> links refs" "c \<in> held_keys refs"
  then show "c \<in> set xs \<or> (c, k) \<in> (links refs)\<^sup>*"
    using ordered_keys_run [of refs gid] order_okD [of refs "[]"] by (metis empty_iff list.set(1))
qed

definition bare_node :: "string \<Rightarrow> gasp_node" where
  "bare_node t = \<lparr>graph_id = ''r.0'', raw_tx = t, node_output_index = 0, proof_hex = None, tx_metadata = None,
     output_metadata = None, node_inputs = None\<rparr>"

definition diamond :: refs where
  "diamond = [(''r.0'', \<lparr>pn_node = bare_node ''r'', pn_spent_by = None, pn_children = [''a.0'', ''b.0'']\<rparr>),
     (''a.0'', \<lparr>pn_node = bare_node ''a'', pn_spent_by = Some ''r.0'', pn_children = [''c.0'']\<rparr>),
     (''b.0'', \<lparr>pn_node = bare_node ''b'', pn_spent_by = Some ''r.0'', pn_children = [''c.0'', ''d.0'']\<rparr>),
     (''c.0'', \<lparr>pn_node = bare_node ''c'', pn_spent_by = Some ''a.0'', pn_children = []\<rparr>)]"

theorem finalize_order_witness:
  "ordered_keys ''r.0'' diamond = [''c.0'', ''a.0'', ''b.0'', ''r.0''] \<and> (\<exists>ks. ordered_keys ''r.0'' diamond = ks @ [''r.0''])"
proof -
  have "snd (visit_all diamond [''r.0''] ([], [])) = [''c.0'', ''a.0'', ''b.0'', ''r.0'']"
    by (simp add: diamond_def tbl_get_def)
  with finalize_order [of "''r.0''" diamond] show ?thesis by (simp add: diamond_def tbl_get_def)
qed

end
