(* ===== verification/Gasp_Base.thy ===== *)
theory Gasp_Base
  imports Deferred_Graphs Sync_Rules
begin

text \<open>
  The ground of a GASP sync (\<open>gasp.rs\<close>, \<open>GASPSync\<close>): its errors, what an awaited call answers, the
  traits it talks through (\<open>GASPStorage\<close>, \<open>GASPRemote\<close>, \<open>AncestorFetcher\<close>, \<open>FinalizedGraphHook\<close>) as the
  argument \<open>gasp_env\<close>, and the state \<open>GASPSync\<close> keeps.

  An awaited call may never come back: a future raced against the slice of one node is dropped by it
  (\<open>Cut_Node\<close>), and the whole sync is dropped by the per-peer deadline (\<open>Cut_Sync\<close>). What was done before
  the drop stays done, as the state the call leaves. A sync under a per-graph budget is modelled
  (\<open>Engine::set_graph_budget\<close>); the batch request of a page's roots is not (each root is asked on its own),
  nor are the counts a sync only reports. A score is the whole number its \<open>f64\<close> carries.
\<close>

datatype gasp_error =
    DefinitiveNotFound string
  | CourierBudget
  | VersionMismatch nat nat
  | InvalidTimestamp string
  | NodeNotFound string
  | ValidationFailed string
  | RemoteError string
  | RouteFault string string
  | StorageError string
  | AnchorUnavailable string
  | AnchorWalkHeld string
  | OtherError string

subsection \<open>Awaited calls\<close>

datatype 'a answer = Ok 'a | Err gasp_error | Cut_Node | Cut_Sync

type_synonym ('g, 'a) act = "'g \<Rightarrow> 'g \<times> 'a answer"

definition ok :: "'a \<Rightarrow> ('g, 'a) act" where
  "ok x g = (g, Ok x)"

definition err :: "gasp_error \<Rightarrow> ('g, 'a) act" where
  "err e g = (g, Err e)"

definition got :: "('g \<Rightarrow> 'a) \<Rightarrow> ('g, 'a) act" where
  "got f g = (g, Ok (f g))"

definition upd :: "('g \<Rightarrow> 'g) \<Rightarrow> ('g, unit) act" where
  "upd f g = (f g, Ok ())"

definition seq :: "('g, 'a) act \<Rightarrow> ('a \<Rightarrow> ('g, 'b) act) \<Rightarrow> ('g, 'b) act" where
  "seq m k g =
     (case m g of
        (g1, Ok x) \<Rightarrow> k x g1
      | (g1, Err e) \<Rightarrow> (g1, Err e)
      | (g1, Cut_Node) \<Rightarrow> (g1, Cut_Node)
      | (g1, Cut_Sync) \<Rightarrow> (g1, Cut_Sync))"

text \<open>A call whose error is looked at, and one whose error is dropped (\<open>let _ =\<close>).\<close>

definition caught :: "('g, 'a) act \<Rightarrow> ('g, gasp_error + 'a) act" where
  "caught m g =
     (case m g of
        (g1, Ok x) \<Rightarrow> (g1, Ok (Inr x))
      | (g1, Err e) \<Rightarrow> (g1, Ok (Inl e))
      | (g1, Cut_Node) \<Rightarrow> (g1, Cut_Node)
      | (g1, Cut_Sync) \<Rightarrow> (g1, Cut_Sync))"

definition ignored :: "('g, 'a) act \<Rightarrow> ('g, unit) act" where
  "ignored m = seq (caught m) (\<lambda>_. ok ())"

text \<open>\<open>race_or_deadline\<close>: \<open>None\<close> when the deadline dropped the call.\<close>

definition raced :: "('g, 'a) act \<Rightarrow> ('g, (gasp_error + 'a) option) act" where
  "raced m g =
     (case m g of
        (g1, Ok x) \<Rightarrow> (g1, Ok (Some (Inr x)))
      | (g1, Err e) \<Rightarrow> (g1, Ok (Some (Inl e)))
      | (g1, Cut_Node) \<Rightarrow> (g1, Ok None)
      | (g1, Cut_Sync) \<Rightarrow> (g1, Cut_Sync))"

subsection \<open>The traits\<close>

record gasp_output =
  go_txid :: string
  go_index :: nat
  go_score :: nat

definition go_outpoint :: "gasp_output \<Rightarrow> string" where
  "go_outpoint u = to_graph_id (Outpoint (go_txid u) (go_index u))"

definition as_u64 :: "nat \<Rightarrow> nat" where
  "as_u64 n = min n U64_MAX"

record pass_cap =
  pc_calls :: nat
  pc_bytes :: nat
  pc_nodes :: nat

definition NO_CAP :: pass_cap where
  "NO_CAP = \<lparr>pc_calls = 2 ^ 32 - 1, pc_bytes = U64_MAX, pc_nodes = 2 ^ 32 - 1\<rparr>"

definition cap_spent :: "pass_cap \<Rightarrow> bool" where
  "cap_spent c \<longleftrightarrow> pc_calls c = 0 \<or> pc_bytes c = 0 \<or> pc_nodes c = 0"

record 'w gasp_env =
  st_sync_expiry :: "gasp_node \<Rightarrow> string \<Rightarrow> 'w \<Rightarrow> gasp_error + nat option"
  st_find_known_utxos :: "('w, gasp_output list) act"
  st_find_needed_inputs :: "gasp_node \<Rightarrow> ('w, (string \<times> bool) list option) act"
  st_append_to_graph :: "gasp_node \<Rightarrow> string option \<Rightarrow> ('w, unit) act"
  st_validate_graph_anchor :: "string \<Rightarrow> ('w, unit) act"
  st_finalize_graph :: "string \<Rightarrow> ('w, unit) act"
  st_discard_graph :: "string \<Rightarrow> ('w, unit) act"
  st_load_deferred_graphs :: "('w, deferred_graph_key list) act"
  st_get_deferred_graph :: "string \<Rightarrow> ('w, deferred_graph option) act"
  st_save_deferred_graph :: "deferred_graph \<Rightarrow> ('w, deferred_graph_save) act"
  st_delete_deferred_graph :: "string \<Rightarrow> ('w, unit) act"
  st_read_fault_memos :: "string list option \<Rightarrow> ('w, fault_memo list) act"
  st_reserve_unanchorable_retry :: "deferred_graph \<Rightarrow> ('w, bool) act"
  st_remember_expired :: "string \<Rightarrow> nat \<Rightarrow> ('w, unit) act"
  st_remembered_expired :: "string list \<Rightarrow> ('w, string list) act"
  st_open_page :: "'w \<Rightarrow> 'w"
  st_close_page :: "('w, unit) act"
  st_hydrate_gasp_node :: "string \<Rightarrow> nat \<Rightarrow> ('w, string \<times> string option) act"
  st_prefetch_page :: "string list \<Rightarrow> ('w, unit) act"
  rm_get_initial_response :: "nat \<Rightarrow> ('w, gasp_output list) act"
  rm_request_node :: "string \<Rightarrow> string \<Rightarrow> nat \<Rightarrow> bool \<Rightarrow> ('w, gasp_node) act"
  rm_submit_node :: "gasp_node \<Rightarrow> ('w, (string \<times> bool) list option) act"
  fe_fetch_ancestor :: "(string \<Rightarrow> ('w, string \<times> string option) act) option"
  fe_verified_proof_for :: "string \<Rightarrow> ('w, string option) act"
  hk_graph_completed :: "('w, unit) act option"
  tm_now_secs :: "'w \<Rightarrow> nat"
  tm_deadline_due :: "('w, bool) act"
  tm_half_due :: "('w, bool) act option"
  tm_share_due :: "('w, bool) act option"
  tm_request_stop :: "('w \<Rightarrow> bool) option"
  tm_root_exhausted :: "'w \<Rightarrow> bool"
  pb_pending :: "'w \<Rightarrow> bool"
  pb_flush :: "('w, unit) act"
  gb_pass :: pass_cap
  cf_unidirectional :: bool
  tx_id_of_hex :: "string \<Rightarrow> string option"

subsection \<open>The state of a sync\<close>

record walk =
  wk_record :: deferred_graph
  wk_seen :: "string list"
  calls_this_pass :: nat
  bytes_this_pass :: nat
  nodes_this_pass :: nat
  wk_resumed :: bool
  wk_cap :: pass_cap
  nodes_at_start :: nat
  gone_on :: bool
  wk_half :: bool
  wk_struck :: "deferred_graph option"

record 'w gasp =
  g_world :: 'w
  g_expired :: "string list"
  g_deferred :: "string list"
  g_fault_records :: "string list"
  g_held_records :: nat
  g_pruned :: "string list"
  g_absent :: "string list"
  g_refused_expiry :: "nat option"
  g_root_expiries :: "(string, nat) table"
  g_resume_left :: pass_cap
  g_share_started :: bool
  g_calls_made :: nat
  g_bytes_fetched :: nat
  g_nodes_appended :: nat
  g_resume_idle :: "(nat \<times> nat) option"
  g_pass_saved :: bool
  g_walk :: "walk option"
  g_last_fault :: "string option"

definition io :: "('w, 'a) act \<Rightarrow> ('w gasp, 'a) act" where
  "io m g = (case m (g_world g) of (w, a) \<Rightarrow> (g\<lparr>g_world := w\<rparr>, a))"

definition now_secs :: "'w gasp_env \<Rightarrow> 'w gasp \<Rightarrow> nat" where
  "now_secs E g = tm_now_secs E (g_world g)"

text \<open>Sets kept as lists.\<close>

definition ins :: "'a \<Rightarrow> 'a list \<Rightarrow> 'a list" where
  "ins x xs = (if x \<in> set xs then xs else x # xs)"

definition del :: "'a \<Rightarrow> 'a list \<Rightarrow> 'a list" where
  "del x xs = filter (\<lambda>y. y \<noteq> x) xs"

lemma set_ins [simp]: "set (ins x xs) = insert x (set xs)"
  by (auto simp: ins_def)

lemma set_del [simp]: "set (del x xs) = set xs - {x}"
  by (auto simp: del_def)

subsection \<open>Fault classes\<close>

definition COURIER :: string where "COURIER = ''courier''"
definition NOT_FOUND :: string where "NOT_FOUND = ''not_found''"
definition NOT_SERVED :: string where "NOT_SERVED = ''not_served''"
definition PEER :: string where "PEER = ''peer''"
definition VERIFICATION :: string where "VERIFICATION = ''verification''"
definition OTHER :: string where "OTHER = ''other''"
definition ROUTE :: string where "ROUTE = ''route''"

definition strikes :: "string \<Rightarrow> bool" where
  "strikes c \<longleftrightarrow> c \<in> {COURIER, NOT_SERVED, VERIFICATION, NOT_FOUND}"

definition peer_fault_class :: "gasp_error \<Rightarrow> string" where
  "peer_fault_class e = (case e of NodeNotFound _ \<Rightarrow> NOT_FOUND | RouteFault _ _ \<Rightarrow> ROUTE | _ \<Rightarrow> PEER)"

text \<open>A failure marked with its class (\<open>faulted\<close>): a storage fault marks nothing.\<close>

definition faulted :: "(gasp_error \<Rightarrow> string) \<Rightarrow> ('w gasp, 'a) act \<Rightarrow> ('w gasp, 'a) act" where
  "faulted cls m g =
     (case m g of
        (g1, Err e) \<Rightarrow>
          ((case e of StorageError _ \<Rightarrow> g1 | _ \<Rightarrow> g1\<lparr>g_last_fault := Some (cls e)\<rparr>), Err e)
      | r \<Rightarrow> r)"

definition DEFERRED_GRAPH_MAX_PASSES :: nat where "DEFERRED_GRAPH_MAX_PASSES = 60"
definition DEFERRED_GRAPHS_PER_PEER_TOPIC :: nat where "DEFERRED_GRAPHS_PER_PEER_TOPIC = 16"
definition DEFERRED_GRAPH_MAX_IDLE_FAULTS :: nat where "DEFERRED_GRAPH_MAX_IDLE_FAULTS = 3"
definition DEADLINE_STALL_DEFERRAL_RUNS :: nat where "DEADLINE_STALL_DEFERRAL_RUNS = 3"
definition UNANCHORABLE_AFTER_FAULTED_RUNS :: nat where "UNANCHORABLE_AFTER_FAULTED_RUNS = 3"
definition UNANCHORABLE_RETRY_SECS :: nat where "UNANCHORABLE_RETRY_SECS = 6 * 3600"
definition ABSENCE_GAP_SECS :: nat where "ABSENCE_GAP_SECS = 60"
definition IDLE_RESUMES_BEFORE_BACKOFF :: nat where "IDLE_RESUMES_BEFORE_BACKOFF = 3"
definition IDLE_RESUME_RETRY_SECS :: nat where "IDLE_RESUME_RETRY_SECS = UNANCHORABLE_RETRY_SECS"

subsection \<open>Reading a run\<close>

lemma seq_Ok: "m g = (g1, Ok x) \<Longrightarrow> seq m k g = k x g1"
  by (simp add: seq_def)

lemma seq_elim:
  assumes "seq m k g = (g', a)"
  obtains x g1 where "m g = (g1, Ok x)" "k x g1 = (g', a)"
  | e where "m g = (g', Err e)" "a = Err e"
  | "m g = (g', Cut_Node)" "a = Cut_Node"
  | "m g = (g', Cut_Sync)" "a = Cut_Sync"
  using assms by (auto simp: seq_def split: prod.splits answer.splits)

lemma act_simps [simp]:
  "ok x g = (g, Ok x)" "err e g = (g, Err e)" "got f g = (g, Ok (f g))" "upd h g = (h g, Ok ())"
  by (simp_all add: ok_def err_def got_def upd_def)

lemma seq_pure [simp]:
  "seq (ok x) k = k x" "seq (err e) k = err e" "seq (got f) k g = k (f g) g" "seq (upd h) k g = k () (h g)"
  by (auto simp: seq_def)

text \<open>
  What an action keeps: an invariant of the state, whatever it answers. \<open>keeps\<close> composes over the
  combinators, so a routine keeps what each of its calls keeps.
\<close>

definition keeps :: "('g \<Rightarrow> bool) \<Rightarrow> ('g, 'a) act \<Rightarrow> bool" where
  "keeps P m \<longleftrightarrow> (\<forall>g. P g \<longrightarrow> P (fst (m g)))"

lemma keepsD: "keeps P m \<Longrightarrow> m g = (g', a) \<Longrightarrow> P g \<Longrightarrow> P g'"
  unfolding keeps_def by (metis fst_conv)

lemma keepsI: "(\<And>g g' a. m g = (g', a) \<Longrightarrow> P g \<Longrightarrow> P g') \<Longrightarrow> keeps P m"
  unfolding keeps_def by (metis prod.collapse)

named_theorems keeps_rules \<open>what the combinators and routines of a sync keep\<close>

lemma keeps_ok [simp, keeps_rules]: "keeps P (ok x)" "keeps P (err e)" "keeps P (got f)"
  by (auto simp: keeps_def)

lemma keeps_upd [keeps_rules]: "(\<And>g. P g \<Longrightarrow> P (f g)) \<Longrightarrow> keeps P (upd f)"
  by (auto simp: keeps_def)

lemma keeps_seq [keeps_rules]: "keeps P m \<Longrightarrow> (\<And>x. keeps P (k x)) \<Longrightarrow> keeps P (seq m k)"
  by (rule keepsI) (erule seq_elim; blast dest: keepsD)

lemma keeps_caught [keeps_rules]: "keeps P m \<Longrightarrow> keeps P (caught m)"
  by (rule keepsI) (auto simp: caught_def split: prod.splits answer.splits dest: keepsD)

lemma keeps_ignored [keeps_rules]: "keeps P m \<Longrightarrow> keeps P (ignored m)"
  unfolding ignored_def by (intro keeps_seq keeps_caught) simp_all

lemma keeps_raced [keeps_rules]: "keeps P m \<Longrightarrow> keeps P (raced m)"
  by (rule keepsI) (auto simp: raced_def split: prod.splits answer.splits dest: keepsD)

lemma keeps_if [keeps_rules]: "(b \<Longrightarrow> keeps P m) \<Longrightarrow> (\<not> b \<Longrightarrow> keeps P n) \<Longrightarrow> keeps P (if b then m else n)"
  by simp

lemma keeps_faulted [keeps_rules]:
  assumes "keeps P m" "\<And>g x. P g \<Longrightarrow> P (g\<lparr>g_last_fault := x\<rparr>)"
  shows "keeps P (faulted c m)"
proof (rule keepsI)
  fix g g' a
  assume run: "faulted c m g = (g', a)" and g: "P g"
  obtain g1 b where m: "m g = (g1, b)" by fastforce
  have "P g1" using keepsD [OF assms(1) m g] .
  with run m assms(2) show "P g'" by (auto simp: faulted_def split: answer.splits gasp_error.splits)
qed

lemma keeps_io [keeps_rules]: "(\<And>g w. P g \<Longrightarrow> P (g\<lparr>g_world := w\<rparr>)) \<Longrightarrow> keeps P (io m)"
  by (rule keepsI) (auto simp: io_def split: prod.splits)

end
