(* ===== verification/Graph_Assembly.thy ===== *)
theory Graph_Assembly
  imports Graph_Order Gasp_Base
begin

text \<open>
  The BEEFs of a pending graph (\<open>gasp_overlay.rs\<close>, \<open>GraphAssembly\<close>): each transaction parsed once, each node
  naming its sources by key, the check that every BEEF assembles, and the walk that collects the transactions of one.
  What the SDK does with bytes is a parameter: hex, the hash, a transaction and its id, a merkle path (its type is
  a parameter too), and the serialization of a BEEF from its bumps and transactions.
\<close>

record 'm sdk =
  sk_from_hex :: "string \<Rightarrow> string + bytes"
  sk_sha256 :: "bytes \<Rightarrow> bytes"
  sk_from_binary :: "bytes \<Rightarrow> string + transaction"
  sk_id :: "transaction \<Rightarrow> txid"
  sk_proof :: "string \<Rightarrow> string + 'm"
  sk_height :: "'m \<Rightarrow> nat"
  sk_root :: "'m \<Rightarrow> txid \<Rightarrow> string option"
  sk_combine :: "'m \<Rightarrow> 'm \<Rightarrow> 'm \<times> bool"
  sk_beef :: "'m list \<Rightarrow> transaction list \<Rightarrow> bytes"

subsection \<open>Nodes, parsed once\<close>

record asm_tx =
  at_tx :: transaction
  at_txid :: txid

record 'm assembly_node =
  an_parsed :: asm_tx
  an_proof :: "'m option"
  an_sources :: "string option list"

record 'm graph_assembly =
  ga_txs :: "(bytes, asm_tx) table"
  ga_parsed :: "(string, asm_tx) table"
  ga_nodes :: "(string, 'm assembly_node) table"
  ga_checked :: "(string \<times> bool) list"

definition default_assembly :: "'m graph_assembly" where
  "default_assembly = \<lparr>ga_txs = [], ga_parsed = [], ga_nodes = [], ga_checked = []\<rparr>"

definition unparsed :: "string \<Rightarrow> string \<Rightarrow> gasp_error" where
  "unparsed key e = OtherError (''Failed to parse raw_tx for '' @ key @ '': '' @ e)"

definition parse_tx :: "'m sdk \<Rightarrow> refs \<Rightarrow> string \<Rightarrow> 'm graph_assembly \<Rightarrow> 'm graph_assembly \<times> (gasp_error + asm_tx)" where
  "parse_tx S refs key A =
     (case tbl_get (ga_parsed A) key of
        Some p \<Rightarrow> (A, Inr p)
      | None \<Rightarrow>
          (case tbl_get refs key of
             None \<Rightarrow> (A, Inl (OtherError (''Node '' @ key @ '' not found in graph refs'')))
           | Some pending \<Rightarrow>
               (case sk_from_hex S (raw_tx (pn_node pending)) of
                  Inl e \<Rightarrow> (A, Inl (unparsed key e))
                | Inr raw \<Rightarrow>
                    (case tbl_get (ga_txs A) (sk_sha256 S raw) of
                       Some known \<Rightarrow> (A\<lparr>ga_parsed := tbl_insert key known (ga_parsed A)\<rparr>, Inr known)
                     | None \<Rightarrow>
                         (case sk_from_binary S raw of
                            Inl e \<Rightarrow> (A, Inl (unparsed key e))
                          | Inr tx \<Rightarrow>
                              let p = \<lparr>at_tx = tx, at_txid = sk_id S tx\<rparr>
                              in (A\<lparr>ga_txs := tbl_insert (sk_sha256 S raw) p (ga_txs A),
                                    ga_parsed := tbl_insert key p (ga_parsed A)\<rparr>, Inr p))))))"

definition source_key :: "tx_input \<Rightarrow> string" where
  "source_key i = to_graph_id (Outpoint (source_txid i) (source_output_index i))"

definition sources_in :: "refs \<Rightarrow> transaction \<Rightarrow> string option list" where
  "sources_in refs tx =
     map (\<lambda>i. if source_txid i = [] then None
              else if tbl_get refs (source_key i) \<noteq> None then Some (source_key i) else None) (inputs tx)"

definition asm_node ::
  "'m sdk \<Rightarrow> refs \<Rightarrow> string \<Rightarrow> 'm graph_assembly \<Rightarrow> 'm graph_assembly \<times> (gasp_error + 'm assembly_node)" where
  "asm_node S refs key A =
     (case tbl_get (ga_nodes A) key of
        Some n \<Rightarrow> (A, Inr n)
      | None \<Rightarrow>
          (case parse_tx S refs key A of
             (A1, Inl e) \<Rightarrow> (A1, Inl e)
           | (A1, Inr parsed) \<Rightarrow>
               (case Option.bind (tbl_get refs key) (\<lambda>p. proof_hex (pn_node p)) of
                  None \<Rightarrow>
                    let n = \<lparr>an_parsed = parsed, an_proof = None, an_sources = sources_in refs (at_tx parsed)\<rparr>
                    in (A1\<lparr>ga_nodes := tbl_insert key n (ga_nodes A1)\<rparr>, Inr n)
                | Some hex \<Rightarrow>
                    (case sk_proof S hex of
                       Inl e \<Rightarrow> (A1, Inl (OtherError (''Failed to parse proof for '' @ key @ '': '' @ e)))
                     | Inr mp \<Rightarrow>
                         let n = \<lparr>an_parsed = parsed, an_proof = Some mp, an_sources = []\<rparr>
                         in (A1\<lparr>ga_nodes := tbl_insert key n (ga_nodes A1)\<rparr>, Inr n)))))"

text \<open>The keys a node can come from.\<close>

definition asm_keys :: "refs \<Rightarrow> 'm graph_assembly \<Rightarrow> string set" where
  "asm_keys refs A = held_keys refs \<union> {k. tbl_get (ga_parsed A) k \<noteq> None} \<union> {k. tbl_get (ga_nodes A) k \<noteq> None}"

lemma finite_tbl_keys [simp]: "finite {k. \<exists>y. tbl_get m k = Some y}"
  using finite_dom_map_of [of m] by (simp add: tbl_get_def dom_def)

lemma finite_asm_keys [simp]: "finite (asm_keys refs A)"
  by (simp add: asm_keys_def)

lemma parse_tx_keys:
  "parse_tx S refs key A = (A1, r) \<Longrightarrow> ga_nodes A1 = ga_nodes A \<and> ga_checked A1 = ga_checked A \<and> asm_keys refs A1 = asm_keys refs A
     \<and> (\<forall>p. r = Inr p \<longrightarrow> key \<in> asm_keys refs A)"
  by (auto simp: parse_tx_def asm_keys_def held_keys_def Let_def split: option.splits sum.splits if_splits)

lemma asm_keys_insert [simp]: "asm_keys refs (A\<lparr>ga_nodes := tbl_insert key n (ga_nodes A)\<rparr>) = insert key (asm_keys refs A)"
  by (auto simp: asm_keys_def)

lemma asm_keys_checked [simp]: "asm_keys refs (A\<lparr>ga_checked := c\<rparr>) = asm_keys refs A"
  by (simp add: asm_keys_def)

lemma asm_node_keys:
  assumes "asm_node S refs key A = (A1, r)"
  shows "ga_checked A1 = ga_checked A" "asm_keys refs A1 = asm_keys refs A" "r = Inr n \<Longrightarrow> key \<in> asm_keys refs A"
proof -
  obtain B q where p: "parse_tx S refs key A = (B, q)" by fastforce
  note k = parse_tx_keys [OF p]
  have "ga_checked A1 = ga_checked A \<and> asm_keys refs A1 = asm_keys refs A \<and> (\<forall>n. r = Inr n \<longrightarrow> key \<in> asm_keys refs A)"
  proof (cases "tbl_get (ga_nodes A) key")
    case None
    show ?thesis
    proof (cases q)
      case (Inl e)
      then show ?thesis using assms None k by (auto simp: asm_node_def p)
    next
      case (Inr t)
      then have key: "key \<in> asm_keys refs A" using k by blast
      have "A1 = B \<or> (\<exists>n. A1 = B\<lparr>ga_nodes := tbl_insert key n (ga_nodes B)\<rparr>)"
        using assms None Inr by (auto simp: asm_node_def p Let_def split: option.splits sum.splits)
      moreover have "asm_keys refs B = asm_keys refs A" "ga_checked B = ga_checked A" using k by auto
      ultimately show ?thesis using key by (metis asm_keys_insert graph_assembly.ext_inject graph_assembly.surjective
        graph_assembly.update_convs(3) insert_absorb)
    qed
  qed (use assms in \<open>auto simp: asm_node_def asm_keys_def\<close>)
  then show "ga_checked A1 = ga_checked A" "asm_keys refs A1 = asm_keys refs A" "r = Inr n \<Longrightarrow> key \<in> asm_keys refs A" by auto
qed

subsection \<open>The check\<close>

record 'm check_run =
  cr_asm :: "'m graph_assembly"
  cr_stack :: "(string \<times> 'm assembly_node \<times> nat) list"
  cr_inside :: "string list"

definition enter_node ::
  "'m sdk \<Rightarrow> refs \<Rightarrow> bool \<Rightarrow> string option \<Rightarrow> 'm check_run \<Rightarrow> 'm check_run \<times> gasp_error option" where
  "enter_node S refs strict entering r =
     (case entering of
        None \<Rightarrow> (r, None)
      | Some key \<Rightarrow>
          if (key, strict) \<in> set (ga_checked (cr_asm r)) \<or> key \<in> set (cr_inside r) then (r, None)
          else
            let r1 = r\<lparr>cr_inside := key # cr_inside r\<rparr>
            in case asm_node S refs key (cr_asm r) of
                 (A, Inl e) \<Rightarrow> (r1\<lparr>cr_asm := A\<rparr>, Some e)
               | (A, Inr n) \<Rightarrow> (r1\<lparr>cr_asm := A, cr_stack := (key, n, 0) # cr_stack r\<rparr>, None))"

text \<open>The last input with no source (\<open>rposition\<close>).\<close>

definition last_missing :: "string option list \<Rightarrow> nat option" where
  "last_missing xs = (case filter (\<lambda>i. xs ! i = None) (rev [0..<length xs]) of [] \<Rightarrow> None | i # _ \<Rightarrow> Some i)"

definition missing_text :: "string \<Rightarrow> 'm assembly_node \<Rightarrow> nat \<Rightarrow> string" where
  "missing_text key n i =
     ''Failed to serialize BEEF for '' @ key @ '': Missing source transaction for input '' @ show_nat i @ '' (txid: ''
       @ (let t = source_txid (inputs (at_tx (an_parsed n)) ! i) in if t = [] then ''unknown'' else t)
       @ ''). Set allow_partial=true to skip missing source transactions.''"

definition unopened :: "refs \<Rightarrow> bool \<Rightarrow> 'm check_run \<Rightarrow> nat" where
  "unopened refs strict r =
     card (asm_keys refs (cr_asm r) - {k. (k, strict) \<in> set (ga_checked (cr_asm r))} - set (cr_inside r))"

definition inputs_left :: "'m check_run \<Rightarrow> nat" where
  "inputs_left r = sum_list (map (\<lambda>(_, n, i). Suc (length (an_sources n) - i)) (cr_stack r))"

lemma enter_node_cases:
  assumes "enter_node S refs strict e r0 = (r, None)"
  shows "cr_stack r = cr_stack r0 \<and> unopened refs strict r = unopened refs strict r0 \<or> unopened refs strict r < unopened refs strict r0"
proof (cases "\<exists>k. e = Some k \<and> (k, strict) \<notin> set (ga_checked (cr_asm r0)) \<and> k \<notin> set (cr_inside r0)")
  case True
  then obtain k where k: "e = Some k" "(k, strict) \<notin> set (ga_checked (cr_asm r0))" "k \<notin> set (cr_inside r0)" by blast
  with assms obtain A n where n: "asm_node S refs k (cr_asm r0) = (A, Inr n)"
    and r: "r = r0\<lparr>cr_inside := k # cr_inside r0, cr_asm := A, cr_stack := (k, n, 0) # cr_stack r0\<rparr>"
    by (auto simp: enter_node_def Let_def split: prod.splits sum.splits)
  note K = asm_node_keys [OF n]
  have "unopened refs strict r < unopened refs strict r0"
    unfolding unopened_def r using K k(2,3) by (intro psubset_card_mono) auto
  then show ?thesis ..
qed (use assms in \<open>auto simp: enter_node_def split: option.splits\<close>)

function check_loop ::
  "'m sdk \<Rightarrow> refs \<Rightarrow> bool \<Rightarrow> string option \<Rightarrow> 'm check_run \<Rightarrow> 'm graph_assembly \<times> gasp_error option" where
  "check_loop S refs strict entering r0 =
     (case enter_node S refs strict entering r0 of
        (r, Some e) \<Rightarrow> (cr_asm r, Some e)
      | (r, None) \<Rightarrow>
          (case cr_stack r of
             [] \<Rightarrow> (cr_asm r, None)
           | (key, n, i) # rest \<Rightarrow>
               if i < length (an_sources n)
               then check_loop S refs strict (an_sources n ! i) (r\<lparr>cr_stack := (key, n, i + 1) # rest\<rparr>)
               else case (if strict then last_missing (an_sources n) else None) of
                      Some j \<Rightarrow> (cr_asm r, Some (OtherError (missing_text key n j)))
                    | None \<Rightarrow>
                        check_loop S refs strict None
                          (r\<lparr>cr_stack := rest, cr_inside := del key (cr_inside r),
                             cr_asm := (cr_asm r)\<lparr>ga_checked := ins (key, strict) (ga_checked (cr_asm r))\<rparr>\<rparr>)))"
  by pat_completeness auto

termination
proof (relation "measures [\<lambda>(S, refs, strict, e, r). unopened refs strict r, \<lambda>(S, refs, strict, e, r). inputs_left r]", goal_cases)
  case (2 S refs strict e r0 r y f rest key z n i)
  then have en: "enter_node S refs strict e r0 = (r, None)" and st: "cr_stack r = (key, n, i) # rest" by auto
  consider "cr_stack r0 = (key, n, i) # rest" "unopened refs strict r = unopened refs strict r0"
    | "unopened refs strict r < unopened refs strict r0" using enter_node_cases [OF en] st by fastforce
  then show ?case using 2(6) by cases (auto simp: unopened_def inputs_left_def)
next
  case (3 S refs strict e r0 r y f rest key z n i)
  then have en: "enter_node S refs strict e r0 = (r, None)" and st: "cr_stack r = (key, n, i) # rest" by auto
  let ?r = "r\<lparr>cr_stack := rest, cr_inside := del key (cr_inside r),
                             cr_asm := (cr_asm r)\<lparr>ga_checked := ins (key, strict) (ga_checked (cr_asm r))\<rparr>\<rparr>"
  have le: "unopened refs strict ?r \<le> unopened refs strict r" unfolding unopened_def by (intro card_mono) auto
  have left: "cr_stack r0 = (key, n, i) # rest \<Longrightarrow> inputs_left ?r < inputs_left r0" by (simp add: inputs_left_def)
  consider "cr_stack r0 = (key, n, i) # rest" "unopened refs strict r = unopened refs strict r0"
    | "unopened refs strict r < unopened refs strict r0" using enter_node_cases [OF en] st by fastforce
  then show ?case
  proof cases
    case 1
    with le left show ?thesis by (simp add: less_le)
  next
    case 2
    with le show ?thesis by simp
  qed
qed simp

declare check_loop.simps [simp del]

definition check :: "'m sdk \<Rightarrow> refs \<Rightarrow> bool \<Rightarrow> string \<Rightarrow> 'm graph_assembly \<Rightarrow> 'm graph_assembly \<times> gasp_error option" where
  "check S refs strict key A = check_loop S refs strict (Some key) \<lparr>cr_asm = A, cr_stack = [], cr_inside = []\<rparr>"

text \<open>The keys of a graph checked in turn, up to the first that cannot be assembled.\<close>

primrec check_keys ::
  "'m sdk \<Rightarrow> refs \<Rightarrow> bool \<Rightarrow> string list \<Rightarrow> 'm graph_assembly \<Rightarrow> 'm graph_assembly \<times> gasp_error option" where
  "check_keys S refs strict [] A = (A, None)"
| "check_keys S refs strict (k # ks) A =
     (case check S refs strict k A of
        (A1, Some e) \<Rightarrow> (A1, Some e)
      | (A1, None) \<Rightarrow> check_keys S refs strict ks A1)"

subsection \<open>The BEEF of a node\<close>

record 'm beef_run =
  br_seen :: "txid list"
  br_inside :: "txid list"
  br_ancestors :: "'m assembly_node list"
  br_bumps :: "'m list"
  br_slots :: "(string, nat) table"
  br_stack :: "('m assembly_node \<times> nat) list"

abbreviation an_txid :: "'m assembly_node \<Rightarrow> txid" where
  "an_txid n \<equiv> at_txid (an_parsed n)"

text \<open>Proofs are kept once per block height and computed root.\<close>

definition add_bump :: "'m sdk \<Rightarrow> txid \<Rightarrow> 'm \<Rightarrow> 'm beef_run \<Rightarrow> 'm beef_run" where
  "add_bump S t mp r =
     (let root = (case sk_root S mp t of None \<Rightarrow> [] | Some x \<Rightarrow> x);
          slot = show_nat (sk_height S mp) @ '':'' @ root;
          fresh = (\<lambda>r. r\<lparr>br_slots := tbl_insert slot (length (br_bumps r)) (br_slots r), br_bumps := br_bumps r @ [mp]\<rparr>)
      in case tbl_get (br_slots r) slot of
           None \<Rightarrow> fresh r
         | Some j \<Rightarrow>
             (case sk_combine S (br_bumps r ! j) mp of
                (b, True) \<Rightarrow> r\<lparr>br_bumps := (br_bumps r)[j := b]\<rparr>
              | (b, False) \<Rightarrow> fresh (r\<lparr>br_bumps := (br_bumps r)[j := b]\<rparr>)))"

definition enter_beef :: "'m sdk \<Rightarrow> 'm graph_assembly \<Rightarrow> string option \<Rightarrow> 'm beef_run \<Rightarrow> 'm beef_run" where
  "enter_beef S A entering r =
     (case Option.bind entering (tbl_get (ga_nodes A)) of
        None \<Rightarrow> r
      | Some n \<Rightarrow>
          let t = an_txid n
          in if t \<in> set (br_seen r) \<or> t \<in> set (br_inside r) then r
             else case an_proof n of
                    Some mp \<Rightarrow>
                      let r1 = add_bump S t mp r
                      in r1\<lparr>br_seen := t # br_seen r1, br_ancestors := br_ancestors r1 @ [n]\<rparr>
                  | None \<Rightarrow> r\<lparr>br_inside := t # br_inside r, br_stack := (n, length (an_sources n)) # br_stack r\<rparr>)"

definition node_txids :: "'m graph_assembly \<Rightarrow> txid set" where
  "node_txids A = {an_txid n | k n. tbl_get (ga_nodes A) k = Some n}"

definition uncollected :: "'m graph_assembly \<Rightarrow> 'm beef_run \<Rightarrow> nat" where
  "uncollected A r = card (node_txids A - set (br_seen r) - set (br_inside r))"

definition sources_left :: "'m beef_run \<Rightarrow> nat" where
  "sources_left r = sum_list (map (\<lambda>(_, left). Suc left) (br_stack r))"

lemma finite_node_txids [simp]: "finite (node_txids A)"
proof -
  have "node_txids A \<subseteq> (\<lambda>k. an_txid (the (tbl_get (ga_nodes A) k))) ` {k. \<exists>y. tbl_get (ga_nodes A) k = Some y}"
    by (force simp: node_txids_def)
  then show ?thesis by (rule finite_subset) simp
qed

lemma add_bump_fields [simp]:
  "br_seen (add_bump S t mp r) = br_seen r" "br_inside (add_bump S t mp r) = br_inside r"
  "br_ancestors (add_bump S t mp r) = br_ancestors r" "br_stack (add_bump S t mp r) = br_stack r"
  by (simp_all add: add_bump_def Let_def split: option.split prod.split bool.split)

lemma enter_beef_cases:
  "br_stack (enter_beef S A e r) = br_stack r \<and> uncollected A (enter_beef S A e r) = uncollected A r
    \<or> uncollected A (enter_beef S A e r) < uncollected A r"
proof (cases "Option.bind e (tbl_get (ga_nodes A))")
  case (Some n)
  then have n: "an_txid n \<in> node_txids A" by (cases e) (auto simp: node_txids_def)
  show ?thesis
  proof (cases "an_txid n \<in> set (br_seen r) \<or> an_txid n \<in> set (br_inside r)")
    case False
    have "node_txids A - set (br_seen (enter_beef S A e r)) - set (br_inside (enter_beef S A e r))
        \<subset> node_txids A - set (br_seen r) - set (br_inside r)"
      using n Some False by (cases "an_proof n") (auto simp: enter_beef_def Let_def)
    then have "uncollected A (enter_beef S A e r) < uncollected A r" unfolding uncollected_def by (rule psubset_card_mono [rotated]) simp
    then show ?thesis ..
  qed (use Some in \<open>simp add: enter_beef_def Let_def\<close>)
qed (simp add: enter_beef_def)

function beef_loop :: "'m sdk \<Rightarrow> 'm graph_assembly \<Rightarrow> string option \<Rightarrow> 'm beef_run \<Rightarrow> 'm beef_run" where
  "beef_loop S A entering r0 =
     (let r = enter_beef S A entering r0
      in case br_stack r of
           [] \<Rightarrow> r
         | (n, left) # rest \<Rightarrow>
             if left = 0
             then beef_loop S A None
                    (r\<lparr>br_stack := rest, br_inside := del (an_txid n) (br_inside r),
                       br_seen := an_txid n # br_seen r, br_ancestors := br_ancestors r @ [n]\<rparr>)
             else beef_loop S A (an_sources n ! (left - 1)) (r\<lparr>br_stack := (n, left - 1) # rest\<rparr>))"
  by pat_completeness auto

termination
proof (relation "measures [\<lambda>(S, A, e, r). uncollected A r, \<lambda>(S, A, e, r). sources_left r]", goal_cases)
  case (2 S A e r0 r f rest n left)
  let ?r = "r\<lparr>br_stack := rest, br_inside := del (an_txid n) (br_inside r),
                       br_seen := an_txid n # br_seen r, br_ancestors := br_ancestors r @ [n]\<rparr>"
  have le: "uncollected A ?r \<le> uncollected A r" unfolding uncollected_def by (intro card_mono) auto
  have left: "br_stack r0 = (n, left) # rest \<Longrightarrow> sources_left ?r < sources_left r0" by (simp add: sources_left_def)
  consider "br_stack r0 = (n, left) # rest" "uncollected A r = uncollected A r0" | "uncollected A r < uncollected A r0"
    using 2 enter_beef_cases [of S A e r0] by fastforce
  then show ?case
  proof cases
    case 1
    with le left show ?thesis by (simp add: less_le)
  next
    case 2
    with le show ?thesis by simp
  qed
next
  case (3 S A e r0 r f rest n left)
  then consider "br_stack r0 = (n, left) # rest" "uncollected A r = uncollected A r0" | "uncollected A r < uncollected A r0"
    using enter_beef_cases [of S A e r0] by fastforce
  then show ?case using 3(4) by cases (auto simp: uncollected_def sources_left_def)
qed simp

declare beef_loop.simps [simp del]

definition empty_beef_run :: "'m beef_run" where
  "empty_beef_run = \<lparr>br_seen = [], br_inside = [], br_ancestors = [], br_bumps = [], br_slots = [], br_stack = []\<rparr>"

definition beef_of :: "'m sdk \<Rightarrow> 'm graph_assembly \<Rightarrow> string \<Rightarrow> bytes" where
  "beef_of S A key =
     (let r = beef_loop S A (Some key) empty_beef_run
      in sk_beef S (br_bumps r) (map (\<lambda>n. at_tx (an_parsed n)) (br_ancestors r)))"

end
