(* ===== verification/Assembly_Facts.thy ===== *)
theory Assembly_Facts
  imports Graph_Assembly
begin

text \<open>
  What the assembly of a graph holds: each node it caches is the node the pending graph gives for its key (when the
  hash separates the transactions of the graph), a check that passes closes what it checked under sources, and the
  BEEF of a checked key depends on those nodes alone.
\<close>

subsection \<open>The nodes of a pending graph\<close>

definition own_tx :: "'m sdk \<Rightarrow> refs \<Rightarrow> string \<Rightarrow> asm_tx option" where
  "own_tx S refs key =
     (case tbl_get refs key of
        None \<Rightarrow> None
      | Some p \<Rightarrow>
          (case sk_from_hex S (raw_tx (pn_node p)) of
             Inl _ \<Rightarrow> None
           | Inr raw \<Rightarrow>
               (case sk_from_binary S raw of Inl _ \<Rightarrow> None | Inr tx \<Rightarrow> Some \<lparr>at_tx = tx, at_txid = sk_id S tx\<rparr>)))"

definition own_node :: "'m sdk \<Rightarrow> refs \<Rightarrow> string \<Rightarrow> 'm assembly_node option" where
  "own_node S refs key =
     (case own_tx S refs key of
        None \<Rightarrow> None
      | Some p \<Rightarrow>
          (case Option.bind (tbl_get refs key) (\<lambda>p. proof_hex (pn_node p)) of
             None \<Rightarrow> Some \<lparr>an_parsed = p, an_proof = None, an_sources = sources_in refs (at_tx p)\<rparr>
           | Some hex \<Rightarrow>
               (case sk_proof S hex of
                  Inl _ \<Rightarrow> None
                | Inr mp \<Rightarrow> Some \<lparr>an_parsed = p, an_proof = Some mp, an_sources = []\<rparr>)))"

definition asm_ok :: "'m sdk \<Rightarrow> refs \<Rightarrow> 'm graph_assembly \<Rightarrow> bool" where
  "asm_ok S refs A \<longleftrightarrow>
     (\<forall>k p. tbl_get (ga_parsed A) k = Some p \<longrightarrow> own_tx S refs k = Some p)
       \<and> (\<forall>k n. tbl_get (ga_nodes A) k = Some n \<longrightarrow> own_node S refs k = Some n)
       \<and> (\<forall>raw p. tbl_get (ga_txs A) (sk_sha256 S raw) = Some p
            \<longrightarrow> sk_from_binary S raw = Inr (at_tx p) \<and> at_txid p = sk_id S (at_tx p))"

lemma asm_okD:
  assumes "asm_ok S refs A"
  shows "tbl_get (ga_parsed A) k = Some p \<Longrightarrow> own_tx S refs k = Some p" "tbl_get (ga_nodes A) k = Some n \<Longrightarrow> own_node S refs k = Some n"
    "tbl_get (ga_txs A) (sk_sha256 S raw) = Some q \<Longrightarrow> sk_from_binary S raw = Inr (at_tx q)"
    "tbl_get (ga_txs A) (sk_sha256 S raw) = Some q \<Longrightarrow> at_txid q = sk_id S (at_tx q)"
  using assms by (auto simp: asm_ok_def)

lemma asm_ok_default [simp]: "asm_ok S refs default_assembly"
  by (simp add: asm_ok_def default_assembly_def)

lemma asm_ok_checked [simp]: "asm_ok S refs (A\<lparr>ga_checked := c\<rparr>) = asm_ok S refs A"
  by (simp add: asm_ok_def)

lemma parse_tx_ok:
  assumes inj: "inj (sk_sha256 S)" and A: "asm_ok S refs A" and run: "parse_tx S refs key A = (A1, r)"
  shows "asm_ok S refs A1" "r = Inr p \<Longrightarrow> own_tx S refs key = Some p" "r = Inl e \<Longrightarrow> own_tx S refs key = None"
proof -
  have "asm_ok S refs A1 \<and> (\<forall>p. r = Inr p \<longrightarrow> own_tx S refs key = Some p) \<and> (\<forall>e. r = Inl e \<longrightarrow> own_tx S refs key = None)"
  proof (cases "tbl_get (ga_parsed A) key")
    case None
    show ?thesis
    proof (cases "tbl_get refs key")
      case (Some pn)
      show ?thesis
      proof (cases "sk_from_hex S (raw_tx (pn_node pn))")
        case (Inr raw)
        show ?thesis
        proof (cases "tbl_get (ga_txs A) (sk_sha256 S raw)")
          case k: (Some q)
          have "own_tx S refs key = Some q" using Some Inr asm_okD(3,4) [OF A k] by (simp add: own_tx_def)
          then show ?thesis using run None Some Inr k A by (auto simp: parse_tx_def asm_ok_def split: if_splits)
        next
          case k: None
          then show ?thesis using run None Some Inr A inj_eq [OF inj]
            by (cases "sk_from_binary S raw") (auto simp: parse_tx_def Let_def own_tx_def asm_ok_def split: if_splits)
        qed
      qed (use run None Some A in \<open>auto simp: parse_tx_def own_tx_def\<close>)
    qed (use run None A in \<open>auto simp: parse_tx_def own_tx_def\<close>)
  qed (use run A in \<open>auto simp: parse_tx_def asm_ok_def\<close>)
  then show "asm_ok S refs A1" "r = Inr p \<Longrightarrow> own_tx S refs key = Some p" "r = Inl e \<Longrightarrow> own_tx S refs key = None" by blast+
qed

lemma asm_ok_node: "asm_ok S refs A \<Longrightarrow> own_node S refs key = Some n \<Longrightarrow> asm_ok S refs (A\<lparr>ga_nodes := tbl_insert key n (ga_nodes A)\<rparr>)"
  by (auto simp: asm_ok_def)

lemma asm_node_ok:
  assumes inj: "inj (sk_sha256 S)" and A: "asm_ok S refs A" and run: "asm_node S refs key A = (A1, r)"
  shows "asm_ok S refs A1" "r = Inr n \<Longrightarrow> own_node S refs key = Some n \<and> tbl_get (ga_nodes A1) key = Some n"
    "r = Inl e \<Longrightarrow> own_node S refs key = None" "ga_nodes A1 = ga_nodes A \<or> (\<exists>n. ga_nodes A1 = tbl_insert key n (ga_nodes A) \<and> tbl_get (ga_nodes A) key = None)"
proof -
  obtain B q where p: "parse_tx S refs key A = (B, q)" by fastforce
  note P = parse_tx_ok [OF inj A p] and K = parse_tx_keys [OF p]
  have "asm_ok S refs A1 \<and> (\<forall>n. r = Inr n \<longrightarrow> own_node S refs key = Some n \<and> tbl_get (ga_nodes A1) key = Some n)
      \<and> (\<forall>e. r = Inl e \<longrightarrow> own_node S refs key = None)
      \<and> (ga_nodes A1 = ga_nodes A \<or> (\<exists>n. ga_nodes A1 = tbl_insert key n (ga_nodes A) \<and> tbl_get (ga_nodes A) key = None))"
  proof (cases "tbl_get (ga_nodes A) key")
    case None
    show ?thesis
    proof (cases q)
      case (Inl e)
      then show ?thesis using run None P K by (auto simp: asm_node_def p own_node_def)
    next
      case (Inr t)
      have own: "own_tx S refs key = Some t" using P(2) Inr by simp
      show ?thesis
      proof (cases "own_node S refs key")
        case o: None
        then show ?thesis using run None P K Inr own
          by (auto simp: asm_node_def p own_node_def Let_def split: option.splits sum.splits)
      next
        case o: (Some n)
        then have "A1 = B\<lparr>ga_nodes := tbl_insert key n (ga_nodes B)\<rparr> \<and> r = Inr n" using run None Inr own
          by (auto simp: asm_node_def p own_node_def Let_def split: option.splits sum.splits)
        then show ?thesis using asm_ok_node [OF P(1) o] o K None by auto
      qed
    qed
  qed (use run asm_okD(2) [OF A] A in \<open>auto simp: asm_node_def\<close>)
  then show "asm_ok S refs A1" "r = Inr n \<Longrightarrow> own_node S refs key = Some n \<and> tbl_get (ga_nodes A1) key = Some n"
    "r = Inl e \<Longrightarrow> own_node S refs key = None"
    "ga_nodes A1 = ga_nodes A \<or> (\<exists>n. ga_nodes A1 = tbl_insert key n (ga_nodes A) \<and> tbl_get (ga_nodes A) key = None)" by blast+
qed

subsection \<open>A check that passes\<close>

definition covered :: "'m graph_assembly \<Rightarrow> bool \<Rightarrow> string set \<Rightarrow> string \<Rightarrow> bool" where
  "covered A strict X k \<longleftrightarrow>
     (\<exists>n. tbl_get (ga_nodes A) k = Some n \<and> (\<forall>s. Some s \<in> set (an_sources n) \<longrightarrow> s \<in> X) \<and> (strict \<longrightarrow> None \<notin> set (an_sources n)))"

definition checked_keys :: "'m graph_assembly \<Rightarrow> bool \<Rightarrow> string set" where
  "checked_keys A strict = {k. (k, strict) \<in> set (ga_checked A)}"

definition closed :: "'m graph_assembly \<Rightarrow> bool \<Rightarrow> bool" where
  "closed A strict \<longleftrightarrow> (\<forall>k \<in> checked_keys A strict. covered A strict (checked_keys A strict) k)"

definition nodes_le :: "'m graph_assembly \<Rightarrow> 'm graph_assembly \<Rightarrow> bool" where
  "nodes_le A B \<longleftrightarrow> tbl_get (ga_nodes A) \<subseteq>\<^sub>m tbl_get (ga_nodes B)"

lemma nodes_le_refl [simp]: "nodes_le A A"
  by (simp add: nodes_le_def)

lemma nodes_le_trans: "nodes_le A B \<Longrightarrow> nodes_le B C \<Longrightarrow> nodes_le A C"
  unfolding nodes_le_def by (rule map_le_trans)

lemma nodes_leD: "nodes_le A B \<Longrightarrow> tbl_get (ga_nodes A) k = Some n \<Longrightarrow> tbl_get (ga_nodes B) k = Some n"
  unfolding nodes_le_def map_le_def by (metis domI)

lemma nodes_le_checked [simp]: "nodes_le A (B\<lparr>ga_checked := c\<rparr>) = nodes_le A B" "nodes_le (A\<lparr>ga_checked := c\<rparr>) B = nodes_le A B"
  by (simp_all add: nodes_le_def)

lemma covered_mono: "covered A b X k \<Longrightarrow> nodes_le A B \<Longrightarrow> X \<subseteq> Y \<Longrightarrow> covered B b Y k"
  unfolding covered_def by (blast dest: nodes_leD)

lemma asm_node_le: "inj (sk_sha256 S) \<Longrightarrow> asm_ok S refs A \<Longrightarrow> asm_node S refs key A = (B, r) \<Longrightarrow> nodes_le A B"
  using asm_node_ok(4) [of S refs A key B r] by (auto simp: nodes_le_def map_le_def)

text \<open>The loop: what is checked or open, the frames of the stack, the key about to be entered.\<close>

definition open_keys :: "bool \<Rightarrow> 'm check_run \<Rightarrow> string set" where
  "open_keys strict r = checked_keys (cr_asm r) strict \<union> set (cr_inside r)"

definition frame_ok :: "bool \<Rightarrow> string option \<Rightarrow> 'm check_run \<Rightarrow> string \<times> 'm assembly_node \<times> nat \<Rightarrow> bool" where
  "frame_ok strict e r f = (case f of (k, n, i) \<Rightarrow>
     tbl_get (ga_nodes (cr_asm r)) k = Some n \<and>
     (\<forall>j s. j < i \<longrightarrow> j < length (an_sources n) \<longrightarrow> an_sources n ! j = Some s \<longrightarrow> s \<in> open_keys strict r \<union> set_option e))"

definition check_inv :: "'m sdk \<Rightarrow> refs \<Rightarrow> bool \<Rightarrow> string option \<Rightarrow> 'm check_run \<Rightarrow> bool" where
  "check_inv S refs strict e r \<longleftrightarrow>
     asm_ok S refs (cr_asm r) \<and> cr_inside r = map fst (cr_stack r) \<and> distinct (map fst (cr_stack r))
       \<and> (\<forall>k \<in> checked_keys (cr_asm r) strict. covered (cr_asm r) strict (open_keys strict r) k)
       \<and> (\<forall>f \<in> set (cr_stack r). frame_ok strict e r f)"

lemma frame_ok_mono:
  assumes "frame_ok strict e r f" "nodes_le (cr_asm r) (cr_asm r')" "open_keys strict r \<union> set_option e \<subseteq> open_keys strict r' \<union> set_option e'"
  shows "frame_ok strict e' r' f"
  using assms nodes_leD [OF assms(2)] unfolding frame_ok_def by (auto split: prod.splits) blast

lemma check_inv_enter:
  assumes inj: "inj (sk_sha256 S)" and inv: "check_inv S refs strict e r0" and run: "enter_node S refs strict e r0 = (r, None)"
  shows "check_inv S refs strict None r" "set_option e \<subseteq> open_keys strict r" "nodes_le (cr_asm r0) (cr_asm r)"
    "ga_checked (cr_asm r) = ga_checked (cr_asm r0)" "open_keys strict r0 \<subseteq> open_keys strict r"
proof -
  have "check_inv S refs strict None r \<and> set_option e \<subseteq> open_keys strict r \<and> open_keys strict r0 \<subseteq> open_keys strict r \<and> nodes_le (cr_asm r0) (cr_asm r)
      \<and> ga_checked (cr_asm r) = ga_checked (cr_asm r0)"
  proof (cases "\<exists>k. e = Some k \<and> (k, strict) \<notin> set (ga_checked (cr_asm r0)) \<and> k \<notin> set (cr_inside r0)")
    case False
    then have e: "set_option e \<subseteq> open_keys strict r0" by (cases e) (auto simp: open_keys_def checked_keys_def)
    have r: "r = r0" using run False by (auto simp: enter_node_def split: option.splits if_splits)
    have "frame_ok strict None r0 f" if "f \<in> set (cr_stack r0)" for f
      using inv that e frame_ok_mono [of strict e r0 f r0 None] by (auto simp: check_inv_def)
    with inv e r show ?thesis by (auto simp: check_inv_def)
  next
    case True
    then obtain k where k: "e = Some k" "(k, strict) \<notin> set (ga_checked (cr_asm r0))" "k \<notin> set (cr_inside r0)" by blast
    with run obtain A n where n: "asm_node S refs k (cr_asm r0) = (A, Inr n)"
      and r: "r = r0\<lparr>cr_inside := k # cr_inside r0, cr_asm := A, cr_stack := (k, n, 0) # cr_stack r0\<rparr>"
      by (auto simp: enter_node_def Let_def split: prod.splits sum.splits)
    have ok0: "asm_ok S refs (cr_asm r0)" using inv by (simp add: check_inv_def)
    note N = asm_node_ok [OF inj ok0 n] and C = asm_node_keys(1) [OF n]
    have le: "nodes_le (cr_asm r0) (cr_asm r)" using asm_node_le [OF inj ok0 n] r by simp
    have sub: "open_keys strict r0 \<union> set_option e \<subseteq> open_keys strict r" using C k r by (auto simp: open_keys_def checked_keys_def)
    have "frame_ok strict None r f" if "f \<in> set (cr_stack r0)" for f
      using frame_ok_mono [of strict e r0 f r None] le sub inv that by (auto simp: check_inv_def)
    moreover have "frame_ok strict None r (k, n, 0)" using N(2) r by (simp add: frame_ok_def)
    moreover have "covered (cr_asm r) strict (open_keys strict r) j" if "j \<in> checked_keys (cr_asm r) strict" for j
    proof -
      have "j \<in> checked_keys (cr_asm r0) strict" using that C r by (simp add: checked_keys_def)
      then have "covered (cr_asm r0) strict (open_keys strict r0) j" using inv by (simp add: check_inv_def)
      from covered_mono [OF this le] sub show ?thesis by blast
    qed
    ultimately show ?thesis using inv N(1) C k r le sub by (auto simp: check_inv_def)
  qed
  then show "check_inv S refs strict None r" "set_option e \<subseteq> open_keys strict r" "nodes_le (cr_asm r0) (cr_asm r)"
    "ga_checked (cr_asm r) = ga_checked (cr_asm r0)" "open_keys strict r0 \<subseteq> open_keys strict r" by blast+
qed

lemma last_missing_None: "last_missing xs = None \<longleftrightarrow> None \<notin> set xs"
proof -
  have "last_missing xs = None \<longleftrightarrow> filter (\<lambda>i. xs ! i = None) (rev [0..<length xs]) = []"
    by (simp add: last_missing_def split: list.split)
  also have "\<dots> \<longleftrightarrow> None \<notin> set xs" by (auto simp: filter_empty_conv in_set_conv_nth)
  finally show ?thesis .
qed

lemma open_keys_stack [simp]: "open_keys strict (r\<lparr>cr_stack := st\<rparr>) = open_keys strict r"
  by (simp add: open_keys_def)

lemma check_inv_next:
  assumes "check_inv S refs strict None r" "cr_stack r = (k, n, i) # rest" "i < length (an_sources n)"
  shows "check_inv S refs strict (an_sources n ! i) (r\<lparr>cr_stack := (k, n, i + 1) # rest\<rparr>)"
proof -
  let ?r = "r\<lparr>cr_stack := (k, n, i + 1) # rest\<rparr>"
  have "frame_ok strict (an_sources n ! i) ?r f" if "frame_ok strict None r f" for f
    using frame_ok_mono [OF that, of ?r "an_sources n ! i"] by auto
  moreover have "frame_ok strict (an_sources n ! i) ?r (k, n, i + 1)"
    using assms by (auto simp: check_inv_def frame_ok_def less_Suc_eq)
  ultimately show ?thesis using assms by (simp add: check_inv_def)
qed

lemma check_inv_pop:
  assumes inv: "check_inv S refs strict None r" and st: "cr_stack r = (k, n, i) # rest" and i: "\<not> i < length (an_sources n)"
    and m: "(if strict then last_missing (an_sources n) else None) = None"
    and r': "r' = r\<lparr>cr_stack := rest, cr_inside := del k (cr_inside r),
                   cr_asm := (cr_asm r)\<lparr>ga_checked := ins (k, strict) (ga_checked (cr_asm r))\<rparr>\<rparr>"
  shows "check_inv S refs strict None r'" "open_keys strict r \<subseteq> open_keys strict r'" "nodes_le (cr_asm r) (cr_asm r')"
    "b \<noteq> strict \<Longrightarrow> checked_keys (cr_asm r') b = checked_keys (cr_asm r) b"
proof -
  have ins: "cr_inside r = k # map fst rest" "distinct (k # map fst rest)" using inv st by (simp_all add: check_inv_def)
  have "filter (\<lambda>y. y \<noteq> k) (map fst rest) = map fst rest" using ins(2) by (intro filter_True) auto
  then have del: "cr_inside r' = map fst rest" using r' ins(1) by (simp add: del_def)
  have o': "open_keys strict r' = open_keys strict r" using ins del r' by (auto simp: open_keys_def checked_keys_def)
  have le: "nodes_le (cr_asm r) (cr_asm r')" using r' by (simp add: nodes_le_def)
  have fr: "frame_ok strict None r (k, n, i)" using inv st by (simp add: check_inv_def)
  have src: "s \<in> open_keys strict r" if "Some s \<in> set (an_sources n)" for s
  proof -
    from that obtain j where j: "j < length (an_sources n)" "an_sources n ! j = Some s" by (auto simp: in_set_conv_nth)
    with i have "j < i" by simp
    with j fr show ?thesis by (auto simp: frame_ok_def)
  qed
  have "covered (cr_asm r') strict (open_keys strict r') k"
    using fr src m o' r' last_missing_None [of "an_sources n"] by (auto simp: covered_def frame_ok_def)
  moreover have "covered (cr_asm r') strict (open_keys strict r') j" if "j \<in> checked_keys (cr_asm r) strict" for j
    using inv that le o' by (auto simp: check_inv_def intro: covered_mono)
  ultimately have "\<forall>j \<in> checked_keys (cr_asm r') strict. covered (cr_asm r') strict (open_keys strict r') j"
    using r' by (auto simp: checked_keys_def)
  moreover have "frame_ok strict None r' f" if "f \<in> set rest" for f
    using frame_ok_mono [of strict None r f r' None] le o' inv st that by (auto simp: check_inv_def)
  ultimately show "check_inv S refs strict None r'" using inv st ins del r' by (auto simp: check_inv_def)
  show "open_keys strict r \<subseteq> open_keys strict r'" "nodes_le (cr_asm r) (cr_asm r')" using o' le by simp_all
  show "b \<noteq> strict \<Longrightarrow> checked_keys (cr_asm r') b = checked_keys (cr_asm r) b" using r' by (auto simp: checked_keys_def)
qed

lemma check_loop_ok:
  assumes "inj (sk_sha256 S)"
  shows "check_inv S refs strict e r0 \<Longrightarrow> check_loop S refs strict e r0 = (A', None)
    \<Longrightarrow> asm_ok S refs A' \<and> closed A' strict \<and> open_keys strict r0 \<union> set_option e \<subseteq> checked_keys A' strict
      \<and> nodes_le (cr_asm r0) A' \<and> (\<forall>b. b \<noteq> strict \<longrightarrow> checked_keys A' b = checked_keys (cr_asm r0) b)"
  using assms
proof (induction S refs strict e r0 rule: check_loop.induct)
  case (1 S refs strict e r0)
  from 1(4) obtain r where en: "enter_node S refs strict e r0 = (r, None)"
    by (auto simp: check_loop.simps [of S refs strict e r0] split: prod.splits option.splits)
  note E = check_inv_enter [OF 1(5,3) en]
  have sub: "open_keys strict r0 \<union> set_option e \<subseteq> open_keys strict r"
    using E(2,5) by simp
  show ?case
  proof (cases "cr_stack r")
    case Nil
    have "checked_keys (cr_asm r) strict = open_keys strict r" using E(1) Nil by (simp add: check_inv_def open_keys_def)
    then show ?thesis using 1(4) Nil en E sub
      by (auto simp: check_loop.simps [of S refs strict e r0] check_inv_def closed_def checked_keys_def)
  next
    case (Cons f rest)
    obtain k n i where f: "f = (k, n, i)" by (cases f)
    show ?thesis
    proof (cases "i < length (an_sources n)")
      case True
      have run: "check_loop S refs strict (an_sources n ! i) (r\<lparr>cr_stack := (k, n, i + 1) # rest\<rparr>) = (A', None)"
        using 1(4) Cons f True en by (simp add: check_loop.simps [of S refs strict e r0])
      from 1(1) [OF en [symmetric] refl Cons f [symmetric] refl True check_inv_next [OF E(1) Cons [unfolded f] True] run 1(5)]
      show ?thesis using E(3,4) sub by (auto simp: open_keys_def checked_keys_def intro: nodes_le_trans)
    next
      case False
      let ?r = "r\<lparr>cr_stack := rest, cr_inside := del k (cr_inside r),
                   cr_asm := (cr_asm r)\<lparr>ga_checked := ins (k, strict) (ga_checked (cr_asm r))\<rparr>\<rparr>"
      from 1(4) Cons f False en have m: "(if strict then last_missing (an_sources n) else None) = None"
        and run: "check_loop S refs strict None ?r = (A', None)"
        by (auto simp: check_loop.simps [of S refs strict e r0] split: option.splits)
      note P = check_inv_pop [OF E(1) Cons [unfolded f] False m refl]
      from 1(2) [OF en [symmetric] refl Cons f [symmetric] refl False m P(1) run 1(5)]
      show ?thesis using nodes_le_trans [OF E(3), of A'] E(4) sub P(2,4) by (auto simp: checked_keys_def)
    qed
  qed
qed

definition asm_good :: "'m sdk \<Rightarrow> refs \<Rightarrow> 'm graph_assembly \<Rightarrow> bool" where
  "asm_good S refs A \<longleftrightarrow> asm_ok S refs A \<and> (\<forall>b. closed A b)"

lemma asm_good_default [simp]: "asm_good S refs default_assembly"
  by (simp add: asm_good_def closed_def checked_keys_def) (simp add: default_assembly_def)

lemma closed_le: "closed A b \<Longrightarrow> nodes_le A B \<Longrightarrow> checked_keys B b = checked_keys A b \<Longrightarrow> closed B b"
  unfolding closed_def by (auto intro: covered_mono)

lemma check_good:
  assumes "inj (sk_sha256 S)" "asm_good S refs A" "check S refs strict key A = (A', None)"
  shows "asm_good S refs A'" "key \<in> checked_keys A' strict" "checked_keys A b \<subseteq> checked_keys A' b" "nodes_le A A'"
proof -
  let ?r = "\<lparr>cr_asm = A, cr_stack = [], cr_inside = []\<rparr>"
  have "check_inv S refs strict (Some key) ?r"
    using assms(2) by (auto simp: check_inv_def asm_good_def closed_def open_keys_def)
  from check_loop_ok [OF assms(1) this] assms(3)
  have R: "asm_ok S refs A'" "closed A' strict" "insert key (checked_keys A strict) \<subseteq> checked_keys A' strict" "nodes_le A A'"
    "\<And>b. b \<noteq> strict \<Longrightarrow> checked_keys A' b = checked_keys A b"
    by (auto simp: check_def open_keys_def)
  have "closed A' b" for b
    using R(2) closed_le [OF _ R(4) R(5)] assms(2) by (cases "b = strict") (auto simp: asm_good_def)
  with R show "asm_good S refs A'" "key \<in> checked_keys A' strict" "nodes_le A A'" by (auto simp: asm_good_def)
  show "checked_keys A b \<subseteq> checked_keys A' b" using R(3,5) by (cases "b = strict") auto
qed

lemma check_keys_good:
  assumes "inj (sk_sha256 S)"
  shows "asm_good S refs A \<Longrightarrow> check_keys S refs strict ks A = (A', None)
    \<Longrightarrow> asm_good S refs A' \<and> set ks \<subseteq> checked_keys A' strict \<and> (\<forall>b. checked_keys A b \<subseteq> checked_keys A' b)"
proof (induction ks arbitrary: A)
  case (Cons k ks)
  from Cons(3) obtain B where c: "check S refs strict k A = (B, None)" and r: "check_keys S refs strict ks B = (A', None)"
    by (auto split: prod.splits option.splits)
  note G = check_good [OF assms Cons(2) c]
  note I = Cons(1) [OF G(1) r]
  have "checked_keys A b \<subseteq> checked_keys A' b" for b using I G(3) [of b] by (meson order_trans)
  with I G(2) show ?case by auto
qed simp

text \<open>Every node a checked key reaches is parsed, and under \<open>strict\<close> none of them lacks a source.\<close>

lemma checked_assembles:
  assumes "asm_good S refs A" "k \<in> checked_keys A strict"
  shows "\<exists>n. own_node S refs k = Some n \<and> tbl_get (ga_nodes A) k = Some n \<and> (strict \<longrightarrow> None \<notin> set (an_sources n))
    \<and> (\<forall>s. Some s \<in> set (an_sources n) \<longrightarrow> s \<in> checked_keys A strict)"
  using assms asm_okD(2) by (fastforce simp: asm_good_def closed_def covered_def)

subsection \<open>The BEEF of a checked key\<close>

definition agree :: "'m graph_assembly \<Rightarrow> 'm graph_assembly \<Rightarrow> string set \<Rightarrow> bool" where
  "agree A B C \<longleftrightarrow>
     (\<forall>k \<in> C. \<exists>n. tbl_get (ga_nodes A) k = Some n \<and> tbl_get (ga_nodes B) k = Some n \<and> (\<forall>s. Some s \<in> set (an_sources n) \<longrightarrow> s \<in> C))"

definition frames_in :: "string set \<Rightarrow> ('m assembly_node \<times> nat) list \<Rightarrow> bool" where
  "frames_in C st \<longleftrightarrow> (\<forall>(n, left) \<in> set st. left \<le> length (an_sources n) \<and> (\<forall>s. Some s \<in> set (an_sources n) \<longrightarrow> s \<in> C))"

lemma enter_beef_agree:
  assumes "agree A B C" "set_option e \<subseteq> C" "frames_in C (br_stack r)"
  shows "enter_beef S A e r = enter_beef S B e r" "frames_in C (br_stack (enter_beef S A e r))"
  using assms by (cases e; fastforce simp: agree_def enter_beef_def frames_in_def Let_def split: option.splits)+

lemma beef_loop_agree:
  assumes "agree A B C"
  shows "set_option e \<subseteq> C \<Longrightarrow> frames_in C (br_stack r0) \<Longrightarrow> beef_loop S A e r0 = beef_loop S B e r0"
  using assms
proof (induction S A e r0 rule: beef_loop.induct)
  case (1 S A e r0)
  note E = enter_beef_agree [OF 1(5,3,4), of S]
  let ?r = "enter_beef S A e r0"
  show ?case
  proof (cases "br_stack ?r")
    case Nil
    then show ?thesis using E(1) by (simp add: beef_loop.simps [of S _ e r0] Let_def)
  next
    case (Cons f rest)
    obtain n left where f: "f = (n, left)" by (cases f)
    have fr: "left \<le> length (an_sources n)" "\<forall>s. Some s \<in> set (an_sources n) \<longrightarrow> s \<in> C" "frames_in C rest"
      using E(2) Cons f by (auto simp: frames_in_def)
    show ?thesis
    proof (cases "left = 0")
      case True
      show ?thesis using 1(1) [OF refl Cons f [symmetric] True _ _ 1(5)] E(1) fr Cons f True
        by (simp add: beef_loop.simps [of S _ e r0] Let_def)
    next
      case False
      have "an_sources n ! (left - 1) \<in> set (an_sources n)" using False fr(1) by (intro nth_mem) linarith
      then have s: "set_option (an_sources n ! (left - 1)) \<subseteq> C" using fr(2) by (cases "an_sources n ! (left - 1)") auto
      show ?thesis using 1(2) [OF refl Cons f [symmetric] False s _ 1(5)] E(1) fr Cons f False
        by (simp add: beef_loop.simps [of S _ e r0] Let_def frames_in_def)
    qed
  qed
qed

lemma beef_of_same:
  assumes "asm_good S refs A" "asm_good S refs B" "k \<in> checked_keys A b" "k \<in> checked_keys B b"
  shows "beef_of S A k = beef_of S B k"
proof -
  have "agree A B (checked_keys A b \<inter> checked_keys B b)"
    unfolding agree_def using checked_assembles [OF assms(1)] checked_assembles [OF assms(2)] by fastforce
  from beef_loop_agree [OF this, of "Some k" empty_beef_run S] assms(3,4)
  show ?thesis by (simp add: beef_of_def frames_in_def empty_beef_run_def)
qed

end
