(* ===== verification/Gasp_Walk.thy ===== *)
theory Gasp_Walk
  imports Gasp_Base
begin

text \<open>
  The walk of one graph (\<open>gasp.rs\<close>, \<open>walk_graph\<close>, \<open>step\<close>, \<open>absorb\<close>, \<open>fetch_root\<close>, \<open>ask_peer_for_input\<close>,
  \<open>commit\<close>, \<open>complete_graph\<close>): a stack of inputs still to ask for, one fetched and appended per step, its
  own needed inputs pushed on top, until nothing is pending, a counted limb of the pass is spent, or a
  deadline falls due. The order of the inputs a node needs is the answer's (a hash map in the code).
\<close>

definition parse_outpoint :: "string \<Rightarrow> (string \<times> nat) option" where
  "parse_outpoint s =
     (case split_once CHR ''.'' s of
        None \<Rightarrow> None
      | Some (t, i) \<Rightarrow> (case parse_u32 i of None \<Rightarrow> None | Some n \<Rightarrow> Some (t, n)))"

definition node_id :: "'w gasp_env \<Rightarrow> gasp_node \<Rightarrow> string option" where
  "node_id E n = map_option (\<lambda>t. to_graph_id (Outpoint t (node_output_index n))) (tx_id_of_hex E (raw_tx n))"

subsection \<open>Counting\<close>

definition upd_walk :: "(walk \<Rightarrow> walk) \<Rightarrow> 'w gasp \<Rightarrow> 'w gasp" where
  "upd_walk f g = g\<lparr>g_walk := map_option f (g_walk g)\<rparr>"

definition count_call :: "('w gasp, unit) act" where
  "count_call = upd (\<lambda>g. upd_walk (\<lambda>w. w\<lparr>calls_this_pass := calls_this_pass w + 1,
      wk_record := (wk_record w)\<lparr>dg_calls := dg_calls (wk_record w) + 1\<rparr>\<rparr>)
    (g\<lparr>g_calls_made := g_calls_made g + 1\<rparr>))"

definition node_bytes :: "gasp_node \<Rightarrow> nat" where
  "node_bytes n = length (raw_tx n) + (case proof_hex n of None \<Rightarrow> 0 | Some p \<Rightarrow> length p)"

definition count_fetched :: "gasp_node \<Rightarrow> ('w gasp, unit) act" where
  "count_fetched n = upd (\<lambda>g. upd_walk (\<lambda>w. w\<lparr>bytes_this_pass := bytes_this_pass w + node_bytes n\<rparr>)
    (g\<lparr>g_bytes_fetched := g_bytes_fetched g + node_bytes n\<rparr>))"

subsection \<open>Fetching\<close>

definition root_expired :: "'w gasp_env \<Rightarrow> gasp_node \<Rightarrow> string \<Rightarrow> ('w gasp, bool) act" where
  "root_expired E n p g =
     (case st_sync_expiry E n p (g_world g) of
        Inl e \<Rightarrow> (g, Err e)
      | Inr x \<Rightarrow>
          let g1 = (case x of None \<Rightarrow> g | Some ex \<Rightarrow> g\<lparr>g_root_expiries := tbl_insert p ex (g_root_expiries g)\<rparr>);
              past = (case x of None \<Rightarrow> False | Some ex \<Rightarrow> ex \<le> now_secs E g)
          in (if past then g1\<lparr>g_refused_expiry := x\<rparr> else g1, Ok past))"

definition hydrate_root :: "'w gasp_env \<Rightarrow> gasp_node \<Rightarrow> ('w gasp, gasp_node) act" where
  "hydrate_root E n =
     (if proof_hex n \<noteq> None \<or> fe_fetch_ancestor E = None then ok n
      else case Option.bind (node_id E n) parse_outpoint of
             None \<Rightarrow> ok n
           | Some (t, _) \<Rightarrow>
               seq count_call (\<lambda>_. seq (io (fe_verified_proof_for E t)) (\<lambda>p. ok (n\<lparr>proof_hex := p\<rparr>))))"

definition fetch_root :: "'w gasp_env \<Rightarrow> pending_input \<Rightarrow> ('w gasp, gasp_node option) act" where
  "fetch_root E item =
     (case parse_outpoint (pi_outpoint item) of
        None \<Rightarrow> err (OtherError (''bad outpoint '' @ pi_outpoint item))
      | Some (t, i) \<Rightarrow>
          seq count_call (\<lambda>_.
          seq (io (rm_request_node E (pi_graph_id item) t i (pi_metadata item))) (\<lambda>n.
          seq (count_fetched n) (\<lambda>_.
          seq (root_expired E n (pi_outpoint item)) (\<lambda>expired.
            if expired then ok None else seq (hydrate_root E n) (\<lambda>n'. ok (Some n')))))))"

definition is_not_found :: "gasp_error \<Rightarrow> bool" where
  "is_not_found e = (case e of NodeNotFound _ \<Rightarrow> True | _ \<Rightarrow> False)"

definition ask_peer_for_input ::
  "'w gasp_env \<Rightarrow> pending_input \<Rightarrow> string \<Rightarrow> nat \<Rightarrow> ('w gasp, gasp_node) act" where
  "ask_peer_for_input E item t i =
     seq (got (\<lambda>g. pi_outpoint item \<in> set (g_absent g))) (\<lambda>absent.
       if absent
       then err (NodeNotFound (pi_outpoint item @ '': the peer answered it does not hold it earlier in this sync''))
       else
         seq count_call (\<lambda>_.
         seq (caught (io (rm_request_node E (pi_graph_id item) t i (pi_metadata item)))) (\<lambda>r.
           case r of
             Inr n \<Rightarrow> seq (count_fetched n) (\<lambda>_. ok n)
           | Inl e \<Rightarrow>
               seq (upd (\<lambda>g. if is_not_found e then g\<lparr>g_absent := ins (pi_outpoint item) (g_absent g)\<rparr> else g))
                 (\<lambda>_. err e))))"

subsection \<open>One step\<close>

datatype step_out =
    Step_Expired
  | Step_Pruned
  | Step_Seen
  | Step_Appended string walked_node "pending_input list"

definition node_key :: "'w gasp_env \<Rightarrow> gasp_node \<Rightarrow> string" where
  "node_key E n =
     to_graph_id (Outpoint (case tx_id_of_hex E (raw_tx n) of Some t \<Rightarrow> t | None \<Rightarrow> take 64 (raw_tx n)) (node_output_index n))"

definition children_of :: "gasp_node \<Rightarrow> string \<Rightarrow> (string \<times> bool) list option \<Rightarrow> pending_input list" where
  "children_of n key needed =
     (case needed of
        None \<Rightarrow> []
      | Some xs \<Rightarrow>
          map (\<lambda>(p, m). \<lparr>pi_outpoint = p, pi_graph_id = graph_id n, pi_metadata = m, pi_spent_by = Some key,
                         parent_proven = (proof_hex n \<noteq> None)\<rparr>)
            (filter (\<lambda>(p, _). parse_outpoint p \<noteq> None) xs))"

definition absorb :: "'w gasp_env \<Rightarrow> pending_input \<Rightarrow> gasp_node \<Rightarrow> ('w gasp, step_out) act" where
  "absorb E item n =
     seq (got (\<lambda>g. case g_walk g of None \<Rightarrow> False | Some w \<Rightarrow> node_key E n \<in> set (wk_seen w))) (\<lambda>seen.
       if seen then ok Step_Seen
       else
         seq (io (st_append_to_graph E n (pi_spent_by item))) (\<lambda>_.
         seq (io (st_find_needed_inputs E n)) (\<lambda>needed.
           ok (Step_Appended (node_key E n) \<lparr>node = n, wn_spent_by = pi_spent_by item\<rparr>
                 (children_of n (node_key E n) needed)))))"

definition fetched_node :: "pending_input \<Rightarrow> nat \<Rightarrow> string \<Rightarrow> string option \<Rightarrow> gasp_node" where
  "fetched_node item i raw proof =
     \<lparr>graph_id = pi_graph_id item, raw_tx = raw, node_output_index = i, proof_hex = proof,
      tx_metadata = None, output_metadata = None, node_inputs = None\<rparr>"

definition absorbed :: "'w gasp_env \<Rightarrow> pending_input \<Rightarrow> gasp_node \<Rightarrow> ('w gasp, step_out) act" where
  "absorbed E item n = faulted (\<lambda>_. VERIFICATION) (absorb E item n)"

text \<open>The root comes from the peer.\<close>

definition root_step :: "'w gasp_env \<Rightarrow> pending_input \<Rightarrow> ('w gasp, step_out) act" where
  "root_step E item =
     seq (faulted peer_fault_class (fetch_root E item)) (\<lambda>r.
       case r of None \<Rightarrow> ok Step_Expired | Some n \<Rightarrow> absorbed E item n)"

text \<open>With a chain fetcher: the input comes from the chain, and nothing is pruned.\<close>

definition fetcher_step ::
  "'w gasp_env \<Rightarrow> (string \<Rightarrow> ('w, string \<times> string option) act) \<Rightarrow> pending_input \<Rightarrow> string \<Rightarrow> nat
     \<Rightarrow> ('w gasp, step_out) act" where
  "fetcher_step E fetch item t i =
     seq count_call (\<lambda>_.
     seq (caught (io (fetch t))) (\<lambda>r.
       case r of
         Inr (raw, proof) \<Rightarrow>
           seq (count_fetched (fetched_node item i raw proof)) (\<lambda>_. absorbed E item (fetched_node item i raw proof))
       | Inl e \<Rightarrow>
           let cls = (case e of DefinitiveNotFound _ \<Rightarrow> NOT_FOUND | _ \<Rightarrow> COURIER)
           in seq (got (\<lambda>g. tm_root_exhausted E (g_world g))) (\<lambda>exhausted.
                if parent_proven item \<or> e = CourierBudget \<or> exhausted then faulted (\<lambda>_. cls) (err e)
                else
                  seq (caught (ask_peer_for_input E item t i)) (\<lambda>r.
                    case r of
                      Inr n \<Rightarrow> absorbed E item n
                    | Inl peer \<Rightarrow>
                        if is_not_found peer then faulted (\<lambda>_. NOT_FOUND) (err peer) else faulted (\<lambda>_. cls) (err e)))))"

text \<open>
  Without one: the peer is asked; an input named by a proven node that the peer says it does not hold is
  pruned, any other failure fails the graph.
\<close>

definition peer_step :: "'w gasp_env \<Rightarrow> pending_input \<Rightarrow> string \<Rightarrow> nat \<Rightarrow> ('w gasp, step_out) act" where
  "peer_step E item t i =
     (if \<not> parent_proven item
      then seq (faulted peer_fault_class (ask_peer_for_input E item t i)) (absorbed E item)
      else
        seq count_call (\<lambda>_.
        seq (caught (io (rm_request_node E (pi_graph_id item) t i (pi_metadata item)))) (\<lambda>r.
          case r of
            Inr n \<Rightarrow> seq (count_fetched n) (\<lambda>_. absorbed E item n)
          | Inl e \<Rightarrow>
              if is_not_found e
              then seq (upd (\<lambda>g. g\<lparr>g_pruned := ins (pi_outpoint item) (g_pruned g)\<rparr>)) (\<lambda>_. ok Step_Pruned)
              else faulted peer_fault_class (err e))))"

definition step :: "'w gasp_env \<Rightarrow> pending_input \<Rightarrow> ('w gasp, step_out) act" where
  "step E item =
     (if pi_spent_by item = None then root_step E item
      else case parse_outpoint (pi_outpoint item) of
             None \<Rightarrow> ok Step_Pruned
           | Some (t, i) \<Rightarrow>
               (case fe_fetch_ancestor E of Some fetch \<Rightarrow> fetcher_step E fetch item t i | None \<Rightarrow> peer_step E item t i))"

subsection \<open>What a step leaves of the walk\<close>

text \<open>
  A step changes the walk in hand only by what it counts: the record's calls, the calls and the bytes of
  the pass.
\<close>

definition uncounted :: "walk \<Rightarrow> walk" where
  "uncounted w = w\<lparr>calls_this_pass := 0, bytes_this_pass := 0, wk_record := (wk_record w)\<lparr>dg_calls := 0\<rparr>\<rparr>"

definition calls_of :: "walk option \<Rightarrow> nat" where
  "calls_of x = (case x of None \<Rightarrow> 0 | Some w \<Rightarrow> calls_this_pass w)"

definition same_walk :: "walk option \<Rightarrow> walk option \<Rightarrow> bool" where
  "same_walk x y \<longleftrightarrow> map_option uncounted x = map_option uncounted y \<and> calls_of x \<le> calls_of y"

lemma same_walk_refl [simp]: "same_walk x x"
  by (simp add: same_walk_def)

lemma same_walk_trans [trans]: "same_walk x y \<Longrightarrow> same_walk y z \<Longrightarrow> same_walk x z"
  by (auto simp: same_walk_def)

lemma uncounted_fields:
  assumes "uncounted v = uncounted w"
  shows "wk_seen v = wk_seen w" "nodes_this_pass v = nodes_this_pass w" "wk_resumed v = wk_resumed w"
    "wk_cap v = wk_cap w" "nodes_at_start v = nodes_at_start w" "gone_on v = gone_on w" "wk_half v = wk_half w"
    "wk_struck v = wk_struck w" "dg_nodes (wk_record v) = dg_nodes (wk_record w)"
    "dg_pending (wk_record v) = dg_pending (wk_record w)" "dg_outpoint (wk_record v) = dg_outpoint (wk_record w)"
    "dg_cursor_passable (wk_record v) = dg_cursor_passable (wk_record w)" "dg_score (wk_record v) = dg_score (wk_record w)"
    "(wk_record v)\<lparr>dg_calls := 0\<rparr> = (wk_record w)\<lparr>dg_calls := 0\<rparr>"
  using assms
  by (cases v; cases w; cases "wk_record v"; cases "wk_record w"; simp add: uncounted_def)+

lemma same_walk_None: "same_walk x y \<Longrightarrow> x = None \<longleftrightarrow> y = None"
  by (cases x; cases y) (auto simp: same_walk_def)

lemma same_walk_Some: "same_walk (Some v) y \<Longrightarrow> \<exists>w. y = Some w \<and> uncounted w = uncounted v \<and> calls_this_pass v \<le> calls_this_pass w"
  by (cases y) (auto simp: same_walk_def calls_of_def)

text \<open>The calls of the walk only rise, and its record stays.\<close>

abbreviation walks_on :: "walk option \<Rightarrow> 'w gasp \<Rightarrow> bool" where
  "walks_on x g \<equiv> same_walk x (g_walk g)"

lemma keeps_count_call [keeps_rules]: "keeps (walks_on x) count_call"
  unfolding count_call_def
  by (rule keeps_upd) (auto simp: upd_walk_def same_walk_def calls_of_def uncounted_def split: option.splits)

lemma keeps_count_fetched [keeps_rules]: "keeps (walks_on x) (count_fetched n)"
  unfolding count_fetched_def
  by (rule keeps_upd) (auto simp: upd_walk_def same_walk_def calls_of_def uncounted_def split: option.splits)

lemma keeps_root_expired [keeps_rules]: "keeps (walks_on x) (root_expired E n p)"
  by (rule keepsI) (auto simp: root_expired_def Let_def split: sum.splits option.splits if_splits)

lemma keeps_hydrate_root [keeps_rules]: "keeps (walks_on x) (hydrate_root E n)"
  unfolding hydrate_root_def by (auto split: option.splits intro!: keeps_rules)

lemma keeps_fetch_root [keeps_rules]: "keeps (walks_on x) (fetch_root E item)"
  unfolding fetch_root_def by (auto split: option.splits intro!: keeps_rules)

lemma keeps_ask_peer [keeps_rules]: "keeps (walks_on x) (ask_peer_for_input E item t i)"
  unfolding ask_peer_for_input_def by (auto split: sum.splits intro!: keeps_rules)

lemma keeps_absorb [keeps_rules]: "keeps (walks_on x) (absorb E item n)"
  unfolding absorb_def by (auto intro!: keeps_rules)

lemma keeps_absorbed [keeps_rules]: "keeps (walks_on x) (absorbed E item n)"
  unfolding absorbed_def by (auto intro!: keeps_rules)

lemma keeps_root_step [keeps_rules]: "keeps (walks_on x) (root_step E item)"
  unfolding root_step_def by (auto split: option.splits intro!: keeps_rules)

lemma keeps_fetcher_step [keeps_rules]: "keeps (walks_on x) (fetcher_step E fetch item t i)"
  unfolding fetcher_step_def Let_def by (auto split: sum.splits intro!: keeps_rules)

lemma keeps_peer_step [keeps_rules]: "keeps (walks_on x) (peer_step E item t i)"
  unfolding peer_step_def by (auto split: sum.splits intro!: keeps_rules)

lemma keeps_step [keeps_rules]: "keeps (walks_on x) (step E item)"
  unfolding step_def by (auto split: option.splits intro!: keeps_rules)


subsection \<open>Every node costs a call\<close>

text \<open>An action that answers only after it counted a call of the walk in hand.\<close>

definition counts :: "('w gasp, 'a) act \<Rightarrow> bool" where
  "counts m \<longleftrightarrow> (\<forall>g g' x. g_walk g \<noteq> None \<longrightarrow> m g = (g', Ok x) \<longrightarrow> calls_of (g_walk g) < calls_of (g_walk g'))"

lemma countsD: "counts m \<Longrightarrow> m g = (g', Ok x) \<Longrightarrow> g_walk g = Some w \<Longrightarrow> calls_of (Some w) < calls_of (g_walk g')"
  unfolding counts_def by (metis option.distinct(1))

lemma counts_count_call: "counts count_call"
  by (auto simp: counts_def count_call_def upd_walk_def calls_of_def)

lemma counts_err [simp]: "counts (err e)"
  by (simp add: counts_def)

lemma keeps_walks_on: "(\<And>x. keeps (walks_on x) m) \<Longrightarrow> m g = (g', a) \<Longrightarrow> same_walk (g_walk g) (g_walk g')"
  using keepsD [of "walks_on (g_walk g)" m g g' a] by simp

lemma counts_seq_left:
  assumes "counts m" "\<And>x y. keeps (walks_on x) (k y)"
  shows "counts (seq m k)"
  unfolding counts_def
proof (intro allI impI)
  fix g g' x
  assume g: "g_walk g \<noteq> None" and run: "seq m k g = (g', Ok x)"
  then obtain y g1 where m: "m g = (g1, Ok y)" and k: "k y g1 = (g', Ok x)" by (auto elim: seq_elim)
  have "calls_of (g_walk g) < calls_of (g_walk g1)" using assms(1) g m by (auto simp: counts_def)
  also have "\<dots> \<le> calls_of (g_walk g')" using keeps_walks_on [OF assms(2) k] by (simp add: same_walk_def)
  finally show "calls_of (g_walk g) < calls_of (g_walk g')" .
qed

lemma counts_seq_right:
  assumes "\<And>x. keeps (walks_on x) m" "\<And>y. counts (k y)"
  shows "counts (seq m k)"
  unfolding counts_def
proof (intro allI impI)
  fix g g' x
  assume g: "g_walk g \<noteq> None" and run: "seq m k g = (g', Ok x)"
  then obtain y g1 where m: "m g = (g1, Ok y)" and k: "k y g1 = (g', Ok x)" by (auto elim: seq_elim)
  note s = keeps_walks_on [OF assms(1) m]
  then have "g_walk g1 \<noteq> None" using g same_walk_None [OF s] by simp
  with k assms(2) have "calls_of (g_walk g1) < calls_of (g_walk g')" by (auto simp: counts_def)
  with s show "calls_of (g_walk g) < calls_of (g_walk g')" by (auto simp: same_walk_def)
qed

lemma counts_faulted: "counts m \<Longrightarrow> counts (faulted c m)"
  by (auto simp: counts_def faulted_def split: prod.splits answer.splits)

lemma counts_fetch_root: "counts (fetch_root E item)"
  unfolding fetch_root_def
  by (auto split: option.splits intro!: counts_seq_left counts_count_call keeps_rules)

lemma counts_ask_peer: "counts (ask_peer_for_input E item t i)"
  unfolding ask_peer_for_input_def
  by (rule counts_seq_right) (auto split: sum.splits intro!: counts_seq_left counts_count_call keeps_rules)

lemma counts_root_step: "counts (root_step E item)"
  unfolding root_step_def
  by (rule counts_seq_left) (auto split: option.splits intro!: counts_faulted counts_fetch_root keeps_rules)

lemma counts_fetcher_step: "counts (fetcher_step E fetch item t i)"
  unfolding fetcher_step_def Let_def
  by (rule counts_seq_left) (auto split: sum.splits intro!: counts_count_call keeps_rules)

lemma counts_peer_step: "counts (peer_step E item t i)"
  unfolding peer_step_def
  by (auto split: sum.splits intro!: counts_seq_left counts_count_call counts_faulted counts_ask_peer keeps_rules)

lemma step_counts:
  assumes "step E item g = (g', Ok out)" "g_walk g \<noteq> None"
  shows "out = Step_Pruned \<or> calls_of (g_walk g) < calls_of (g_walk g')"
  using assms
  by (auto simp: step_def split: if_splits option.splits
      dest: countsD [OF counts_root_step] countsD [OF counts_fetcher_step] countsD [OF counts_peer_step])

subsection \<open>The walk\<close>

definition pop_pending :: "walk \<Rightarrow> walk" where
  "pop_pending w = w\<lparr>wk_record := (wk_record w)\<lparr>dg_pending := butlast (dg_pending (wk_record w))\<rparr>\<rparr>"

definition commit :: "step_out \<Rightarrow> 'w gasp \<Rightarrow> 'w gasp" where
  "commit out g =
     (case g_walk g of
        None \<Rightarrow> g
      | Some w0 \<Rightarrow>
          let w = pop_pending w0
          in case out of
               Step_Appended key wn children \<Rightarrow>
                 g\<lparr>g_nodes_appended := g_nodes_appended g + 1,
                   g_walk := Some (w\<lparr>wk_seen := ins key (wk_seen w), nodes_this_pass := nodes_this_pass w + 1,
                     wk_record := (wk_record w)\<lparr>dg_nodes := dg_nodes (wk_record w) @ [wn],
                       dg_pending := dg_pending (wk_record w) @ rev children\<rparr>\<rparr>)\<rparr>
             | _ \<Rightarrow> g\<lparr>g_walk := Some w\<rparr>)"

text \<open>The counted limb a pass has spent.\<close>

definition walk_over :: "walk \<Rightarrow> string option" where
  "walk_over w =
     (if pc_calls (wk_cap w) \<le> calls_this_pass w then Some ''calls''
      else if pc_bytes (wk_cap w) \<le> bytes_this_pass w then Some ''bytes''
      else if pc_nodes (wk_cap w) \<le> nodes_this_pass w then Some ''nodes''
      else None)"

datatype walk_end = Walk_Expired | Walk_Done | Walk_Deferred string

definition root_bound :: "string \<Rightarrow> ('w gasp, walk_end option) act" where
  "root_bound reason g = (g\<lparr>g_last_fault := None\<rparr>, Ok (Some (Walk_Deferred reason)))"

text \<open>One round of the loop: how the walk ended, or that it goes on.\<close>

definition walk_round :: "'w gasp_env \<Rightarrow> pending_input \<Rightarrow> ('w gasp, walk_end option) act" where
  "walk_round E item =
     seq (io (tm_deadline_due E)) (\<lambda>due.
       if due then root_bound ''time''
       else
         seq (raced (step E item)) (\<lambda>r g.
           case r of
             None \<Rightarrow> root_bound ''time'' g
           | Some res \<Rightarrow>
               if tm_root_exhausted E (g_world g) \<or> res = Inl CourierBudget
               then root_bound ''courier_rungs'' g
               else (case res of
                       Inl e \<Rightarrow> (g, Err e)
                     | Inr out \<Rightarrow> if out = Step_Expired then (g, Ok (Some Walk_Expired)) else (commit out g, Ok None))))"


lemma commit_walk:
  assumes "g_walk g = Some w"
  shows "\<exists>w'. g_walk (commit out g) = Some w' \<and> calls_this_pass w' = calls_this_pass w \<and> wk_cap w' = wk_cap w
    \<and> gone_on w' = gone_on w \<and> wk_resumed w' = wk_resumed w \<and> wk_struck w' = wk_struck w
    \<and> dg_outpoint (wk_record w') = dg_outpoint (wk_record w)
    \<and> (dg_pending (wk_record w') = butlast (dg_pending (wk_record w)) \<or> (\<exists>key wn ch. out = Step_Appended key wn ch))"
  using assms by (cases out) (auto simp: commit_def Let_def pop_pending_def)

lemma walk_round_goes_on:
  assumes "walk_round E item g = (g', Ok None)" "g_walk g = Some w"
  shows "\<exists>w'. g_walk g' = Some w' \<and> wk_cap w' = wk_cap w \<and> gone_on w' = gone_on w \<and> calls_this_pass w \<le> calls_this_pass w'
    \<and> (calls_this_pass w < calls_this_pass w' \<or> dg_pending (wk_record w') = butlast (dg_pending (wk_record w)))"
proof -
  obtain g1 where due: "io (tm_deadline_due E) g = (g1, Ok False)"
    and rest: "seq (raced (step E item)) (\<lambda>r g. case r of
             None \<Rightarrow> root_bound ''time'' g
           | Some res \<Rightarrow>
               if tm_root_exhausted E (g_world g) \<or> res = Inl CourierBudget
               then root_bound ''courier_rungs'' g
               else (case res of
                       Inl e \<Rightarrow> (g, Err e)
                     | Inr out \<Rightarrow> if out = Step_Expired then (g, Ok (Some Walk_Expired)) else (commit out g, Ok None))) g1
      = (g', Ok None)"
    using assms(1) by (auto simp: walk_round_def root_bound_def elim!: seq_elim split: if_splits)
  have g1: "g_walk g1 = Some w" using due assms(2) by (auto simp: io_def split: prod.splits)
  obtain g2 out where st: "step E item g1 = (g2, Ok out)" and g': "g' = commit out g2" "out \<noteq> Step_Expired"
    using rest by (auto simp: root_bound_def raced_def elim!: seq_elim split: option.splits if_splits sum.splits prod.splits answer.splits)
  have "same_walk (Some w) (g_walk g2)" using keeps_walks_on [OF keeps_step st] g1 by simp
  then obtain w2 where w2: "g_walk g2 = Some w2" "uncounted w2 = uncounted w" "calls_this_pass w \<le> calls_this_pass w2"
    using same_walk_Some by blast
  note f = uncounted_fields [OF w2(2)]
  show ?thesis
  proof (cases "out = Step_Pruned")
    case True
    with commit_walk [OF w2(1), of out] g' w2(3) f show ?thesis by auto
  next
    case False
    with step_counts [OF st] g1 w2(1) have "calls_this_pass w < calls_this_pass w2" by (simp add: calls_of_def)
    with commit_walk [OF w2(1), of out] g' f show ?thesis by fastforce
  qed
qed

definition calls_left :: "'w gasp \<Rightarrow> nat" where
  "calls_left g = (case g_walk g of None \<Rightarrow> 0 | Some w \<Rightarrow> pc_calls (wk_cap w) - calls_this_pass w)"

definition pending_left :: "'w gasp \<Rightarrow> nat" where
  "pending_left g = (case g_walk g of None \<Rightarrow> 0 | Some w \<Rightarrow> length (dg_pending (wk_record w)))"

function walk_graph :: "'w gasp_env \<Rightarrow> 'w gasp \<Rightarrow> 'w gasp \<times> walk_end answer" where
  "walk_graph E g =
     (case g_walk g of
        None \<Rightarrow> (g, Ok Walk_Done)
      | Some w \<Rightarrow>
          if dg_pending (wk_record w) = [] then (g, Ok Walk_Done)
          else
            let item = last (dg_pending (wk_record w))
            in if parent_proven item \<and> pi_outpoint item \<in> set (g_pruned g)
               then walk_graph E (g\<lparr>g_walk := Some (pop_pending w)\<rparr>)
               else case walk_over w of
                      Some limb \<Rightarrow> (g, Ok (Walk_Deferred limb))
                    | None \<Rightarrow>
                        (case walk_round E item g of
                           (g1, Ok (Some e)) \<Rightarrow> (g1, Ok e)
                         | (g1, Ok None) \<Rightarrow> walk_graph E g1
                         | (g1, Err e) \<Rightarrow> (g1, Err e)
                         | (g1, Cut_Node) \<Rightarrow> (g1, Cut_Node)
                         | (g1, Cut_Sync) \<Rightarrow> (g1, Cut_Sync)))"
  by pat_completeness auto

termination
proof (relation "measures [\<lambda>(_, g). calls_left g, \<lambda>(_, g). pending_left g]", goal_cases)
  case (2 E g w)
  then show ?case by (auto simp: calls_left_def pending_left_def pop_pending_def)
next
  case (3 E g w item g1 x y)
  then have "walk_round E (last (dg_pending (wk_record w))) g = (g1, Ok None)" by auto
  from walk_round_goes_on [OF this 3(1)] obtain w' where w': "g_walk g1 = Some w'" "wk_cap w' = wk_cap w"
    "calls_this_pass w \<le> calls_this_pass w'"
    "calls_this_pass w < calls_this_pass w' \<or> dg_pending (wk_record w') = butlast (dg_pending (wk_record w))" by blast
  have "calls_this_pass w < pc_calls (wk_cap w)" using 3 by (auto simp: walk_over_def split: if_splits)
  then show ?case using 3(1,2) w' by (auto simp: calls_left_def pending_left_def)
qed simp

declare walk_graph.simps [simp del]

text \<open>What the steps and their commits keep, the walk keeps.\<close>

lemma keeps_walk_round:
  assumes "keeps P (io (tm_deadline_due E))" "keeps P (step E item)" "\<And>g out. P g \<Longrightarrow> P (commit out g)"
    and "\<And>g x. P g \<Longrightarrow> P (g\<lparr>g_last_fault := x\<rparr>)"
  shows "keeps P (walk_round E item)"
  unfolding walk_round_def
  by (intro keeps_seq keeps_if keeps_raced assms(1,2))
     (auto intro!: keepsI assms(3,4) simp: root_bound_def split: if_splits option.splits sum.splits)

lemma keeps_walk_graph:
  assumes due: "keeps P (io (tm_deadline_due E))" and stp: "\<And>item. keeps P (step E item)"
    and com: "\<And>g out. P g \<Longrightarrow> P (commit out g)" and flt: "\<And>g x. P g \<Longrightarrow> P (g\<lparr>g_last_fault := x\<rparr>)"
  shows "keeps P (walk_graph E)"
proof -
  have "P g \<Longrightarrow> P (fst (walk_graph F g))" if "F = E" for F g
    using that
  proof (induction F g rule: walk_graph.induct)
    case (1 F g)
    show ?case
    proof (cases "g_walk g")
      case (Some w)
      let ?item = "last (dg_pending (wk_record w))"
      obtain g1 a where r: "walk_round E ?item g = (g1, a)" by fastforce
      have g1: "P g1" using keepsD [OF keeps_walk_round [OF due stp com flt] r 1(3)] .
      have pop: "P (g\<lparr>g_walk := Some (pop_pending w)\<rparr>)" using com [OF 1(3), of Step_Pruned] Some by (simp add: commit_def)
      show ?thesis using Some g1 pop r 1(1) [OF Some] 1(2) [OF Some] 1(3,4)
        by (auto simp: walk_graph.simps [of E g] Let_def split: option.splits answer.splits)
    qed (use 1 in \<open>auto simp: walk_graph.simps [of E g]\<close>)
  qed
  then show ?thesis by (simp add: keeps_def)
qed

text \<open>A predicate of the walk that no count of calls or bytes changes is kept by the steps.\<close>

lemma keeps_of_walk:
  assumes "\<And>x. keeps (walks_on x) m" "\<And>x y. same_walk x y \<Longrightarrow> F x \<Longrightarrow> F y"
  shows "keeps (\<lambda>g. F (g_walk g)) m"
  by (rule keepsI) (use keeps_walks_on [OF assms(1)] assms(2) in blast)

lemma walk_graph_keeps_walk:
  fixes E :: "'w gasp_env"
  assumes "\<And>x y. same_walk x y \<Longrightarrow> F x \<Longrightarrow> F y" "\<And>(g :: 'w gasp) out. F (g_walk g) \<Longrightarrow> F (g_walk (commit out g))"
  shows "keeps (\<lambda>g. F (g_walk g)) (walk_graph E)"
proof (rule keeps_walk_graph)
  show "keeps (\<lambda>g. F (g_walk g)) (io (tm_deadline_due E))" by (rule keeps_io) simp
  show "keeps (\<lambda>g. F (g_walk g)) (step E item)" for item by (rule keeps_of_walk [OF keeps_step]) (rule assms(1))
qed (simp_all add: assms(2))

end
