(* ===== verification/Graph_Anchor.thy ===== *)
theory Graph_Anchor
  imports Assembly_Facts Memory_Storage Gasp_Walk
begin

text \<open>
  The temporary graphs of a sync (\<open>gasp_overlay.rs\<close>, \<open>OverlayGASPStorage\<close>): appending a node, asking what a node
  still needs, the check of a completed graph before anything of it is finalized (its links, its anchor in the chain,
  its replay through the topic manager), its finalization and its discard.

  The topic manager, the verifier of a BEEF (\<open>verify_spv_like_the_reference\<close>, the walk of the scripts under the
  walk budget and the tracker's roots) and the SDK's parsing of a BEEF are arguments. The hash set of spent outpoints
  and the hash map of requested inputs are lists in the order of the inputs.
\<close>

datatype spv_verdict = Spv_Passed | Spv_Held string string string | Spv_Fault string | Spv_Refused string

record manager =
  mg_admit :: "transaction \<Rightarrow> nat list \<Rightarrow> string option \<Rightarrow> string + admittance"
  mg_needed :: "transaction \<Rightarrow> string \<Rightarrow> string + outpoint list"
  mg_expiry :: "bytes \<Rightarrow> nat option"

record 'm overlay_cfg =
  oc_sdk :: "'m sdk"
  oc_topic :: topic
  oc_peer :: string
  oc_configured :: bool
  oc_strict_beef :: bool
  oc_manager :: "manager option"
  oc_merge :: "bytes \<Rightarrow> bytes list \<Rightarrow> string + bytes"
  oc_verify :: "bytes \<Rightarrow> txid \<Rightarrow> spv_verdict"
  oc_open :: "bytes \<Rightarrow> string + transaction"
  oc_stored_tx :: "bytes \<Rightarrow> string + (string \<times> string option)"
  oc_byte_size :: "deferred_graph \<Rightarrow> nat"

record finalized_graph =
  fg_topic :: topic
  fg_beefs :: "bytes list"

record 'm anchored_graph =
  ag_graph_id :: string
  ag_strict :: bool
  ag_order :: "string list"
  ag_assembly :: "'m graph_assembly"

record 'm overlay =
  ov_store :: memory_storage
  ov_memos :: "(string, deferred_graph) table"
  ov_pending :: refs
  ov_anchored :: "'m anchored_graph option"
  ov_sink :: "finalized_graph list"

definition tx_of_hex :: "'m sdk \<Rightarrow> string \<Rightarrow> string + transaction" where
  "tx_of_hex S h = (case sk_from_hex S h of Inl e \<Rightarrow> Inl e | Inr raw \<Rightarrow> sk_from_binary S raw)"

subsection \<open>Pending graphs\<close>

definition pending_key :: "'m sdk \<Rightarrow> gasp_node \<Rightarrow> string option \<Rightarrow> string" where
  "pending_key S n spent_by =
     (case spent_by of
        None \<Rightarrow> graph_id n
      | Some _ \<Rightarrow>
          (case tx_of_hex S (raw_tx n) of
             Inr tx \<Rightarrow> to_graph_id (Outpoint (sk_id S tx) (node_output_index n))
           | Inl _ \<Rightarrow> to_graph_id (Outpoint (take 64 (raw_tx n)) (node_output_index n))))"

definition append_to_graph :: "'m overlay_cfg \<Rightarrow> gasp_node \<Rightarrow> string option \<Rightarrow> ('m overlay, unit) act" where
  "append_to_graph C n spent_by o' =
     (let key = pending_key (oc_sdk C) n spent_by;
          refs = tbl_insert key \<lparr>pn_node = n, pn_spent_by = spent_by, pn_children = []\<rparr> (ov_pending o');
          linked = (case spent_by of
                      None \<Rightarrow> refs
                    | Some parent \<Rightarrow> tbl_modify parent (\<lambda>p. p\<lparr>pn_children := pn_children p @ [key]\<rparr>) refs)
      in (o'\<lparr>ov_anchored := None, ov_pending := linked\<rparr>, Ok ()))"

definition drop_graph :: "string \<Rightarrow> refs \<Rightarrow> refs" where
  "drop_graph gid refs = fold tbl_remove (map fst (filter (\<lambda>(_, p). graph_id (pn_node p) = gid) refs)) refs"

definition discard_graph :: "string \<Rightarrow> ('m overlay, unit) act" where
  "discard_graph gid o' = (o'\<lparr>ov_anchored := None, ov_pending := drop_graph gid (ov_pending o')\<rparr>, Ok ())"

subsection \<open>The links of a graph\<close>

definition spent_keys :: "transaction \<Rightarrow> string list" where
  "spent_keys tx = remdups (map source_key (filter (\<lambda>i. source_txid i \<noteq> []) (inputs tx)))"

definition unassembled :: "string \<Rightarrow> gasp_error \<Rightarrow> gasp_error" where
  "unassembled gid e =
     AnchorUnavailable (''graph '' @ gid @ '' cannot be assembled: '' @ (case e of OtherError t \<Rightarrow> t | _ \<Rightarrow> []))"

record 'm link_run =
  lr_asm :: "'m graph_assembly"
  lr_absent :: "(string \<times> nat) list"
  lr_visited :: "string list"
  lr_stack :: "(string \<times> bool) list"

text \<open>One node of the walk: its transaction is parsed, its children are inputs of it, its absent sources are noted.\<close>

definition link_node ::
  "'m sdk \<Rightarrow> string \<Rightarrow> refs \<Rightarrow> string \<Rightarrow> bool \<Rightarrow> pending_node \<Rightarrow> 'm link_run \<Rightarrow> 'm link_run \<times> gasp_error option" where
  "link_node S gid refs key in_root p r =
     (case parse_tx S refs key (lr_asm r) of
        (A, Inl e) \<Rightarrow> (r\<lparr>lr_asm := A\<rparr>, Some (unassembled gid e))
      | (A, Inr t) \<Rightarrow>
          let spends = spent_keys (at_tx t)
          in case find (\<lambda>c. c \<notin> set spends) (pn_children p) of
               Some c \<Rightarrow>
                 (r\<lparr>lr_asm := A\<rparr>, Some (ValidationFailed (''node '' @ c @ '' is not an input of its declared parent '' @ key)))
             | None \<Rightarrow>
                 let unproven = proof_hex (pn_node p) = None;
                     absent = (if in_root \<and> unproven
                               then List.map_filter parse_outpoint (filter (\<lambda>q. tbl_get refs q = None) spends) else [])
                 in (r\<lparr>lr_asm := A, lr_absent := lr_absent r @ absent,
                       lr_stack := rev (map (\<lambda>c. (c, in_root \<and> unproven)) (pn_children p)) @ lr_stack r\<rparr>, None))"

lemma link_node_visited: "lr_visited (fst (link_node S gid refs key b p r)) = lr_visited r"
  by (auto simp: link_node_def Let_def split: prod.splits sum.splits option.splits)

function link_walk :: "'m sdk \<Rightarrow> string \<Rightarrow> refs \<Rightarrow> 'm link_run \<Rightarrow> 'm link_run \<times> gasp_error option" where
  "link_walk S gid refs r =
     (case lr_stack r of
        [] \<Rightarrow> (r, None)
      | (key, in_root) # rest \<Rightarrow>
          if key \<in> set (lr_visited r) then link_walk S gid refs (r\<lparr>lr_stack := rest\<rparr>)
          else
            let r1 = r\<lparr>lr_stack := rest, lr_visited := key # lr_visited r\<rparr>
            in case tbl_get refs key of
                 None \<Rightarrow> link_walk S gid refs r1
               | Some p \<Rightarrow>
                   (case link_node S gid refs key in_root p r1 of
                      (r2, Some e) \<Rightarrow> (r2, Some e)
                    | (r2, None) \<Rightarrow> link_walk S gid refs r2))"
  by pat_completeness auto

termination
proof (relation "measures [\<lambda>(S, gid, refs, r). card (held_keys refs - set (lr_visited r)), \<lambda>(S, gid, refs, r). length (lr_stack r)]",
    goal_cases)
  case (3 S gid refs r f rest key b r1)
  then have "held_keys refs - set (lr_visited r1) = held_keys refs - set (lr_visited r)" by (auto simp: held_keys_def)
  with 3 show ?case by simp
next
  case (4 S gid refs r f rest key b r1 p r2 y)
  have "lr_visited r2 = key # lr_visited r"
    using link_node_visited [of S gid refs key b p r1] 4 by (metis fst_conv link_run.select_convs(3) link_run.surjective
        link_run.update_convs(3,4))
  then show ?case using unvisited_less [of refs key p "lr_visited r" "set (key # lr_visited r)"] 4 by simp
qed auto

declare link_walk.simps [simp del]

record 'm anchor_input =
  ai_root_txid :: txid
  ai_root_beef :: bytes
  ai_absent :: "(string \<times> nat) list"
  ai_order :: "string list"
  ai_assembly :: "'m graph_assembly"

definition read_anchor_input :: "'m sdk \<Rightarrow> string \<Rightarrow> refs \<Rightarrow> bool \<Rightarrow> gasp_error + 'm anchor_input" where
  "read_anchor_input S gid refs strict =
     (if tbl_get refs gid = None then Inl (ValidationFailed (''Graph node with ID '' @ gid @ '' not found''))
      else
        (case link_walk S gid refs \<lparr>lr_asm = default_assembly, lr_absent = [], lr_visited = [], lr_stack = [(gid, True)]\<rparr> of
           (r, Some e) \<Rightarrow> Inl e
         | (r, None) \<Rightarrow>
             (case check S refs False gid (lr_asm r) of
                (A, Some e) \<Rightarrow> Inl (unassembled gid e)
              | (A, None) \<Rightarrow>
                  let order = ordered_keys gid refs
                  in (case check_keys S refs strict order A of
                        (B, Some e) \<Rightarrow> Inl (unassembled gid e)
                      | (B, None) \<Rightarrow>
                          Inr \<lparr>ai_root_txid = (case tbl_get (ga_nodes A) gid of None \<Rightarrow> [] | Some n \<Rightarrow> an_txid n),
                               ai_root_beef = beef_of S A gid, ai_absent = lr_absent r, ai_order = order, ai_assembly = B\<rparr>))))"

subsection \<open>The anchor check\<close>

definition unavailable :: "string \<Rightarrow> string \<Rightarrow> gasp_error" where
  "unavailable gid what = AnchorUnavailable (''graph '' @ gid @ '': '' @ what)"

definition refused :: "string \<Rightarrow> string \<Rightarrow> gasp_error" where
  "refused gid why = ValidationFailed (''graph '' @ gid @ '': '' @ why)"

definition keep_anchored :: "'m overlay_cfg \<Rightarrow> string \<Rightarrow> 'm anchor_input \<Rightarrow> 'm overlay \<Rightarrow> 'm overlay" where
  "keep_anchored C gid a o' =
     o'\<lparr>ov_anchored := Some \<lparr>ag_graph_id = gid, ag_strict = oc_strict_beef C, ag_order = ai_order a, ag_assembly = ai_assembly a\<rparr>\<rparr>"

text \<open>The checked copy of the root's BEEF: what the storage holds of the absent sources is merged into it.\<close>

definition checked_beef :: "'m overlay_cfg \<Rightarrow> string \<Rightarrow> memory_storage \<Rightarrow> 'm anchor_input \<Rightarrow> gasp_error + bytes" where
  "checked_beef C gid st a =
     (if ai_absent a = [] then Inr (ai_root_beef a)
      else
        (case oc_merge C (ai_root_beef a)
                (List.map_filter (\<lambda>(t, i). Option.bind (find_output st t i (Some (oc_topic C)) None True) beef) (ai_absent a)) of
           Inl e \<Rightarrow> Inl (refused gid (''root BEEF does not parse: '' @ e))
         | Inr b \<Rightarrow> Inr b))"

record replay =
  rp_coins :: "string list"
  rp_spent :: "string list"
  rp_replayed :: "txid list"

text \<open>The inputs of a replayed transaction: the outpoint already spent in the graph, or what is spent now and the coins among them.\<close>

fun replay_inputs ::
  "(tx_input \<Rightarrow> bool) \<Rightarrow> nat \<Rightarrow> tx_input list \<Rightarrow> string list \<Rightarrow> nat list \<Rightarrow> string + string list \<times> nat list" where
  "replay_inputs is_coin i [] gone prev = Inr (gone, prev)"
| "replay_inputs is_coin i (x # xs) gone prev =
     (if source_txid x = [] then replay_inputs is_coin (i + 1) xs gone prev
      else if source_key x \<in> set gone then Inl (source_key x)
      else replay_inputs is_coin (i + 1) xs (source_key x # gone) (if is_coin x then prev @ [i] else prev))"

definition coin_held :: "'m overlay_cfg \<Rightarrow> memory_storage \<Rightarrow> string list \<Rightarrow> tx_input \<Rightarrow> bool" where
  "coin_held C st coins x \<longleftrightarrow>
     source_key x \<in> set coins
       \<or> find_output st (source_txid x) (source_output_index x) (Some (oc_topic C)) None False \<noteq> None"

definition replay_node ::
  "'m overlay_cfg \<Rightarrow> string \<Rightarrow> manager \<Rightarrow> memory_storage \<Rightarrow> bytes \<Rightarrow> replay \<Rightarrow> gasp_error + replay" where
  "replay_node C gid mg st b rp =
     (case oc_open C b of
        Inl e \<Rightarrow> Inl (refused gid (''a graph BEEF does not parse: '' @ e))
      | Inr tx \<Rightarrow>
          let t = sk_id (oc_sdk C) tx
          in if t \<in> set (rp_replayed rp) then Inr rp
             else
               (case replay_inputs (coin_held C st (rp_coins rp)) 0 (inputs tx) (rp_spent rp) [] of
                  Inl q \<Rightarrow> Inl (refused gid (''the graph contains a conflicting spend of '' @ q))
                | Inr (gone, prev) \<Rightarrow>
                    (case mg_admit mg tx prev None of
                       Inl e \<Rightarrow> Inl (unavailable gid (''the topic manager failed on '' @ t @ '': '' @ e))
                     | Inr ad \<Rightarrow>
                         Inr \<lparr>rp_coins = map (\<lambda>j. to_graph_id (Outpoint t j)) (outputs_to_admit ad) @ rp_coins rp,
                              rp_spent = gone, rp_replayed = t # rp_replayed rp\<rparr>)))"

primrec replay_graph ::
  "'m overlay_cfg \<Rightarrow> string \<Rightarrow> manager \<Rightarrow> memory_storage \<Rightarrow> bytes list \<Rightarrow> replay \<Rightarrow> gasp_error + replay" where
  "replay_graph C gid mg st [] rp = Inr rp"
| "replay_graph C gid mg st (b # bs) rp =
     (case replay_node C gid mg st b rp of Inl e \<Rightarrow> Inl e | Inr rp1 \<Rightarrow> replay_graph C gid mg st bs rp1)"

definition graph_beefs :: "'m sdk \<Rightarrow> string list \<Rightarrow> 'm graph_assembly \<Rightarrow> bytes list" where
  "graph_beefs S order A = map (beef_of S A) order"

definition validate_graph_anchor :: "'m overlay_cfg \<Rightarrow> string \<Rightarrow> ('m overlay, unit) act" where
  "validate_graph_anchor C gid o' =
     (case read_anchor_input (oc_sdk C) gid (ov_pending o') (oc_strict_beef C) of
        Inl e \<Rightarrow> (o', Err e)
      | Inr a \<Rightarrow>
          (case checked_beef C gid (ov_store o') a of
             Inl e \<Rightarrow> (o', Err e)
           | Inr b \<Rightarrow>
               (case oc_verify C b (ai_root_txid a) of
                  Spv_Held subject limb what \<Rightarrow>
                    (o', Err (AnchorWalkHeld (''graph '' @ gid @ '': the script walk of '' @ subject
                       @ '' could not run within the budget ('' @ limb @ '': '' @ what @ '')'')))
                | Spv_Fault e \<Rightarrow> (o', Err (unavailable gid (''the chain tracker faulted: '' @ e)))
                | Spv_Refused e \<Rightarrow>
                    (o', Err (refused gid (''The graph is not well-anchored according to the rules of Bitcoin: '' @ e)))
                | Spv_Passed \<Rightarrow>
                    (case oc_manager C of
                       None \<Rightarrow> (keep_anchored C gid a o', Ok ())
                     | Some mg \<Rightarrow>
                         (case replay_graph C gid mg (ov_store o') (graph_beefs (oc_sdk C) (ai_order a) (ai_assembly a))
                                 \<lparr>rp_coins = [], rp_spent = [], rp_replayed = []\<rparr> of
                            Inl e \<Rightarrow> (o', Err e)
                          | Inr rp \<Rightarrow>
                              if gid \<in> set (rp_coins rp) then (keep_anchored C gid a o', Ok ())
                              else (o', Err (refused gid
                                ''This graph did not result in topical admittance of the root node. Rejecting.'')))))))"

subsection \<open>Finalizing\<close>

definition compute_ordered_beefs :: "'m sdk \<Rightarrow> string \<Rightarrow> refs \<Rightarrow> bool \<Rightarrow> 'm anchored_graph option \<Rightarrow> gasp_error + bytes list" where
  "compute_ordered_beefs S gid refs strict anchored =
     (case (case anchored of
              Some k \<Rightarrow> if ag_graph_id k = gid \<and> ag_strict k = strict then Some (ag_order k, ag_assembly k) else None
            | None \<Rightarrow> None) of
        Some (order, A) \<Rightarrow> Inr (graph_beefs S order A)
      | None \<Rightarrow>
          let order = ordered_keys gid refs
          in (case check_keys S refs strict order default_assembly of
                (A, Some e) \<Rightarrow> Inl e
              | (A, None) \<Rightarrow> Inr (graph_beefs S order A)))"

definition finalize_graph :: "'m overlay_cfg \<Rightarrow> string \<Rightarrow> ('m overlay, unit) act" where
  "finalize_graph C gid o' =
     (if tbl_get (ov_pending o') gid = None then (o', Err (OtherError (''No pending graph for '' @ gid)))
      else
        (case compute_ordered_beefs (oc_sdk C) gid (ov_pending o') (oc_strict_beef C) (ov_anchored o') of
           Inl e \<Rightarrow> (o'\<lparr>ov_anchored := None\<rparr>, Err e)
         | Inr beefs \<Rightarrow>
             (o'\<lparr>ov_anchored := None, ov_sink := ov_sink o' @ [\<lparr>fg_topic = oc_topic C, fg_beefs = beefs\<rparr>],
                ov_pending := drop_graph gid (ov_pending o')\<rparr>, Ok ())))"

end
