(* ===== verification/Gasp_Overlay.thy ===== *)
theory Gasp_Overlay
  imports Graph_Anchor Engine_World
begin

text \<open>
  The storage of a sync (\<open>gasp_overlay.rs\<close>, \<open>OverlayGASPStorage\<close>): what a node still needs, the known outputs, the
  nodes served, the records of the deferred graphs over the engine's storage with the fault memos of the page kept in
  memory, and the submits of the finalized graphs (\<open>Engine::submit_finalized_graphs\<close>). \<open>overlay_env\<close> is the
  environment a sync runs in with this storage: the peer, the fetcher, the clocks and the budgets are arguments.

  The page batch is not installed here (\<open>page_batch::installed()\<close> is \<open>None\<close>); the theory \<open>Page_Batch\<close> holds it.
\<close>

subsection \<open>The world of a sync\<close>

record ('m, 'r) oworld =
  ow_overlay :: "'m overlay"
  ow_rest :: 'r

definition on_overlay :: "('m overlay, 'a) act \<Rightarrow> (('m, 'r) oworld, 'a) act" where
  "on_overlay m w = (case m (ow_overlay w) of (o', a) \<Rightarrow> (w\<lparr>ow_overlay := o'\<rparr>, a))"

definition on_rest :: "('r, 'a) act \<Rightarrow> (('m, 'r) oworld, 'a) act" where
  "on_rest m w = (case m (ow_rest w) of (r, a) \<Rightarrow> (w\<lparr>ow_rest := r\<rparr>, a))"

definition storage_text :: "storage_error \<Rightarrow> string" where
  "storage_text e =
     (case e of
        NotFound x \<Rightarrow> ''not found: '' @ x
      | Duplicate x \<Rightarrow> ''duplicate: '' @ x
      | Database x \<Rightarrow> ''database error: '' @ x
      | Serialization x \<Rightarrow> ''serialization error: '' @ x
      | Other x \<Rightarrow> x)"

subsection \<open>Outputs and nodes\<close>

definition ov_sync_expiry :: "'m overlay_cfg \<Rightarrow> gasp_node \<Rightarrow> string \<Rightarrow> gasp_error + nat option" where
  "ov_sync_expiry C n p =
     (case oc_manager C of
        None \<Rightarrow> Inr None
      | Some mg \<Rightarrow>
          (case tx_of_hex (oc_sdk C) (raw_tx n) of
             Inl e \<Rightarrow> Inl (OtherError (''sync root parse: '' @ e))
           | Inr tx \<Rightarrow>
               if to_graph_id (Outpoint (sk_id (oc_sdk C) tx) (node_output_index n)) \<noteq> p
               then Inl (OtherError ''sync root content-address mismatch'')
               else (case get_tx_output tx (node_output_index n) of
                       None \<Rightarrow> Inl (OtherError ''sync root output missing'')
                     | Some x \<Rightarrow> Inr (mg_expiry mg (locking_script x)))))"

definition known_utxo :: "Output \<Rightarrow> gasp_output" where
  "known_utxo x = \<lparr>go_txid = out_txid x, go_index = output_index x, go_score = nat (score_or_zero x)\<rparr>"

definition ov_find_known_utxos :: "'m overlay_cfg \<Rightarrow> nat \<Rightarrow> nat option \<Rightarrow> ('m overlay, gasp_output list) act" where
  "ov_find_known_utxos C since limit =
     got (\<lambda>o'. map known_utxo (find_utxos_for_topic (ov_store o') (oc_topic C) (Some (int since)) limit False))"

text \<open>A node served from the storage: the topic's own output first, any topic's otherwise.\<close>

definition ov_hydrate_gasp_node :: "'m overlay_cfg \<Rightarrow> txid \<Rightarrow> nat \<Rightarrow> ('m overlay, string \<times> string option) act" where
  "ov_hydrate_gasp_node C t i o' =
     (case Option.bind (find_output (ov_store o') t i (Some (oc_topic C)) None True)
             (\<lambda>x. Option.bind (beef x) (\<lambda>b. case oc_stored_tx C b of Inr n \<Rightarrow> Some n | Inl _ \<Rightarrow> None)) of
        Some n \<Rightarrow> (o', Ok n)
      | None \<Rightarrow>
          (case find_output (ov_store o') t i None None True of
             None \<Rightarrow> (o', Err (NodeNotFound (''Output '' @ to_graph_id (Outpoint t i) @ '' not found'')))
           | Some x \<Rightarrow>
               (case beef x of
                  None \<Rightarrow> (o', Err (NodeNotFound (''No BEEF data for '' @ to_graph_id (Outpoint t i))))
                | Some b \<Rightarrow>
                    (case oc_stored_tx C b of
                       Inl e \<Rightarrow> (o', Err (OtherError (''BEEF parse error: '' @ e)))
                     | Inr n \<Rightarrow> (o', Ok n)))))"

subsection \<open>What a node needs\<close>

definition LANDED_READS_PER_NODE :: nat where "LANDED_READS_PER_NODE = 16"

definition input_landed :: "'m overlay_cfg \<Rightarrow> memory_storage \<Rightarrow> txid \<Rightarrow> bool" where
  "input_landed C st t \<longleftrightarrow>
     does_applied_transaction_exist st t (oc_topic C)
       \<or> list_ex (\<lambda>x. out_topic x = oc_topic C) (find_outputs_for_transaction st t False)"

text \<open>The transactions of the named inputs found landed, within the reads of one node.\<close>

fun landed_scan :: "'m overlay_cfg \<Rightarrow> memory_storage \<Rightarrow> string list \<Rightarrow> txid list \<Rightarrow> txid list \<Rightarrow> nat \<Rightarrow> txid list" where
  "landed_scan C st [] landed unlanded reads = landed"
| "landed_scan C st (q # qs) landed unlanded reads =
     (case parse_outpoint q of
        None \<Rightarrow> landed_scan C st qs landed unlanded reads
      | Some (t, _) \<Rightarrow>
          if t \<in> set landed \<or> t \<in> set unlanded then landed_scan C st qs landed unlanded reads
          else if reads + 2 > LANDED_READS_PER_NODE then landed
          else
            let reads' = (if does_applied_transaction_exist st t (oc_topic C) then reads + 1 else reads + 2)
            in if input_landed C st t then landed_scan C st qs (t # landed) unlanded reads'
               else landed_scan C st qs landed (t # unlanded) reads')"

definition is_held :: "'m overlay_cfg \<Rightarrow> memory_storage \<Rightarrow> string \<Rightarrow> bool" where
  "is_held C st q \<longleftrightarrow>
     (case parse_outpoint q of
        None \<Rightarrow> False
      | Some (t, i) \<Rightarrow> find_output st t i (Some (oc_topic C)) None False \<noteq> None)"

definition known_landed :: "txid list \<Rightarrow> string \<Rightarrow> bool" where
  "known_landed landed q \<longleftrightarrow> (case parse_outpoint q of None \<Rightarrow> False | Some (t, _) \<Rightarrow> t \<in> set landed)"

definition names_input :: "transaction \<Rightarrow> bool" where
  "names_input tx \<longleftrightarrow> (\<exists>x \<in> set (inputs tx). source_txid x \<noteq> [])"

definition request_of :: "string list \<Rightarrow> (string \<times> bool) list" where
  "request_of qs = fold (\<lambda>q. tbl_insert q False) qs []"

text \<open>The inputs a node names, and whether its own output is admitted: \<open>None\<close> where the walk stops.\<close>

definition named_inputs :: "'m overlay_cfg \<Rightarrow> gasp_node \<Rightarrow> gasp_error + (bool \<times> string list) option" where
  "named_inputs C n =
     (case proof_hex n of
        None \<Rightarrow>
          (case tx_of_hex (oc_sdk C) (raw_tx n) of
             Inl e \<Rightarrow> Inr None
           | Inr tx \<Rightarrow> Inr (Some (False, map source_key (filter (\<lambda>x. source_txid x \<noteq> []) (inputs tx)))))
      | Some hex \<Rightarrow>
          (case oc_manager C of
             None \<Rightarrow> Inr None
           | Some mg \<Rightarrow>
               (case tx_of_hex (oc_sdk C) (raw_tx n) of
                  Inl e \<Rightarrow> Inl (OtherError (''Failed to parse raw_tx: '' @ e))
                | Inr tx \<Rightarrow>
                    (case sk_proof (oc_sdk C) hex of
                       Inl e \<Rightarrow> Inl (OtherError (''Failed to parse proof: '' @ e))
                     | Inr _ \<Rightarrow>
                         (case mg_admit mg tx [] (tx_metadata n) of
                            Inl e \<Rightarrow> Inl (OtherError e)
                          | Inr ad \<Rightarrow>
                              let admitted = node_output_index n \<in> set (outputs_to_admit ad)
                              in if admitted \<and> \<not> names_input tx then Inr None
                                 else (case mg_needed mg tx hex of
                                         Inl e \<Rightarrow> Inr None
                                       | Inr ps \<Rightarrow> Inr (Some (admitted, map to_graph_id ps))))))))"

definition ov_find_needed_inputs :: "'m overlay_cfg \<Rightarrow> gasp_node \<Rightarrow> ('m overlay, (string \<times> bool) list option) act" where
  "ov_find_needed_inputs C n o' =
     (case named_inputs C n of
        Inl e \<Rightarrow> (o', Err e)
      | Inr None \<Rightarrow> (o', Ok None)
      | Inr (Some (admitted, named)) \<Rightarrow>
          let missing = filter (\<lambda>(q, _). \<not> is_held C (ov_store o') q) (request_of named);
              landed = (if admitted then landed_scan C (ov_store o') (sort (map fst missing)) [] [] 0 else []);
              asked = (if admitted then filter (\<lambda>(q, _). \<not> known_landed landed q) missing else missing)
          in (o', Ok (if asked = [] then None else Some asked)))"

subsection \<open>The records\<close>

definition stamped :: "'m overlay_cfg \<Rightarrow> deferred_graph \<Rightarrow> deferred_graph" where
  "stamped C r = r\<lparr>dg_peer := oc_peer C, dg_topic := oc_topic C, dg_configured := oc_configured C\<rparr>"

definition ov_read_fault_memos :: "'m overlay_cfg \<Rightarrow> nat \<Rightarrow> string list option \<Rightarrow> ('m overlay, fault_memo list) act" where
  "ov_read_fault_memos C now keys o' =
     (case read_fault_memos (oc_peer C) (oc_topic C) keys now (ov_store o') of
        (st, b) \<Rightarrow>
          (o'\<lparr>ov_store := st, ov_memos := fold (\<lambda>r. tbl_insert (fm_outpoint r) (into_record r)) (fb_records b) []\<rparr>,
           Ok (fb_records b)))"

definition ov_load_deferred_graphs :: "'m overlay_cfg \<Rightarrow> ('m overlay, deferred_graph_key list) act" where
  "ov_load_deferred_graphs C o' =
     (case find_deferred_graphs (ov_store o') (oc_peer C) (oc_topic C) of
        Inl e \<Rightarrow> (o', Err (StorageError (storage_text e)))
      | Inr ks \<Rightarrow> (o', Ok ks))"

definition ov_get_deferred_graph :: "'m overlay_cfg \<Rightarrow> string \<Rightarrow> ('m overlay, deferred_graph option) act" where
  "ov_get_deferred_graph C q o' =
     (case tbl_get (ov_memos o') q of
        Some r \<Rightarrow> (o', Ok (Some r))
      | None \<Rightarrow>
          (case get_deferred_graph (oc_peer C) (oc_topic C) q (ov_store o') of
             (st, r) \<Rightarrow> (o'\<lparr>ov_store := st\<rparr>, Ok r)))"

definition ov_save_deferred_graph :: "'m overlay_cfg \<Rightarrow> nat \<Rightarrow> deferred_graph \<Rightarrow> ('m overlay, deferred_graph_save) act" where
  "ov_save_deferred_graph C now r0 o' =
     (let r = stamped C r0
      in case put_deferred_graph (oc_byte_size C) now r (ov_store o') of
           (st, Inl e) \<Rightarrow> (o'\<lparr>ov_store := st\<rparr>, Err (StorageError (storage_text e)))
         | (st, Inr AtCeiling) \<Rightarrow> (o'\<lparr>ov_store := st\<rparr>, Ok AtCeiling)
         | (st, Inr Saved) \<Rightarrow>
             (o'\<lparr>ov_store := st,
                ov_memos := (if is_struck r then tbl_insert (dg_outpoint r) r (ov_memos o')
                             else tbl_remove (dg_outpoint r) (ov_memos o'))\<rparr>, Ok Saved))"

definition ov_reserve_unanchorable_retry :: "'m overlay_cfg \<Rightarrow> nat \<Rightarrow> deferred_graph \<Rightarrow> ('m overlay, bool) act" where
  "ov_reserve_unanchorable_retry C now r0 o' =
     (let r = stamped C r0
      in case reserve_unanchorable_retry now r (ov_store o') of
           (st, Inl e) \<Rightarrow> (o'\<lparr>ov_store := st\<rparr>, Err (StorageError (storage_text e)))
         | (st, Inr b) \<Rightarrow> (o'\<lparr>ov_store := st, ov_memos := tbl_remove (dg_outpoint r) (ov_memos o')\<rparr>, Ok b))"

definition ov_delete_deferred_graph :: "'m overlay_cfg \<Rightarrow> string \<Rightarrow> ('m overlay, unit) act" where
  "ov_delete_deferred_graph C q o' =
     (o'\<lparr>ov_memos := tbl_remove q (ov_memos o'),
        ov_store := delete_deferred_graph (oc_peer C) (oc_topic C) q (ov_store o')\<rparr>, Ok ())"

definition ov_remember_expired :: "'m overlay_cfg \<Rightarrow> string \<Rightarrow> nat \<Rightarrow> ('m overlay, unit) act" where
  "ov_remember_expired C q expiry o' =
     (o'\<lparr>ov_store := remember_expired_outpoint (oc_topic C) q expiry (ov_store o')\<rparr>, Ok ())"

definition ov_remembered_expired :: "'m overlay_cfg \<Rightarrow> string list \<Rightarrow> ('m overlay, string list) act" where
  "ov_remembered_expired C qs = got (\<lambda>o'. find_expired_outpoints (ov_store o') (oc_topic C) qs)"

subsection \<open>Submitting what was finalized\<close>

text \<open>
  The submit of one BEEF in the mode of a finalized graph is an argument (\<open>submit_bounded\<close>): it answers the report of
  what was written, an error, or never comes back (the gate of the deadline in front of it).
\<close>

definition graph_landed :: "topic \<Rightarrow> mutation_report \<Rightarrow> bool" where
  "graph_landed tp rep \<longleftrightarrow> is_durable rep \<and> (tp \<in> set (applied_topics rep) \<or> tp \<in> set (deduped_topics rep))"

primrec submit_beefs :: "(bytes \<Rightarrow> ('w, mutation_report) act) \<Rightarrow> topic \<Rightarrow> bytes list \<Rightarrow> ('w, bool) act" where
  "submit_beefs submit tp [] = ok True"
| "submit_beefs submit tp (b # bs) =
     seq (caught (submit b)) (\<lambda>r.
       if (case r of Inl _ \<Rightarrow> False | Inr rep \<Rightarrow> graph_landed tp rep) then submit_beefs submit tp bs else ok False)"

primrec submit_finalized_graphs ::
  "(topic \<Rightarrow> bytes \<Rightarrow> ('w, mutation_report) act) \<Rightarrow> finalized_graph list \<Rightarrow> ('w, bool) act" where
  "submit_finalized_graphs submit [] = ok True"
| "submit_finalized_graphs submit (g # gs) =
     seq (submit_beefs (submit (fg_topic g)) (fg_topic g) (fg_beefs g)) (\<lambda>a.
     seq (submit_finalized_graphs submit gs) (\<lambda>b. ok (a \<and> b)))"

definition graph_completed ::
  "(topic \<Rightarrow> bytes \<Rightarrow> (('m, 'r) oworld, mutation_report) act) \<Rightarrow> (('m, 'r) oworld, unit) act" where
  "graph_completed submit w =
     (let finalized = ov_sink (ow_overlay w); w1 = w\<lparr>ow_overlay := (ow_overlay w)\<lparr>ov_sink := []\<rparr>\<rparr>
      in seq (submit_finalized_graphs submit finalized) (\<lambda>landed.
           if landed then ok () else err (StorageError ''a finalize submit did not land'')) w1)"

subsection \<open>The environment of a sync\<close>

definition overlay_env ::
  "'m overlay_cfg \<Rightarrow> 'r gasp_env \<Rightarrow> (topic \<Rightarrow> bytes \<Rightarrow> (('m, 'r) oworld, mutation_report) act) option
     \<Rightarrow> ('m, 'r) oworld gasp_env" where
  "overlay_env C B submit =
     (let now = (\<lambda>w. tm_now_secs B (ow_rest w))
      in \<lparr>st_sync_expiry = (\<lambda>n p _. ov_sync_expiry C n p),
          st_find_known_utxos = on_overlay (ov_find_known_utxos C 0 None),
          st_find_needed_inputs = (\<lambda>n. on_overlay (ov_find_needed_inputs C n)),
          st_append_to_graph = (\<lambda>n p. on_overlay (append_to_graph C n p)),
          st_validate_graph_anchor = (\<lambda>q. on_overlay (validate_graph_anchor C q)),
          st_finalize_graph = (\<lambda>q. on_overlay (finalize_graph C q)),
          st_discard_graph = (\<lambda>q. on_overlay (discard_graph q)),
          st_load_deferred_graphs = on_overlay (ov_load_deferred_graphs C),
          st_get_deferred_graph = (\<lambda>q. on_overlay (ov_get_deferred_graph C q)),
          st_save_deferred_graph = (\<lambda>r w. on_overlay (ov_save_deferred_graph C (now w) r) w),
          st_delete_deferred_graph = (\<lambda>q. on_overlay (ov_delete_deferred_graph C q)),
          st_read_fault_memos = (\<lambda>ks w. on_overlay (ov_read_fault_memos C (now w) ks) w),
          st_reserve_unanchorable_retry = (\<lambda>r w. on_overlay (ov_reserve_unanchorable_retry C (now w) r) w),
          st_remember_expired = (\<lambda>q x. on_overlay (ov_remember_expired C q x)),
          st_remembered_expired = (\<lambda>qs. on_overlay (ov_remembered_expired C qs)),
          st_open_page = (\<lambda>w. w), st_close_page = ok (),
          st_hydrate_gasp_node = (\<lambda>t i. on_overlay (ov_hydrate_gasp_node C t i)),
          st_prefetch_page = (\<lambda>_. ok ()),
          rm_get_initial_response = (\<lambda>since. on_rest (rm_get_initial_response B since)),
          rm_request_node = (\<lambda>i t n b. on_rest (rm_request_node B i t n b)),
          rm_submit_node = (\<lambda>n. on_rest (rm_submit_node B n)),
          fe_fetch_ancestor = map_option (\<lambda>f t. on_rest (f t)) (fe_fetch_ancestor B),
          fe_verified_proof_for = (\<lambda>t. on_rest (fe_verified_proof_for B t)),
          hk_graph_completed = map_option graph_completed submit,
          tm_now_secs = now,
          tm_deadline_due = on_rest (tm_deadline_due B),
          tm_half_due = map_option on_rest (tm_half_due B),
          tm_share_due = map_option on_rest (tm_share_due B),
          tm_request_stop = map_option (\<lambda>f w. f (ow_rest w)) (tm_request_stop B),
          tm_root_exhausted = (\<lambda>w. tm_root_exhausted B (ow_rest w)),
          pb_pending = (\<lambda>_. False), pb_flush = ok (),
          gb_pass = gb_pass B,
          cf_unidirectional = cf_unidirectional B,
          tx_id_of_hex = (\<lambda>h. case tx_of_hex (oc_sdk C) h of Inl _ \<Rightarrow> None | Inr tx \<Rightarrow> Some (sk_id (oc_sdk C) tx))\<rparr>)"

end
