(* ===== verification/Graph_Properties.thy ===== *)
theory Graph_Properties
  imports Graph_Anchor
begin

text \<open>
  What the anchor check gives: a graph it passes is linked node by node through the outpoints its transactions spend,
  no outpoint is spent twice in it, the topic manager admitted its root, and what is finalized is what was checked,
  whether the parsed graph was kept for it or not.
\<close>

subsection \<open>Links\<close>

definition child_linked :: "'m sdk \<Rightarrow> refs \<Rightarrow> string \<Rightarrow> bool" where
  "child_linked S refs k \<longleftrightarrow> (\<exists>t. own_tx S refs k = Some t \<and> set (children_in refs k) \<subseteq> set (spent_keys (at_tx t)))"

definition link_inv :: "'m sdk \<Rightarrow> refs \<Rightarrow> 'm link_run \<Rightarrow> bool" where
  "link_inv S refs r \<longleftrightarrow>
     asm_good S refs (lr_asm r) \<and>
     (\<forall>k \<in> set (lr_visited r) \<inter> held_keys refs.
        child_linked S refs k \<and> set (children_in refs k) \<subseteq> set (lr_visited r) \<union> fst ` set (lr_stack r))"

lemma parse_tx_good:
  assumes "inj (sk_sha256 S)" "asm_good S refs A" "parse_tx S refs key A = (B, q)"
  shows "asm_good S refs B"
proof -
  have "closed B b = closed A b" for b
    using parse_tx_keys [OF assms(3)] by (simp add: closed_def checked_keys_def covered_def)
  then show ?thesis using parse_tx_ok(1) [OF assms(1) _ assms(3)] assms(2) by (simp add: asm_good_def)
qed

lemma link_node_inv:
  assumes inj: "inj (sk_sha256 S)" and inv: "link_inv S refs r" and st: "lr_stack r = (key, b) # rest" and p: "tbl_get refs key = Some p"
    and run: "link_node S gid refs key b p (r\<lparr>lr_stack := rest, lr_visited := key # lr_visited r\<rparr>) = (r2, None)"
  shows "link_inv S refs r2" "set (lr_visited r2) = insert key (set (lr_visited r))"
    "fst ` set (lr_stack r2) = set (pn_children p) \<union> fst ` set rest"
proof -
  obtain A t where t: "parse_tx S refs key (lr_asm r) = (A, Inr t)" and ch: "set (pn_children p) \<subseteq> set (spent_keys (at_tx t))"
    and r2: "lr_asm r2 = A" "lr_visited r2 = key # lr_visited r"
      "lr_stack r2 = rev (map (\<lambda>c. (c, b \<and> proof_hex (pn_node p) = None)) (pn_children p)) @ rest"
    using run by (auto simp: link_node_def Let_def find_None_iff subset_iff split: prod.splits sum.splits option.splits)
  have good: "asm_good S refs A" using parse_tx_good [OF inj _ t] inv by (simp add: link_inv_def)
  have own: "own_tx S refs key = Some t" using parse_tx_ok(2) [OF inj _ t refl] inv by (simp add: link_inv_def asm_good_def)
  show vis: "set (lr_visited r2) = insert key (set (lr_visited r))" using r2 by simp
  show stk: "fst ` set (lr_stack r2) = set (pn_children p) \<union> fst ` set rest" using r2 by (auto simp: image_Un image_image)
  have "child_linked S refs k \<and> set (children_in refs k) \<subseteq> set (lr_visited r2) \<union> fst ` set (lr_stack r2)"
    if k: "k \<in> set (lr_visited r2)" "k \<in> held_keys refs" for k
  proof (cases "k \<in> set (lr_visited r)")
    case True
    then show ?thesis using inv k(2) st unfolding link_inv_def vis stk by fastforce
  next
    case False
    then have "k = key" using k(1) vis by simp
    then show ?thesis using own ch p stk by (auto simp: child_linked_def children_in_def)
  qed
  then show "link_inv S refs r2" using good r2(1) by (auto simp: link_inv_def)
qed

lemma link_walk_inv:
  assumes "inj (sk_sha256 S)"
  shows "link_inv S refs r \<Longrightarrow> link_walk S gid refs r = (r', None)
    \<Longrightarrow> link_inv S refs r' \<and> lr_stack r' = [] \<and> set (lr_visited r) \<union> fst ` set (lr_stack r) \<subseteq> set (lr_visited r')"
  using assms
proof (induction S gid refs r rule: link_walk.induct)
  case (1 S gid refs r)
  show ?case
  proof (cases "lr_stack r")
    case Nil
    then show ?thesis using 1(4,5) by (simp add: link_walk.simps [of S gid refs r])
  next
    case (Cons f rest)
    obtain key b where f: "f = (key, b)" by (cases f)
    let ?r1 = "r\<lparr>lr_stack := rest, lr_visited := key # lr_visited r\<rparr>"
    consider "key \<in> set (lr_visited r)" | "key \<notin> set (lr_visited r)" "tbl_get refs key = None"
      | p where "key \<notin> set (lr_visited r)" "tbl_get refs key = Some p" by blast
    then show ?thesis
    proof cases
      case a: 1
      have "link_inv S refs (r\<lparr>lr_stack := rest\<rparr>)" using 1(4) Cons f a by (auto simp: link_inv_def)
      from 1(1) [OF Cons f [symmetric] a this] show ?thesis using 1(5,6) Cons f a
        by (auto simp: link_walk.simps [of S gid refs r])
    next
      case a: 2
      have "link_inv S refs ?r1" using 1(4) Cons f a by (auto simp: link_inv_def held_keys_def)
      from 1(2) [OF Cons f [symmetric] a(1) refl a(2) this] show ?thesis using 1(5,6) Cons f a
        by (simp add: link_walk.simps [of S gid refs r])
    next
      case a: (3 p)
      from 1(5) Cons f a obtain r2 where n: "link_node S gid refs key b p ?r1 = (r2, None)"
        and run: "link_walk S gid refs r2 = (r', None)"
        by (auto simp: link_walk.simps [of S gid refs r] Let_def split: prod.splits option.splits)
      note N = link_node_inv [OF 1(6,4) Cons [unfolded f] a(2) n]
      from 1(3) [OF Cons f [symmetric] a(1) refl a(2) n [symmetric] refl N(1) run 1(6)]
      show ?thesis using N(2,3) Cons f by auto
    qed
  qed
qed

lemma link_walk_links:
  assumes inj: "inj (sk_sha256 S)" and run: "link_walk S gid refs \<lparr>lr_asm = default_assembly, lr_absent = [], lr_visited = [],
      lr_stack = [(gid, True)]\<rparr> = (r, None)"
  shows "asm_good S refs (lr_asm r)" "k \<in> set (ordered_keys gid refs) \<Longrightarrow> child_linked S refs k"
proof -
  have "link_inv S refs \<lparr>lr_asm = default_assembly, lr_absent = [], lr_visited = [], lr_stack = [(gid, True)]\<rparr>"
    by (simp add: link_inv_def)
  from link_walk_inv [OF inj this run] have inv: "link_inv S refs r" and st: "lr_stack r = []" and g: "gid \<in> set (lr_visited r)" by auto
  then show "asm_good S refs (lr_asm r)" by (simp add: link_inv_def)
  have closed: "c \<in> set (lr_visited r)" if "j \<in> set (lr_visited r)" "(j, c) \<in> links refs" for j c
    using inv st that links_held [OF that(2)] by (fastforce simp: link_inv_def links_def)
  have "j \<in> set (lr_visited r)" if "(gid, j) \<in> (links refs)\<^sup>*" for j
    using that by induction (use g closed in auto)
  then show "child_linked S refs k" if "k \<in> set (ordered_keys gid refs)"
    using that inv by (auto simp: set_ordered_keys link_inv_def)
qed

text \<open>What a read of the anchor input that succeeds says of the graph.\<close>

lemma read_anchor_ok:
  assumes inj: "inj (sk_sha256 S)" and run: "read_anchor_input S gid refs strict = Inr a"
  shows "tbl_get refs gid \<noteq> None" "ai_order a = ordered_keys gid refs" "asm_good S refs (ai_assembly a)"
    "set (ai_order a) \<subseteq> checked_keys (ai_assembly a) strict" "k \<in> set (ordered_keys gid refs) \<Longrightarrow> child_linked S refs k"
proof -
  let ?r0 = "\<lparr>lr_asm = default_assembly, lr_absent = [], lr_visited = [], lr_stack = [(gid, True)]\<rparr>"
  from run show "tbl_get refs gid \<noteq> None" by (auto simp: read_anchor_input_def split: if_splits)
  with run obtain r A where l: "link_walk S gid refs ?r0 = (r, None)" and c: "check S refs False gid (lr_asm r) = (A, None)"
    and o': "check_keys S refs strict (ordered_keys gid refs) A = (ai_assembly a, None)" and e: "ai_order a = ordered_keys gid refs"
    by (auto simp: read_anchor_input_def Let_def split: prod.splits option.splits)
  note L = link_walk_links [OF inj l]
  have A: "asm_good S refs A" using check_good(1) [OF inj L(1) c] .
  from check_keys_good [OF inj A o'] e
  show "asm_good S refs (ai_assembly a)" "set (ai_order a) \<subseteq> checked_keys (ai_assembly a) strict" by auto
  show "ai_order a = ordered_keys gid refs" by (rule e)
  show "k \<in> set (ordered_keys gid refs) \<Longrightarrow> child_linked S refs k" by (rule L(2))
qed

subsection \<open>The replay\<close>

lemma replay_inputs_ok:
  "replay_inputs f i xs gone prev = Inr (gone', prev')
    \<Longrightarrow> set gone' = set gone \<union> {source_key x | x. x \<in> set xs \<and> source_txid x \<noteq> []}
      \<and> (\<forall>x \<in> set xs. source_txid x \<noteq> [] \<longrightarrow> source_key x \<notin> set gone)"
  by (induction f i xs gone prev rule: replay_inputs.induct) (auto split: if_splits)

definition spends :: "transaction \<Rightarrow> string set" where
  "spends tx = {source_key x | x. x \<in> set (inputs tx) \<and> source_txid x \<noteq> []}"

text \<open>After a prefix of the graph: what its transactions spend is disjoint, and the coins are outputs the manager admitted.\<close>

definition replay_ok :: "'m overlay_cfg \<Rightarrow> manager \<Rightarrow> bytes list \<Rightarrow> replay \<Rightarrow> bool" where
  "replay_ok C mg bs rp \<longleftrightarrow>
     (\<exists>txs. (\<forall>b \<in> set bs. \<exists>tx. oc_open C b = Inr tx \<and> sk_id (oc_sdk C) tx \<in> sk_id (oc_sdk C) ` set txs)
        \<and> set txs \<subseteq> {tx. \<exists>b \<in> set bs. oc_open C b = Inr tx}
        \<and> rp_replayed rp = map (sk_id (oc_sdk C)) txs \<and> distinct (rp_replayed rp)
        \<and> set (rp_spent rp) = (\<Union>tx \<in> set txs. spends tx)
        \<and> (\<forall>x \<in> set txs. \<forall>y \<in> set txs. x \<noteq> y \<longrightarrow> spends x \<inter> spends y = {})
        \<and> (\<forall>q \<in> set (rp_coins rp). \<exists>tx \<in> set txs. \<exists>prev ad j. mg_admit mg tx prev None = Inr ad
             \<and> j \<in> set (outputs_to_admit ad) \<and> q = to_graph_id (Outpoint (sk_id (oc_sdk C) tx) j)))"

lemma replay_ok_Nil: "replay_ok C mg [] \<lparr>rp_coins = [], rp_spent = [], rp_replayed = []\<rparr>"
  by (simp add: replay_ok_def)

lemma replay_node_ok:
  assumes ok: "replay_ok C mg bs rp" and run: "replay_node C gid mg st b rp = Inr rp'"
  shows "replay_ok C mg (bs @ [b]) rp'"
proof -
  let ?id = "sk_id (oc_sdk C)"
  from ok obtain txs where T: "\<forall>b \<in> set bs. \<exists>tx. oc_open C b = Inr tx \<and> ?id tx \<in> ?id ` set txs"
    "set txs \<subseteq> {tx. \<exists>b \<in> set bs. oc_open C b = Inr tx}" "rp_replayed rp = map ?id txs" "distinct (rp_replayed rp)"
    "set (rp_spent rp) = (\<Union>tx \<in> set txs. spends tx)" "\<forall>x \<in> set txs. \<forall>y \<in> set txs. x \<noteq> y \<longrightarrow> spends x \<inter> spends y = {}"
    "\<forall>q \<in> set (rp_coins rp). \<exists>tx \<in> set txs. \<exists>prev ad j. mg_admit mg tx prev None = Inr ad
             \<and> j \<in> set (outputs_to_admit ad) \<and> q = to_graph_id (Outpoint (?id tx) j)"
    unfolding replay_ok_def by blast
  from run obtain tx where tx: "oc_open C b = Inr tx" by (auto simp: replay_node_def split: sum.splits)
  show ?thesis
  proof (cases "?id tx \<in> set (rp_replayed rp)")
    case True
    then have "rp' = rp" using run tx by (simp add: replay_node_def Let_def)
    then show ?thesis unfolding replay_ok_def using T tx True by (intro exI [of _ txs]) auto
  next
    case False
    then obtain gone prev ad where i: "replay_inputs (coin_held C st (rp_coins rp)) 0 (inputs tx) (rp_spent rp) [] = Inr (gone, prev)"
      and ad: "mg_admit mg tx prev None = Inr ad"
      and rp': "rp' = \<lparr>rp_coins = map (\<lambda>j. to_graph_id (Outpoint (?id tx) j)) (outputs_to_admit ad) @ rp_coins rp,
                              rp_spent = gone, rp_replayed = ?id tx # rp_replayed rp\<rparr>"
      using run tx by (auto simp: replay_node_def Let_def split: sum.splits)
    note R = replay_inputs_ok [OF i]
    have new: "spends tx \<inter> spends y = {}" if "y \<in> set txs" for y
      using R T(5) that by (auto simp: spends_def)
    have gone: "set gone = (\<Union>x \<in> set (tx # txs). spends x)" using R T(5) by (auto simp: spends_def)
    show ?thesis unfolding replay_ok_def
    proof (intro exI [of _ "tx # txs"] conjI)
      show "\<forall>x \<in> set (tx # txs). \<forall>y \<in> set (tx # txs). x \<noteq> y \<longrightarrow> spends x \<inter> spends y = {}"
        using new T(6) by (auto simp: Int_commute)
      show "set (rp_spent rp') = (\<Union>x \<in> set (tx # txs). spends x)" using gone rp' by simp
      show "\<forall>q \<in> set (rp_coins rp'). \<exists>tx \<in> set (tx # txs). \<exists>prev ad j. mg_admit mg tx prev None = Inr ad
             \<and> j \<in> set (outputs_to_admit ad) \<and> q = to_graph_id (Outpoint (?id tx) j)"
        using T(7) ad rp' by auto
    qed (use T(1-4) tx rp' False in auto)
  qed
qed

lemma replay_graph_ok:
  "replay_ok C mg cs rp \<Longrightarrow> replay_graph C gid mg st bs rp = Inr rp' \<Longrightarrow> replay_ok C mg (cs @ bs) rp'"
proof (induction bs arbitrary: cs rp)
  case (Cons b bs)
  then obtain rp1 where n: "replay_node C gid mg st b rp = Inr rp1" "replay_graph C gid mg st bs rp1 = Inr rp'"
    by (auto split: sum.splits)
  from Cons(1) [OF replay_node_ok [OF Cons(2) n(1)] n(2)] show ?case by simp
qed simp

subsection \<open>The graph kept for its finalize\<close>

definition kept_ok :: "'m overlay_cfg \<Rightarrow> 'm overlay \<Rightarrow> bool" where
  "kept_ok C o' \<longleftrightarrow>
     (\<forall>a. ov_anchored o' = Some a \<longrightarrow>
        asm_good (oc_sdk C) (ov_pending o') (ag_assembly a) \<and> ag_order a = ordered_keys (ag_graph_id a) (ov_pending o')
          \<and> set (ag_order a) \<subseteq> checked_keys (ag_assembly a) (ag_strict a))"

lemma validate_cases:
  assumes "validate_graph_anchor C gid o' = (o1, r)"
  obtains e where "r = Err e" "o1 = o'"
  | a where "r = Ok ()" "read_anchor_input (oc_sdk C) gid (ov_pending o') (oc_strict_beef C) = Inr a" "o1 = keep_anchored C gid a o'"
      "\<And>mg. oc_manager C = Some mg \<Longrightarrow> \<exists>rp. replay_graph C gid mg (ov_store o') (graph_beefs (oc_sdk C) (ai_order a) (ai_assembly a))
          \<lparr>rp_coins = [], rp_spent = [], rp_replayed = []\<rparr> = Inr rp \<and> gid \<in> set (rp_coins rp)"
  using assms unfolding validate_graph_anchor_def
  by (auto split: sum.splits spv_verdict.splits option.splits if_splits)

lemma kept_ok_validate:
  assumes "inj (sk_sha256 (oc_sdk C))" "kept_ok C o'" "validate_graph_anchor C gid o' = (o1, r)"
  shows "kept_ok C o1"
  using assms(3)
proof (cases rule: validate_cases)
  case (2 a)
  from read_anchor_ok [OF assms(1) 2(2)] 2(3) show ?thesis by (simp add: kept_ok_def keep_anchored_def)
qed (use assms in simp)

text \<open>A kept graph gives the BEEFs that a fresh assembly of the pending graph gives.\<close>

lemma graph_beefs_same:
  assumes "asm_good S refs A" "asm_good S refs B" "set order \<subseteq> checked_keys A b" "set order \<subseteq> checked_keys B b"
  shows "graph_beefs S order A = graph_beefs S order B"
  unfolding graph_beefs_def using assms by (intro map_cong refl beef_of_same) auto

text \<open>What a checked key needs is what the pending graph gives: the check of a graph checked before passes again.\<close>

definition assembles :: "'m sdk \<Rightarrow> refs \<Rightarrow> bool \<Rightarrow> string set \<Rightarrow> bool" where
  "assembles S refs strict X \<longleftrightarrow>
     (\<forall>k \<in> X. \<exists>n. own_node S refs k = Some n \<and> (strict \<longrightarrow> None \<notin> set (an_sources n)) \<and> (\<forall>s. Some s \<in> set (an_sources n) \<longrightarrow> s \<in> X))"

definition frames_own :: "'m sdk \<Rightarrow> refs \<Rightarrow> bool \<Rightarrow> string set \<Rightarrow> 'm check_run \<Rightarrow> bool" where
  "frames_own S refs strict X r \<longleftrightarrow>
     asm_ok S refs (cr_asm r) \<and> (\<forall>(k, n, i) \<in> set (cr_stack r). k \<in> X \<and> own_node S refs k = Some n)"

lemma check_loop_passes:
  assumes "inj (sk_sha256 S)" "assembles S refs strict X"
  shows "set_option e \<subseteq> X \<Longrightarrow> frames_own S refs strict X r0 \<Longrightarrow> snd (check_loop S refs strict e r0) = None"
  using assms
proof (induction S refs strict e r0 rule: check_loop.induct)
  case (1 S refs strict e r0)
  have ok0: "asm_ok S refs (cr_asm r0)" using 1(4) by (simp add: frames_own_def)
  obtain r x where en: "enter_node S refs strict e r0 = (r, x)" by fastforce
  have x: "x = None \<and> frames_own S refs strict X r"
  proof (cases "\<exists>k. e = Some k \<and> (k, strict) \<notin> set (ga_checked (cr_asm r0)) \<and> k \<notin> set (cr_inside r0)")
    case True
    then obtain k where k: "e = Some k" "(k, strict) \<notin> set (ga_checked (cr_asm r0))" "k \<notin> set (cr_inside r0)" by blast
    obtain A q where n: "asm_node S refs k (cr_asm r0) = (A, q)" by fastforce
    have "k \<in> X" using 1(3) k(1) by simp
    then obtain m where "own_node S refs k = Some m" using 1(6) by (auto simp: assembles_def)
    then obtain n' where q: "q = Inr n'" "own_node S refs k = Some n'" using asm_node_ok(2,3) [OF 1(5) ok0 n] by (cases q) auto
    then show ?thesis using en n k \<open>k \<in> X\<close> 1(4) asm_node_ok(1) [OF 1(5) ok0 n]
      by (auto simp: enter_node_def Let_def frames_own_def)
  next
    case False
    then show ?thesis using en 1(4) by (auto simp: enter_node_def split: option.splits if_splits)
  qed
  show ?case
  proof (cases "cr_stack r")
    case Nil
    then show ?thesis using en x by (simp add: check_loop.simps [of S refs strict e r0])
  next
    case (Cons f rest)
    obtain k n i where f: "f = (k, n, i)" by (cases f)
    have k: "k \<in> X" "own_node S refs k = Some n" "asm_ok S refs (cr_asm r)" using x Cons f by (auto simp: frames_own_def)
    then have src: "strict \<longrightarrow> None \<notin> set (an_sources n)" "\<forall>s. Some s \<in> set (an_sources n) \<longrightarrow> s \<in> X"
      using 1(6) by (auto simp: assembles_def)
    show ?thesis
    proof (cases "i < length (an_sources n)")
      case True
      have s: "set_option (an_sources n ! i) \<subseteq> X" using src(2) nth_mem [OF True] by (cases "an_sources n ! i") auto
      have "frames_own S refs strict X (r\<lparr>cr_stack := (k, n, i + 1) # rest\<rparr>)" using x Cons f by (auto simp: frames_own_def)
      from 1(1) [OF en [unfolded conjunct1 [OF x], symmetric] refl Cons f [symmetric] refl True s this 1(5,6)]
      show ?thesis using en x Cons f True by (simp add: check_loop.simps [of S refs strict e r0])
    next
      case False
      let ?r = "r\<lparr>cr_stack := rest, cr_inside := del k (cr_inside r),
                   cr_asm := (cr_asm r)\<lparr>ga_checked := ins (k, strict) (ga_checked (cr_asm r))\<rparr>\<rparr>"
      have m: "(if strict then last_missing (an_sources n) else None) = None" using src(1) last_missing_None [of "an_sources n"] by simp
      have "frames_own S refs strict X ?r" using x Cons f by (auto simp: frames_own_def)
      from 1(2) [OF en [unfolded conjunct1 [OF x], symmetric] refl Cons f [symmetric] refl False m _ this 1(5,6)]
      show ?thesis using en x Cons f False m by (simp add: check_loop.simps [of S refs strict e r0])
    qed
  qed
qed

lemma check_keys_passes:
  assumes inj: "inj (sk_sha256 S)" and X: "assembles S refs strict X"
  shows "set ks \<subseteq> X \<Longrightarrow> asm_good S refs A \<Longrightarrow> snd (check_keys S refs strict ks A) = None"
proof (induction ks arbitrary: A)
  case (Cons k ks)
  have "snd (check S refs strict k A) = None"
    unfolding check_def by (rule check_loop_passes [OF inj X]) (use Cons(2,3) in \<open>auto simp: frames_own_def asm_good_def\<close>)
  then obtain B where c: "check S refs strict k A = (B, None)" by (cases "check S refs strict k A") auto
  from Cons(1) [OF _ check_good(1) [OF inj Cons(3) c]] Cons(2) c show ?case by simp
qed simp

lemma kept_assembles: "asm_good S refs A \<Longrightarrow> assembles S refs b (checked_keys A b)"
  unfolding assembles_def using checked_assembles by blast

lemma compute_kept:
  assumes inj: "inj (sk_sha256 S)" and A: "asm_good S refs (ag_assembly a)" and o': "ag_order a = ordered_keys (ag_graph_id a) refs"
    and c: "set (ag_order a) \<subseteq> checked_keys (ag_assembly a) (ag_strict a)"
  shows "compute_ordered_beefs S gid refs strict (Some a) = compute_ordered_beefs S gid refs strict None"
proof (cases "ag_graph_id a = gid \<and> ag_strict a = strict")
  case True
  have "snd (check_keys S refs strict (ordered_keys gid refs) default_assembly) = None"
    by (rule check_keys_passes [OF inj kept_assembles [OF A, of strict]]) (use o' c True in auto)
  then obtain B where B: "check_keys S refs strict (ordered_keys gid refs) default_assembly = (B, None)"
    by (cases "check_keys S refs strict (ordered_keys gid refs) default_assembly") auto
  from check_keys_good [OF inj asm_good_default B] graph_beefs_same [OF A, of B] o' c True
  show ?thesis by (simp add: compute_ordered_beefs_def B)
qed (auto simp: compute_ordered_beefs_def)

subsection \<open>The operations on the temporary graphs\<close>

inductive graph_step :: "'m overlay_cfg \<Rightarrow> 'm overlay \<Rightarrow> 'm overlay \<Rightarrow> bool" for C :: "'m overlay_cfg" where
  step_append: "append_to_graph C n p o1 = (o2, r) \<Longrightarrow> graph_step C o1 o2"
| step_validate: "validate_graph_anchor C gid o1 = (o2, r) \<Longrightarrow> graph_step C o1 o2"
| step_finalize: "finalize_graph C gid o1 = (o2, r) \<Longrightarrow> graph_step C o1 o2"
| step_discard: "discard_graph gid o1 = (o2, r) \<Longrightarrow> graph_step C o1 o2"
| step_other: "ov_pending o2 = ov_pending o1 \<Longrightarrow> ov_anchored o2 = ov_anchored o1 \<Longrightarrow> graph_step C o1 o2"

inductive graph_reach :: "'m overlay_cfg \<Rightarrow> 'm overlay \<Rightarrow> bool" for C :: "'m overlay_cfg" where
  reach_new: "ov_anchored o' = None \<Longrightarrow> graph_reach C o'"
| reach_step: "graph_reach C o1 \<Longrightarrow> graph_step C o1 o2 \<Longrightarrow> graph_reach C o2"

lemma kept_ok_None: "ov_anchored o' = None \<Longrightarrow> kept_ok C o'"
  by (simp add: kept_ok_def)

lemma kept_ok_finalize: "kept_ok C o1 \<Longrightarrow> finalize_graph C gid o1 = (o2, r) \<Longrightarrow> kept_ok C o2"
  by (auto simp: finalize_graph_def intro: kept_ok_None split: if_splits sum.splits)

lemma kept_ok_step:
  assumes "inj (sk_sha256 (oc_sdk C))" "kept_ok C o1" "graph_step C o1 o2"
  shows "kept_ok C o2"
  using assms(3)
proof (cases rule: graph_step.cases)
  case step_validate
  then show ?thesis using kept_ok_validate [OF assms(1,2)] by blast
next
  case step_finalize
  then show ?thesis using kept_ok_finalize [OF assms(2)] by blast
next
  case step_other
  then show ?thesis using assms(2) unfolding kept_ok_def by (simp only: simp_thms)
qed (auto simp: append_to_graph_def discard_graph_def Let_def intro!: kept_ok_None)

lemma reach_kept_ok:
  assumes "inj (sk_sha256 (oc_sdk C))"
  shows "graph_reach C o' \<Longrightarrow> kept_ok C o'"
  by (induction rule: graph_reach.induct) (use assms kept_ok_step in \<open>auto intro: kept_ok_None\<close>)

subsection \<open>A graph of two nodes\<close>

text \<open>A root that spends its only ancestor, for concrete runs.\<close>

definition pair_tx :: transaction where
  "pair_tx = \<lparr>inputs = [\<lparr>source_txid = ''p'', source_output_index = 0, unlocking_script = None, sequence = 0\<rparr>],
     outputs = [\<lparr>locking_script = [], tx_satoshis = 1\<rparr>]\<rparr>"

definition pair_source :: transaction where
  "pair_source = \<lparr>inputs = [], outputs = [\<lparr>locking_script = [], tx_satoshis = 1\<rparr>]\<rparr>"

definition pair_sdk :: "unit sdk" where
  "pair_sdk = \<lparr>sk_from_hex = (\<lambda>h. if h = ''72'' then Inr [0] else Inr []), sk_sha256 = (\<lambda>b. b),
     sk_from_binary = (\<lambda>b. Inr (if b = [] then pair_source else pair_tx)), sk_id = (\<lambda>tx. if inputs tx = [] then ''p'' else ''r''),
     sk_proof = (\<lambda>_. Inl ''none''), sk_height = (\<lambda>_. 0), sk_root = (\<lambda>_ _. None), sk_combine = (\<lambda>a _. (a, True)),
     sk_beef = (\<lambda>_ txs. replicate (length txs) 1)\<rparr>"

definition pair_cfg :: "unit overlay_cfg" where
  "pair_cfg = \<lparr>oc_sdk = pair_sdk, oc_topic = ''tm'', oc_peer = ''h'', oc_configured = True, oc_strict_beef = False,
     oc_manager = Some \<lparr>mg_admit = (\<lambda>_ _ _. Inr \<lparr>outputs_to_admit = [0], coins_to_retain = [], coins_removed = None\<rparr>),
       mg_needed = (\<lambda>_ _. Inr []), mg_expiry = (\<lambda>_. None)\<rparr>,
     oc_merge = (\<lambda>b _. Inr b), oc_verify = (\<lambda>_ t. if t = ''r'' then Spv_Passed else Spv_Refused ''no''),
     oc_open = (\<lambda>b. Inr (if length b = 1 then pair_source else pair_tx)), oc_stored_tx = (\<lambda>_. Inl ''none''), oc_byte_size = (\<lambda>_. 0)\<rparr>"

definition pair_overlay :: "unit overlay" where
  "pair_overlay = \<lparr>ov_store = ms_new, ov_memos = [], ov_pending = [], ov_anchored = None, ov_sink = []\<rparr>"

definition pair_appended :: "unit overlay" where
  "pair_appended = fst (append_to_graph pair_cfg (bare_node ''70'') (Some ''r.0'')
     (fst (append_to_graph pair_cfg (bare_node ''72'') None pair_overlay)))"

definition pair_passed :: "unit overlay" where
  "pair_passed = fst (validate_graph_anchor pair_cfg ''r.0'' pair_appended)"

lemma pair_validates: "snd (validate_graph_anchor pair_cfg ''r.0'' pair_appended) = Ok ()"
  by code_simp

lemma pair_inj: "inj (sk_sha256 (oc_sdk pair_cfg))"
  by (simp add: pair_cfg_def pair_sdk_def)

lemma pair_reach: "graph_reach pair_cfg pair_passed"
proof -
  have "graph_reach pair_cfg pair_overlay" by (rule reach_new) (simp add: pair_overlay_def)
  moreover have "graph_step pair_cfg pair_overlay (fst (append_to_graph pair_cfg (bare_node ''72'') None pair_overlay))"
    by (rule step_append [OF surjective_pairing])
  moreover have "graph_step pair_cfg (fst (append_to_graph pair_cfg (bare_node ''72'') None pair_overlay)) pair_appended"
    unfolding pair_appended_def by (rule step_append [OF surjective_pairing])
  moreover have "graph_step pair_cfg pair_appended pair_passed"
    unfolding pair_passed_def by (rule step_validate [OF surjective_pairing])
  ultimately show ?thesis by (blast intro: reach_step)
qed

text \<open>
  C21: Keeping the graph the anchor check parsed changes nothing of what is finalized: after any sequence of appends,
  checks, finalizes and discards, a finalize answers and leaves what it would with no graph kept. (The hash that keys
  the parsed transactions is assumed to separate them.)
\<close>

theorem kept_graph_transparent:
  assumes "inj (sk_sha256 (oc_sdk C))" "graph_reach C o'"
  shows "finalize_graph C gid (o'\<lparr>ov_anchored := None\<rparr>) =
    (case finalize_graph C gid o' of (o1, r) \<Rightarrow> (o1\<lparr>ov_anchored := None\<rparr>, r))"
proof -
  have "compute_ordered_beefs (oc_sdk C) gid (ov_pending o') (oc_strict_beef C) (ov_anchored o') =
      compute_ordered_beefs (oc_sdk C) gid (ov_pending o') (oc_strict_beef C) None"
    using reach_kept_ok [OF assms] compute_kept [OF assms(1)] by (cases "ov_anchored o'") (auto simp: kept_ok_def)
  then show ?thesis by (simp add: finalize_graph_def split: sum.split)
qed

theorem kept_graph_transparent_witness:
  "ov_anchored pair_passed \<noteq> None \<and> snd (finalize_graph pair_cfg ''r.0'' pair_passed) = Ok () \<and>
   snd (finalize_graph pair_cfg ''r.0'' (pair_passed\<lparr>ov_anchored := None\<rparr>)) = Ok () \<and>
   ov_sink (fst (finalize_graph pair_cfg ''r.0'' (pair_passed\<lparr>ov_anchored := None\<rparr>))) = [\<lparr>fg_topic = ''tm'', fg_beefs = [[1], [1, 1]]\<rparr>]"
proof -
  have k: "ov_anchored pair_passed \<noteq> None" by code_simp
  have f: "snd (finalize_graph pair_cfg ''r.0'' pair_passed) = Ok ()"
    "ov_sink (fst (finalize_graph pair_cfg ''r.0'' pair_passed)) = [\<lparr>fg_topic = ''tm'', fg_beefs = [[1], [1, 1]]\<rparr>]" by code_simp+
  from kept_graph_transparent [OF pair_inj pair_reach, of "''r.0''"] k f show ?thesis
    by (cases "finalize_graph pair_cfg ''r.0'' pair_passed") simp
qed

text \<open>
  C20: A graph the anchor check passes is anchored: its root is pending, every transaction of it parses and each node
  hangs off its parent by an outpoint the parent's transaction spends; under a topic manager no two transactions of
  the graph spend one outpoint, and the manager admitted the root's output in the replay. The check changes nothing
  but the graph it keeps.
\<close>

theorem passed_graph_is_anchored:
  assumes "inj (sk_sha256 (oc_sdk C))" "validate_graph_anchor C gid o' = (o1, Ok ())"
  shows "tbl_get (ov_pending o') gid \<noteq> None \<and> (\<exists>a. o1 = o'\<lparr>ov_anchored := Some a\<rparr>
    \<and> ag_order a = ordered_keys gid (ov_pending o')
    \<and> (\<forall>k \<in> set (ag_order a). \<exists>t. own_tx (oc_sdk C) (ov_pending o') k = Some t
         \<and> set (children_in (ov_pending o') k) \<subseteq> set (spent_keys (at_tx t)))
    \<and> (\<forall>mg. oc_manager C = Some mg \<longrightarrow> (\<exists>txs. distinct (map (sk_id (oc_sdk C)) txs)
         \<and> (\<forall>k \<in> set (ag_order a). \<exists>tx. oc_open C (beef_of (oc_sdk C) (ag_assembly a) k) = Inr tx
              \<and> sk_id (oc_sdk C) tx \<in> sk_id (oc_sdk C) ` set txs)
         \<and> (\<forall>x \<in> set txs. \<forall>y \<in> set txs. x \<noteq> y \<longrightarrow> spends x \<inter> spends y = {})
         \<and> (\<exists>tx \<in> set txs. \<exists>prev ad j. mg_admit mg tx prev None = Inr ad \<and> j \<in> set (outputs_to_admit ad)
              \<and> gid = to_graph_id (Outpoint (sk_id (oc_sdk C) tx) j)))))"
  using assms(2)
proof (cases rule: validate_cases)
  case (2 a)
  note R = read_anchor_ok [OF assms(1) 2(2)]
  have m: "\<exists>txs. distinct (map (sk_id (oc_sdk C)) txs)
         \<and> (\<forall>k \<in> set (ai_order a). \<exists>tx. oc_open C (beef_of (oc_sdk C) (ai_assembly a) k) = Inr tx
              \<and> sk_id (oc_sdk C) tx \<in> sk_id (oc_sdk C) ` set txs)
         \<and> (\<forall>x \<in> set txs. \<forall>y \<in> set txs. x \<noteq> y \<longrightarrow> spends x \<inter> spends y = {})
         \<and> (\<exists>tx \<in> set txs. \<exists>prev ad j. mg_admit mg tx prev None = Inr ad \<and> j \<in> set (outputs_to_admit ad)
              \<and> gid = to_graph_id (Outpoint (sk_id (oc_sdk C) tx) j))" if mg: "oc_manager C = Some mg" for mg
  proof -
    obtain rp where rp: "replay_graph C gid mg (ov_store o') (graph_beefs (oc_sdk C) (ai_order a) (ai_assembly a))
          \<lparr>rp_coins = [], rp_spent = [], rp_replayed = []\<rparr> = Inr rp" "gid \<in> set (rp_coins rp)" using 2(4) [OF mg] by blast
    have "replay_ok C mg (graph_beefs (oc_sdk C) (ai_order a) (ai_assembly a)) rp"
      using replay_graph_ok [OF replay_ok_Nil rp(1)] by simp
    then obtain txs where t: "\<forall>b \<in> set (graph_beefs (oc_sdk C) (ai_order a) (ai_assembly a)).
          \<exists>tx. oc_open C b = Inr tx \<and> sk_id (oc_sdk C) tx \<in> sk_id (oc_sdk C) ` set txs"
        "rp_replayed rp = map (sk_id (oc_sdk C)) txs" "distinct (rp_replayed rp)"
        "\<forall>x \<in> set txs. \<forall>y \<in> set txs. x \<noteq> y \<longrightarrow> spends x \<inter> spends y = {}"
        "\<forall>q \<in> set (rp_coins rp). \<exists>tx \<in> set txs. \<exists>prev ad j. mg_admit mg tx prev None = Inr ad
           \<and> j \<in> set (outputs_to_admit ad) \<and> q = to_graph_id (Outpoint (sk_id (oc_sdk C) tx) j)"
      unfolding replay_ok_def by blast
    have "distinct (map (sk_id (oc_sdk C)) txs)" using t(2,3) by simp
    moreover have "\<forall>k \<in> set (ai_order a). \<exists>tx. oc_open C (beef_of (oc_sdk C) (ai_assembly a) k) = Inr tx
              \<and> sk_id (oc_sdk C) tx \<in> sk_id (oc_sdk C) ` set txs"
      using t(1) unfolding graph_beefs_def set_map by blast
    ultimately show ?thesis using t(4) bspec [OF t(5) rp(2)] by blast
  qed
  have l: "\<forall>k \<in> set (ai_order a). \<exists>t. own_tx (oc_sdk C) (ov_pending o') k = Some t
         \<and> set (children_in (ov_pending o') k) \<subseteq> set (spent_keys (at_tx t))"
    using R(2,5) by (auto simp: child_linked_def)
  let ?a = "\<lparr>ag_graph_id = gid, ag_strict = oc_strict_beef C, ag_order = ai_order a, ag_assembly = ai_assembly a\<rparr>"
  have "o1 = o'\<lparr>ov_anchored := Some ?a\<rparr>" using 2(3) by (simp add: keep_anchored_def)
  with R(1,2) l m show ?thesis by (intro conjI exI [of _ ?a] allI impI) simp_all
qed simp

theorem passed_graph_is_anchored_witness:
  "snd (validate_graph_anchor pair_cfg ''r.0'' pair_appended) = Ok () \<and>
   (\<exists>a. pair_passed = pair_appended\<lparr>ov_anchored := Some a\<rparr> \<and> ag_order a = ordered_keys ''r.0'' (ov_pending pair_appended))"
proof -
  have "validate_graph_anchor pair_cfg ''r.0'' pair_appended = (pair_passed, Ok ())"
    unfolding pair_passed_def using pair_validates by (metis surjective_pairing)
  from passed_graph_is_anchored [OF pair_inj this] pair_validates show ?thesis by blast
qed

end
