(* ===== verification/Overlay_Inputs.thy ===== *)
theory Overlay_Inputs
  imports Gasp_Overlay Graph_Properties
begin

text \<open>
  The inputs a node of a sync asks for: of those it names, the ones the topic does not hold; of an admitted node, not
  those whose transaction landed, as far as the reads of one node tell.
\<close>

text \<open>The transactions the outpoints name.\<close>

definition named_txids :: "string list \<Rightarrow> txid set" where
  "named_txids qs = {t. \<exists>q \<in> set qs. \<exists>i. parse_outpoint q = Some (t, i)}"

lemma finite_named_txids: "finite (named_txids qs)"
proof -
  have "named_txids qs \<subseteq> (\<lambda>q. case parse_outpoint q of None \<Rightarrow> [] | Some (t, i) \<Rightarrow> t) ` set qs"
    by (force simp: named_txids_def split: option.splits)
  then show ?thesis by (rule finite_subset) simp
qed

lemma named_txids_Cons:
  "named_txids (q # qs) = (case parse_outpoint q of None \<Rightarrow> named_txids qs | Some (t, i) \<Rightarrow> insert t (named_txids qs))"
  by (auto simp: named_txids_def split: option.split)

lemma landed_scan_sound: "t \<in> set (landed_scan C st qs landed unlanded reads) \<Longrightarrow> t \<in> set landed \<or> input_landed C st t"
proof (induction C st qs landed unlanded reads rule: landed_scan.induct)
  case (2 C st q qs landed unlanded reads)
  show ?case
  proof (cases "parse_outpoint q")
    case (Some x)
    obtain u i where x: "x = (u, i)" by (cases x)
    note IH = 2(2-4) [OF Some x [symmetric]]
    show ?thesis using IH 2(5) by (cases "u \<in> set landed \<or> u \<in> set unlanded"; cases "reads + 2 > LANDED_READS_PER_NODE";
        cases "input_landed C st u") (fastforce simp: Some x Let_def)+
  qed (use 2 in simp)
qed simp

lemma landed_scan_mono: "set landed \<subseteq> set (landed_scan C st qs landed unlanded reads)"
proof (induction C st qs landed unlanded reads rule: landed_scan.induct)
  case (2 C st q qs landed unlanded reads)
  show ?case
  proof (cases "parse_outpoint q")
    case (Some x)
    obtain u i where x: "x = (u, i)" by (cases x)
    note IH = 2(2) [OF Some x [symmetric]] 2(3,4) [OF Some x [symmetric] _ _ refl]
    show ?thesis using IH by (cases "u \<in> set landed \<or> u \<in> set unlanded"; cases "reads + 2 > LANDED_READS_PER_NODE";
        cases "input_landed C st u") (simp_all add: Some x Let_def)
  qed (use 2 in simp)
qed simp

text \<open>While the reads last, every landed transaction is found.\<close>

lemma landed_scan_finds:
  "reads + 2 * card (named_txids qs - set landed - set unlanded) \<le> LANDED_READS_PER_NODE \<Longrightarrow> \<forall>u \<in> set unlanded. \<not> input_landed C st u
    \<Longrightarrow> t \<in> named_txids qs \<Longrightarrow> input_landed C st t \<Longrightarrow> t \<in> set (landed_scan C st qs landed unlanded reads)"
proof (induction C st qs landed unlanded reads rule: landed_scan.induct)
  case (1 C st landed unlanded reads)
  then show ?case by (simp add: named_txids_def)
next
  case (2 C st q qs landed unlanded reads)
  show ?case
  proof (cases "parse_outpoint q")
    case None
    with 2 show ?thesis by (simp add: named_txids_Cons)
  next
    case (Some x)
    obtain u i where x: "x = (u, i)" by (cases x)
    let ?left = "named_txids (q # qs) - set landed - set unlanded"
    have ins: "named_txids (q # qs) = insert u (named_txids qs)" by (simp add: named_txids_Cons Some x)
    show ?thesis
    proof (cases "u \<in> set landed \<or> u \<in> set unlanded")
      case True
      then have "?left = named_txids qs - set landed - set unlanded" using ins by auto
      moreover have "t \<in> named_txids qs \<or> t \<in> set landed" using 2(6,7,8) True ins by auto
      moreover have "landed_scan C st (q # qs) landed unlanded reads = landed_scan C st qs landed unlanded reads"
        using True Some x by simp
      ultimately show ?thesis using 2(2) [OF Some x [symmetric] True] 2(5-8) landed_scan_mono [of landed C st qs unlanded reads]
        by (auto simp del: landed_scan.simps)
    next
      case False
      have fin: "finite ?left" by (simp add: finite_named_txids)
      have u: "u \<in> ?left" using False ins by simp
      then have "card ?left > 0" using fin by (auto simp: card_gt_0_iff)
      then have reads: "\<not> reads + 2 > LANDED_READS_PER_NODE" using 2(5) by simp
      have less: "card (?left - {u}) = card ?left - 1" using u fin by simp
      have rest: "named_txids qs - set l - set v \<subseteq> ?left - {u}" if "set l \<union> set v = insert u (set landed \<union> set unlanded)" for l v
        using that ins by auto
      have le: "card (named_txids qs - set l - set v) \<le> card ?left - 1" if "set l \<union> set v = insert u (set landed \<union> set unlanded)" for l v
        using card_mono [OF finite_Diff [OF fin] rest [OF that]] less by simp
      define r where "r = (if does_applied_transaction_exist st u (oc_topic C) then reads + 1 else reads + 2)"
      have r: "r + 2 * (card ?left - 1) \<le> LANDED_READS_PER_NODE" 
      proof -
        have "r \<le> reads + 2" by (simp add: r_def)
        moreover have "2 * card ?left = 2 + 2 * (card ?left - 1)" using \<open>card ?left > 0\<close> by arith
        ultimately show ?thesis using 2(5) by linarith
      qed
      show ?thesis
      proof (cases "input_landed C st u")
        case L: True
        have "r + 2 * card (named_txids qs - set (u # landed) - set unlanded) \<le> LANDED_READS_PER_NODE"
          using le [of "u # landed" unlanded] r by simp
        from 2(3) [OF Some x [symmetric] False reads refl L, folded r_def, OF this 2(6)] 2(7,8)
        have "t \<in> set (landed_scan C st qs (u # landed) unlanded r)"
          using ins landed_scan_mono [of "u # landed" C st qs unlanded r] by auto
        then show ?thesis using Some x False reads L by (simp add: Let_def r_def)
      next
        case L: False
        have "r + 2 * card (named_txids qs - set landed - set (u # unlanded)) \<le> LANDED_READS_PER_NODE"
          using le [of landed "u # unlanded"] r by simp
        from 2(4) [OF Some x [symmetric] False reads refl L, folded r_def, OF this] 2(6-8) L ins
        have "t \<in> set (landed_scan C st qs landed (u # unlanded) r)" by auto
        then show ?thesis using Some x False reads L by (simp add: Let_def r_def)
      qed
    qed
  qed
qed

lemma request_keys: "set (map fst (request_of qs)) = set qs" "distinct (map fst (request_of qs))"
proof -
  have "fst ` set (fold (\<lambda>q. tbl_insert q False) qs m) = set qs \<union> fst ` set m \<and>
      (tbl_wf m \<longrightarrow> tbl_wf (fold (\<lambda>q. tbl_insert q False) qs m))" for m
    by (induction qs arbitrary: m) (auto simp: tbl_insert_def dom_update tbl_wf_def distinct_update)
  from this [of "[]"] show "set (map fst (request_of qs)) = set qs" "distinct (map fst (request_of qs))"
    by (simp_all add: request_of_def tbl_wf_def)
qed

lemma fst_filter: "fst ` set (filter (\<lambda>(q, _). P q) xs) = {q \<in> fst ` set xs. P q}"
  by (induction xs) auto

text \<open>
  C24: What a node asks its peer for. Nothing of the storage changes. The inputs asked for are among the inputs the node
  names, each once, and none is held in the topic; an input not asked for is held, or the node is admitted and the
  input's transaction has landed in the topic. Of an unadmitted node every input not held is asked for; of an admitted
  node that names inputs of at most eight transactions none is asked for whose transaction landed.
\<close>

theorem needed_inputs_asked:
  assumes "named_inputs C n = Inr (Some (admitted, named))"
  shows "\<exists>asked. ov_find_needed_inputs C n o' = (o', Ok (if asked = [] then None else Some asked)) \<and> distinct (map fst asked) \<and>
    (\<forall>q \<in> fst ` set asked. q \<in> set named \<and> \<not> is_held C (ov_store o') q) \<and>
    (\<forall>q \<in> set named - fst ` set asked. is_held C (ov_store o') q \<or>
       admitted \<and> (\<exists>t i. parse_outpoint q = Some (t, i) \<and> input_landed C (ov_store o') t)) \<and>
    (admitted \<and> card (named_txids named) \<le> 8 \<longrightarrow>
       (\<forall>q \<in> fst ` set asked. \<forall>t i. parse_outpoint q = Some (t, i) \<longrightarrow> \<not> input_landed C (ov_store o') t))"
proof -
  let ?st = "ov_store o'"
  define missing where "missing = filter (\<lambda>(q, _). \<not> is_held C ?st q) (request_of named)"
  define landed where "landed = (if admitted then landed_scan C ?st (sort (map fst missing)) [] [] 0 else [])"
  define asked where "asked = (if admitted then filter (\<lambda>(q, _). \<not> known_landed landed q) missing else missing)"
  have run: "ov_find_needed_inputs C n o' = (o', Ok (if asked = [] then None else Some asked))"
    by (simp add: ov_find_needed_inputs_def assms Let_def missing_def landed_def asked_def)
  have miss: "fst ` set missing = {q \<in> set named. \<not> is_held C ?st q}"
    using request_keys(1) [of named] unfolding missing_def fst_filter by simp
  have dist: "distinct (map fst missing)" unfolding missing_def using request_keys(2) by (rule distinct_map_filter)
  have keys: "fst ` set asked = {q \<in> set named. \<not> is_held C ?st q \<and> (admitted \<longrightarrow> \<not> known_landed landed q)}"
  proof -
    have "fst ` set asked = {q \<in> fst ` set missing. admitted \<longrightarrow> \<not> known_landed landed q}" by (auto simp: asked_def fst_filter)
    then show ?thesis using miss by auto
  qed
  have known: "\<exists>t i. parse_outpoint q = Some (t, i) \<and> input_landed C ?st t" if "admitted" "known_landed landed q" for q
    using that landed_scan_sound by (fastforce simp: known_landed_def landed_def split: option.splits)
  have found: "known_landed landed q"
    if "admitted" "card (named_txids named) \<le> 8" "q \<in> fst ` set missing" "parse_outpoint q = Some (t, i)" "input_landed C ?st t" for q t i
  proof -
    have "named_txids (sort (map fst missing)) \<subseteq> named_txids named" using miss by (auto simp: named_txids_def)
    then have "card (named_txids (sort (map fst missing))) \<le> 8"
      using card_mono [OF finite_named_txids, of "named_txids (sort (map fst missing))" named] that(2) by linarith
    moreover have "t \<in> named_txids (sort (map fst missing))" using that(3,4) by (auto simp: named_txids_def)
    ultimately have "t \<in> set landed" unfolding landed_def using that(1,5)
      by (simp add: landed_scan_finds LANDED_READS_PER_NODE_def)
    then show ?thesis using that(4) by (simp add: known_landed_def)
  qed
  show ?thesis
  proof (intro exI [of _ asked] conjI)
    show "distinct (map fst asked)" using dist by (simp add: asked_def distinct_map_filter)
    show "\<forall>q \<in> fst ` set asked. q \<in> set named \<and> \<not> is_held C ?st q" by (simp add: keys)
    show "\<forall>q \<in> set named - fst ` set asked. is_held C ?st q \<or> admitted \<and> (\<exists>t i. parse_outpoint q = Some (t, i) \<and> input_landed C ?st t)"
      using known by (auto simp: keys)
    show "admitted \<and> card (named_txids named) \<le> 8 \<longrightarrow>
       (\<forall>q \<in> fst ` set asked. \<forall>t i. parse_outpoint q = Some (t, i) \<longrightarrow> \<not> input_landed C ?st t)"
      using found miss by (auto simp: keys)
  qed (rule run)
qed

theorem needed_inputs_asked_witness:
  "\<exists>asked. ov_find_needed_inputs pair_cfg (bare_node ''72'') pair_overlay = (pair_overlay, Ok (if asked = [] then None else Some asked))
     \<and> (\<forall>q \<in> fst ` set asked. q = ''p.0'')"
proof -
  have "named_inputs pair_cfg (bare_node ''72'') = Inr (Some (False, [''p.0'']))" by code_simp
  from needed_inputs_asked [OF this, of pair_overlay] show ?thesis by auto
qed

end
