(* ===== verification/Gasp_Ingest.thy ===== *)
theory Gasp_Ingest
  imports Gasp_Walk
begin

text \<open>
  One root of a sync (\<open>gasp.rs\<close>, \<open>ingest_utxo\<close> and what it calls): a fresh walk under the budget of a pass, a
  resumed record, a root whose earlier walks faulted; how a pass ends (completed, refused, deferred as a
  durable record, struck, dropped) and what becomes of the record of the root.
\<close>

datatype ingested = Ing_Retry | Ing_Expired | Ing_Completed | Ing_Deferred | Ing_HeldBack | Ing_Unanchorable | Ing_Waiting

datatype drop_reason =
  Max_Passes | Too_Many | Store_Fault | Not_Served | Drop_Held | Not_Held | Root_Proven | Refused | No_Progress | Idle_Faults

definition sat_add32 :: "nat \<Rightarrow> nat \<Rightarrow> nat" where
  "sat_add32 a b = min (a + b) (2 ^ 32 - 1)"

definition fresh_record :: "nat \<Rightarrow> string \<Rightarrow> deferred_graph" where
  "fresh_record sc p =
     \<lparr>dg_peer = [], dg_topic = [], dg_outpoint = p, dg_score = sc, dg_nodes = [],
      dg_pending = [\<lparr>pi_outpoint = p, pi_graph_id = p, pi_metadata = True, pi_spent_by = None, parent_proven = False\<rparr>],
      dg_calls = 0, dg_passes = 0, dg_reason = [], dg_configured = False, idle_faults = 0,
      dg_cursor_passable = False, dg_faults = 0, retry_at = 0, idle_resumes = 0, unanchorable_retries = 0,
      dg_expiry = None\<rparr>"

definition fresh_walk :: "nat \<Rightarrow> string \<Rightarrow> pass_cap \<Rightarrow> walk" where
  "fresh_walk sc p cap =
     \<lparr>wk_record = fresh_record sc p, wk_seen = [], calls_this_pass = 0, bytes_this_pass = 0, nodes_this_pass = 0,
      wk_resumed = False, wk_cap = cap, nodes_at_start = 0, gone_on = False, wk_half = False, wk_struck = None\<rparr>"

definition graph_id_of :: "walk option \<Rightarrow> string \<Rightarrow> string" where
  "graph_id_of x p =
     (case x of
        None \<Rightarrow> p
      | Some w \<Rightarrow> (case dg_nodes (wk_record w) of [] \<Rightarrow> p | n # _ \<Rightarrow> graph_id (node n)))"

definition complete_graph :: "'w gasp_env \<Rightarrow> string \<Rightarrow> ('w gasp, bool) act" where
  "complete_graph E gid =
     seq (caught (io (st_validate_graph_anchor E gid))) (\<lambda>r.
       case r of
         Inr _ \<Rightarrow> seq (io (st_finalize_graph E gid)) (\<lambda>_. ok True)
       | Inl e \<Rightarrow>
           seq (io (st_discard_graph E gid)) (\<lambda>_.
             case e of AnchorUnavailable _ \<Rightarrow> err e | AnchorWalkHeld _ \<Rightarrow> err e | _ \<Rightarrow> ok False))"

subsection \<open>Records\<close>

definition know_fault_record :: "string \<Rightarrow> ('w gasp, unit) act" where
  "know_fault_record p = upd (\<lambda>g.
     if p \<in> set (g_fault_records g) then g
     else g\<lparr>g_fault_records := p # g_fault_records g, g_held_records := g_held_records g - 1\<rparr>)"

definition read_record :: "deferred_graph option \<Rightarrow> ('w gasp, unit) act" where
  "read_record r =
     (case r of None \<Rightarrow> ok () | Some x \<Rightarrow> if is_struck x then know_fault_record (dg_outpoint x) else ok ())"

definition forget_record :: "string \<Rightarrow> ('w gasp, unit) act" where
  "forget_record p = upd (\<lambda>g.
     if p \<in> set (g_fault_records g) then g\<lparr>g_fault_records := del p (g_fault_records g)\<rparr>
     else g\<lparr>g_held_records := g_held_records g - 1\<rparr>)"

definition take_walk :: "('w gasp, walk option) act" where
  "take_walk g = (g\<lparr>g_walk := None\<rparr>, Ok (g_walk g))"

lemma seq_take_walk [simp]: "seq take_walk k g = k (g_walk g) (g\<lparr>g_walk := None\<rparr>)"
  by (simp add: seq_def take_walk_def)

definition put_walk :: "walk \<Rightarrow> ('w gasp, unit) act" where
  "put_walk w = upd (\<lambda>g. g\<lparr>g_walk := Some w\<rparr>)"

definition retry_record :: "deferred_graph \<Rightarrow> string \<Rightarrow> deferred_graph" where
  "retry_record r p = (fresh_record (dg_score r) p)\<lparr>dg_reason := ''retry'', dg_cursor_passable := True\<rparr>"

definition delete_record :: "'w gasp_env \<Rightarrow> string \<Rightarrow> ('w gasp, unit) act" where
  "delete_record E p = seq (ignored (io (st_delete_deferred_graph E p))) (\<lambda>_. forget_record p)"

definition drop_record :: "'w gasp_env \<Rightarrow> string \<Rightarrow> drop_reason \<Rightarrow> ('w gasp, unit) act" where
  "drop_record E p reason =
     (if reason = Drop_Held \<or> reason = Refused then delete_record E p
      else
        seq (caught (io (st_get_deferred_graph E p))) (\<lambda>r.
          case r of
            Inl _ \<Rightarrow> ok ()
          | Inr (Some x) \<Rightarrow>
              if dg_cursor_passable x then ignored (io (st_save_deferred_graph E (retry_record x p)))
              else delete_record E p
          | Inr None \<Rightarrow> delete_record E p))"

definition refuse_expired :: "'w gasp_env \<Rightarrow> string \<Rightarrow> ('w gasp, ingested) act" where
  "refuse_expired E p =
     seq take_walk (\<lambda>x.
     seq (\<lambda>g. (g\<lparr>g_refused_expiry := None, g_expired := ins p (g_expired g)\<rparr>,
               Ok (if p \<in> set (g_expired g) then None else g_refused_expiry g))) (\<lambda>expiry.
     seq (case expiry of None \<Rightarrow> ok () | Some ex \<Rightarrow> ignored (io (st_remember_expired E p ex))) (\<lambda>_.
     seq (ignored (io (st_discard_graph E (graph_id_of x p)))) (\<lambda>_.
     seq (\<lambda>g. if (case x of None \<Rightarrow> False | Some w \<Rightarrow> wk_resumed w \<or> wk_struck w \<noteq> None) then (g, Ok True)
              else (g\<lparr>g_deferred := del p (g_deferred g)\<rparr>, Ok (p \<in> set (g_deferred g)))) (\<lambda>held.
     seq (if held then drop_record E p Refused else ok ()) (\<lambda>_. ok Ing_Expired))))))"

definition sweep_expired_record :: "'w gasp_env \<Rightarrow> deferred_graph option \<Rightarrow> ('w gasp, bool) act" where
  "sweep_expired_record E rec =
     (case rec of
        None \<Rightarrow> ok False
      | Some r \<Rightarrow>
          if \<not> (is_unanchorable r \<or> is_dead r) then ok False
          else
            let p = dg_outpoint r
            in seq (read_record (Some r)) (\<lambda>_.
               seq (got (\<lambda>g. (case dg_expiry r of None \<Rightarrow> True | Some ex \<Rightarrow> now_secs E g < ex) \<and> p \<notin> set (g_expired g))) (\<lambda>live.
                 if live then ok False
                 else
                   seq (got (now_secs E)) (\<lambda>now.
                   seq (io (st_remember_expired E p (case dg_expiry r of Some ex \<Rightarrow> ex | None \<Rightarrow> now))) (\<lambda>_.
                   seq (io (st_delete_deferred_graph E p)) (\<lambda>_.
                   seq (forget_record p) (\<lambda>_.
                   seq (upd (\<lambda>g. g\<lparr>g_deferred := del p (g_deferred g), g_expired := ins p (g_expired g)\<rparr>)) (\<lambda>_.
                     ok True))))))))"

subsection \<open>Strikes\<close>

definition dead_reason :: "deferred_graph \<Rightarrow> string" where
  "dead_reason r = DEAD_REASON @ (case fault_class r of Some c \<Rightarrow> c | None \<Rightarrow> OTHER)"

definition keep_unanchorable :: "'w gasp_env \<Rightarrow> deferred_graph \<Rightarrow> ('w gasp, unit) act" where
  "keep_unanchorable E r =
     seq (got (now_secs E)) (\<lambda>now.
       let kept = (if UNANCHORABLE_RETRIES \<le> unanchorable_retries r
                   then r\<lparr>dg_reason := dead_reason r, retry_at := 0\<rparr>
                   else r\<lparr>retry_at := now + UNANCHORABLE_RETRY_SECS\<rparr>)
       in seq (io (st_save_deferred_graph E kept)) (\<lambda>saved.
            if saved \<noteq> Saved then err (StorageError ''could not retain retry allowance'')
            else know_fault_record (dg_outpoint kept)))"

record strike =
  sk_held :: "(nat \<times> bool) option"
  sk_refused :: "string option"

definition no_strike :: strike where
  "no_strike = \<lparr>sk_held = None, sk_refused = None\<rparr>"

definition passable :: "strike \<Rightarrow> bool" where
  "passable s = (case sk_held s of Some (_, un) \<Rightarrow> un | None \<Rightarrow> False)"

definition struck_record ::
  "nat \<Rightarrow> nat option \<Rightarrow> nat \<Rightarrow> string \<Rightarrow> string \<Rightarrow> deferred_graph option \<Rightarrow> deferred_graph" where
  "struck_record now expiry sc p cls prior =
     (let fl = sat_add32 (case prior of None \<Rightarrow> 0 | Some r \<Rightarrow> dg_faults r) 1;
          retries = (case prior of None \<Rightarrow> 0 | Some r \<Rightarrow> unanchorable_retries r);
          un = UNANCHORABLE_AFTER_FAULTED_RUNS \<le> fl;
          over = un \<and> UNANCHORABLE_RETRIES \<le> retries
      in (fresh_record sc p)
           \<lparr>dg_faults := fl, unanchorable_retries := retries,
            dg_expiry := (case expiry of Some x \<Rightarrow> Some x | None \<Rightarrow> Option.bind prior dg_expiry),
            dg_cursor_passable := un \<or> (case prior of None \<Rightarrow> False | Some r \<Rightarrow> dg_cursor_passable r),
            dg_reason := (if over then DEAD_REASON else if un then UNANCHORABLE_REASON else FAULT_RETRY_REASON) @ cls,
            retry_at := (if over then 0 else if un then now + UNANCHORABLE_RETRY_SECS
                         else if cls = NOT_FOUND then now + ABSENCE_GAP_SECS else 0)\<rparr>)"

definition refused_strike :: "string \<Rightarrow> deferred_graph option \<Rightarrow> strike" where
  "refused_strike why prior =
     \<lparr>sk_held = (case prior of Some r \<Rightarrow> if is_unanchorable r then Some (dg_faults r, True) else None | None \<Rightarrow> None),
      sk_refused = Some why\<rparr>"

definition do_strike ::
  "'w gasp_env \<Rightarrow> nat \<Rightarrow> string \<Rightarrow> string \<Rightarrow> deferred_graph option \<Rightarrow> ('w gasp, strike) act" where
  "do_strike E sc p cls prior =
     seq (got (\<lambda>g. struck_record (now_secs E g) (tbl_get (g_root_expiries g) p) sc p cls prior)) (\<lambda>r.
     seq (caught (io (st_save_deferred_graph E r))) (\<lambda>saved.
       case saved of
         Inr Saved \<Rightarrow>
           seq (if prior \<noteq> None then know_fault_record p
                else upd (\<lambda>g. g\<lparr>g_fault_records := ins p (g_fault_records g)\<rparr>)) (\<lambda>_.
             ok \<lparr>sk_held = Some (dg_faults r, UNANCHORABLE_AFTER_FAULTED_RUNS \<le> dg_faults r), sk_refused = None\<rparr>)
       | Inr AtCeiling \<Rightarrow> ok (refused_strike ''no_room'' prior)
       | Inl _ \<Rightarrow> ok (refused_strike ''store_fault'' prior)))"

definition take_fault :: "('w gasp, string option) act" where
  "take_fault g = (g\<lparr>g_last_fault := None\<rparr>, Ok (g_last_fault g))"

definition strike_fresh :: "'w gasp_env \<Rightarrow> nat \<Rightarrow> string \<Rightarrow> bool \<Rightarrow> ('w gasp, bool) act" where
  "strike_fresh E sc p lowest =
     seq take_fault (\<lambda>cls.
     seq (case cls of
            None \<Rightarrow> ok no_strike
          | Some c \<Rightarrow> if (lowest \<or> c = NOT_FOUND) \<and> strikes c then do_strike E sc p c None else ok no_strike) (\<lambda>s.
       ok (passable s)))"

definition strike_resumed :: "'w gasp_env \<Rightarrow> string \<Rightarrow> walk option \<Rightarrow> ('w gasp, strike option) act" where
  "strike_resumed E p x =
     seq (got g_last_fault) (\<lambda>cls.
       case cls of
         None \<Rightarrow> ok None
       | Some c \<Rightarrow>
           if \<not> strikes c \<or> (case x of None \<Rightarrow> True | Some w \<Rightarrow> dg_nodes (wk_record w) = []) then ok None
           else
             seq (caught (io (st_get_deferred_graph E p))) (\<lambda>r.
               case r of
                 Inr (Some prior) \<Rightarrow>
                   if is_struck prior then ok None
                   else
                     seq (upd (\<lambda>g. g\<lparr>g_last_fault := None\<rparr>)) (\<lambda>_.
                     seq (do_strike E (dg_score prior) p c (Some prior)) (\<lambda>s.
                       ok (if sk_held s = None then None else Some s)))
               | _ \<Rightarrow> ok None))"

end
