(* ===== verification/Gasp_Pass.thy ===== *)
theory Gasp_Pass
  imports Gasp_Ingest
begin

text \<open>
  The end of a pass (\<open>gasp.rs\<close>, \<open>save_walk\<close>, \<open>unkept\<close>, \<open>walk_paid\<close>, \<open>finish_pass\<close>) and the pass of one root
  (\<open>rewalk_struck\<close>, \<open>ingest_budgeted\<close>, \<open>ingest_utxo\<close>, \<open>settle_completed\<close>): a walk the budget cut becomes a
  durable record, one that cannot be kept goes on once without its counted limbs, and the outcome of the
  pass says whether the cursor of the sync may pass the root.
\<close>

subsection \<open>Saving a walk\<close>

datatype saved =
    Save_Yes
  | Save_Retry
  | Save_Unkept drop_reason walk
  | Save_Fault gasp_error walk
  | Save_Ceiling walk
  | Save_WentOn

definition grew :: "walk \<Rightarrow> bool" where
  "grew w \<longleftrightarrow> nodes_at_start w < length (dg_nodes (wk_record w))"

definition passes_now :: "deferred_graph \<Rightarrow> nat" where
  "passes_now r =
     (if dg_nodes r = [] \<and> \<not> (dg_cursor_passable r \<or> dg_reason r = ''retry:deadline'') then 0 else dg_passes r) + 1"

text \<open>Only the graph's own deadline earns the stall allowance.\<close>

definition retry_cut :: "string \<Rightarrow> deferred_graph \<Rightarrow> bool" where
  "retry_cut reason r \<longleftrightarrow>
     dg_nodes r = [] \<and> reason = ''time'' \<and> \<not> dg_cursor_passable r \<and> passes_now r < DEADLINE_STALL_DEFERRAL_RUNS"

definition idle_now :: "bool \<Rightarrow> walk \<Rightarrow> bool" where
  "idle_now completed w \<longleftrightarrow>
     wk_resumed w \<and> dg_cursor_passable (wk_record w) \<and> wk_struck w = None \<and> \<not> completed
       \<and> 0 < calls_this_pass w \<and> \<not> grew w"

definition saved_record :: "nat \<Rightarrow> string \<Rightarrow> bool \<Rightarrow> walk \<Rightarrow> deferred_graph" where
  "saved_record now reason completed w =
     (let r = wk_record w;
          r1 = r\<lparr>dg_passes := passes_now r, dg_cursor_passable := \<not> retry_cut reason r,
                 dg_reason := (if retry_cut reason r then ''retry:deadline'' else reason)\<rparr>;
          r2 = (if grew w then r1\<lparr>idle_faults := 0, idle_resumes := 0, retry_at := 0\<rparr> else r1);
          idle = sat_add32 (idle_resumes r2) 1
      in if idle_now completed w
         then r2\<lparr>idle_resumes := idle,
                 retry_at := (if IDLE_RESUMES_BEFORE_BACKOFF \<le> idle then now + IDLE_RESUME_RETRY_SECS else retry_at r2)\<rparr>
         else r2)"

definition save_walk :: "'w gasp_env \<Rightarrow> string \<Rightarrow> bool \<Rightarrow> ('w gasp, saved) act" where
  "save_walk E reason completed =
     seq take_walk (\<lambda>x.
       case x of
         None \<Rightarrow> ok Save_Yes
       | Some w0 \<Rightarrow>
           if gone_on w0 then ok Save_WentOn
           else
             seq (got (\<lambda>g. (now_secs E g, g_held_records g))) (\<lambda>(now, held).
               let w = w0\<lparr>wk_record := saved_record now reason completed w0\<rparr>;
                   r = wk_record w;
                   deadline_cut = reason = ''time'' \<or> reason = ''peer_deadline''
               in if dg_nodes r = [] \<and> \<not> deadline_cut \<and> \<not> dg_cursor_passable (wk_record w0)
                  then ok (Save_Unkept No_Progress w)
                  else if \<not> wk_resumed w \<and> DEFERRED_GRAPHS_PER_PEER_TOPIC \<le> held then ok (Save_Unkept Too_Many w)
                  else
                    seq (caught (io (st_save_deferred_graph E r))) (\<lambda>saved.
                      case saved of
                        Inr Saved \<Rightarrow>
                          seq (upd (\<lambda>g.
                            if wk_resumed w then g\<lparr>g_pass_saved := True\<rparr>
                            else g\<lparr>g_fault_records := del (dg_outpoint r) (g_fault_records g),
                                   g_held_records := g_held_records g + 1\<rparr>)) (\<lambda>_.
                            ok (if retry_cut reason (wk_record w0) then Save_Retry else Save_Yes))
                      | Inr AtCeiling \<Rightarrow> ok (if wk_resumed w then Save_Ceiling w else Save_Unkept Too_Many w)
                      | Inl e \<Rightarrow> ok (Save_Fault e w))))"

definition unkept :: "'w gasp_env \<Rightarrow> drop_reason \<Rightarrow> walk \<Rightarrow> ('w gasp, walk) act" where
  "unkept E why w =
     (if wk_resumed w
      then seq (drop_record E (dg_outpoint (wk_record w)) why) (\<lambda>_. ok (w\<lparr>wk_resumed := False\<rparr>))
      else ok w)"

definition walk_paid :: "'w gasp_env \<Rightarrow> ('w gasp, bool) act" where
  "walk_paid E =
     seq (got g_walk) (\<lambda>x.
       case x of
         None \<Rightarrow> ok False
       | Some w \<Rightarrow>
           if dg_nodes (wk_record w) = [] then ok False
           else if pc_calls (gb_pass E) \<le> calls_this_pass w * 2 then ok True
           else case tm_half_due E of
                  None \<Rightarrow> ok False
                | Some half \<Rightarrow> if wk_half w then io half else ok False)"

subsection \<open>The end of a pass\<close>

definition discard :: "'w gasp_env \<Rightarrow> string \<Rightarrow> ('w gasp, unit) act" where
  "discard E gid = ignored (io (st_discard_graph E gid))"

text \<open>A fault of the graph is a strike on the record's own slot; else the record is dropped.\<close>

definition strike_or_drop ::
  "'w gasp_env \<Rightarrow> string \<Rightarrow> string \<Rightarrow> gasp_error \<Rightarrow> drop_reason \<Rightarrow> bool \<Rightarrow> ('w gasp, ingested) act" where
  "strike_or_drop E p gid e why held =
     seq (discard E gid) (\<lambda>_.
     seq take_walk (\<lambda>x.
       if \<not> held then err e
       else
         seq (strike_resumed E p x) (\<lambda>s.
           case s of
             Some k \<Rightarrow> if passable k then ok Ing_Unanchorable else err e
           | None \<Rightarrow> seq (drop_record E p why) (\<lambda>_. err e))))"

definition count_idle_fault :: "('w gasp, nat) act" where
  "count_idle_fault g =
     (case g_walk g of
        None \<Rightarrow> (g, Ok 0)
      | Some w \<Rightarrow>
          let r = wk_record w;
              r1 = (if wk_resumed w \<and> \<not> grew w then r\<lparr>idle_faults := idle_faults r + 1\<rparr> else r)
          in (g\<lparr>g_walk := Some (w\<lparr>wk_record := r1\<rparr>)\<rparr>, Ok (idle_faults r1)))"

text \<open>How the pass is answered, or the reason its walk is to be kept and whether it is complete.\<close>

definition finish_end ::
  "'w gasp_env \<Rightarrow> string \<Rightarrow> string \<Rightarrow> bool \<Rightarrow> gasp_error + walk_end \<Rightarrow> ('w gasp, ingested + string \<times> bool) act" where
  "finish_end E p gid resumed ended =
     (case ended of
        Inr Walk_Expired \<Rightarrow> seq (refuse_expired E p) (\<lambda>i. ok (Inl i))
      | Inr Walk_Done \<Rightarrow>
          seq (caught (complete_graph E gid)) (\<lambda>r.
            case r of
              Inr True \<Rightarrow> ok (Inl Ing_Completed)
            | Inr False \<Rightarrow>
                seq take_walk (\<lambda>x.
                seq (if resumed \<or> (case x of None \<Rightarrow> False | Some w \<Rightarrow> wk_struck w \<noteq> None)
                     then drop_record E p Refused else ok ()) (\<lambda>_.
                  ok (Inl Ing_Completed)))
            | Inl (AnchorUnavailable _) \<Rightarrow> ok (Inr (''anchor_unavailable'', True))
            | Inl (AnchorWalkHeld _) \<Rightarrow> ok (Inr (''anchor_walk_held'', True))
            | Inl _ \<Rightarrow> seq (discard E gid) (\<lambda>_. ok (Inr (''fault'', True))))
      | Inr (Walk_Deferred reason) \<Rightarrow> ok (Inr (reason, False))
      | Inl e \<Rightarrow>
          if (case e of NodeNotFound _ \<Rightarrow> True | DefinitiveNotFound _ \<Rightarrow> True | _ \<Rightarrow> False)
          then seq (strike_or_drop E p gid e Not_Held resumed) (\<lambda>i. ok (Inl i))
          else
            seq (if resumed then ok True else walk_paid E) (\<lambda>paid.
              if \<not> paid then seq (discard E gid) (\<lambda>_. seq take_walk (\<lambda>_. err e))
              else
                seq count_idle_fault (\<lambda>idle.
                  if DEFERRED_GRAPH_MAX_IDLE_FAULTS \<le> idle
                  then seq (strike_or_drop E p gid e Idle_Faults True) (\<lambda>i. ok (Inl i))
                  else seq (discard E gid) (\<lambda>_. ok (Inr (''fault'', False))))))"

definition budget_cut :: "string \<Rightarrow> bool" where
  "budget_cut reason \<longleftrightarrow> reason = ''calls'' \<or> reason = ''bytes'' \<or> reason = ''nodes''"

text \<open>What the save of a walk makes of the pass: its answer, or the walk that goes on.\<close>

definition finish_save ::
  "'w gasp_env \<Rightarrow> string \<Rightarrow> string \<Rightarrow> bool \<Rightarrow> saved \<Rightarrow> ('w gasp, ingested + walk) act" where
  "finish_save E p gid bcut s =
     (case s of
        Save_Retry \<Rightarrow> seq (discard E gid) (\<lambda>_. ok (Inl Ing_Retry))
      | Save_Yes \<Rightarrow> seq (discard E gid) (\<lambda>_. ok (Inl Ing_Deferred))
      | Save_WentOn \<Rightarrow> seq (discard E gid) (\<lambda>_. err (OtherError (''graph '' @ p @ '' went on and did not complete'')))
      | Save_Fault e w \<Rightarrow> if \<not> bcut then seq (discard E gid) (\<lambda>_. err e) else ok (Inr w)
      | Save_Ceiling w \<Rightarrow>
          if \<not> bcut
          then seq (discard E gid) (\<lambda>_. err (OtherError (''deferred graph '' @ p @ '' found no room, its record kept'')))
          else ok (Inr w)
      | Save_Unkept why w \<Rightarrow>
          seq (unkept E why w) (\<lambda>w'.
            if \<not> (bcut \<and> why = Too_Many)
            then seq (discard E gid) (\<lambda>_. err (OtherError (''deferred graph '' @ p @ '' not kept'')))
            else ok (Inr w')))"

definition finish_round :: "'w gasp_env \<Rightarrow> string \<Rightarrow> gasp_error + walk_end \<Rightarrow> ('w gasp, ingested + walk) act" where
  "finish_round E p ended =
     seq (got (\<lambda>g. (graph_id_of (g_walk g) p, case g_walk g of None \<Rightarrow> False | Some w \<Rightarrow> wk_resumed w))) (\<lambda>(gid, resumed).
     seq (finish_end E p gid resumed ended) (\<lambda>x.
       case x of
         Inl i \<Rightarrow> ok (Inl i)
       | Inr (reason, completed) \<Rightarrow>
           seq (save_walk E reason completed) (finish_save E p gid (budget_cut reason))))"

definition goes_on :: "walk \<Rightarrow> 'w gasp \<Rightarrow> 'w gasp" where
  "goes_on w g = g\<lparr>g_walk := Some (w\<lparr>wk_cap := NO_CAP, gone_on := True\<rparr>)\<rparr>"


subsection \<open>A walk goes on at most once\<close>

definition no_more :: "'w gasp \<Rightarrow> bool" where
  "no_more g \<longleftrightarrow> (case g_walk g of None \<Rightarrow> True | Some w \<Rightarrow> gone_on w)"

lemma no_more_commit [simp]: "no_more g \<Longrightarrow> no_more (commit out g)"
  by (cases out) (auto simp: no_more_def commit_def Let_def pop_pending_def split: option.splits)

lemma no_more_world [simp]: "no_more (g\<lparr>g_world := w\<rparr>) = no_more g"
  "no_more (g\<lparr>g_last_fault := c\<rparr>) = no_more g"
  by (simp_all add: no_more_def)

lemma walk_graph_no_more: "keeps no_more (walk_graph E)"
proof -
  let ?F = "\<lambda>x :: walk option. case x of None \<Rightarrow> True | Some w \<Rightarrow> gone_on w"
  have "?F y" if s: "same_walk x y" and x: "?F x" for x y
  proof (cases x)
    case None
    then show ?thesis using same_walk_None [OF s] by simp
  next
    case (Some v)
    with s obtain w where "y = Some w" "uncounted w = uncounted v" using same_walk_Some by blast
    then show ?thesis using Some x uncounted_fields(6) [of w v] by simp
  qed
  then have "keeps (\<lambda>g. ?F (g_walk g)) (walk_graph E)"
    by (rule walk_graph_keeps_walk) (use no_more_commit in \<open>simp_all add: no_more_def\<close>)
  then show ?thesis by (simp add: no_more_def [abs_def])
qed

lemma keeps_take_walk [keeps_rules]: "keeps no_more take_walk"
  by (rule keepsI) (auto simp: take_walk_def no_more_def)

lemma keeps_count_idle [keeps_rules]: "keeps no_more count_idle_fault"
  by (rule keepsI) (auto simp: count_idle_fault_def no_more_def Let_def split: option.splits)

lemma no_more_fields [simp]:
  "no_more (g\<lparr>g_fault_records := a\<rparr>) = no_more g" "no_more (g\<lparr>g_held_records := b\<rparr>) = no_more g"
  "no_more (g\<lparr>g_expired := c\<rparr>) = no_more g" "no_more (g\<lparr>g_deferred := c\<rparr>) = no_more g"
  "no_more (g\<lparr>g_refused_expiry := d\<rparr>) = no_more g" "no_more (g\<lparr>g_pass_saved := e\<rparr>) = no_more g"
  by (simp_all add: no_more_def)

lemma keeps_complete_graph [keeps_rules]: "keeps no_more (complete_graph E gid)"
  unfolding complete_graph_def by (auto split: sum.splits gasp_error.splits intro!: keeps_rules)

lemma keeps_know_fault [keeps_rules]: "keeps no_more (know_fault_record p)" "keeps no_more (forget_record p)"
  unfolding know_fault_record_def forget_record_def by (auto intro!: keeps_rules)

lemma keeps_drop_record [keeps_rules]: "keeps no_more (drop_record E p why)"
  unfolding drop_record_def delete_record_def by (auto split: sum.splits option.splits intro!: keeps_rules)

lemma keeps_state [keeps_rules]:
  "(\<And>g. P g \<Longrightarrow> P (f g)) \<Longrightarrow> keeps P (\<lambda>g. (f g, Ok (x g)))"
  "(\<And>g. P g \<Longrightarrow> P (f g)) \<Longrightarrow> keeps P (\<lambda>g. if b then (g, Ok y) else (f g, Ok (x g)))"
  by (auto simp: keeps_def)

lemma keeps_refuse_expired [keeps_rules]: "keeps no_more (refuse_expired E p)"
  unfolding refuse_expired_def by (auto split: option.splits intro!: keeps_rules)

lemma keeps_take_fault [keeps_rules]: "keeps no_more take_fault"
  by (rule keepsI) (auto simp: take_fault_def)

lemma keeps_do_strike [keeps_rules]: "keeps no_more (do_strike E sc p c prior)"
  unfolding do_strike_def by (auto split: sum.splits option.splits deferred_graph_save.splits intro!: keeps_rules)

lemma keeps_strike_resumed [keeps_rules]: "keeps no_more (strike_resumed E p x)"
  unfolding strike_resumed_def by (auto split: sum.splits option.splits intro!: keeps_rules)

lemma keeps_discard [keeps_rules]: "keeps no_more (discard E gid)"
  unfolding discard_def by (auto intro!: keeps_rules)

lemma keeps_strike_or_drop [keeps_rules]: "keeps no_more (strike_or_drop E p gid e why held)"
  unfolding strike_or_drop_def by (auto split: option.splits intro!: keeps_rules)

lemma keeps_walk_paid [keeps_rules]: "keeps no_more (walk_paid E)"
  unfolding walk_paid_def by (auto split: option.splits intro!: keeps_rules)

lemma keeps_finish_end [keeps_rules]: "keeps no_more (finish_end E p gid resumed ended)"
  unfolding finish_end_def
  by (auto split: sum.splits walk_end.splits bool.splits gasp_error.splits option.splits intro!: keeps_rules)

text \<open>With no walk in hand, or one that already went on, a save hands no walk back.\<close>

lemma save_walk_no_more:
  assumes "save_walk E reason completed g = (g', Ok s)" "no_more g"
  shows "s = Save_Yes \<or> s = Save_WentOn"
  using assms by (auto simp: save_walk_def no_more_def split: option.splits)

lemma finish_round_no_more:
  assumes "finish_round E p ended g = (g', Ok (Inr w))"
  shows "\<not> no_more g"
proof
  assume g: "no_more g"
  from assms obtain gid resumed g1 reason completed s g2 where
    e: "finish_end E p gid resumed ended g = (g1, Ok (Inr (reason, completed)))"
    and s: "save_walk E reason completed g1 = (g2, Ok s)"
    and f: "finish_save E p gid (budget_cut reason) s g2 = (g', Ok (Inr w))"
    by (auto simp: finish_round_def elim!: seq_elim split: sum.splits prod.splits)
  have "no_more g1" using keepsD [OF keeps_finish_end e g] .
  with save_walk_no_more [OF s] f show False
    by (auto simp: finish_save_def elim!: seq_elim)
qed

lemma goes_on_no_more:
  assumes "walk_graph E (goes_on w g) = (g', a)"
  shows "no_more g'"
  using keepsD [OF walk_graph_no_more assms] by (simp add: no_more_def goes_on_def)

function finish_pass :: "'w gasp_env \<Rightarrow> string \<Rightarrow> gasp_error + walk_end \<Rightarrow> 'w gasp \<Rightarrow> 'w gasp \<times> ingested answer" where
  "finish_pass E p ended g =
     (case finish_round E p ended g of
        (g1, Ok (Inl i)) \<Rightarrow> (g1, Ok i)
      | (g1, Ok (Inr w)) \<Rightarrow>
          (case walk_graph E (goes_on w g1) of
             (g2, Ok e) \<Rightarrow> finish_pass E p (Inr e) g2
           | (g2, Err e) \<Rightarrow> finish_pass E p (Inl e) g2
           | (g2, Cut_Node) \<Rightarrow> (g2, Cut_Node)
           | (g2, Cut_Sync) \<Rightarrow> (g2, Cut_Sync))
      | (g1, Err e) \<Rightarrow> (g1, Err e)
      | (g1, Cut_Node) \<Rightarrow> (g1, Cut_Node)
      | (g1, Cut_Sync) \<Rightarrow> (g1, Cut_Sync))"
  by pat_completeness auto

termination
  by (relation "measure (\<lambda>(E, p, ended, g). if no_more g then 0 else 1)")
     (auto dest: finish_round_no_more [OF sym] goes_on_no_more [OF sym])

declare finish_pass.simps [simp del]

subsection \<open>The pass of one root\<close>

definition rewalk_struck ::
  "'w gasp_env \<Rightarrow> gasp_output \<Rightarrow> string \<Rightarrow> deferred_graph \<Rightarrow> pass_cap \<Rightarrow> ('w gasp, ingested) act" where
  "rewalk_struck E u p r0 cap =
     seq (got (now_secs E)) (\<lambda>now.
       if is_dead r0 \<or> (is_unanchorable r0 \<and> now < retry_at r0) then ok Ing_Unanchorable
       else if \<not> is_unanchorable r0 \<and> now < retry_at r0
       then ok (if dg_cursor_passable r0 then Ing_Deferred else Ing_Retry)
       else if is_unanchorable r0 \<and> UNANCHORABLE_RETRIES \<le> unanchorable_retries r0
       then seq (keep_unanchorable E r0) (\<lambda>_. ok Ing_Unanchorable)
       else
         let un = is_unanchorable r0;
             r = (if un then r0\<lparr>unanchorable_retries := unanchorable_retries r0 + 1, retry_at := now + UNANCHORABLE_RETRY_SECS\<rparr>
                  else r0)
         in seq (if un then io (st_reserve_unanchorable_retry E r) else ok True) (\<lambda>reserved.
              if \<not> reserved then ok Ing_Unanchorable
              else
                seq (put_walk ((fresh_walk (as_u64 (go_score u)) p cap)\<lparr>wk_struck := Some r\<rparr>)) (\<lambda>_.
                seq (caught (walk_graph E)) (\<lambda>ended.
                seq (caught (finish_pass E p ended)) (\<lambda>out.
                  case out of
                    Inr i \<Rightarrow>
                      if un \<and> i \<noteq> Ing_Completed \<and> i \<noteq> Ing_Expired
                      then seq (keep_unanchorable E r) (\<lambda>_. ok Ing_Unanchorable)
                      else if i = Ing_Retry \<and> dg_cursor_passable r
                      then seq (caught (io (st_save_deferred_graph E r))) (\<lambda>saved.
                           seq (if saved = Inr Saved then know_fault_record p else ok ()) (\<lambda>_.
                             ok (if un then Ing_Unanchorable else Ing_Deferred)))
                      else ok i
                  | Inl e \<Rightarrow>
                      seq take_walk (\<lambda>_.
                      seq take_fault (\<lambda>cls.
                        case cls of
                          Some c \<Rightarrow>
                            if strikes c
                            then seq (do_strike E (as_u64 (go_score u)) p c (Some r)) (\<lambda>k.
                                   if passable k then ok Ing_Unanchorable else err e)
                            else if un then seq (keep_unanchorable E r) (\<lambda>_. ok Ing_Unanchorable)
                            else err e
                        | None \<Rightarrow>
                            if un then seq (keep_unanchorable E r) (\<lambda>_. ok Ing_Unanchorable) else err e)))))))"

primrec append_nodes :: "'w gasp_env \<Rightarrow> walked_node list \<Rightarrow> ('w gasp, unit) act" where
  "append_nodes E [] = ok ()"
| "append_nodes E (n # ns) = seq (io (st_append_to_graph E (node n) (wn_spent_by n))) (\<lambda>_. append_nodes E ns)"

definition append_walked :: "'w gasp_env \<Rightarrow> ('w gasp, unit) act" where
  "append_walked E =
     seq (got (\<lambda>g. case g_walk g of None \<Rightarrow> [] | Some w \<Rightarrow> dg_nodes (wk_record w))) (append_nodes E)"

text \<open>The root of a resumed record is asked again: once it is served proven, the walk restarts from it.\<close>

definition restarted_walk :: "nat \<Rightarrow> string \<Rightarrow> pass_cap \<Rightarrow> walk option \<Rightarrow> walk" where
  "restarted_walk sc p cap x =
     (let carried = (case x of None \<Rightarrow> (0, 0, 0) | Some w \<Rightarrow> (calls_this_pass w, bytes_this_pass w, nodes_this_pass w))
      in (fresh_walk sc p cap)
           \<lparr>wk_resumed := (case x of None \<Rightarrow> False | Some w \<Rightarrow> dg_cursor_passable (wk_record w)),
            calls_this_pass := fst carried, bytes_this_pass := fst (snd carried), nodes_this_pass := snd (snd carried),
            wk_record := (fresh_record sc p)\<lparr>dg_calls := fst carried\<rparr>\<rparr>)"

definition reask_root :: "'w gasp_env \<Rightarrow> nat \<Rightarrow> string \<Rightarrow> pass_cap \<Rightarrow> ('w gasp, walk_end option) act" where
  "reask_root E sc p cap =
     seq (io (tm_deadline_due E)) (\<lambda>due.
       if due then ok (Some (Walk_Deferred ''time''))
       else
         seq (raced (fetch_root E (hd (dg_pending (fresh_record sc p))))) (\<lambda>r.
           case r of
             None \<Rightarrow> ok (Some (Walk_Deferred ''time''))
           | Some (Inr None) \<Rightarrow> ok (Some Walk_Expired)
           | Some (Inr (Some n)) \<Rightarrow>
               if proof_hex n = None then ok None
               else
                 seq (got g_walk) (\<lambda>x.
                 seq (drop_record E p Root_Proven) (\<lambda>_.
                 seq (put_walk (restarted_walk sc p cap x)) (\<lambda>_. ok None)))
           | Some (Inl _) \<Rightarrow> ok None))"

definition resumed_walk :: "'w gasp_env \<Rightarrow> deferred_graph \<Rightarrow> pass_cap \<Rightarrow> walk" where
  "resumed_walk E r cap =
     \<lparr>wk_record = r, wk_seen = remdups (List.map_filter (\<lambda>n. node_id E (node n)) (dg_nodes r)), calls_this_pass = 0,
      bytes_this_pass = 0, nodes_this_pass = 0, wk_resumed = True, wk_cap = cap,
      nodes_at_start = length (dg_nodes r), gone_on = False, wk_half = False, wk_struck = None\<rparr>"

definition start_half :: "'w gasp_env \<Rightarrow> walk \<Rightarrow> ('w gasp, walk) act" where
  "start_half E w =
     (case tm_half_due E of None \<Rightarrow> ok w | Some half \<Rightarrow> seq (io half) (\<lambda>_. ok (w\<lparr>wk_half := True\<rparr>)))"

text \<open>One walk under the deadline, and the end of its pass.\<close>

definition walk_and_finish :: "'w gasp_env \<Rightarrow> nat \<Rightarrow> string \<Rightarrow> pass_cap \<Rightarrow> walk \<Rightarrow> ('w gasp, ingested) act" where
  "walk_and_finish E sc p cap w =
     seq (put_walk w) (\<lambda>_.
     seq (caught
           (seq (if wk_resumed w \<and> (case dg_nodes (wk_record w) of [] \<Rightarrow> False | n # _ \<Rightarrow> proof_hex (node n) = None)
                 then reask_root E sc p cap else ok None) (\<lambda>x.
              case x of
                Some e \<Rightarrow> ok e
              | None \<Rightarrow> seq (append_walked E) (\<lambda>_. walk_graph E)))) (\<lambda>ended.
       finish_pass E p ended))"

definition read_held :: "'w gasp_env \<Rightarrow> string \<Rightarrow> bool \<Rightarrow> ('w gasp, deferred_graph option) act" where
  "read_held E p held =
     (if held
      then seq (io (st_get_deferred_graph E p)) (\<lambda>r.
           seq (read_record r) (\<lambda>_.
           seq (upd (\<lambda>g. if r = None then g\<lparr>g_held_records := g_held_records g - 1\<rparr> else g)) (\<lambda>_. ok r)))
      else ok None)"

definition resume_record ::
  "'w gasp_env \<Rightarrow> nat \<Rightarrow> string \<Rightarrow> pass_cap \<Rightarrow> deferred_graph \<Rightarrow> ('w gasp, ingested) act" where
  "resume_record E sc p cap r =
     seq (case dg_nodes r of [] \<Rightarrow> ok False | n # _ \<Rightarrow> root_expired E (node n) p) (\<lambda>past.
       if past
       then seq (upd (\<lambda>g. g\<lparr>g_deferred := ins p (g_deferred g)\<rparr>)) (\<lambda>_. refuse_expired E p)
       else
         seq (got (\<lambda>g. dg_cursor_passable r \<and> waits_idle r (now_secs E g))) (\<lambda>idle.
           if idle then ok Ing_Waiting
           else
             seq (upd (\<lambda>g. if dg_cursor_passable r
                           then g\<lparr>g_resume_idle := Some (idle_resumes r, length (dg_nodes r))\<rparr> else g)) (\<lambda>_.
               if DEFERRED_GRAPH_MAX_PASSES \<le> dg_passes r
               then seq (drop_record E p Max_Passes) (\<lambda>_. err (OtherError (''deferred graph '' @ p @ '' dropped'')))
               else walk_and_finish E sc p cap (resumed_walk E r cap))))"

definition ingest_budgeted ::
  "'w gasp_env \<Rightarrow> gasp_output \<Rightarrow> string \<Rightarrow> pass_cap \<Rightarrow> bool \<Rightarrow> ('w gasp, ingested) act" where
  "ingest_budgeted E u p cap held =
     (let sc = as_u64 (go_score u)
      in seq (read_held E p held) (\<lambda>rec.
         seq (sweep_expired_record E rec) (\<lambda>swept.
           if swept then ok Ing_Expired
           else
             seq (case rec of
                    Some r \<Rightarrow>
                      if (is_unanchorable r \<or> is_dead r) \<and> dg_score r \<noteq> sc
                      then seq (io (st_delete_deferred_graph E p)) (\<lambda>_. seq (forget_record p) (\<lambda>_. ok None))
                      else ok rec
                  | None \<Rightarrow> ok rec) (\<lambda>rec1.
               case rec1 of
                 None \<Rightarrow> seq (start_half E (fresh_walk sc p cap)) (walk_and_finish E sc p cap)
               | Some r \<Rightarrow>
                   if is_struck r then rewalk_struck E u p r cap else resume_record E sc p cap r))))"

text \<open>One more idle resume, counted on the record after a pass that did not save it.\<close>

definition idle_resume :: "'w gasp_env \<Rightarrow> string \<Rightarrow> nat \<Rightarrow> nat \<Rightarrow> ('w gasp, unit) act" where
  "idle_resume E p prior held =
     seq (caught (io (st_get_deferred_graph E p))) (\<lambda>x.
       case x of
         Inr (Some r) \<Rightarrow>
           if is_struck r \<or> \<not> dg_cursor_passable r \<or> held < length (dg_nodes r) then ok ()
           else
             seq (got (now_secs E)) (\<lambda>now.
               let n = sat_add32 prior 1
               in ignored (io (st_save_deferred_graph E
                    (r\<lparr>idle_resumes := n,
                       retry_at := (if IDLE_RESUMES_BEFORE_BACKOFF \<le> n then now + IDLE_RESUME_RETRY_SECS else retry_at r)\<rparr>))))
       | _ \<Rightarrow> ok ())"

text \<open>A held record not resumed: the counted limbs of the resumes are spent, or their share of the time is.\<close>

definition hold_back :: "'w gasp_env \<Rightarrow> string \<Rightarrow> ('w gasp, ingested) act" where
  "hold_back E p =
     seq (io (st_get_deferred_graph E p)) (\<lambda>rec.
     seq (read_record rec) (\<lambda>_.
     seq (sweep_expired_record E rec) (\<lambda>swept.
       if swept then ok Ing_Expired
       else
         seq (got (now_secs E)) (\<lambda>now.
           case rec of
             None \<Rightarrow> ok Ing_Retry
           | Some r \<Rightarrow>
               if waits_idle r now then ok Ing_Waiting
               else if is_dead r \<or> (is_unanchorable r \<and> now < retry_at r) then ok Ing_Unanchorable
               else if dg_reason r = ''retry:deadline'' then ok Ing_Retry
               else if is_struck r \<and> \<not> dg_cursor_passable r then ok Ing_Retry
               else if dg_cursor_passable r then ok Ing_HeldBack
               else
                 seq (io (st_save_deferred_graph E (r\<lparr>dg_cursor_passable := True\<rparr>))) (\<lambda>saved.
                   ok (if saved = Saved then Ing_HeldBack else Ing_Retry))))))"

definition share_due :: "'w gasp_env \<Rightarrow> ('w gasp, bool) act" where
  "share_due E =
     seq (got g_share_started) (\<lambda>started.
       case tm_share_due E of None \<Rightarrow> ok False | Some d \<Rightarrow> if started then io d else ok False)"

definition spent_counts :: "'w gasp \<Rightarrow> nat \<times> nat \<times> nat" where
  "spent_counts g = (g_calls_made g, g_bytes_fetched g, g_nodes_appended g)"

definition charged :: "pass_cap \<Rightarrow> nat \<times> nat \<times> nat \<Rightarrow> 'w gasp \<Rightarrow> pass_cap" where
  "charged cap prior g =
     \<lparr>pc_calls = pc_calls cap - min (g_calls_made g - fst prior) (2 ^ 32 - 1),
      pc_bytes = pc_bytes cap - (g_bytes_fetched g - fst (snd prior)),
      pc_nodes = pc_nodes cap - min (g_nodes_appended g - snd (snd prior)) (2 ^ 32 - 1)\<rparr>"

definition resume_pass :: "'w gasp_env \<Rightarrow> gasp_output \<Rightarrow> string \<Rightarrow> pass_cap \<Rightarrow> ('w gasp, ingested) act" where
  "resume_pass E u p cap =
     seq (got spent_counts) (\<lambda>at.
     seq (caught (ingest_budgeted E u p cap True)) (\<lambda>out.
     seq (\<lambda>g. (g\<lparr>g_resume_idle := None\<rparr>, Ok (g_resume_idle g))) (\<lambda>idle.
     seq (got (\<lambda>g. fst at < g_calls_made g \<and> \<not> g_pass_saved g
            \<and> out \<noteq> Inr Ing_Completed \<and> out \<noteq> Inr Ing_Expired)) (\<lambda>count.
     seq (case idle of
            Some (prior, held) \<Rightarrow> if count then idle_resume E p prior held else ok ()
          | None \<Rightarrow> ok ()) (\<lambda>_.
     seq (upd (\<lambda>g. g\<lparr>g_resume_left := charged cap at g\<rparr>)) (\<lambda>_.
       case out of Inr i \<Rightarrow> ok i | Inl e \<Rightarrow> err e))))))"

definition ingest_utxo :: "'w gasp_env \<Rightarrow> gasp_output \<Rightarrow> string \<Rightarrow> ('w gasp, ingested) act" where
  "ingest_utxo E u p =
     seq (upd (\<lambda>g. g\<lparr>g_last_fault := None, g_resume_idle := None, g_pass_saved := False\<rparr>)) (\<lambda>_.
     seq (got (\<lambda>g. (p \<in> set (g_expired g), p \<in> set (g_deferred g)))) (\<lambda>(expired, deferred).
       if expired
       then
         seq (if deferred then seq (io (st_get_deferred_graph E p)) (sweep_expired_record E) else ok False) (\<lambda>swept.
           if swept then ok Ing_Expired else refuse_expired E p)
       else
         seq (upd (\<lambda>g. g\<lparr>g_deferred := del p (g_deferred g)\<rparr>)) (\<lambda>_.
           if \<not> deferred then ingest_budgeted E u p (gb_pass E) False
           else
             seq (got g_resume_left) (\<lambda>cap.
             seq (share_due E) (\<lambda>due.
               if cap_spent cap \<or> due then hold_back E p else resume_pass E u p cap)))))"

definition settle_completed :: "'w gasp_env \<Rightarrow> bool \<Rightarrow> ('w gasp, unit) act" where
  "settle_completed E landed =
     (if landed
      then seq take_walk (\<lambda>x.
             case x of
               None \<Rightarrow> ok ()
             | Some w \<Rightarrow>
                 if wk_struck w \<noteq> None \<or> wk_resumed w then delete_record E (dg_outpoint (wk_record w)) else ok ())
      else seq (save_walk E ''not_landed'' True) (\<lambda>s.
             case s of Save_Unkept why w \<Rightarrow> seq (unkept E why w) (\<lambda>_. ok ()) | _ \<Rightarrow> ok ()))"

end
