(* ===== verification/Gasp_Push.thy ===== *)
theory Gasp_Push
  imports Gasp_Walk
begin

text \<open>
  The push of a bidirectional sync (\<open>gasp.rs\<close>, \<open>push_utxo\<close> and \<open>process_outgoing_node\<close>, with the node
  \<open>OverlayGASPStorage::hydrate_gasp_node\<close> of \<open>gasp_overlay.rs\<close> makes of a stored transaction and its proof): a
  node is submitted, and for each input the remote asks for the node of that input.

  The recursion ends because a node is known by its graph and its output index: every node of one push
  carries the graph of its root, and an output index is a \<open>u32\<close>.
\<close>

definition hydrated :: "string \<Rightarrow> nat \<Rightarrow> string \<times> string option \<Rightarrow> gasp_node" where
  "hydrated gid i x =
     \<lparr>graph_id = gid, raw_tx = fst x, node_output_index = i, proof_hex = snd x, tx_metadata = None,
      output_metadata = None, node_inputs = None\<rparr>"

definition hydrate_gasp_node :: "'w gasp_env \<Rightarrow> string \<Rightarrow> string \<Rightarrow> nat \<Rightarrow> ('w gasp, gasp_node) act" where
  "hydrate_gasp_node E gid t i = seq (io (st_hydrate_gasp_node E t i)) (\<lambda>x. ok (hydrated gid i x))"

definition outgoing_id :: "gasp_node \<Rightarrow> string" where
  "outgoing_id n = to_graph_id (Outpoint (graph_id n) (node_output_index n))"

text \<open>The ids a push of a graph has not seen yet.\<close>

definition unseen :: "string \<Rightarrow> string list \<Rightarrow> string set" where
  "unseen gid seen = {to_graph_id (Outpoint gid i) |i. i < 2 ^ 32} - set seen"

lemma finite_unseen [simp]: "finite (unseen gid seen)"
  by (simp add: unseen_def)

lemma unseen_ins: "i < 2 ^ 32 \<Longrightarrow> to_graph_id (Outpoint gid i) \<notin> set seen
    \<Longrightarrow> card (unseen gid (to_graph_id (Outpoint gid i) # seen)) < card (unseen gid seen)"
  by (rule psubset_card_mono) (auto simp: unseen_def)

text \<open>
  \<open>process_outgoing_node\<close> calls itself for the inputs it is asked for, one after the other, before the next
  input of its caller: \<open>frames\<close> are the inputs still to answer of the node in hand and of its callers. An
  input that cannot be hydrated ends its frame; a submit that fails ends the push.
\<close>

lemma hydrate_id: "hydrate_gasp_node E gid t i g = (g', Ok n) \<Longrightarrow> outgoing_id n = to_graph_id (Outpoint gid i)"
  by (auto simp: hydrate_gasp_node_def hydrated_def outgoing_id_def elim!: seq_elim)

lemma parse_outpoint_u32: "parse_outpoint p = Some (t, i) \<Longrightarrow> i < 2 ^ 32"
  using parse_u32_less by (fastforce simp: parse_outpoint_def split: option.splits)

lemma unseen_submitted:
  assumes "parse_outpoint p = Some (t, i)" "(g1, Ok n) = hydrate_gasp_node E gid t i g" "outgoing_id n \<notin> set seen"
  shows "card (unseen gid (outgoing_id n # seen)) < card (unseen gid seen)"
  using assms unseen_ins [of i gid seen] hydrate_id [OF assms(2) [symmetric]] parse_outpoint_u32 [OF assms(1)] by simp

function process_outgoing ::
  "'w gasp_env \<Rightarrow> string \<Rightarrow> (string \<times> bool) list list \<Rightarrow> string list \<Rightarrow> 'w gasp \<Rightarrow> 'w gasp \<times> unit answer" where
  "process_outgoing E gid [] seen g = (g, Ok ())"
| "process_outgoing E gid ([] # frames) seen g = process_outgoing E gid frames seen g"
| "process_outgoing E gid (((p, m) # rest) # frames) seen g =
     (case parse_outpoint p of
        None \<Rightarrow> process_outgoing E gid (rest # frames) seen g
      | Some (t, i) \<Rightarrow>
          (case hydrate_gasp_node E gid t i g of
             (g1, Err e) \<Rightarrow> process_outgoing E gid frames seen g1
           | (g1, Cut_Node) \<Rightarrow> (g1, Cut_Node)
           | (g1, Cut_Sync) \<Rightarrow> (g1, Cut_Sync)
           | (g1, Ok n) \<Rightarrow>
               if outgoing_id n \<in> set seen then process_outgoing E gid (rest # frames) seen g1
               else
                 (case io (rm_submit_node E n) g1 of
                    (g2, Ok r) \<Rightarrow>
                      process_outgoing E gid (case r of None \<Rightarrow> rest # frames | Some xs \<Rightarrow> xs # rest # frames)
                        (outgoing_id n # seen) g2
                  | (g2, Err e) \<Rightarrow> (g2, Err e)
                  | (g2, Cut_Node) \<Rightarrow> (g2, Cut_Node)
                  | (g2, Cut_Sync) \<Rightarrow> (g2, Cut_Sync))))"
  by pat_completeness auto

termination
  by (relation "measures [\<lambda>(E, gid, frames, seen, g). card (unseen gid seen),
        \<lambda>(E, gid, frames, seen, g). length frames + length (concat frames)]")
     (auto dest: unseen_submitted)

definition push_utxo :: "'w gasp_env \<Rightarrow> gasp_output \<Rightarrow> ('w gasp, unit) act" where
  "push_utxo E u =
     (let gid = go_outpoint u
      in seq (hydrate_gasp_node E gid (go_txid u) (go_index u)) (\<lambda>n.
           if cf_unidirectional E then ok ()
           else
             seq (io (rm_submit_node E n)) (\<lambda>r.
               process_outgoing E gid (case r of None \<Rightarrow> [] | Some xs \<Rightarrow> [xs]) [outgoing_id n])))"

end
