(* ===== verification/Gasp_Sync.thy ===== *)
theory Gasp_Sync
  imports Gasp_Pass Gasp_Push
begin

text \<open>
  The sync of one peer (\<open>gasp.rs\<close>, \<open>GASPSync::sync\<close>): the records held for it are resumed, its pages are read
  until one does not move the cursor, every output of a page is ingested once, and the local outputs it
  does not have are pushed. \<open>completed_cursor\<close> is the cursor safe to persist wherever the sync stops.

  \<open>lo_*\<close> are the locals of \<open>sync\<close>. Three of them are history, which no operation reads: \<open>lo_keys\<close>, the
  outpoints and scores of the records held at the start; \<open>lo_served\<close>, those of the outputs the peer served on its
  pages; \<open>lo_page\<close>, those of the page whose writes are still queued.
\<close>

record 'w gsync =
  sy :: "'w gasp"
  last_interaction :: nat
  completed_cursor :: nat
  cursor_held_by :: "(nat \<times> string) option"
  cursor_after_in_flight :: nat
  in_flight :: "(nat \<times> string) option"
  page_floor :: "nat option"
  page_count :: nat
  page_advanced :: bool
  page_reached_tip :: bool
  lo_known :: "string list"
  lo_shared :: "string list"
  lo_failed :: "string list"
  lo_min_failed :: "nat option"
  lo_completed :: "nat list"
  lo_initial :: nat
  lo_held_scores :: "(string, nat) table"
  lo_local :: "gasp_output list"
  lo_keys :: "(string \<times> nat) list"
  lo_served :: "(string \<times> nat) list"
  lo_page :: "(string \<times> nat) list"

definition inner :: "('w gasp, 'a) act \<Rightarrow> ('w gsync, 'a) act" where
  "inner m s = (case m (sy s) of (g, a) \<Rightarrow> (s\<lparr>sy := g\<rparr>, a))"

abbreviation sio :: "('w, 'a) act \<Rightarrow> ('w gsync, 'a) act" where
  "sio m \<equiv> inner (io m)"

subsection \<open>The cursor\<close>

definition go_u64 :: "gasp_output \<Rightarrow> nat" where
  "go_u64 u = as_u64 (go_score u)"

definition served_as :: "gasp_output \<Rightarrow> string \<times> nat" where
  "served_as u = (go_outpoint u, go_u64 u)"

definition min_opt :: "nat option \<Rightarrow> nat option \<Rightarrow> nat option" where
  "min_opt x y = (case x of None \<Rightarrow> y | Some a \<Rightarrow> (case y of None \<Rightarrow> x | Some b \<Rightarrow> Some (min a b)))"

primrec lowest :: "gasp_output list \<Rightarrow> nat option" where
  "lowest [] = None"
| "lowest (u # us) = min_opt (Some (go_u64 u)) (lowest us)"

definition cursor_for_completed :: "nat list \<Rightarrow> nat option \<Rightarrow> nat \<Rightarrow> nat" where
  "cursor_for_completed completed lowest_unfinished floor =
     (let below = filter (\<lambda>x. case lowest_unfinished of None \<Rightarrow> True | Some l \<Rightarrow> x < l) completed
      in max (if below = [] then floor else Max (set below)) floor)"

definition hold_cursor :: "nat \<Rightarrow> string \<Rightarrow> 'w gsync \<Rightarrow> 'w gsync" where
  "hold_cursor sc p s =
     (case cursor_held_by s of
        Some (held, _) \<Rightarrow> if sc < held then s\<lparr>cursor_held_by := Some (sc, p)\<rparr> else s
      | None \<Rightarrow> s\<lparr>cursor_held_by := Some (sc, p)\<rparr>)"

definition release_hold :: "string \<Rightarrow> 'w gsync \<Rightarrow> 'w gsync" where
  "release_hold p s =
     (case cursor_held_by s of
        Some (_, held) \<Rightarrow> if held = p then s\<lparr>cursor_held_by := None\<rparr> else s
      | None \<Rightarrow> s)"

definition fail :: "nat \<Rightarrow> string \<Rightarrow> 'w gsync \<Rightarrow> 'w gsync" where
  "fail sc p s = s\<lparr>lo_min_failed := min_opt (lo_min_failed s) (Some sc), lo_failed := ins p (lo_failed s)\<rparr>"

definition share :: "string \<Rightarrow> 'w gsync \<Rightarrow> 'w gsync" where
  "share p s = s\<lparr>lo_shared := ins p (lo_shared s)\<rparr>"

definition set_cursor :: "nat option \<Rightarrow> 'w gsync \<Rightarrow> 'w gsync" where
  "set_cursor unfinished s =
     s\<lparr>completed_cursor := cursor_for_completed (lo_completed s) unfinished (lo_initial s)\<rparr>"

definition stopped :: "'w gasp_env \<Rightarrow> 'w gsync \<Rightarrow> bool" where
  "stopped E s = (case tm_request_stop E of None \<Rightarrow> False | Some f \<Rightarrow> f (g_world (sy s)))"

definition drop_held :: "'w gasp_env \<Rightarrow> string \<Rightarrow> ('w gasp, unit) act" where
  "drop_held E p = seq (upd (\<lambda>g. g\<lparr>g_deferred := del p (g_deferred g)\<rparr>)) (\<lambda>_. drop_record E p Drop_Held)"

definition load_remembered_expired :: "'w gasp_env \<Rightarrow> string list \<Rightarrow> ('w gasp, unit) act" where
  "load_remembered_expired E ps =
     seq (got (\<lambda>g. filter (\<lambda>p. p \<notin> set (g_expired g)) ps)) (\<lambda>asked.
       if asked = [] then ok ()
       else
         seq (caught (io (st_remembered_expired E asked))) (\<lambda>r.
           case r of
             Inr ps' \<Rightarrow> upd (\<lambda>g. g\<lparr>g_expired := foldr ins ps' (g_expired g)\<rparr>)
           | Inl _ \<Rightarrow> ok ()))"

subsection \<open>One root\<close>

definition hook_landed :: "'w gasp_env \<Rightarrow> ('w gasp, gasp_error + unit) act" where
  "hook_landed E = (case hk_graph_completed E of None \<Rightarrow> ok (Inr ()) | Some h \<Rightarrow> caught (io h))"

text \<open>An ingest is done with its root (\<open>Inr True\<close>), leaves it to a later run (\<open>Inr False\<close>), or failed.\<close>

definition ingest_outcome :: "'w gasp_env \<Rightarrow> gasp_error + ingested \<Rightarrow> ('w gasp, gasp_error + bool) act" where
  "ingest_outcome E r =
     (case r of
        Inr Ing_Completed \<Rightarrow>
          seq (hook_landed E) (\<lambda>landed.
          seq (settle_completed E (landed = Inr ())) (\<lambda>_.
            ok (case landed of Inr _ \<Rightarrow> Inr True | Inl e \<Rightarrow> Inl e)))
      | Inr Ing_Retry \<Rightarrow> ok (Inr False)
      | Inr _ \<Rightarrow> ok (Inr True)
      | Inl e \<Rightarrow> seq take_walk (\<lambda>_. ok (Inl e)))"

definition passable_held :: "'w gasp_env \<Rightarrow> string \<Rightarrow> ('w gasp, bool) act" where
  "passable_held E p =
     seq (caught (io (st_get_deferred_graph E p))) (\<lambda>r.
       ok (case r of Inr (Some x) \<Rightarrow> dg_cursor_passable x | _ \<Rightarrow> False))"

text \<open>The ingest of a root, in flight while it is asked for.\<close>

definition ingest_in_flight :: "'w gasp_env \<Rightarrow> gasp_output \<Rightarrow> nat \<Rightarrow> string \<Rightarrow> ('w gsync, gasp_error + ingested) act" where
  "ingest_in_flight E u sc p =
     seq (upd (\<lambda>s. s\<lparr>in_flight := Some (sc, p)\<rparr>)) (\<lambda>_.
     seq (inner (caught (ingest_utxo E u p))) (\<lambda>r.
     seq (upd (\<lambda>s. s\<lparr>in_flight := None\<rparr>)) (\<lambda>_. ok r)))"

subsection \<open>The records held\<close>

definition held_settled :: "'w gasp_env \<Rightarrow> string \<Rightarrow> gasp_error + ingested \<Rightarrow> ('w gasp, bool) act" where
  "held_settled E p r =
     seq (ingest_outcome E r) (\<lambda>out.
     seq (case r of Inl _ \<Rightarrow> seq take_fault (\<lambda>_. ok ()) | _ \<Rightarrow> ok ()) (\<lambda>_.
       if out = Inr True then ok True else passable_held E p))"

definition held_key :: "'w gasp_env \<Rightarrow> deferred_graph_key \<Rightarrow> ('w gsync, unit) act" where
  "held_key E k =
     (let p = dk_outpoint k; sc = dk_score k
      in seq (got (\<lambda>s. p \<in> set (lo_known s))) (\<lambda>known.
           if known then seq (inner (drop_held E p)) (\<lambda>_. upd (share p))
           else
             case parse_outpoint p of
               None \<Rightarrow> ok ()
             | Some (t, i) \<Rightarrow>
                 seq (upd (\<lambda>s. hold_cursor sc p (s\<lparr>cursor_after_in_flight := lo_initial s\<rparr>))) (\<lambda>_.
                 seq (ingest_in_flight E \<lparr>go_txid = t, go_index = i, go_score = sc\<rparr> sc p) (\<lambda>r.
                 seq (inner (held_settled E p r)) (\<lambda>settled.
                   upd (\<lambda>s.
                     if settled then share p (release_hold p s)
                     else
                       let s1 = hold_cursor sc p s
                       in s1\<lparr>lo_min_failed := (if lo_initial s \<le> sc then min_opt (lo_min_failed s) (Some sc) else lo_min_failed s),
                             lo_failed := ins p (lo_failed s)\<rparr>))))))"

primrec held_loop :: "'w gasp_env \<Rightarrow> deferred_graph_key list \<Rightarrow> ('w gsync, unit) act" where
  "held_loop E [] = ok ()"
| "held_loop E (k # ks) =
     seq (got (stopped E)) (\<lambda>stop. if stop then ok () else seq (held_key E k) (\<lambda>_. held_loop E ks))"

subsection \<open>One page\<close>

text \<open>A settled terminal record whose score changed is walked again.\<close>

definition reopen :: "string \<Rightarrow> 'w gsync \<Rightarrow> 'w gsync" where
  "reopen p s = s\<lparr>lo_shared := del p (lo_shared s), lo_failed := del p (lo_failed s)\<rparr>"

definition mark_deferred :: "string \<Rightarrow> 'w gsync \<Rightarrow> 'w gsync" where
  "mark_deferred p s = s\<lparr>sy := (sy s)\<lparr>g_deferred := ins p (g_deferred (sy s))\<rparr>\<rparr>"

definition page_memo :: "gasp_output list \<Rightarrow> fault_memo \<Rightarrow> 'w gsync \<Rightarrow> 'w gsync" where
  "page_memo us m s =
     (let p = fm_outpoint m;
          changed = (\<exists>u \<in> set us. go_outpoint u = p \<and> go_u64 u \<noteq> fm_score m);
          s1 = (if changed \<and> (dead m \<or> unanchorable m) then reopen p s else s)
      in mark_deferred p (s1\<lparr>sy := (sy s1)\<lparr>g_fault_records := ins p (g_fault_records (sy s1))\<rparr>\<rparr>))"

definition score_changed :: "'w gasp_env \<Rightarrow> gasp_output \<Rightarrow> ('w gsync, unit) act" where
  "score_changed E u =
     (let p = go_outpoint u
      in seq (got (\<lambda>s. case tbl_get (lo_held_scores s) p of None \<Rightarrow> False | Some x \<Rightarrow> x \<noteq> go_u64 u)) (\<lambda>changed.
           if \<not> changed then ok ()
           else
             seq (sio (st_get_deferred_graph E p)) (\<lambda>r.
               case r of
                 Some x \<Rightarrow> if is_unanchorable x \<or> is_dead x then upd (\<lambda>s. mark_deferred p (reopen p s)) else ok ()
               | None \<Rightarrow> ok ())))"

text \<open>A new output of a page: \<open>us\<close> are the outputs of the page after it.\<close>

definition page_new :: "'w gasp_env \<Rightarrow> gasp_output \<Rightarrow> gasp_output list \<Rightarrow> ('w gsync, unit) act" where
  "page_new E u us =
     (let p = go_outpoint u; sc = go_u64 u
      in seq (upd (\<lambda>s. set_cursor (min_opt (lowest (u # us)) (lo_min_failed s)) s)) (\<lambda>_.
         seq (upd (\<lambda>s. hold_cursor sc p (s\<lparr>cursor_after_in_flight :=
               cursor_for_completed (sc # lo_completed s) (min_opt (lowest us) (lo_min_failed s)) (lo_initial s)\<rparr>))) (\<lambda>_.
         seq (ingest_in_flight E u sc p) (\<lambda>r.
         seq (inner (ingest_outcome E r)) (\<lambda>out.
           case out of
             Inr True \<Rightarrow> upd (\<lambda>s. share p (release_hold p s))
           | Inr False \<Rightarrow> upd (fail sc p)
           | Inl e \<Rightarrow>
               seq (got (\<lambda>s. case lo_min_failed s of None \<Rightarrow> True | Some m \<Rightarrow> sc < m)) (\<lambda>low.
               seq (inner (strike_fresh E sc p low)) (\<lambda>held.
                 upd (if held then (\<lambda>s. share p (release_hold p s)) else fail sc p))))))))"

definition page_output :: "'w gasp_env \<Rightarrow> gasp_output \<Rightarrow> gasp_output list \<Rightarrow> ('w gsync, unit) act" where
  "page_output E u us =
     (let p = go_outpoint u; sc = go_u64 u
      in seq (upd (\<lambda>s. s\<lparr>last_interaction := max (last_interaction s) sc\<rparr>)) (\<lambda>_.
         seq (score_changed E u) (\<lambda>_.
         seq (got (\<lambda>s. (p \<in> set (lo_known s), p \<in> set (g_deferred (sy s)), p \<in> set (lo_shared s) \<or> p \<in> set (lo_failed s))))
           (\<lambda>(known, deferred, seen).
         seq (if known
              then seq (if deferred then inner (drop_held E p) else ok ()) (\<lambda>_.
                   upd (\<lambda>s. (share p s)\<lparr>lo_known := del p (lo_known s)\<rparr>))
              else if seen then ok ()
              else page_new E u us) (\<lambda>_.
         upd (\<lambda>s.
           let s1 = (if p \<in> set (lo_shared s) then s\<lparr>lo_completed := ins sc (lo_completed s)\<rparr> else s)
           in set_cursor (min_opt (lowest us) (lo_min_failed s1)) s1))))))"

text \<open>The outputs of a page in order; \<open>False\<close> when the request's allowance stopped it.\<close>

primrec page_outputs :: "'w gasp_env \<Rightarrow> gasp_output list \<Rightarrow> ('w gsync, bool) act" where
  "page_outputs E [] = ok True"
| "page_outputs E (u # us) =
     seq (got (stopped E)) (\<lambda>stop.
       if stop then seq (upd (\<lambda>s. s\<lparr>lo_min_failed := min_opt (lo_min_failed s) (lowest (u # us))\<rparr>)) (\<lambda>_. ok False)
       else seq (page_output E u us) (\<lambda>_. page_outputs E us))"

definition close_page :: "'w gasp_env \<Rightarrow> ('w gsync, unit) act" where
  "close_page E =
     seq (\<lambda>s. (s\<lparr>page_floor := None\<rparr>, Ok (page_floor s))) (\<lambda>floor.
       case floor of
         None \<Rightarrow> ok ()
       | Some f \<Rightarrow>
           seq (inner (caught (io (st_close_page E)))) (\<lambda>r.
             case r of
               Inr _ \<Rightarrow> upd (\<lambda>s. s\<lparr>lo_page := []\<rparr>)
             | Inl e \<Rightarrow>
                 seq (upd (\<lambda>s. let c = min (completed_cursor s) f in s\<lparr>completed_cursor := c, last_interaction := c\<rparr>))
                   (\<lambda>_. err e)))"

definition fresh_outputs :: "'w gsync \<Rightarrow> gasp_output list \<Rightarrow> gasp_output list" where
  "fresh_outputs s us =
     filter (\<lambda>u. go_outpoint u \<notin> set (lo_known s) \<and> go_outpoint u \<notin> set (lo_shared s) \<and> go_outpoint u \<notin> set (lo_failed s)) us"

definition open_page :: "'w gasp_env \<Rightarrow> gasp_output list \<Rightarrow> ('w gsync, unit) act" where
  "open_page E us =
     (if hk_graph_completed E = None then ok ()
      else
        seq (upd (\<lambda>s. s\<lparr>page_floor := Some (completed_cursor s), lo_page := map served_as us, sy := (sy s)\<lparr>g_world := st_open_page E (g_world (sy s))\<rparr>\<rparr>)) (\<lambda>_.
        seq (got (\<lambda>s. map go_txid (fresh_outputs s us))) (\<lambda>roots.
          if roots = [] then ok () else ignored (sio (st_prefetch_page E roots)))))"

text \<open>A page that does not move the cursor is the last: whether it shows the tip.\<close>

definition probe_tip :: "'w gasp_env \<Rightarrow> gasp_output list \<Rightarrow> ('w gsync, unit) act" where
  "probe_tip E us =
     seq (got (\<lambda>s. lo_min_failed s = None \<and> (\<forall>u \<in> set us. go_outpoint u \<in> set (lo_shared s)))) (\<lambda>settled.
       if tm_request_stop E \<noteq> None \<and> settled \<and> us \<noteq> []
       then
         seq (got (\<lambda>s. (stopped E s, last_interaction s))) (\<lambda>(stop, last).
           if stop \<or> last = U64_MAX then ok ()
           else
             seq (sio (rm_get_initial_response E (last + 1))) (\<lambda>probe.
               upd (\<lambda>s. s\<lparr>page_count := page_count s + 1, page_reached_tip := (probe = [])\<rparr>)))
       else upd (\<lambda>s. s\<lparr>page_reached_tip := settled\<rparr>))"

definition page_memos :: "'w gasp_env \<Rightarrow> gasp_output list \<Rightarrow> ('w gsync, unit) act" where
  "page_memos E us =
     seq (got (\<lambda>s. filter (\<lambda>p. p \<notin> set (lo_known s)) (map go_outpoint us))) (\<lambda>asked.
     seq (inner (load_remembered_expired E asked)) (\<lambda>_.
     seq (sio (st_read_fault_memos E (Some (map go_outpoint us)))) (\<lambda>memos.
       upd (\<lambda>s. foldl (\<lambda>s m. page_memo us m s) s memos))))"

text \<open>One page of the loop; \<open>True\<close> when another is to be read.\<close>

definition page_round :: "'w gasp_env \<Rightarrow> ('w gsync, bool) act" where
  "page_round E =
     seq (got (\<lambda>s. (stopped E s, last_interaction s))) (\<lambda>(stop, since).
       if stop then ok False
       else
         seq (upd (\<lambda>s. set_cursor (lo_min_failed s) s)) (\<lambda>_.
         seq (sio (rm_get_initial_response E since)) (\<lambda>us.
         seq (upd (\<lambda>s. s\<lparr>page_count := page_count s + 1, lo_served := map served_as us @ lo_served s\<rparr>)) (\<lambda>_.
         seq (page_memos E us) (\<lambda>_.
         seq (upd (\<lambda>s. set_cursor (min_opt (lowest us) (lo_min_failed s)) s)) (\<lambda>_.
         seq (open_page E us) (\<lambda>_.
         seq (page_outputs E us) (\<lambda>whole.
           if \<not> whole then ok False
           else
             seq (close_page E) (\<lambda>_.
             seq (upd (\<lambda>s. s\<lparr>lo_completed := filter (\<lambda>x. completed_cursor s \<le> x) (lo_completed s)\<rparr>)) (\<lambda>_.
             seq (got last_interaction) (\<lambda>after.
               if after = since then seq (probe_tip E us) (\<lambda>_. ok False)
               else seq (upd (\<lambda>s. s\<lparr>page_advanced := True\<rparr>)) (\<lambda>_. ok (tm_request_stop E = None)))))))))))))"

subsection \<open>The loop of the pages\<close>

text \<open>
  Only the outputs of a page move \<open>last_interaction\<close> before the page is over, and only up to their scores: a page
  after which another is read moved it strictly, below the bound of a \<open>u64\<close>.
\<close>

definition on_last :: "(nat \<Rightarrow> bool) \<Rightarrow> 'w gsync \<Rightarrow> bool" where
  "on_last L s \<longleftrightarrow> L (last_interaction s)"

abbreviation rises :: "nat \<Rightarrow> 'w gsync \<Rightarrow> bool" where
  "rises since \<equiv> on_last (\<lambda>n. since \<le> n \<and> n \<le> max since U64_MAX)"

lemma keeps_inner: "(\<And>s g. P s \<Longrightarrow> P (s\<lparr>sy := g\<rparr>)) \<Longrightarrow> keeps P (inner m)"
  by (rule keepsI) (auto simp: inner_def split: prod.splits)

lemma last_simps [simp]:
  "last_interaction (hold_cursor sc p s) = last_interaction s" "last_interaction (release_hold p s) = last_interaction s"
  "last_interaction (fail sc p s) = last_interaction s" "last_interaction (share p s) = last_interaction s"
  "last_interaction (set_cursor x s) = last_interaction s" "last_interaction (reopen p s) = last_interaction s"
  "last_interaction (mark_deferred p s) = last_interaction s" "last_interaction (page_memo us m s) = last_interaction s"
  by (auto simp: hold_cursor_def release_hold_def fail_def share_def set_cursor_def reopen_def mark_deferred_def
      page_memo_def Let_def split: option.splits)

lemma rises_last: "last_interaction s' = last_interaction s \<Longrightarrow> on_last L s \<Longrightarrow> on_last L s'"
  by (simp add: on_last_def)

lemma rises_inner [keeps_rules]: "keeps (on_last L) (inner m)"
  by (rule keeps_inner) (simp add: on_last_def)

lemma rises_upd [keeps_rules]: "(\<And>s. last_interaction (f s) = last_interaction s) \<Longrightarrow> keeps (on_last L) (upd f)"
  by (rule keeps_upd) (rule rises_last)

lemma rises_score: "rises x s \<Longrightarrow> rises x (s\<lparr>last_interaction := max (last_interaction s) (go_u64 u)\<rparr>)"
  by (auto simp: on_last_def go_u64_def as_u64_def)

lemma rises_in_flight [keeps_rules]: "keeps (on_last L) (ingest_in_flight E u sc p)"
  unfolding ingest_in_flight_def by (intro keeps_rules) simp_all

lemma rises_score_changed [keeps_rules]: "keeps (on_last L) (score_changed E u)"
  unfolding score_changed_def Let_def by (auto split: option.splits intro!: keeps_rules)

lemma rises_page_new [keeps_rules]: "keeps (on_last L) (page_new E u us)"
  unfolding page_new_def Let_def by (auto split: sum.splits bool.splits intro!: keeps_rules)

lemma rises_page_output [keeps_rules]: "keeps (rises x) (page_output E u us)"
  unfolding page_output_def Let_def
  by (intro keeps_seq keeps_upd [of "rises x" "\<lambda>s. s\<lparr>last_interaction := max (last_interaction s) (go_u64 u)\<rparr>"])
     (auto simp: rises_score split: prod.splits intro!: keeps_rules, auto simp: on_last_def)

lemma rises_page_outputs [keeps_rules]: "keeps (rises x) (page_outputs E us)"
  by (induction us) (auto simp del: lowest.simps intro!: keeps_rules)

lemma rises_memos: "last_interaction (foldl (\<lambda>s m. page_memo us m s) s ms) = last_interaction s"
  by (induction ms arbitrary: s) simp_all

lemma rises_page_memos [keeps_rules]: "keeps (on_last L) (page_memos E us)"
  unfolding page_memos_def by (auto simp: rises_memos intro!: keeps_rules)

lemma rises_open_page [keeps_rules]: "keeps (on_last L) (open_page E us)"
  unfolding open_page_def by (auto intro!: keeps_rules)

lemma close_page_last: "close_page E s = (s', Ok ()) \<Longrightarrow> last_interaction s' = last_interaction s"
  by (auto simp: close_page_def seq_def inner_def caught_def split: option.splits prod.splits answer.splits sum.splits)

lemma page_round_rises:
  assumes "page_round E s = (s', Ok True)"
  shows "last_interaction s < last_interaction s'" "last_interaction s' \<le> U64_MAX"
proof -
  let ?x = "last_interaction s"
  obtain us s1 s2 s3 s4 s5 where
    r1: "sio (rm_get_initial_response E ?x) (set_cursor (lo_min_failed s) s) = (s1, Ok us)" and
    r2: "page_memos E us (s1\<lparr>page_count := page_count s1 + 1, lo_served := map served_as us @ lo_served s1\<rparr>)
      = (s2, Ok ())" and
    r3: "open_page E us (set_cursor (min_opt (lowest us) (lo_min_failed s2)) s2) = (s3, Ok ())" and
    r4: "page_outputs E us s3 = (s4, Ok True)" and
    r5: "close_page E s4 = (s5, Ok ())" and
    last: "last_interaction s' = last_interaction s5" "last_interaction s5 \<noteq> ?x"
    using assms by (auto simp: page_round_def elim!: seq_elim split: if_splits)
  have "last_interaction s1 = ?x" using keepsD [OF rises_inner [where L = "\<lambda>n. n = ?x"] r1] by (simp add: on_last_def)
  then have "last_interaction s2 = ?x" using keepsD [OF rises_page_memos [where L = "\<lambda>n. n = ?x"] r2] by (simp add: on_last_def)
  then have "last_interaction s3 = ?x" using keepsD [OF rises_open_page [where L = "\<lambda>n. n = ?x"] r3] by (simp add: on_last_def)
  then have "rises ?x s4" using keepsD [OF rises_page_outputs [of ?x] r4] by (simp add: on_last_def)
  with close_page_last [OF r5] last show "last_interaction s < last_interaction s'" "last_interaction s' \<le> U64_MAX"
    by (auto simp: on_last_def)
qed

lemma page_round_left:
  "page_round E s = (s', Ok True) \<Longrightarrow> U64_MAX - last_interaction s' < U64_MAX - last_interaction s"
  using page_round_rises by fastforce

function page_loop :: "'w gasp_env \<Rightarrow> 'w gsync \<Rightarrow> 'w gsync \<times> unit answer" where
  "page_loop E s =
     (case page_round E s of
        (s1, Ok True) \<Rightarrow> page_loop E s1
      | (s1, Ok False) \<Rightarrow> (s1, Ok ())
      | (s1, Err e) \<Rightarrow> (s1, Err e)
      | (s1, Cut_Node) \<Rightarrow> (s1, Cut_Node)
      | (s1, Cut_Sync) \<Rightarrow> (s1, Cut_Sync))"
  by pat_completeness auto

termination
  by (relation "measure (\<lambda>(E, s). U64_MAX - last_interaction s)") (auto dest: page_round_left [OF sym])

declare page_loop.simps [simp del]

subsection \<open>The sync\<close>

definition reset_gasp :: "'w gasp_env \<Rightarrow> 'w gasp \<Rightarrow> 'w gasp" where
  "reset_gasp E g =
     g\<lparr>g_pruned := [], g_absent := [], g_last_fault := None, g_root_expiries := [], g_fault_records := [], g_walk := None,
       g_deferred := [], g_held_records := 0, g_share_started := False, g_resume_left := gb_pass E\<rparr>"

definition reset_sync :: "'w gasp_env \<Rightarrow> 'w gsync \<Rightarrow> 'w gsync" where
  "reset_sync E s =
     s\<lparr>sy := reset_gasp E (sy s), completed_cursor := last_interaction s, cursor_held_by := None, in_flight := None,
       page_floor := None, page_count := 0, page_advanced := False, page_reached_tip := False,
       lo_known := [], lo_shared := [], lo_failed := [], lo_min_failed := None, lo_completed := [],
       lo_initial := last_interaction s, lo_held_scores := [], lo_local := [], lo_keys := [],
       lo_served := [], lo_page := []\<rparr>"

text \<open>The keys of the records held, the fault memos due among them, in the order of their scores.\<close>

definition load_keys :: "'w gasp_env \<Rightarrow> ('w gasp, deferred_graph_key list) act" where
  "load_keys E =
     seq (io (st_read_fault_memos E None)) (\<lambda>memos.
     seq (caught (io (st_load_deferred_graphs E))) (\<lambda>r.
     seq (case r of
            Inr keys \<Rightarrow>
              seq (upd (\<lambda>g. g\<lparr>g_held_records := length keys, g_deferred := foldr ins (map dk_outpoint keys) (g_deferred g)\<rparr>))
                (\<lambda>_. ok keys)
          | Inl _ \<Rightarrow> seq (upd (\<lambda>g. g\<lparr>g_held_records := DEFERRED_GRAPHS_PER_PEER_TOPIC\<rparr>)) (\<lambda>_. ok [])) (\<lambda>keys.
     seq (upd (\<lambda>g. g\<lparr>g_fault_records := foldr ins (map fm_outpoint memos) (g_fault_records g),
                   g_deferred := foldr ins (map fm_outpoint memos) (g_deferred g)\<rparr>)) (\<lambda>_.
       ok (sort_key (\<lambda>k. (dk_score k, dk_outpoint k))
            (foldl (\<lambda>ks m. filter (\<lambda>k. dk_outpoint k \<noteq> fm_outpoint m) ks
                            @ [\<lparr>dk_outpoint = fm_outpoint m, dk_score = fm_score m\<rparr>]) keys memos))))))"

definition start_share :: "'w gasp_env \<Rightarrow> deferred_graph_key list \<Rightarrow> ('w gasp, unit) act" where
  "start_share E keys =
     (if keys = [] then ok ()
      else case tm_share_due E of
             None \<Rightarrow> ok ()
           | Some due \<Rightarrow> seq (io due) (\<lambda>_. upd (\<lambda>g. g\<lparr>g_share_started := True\<rparr>)))"

primrec push_all :: "'w gasp_env \<Rightarrow> gasp_output list \<Rightarrow> ('w gsync, unit) act" where
  "push_all E [] = ok ()"
| "push_all E (u # us) =
     seq (got (\<lambda>s. go_outpoint u \<in> set (lo_shared s))) (\<lambda>shared.
     seq (if shared then ok () else inner (ignored (push_utxo E u))) (\<lambda>_. push_all E us))"

definition sync :: "'w gasp_env \<Rightarrow> ('w gsync, unit) act" where
  "sync E =
     seq (upd (reset_sync E)) (\<lambda>_.
     seq (inner (load_keys E)) (\<lambda>keys.
     seq (sio (st_find_known_utxos E)) (\<lambda>mine.
     seq (upd (\<lambda>s. s\<lparr>lo_known := map go_outpoint mine, lo_local := mine, lo_keys := map (\<lambda>k. (dk_outpoint k, dk_score k)) keys,
                   lo_held_scores := foldl (\<lambda>t k. tbl_insert (dk_outpoint k) (dk_score k) t) [] keys\<rparr>)) (\<lambda>_.
     seq (inner (load_remembered_expired E (map dk_outpoint keys))) (\<lambda>_.
     seq (inner (start_share E keys)) (\<lambda>_.
     seq (held_loop E keys) (\<lambda>_.
     seq (page_loop E) (\<lambda>_.
     seq (close_page E) (\<lambda>_.
     seq (upd (\<lambda>s. let s1 = set_cursor (lo_min_failed s) s in s1\<lparr>last_interaction := completed_cursor s1\<rparr>)) (\<lambda>_.
       if cf_unidirectional E then ok () else seq (got lo_local) (push_all E)))))))))))"

subsection \<open>A sync cut by the per-peer deadline\<close>

definition pass_in_flight :: "string \<Rightarrow> 'w gsync \<Rightarrow> 'w gsync" where
  "pass_in_flight p s = release_hold p (s\<lparr>completed_cursor := cursor_after_in_flight s\<rparr>)"

definition save_in_flight :: "'w gasp_env \<Rightarrow> ('w gsync, unit) act" where
  "save_in_flight E =
     seq (got (\<lambda>s. case g_walk (sy s) of None \<Rightarrow> [] | Some w \<Rightarrow> dg_outpoint (wk_record w))) (\<lambda>p.
     seq (inner (save_walk E ''peer_deadline'' False)) (\<lambda>saved.
       case saved of
         Save_Yes \<Rightarrow> upd (pass_in_flight p)
       | Save_Unkept why w \<Rightarrow> seq (inner (unkept E why w)) (\<lambda>_. ok ())
       | _ \<Rightarrow> ok ()))"

definition struck_in_hand :: "'w gasp \<Rightarrow> deferred_graph option" where
  "struck_in_hand g =
     (case g_walk g of
        None \<Rightarrow> None
      | Some w \<Rightarrow> (case wk_struck w of Some r \<Rightarrow> if is_unanchorable r then Some r else None | None \<Rightarrow> None))"

definition defer_in_flight :: "'w gasp_env \<Rightarrow> ('w gsync, unit) act" where
  "defer_in_flight E =
     seq (\<lambda>s. (s\<lparr>in_flight := None\<rparr>, Ok (in_flight s))) (\<lambda>fl.
     seq (got (\<lambda>s. case fl of None \<Rightarrow> False | Some (_, p) \<Rightarrow> p \<in> set (g_expired (sy s)))) (\<lambda>expired.
       if expired then seq (inner take_walk) (\<lambda>_. upd (pass_in_flight (snd (the fl))))
       else
         seq (got (\<lambda>s. (struck_in_hand (sy s), g_walk (sy s)))) (\<lambda>(struck, x).
           case struck of
             Some r \<Rightarrow>
               seq (inner take_walk) (\<lambda>_.
               seq (inner (ignored (keep_unanchorable E r))) (\<lambda>_. upd (pass_in_flight (dg_outpoint r))))
           | None \<Rightarrow>
               (case x of
                  Some _ \<Rightarrow> save_in_flight E
                | None \<Rightarrow>
                    (case fl of
                       None \<Rightarrow> ok ()
                     | Some (sc, p) \<Rightarrow> seq (inner (put_walk (fresh_walk sc p NO_CAP))) (\<lambda>_. save_in_flight E))))))"

text \<open>
  What \<open>Engine::start_gasp_sync\<close> persists after the sync of one peer under the per-peer budget: the page's writes
  still queued are written, else the page is lost; the cursor is the completed one at the deadline, at the
  floor of the page when that was lost, and \<open>last_interaction\<close> at the end; an error persists nothing. Every
  graph was submitted as it finalized.
\<close>

definition page_lost :: "'w gasp_env \<Rightarrow> ('w gsync, bool) act" where
  "page_lost E =
     seq (got (\<lambda>s. pb_pending E (g_world (sy s)))) (\<lambda>pending.
       if pending then seq (inner (caught (io (pb_flush E)))) (\<lambda>r. ok (isl r)) else ok False)"

definition peer_cursor :: "'w gasp_env \<Rightarrow> nat \<Rightarrow> unit answer \<Rightarrow> ('w gsync, nat option) act" where
  "peer_cursor E entry a =
     seq (page_lost E) (\<lambda>lost.
       case a of
         Ok _ \<Rightarrow> got (\<lambda>s. if entry < last_interaction s then Some (last_interaction s) else None)
       | Err _ \<Rightarrow> ok None
       | _ \<Rightarrow>
           seq (defer_in_flight E) (\<lambda>_.
             got (\<lambda>s.
               let completed = (case page_floor s of
                                  Some f \<Rightarrow> if lost then min (completed_cursor s) f else completed_cursor s
                                | None \<Rightarrow> completed_cursor s)
               in if entry < completed then Some completed else None)))"

definition sync_peer :: "'w gasp_env \<Rightarrow> ('w gsync, nat option) act" where
  "sync_peer E s = (case sync E s of (s1, a) \<Rightarrow> peer_cursor E (last_interaction s) a s1)"

end
