(* ===== verification/Gasp_Cursor.thy ===== *)
theory Gasp_Cursor
  imports Gasp_Sync
begin

text \<open>
  The cursor of a sync: wherever the sync of a peer stops (at its end, at an error, dropped by its deadline
  in the middle of any call), the cursor it may persist does not pass an output the peer served and the
  sync did not settle.

  A routine is judged by what holds when it answers and by what holds when it stops short (\<open>triple\<close>).
\<close>

definition triple :: "('g \<Rightarrow> bool) \<Rightarrow> ('g, 'a) act \<Rightarrow> ('a \<Rightarrow> 'g \<Rightarrow> bool) \<Rightarrow> ('g \<Rightarrow> bool) \<Rightarrow> bool" where
  "triple P m Q Z \<longleftrightarrow>
     (\<forall>s. P s \<longrightarrow> (case m s of (s', Ok x) \<Rightarrow> Q x s' | (s', _) \<Rightarrow> Z s'))"

named_theorems triple_rules \<open>the rules of triples\<close>

lemma tripleI:
  assumes "\<And>s s' x. P s \<Longrightarrow> m s = (s', Ok x) \<Longrightarrow> Q x s'"
    and "\<And>s s' a. P s \<Longrightarrow> m s = (s', a) \<Longrightarrow> (\<forall>x. a \<noteq> Ok x) \<Longrightarrow> Z s'"
  shows "triple P m Q Z"
  unfolding triple_def using assms by (auto split: prod.splits answer.splits)

lemma tripleD: "triple P m Q Z \<Longrightarrow> P s \<Longrightarrow> m s = (s', Ok x) \<Longrightarrow> Q x s'"
  by (auto simp: triple_def)

lemma tripleZ: "triple P m Q Z \<Longrightarrow> P s \<Longrightarrow> m s = (s', a) \<Longrightarrow> (\<And>x. a \<noteq> Ok x) \<Longrightarrow> Z s'"
  by (cases a) (auto simp: triple_def split: answer.splits)

lemma triple_any: "triple P m (\<lambda>_. Z) Z \<Longrightarrow> P s \<Longrightarrow> Z (fst (m s))"
  by (cases "m s"; cases "snd (m s)") (auto simp: triple_def)

lemma triple_seq [triple_rules]: "triple P m R Z \<Longrightarrow> (\<And>x. triple (R x) (k x) Q Z) \<Longrightarrow> triple P (seq m k) Q Z"
  by (fastforce simp: triple_def seq_def split: prod.splits answer.splits)

lemma triple_ok: "(\<And>s. P s \<Longrightarrow> Q x s) \<Longrightarrow> triple P (ok x) Q Z"
  by (auto simp: triple_def)

lemma triple_err: "(\<And>s. P s \<Longrightarrow> Z s) \<Longrightarrow> triple P (err e) Q Z"
  by (auto simp: triple_def)

lemma triple_upd: "(\<And>s. P s \<Longrightarrow> Q () (f s)) \<Longrightarrow> triple P (upd f) Q Z"
  by (auto simp: triple_def)

lemma triple_got: "triple P (got f) (\<lambda>x s. P s \<and> x = f s) Z"
  by (auto simp: triple_def)

lemma triple_if: "(b \<Longrightarrow> triple P m Q Z) \<Longrightarrow> (\<not> b \<Longrightarrow> triple P n Q Z) \<Longrightarrow> triple P (if b then m else n) Q Z"
  by simp

lemma triple_weaken: "triple P' m Q' Z' \<Longrightarrow> (\<And>s. P s \<Longrightarrow> P' s) \<Longrightarrow> (\<And>x s. Q' x s \<Longrightarrow> Q x s)
    \<Longrightarrow> (\<And>s. Z' s \<Longrightarrow> Z s) \<Longrightarrow> triple P m Q Z"
  by (fastforce simp: triple_def split: prod.splits answer.splits)

lemma triple_keeps: "keeps P m \<Longrightarrow> (\<And>s. P s \<Longrightarrow> Z s) \<Longrightarrow> triple P m (\<lambda>_. P) Z"
  by (rule tripleI) (auto dest: keepsD)

subsection \<open>What the cursor must not pass\<close>

text \<open>The scores the peer gave an outpoint: on a page of this run, or when its record was made.\<close>

definition scored :: "'w gsync \<Rightarrow> string \<Rightarrow> nat \<Rightarrow> bool" where
  "scored s q x \<longleftrightarrow> (q, x) \<in> set (lo_served s) \<union> set (lo_keys s)"

text \<open>An output is not lost at a cursor: it is settled, or the peer serves it again from there.\<close>

definition not_lost :: "nat \<Rightarrow> 'w gsync \<Rightarrow> string \<Rightarrow> bool" where
  "not_lost c s q \<longleftrightarrow> q \<in> set (lo_shared s) \<or> (\<exists>x. scored s q x \<and> (x < lo_initial s \<or> c \<le> x))"

definition cursor_safe :: "nat \<Rightarrow> 'w gsync \<Rightarrow> bool" where
  "cursor_safe c s \<longleftrightarrow> lo_initial s \<le> c \<and> (\<forall>(q, x) \<in> set (lo_served s). not_lost c s q)"

text \<open>A gap holds an outpoint: its score is at or above the lowest failed one.\<close>

definition gapped :: "'w gsync \<Rightarrow> string \<Rightarrow> bool" where
  "gapped s q \<longleftrightarrow> (\<exists>x. scored s q x \<and> (x < lo_initial s \<or> (\<exists>m. lo_min_failed s = Some m \<and> m \<le> x)))"

definition below :: "nat \<Rightarrow> nat option \<Rightarrow> 'w gsync \<Rightarrow> bool" where
  "below c unfinished s \<longleftrightarrow> lo_initial s \<le> c \<and> (c = lo_initial s \<or> (\<forall>l. unfinished = Some l \<longrightarrow> c < l))"

text \<open>The state of a page with the outputs \<open>us\<close> still to come.\<close>

definition page_rest :: "gasp_output list \<Rightarrow> 'w gsync \<Rightarrow> bool" where
  "page_rest us s \<longleftrightarrow>
     (\<forall>(q, x) \<in> set (lo_served s). q \<in> set (lo_shared s) \<or> q \<in> go_outpoint ` set us \<or> gapped s q)
     \<and> (\<forall>q \<in> set (lo_failed s). gapped s q)
     \<and> (\<forall>u \<in> set us. served_as u \<in> set (lo_served s))"

definition page_inv :: "gasp_output list \<Rightarrow> 'w gsync \<Rightarrow> bool" where
  "page_inv us s \<longleftrightarrow> below (completed_cursor s) (min_opt (lowest us) (lo_min_failed s)) s \<and> page_rest us s"

text \<open>
  Between the answer of a page and the hold below its outputs: the peer serves from the cursor asked for,
  which is not below the completed one.
\<close>

definition page_came :: "gasp_output list \<Rightarrow> 'w gsync \<Rightarrow> bool" where
  "page_came us s \<longleftrightarrow>
     below (completed_cursor s) (lo_min_failed s) s \<and> (\<forall>u \<in> set us. completed_cursor s \<le> go_u64 u) \<and> page_rest us s"

lemma lowest_le: "u \<in> set us \<Longrightarrow> \<exists>l. lowest us = Some l \<and> l \<le> go_u64 u"
  by (induction us) (auto simp: min_opt_def split: option.splits)

lemma min_opt_le: "min_opt x y = Some m \<Longrightarrow> (x = Some a \<or> y = Some a) \<Longrightarrow> m \<le> a"
  by (auto simp: min_opt_def split: option.splits)

lemma min_opt_None [simp]: "min_opt x y = None \<longleftrightarrow> x = None \<and> y = None"
  by (auto simp: min_opt_def split: option.splits)

lemma below_mono:
  assumes "below c x s" "\<And>l. y = Some l \<Longrightarrow> \<exists>m. x = Some m \<and> m \<le> l" "lo_initial s' = lo_initial s"
  shows "below c y s'"
  using assms unfolding below_def by fastforce

lemma below_cursor:
  assumes "completed_cursor s = cursor_for_completed (lo_completed s) x (lo_initial s)"
  shows "below (completed_cursor s) x s"
proof -
  let ?b = "filter (\<lambda>y. case x of None \<Rightarrow> True | Some l \<Rightarrow> y < l) (lo_completed s)"
  have "?b \<noteq> [] \<Longrightarrow> Max (set ?b) \<in> set ?b" by (metis List.finite_set Max_in set_empty)
  then show ?thesis using assms unfolding below_def cursor_for_completed_def Let_def
    by (auto simp: max_def split: if_splits)
qed

lemma rest_safe:
  assumes rest: "page_rest us s" and b: "below (completed_cursor s) (lo_min_failed s) s"
    and ahead: "\<And>u. u \<in> set us \<Longrightarrow> go_u64 u < lo_initial s \<or> completed_cursor s \<le> go_u64 u"
  shows "cursor_safe (completed_cursor s) s"
  unfolding cursor_safe_def
proof (intro conjI ballI, unfold split_paired_all split)
  show "lo_initial s \<le> completed_cursor s" using b by (auto simp: below_def)
  fix q x
  assume qx: "(q, x) \<in> set (lo_served s)"
  from rest qx consider "q \<in> set (lo_shared s)" | u where "u \<in> set us" "q = go_outpoint u" | "gapped s q"
    by (auto simp: page_rest_def)
  then show "not_lost (completed_cursor s) s q"
  proof cases
    case (2 u)
    then have "scored s q (go_u64 u)" using rest by (simp add: scored_def page_rest_def served_as_def)
    with ahead [OF 2(1)] show ?thesis by (auto simp: not_lost_def)
  next
    case 3
    then obtain y where y: "scored s q y" "y < lo_initial s \<or> (\<exists>m. lo_min_failed s = Some m \<and> m \<le> y)"
      by (auto simp: gapped_def)
    then have "y < lo_initial s \<or> completed_cursor s \<le> y" using b by (fastforce simp: below_def)
    with y(1) show ?thesis by (auto simp: not_lost_def)
  qed (simp add: not_lost_def)
qed

lemma page_inv_safe:
  assumes "page_inv us s"
  shows "cursor_safe (completed_cursor s) s"
proof (rule rest_safe [of us])
  have b: "below (completed_cursor s) (min_opt (lowest us) (lo_min_failed s)) s" using assms by (simp add: page_inv_def)
  then show "below (completed_cursor s) (lo_min_failed s) s"
    by (rule below_mono) (auto simp: min_opt_def split: option.splits)
  fix u
  assume "u \<in> set us"
  from lowest_le [OF this] b show "go_u64 u < lo_initial s \<or> completed_cursor s \<le> go_u64 u"
    by (fastforce simp: below_def min_opt_def split: option.splits)
qed (use assms in \<open>simp add: page_inv_def\<close>)

lemma page_came_safe: "page_came us s \<Longrightarrow> cursor_safe (completed_cursor s) s"
  by (rule rest_safe [of us]) (auto simp: page_came_def)

subsection \<open>What a page does to the cursor\<close>

lemmas inv_defs = page_inv_def page_came_def page_rest_def below_def gapped_def scored_def

lemma page_inv_frame [simp]:
  "page_inv us (s\<lparr>sy := g\<rparr>) = page_inv us s" "page_inv us (s\<lparr>last_interaction := n\<rparr>) = page_inv us s"
  "page_inv us (s\<lparr>in_flight := x\<rparr>) = page_inv us s" "page_inv us (s\<lparr>cursor_after_in_flight := n\<rparr>) = page_inv us s"
  "page_inv us (s\<lparr>cursor_held_by := y\<rparr>) = page_inv us s" "page_inv us (s\<lparr>lo_known := l\<rparr>) = page_inv us s"
  "page_inv us (s\<lparr>lo_completed := k\<rparr>) = page_inv us s" "page_inv us (s\<lparr>page_advanced := b\<rparr>) = page_inv us s"
  "page_inv us (s\<lparr>page_count := n\<rparr>) = page_inv us s" "page_inv us (s\<lparr>page_reached_tip := b\<rparr>) = page_inv us s"
  "page_inv us (s\<lparr>page_floor := z\<rparr>) = page_inv us s" "page_inv us (s\<lparr>lo_page := v\<rparr>) = page_inv us s"
  by (simp_all add: inv_defs)

lemma page_inv_hold [simp]: "page_inv us (hold_cursor sc p s) = page_inv us s" "page_inv us (release_hold p s) = page_inv us s"
  "page_inv us (mark_deferred p s) = page_inv us s"
  by (auto simp: hold_cursor_def release_hold_def mark_deferred_def split: option.splits)

lemma page_inv_share: "page_inv us s \<Longrightarrow> page_inv us (share p s)"
  by (auto simp: inv_defs share_def)

lemma page_inv_reopen: "page_inv us s \<Longrightarrow> p \<in> go_outpoint ` set us \<Longrightarrow> page_inv us (reopen p s)"
  by (auto simp: inv_defs reopen_def)

lemma page_inv_cursor: "page_rest us s \<Longrightarrow> page_inv us (set_cursor (min_opt (lowest us) (lo_min_failed s)) s)"
  using below_cursor [of "set_cursor (min_opt (lowest us) (lo_min_failed s)) s" "min_opt (lowest us) (lo_min_failed s)"]
  by (auto simp: page_inv_def page_rest_def set_cursor_def gapped_def scored_def)

lemma page_inv_done:
  assumes "page_inv (u # us) s" "go_outpoint u \<in> set (lo_shared s) \<or> gapped s (go_outpoint u)"
  shows "page_inv us s"
proof -
  have "below (completed_cursor s) (min_opt (lowest us) (lo_min_failed s)) s"
    by (rule below_mono [of _ "min_opt (lowest (u # us)) (lo_min_failed s)"])
       (use assms(1) in \<open>auto simp: page_inv_def min_opt_def split: option.splits\<close>)
  with assms show ?thesis by (auto simp: page_inv_def page_rest_def)
qed

lemma page_inv_fail:
  assumes "page_inv (u # us) s"
  shows "page_inv (u # us) (fail (go_u64 u) (go_outpoint u) s)" "gapped (fail (go_u64 u) (go_outpoint u) s) (go_outpoint u)"
proof -
  let ?s = "fail (go_u64 u) (go_outpoint u) s"
  have served: "(go_outpoint u, go_u64 u) \<in> set (lo_served s)" using assms by (simp add: page_inv_def page_rest_def served_as_def)
  then show g: "gapped ?s (go_outpoint u)"
    by (auto simp: gapped_def scored_def fail_def min_opt_def split: option.splits)
  have mono: "gapped s q \<Longrightarrow> gapped ?s q" for q
    by (fastforce simp: gapped_def scored_def fail_def min_opt_def split: option.splits)
  have "below (completed_cursor s) (min_opt (lowest (u # us)) (lo_min_failed ?s)) ?s"
    by (rule below_mono [of _ "min_opt (lowest (u # us)) (lo_min_failed s)" s])
       (use assms in \<open>auto simp: page_inv_def fail_def min_opt_def split: option.splits\<close>)
  with assms g mono show "page_inv (u # us) ?s" by (auto simp: page_inv_def page_rest_def fail_def)
qed

lemma page_inv_stop:
  assumes "page_inv us s"
  shows "page_inv [] (s\<lparr>lo_min_failed := min_opt (lo_min_failed s) (lowest us)\<rparr>)"
proof -
  let ?s = "s\<lparr>lo_min_failed := min_opt (lo_min_failed s) (lowest us)\<rparr>"
  have mono: "gapped s q \<Longrightarrow> gapped ?s q" for q
    by (fastforce simp: gapped_def scored_def min_opt_def split: option.splits)
  have rest: "gapped ?s (go_outpoint u)" if "u \<in> set us" for u
    using lowest_le [OF that] assms that
    by (fastforce simp: gapped_def scored_def page_inv_def page_rest_def served_as_def min_opt_def split: option.splits)
  have "below (completed_cursor s) (min_opt (lowest []) (lo_min_failed ?s)) ?s"
    by (rule below_mono [of _ "min_opt (lowest us) (lo_min_failed s)" s])
       (use assms in \<open>auto simp: page_inv_def min_opt_def split: option.splits\<close>)
  with assms mono rest show ?thesis by (auto simp: page_inv_def page_rest_def)
qed

subsection \<open>The state of the whole sync\<close>

text \<open>
  The floor of an open page is below every output of it; the completed scores and the cursors do not pass
  \<open>last_interaction\<close>.
\<close>

definition floor_ok :: "'w gsync \<Rightarrow> bool" where
  "floor_ok s \<longleftrightarrow>
     (\<forall>f. page_floor s = Some f \<longrightarrow> lo_initial s \<le> f \<and> (\<forall>(q, x) \<in> set (lo_page s). x < lo_initial s \<or> f \<le> x))"

definition leads :: "nat \<Rightarrow> 'w gsync \<Rightarrow> bool" where
  "leads e s \<longleftrightarrow> lo_initial s = e \<and> (\<forall>x \<in> set (lo_completed s). x \<le> last_interaction s) \<and> lo_initial s \<le> last_interaction s"

definition stop_ok :: "nat \<Rightarrow> 'w gsync \<Rightarrow> bool" where
  "stop_ok e s \<longleftrightarrow> lo_initial s = e \<and> cursor_safe (completed_cursor s) s \<and> floor_ok s"

definition page_at :: "nat \<Rightarrow> gasp_output list \<Rightarrow> 'w gsync \<Rightarrow> bool" where
  "page_at e us s \<longleftrightarrow> page_inv us s \<and> floor_ok s \<and> leads e s"

lemma page_at_stop: "page_at e us s \<Longrightarrow> stop_ok e s"
  by (auto simp: page_at_def stop_ok_def page_inv_safe leads_def)

lemma same_rest_frame [simp]:
  "floor_ok (s\<lparr>sy := g\<rparr>) = floor_ok s" "leads e (s\<lparr>sy := g\<rparr>) = leads e s"
  "floor_ok (s\<lparr>in_flight := x\<rparr>) = floor_ok s" "leads e (s\<lparr>in_flight := x\<rparr>) = leads e s"
  "floor_ok (s\<lparr>cursor_after_in_flight := n\<rparr>) = floor_ok s" "leads e (s\<lparr>cursor_after_in_flight := n\<rparr>) = leads e s"
  "floor_ok (s\<lparr>cursor_held_by := y\<rparr>) = floor_ok s" "leads e (s\<lparr>cursor_held_by := y\<rparr>) = leads e s"
  "floor_ok (s\<lparr>lo_known := l\<rparr>) = floor_ok s" "leads e (s\<lparr>lo_known := l\<rparr>) = leads e s"
  "floor_ok (s\<lparr>lo_min_failed := m\<rparr>) = floor_ok s" "leads e (s\<lparr>lo_min_failed := m\<rparr>) = leads e s"
  "floor_ok (s\<lparr>lo_completed := k\<rparr>) = floor_ok s"
  "floor_ok (s\<lparr>last_interaction := n\<rparr>) = floor_ok s"
  "floor_ok (s\<lparr>page_count := n\<rparr>) = floor_ok s" "leads e (s\<lparr>page_count := n\<rparr>) = leads e s"
  "floor_ok (s\<lparr>page_advanced := b\<rparr>) = floor_ok s" "leads e (s\<lparr>page_advanced := b\<rparr>) = leads e s"
  "floor_ok (s\<lparr>page_reached_tip := b\<rparr>) = floor_ok s" "leads e (s\<lparr>page_reached_tip := b\<rparr>) = leads e s"
  "leads e (s\<lparr>page_floor := z\<rparr>) = leads e s" "leads e (s\<lparr>lo_page := v\<rparr>) = leads e s"
  "floor_ok (s\<lparr>lo_shared := l\<rparr>) = floor_ok s" "leads e (s\<lparr>lo_shared := l\<rparr>) = leads e s"
  "floor_ok (s\<lparr>lo_failed := l\<rparr>) = floor_ok s" "leads e (s\<lparr>lo_failed := l\<rparr>) = leads e s"
  "floor_ok (s\<lparr>completed_cursor := n\<rparr>) = floor_ok s" "leads e (s\<lparr>completed_cursor := n\<rparr>) = leads e s"
  "floor_ok (s\<lparr>lo_served := w\<rparr>) = floor_ok s" "leads e (s\<lparr>lo_served := w\<rparr>) = leads e s"
  by (simp_all add: floor_ok_def leads_def)

lemma same_rest_ops [simp]:
  "floor_ok (hold_cursor sc p s) = floor_ok s" "leads e (hold_cursor sc p s) = leads e s"
  "floor_ok (release_hold p s) = floor_ok s" "leads e (release_hold p s) = leads e s"
  "floor_ok (share p s) = floor_ok s" "leads e (share p s) = leads e s"
  "floor_ok (fail sc p s) = floor_ok s" "leads e (fail sc p s) = leads e s"
  "floor_ok (reopen p s) = floor_ok s" "leads e (reopen p s) = leads e s"
  "floor_ok (mark_deferred p s) = floor_ok s" "leads e (mark_deferred p s) = leads e s"
  "floor_ok (set_cursor x s) = floor_ok s" "leads e (set_cursor x s) = leads e s"
  by (auto simp: hold_cursor_def release_hold_def share_def fail_def reopen_def mark_deferred_def set_cursor_def
      split: option.splits)

lemma page_at_keeps: "keeps (page_at e us) m \<Longrightarrow> triple (page_at e us) m (\<lambda>_. page_at e us) (stop_ok e)"
  by (rule triple_keeps) (auto simp: page_at_stop)

lemma page_at_inner [keeps_rules]: "keeps (page_at e us) (inner m)"
  by (rule keeps_inner) (simp add: page_at_def)

lemma page_at_in_flight [keeps_rules]: "keeps (page_at e us) (ingest_in_flight E u sc p)"
  unfolding ingest_in_flight_def by (intro keeps_rules) (auto simp: page_at_def)

text \<open>The output in hand is done with: settled, or held by a gap.\<close>

definition handled :: "nat \<Rightarrow> gasp_output \<Rightarrow> gasp_output list \<Rightarrow> 'w gsync \<Rightarrow> bool" where
  "handled e u us s \<longleftrightarrow>
     page_at e (u # us) s \<and> (go_outpoint u \<in> set (lo_shared s) \<or> gapped s (go_outpoint u))"

lemma handled_share: "page_at e (u # us) s \<Longrightarrow> handled e u us (share (go_outpoint u) (release_hold (go_outpoint u) s))"
  by (auto simp: handled_def page_at_def page_inv_share) (simp add: share_def)

lemma handled_fail: "page_at e (u # us) s \<Longrightarrow> handled e u us (fail (go_u64 u) (go_outpoint u) s)"
  by (auto simp: handled_def page_at_def page_inv_fail)

lemma page_at_cursor: "page_at e us s \<Longrightarrow> page_at e us (set_cursor (min_opt (lowest us) (lo_min_failed s)) s)"
  by (auto simp: page_at_def page_inv_def [of _ s] page_inv_cursor)

lemma page_at_new: "triple (page_at e (u # us)) (page_new E u us) (\<lambda>_. handled e u us) (stop_ok e)"
proof -
  have fault: "triple (page_at e (u # us))
      (seq (got (\<lambda>s. case lo_min_failed s of None \<Rightarrow> True | Some m \<Rightarrow> go_u64 u < m)) (\<lambda>low.
       seq (inner (strike_fresh E (go_u64 u) (go_outpoint u) low)) (\<lambda>held.
         upd (if held then (\<lambda>s. share (go_outpoint u) (release_hold (go_outpoint u) s)) else fail (go_u64 u) (go_outpoint u)))))
      (\<lambda>_. handled e u us) (stop_ok e)"
    by (intro triple_seq [OF page_at_keeps] keeps_rules triple_upd) (auto simp: handled_share handled_fail)
  show ?thesis unfolding page_new_def Let_def
    by (intro triple_seq [where R = "\<lambda>_. page_at e (u # us)"] page_at_keeps keeps_rules)
       (auto simp: page_at_cursor simp del: lowest.simps split: sum.split bool.split
         intro!: fault triple_upd handled_share handled_fail, simp add: page_at_def)
qed

lemma page_at_score_changed [keeps_rules]: "keeps (page_at e (u # us)) (score_changed E u)"
  unfolding score_changed_def Let_def
  by (auto split: option.splits intro!: keeps_rules) (auto simp: page_at_def page_inv_reopen)

lemma page_at_done: "handled e u us s \<Longrightarrow> page_at e us s"
  by (auto simp: handled_def page_at_def intro: page_inv_done)

lemma triple_conj: "triple P m Q Z \<Longrightarrow> keeps K m \<Longrightarrow> triple (\<lambda>s. P s \<and> K s) m (\<lambda>x s. Q x s \<and> K s) Z"
  by (fastforce simp: triple_def keeps_def split: prod.splits answer.splits)

lemma page_at_completed:
  assumes "handled e u us s" "go_u64 u \<le> last_interaction s"
  shows "page_at e us (let s1 = (if go_outpoint u \<in> set (lo_shared s) then s\<lparr>lo_completed := ins (go_u64 u) (lo_completed s)\<rparr> else s)
           in set_cursor (min_opt (lowest us) (lo_min_failed s1)) s1)"
proof -
  let ?s1 = "if go_outpoint u \<in> set (lo_shared s) then s\<lparr>lo_completed := ins (go_u64 u) (lo_completed s)\<rparr> else s"
  have "page_at e us ?s1" using page_at_done [OF assms(1)] assms(2) by (auto simp: page_at_def leads_def)
  from page_at_cursor [OF this] show ?thesis by (simp add: Let_def)
qed

lemma page_at_output: "triple (page_at e (u # us)) (page_output E u us) (\<lambda>_. page_at e us) (stop_ok e)"
proof -
  let ?K = "on_last (\<lambda>n. go_u64 u \<le> n)" and ?p = "go_outpoint u"
  let ?P = "\<lambda>s. page_at e (u # us) s \<and> ?K s" and ?H = "\<lambda>_ s. handled e u us s \<and> ?K s"
  have new: "triple ?P (page_new E u us) ?H (stop_ok e)" by (rule triple_conj [OF page_at_new]) (intro keeps_rules)
  have known: "triple ?P (seq (if deferred then inner (drop_held E ?p) else ok ()) (\<lambda>_.
      upd (\<lambda>s. (share ?p s)\<lparr>lo_known := del ?p (lo_known s)\<rparr>))) ?H (stop_ok e)" for deferred
  proof (rule triple_seq [where R = "\<lambda>_. ?P"])
    show "triple ?P (if deferred then inner (drop_held E ?p) else ok ()) (\<lambda>_. ?P) (stop_ok e)"
      by (intro triple_conj page_at_keeps keeps_rules)
    have "page_at e (u # us) s \<Longrightarrow> handled e u us ((share ?p s)\<lparr>lo_known := del ?p (lo_known s)\<rparr>)" for s :: "'b gsync"
      by (auto simp: handled_def page_at_def page_inv_share) (simp add: share_def)
    then show "triple ?P (upd (\<lambda>s. (share ?p s)\<lparr>lo_known := del ?p (lo_known s)\<rparr>)) ?H (stop_ok e)" for x :: unit
      by (intro triple_upd) (auto simp: on_last_def)
  qed
  have seen: "?P s \<Longrightarrow> ?p \<in> set (lo_shared s) \<or> ?p \<in> set (lo_failed s) \<Longrightarrow> ?H x s" for s :: "'b gsync" and x :: unit
    by (auto simp: handled_def page_at_def page_inv_def page_rest_def)
  show ?thesis unfolding page_output_def Let_def
    apply (rule triple_seq [OF triple_upd, where R = "\<lambda>_. ?P"], simp add: page_at_def leads_def on_last_def le_max_iff_disj)
    apply (rule triple_seq [where R = "\<lambda>_. ?P"], intro triple_conj page_at_keeps keeps_rules)
    apply (rule triple_seq [OF triple_got])
    apply (unfold split_paired_all split)
    apply (rule triple_seq [where R = ?H])
     apply (intro triple_if)
    apply (rule triple_weaken [OF known]; simp)
      apply (rule triple_ok, rule seen; simp)
     apply (rule triple_weaken [OF new]; simp)
    apply (rule triple_upd, rule page_at_completed [unfolded Let_def]; simp add: on_last_def)
    done
qed

lemma page_at_outputs: "triple (page_at e us) (page_outputs E us) (\<lambda>_. page_at e []) (stop_ok e)"
proof (induction us)
  case Nil
  then show ?case unfolding page_outputs.simps by (rule triple_ok)
next
  case (Cons u us)
  have stop: "page_at e (u # us) s \<Longrightarrow> page_at e [] (s\<lparr>lo_min_failed := min_opt (lo_min_failed s) (lowest (u # us))\<rparr>)" for s :: "'a gsync"
    using page_inv_stop [of "u # us" s] by (simp add: page_at_def)
  show ?case unfolding page_outputs.simps
    by (intro triple_seq [OF page_at_keeps] triple_if keeps_rules triple_seq [OF triple_upd] triple_ok
        triple_seq [OF page_at_output] Cons.IH) (auto simp: stop simp del: lowest.simps)
qed

subsection \<open>The page loop\<close>

text \<open>The peer serves its outputs from the score asked for on (the responder's \<open>score >= since\<close>).\<close>

definition serves_from :: "'w gasp_env \<Rightarrow> bool" where
  "serves_from E \<longleftrightarrow>
     (\<forall>since w w' us. rm_get_initial_response E since w = (w', Ok us) \<longrightarrow> (\<forall>u \<in> set us. since \<le> go_u64 u))"

definition came_at :: "nat \<Rightarrow> gasp_output list \<Rightarrow> 'w gsync \<Rightarrow> bool" where
  "came_at e us s \<longleftrightarrow> page_came us s \<and> floor_ok s \<and> leads e s"

lemma came_at_keeps: "keeps (came_at e us) m \<Longrightarrow> triple (came_at e us) m (\<lambda>_. came_at e us) (stop_ok e)"
  by (rule triple_keeps) (auto simp: came_at_def stop_ok_def leads_def page_came_safe)

lemma came_at_inner [keeps_rules]: "keeps (came_at e us) (inner m)"
  by (rule keeps_inner) (simp add: came_at_def inv_defs)

lemma came_at_sy [simp]: "came_at e us (s\<lparr>sy := g\<rparr>) = came_at e us s" "came_at e us (mark_deferred p s) = came_at e us s"
  by (simp_all add: came_at_def mark_deferred_def inv_defs)

lemma came_at_reopen: "came_at e us s \<Longrightarrow> p \<in> go_outpoint ` set us \<Longrightarrow> came_at e us (reopen p s)"
  by (auto simp: came_at_def reopen_def inv_defs)

lemma came_at_memo:
  assumes "came_at e us s"
  shows "came_at e us (page_memo us m s)"
proof (cases "\<exists>u \<in> set us. go_outpoint u = fm_outpoint m \<and> go_u64 u \<noteq> fm_score m")
  case True
  then have "fm_outpoint m \<in> go_outpoint ` set us" by force
  with assms show ?thesis by (auto simp: page_memo_def Let_def came_at_reopen)
qed (use assms in \<open>auto simp: page_memo_def Let_def\<close>)

lemma came_at_memos: "came_at e us s \<Longrightarrow> came_at e us (foldl (\<lambda>s m. page_memo us m s) s ms)"
  by (induction ms arbitrary: s) (auto intro: came_at_memo)

lemma came_at_page_memos [keeps_rules]: "keeps (came_at e us) (page_memos E us)"
  unfolding page_memos_def by (intro keeps_rules) (rule came_at_memos)

lemma cursor_leads: "leads e s \<Longrightarrow> completed_cursor (set_cursor x s) \<le> last_interaction s"
proof -
  assume l: "leads e s"
  let ?b = "filter (\<lambda>y. case x of None \<Rightarrow> True | Some n \<Rightarrow> y < n) (lo_completed s)"
  have "?b \<noteq> [] \<Longrightarrow> Max (set ?b) \<in> set ?b" by (metis List.finite_set Max_in set_empty)
  then show ?thesis using l by (auto simp: set_cursor_def cursor_for_completed_def leads_def Let_def)
qed

lemma came_at_response:
  assumes "page_at e [] s" "completed_cursor s \<le> n" "\<And>u. u \<in> set us \<Longrightarrow> n \<le> go_u64 u"
  shows "came_at e us (s\<lparr>page_count := k, lo_served := map served_as us @ lo_served s\<rparr>)"
proof -
  let ?s = "s\<lparr>page_count := k, lo_served := map served_as us @ lo_served s\<rparr>"
  have mono: "gapped s q \<Longrightarrow> gapped ?s q" for q by (fastforce simp: gapped_def scored_def)
  have "page_rest us ?s" using assms(1) mono
    by (auto simp: page_at_def page_inv_def page_rest_def served_as_def)
  moreover have "below (completed_cursor s) (lo_min_failed s) ?s"
    using assms(1) by (auto simp: page_at_def page_inv_def below_def min_opt_def)
  ultimately show ?thesis using assms by (fastforce simp: came_at_def page_came_def page_at_def)
qed

lemma page_at_opened: "came_at e us s \<Longrightarrow> page_at e us (set_cursor (min_opt (lowest us) (lo_min_failed s)) s)"
  by (auto simp: came_at_def page_at_def page_came_def page_inv_cursor)

lemma page_inv_ahead:
  assumes "page_inv us s" "u \<in> set us"
  shows "go_u64 u < lo_initial s \<or> completed_cursor s \<le> go_u64 u"
  using lowest_le [OF assms(2)] assms(1)
  by (fastforce simp: page_inv_def below_def min_opt_def split: option.splits)

lemma page_at_open_page [keeps_rules]: "keeps (page_at e us) (open_page E us)"
  unfolding open_page_def
proof (intro keeps_rules)
  fix s :: "'a gsync"
  assume "page_at e us s"
  then show "page_at e us (s\<lparr>page_floor := Some (completed_cursor s), lo_page := map served_as us,
      sy := (sy s)\<lparr>g_world := st_open_page E (g_world (sy s))\<rparr>\<rparr>)"
    using page_inv_ahead [of us s] page_inv_safe [of us s]
    by (auto simp: page_at_def floor_ok_def served_as_def leads_def cursor_safe_def)
qed

lemma not_lost_mono: "not_lost c s q \<Longrightarrow> d \<le> c \<Longrightarrow> not_lost d s q"
  unfolding not_lost_def by (meson le_trans)

lemma page_at_close_page:
  fixes E :: "'w gasp_env"
  shows "triple (page_at e []) (close_page E) (\<lambda>_. page_at e []) (stop_ok e)"
proof -
  let ?P = "\<lambda>x (s :: 'w gsync). page_at e [] s \<and> page_floor s = None \<and> (\<forall>f. x = Some f \<longrightarrow> e \<le> f)"
  have take: "triple (page_at e []) (\<lambda>s. (s\<lparr>page_floor := None\<rparr>, Ok (page_floor s))) ?P (stop_ok e)"
    by (auto simp: triple_def page_at_def floor_ok_def leads_def)
  have io: "triple (?P x) (inner m) (\<lambda>_. ?P x) (stop_ok e)" for x and m :: "('w gasp, 'b) act"
    by (rule triple_keeps [OF keeps_inner]) (auto simp: page_at_def stop_ok_def leads_def page_inv_safe)
  have lower: "stop_ok e (let c = min (completed_cursor s) f in s\<lparr>completed_cursor := c, last_interaction := c\<rparr>)"
    if "?P (Some f) s" for f and s :: "'w gsync"
  proof -
    have "cursor_safe (completed_cursor s) s" "lo_initial s = e" "e \<le> f"
      using that by (auto simp: page_at_def page_inv_safe leads_def)
    then have "cursor_safe (min (completed_cursor s) f) s"
      using not_lost_mono [of "completed_cursor s" s _ "min (completed_cursor s) f"] by (auto simp: cursor_safe_def)
    with that show ?thesis
      by (auto simp: stop_ok_def Let_def cursor_safe_def not_lost_def scored_def page_at_def leads_def)
  qed
  have written: "triple (?P x) (upd (\<lambda>s. s\<lparr>lo_page := []\<rparr>)) (\<lambda>_. page_at e []) (stop_ok e)" for x
    by (rule triple_upd) (auto simp: page_at_def floor_ok_def)
  have failed: "triple (?P (Some f))
      (seq (upd (\<lambda>s. let c = min (completed_cursor s) f in s\<lparr>completed_cursor := c, last_interaction := c\<rparr>)) (\<lambda>_. err x))
      (\<lambda>_. page_at e []) (stop_ok e)" for f x
  proof (rule triple_seq [where R = "\<lambda>_. stop_ok e"])
    show "triple (?P (Some f)) (upd (\<lambda>s. let c = min (completed_cursor s) f in s\<lparr>completed_cursor := c, last_interaction := c\<rparr>))
        (\<lambda>_. stop_ok e) (stop_ok e)" by (rule triple_upd) (erule lower)
  qed (rule triple_err)
  show ?thesis unfolding close_page_def
    by (rule triple_seq [OF take], split option.split, intro conjI allI impI triple_ok, simp,
        rule triple_seq [OF io], split sum.split, intro conjI allI impI, hypsubst, rule failed, hypsubst, rule written)
qed

lemma page_at_probe [keeps_rules]: "keeps (page_at e []) (probe_tip E us)"
  unfolding probe_tip_def by (auto split: prod.splits intro!: keeps_rules) (auto simp: page_at_def)

lemma page_at_round:
  assumes "serves_from E"
  shows "triple (page_at e []) (page_round E) (\<lambda>_. page_at e []) (stop_ok e)"
proof -
  have start: "page_at e [] (set_cursor (lo_min_failed s) s)" if "page_at e [] s" for s :: "'a gsync"
    using page_at_cursor [OF that] by (simp add: min_opt_def)
  have response: "triple (\<lambda>s. page_at e [] s \<and> completed_cursor s \<le> n) (sio (rm_get_initial_response E n))
      (\<lambda>us s. page_at e [] s \<and> completed_cursor s \<le> n \<and> (\<forall>u \<in> set us. n \<le> go_u64 u)) (stop_ok e)" for n
    by (rule tripleI)
       (use assms in \<open>fastforce simp: inner_def io_def serves_from_def page_at_def split: prod.splits,
          auto simp: inner_def io_def page_at_stop page_at_def split: prod.splits dest!: page_at_stop [unfolded page_at_def]\<close>)
  have rest: "triple (page_at e []) (seq (close_page E) (\<lambda>_.
      seq (upd (\<lambda>s. s\<lparr>lo_completed := filter (\<lambda>x. completed_cursor s \<le> x) (lo_completed s)\<rparr>)) (\<lambda>_.
      seq (got last_interaction) (\<lambda>after.
        if after = since then seq (probe_tip E us) (\<lambda>_. ok False)
        else seq (upd (\<lambda>s. s\<lparr>page_advanced := True\<rparr>)) (\<lambda>_. ok (tm_request_stop E = None)))))) (\<lambda>_. page_at e []) (stop_ok e)"
    for since us
    by (intro triple_seq [OF page_at_close_page] page_at_keeps keeps_rules) (auto simp: page_at_def leads_def)
  have page: "triple (came_at e us) (seq (page_memos E us) (\<lambda>_.
      seq (upd (\<lambda>s. set_cursor (min_opt (lowest us) (lo_min_failed s)) s)) (\<lambda>_.
      seq (open_page E us) (\<lambda>_.
      seq (page_outputs E us) (\<lambda>whole. if \<not> whole then ok False else k)))))
      (\<lambda>_. page_at e []) (stop_ok e)"
    if "triple (page_at e []) k (\<lambda>_. page_at e []) (stop_ok e)" for us and k :: "('a gsync, bool) act"
    by (rule triple_seq [OF came_at_keeps], intro keeps_rules,
        rule triple_seq [OF triple_upd], erule page_at_opened,
        rule triple_seq [OF page_at_keeps], intro keeps_rules,
        rule triple_seq [OF page_at_outputs], intro triple_if triple_ok that)
  have hold: "triple (\<lambda>s. page_at e [] s \<and> (stop, n) = (stopped E s, last_interaction s))
      (upd (\<lambda>s. set_cursor (lo_min_failed s) s)) (\<lambda>_ s. page_at e [] s \<and> completed_cursor s \<le> n) (stop_ok e)" for stop n
    by (rule triple_upd) (use start cursor_leads in \<open>fastforce simp: page_at_def\<close>)
  have served: "triple (\<lambda>s. page_at e [] s \<and> completed_cursor s \<le> n \<and> (\<forall>u \<in> set us. n \<le> go_u64 u))
      (upd (\<lambda>s. s\<lparr>page_count := page_count s + 1, lo_served := map served_as us @ lo_served s\<rparr>)) (\<lambda>_. came_at e us) (stop_ok e)"
    for n us by (rule triple_upd) (use came_at_response in blast)
  show ?thesis unfolding page_round_def
    by (rule triple_seq [OF triple_got], unfold split_paired_all split, rule triple_if, rule triple_ok, simp,
        rule triple_seq [OF hold], rule triple_seq [OF response], rule triple_seq [OF served], rule page, rule rest)
qed

lemma page_at_loop:
  assumes "serves_from E"
  shows "triple (page_at e []) (page_loop E) (\<lambda>_. page_at e []) (stop_ok e)"
proof -
  have "serves_from E \<Longrightarrow> page_at e [] s
      \<Longrightarrow> case page_loop E s of (s', Ok x) \<Rightarrow> page_at e [] s' | (s', _) \<Rightarrow> stop_ok e s'" for s
  proof (induction E s rule: page_loop.induct)
    case (1 E s)
    obtain s1 a where r: "page_round E s = (s1, a)" by fastforce
    note round = tripleD [OF page_at_round [OF 1(2)] 1(3)] tripleZ [OF page_at_round [OF 1(2)] 1(3) r]
    show ?case
    proof (cases a)
      case (Ok b)
      with r round(1) have s1: "page_at e [] s1" by blast
      show ?thesis
      proof (cases b)
        case True
        with 1(1) [OF r [symmetric] Ok] 1(2) s1 r Ok show ?thesis by (simp add: page_loop.simps [of E s])
      qed (use r Ok s1 in \<open>simp add: page_loop.simps [of E s]\<close>)
    qed (use r round(2) in \<open>simp_all add: page_loop.simps [of E s]\<close>)
  qed
  with assms show ?thesis by (simp add: triple_def)
qed

subsection \<open>The records held\<close>

text \<open>No page is read yet: the cursor is the one the sync entered with.\<close>

definition held_at :: "nat \<Rightarrow> deferred_graph_key list \<Rightarrow> 'w gsync \<Rightarrow> bool" where
  "held_at e ks s \<longleftrightarrow>
     page_at e [] s \<and> completed_cursor s = e \<and> (\<forall>k \<in> set ks. (dk_outpoint k, dk_score k) \<in> set (lo_keys s))"

lemma held_at_keeps: "keeps (held_at e ks) m \<Longrightarrow> triple (held_at e ks) m (\<lambda>_. held_at e ks) (stop_ok e)"
  by (rule triple_keeps) (auto simp: held_at_def page_at_stop)

lemma held_at_inner [keeps_rules]: "keeps (held_at e ks) (inner m)"
  by (rule keeps_inner) (simp add: held_at_def page_at_def)

lemma held_at_hold [simp]: "held_at e ks (hold_cursor sc p s) = held_at e ks s" "held_at e ks (release_hold p s) = held_at e ks s"
  "held_at e ks (s\<lparr>cursor_after_in_flight := n\<rparr>) = held_at e ks s" "held_at e ks (s\<lparr>in_flight := x\<rparr>) = held_at e ks s"
  by (auto simp: held_at_def page_at_def hold_cursor_def release_hold_def split: option.splits)

lemma held_at_in_flight [keeps_rules]: "keeps (held_at e ks) (ingest_in_flight E u sc p)"
  unfolding ingest_in_flight_def by (intro keeps_rules) simp_all

lemma held_at_share: "held_at e ks s \<Longrightarrow> held_at e ks (share p s)"
  by (auto simp: held_at_def page_at_def page_inv_share) (simp_all add: share_def)

lemma held_at_fail:
  assumes "held_at e ks s" "k \<in> set ks"
  shows "held_at e ks (s\<lparr>lo_min_failed := (if lo_initial s \<le> dk_score k then min_opt (lo_min_failed s) (Some (dk_score k)) else lo_min_failed s),
      lo_failed := ins (dk_outpoint k) (lo_failed s)\<rparr>)" (is "held_at e ks ?s")
proof -
  have mono: "gapped s q \<Longrightarrow> gapped ?s q" for q
    by (fastforce simp: gapped_def scored_def min_opt_def split: option.splits)
  have "(dk_outpoint k, dk_score k) \<in> set (lo_keys s)" using assms by (simp add: held_at_def)
  then have "gapped ?s (dk_outpoint k)"
    by (auto simp: gapped_def scored_def min_opt_def split: option.splits intro!: exI [of _ "dk_score k"])
  with mono have "page_rest [] ?s" using assms(1) by (auto simp: held_at_def page_at_def page_inv_def page_rest_def)
  with assms(1) show ?thesis by (auto simp: held_at_def page_at_def page_inv_def below_def leads_def)
qed

lemma held_at_missed:
  assumes "held_at e ks s" "k \<in> set ks"
  shows "held_at e ks ((hold_cursor (dk_score k) (dk_outpoint k) s)
      \<lparr>lo_min_failed := (if lo_initial s \<le> dk_score k then min_opt (lo_min_failed s) (Some (dk_score k)) else lo_min_failed s),
       lo_failed := ins (dk_outpoint k) (lo_failed s)\<rparr>)" (is "held_at e ks ?s")
proof -
  have "?s = hold_cursor (dk_score k) (dk_outpoint k) (s\<lparr>lo_min_failed :=
      (if lo_initial s \<le> dk_score k then min_opt (lo_min_failed s) (Some (dk_score k)) else lo_min_failed s),
      lo_failed := ins (dk_outpoint k) (lo_failed s)\<rparr>)"
    by (auto simp: hold_cursor_def split: option.splits)
  with held_at_fail [OF assms] show ?thesis by simp
qed

lemma held_at_key: "k \<in> set ks \<Longrightarrow> keeps (held_at e ks) (held_key E k)"
  unfolding held_key_def Let_def
  by (split option.split, intro conjI allI impI keeps_rules; (split prod.split, intro conjI allI impI keeps_rules)?)
     (auto simp: held_at_share held_at_missed)

lemma held_at_loop: "set ks \<subseteq> set ks0 \<Longrightarrow> triple (held_at e ks0) (held_loop E ks) (\<lambda>_. held_at e ks0) (stop_ok e)"
  by (rule held_at_keeps, induction ks) (auto intro!: keeps_rules held_at_key)

subsection \<open>The sync\<close>

text \<open>The end of the sync: \<open>last_interaction\<close> is the completed cursor.\<close>

definition ended_ok :: "nat \<Rightarrow> 'w gsync \<Rightarrow> bool" where
  "ended_ok e s \<longleftrightarrow> stop_ok e s \<and> last_interaction s = completed_cursor s"

lemma ended_ok_inner [keeps_rules]: "keeps (ended_ok e) (inner m)"
  by (rule keeps_inner) (auto simp: ended_ok_def stop_ok_def cursor_safe_def not_lost_def scored_def)

lemma ended_ok_push [keeps_rules]: "keeps (ended_ok e) (push_all E us)"
  by (induction us) (auto intro!: keeps_rules)

text \<open>The state the sync enters its loops with.\<close>

definition entered :: "nat \<Rightarrow> 'w gsync \<Rightarrow> bool" where
  "entered e s \<longleftrightarrow> lo_initial s = e \<and> completed_cursor s = e \<and> last_interaction s = e \<and> page_floor s = None
     \<and> lo_served s = [] \<and> lo_failed s = [] \<and> lo_completed s = []"

lemma entered_at: "entered e s \<Longrightarrow> page_at e [] s"
  by (simp add: entered_def page_at_def inv_defs floor_ok_def leads_def)

lemma entered_inner [keeps_rules]: "keeps (entered e) (inner m)"
  by (rule keeps_inner) (simp add: entered_def)

lemma entered_keeps: "keeps (entered e) m \<Longrightarrow> triple (entered e) m (\<lambda>_. entered e) (stop_ok e)"
  by (rule triple_keeps) (auto intro: page_at_stop entered_at)

lemma finish_cursor:
  assumes "page_at e [] s"
  shows "ended_ok e (let s1 = set_cursor (lo_min_failed s) s in s1\<lparr>last_interaction := completed_cursor s1\<rparr>)"
proof -
  have "page_at e [] (set_cursor (lo_min_failed s) s)" using page_at_cursor [OF assms] by (simp add: min_opt_def)
  from page_at_stop [OF this] show ?thesis
    by (auto simp: Let_def ended_ok_def stop_ok_def cursor_safe_def not_lost_def scored_def)
qed

lemma held_at_pages: "serves_from E \<Longrightarrow> triple (held_at e ks) (page_loop E) (\<lambda>_. page_at e []) (stop_ok e)"
  by (rule triple_weaken [OF page_at_loop]) (auto simp: held_at_def)

lemma sync_stop_ok:
  assumes "serves_from E"
  shows "triple (\<lambda>s. last_interaction s = e) (sync E) (\<lambda>_. ended_ok e) (stop_ok e)"
  unfolding sync_def
  apply (rule triple_seq [OF triple_upd, where R = "\<lambda>_. entered e"], simp add: entered_def reset_sync_def)
  apply (rule triple_seq [OF entered_keeps], intro keeps_rules)
  apply (rule triple_seq [OF entered_keeps], intro keeps_rules)
  subgoal for _ keys mine
    apply (rule triple_seq [OF triple_upd, where R = "\<lambda>_. held_at e keys"])
     apply (auto simp: held_at_def entered_def intro!: entered_at)[1]
    apply (rule triple_seq [OF held_at_keeps], intro keeps_rules)
    apply (rule triple_seq [OF held_at_keeps], intro keeps_rules)
    apply (rule triple_seq [OF held_at_loop], simp)
    apply (rule triple_seq [OF held_at_pages [OF assms]])
    apply (rule triple_seq [OF page_at_close_page])
    apply (rule triple_seq [OF triple_upd], erule finish_cursor)
    apply (intro triple_if triple_ok triple_keeps keeps_rules; simp add: ended_ok_def)
    done
  done

end
