(* ===== verification/Gasp_Kept.thy ===== *)
theory Gasp_Kept
  imports Gasp_Cursor
begin

text \<open>
  What an ingest leaves alone. While a root is asked for, the walk in hand is of that root and every record it
  reads or writes is the root's own: a property of the world that the other calls of the traits keep, and that a
  read, a save, a retry and a delete of that one record keep, is kept by the whole ingest.
\<close>

definition gives :: "('g \<Rightarrow> bool) \<Rightarrow> ('a \<Rightarrow> bool) \<Rightarrow> ('g, 'a) act \<Rightarrow> bool" where
  "gives P F m \<longleftrightarrow> (\<forall>g g' a. P g \<longrightarrow> m g = (g', a) \<longrightarrow> P g' \<and> (\<forall>x. a = Ok x \<longrightarrow> F x))"

lemma givesD: "gives P F m \<Longrightarrow> m g = (g', a) \<Longrightarrow> P g \<Longrightarrow> P g'" "gives P F m \<Longrightarrow> m g = (g', Ok x) \<Longrightarrow> P g \<Longrightarrow> F x"
  by (auto simp: gives_def)

lemma gives_keeps: "gives P F m \<Longrightarrow> keeps P m"
  by (rule keepsI) (auto simp: gives_def)

lemma gives_got: "(\<And>g. P g \<Longrightarrow> F (f g)) \<Longrightarrow> gives P F (got f)"
  by (auto simp: gives_def)

lemma gives_ok: "F x \<Longrightarrow> gives P F (ok x)" "gives P F (err e)"
  by (auto simp: gives_def)

lemma gives_seq: "gives P F m \<Longrightarrow> (\<And>x. F x \<Longrightarrow> gives P G (k x)) \<Longrightarrow> gives P G (seq m k)"
  unfolding gives_def by (intro allI impI, elim seq_elim) (metis, blast+)

lemma keeps_gives: "gives P F m \<Longrightarrow> (\<And>x. F x \<Longrightarrow> keeps P (k x)) \<Longrightarrow> keeps P (seq m k)"
  by (rule keepsI, erule seq_elim) (auto dest: givesD keepsD)

lemma gives_caught: "gives P F m \<Longrightarrow> gives P (\<lambda>r. case r of Inl _ \<Rightarrow> True | Inr x \<Rightarrow> F x) (caught m)"
  unfolding gives_def caught_def by (auto split: prod.splits answer.splits)

lemma gives_keepsI: "keeps P m \<Longrightarrow> gives P (\<lambda>_. True) m"
  by (auto simp: gives_def keeps_def)

text \<open>A record of the root, and a walk of it.\<close>

definition owns :: "string \<Rightarrow> deferred_graph \<Rightarrow> bool" where
  "owns p r \<longleftrightarrow> dg_outpoint r = p"

definition rooted :: "string \<Rightarrow> walk option \<Rightarrow> bool" where
  "rooted p x \<longleftrightarrow> (\<forall>w. x = Some w \<longrightarrow> owns p (wk_record w))"

lemma ownsD: "owns p r \<Longrightarrow> dg_outpoint r = p"
  by (simp add: owns_def)

definition within :: "('w \<Rightarrow> bool) \<Rightarrow> string \<Rightarrow> 'w gasp \<Rightarrow> bool" where
  "within R p g \<longleftrightarrow> R (g_world g) \<and> rooted p (g_walk g)"

lemma within_fields [simp]:
  "within R p (g\<lparr>g_expired := a\<rparr>) = within R p g" "within R p (g\<lparr>g_deferred := a\<rparr>) = within R p g"
  "within R p (g\<lparr>g_fault_records := a\<rparr>) = within R p g" "within R p (g\<lparr>g_held_records := b\<rparr>) = within R p g"
  "within R p (g\<lparr>g_pruned := a\<rparr>) = within R p g" "within R p (g\<lparr>g_absent := a\<rparr>) = within R p g"
  "within R p (g\<lparr>g_refused_expiry := c\<rparr>) = within R p g" "within R p (g\<lparr>g_root_expiries := d\<rparr>) = within R p g"
  "within R p (g\<lparr>g_resume_left := e\<rparr>) = within R p g" "within R p (g\<lparr>g_resume_idle := h\<rparr>) = within R p g"
  "within R p (g\<lparr>g_pass_saved := i\<rparr>) = within R p g" "within R p (g\<lparr>g_last_fault := j\<rparr>) = within R p g"
  "within R p (g\<lparr>g_calls_made := b\<rparr>) = within R p g" "within R p (g\<lparr>g_bytes_fetched := b\<rparr>) = within R p g"
  "within R p (g\<lparr>g_nodes_appended := b\<rparr>) = within R p g" "within R p (g\<lparr>g_share_started := i\<rparr>) = within R p g"
  by (simp_all add: within_def)

lemma rooted_simps [simp]: "rooted p None" "rooted p (Some w) \<longleftrightarrow> owns p (wk_record w)"
  by (auto simp: rooted_def)

lemma within_walk [simp]: "within R p (g\<lparr>g_walk := x\<rparr>) \<longleftrightarrow> R (g_world g) \<and> rooted p x"
  by (simp add: within_def)

lemma withinD: "within R p g \<Longrightarrow> R (g_world g)" "within R p g \<Longrightarrow> rooted p (g_walk g)"
  by (simp_all add: within_def)

lemma within_io: "keeps R m \<Longrightarrow> keeps (within R p) (io m)"
  by (rule keepsI) (auto simp: io_def within_def dest: keepsD split: prod.splits)

lemma within_io_gives: "gives R F m \<Longrightarrow> gives (within R p) F (io m)"
  unfolding gives_def io_def within_def by (auto split: prod.splits)

lemma owns_simps [simp]:
  "owns p (fresh_record sc p)" "owns p (wk_record (fresh_walk sc p c))" "owns p (retry_record r p)"
  "owns p (saved_record now x b w) = owns p (wk_record w)" "owns p (struck_record n e sc p cls prior)"
  "owns p (wk_record (restarted_walk sc p c y))" "owns p (wk_record (resumed_walk E r c)) = owns p r"
  "owns p (r\<lparr>retry_at := n1\<rparr>) = owns p r" "owns p (r\<lparr>dg_reason := t1\<rparr>) = owns p r"
  "owns p (r\<lparr>unanchorable_retries := n1\<rparr>) = owns p r" "owns p (r\<lparr>idle_resumes := n1\<rparr>) = owns p r"
  "owns p (r\<lparr>dg_cursor_passable := b1\<rparr>) = owns p r" "owns p (r\<lparr>dg_calls := n1\<rparr>) = owns p r"
  "owns p (r\<lparr>dg_pending := q1\<rparr>) = owns p r" "owns p (r\<lparr>dg_nodes := q2\<rparr>) = owns p r" "owns p (r\<lparr>idle_faults := n1\<rparr>) = owns p r"
  by (simp_all add: owns_def fresh_record_def fresh_walk_def retry_record_def saved_record_def struck_record_def restarted_walk_def
      resumed_walk_def Let_def)

lemma gives_if: "(b \<Longrightarrow> gives P F m) \<Longrightarrow> (\<not> b \<Longrightarrow> gives P F n) \<Longrightarrow> gives P F (if b then m else n)"
  by simp

lemma gives_saved:
  "(\<And>e. gives P F (l e)) \<Longrightarrow> gives P F m \<Longrightarrow> gives P F n
    \<Longrightarrow> gives P F (case x of Inl e \<Rightarrow> l e | Inr Saved \<Rightarrow> m | Inr AtCeiling \<Rightarrow> n)"
  by (simp split: sum.split deferred_graph_save.split)

lemma keeps_sum: "(\<And>a. keeps P (l a)) \<Longrightarrow> (\<And>b. keeps P (r b)) \<Longrightarrow> keeps P (case x of Inl a \<Rightarrow> l a | Inr b \<Rightarrow> r b)"
  by (simp split: sum.split)

lemma keeps_option: "keeps P n \<Longrightarrow> (\<And>b. x = Some b \<Longrightarrow> keeps P (r b)) \<Longrightarrow> keeps P (case x of None \<Rightarrow> n | Some b \<Rightarrow> r b)"
  by (simp split: option.split)

lemma keeps_list: "keeps P n \<Longrightarrow> (\<And>b c. keeps P (r b c)) \<Longrightarrow> keeps P (case x of [] \<Rightarrow> n | b # c \<Rightarrow> r b c)"
  by (simp split: list.split)

lemmas keeps_cases = keeps_sum keeps_option keeps_list

locale own_record =
  fixes E :: "'w gasp_env" and R :: "'w \<Rightarrow> bool" and p :: string
  assumes graph_calls: "\<And>n x. keeps R (st_append_to_graph E n x)" "\<And>n. keeps R (st_find_needed_inputs E n)"
      "\<And>i. keeps R (st_validate_graph_anchor E i)" "\<And>i. keeps R (st_finalize_graph E i)" "\<And>i. keeps R (st_discard_graph E i)"
    and memo_calls: "\<And>q t. keeps R (st_remember_expired E q t)"
    and peer_calls: "\<And>i t n b. keeps R (rm_request_node E i t n b)" "\<And>t. keeps R (fe_verified_proof_for E t)"
      "\<And>f t. fe_fetch_ancestor E = Some f \<Longrightarrow> keeps R (f t)"
    and clock_calls: "keeps R (tm_deadline_due E)" "\<And>h. tm_half_due E = Some h \<Longrightarrow> keeps R h"
      "\<And>h. tm_share_due E = Some h \<Longrightarrow> keeps R h"
    and hook_call: "\<And>h. hk_graph_completed E = Some h \<Longrightarrow> keeps R h"
    and get_call: "gives R (\<lambda>r. \<forall>x. r = Some x \<longrightarrow> owns p x) (st_get_deferred_graph E p)"
    and save_call: "\<And>r. owns p r \<Longrightarrow> keeps R (st_save_deferred_graph E r)"
    and reserve_call: "\<And>r. owns p r \<Longrightarrow> keeps R (st_reserve_unanchorable_retry E r)"
begin

abbreviation here :: "'w gasp \<Rightarrow> bool" where
  "here \<equiv> within R p"

lemma io_rules [keeps_rules]:
  "keeps here (io (st_append_to_graph E n x))" "keeps here (io (st_find_needed_inputs E n))"
  "keeps here (io (st_validate_graph_anchor E i))" "keeps here (io (st_finalize_graph E i))" "keeps here (io (st_discard_graph E i))"
  "keeps here (io (st_remember_expired E q d))" "keeps here (io (rm_request_node E i t k b))"
  "keeps here (io (fe_verified_proof_for E t))" "keeps here (io (tm_deadline_due E))"
  "keeps here (io (st_get_deferred_graph E p))"
  by (intro within_io graph_calls memo_calls peer_calls clock_calls gives_keeps [OF get_call])+

lemma io_save [keeps_rules]: "owns p r \<Longrightarrow> keeps here (io (st_save_deferred_graph E r))"
  "owns p r \<Longrightarrow> keeps here (io (st_reserve_unanchorable_retry E r))"
  by (auto intro: within_io save_call reserve_call)

lemma io_option: "fe_fetch_ancestor E = Some f \<Longrightarrow> keeps here (io (f t))"
  "tm_half_due E = Some h \<Longrightarrow> keeps here (io h)" "tm_share_due E = Some h \<Longrightarrow> keeps here (io h)"
  "hk_graph_completed E = Some k \<Longrightarrow> keeps here (io k)"
  by (auto intro: within_io peer_calls clock_calls hook_call)

lemma get_gives: "gives here (\<lambda>r. \<forall>x. r = Some x \<longrightarrow> owns p x) (io (st_get_deferred_graph E p))"
  by (rule within_io_gives) (rule get_call)

lemma get_caught: "gives here (\<lambda>r. \<forall>x. r = Inr (Some x) \<longrightarrow> owns p x) (caught (io (st_get_deferred_graph E p)))"
  using gives_caught [OF get_gives] by (auto simp: gives_def split: sum.splits)

lemma here_upd_walk [simp]: "here g \<Longrightarrow> (\<And>w. owns p (wk_record (f w)) = owns p (wk_record w)) \<Longrightarrow> here (upd_walk f g)"
  by (auto simp: upd_walk_def within_def rooted_def)

lemma here_count [keeps_rules]: "keeps here count_call" "keeps here (count_fetched n)"
  unfolding count_call_def count_fetched_def by (rule keeps_upd; simp)+

lemma here_root_expired [keeps_rules]: "keeps here (root_expired E n q)"
  by (rule keepsI) (auto simp: root_expired_def Let_def split: sum.splits option.splits if_splits)

lemma here_fetch [keeps_rules]: "keeps here (hydrate_root E n)" "keeps here (fetch_root E item)" "keeps here (ask_peer_for_input E item t i)"
  unfolding hydrate_root_def fetch_root_def ask_peer_for_input_def
  by (auto split: option.splits sum.splits intro!: keeps_rules)

lemma here_absorbed [keeps_rules]: "keeps here (absorbed E item n)"
  unfolding absorbed_def absorb_def by (auto intro!: keeps_rules)

lemma here_root_step [keeps_rules]: "keeps here (root_step E item)"
  unfolding root_step_def by (auto split: option.splits intro!: keeps_rules)

lemma here_fetcher_step: "fe_fetch_ancestor E = Some f \<Longrightarrow> keeps here (fetcher_step E f item t i)"
  unfolding fetcher_step_def Let_def by (auto split: sum.splits intro!: keeps_rules io_option(1))

lemma here_peer_step [keeps_rules]: "keeps here (peer_step E item t i)"
  unfolding peer_step_def by (auto split: sum.splits intro!: keeps_rules)

lemma here_step [keeps_rules]: "keeps here (step E item)"
  unfolding step_def by (auto split: option.splits intro!: keeps_rules here_fetcher_step)

lemma here_commit: "here g \<Longrightarrow> here (commit out g)"
  by (cases out) (auto simp: commit_def Let_def pop_pending_def within_def split: option.splits)

lemma here_walk_graph [keeps_rules]: "keeps here (walk_graph E)"
  by (rule keeps_walk_graph) (auto intro: io_rules here_step here_commit)

lemma here_marks [keeps_rules]: "keeps here (know_fault_record q)" "keeps here (forget_record q)"
  unfolding know_fault_record_def forget_record_def by (rule keeps_upd; simp)+

lemma here_read_record [keeps_rules]: "keeps here (read_record r)"
  unfolding read_record_def by (auto split: option.split intro: keeps_ok here_marks)

lemma take_gives: "gives here (rooted p) take_walk"
  by (simp add: gives_def take_walk_def within_def)

lemma here_take [keeps_rules]: "keeps here take_walk"
  by (rule gives_keeps) (rule take_gives)

lemma here_take_fault [keeps_rules]: "keeps here take_fault"
  by (rule keepsI) (auto simp: take_fault_def)

lemma here_put [keeps_rules]: "owns p (wk_record w) \<Longrightarrow> keeps here (put_walk w)"
  unfolding put_walk_def by (rule keeps_upd) (simp add: within_def)

lemma here_complete [keeps_rules]: "keeps here (complete_graph E i)"
  unfolding complete_graph_def by (auto split: sum.splits gasp_error.splits intro!: keeps_rules)

lemma here_discard [keeps_rules]: "keeps here (discard E i)"
  unfolding discard_def by (intro keeps_rules)

lemma here_keep: "owns p r \<Longrightarrow> keeps here (keep_unanchorable E r)"
  unfolding keep_unanchorable_def Let_def by (intro keeps_rules) auto

lemma here_strike [keeps_rules]: "keeps here (do_strike E sc p c prior)"
  unfolding do_strike_def
proof (rule keeps_gives [where F = "owns p"])
  fix r :: deferred_graph
  assume "owns p r"
  then show "keeps here (seq (caught (io (st_save_deferred_graph E r))) (\<lambda>saved.
       case saved of
         Inr Saved \<Rightarrow>
           seq (if prior \<noteq> None then know_fault_record p
                else upd (\<lambda>g. g\<lparr>g_fault_records := ins p (g_fault_records g)\<rparr>)) (\<lambda>_.
             ok \<lparr>sk_held = Some (dg_faults r, UNANCHORABLE_AFTER_FAULTED_RUNS \<le> dg_faults r), sk_refused = None\<rparr>)
       | Inr AtCeiling \<Rightarrow> ok (refused_strike ''no_room'' prior)
       | Inl _ \<Rightarrow> ok (refused_strike ''store_fault'' prior)))"
    by (intro keeps_seq keeps_caught io_save) (auto split: sum.split deferred_graph_save.split intro!: keeps_rules)
qed (auto intro: gives_got)

lemma here_strike_fresh [keeps_rules]: "keeps here (strike_fresh E sc p low)"
  unfolding strike_fresh_def by (auto split: option.splits intro!: keeps_rules)

lemma here_strike_resumed [keeps_rules]: "keeps here (strike_resumed E p x)"
  unfolding strike_resumed_def by (auto split: option.splits sum.splits intro!: keeps_rules)

definition saved_rooted :: "saved \<Rightarrow> bool" where
  "saved_rooted s = (case s of Save_Unkept _ w \<Rightarrow> owns p (wk_record w) | Save_Fault _ w \<Rightarrow> owns p (wk_record w)
     | Save_Ceiling w \<Rightarrow> owns p (wk_record w) | _ \<Rightarrow> True)"

lemma save_walk_gives: "gives here saved_rooted (save_walk E reason completed)"
  unfolding save_walk_def
proof (rule gives_seq [OF take_gives], goal_cases)
  case (1 x)
  then show ?case
  proof (cases x)
    case (Some w)
    then have "owns p (wk_record w)" using 1 by simp
    then show ?thesis unfolding Some Let_def option.case
      by (intro gives_if gives_ok gives_seq [OF gives_keepsI] keeps_rules)
         (auto simp: saved_rooted_def simp del: seq_pure split: prod.split
           intro!: gives_if gives_ok gives_saved gives_seq [OF gives_keepsI] keeps_rules)
  qed (auto intro: gives_ok simp: saved_rooted_def)
qed

lemma here_save [keeps_rules]: "keeps here (save_walk E reason completed)"
  by (rule gives_keeps) (rule save_walk_gives)

lemma here_paid [keeps_rules]: "keeps here (walk_paid E)"
  unfolding walk_paid_def by (auto split: option.split intro!: keeps_rules io_option(2))

lemma here_idle_fault [keeps_rules]: "keeps here count_idle_fault"
  by (rule keepsI) (auto simp: count_idle_fault_def Let_def within_def split: option.splits)

lemma here_append [keeps_rules]: "keeps here (append_walked E)"
proof -
  have "keeps here (append_nodes E ns)" for ns by (induction ns) (auto intro!: keeps_rules)
  then show ?thesis unfolding append_walked_def by (intro keeps_rules)
qed

lemma start_half_gives: "owns p (wk_record w) \<Longrightarrow> gives here (\<lambda>w. owns p (wk_record w)) (start_half E w)"
  unfolding start_half_def
  by (auto split: option.split intro!: gives_ok gives_seq [OF gives_keepsI] io_option(2))

lemma read_held_gives: "gives here (\<lambda>r. \<forall>x. r = Some x \<longrightarrow> owns p x) (read_held E p held)"
  unfolding read_held_def
  by (intro gives_if gives_ok gives_seq [OF get_gives] gives_seq [OF gives_keepsI] keeps_rules) auto

lemma here_idle_resume [keeps_rules]: "keeps here (idle_resume E p prior held)"
  unfolding idle_resume_def Let_def
  by (rule keeps_gives [OF get_caught]) (auto split: sum.split option.split intro!: keeps_rules)

lemma here_share_due [keeps_rules]: "keeps here (share_due E)"
  unfolding share_due_def by (auto split: option.split intro!: keeps_rules io_option(3))

end

text \<open>The ingest may also delete the record.\<close>

locale world_kept = own_record +
  assumes delete_call: "keeps R (st_delete_deferred_graph E p)"
begin

lemma io_delete [keeps_rules]: "keeps here (io (st_delete_deferred_graph E p))"
  by (rule within_io) (rule delete_call)

lemma here_delete [keeps_rules]: "keeps here (delete_record E p)"
  unfolding delete_record_def by (intro keeps_rules)

lemma here_drop [keeps_rules]: "keeps here (drop_record E p why)"
  unfolding drop_record_def by (auto split: sum.splits option.splits intro!: keeps_rules)

lemma here_refuse [keeps_rules]: "keeps here (refuse_expired E p)"
  unfolding refuse_expired_def by (auto split: option.splits intro!: keeps_rules)

lemma here_sweep: "(\<And>x. r = Some x \<Longrightarrow> owns p x) \<Longrightarrow> keeps here (sweep_expired_record E r)"
  by (cases r) (auto simp: sweep_expired_record_def Let_def ownsD simp del: seq_pure intro!: keeps_rules)

lemma unkept_gives: "owns p (wk_record w) \<Longrightarrow> gives here (\<lambda>w. owns p (wk_record w)) (unkept E why w)"
  unfolding unkept_def
  by (auto intro!: gives_if gives_seq [OF gives_keepsI] gives_ok keeps_rules simp: ownsD simp del: seq_pure)

lemma here_strike_or_drop [keeps_rules]: "keeps here (strike_or_drop E p gid e why held)"
  unfolding strike_or_drop_def by (auto split: option.split intro!: keeps_rules)

lemma here_finish_end [keeps_rules]: "keeps here (finish_end E p gid resumed ended)"
  unfolding finish_end_def
  by (auto split: sum.splits walk_end.splits bool.splits gasp_error.splits option.splits intro!: keeps_rules)

lemma finish_save_gives:
  "saved_rooted s \<Longrightarrow> gives here (\<lambda>r. \<forall>w. r = Inr w \<longrightarrow> owns p (wk_record w)) (finish_save E p gid bcut s)"
  unfolding finish_save_def
  by (cases s) (auto simp: saved_rooted_def simp del: seq_pure
      intro!: gives_if gives_ok gives_seq [OF gives_keepsI] gives_seq [OF unkept_gives] keeps_rules)

lemma finish_round_gives: "gives here (\<lambda>r. \<forall>w. r = Inr w \<longrightarrow> owns p (wk_record w)) (finish_round E p ended)"
  unfolding finish_round_def
  by (intro gives_seq [OF gives_keepsI] keeps_rules)
     (auto split: prod.split sum.split simp del: seq_pure
       intro!: gives_seq [OF gives_keepsI] gives_seq [OF save_walk_gives] finish_save_gives gives_ok keeps_rules)

lemma here_finish_pass [keeps_rules]: "keeps here (finish_pass E p ended)"
proof -
  have "here g \<Longrightarrow> here (fst (finish_pass F q ended g))" if "F = E" "q = p" for F q ended g
    using that
  proof (induction F q ended g rule: finish_pass.induct)
    case (1 F q ended g)
    obtain g1 a where r: "finish_round E p ended g = (g1, a)" by fastforce
    have g1: "here g1" using givesD(1) [OF finish_round_gives r 1(3)] .
    show ?case
    proof (cases "\<exists>w. a = Ok (Inr w)")
      case True
      then obtain w where a: "a = Ok (Inr w)" by blast
      have "owns p (wk_record w)" using givesD(2) [OF finish_round_gives r [unfolded a] 1(3)] by blast
      then have go: "here (goes_on w g1)" using g1 by (simp add: goes_on_def within_def)
      obtain g2 b where w: "walk_graph E (goes_on w g1) = (g2, b)" by fastforce
      have g2: "here g2" using keepsD [OF here_walk_graph w go] .
      show ?thesis
      proof (cases b)
        case (Ok x)
        with 1(1) [of g1 a] r a w g2 1(4,5) show ?thesis by (simp add: finish_pass.simps [of E p ended g])
      next
        case (Err x)
        with 1(2) [of g1 a] r a w g2 1(4,5) show ?thesis by (simp add: finish_pass.simps [of E p ended g])
      qed (use r a w g2 1(4,5) in \<open>simp_all add: finish_pass.simps [of E p ended g]\<close>)
    next
      case False
      with r g1 1(4,5) show ?thesis
        by (auto simp: finish_pass.simps [of E p ended g] split: answer.splits sum.splits)
    qed
  qed
  then show ?thesis by (simp add: keeps_def)
qed

lemma here_rewalk:
  assumes "owns p r"
  shows "keeps here (rewalk_struck E u p r cap)"
proof -
  have k: "keeps here (keep_unanchorable E (if b then r\<lparr>unanchorable_retries := m, retry_at := n\<rparr> else r))" for b m n
    by (rule here_keep) (use assms in simp)
  show ?thesis unfolding rewalk_struck_def Let_def
    using assms by (intro keeps_rules keeps_cases k here_keep) simp_all
qed

lemma here_reask [keeps_rules]: "keeps here (reask_root E sc p cap)"
  unfolding reask_root_def
  by (intro keeps_rules keeps_cases) (auto intro!: keeps_rules split: option.split)

lemma here_walk_and_finish: "owns p (wk_record w) \<Longrightarrow> keeps here (walk_and_finish E sc p cap w)"
  unfolding walk_and_finish_def by (intro keeps_rules keeps_cases) simp_all

lemma here_resume: "owns p r \<Longrightarrow> keeps here (resume_record E sc p cap r)"
  unfolding resume_record_def by (intro keeps_rules keeps_cases here_walk_and_finish) simp_all

lemma here_budgeted [keeps_rules]: "keeps here (ingest_budgeted E u p cap held)"
  unfolding ingest_budgeted_def Let_def
proof (rule keeps_gives [OF read_held_gives], goal_cases)
  case (1 rec)
  have pick: "gives here (\<lambda>r. \<forall>x. r = Some x \<longrightarrow> owns p x) (case rec of
      Some r \<Rightarrow>
        if (is_unanchorable r \<or> is_dead r) \<and> dg_score r \<noteq> as_u64 (go_score u)
        then seq (io (st_delete_deferred_graph E p)) (\<lambda>_. seq (forget_record p) (\<lambda>_. ok None))
        else ok rec
    | None \<Rightarrow> ok rec)"
    using 1 by (cases rec) (auto intro!: gives_if gives_ok gives_seq [OF gives_keepsI] keeps_rules)
  have rest: "keeps here (case r of
      None \<Rightarrow> seq (start_half E (fresh_walk sc p cap)) (walk_and_finish E sc p cap)
    | Some r \<Rightarrow> if is_struck r then rewalk_struck E u p r cap else resume_record E sc p cap r)"
    if "\<forall>x. r = Some x \<longrightarrow> owns p x" for r sc
    using that
    by (auto split: option.split intro!: keeps_gives [OF start_half_gives] here_walk_and_finish keeps_if here_rewalk here_resume)
  show ?case using 1 by (intro keeps_seq keeps_if keeps_ok here_sweep keeps_gives [OF pick] rest) auto
qed

lemma here_hold_back [keeps_rules]: "keeps here (hold_back E p)"
  unfolding hold_back_def
  by (rule keeps_gives [OF get_gives], intro keeps_seq keeps_if keeps_ok here_read_record here_sweep)
     (auto split: option.split intro!: keeps_rules)

lemma here_resume_pass [keeps_rules]: "keeps here (resume_pass E u p cap)"
  unfolding resume_pass_def by (intro keeps_rules) (auto split: option.split sum.split prod.split intro!: keeps_rules)

lemma here_ingest [keeps_rules]: "keeps here (ingest_utxo E u p)"
proof -
  have get: "keeps here (seq (io (st_get_deferred_graph E p)) (sweep_expired_record E))"
    by (rule keeps_gives [OF get_gives]) (auto intro: here_sweep)
  show ?thesis unfolding ingest_utxo_def by (intro keeps_rules) (auto split: prod.split intro!: keeps_rules get)
qed

lemma here_settle [keeps_rules]: "keeps here (settle_completed E landed)"
proof -
  have "keeps here (seq (unkept E why w) (\<lambda>_. ok ()))" if "owns p (wk_record w)" for why w
    using that by (intro keeps_seq gives_keeps [OF unkept_gives] keeps_ok)
  then have s: "keeps here (case s of Save_Unkept why w \<Rightarrow> seq (unkept E why w) (\<lambda>_. ok ()) | _ \<Rightarrow> ok ())" if "saved_rooted s" for s
    using that by (cases s) (auto simp: saved_rooted_def)
  have t: "keeps here (case x of None \<Rightarrow> ok () | Some w \<Rightarrow>
      if wk_struck w \<noteq> None \<or> wk_resumed w then delete_record E (dg_outpoint (wk_record w)) else ok ())" if "rooted p x" for x
    using that by (cases x) (auto simp: ownsD intro!: keeps_rules)
  show ?thesis unfolding settle_completed_def
    by (intro keeps_if keeps_gives [OF take_gives] keeps_gives [OF save_walk_gives] s t)
qed

lemma here_outcome [keeps_rules]: "keeps here (ingest_outcome E r)"
proof -
  have "keeps here (hook_landed E)" unfolding hook_landed_def by (auto split: option.split intro!: keeps_rules io_option(4))
  then show ?thesis unfolding ingest_outcome_def by (auto split: sum.split ingested.split intro!: keeps_rules)
qed

end

end
