(* ===== verification/Gasp_Records.thy ===== *)
theory Gasp_Records
  imports Gasp_Kept
begin

text \<open>
  The contract of the record store (\<open>GASPStorage\<close>'s deferred graphs) and what an ingest makes of it: an outcome that
  lets the cursor pass a root without landing it leaves a durable record of the root, and the records of every
  other root stay held.
\<close>

subsection \<open>Answers and errors\<close>

definition tri :: "('g \<Rightarrow> bool) \<Rightarrow> ('g, 'a) act \<Rightarrow> ('a \<Rightarrow> 'g \<Rightarrow> bool) \<Rightarrow> ('g \<Rightarrow> bool) \<Rightarrow> bool" where
  "tri P m Q X \<longleftrightarrow> (\<forall>g. P g \<longrightarrow> (case m g of (g', Ok x) \<Rightarrow> Q x g' | (g', Err e) \<Rightarrow> X g' | _ \<Rightarrow> True))"

lemma triD: "tri P m Q X \<Longrightarrow> P g \<Longrightarrow> m g = (g', Ok x) \<Longrightarrow> Q x g'" "tri P m Q X \<Longrightarrow> P g \<Longrightarrow> m g = (g', Err e) \<Longrightarrow> X g'"
  by (auto simp: tri_def)

lemma triI: "(\<And>g g' x. P g \<Longrightarrow> m g = (g', Ok x) \<Longrightarrow> Q x g') \<Longrightarrow> (\<And>g g' e. P g \<Longrightarrow> m g = (g', Err e) \<Longrightarrow> X g') \<Longrightarrow> tri P m Q X"
  by (auto simp: tri_def split: prod.split answer.split)

lemma tri_seq: "tri P m R X \<Longrightarrow> (\<And>x. tri (R x) (k x) Q X) \<Longrightarrow> tri P (seq m k) Q X"
  by (rule triI; erule seq_elim) (auto dest: triD)

lemma tri_ok: "(\<And>g. P g \<Longrightarrow> Q x g) \<Longrightarrow> tri P (ok x) Q X"
  by (auto simp: tri_def)

lemma tri_err: "(\<And>g. P g \<Longrightarrow> X g) \<Longrightarrow> tri P (err e) Q X"
  by (auto simp: tri_def)

lemma tri_got: "tri P (got f) (\<lambda>x g. P g \<and> x = f g) X"
  by (auto simp: tri_def)

lemma tri_read: "(\<And>x. tri P (k x) Q X) \<Longrightarrow> tri P (seq (got f) k) Q X"
  by (simp add: tri_def seq_def)

lemma seq_answer: "seq (ok x) k = k x" "seq (got f) k g = k (f g) g"
  by (auto simp: seq_def)

lemma tri_saved:
  "(\<And>e. tri P (l e) Q X) \<Longrightarrow> (x = Inr Saved \<Longrightarrow> tri P m Q X) \<Longrightarrow> (x = Inr AtCeiling \<Longrightarrow> tri P n Q X)
    \<Longrightarrow> tri P (case x of Inl e \<Rightarrow> l e | Inr Saved \<Rightarrow> m | Inr AtCeiling \<Rightarrow> n) Q X"
  by (simp split: sum.split deferred_graph_save.split)

lemma tri_prod: "(\<And>a b. x = (a, b) \<Longrightarrow> tri P (f a b) Q X) \<Longrightarrow> tri P (case x of (a, b) \<Rightarrow> f a b) Q X"
  by (cases x) simp

lemma tri_if: "(b \<Longrightarrow> tri P m Q X) \<Longrightarrow> (\<not> b \<Longrightarrow> tri P n Q X) \<Longrightarrow> tri P (if b then m else n) Q X"
  by simp

lemma tri_keeps: "keeps P m \<Longrightarrow> (\<And>g. P g \<Longrightarrow> X g) \<Longrightarrow> tri P m (\<lambda>_. P) X"
  by (rule triI) (auto dest: keepsD)

lemma tri_gives: "gives P F m \<Longrightarrow> (\<And>g. P g \<Longrightarrow> X g) \<Longrightarrow> tri P m (\<lambda>x g. P g \<and> F x) X"
  by (rule triI) (auto dest: givesD)

lemma tri_with: "tri P m Q X \<Longrightarrow> gives P' F m \<Longrightarrow> (\<And>g. P g \<Longrightarrow> P' g) \<Longrightarrow> tri P m (\<lambda>x g. Q x g \<and> F x) X"
  by (rule triI) (auto dest: triD givesD(2))

lemma tri_pre: "tri P' m Q X \<Longrightarrow> (\<And>g. P g \<Longrightarrow> P' g) \<Longrightarrow> tri P m Q X"
  by (auto simp: tri_def)

lemma tri_post: "tri P m Q' X' \<Longrightarrow> (\<And>x g. Q' x g \<Longrightarrow> Q x g) \<Longrightarrow> (\<And>g. X' g \<Longrightarrow> X g) \<Longrightarrow> tri P m Q X"
  by (fastforce simp: tri_def split: prod.split answer.split)

lemma tri_caught: "tri P m Q Y \<Longrightarrow> tri P (caught m) (\<lambda>r g. case r of Inl _ \<Rightarrow> Y g | Inr x \<Rightarrow> Q x g) X"
  by (fastforce simp: tri_def caught_def split: prod.split answer.split)

lemma tri_pure: "(F \<Longrightarrow> tri P m Q X) \<Longrightarrow> tri (\<lambda>g. P g \<and> F) m Q X"
  by (auto simp: tri_def)

subsection \<open>A walk in hand\<close>

definition alive :: "'w gasp \<Rightarrow> bool" where
  "alive g \<longleftrightarrow> g_walk g \<noteq> None"

lemma keeps_both: "keeps P m \<Longrightarrow> keeps Q m \<Longrightarrow> keeps (\<lambda>g. P g \<and> Q g) m"
  by (simp add: keeps_def)

lemma alive_fields [simp]:
  "alive (g\<lparr>g_world := w\<rparr>) = alive g" "alive (g\<lparr>g_last_fault := c\<rparr>) = alive g" "alive (g\<lparr>g_walk := Some v\<rparr>)"
  "alive (g\<lparr>g_fault_records := a\<rparr>) = alive g" "alive (g\<lparr>g_held_records := b\<rparr>) = alive g"
  by (simp_all add: alive_def)

lemma alive_walk_graph [keeps_rules]: "keeps alive (walk_graph E)"
proof -
  have "keeps (\<lambda>g. g_walk g \<noteq> None) (walk_graph E)"
    by (rule walk_graph_keeps_walk)
       (use same_walk_None in \<open>auto simp: commit_def Let_def split: option.splits step_out.splits\<close>)
  then show ?thesis by (simp add: alive_def [abs_def])
qed

lemma alive_steps [keeps_rules]:
  "keeps alive (root_expired E n p)" "keeps alive (fetch_root E item)" "keeps alive count_idle_fault"
proof -
  have "keeps (\<lambda>g. g_walk g \<noteq> None) (fetch_root E item)" "keeps (\<lambda>g. g_walk g \<noteq> None) (root_expired E n p)"
    by (rule keeps_of_walk, rule keeps_rules, use same_walk_None in blast)+
  then show "keeps alive (root_expired E n p)" "keeps alive (fetch_root E item)" by (simp_all add: alive_def [abs_def])
  show "keeps alive count_idle_fault"
    by (rule keepsI) (auto simp: count_idle_fault_def alive_def Let_def split: option.splits)
qed

lemma alive_calls [keeps_rules]:
  "keeps alive (complete_graph E gid)" "keeps alive (discard E gid)" "keeps alive (walk_paid E)"
  "keeps alive (forget_record p)" "keeps alive (put_walk w)" "keeps alive (append_nodes E ns)" "keeps alive (append_walked E)"
proof -
  show "keeps alive (complete_graph E gid)"
    unfolding complete_graph_def by (auto split: sum.splits gasp_error.splits intro!: keeps_rules)
  show "keeps alive (discard E gid)" unfolding discard_def by (auto intro!: keeps_rules)
  show "keeps alive (walk_paid E)" unfolding walk_paid_def by (auto split: option.splits intro!: keeps_rules)
  show "keeps alive (forget_record p)" unfolding forget_record_def by (auto intro!: keeps_rules)
  show "keeps alive (put_walk w)" unfolding put_walk_def by (auto intro!: keeps_rules)
  show "keeps alive (append_nodes E ns)" for ns by (induction ns) (auto intro!: keeps_rules)
  then show "keeps alive (append_walked E)" unfolding append_walked_def by (intro keeps_rules)
qed

lemma alive_drop [keeps_rules]: "keeps alive (drop_record E p why)"
  unfolding drop_record_def delete_record_def by (auto split: sum.splits option.splits intro!: keeps_rules)

lemma alive_reask [keeps_rules]: "keeps alive (reask_root E sc p cap)"
  unfolding reask_root_def by (intro keeps_rules keeps_cases) (auto intro!: keeps_rules split: option.split)

lemma refuse_expired_answers: "refuse_expired E p g = (g', Ok i) \<Longrightarrow> i = Ing_Expired"
  by (auto simp: refuse_expired_def elim!: seq_elim)

text \<open>A pass ends round by round, the walk going on between them.\<close>

lemma tri_finish_pass:
  assumes round: "\<And>ended. tri P (finish_round E p ended)
      (\<lambda>x g. case x of Inl i \<Rightarrow> Q i g | Inr w \<Rightarrow> P (goes_on w g)) X"
    and walk: "keeps P (walk_graph E)"
  shows "tri P (finish_pass E p ended) Q X"
proof -
  have "P g \<Longrightarrow> case finish_pass F q ended g of (g', Ok x) \<Rightarrow> Q x g' | (g', Err e) \<Rightarrow> X g' | _ \<Rightarrow> True" if "F = E" "q = p" for F q ended g
    using that
  proof (induction F q ended g rule: finish_pass.induct)
    case (1 F q ended g)
    obtain g1 a where r: "finish_round E p ended g = (g1, a)" by fastforce
    note post = triD [OF round 1(3)]
    show ?case
    proof (cases "\<exists>w. a = Ok (Inr w)")
      case True
      then obtain w where a: "a = Ok (Inr w)" by blast
      have go: "P (goes_on w g1)" using post(1) r a by fastforce
      obtain g2 b where w: "walk_graph E (goes_on w g1) = (g2, b)" by fastforce
      have g2: "P g2" using keepsD [OF walk w go] .
      show ?thesis
      proof (cases b)
        case (Ok x)
        with 1(1) [of g1 a] r a w g2 1(4,5) show ?thesis by (simp add: finish_pass.simps [of E p ended g])
      next
        case (Err x)
        with 1(2) [of g1 a] r a w g2 1(4,5) show ?thesis by (simp add: finish_pass.simps [of E p ended g])
      qed (use r a w 1(4,5) in \<open>simp_all add: finish_pass.simps [of E p ended g]\<close>)
    next
      case False
      with r 1(4,5) post show ?thesis
        by (fastforce simp: finish_pass.simps [of E p ended g] split: answer.splits sum.splits)
    qed
  qed
  then show ?thesis by (auto simp: tri_def)
qed

subsection \<open>A fresh walk of a struck root\<close>

text \<open>Routines that absorb every error.\<close>

definition faultless :: "('g, 'a) act \<Rightarrow> bool" where
  "faultless m \<longleftrightarrow> (\<forall>g g' e. m g \<noteq> (g', Err e))"

lemma faultless_rules:
  "faultless (ok x)" "faultless (got f)" "faultless (upd h)" "faultless take_walk" "faultless (caught m)" "faultless (ignored m)"
  "faultless (discard E gid)" "faultless (forget_record q)" "faultless (\<lambda>g. (k g, Ok (y g)))"
  "faultless (\<lambda>g. if b then (g, Ok c) else (k g, Ok (y g)))"
  by (auto simp: faultless_def take_walk_def caught_def ignored_def discard_def forget_record_def elim!: seq_elim
      split: prod.splits answer.splits)

lemma faultless_seq: "faultless m \<Longrightarrow> (\<And>x. faultless (k x)) \<Longrightarrow> faultless (seq m k)"
  by (auto simp: faultless_def elim: seq_elim)

lemma faultless_if: "faultless m \<Longrightarrow> faultless n \<Longrightarrow> faultless (if b then m else n)"
  by simp

lemma faultless_drop: "faultless (drop_record E p why)"
  unfolding drop_record_def delete_record_def
  by (auto split: sum.split option.split intro!: faultless_if faultless_seq faultless_rules)

lemma faultless_refuse: "faultless (refuse_expired E p)"
  unfolding refuse_expired_def
  by (auto split: option.split intro!: faultless_if faultless_seq faultless_rules faultless_drop)

lemma tri_faultless: "faultless m \<Longrightarrow> tri P m (\<lambda>_ _. True) X"
  by (rule triI) (auto simp: faultless_def)

lemma tri_answered: "faultless m \<Longrightarrow> tri P (seq m (\<lambda>i. ok (Inl i))) (\<lambda>x g. case x of Inl _ \<Rightarrow> True | Inr _ \<Rightarrow> Q g) X"
  by (rule tri_seq [OF tri_faultless]) (auto intro: tri_ok)

definition light :: "'w gasp \<Rightarrow> bool" where
  "light g \<longleftrightarrow> (\<forall>w. g_walk g = Some w \<longrightarrow> \<not> wk_resumed w \<and> idle_faults (wk_record w) = 0)"

lemma light_fields [simp]: "light (g\<lparr>g_world := v\<rparr>) = light g" "light (g\<lparr>g_last_fault := c\<rparr>) = light g"
  by (simp_all add: light_def)

lemma light_walk_graph [keeps_rules]: "keeps light (walk_graph E)"
proof -
  let ?F = "\<lambda>x. \<forall>w. x = Some w \<longrightarrow> \<not> wk_resumed w \<and> idle_faults (wk_record w) = 0"
  have "keeps (\<lambda>g. ?F (g_walk g)) (walk_graph E)"
  proof (rule walk_graph_keeps_walk)
    fix x y assume s: "same_walk x y" and x: "?F x"
    show "?F y"
    proof (intro allI impI)
      fix w assume y: "y = Some w"
      with s obtain v where v: "x = Some v" using same_walk_None by (cases x) auto
      with s y have u: "uncounted w = uncounted v" using same_walk_Some by fastforce
      show "\<not> wk_resumed w \<and> idle_faults (wk_record w) = 0" 
        using x v uncounted_fields(3) [OF u] arg_cong [OF uncounted_fields(14) [OF u], of idle_faults] by simp
    qed
  qed (auto simp: commit_def Let_def pop_pending_def split: option.splits step_out.splits)
  then show ?thesis by (simp add: light_def [abs_def])
qed

lemma light_calls [keeps_rules]:
  "keeps light (complete_graph E gid)" "keeps light (discard E gid)" "keeps light (walk_paid E)"
proof -
  show "keeps light (complete_graph E gid)"
    unfolding complete_graph_def by (auto split: sum.splits gasp_error.splits intro!: keeps_rules)
  show "keeps light (discard E gid)" unfolding discard_def by (auto intro!: keeps_rules)
  show "keeps light (walk_paid E)" unfolding walk_paid_def by (auto split: option.splits intro!: keeps_rules)
qed

subsection \<open>The contract\<close>

locale record_store =
  fixes E :: "'w gasp_env" and J :: "'w \<Rightarrow> bool" and held :: "'w \<Rightarrow> string \<Rightarrow> deferred_graph option"
    and p :: string
  assumes held_owns: "\<And>w r. J w \<Longrightarrow> held w p = Some r \<Longrightarrow> owns p r"
    and graph_still: "\<And>T n x. keeps (\<lambda>w. J w \<and> held w = T) (st_append_to_graph E n x)"
      "\<And>T n. keeps (\<lambda>w. J w \<and> held w = T) (st_find_needed_inputs E n)"
      "\<And>T i. keeps (\<lambda>w. J w \<and> held w = T) (st_validate_graph_anchor E i)"
      "\<And>T i. keeps (\<lambda>w. J w \<and> held w = T) (st_finalize_graph E i)" "\<And>T i. keeps (\<lambda>w. J w \<and> held w = T) (st_discard_graph E i)"
    and memo_still: "\<And>T q t. keeps (\<lambda>w. J w \<and> held w = T) (st_remember_expired E q t)"
    and peer_still: "\<And>T i t n b. keeps (\<lambda>w. J w \<and> held w = T) (rm_request_node E i t n b)"
      "\<And>T t. keeps (\<lambda>w. J w \<and> held w = T) (fe_verified_proof_for E t)"
      "\<And>T f t. fe_fetch_ancestor E = Some f \<Longrightarrow> keeps (\<lambda>w. J w \<and> held w = T) (f t)"
    and clock_still: "\<And>T. keeps (\<lambda>w. J w \<and> held w = T) (tm_deadline_due E)"
      "\<And>T h. tm_half_due E = Some h \<Longrightarrow> keeps (\<lambda>w. J w \<and> held w = T) h"
      "\<And>T h. tm_share_due E = Some h \<Longrightarrow> keeps (\<lambda>w. J w \<and> held w = T) h"
    and hook_still: "\<And>T h. hk_graph_completed E = Some h \<Longrightarrow> keeps (\<lambda>w. J w \<and> held w = T) h"
    and get_law: "\<And>w w' a. J w \<Longrightarrow> st_get_deferred_graph E p w = (w', a)
      \<Longrightarrow> J w' \<and> held w' = held w \<and> (\<forall>r. a = Ok r \<longrightarrow> r = held w p)"
    and save_law: "\<And>w w' r a. J w \<Longrightarrow> owns p r \<Longrightarrow> st_save_deferred_graph E r w = (w', a)
      \<Longrightarrow> J w' \<and> (\<forall>q. held w q \<noteq> None \<longrightarrow> held w' q \<noteq> None) \<and> (a = Ok Saved \<longrightarrow> held w' p \<noteq> None)"
    and reserve_law: "\<And>w w' r a. J w \<Longrightarrow> owns p r \<Longrightarrow> st_reserve_unanchorable_retry E r w = (w', a)
      \<Longrightarrow> J w' \<and> (\<forall>q. held w q \<noteq> None \<longrightarrow> held w' q \<noteq> None)"
    and delete_law: "\<And>w w' a. J w \<Longrightarrow> st_delete_deferred_graph E p w = (w', a)
      \<Longrightarrow> J w' \<and> (\<forall>q. q \<noteq> p \<longrightarrow> held w' q = held w q)"
begin

definition has :: "string \<Rightarrow> 'w \<Rightarrow> bool" where
  "has q w \<longleftrightarrow> J w \<and> held w q \<noteq> None"

lemma still_has: "(\<And>T. keeps (\<lambda>w. J w \<and> held w = T) m) \<Longrightarrow> keeps (has q) m"
  unfolding keeps_def has_def by metis

lemma still_J: "(\<And>T. keeps (\<lambda>w. J w \<and> held w = T) m) \<Longrightarrow> keeps J m"
  unfolding keeps_def by metis

lemmas still_laws = graph_still memo_still peer_still clock_still hook_still

lemma own_has: "own_record E (has q) p"
proof
  show "gives (has q) (\<lambda>r. \<forall>x. r = Some x \<longrightarrow> owns p x) (st_get_deferred_graph E p)"
    unfolding gives_def has_def using get_law held_owns by metis
  show "owns p r \<Longrightarrow> keeps (has q) (st_save_deferred_graph E r)" for r
    by (rule keepsI) (use save_law in \<open>fastforce simp: has_def\<close>)
  show "owns p r \<Longrightarrow> keeps (has q) (st_reserve_unanchorable_retry E r)" for r
    by (rule keepsI) (use reserve_law in \<open>fastforce simp: has_def\<close>)
qed (intro still_has still_laws; assumption)+

lemma kept_J: "world_kept E J p"
proof
  show "gives J (\<lambda>r. \<forall>x. r = Some x \<longrightarrow> owns p x) (st_get_deferred_graph E p)"
    unfolding gives_def using get_law held_owns by metis
  show "owns p r \<Longrightarrow> keeps J (st_save_deferred_graph E r)" "owns p r \<Longrightarrow> keeps J (st_reserve_unanchorable_retry E r)" for r
    by (rule keepsI; use save_law reserve_law in blast)+
  show "keeps J (st_delete_deferred_graph E p)" by (rule keepsI) (use delete_law in blast)
qed (intro still_J still_laws; assumption)+

text \<open>The records of the other roots stay held through the ingest of a root.\<close>

lemma delete_other: "q \<noteq> p \<Longrightarrow> keeps (has q) (st_delete_deferred_graph E p)"
proof (rule keepsI)
  fix w w' a
  assume "q \<noteq> p" "st_delete_deferred_graph E p w = (w', a)" "has q w"
  then show "has q w'" using delete_law [of w w' a] by (simp add: has_def)
qed

lemma kept_other: "q \<noteq> p \<Longrightarrow> world_kept E (has q) p"
  by (simp add: world_kept_def world_kept_axioms_def own_has delete_other)

end

sublocale record_store \<subseteq> jk: world_kept E J p
  by (rule kept_J)

sublocale record_store \<subseteq> hk: own_record E "has p" p
  by (rule own_has)

subsection \<open>The record of the root\<close>

context record_store
begin

lemma have_here: "hk.here g \<Longrightarrow> jk.here g"
  by (simp add: within_def has_def)

text \<open>Whether the record of the root is known to be held.\<close>

definition leaves :: "bool \<Rightarrow> 'w gasp \<Rightarrow> bool" where
  "leaves b g \<longleftrightarrow> jk.here g \<and> (b \<longrightarrow> hk.here g)"

lemma leaves_simps [simp]: "leaves False g \<longleftrightarrow> jk.here g" "leaves True g \<longleftrightarrow> hk.here g"
  by (auto simp: leaves_def have_here)

lemma leaves_mono: "leaves b g \<Longrightarrow> (c \<Longrightarrow> b) \<Longrightarrow> leaves c g"
  by (auto simp: leaves_def)

lemma leaves_fields [simp]: "leaves b (g\<lparr>g_last_fault := j\<rparr>) = leaves b g" "leaves b (g\<lparr>g_walk := None\<rparr>) \<longleftrightarrow> J (g_world g) \<and> (b \<longrightarrow> has p (g_world g))"
  by (auto simp: leaves_def has_def)

lemma tri_both: "keeps jk.here m \<Longrightarrow> keeps hk.here m \<Longrightarrow> tri (leaves b) m (\<lambda>_. leaves b) (\<lambda>_. True)"
  by (rule triI) (auto simp: leaves_def dest: keepsD)

lemma tri_here: "keeps jk.here m \<Longrightarrow> tri (leaves False) m (\<lambda>_. leaves False) (\<lambda>_. True)"
  by (rule triI) (auto dest: keepsD)

lemma tri_held: "keeps hk.here m \<Longrightarrow> tri (leaves True) m (\<lambda>_. leaves True) (\<lambda>_. True)"
  by (rule triI) (auto dest: keepsD)

lemma tri_weak: "tri (leaves b) m Q X \<Longrightarrow> (b \<Longrightarrow> c) \<Longrightarrow> tri (leaves c) m Q X"
  by (erule tri_pre) (auto elim: leaves_mono)

text \<open>The calls: what a read finds is held, and what a save accepts is held from then on.\<close>

lemma tri_save: "owns p r \<Longrightarrow> tri (leaves b) (caught (io (st_save_deferred_graph E r))) (\<lambda>s. leaves (b \<or> s = Inr Saved)) X"
proof (rule triI)
  fix g g' x
  assume r: "owns p r" and g: "leaves b g" and run: "caught (io (st_save_deferred_graph E r)) g = (g', Ok x)"
  obtain w a where w: "st_save_deferred_graph E r (g_world g) = (w, a)" "g' = g\<lparr>g_world := w\<rparr>" "x = Inr Saved \<longrightarrow> a = Ok Saved"
    using run by (auto simp: caught_def io_def split: prod.splits answer.splits)
  show "leaves (b \<or> x = Inr Saved) g'"
    using save_law [OF _ r w(1)] r g w(2,3) by (auto simp: leaves_def within_def has_def owns_def)
qed (auto simp: caught_def split: prod.splits answer.splits)

lemma tri_get:
  "tri (leaves b) (io (st_get_deferred_graph E p)) (\<lambda>r g. leaves (b \<or> r \<noteq> None) g \<and> (\<forall>x. r = Some x \<longrightarrow> owns p x)) (leaves b)"
proof (rule triI)
  fix g g' r
  assume g: "leaves b g" and run: "io (st_get_deferred_graph E p) g = (g', Ok r)"
  obtain w where w: "st_get_deferred_graph E p (g_world g) = (w, Ok r)" "g' = g\<lparr>g_world := w\<rparr>"
    using run by (auto simp: io_def split: prod.splits)
  show "leaves (b \<or> r \<noteq> None) g' \<and> (\<forall>x. r = Some x \<longrightarrow> owns p x)"
    using get_law [OF _ w(1)] held_owns [of "g_world g"] g by (auto simp: w(2) leaves_def within_def has_def)
qed (auto simp: leaves_def dest: keepsD [OF jk.io_rules(10)] keepsD [OF hk.io_rules(10)])

lemmas tri_try_get = tri_caught [OF tri_get]

text \<open>A strike that holds a record: the record was held before, and the strike keeps it.\<close>

lemma tri_strike_resumed: "tri (leaves False) (strike_resumed E p x) (\<lambda>s. leaves (s \<noteq> None)) (\<lambda>_. True)"
proof -
  have strike: "tri (leaves True) (seq (upd (\<lambda>g. g\<lparr>g_last_fault := None\<rparr>)) (\<lambda>_.
      seq (do_strike E (dg_score prior) p c (Some prior)) (\<lambda>s. ok (if sk_held s = None then None else Some s))))
      (\<lambda>s. leaves (s \<noteq> None)) (\<lambda>_. True)" for prior c
    by (rule tri_post [OF tri_held]) (intro keeps_rules hk.here_strike | simp add: leaves_def have_here)+
  show ?thesis unfolding strike_resumed_def
  proof (rule tri_seq [OF tri_got], goal_cases)
    case (1 cls)
    show ?case
    proof (cases cls)
      case (Some c)
      show ?thesis unfolding Some option.case
        by (rule tri_pre [where P' = "leaves False"], rule tri_if, rule tri_ok, simp, rule tri_seq [OF tri_try_get])
           (auto split: sum.split option.split intro!: tri_ok tri_pre [OF strike] simp: have_here simp del: not_None_eq)
    qed (auto intro: tri_ok)
  qed
qed

text \<open>An answer other than a landing or a refusal leaves the root owed.\<close>

definition owed :: "ingested \<Rightarrow> bool" where
  "owed i \<longleftrightarrow> i \<noteq> Ing_Completed \<and> i \<noteq> Ing_Expired"

lemma tri_refuse: "tri (leaves False) (refuse_expired E p) (\<lambda>i. leaves (owed i)) (\<lambda>_. True)"
  by (rule triI, frule refuse_expired_answers) (auto simp: owed_def dest: keepsD [OF jk.here_refuse])

lemma tri_take: "tri (\<lambda>g. leaves b g \<and> alive g) take_walk (\<lambda>x g. leaves b g \<and> (\<exists>w. x = Some w \<and> owns p (wk_record w))) X"
  by (rule triI) (auto simp: take_walk_def leaves_def within_def alive_def rooted_def)

lemma tri_strike_or_drop: "tri (leaves False) (strike_or_drop E p gid e why own) (\<lambda>i. leaves (owed i)) (\<lambda>_. True)"
proof -
  have s: "tri (leaves (s \<noteq> None)) (case s of
             Some k \<Rightarrow> if passable k then ok Ing_Unanchorable else err e
           | None \<Rightarrow> seq (drop_record E p why) (\<lambda>_. err e)) (\<lambda>i. leaves (owed i)) (\<lambda>_. True)" for s
    by (cases s) (auto intro!: tri_if tri_ok tri_err tri_seq [OF tri_here] jk.here_drop elim: leaves_mono simp: have_here)
  show ?thesis unfolding strike_or_drop_def
    by (intro tri_seq [OF tri_here] jk.here_discard jk.here_take tri_if tri_err tri_seq [OF tri_strike_resumed] s) simp_all
qed

lemma tri_save_walk:
  "tri (\<lambda>g. leaves b g \<and> alive g) (save_walk E reason completed) (\<lambda>s. leaves (b \<or> s = Save_Yes \<or> s = Save_Retry)) X"
  unfolding save_walk_def
proof (rule tri_seq [OF tri_take], goal_cases)
  case (1 x)
  show ?case
  proof (cases "\<exists>w. x = Some w \<and> owns p (wk_record w)")
    case True
    then obtain w where w: "x = Some w" "owns p (wk_record w)" by blast
    have up: "tri (leaves c) (upd (\<lambda>g. if wk_resumed v then g\<lparr>g_pass_saved := True\<rparr>
        else g\<lparr>g_fault_records := del q (g_fault_records g), g_held_records := g_held_records g + 1\<rparr>)) (\<lambda>_. leaves c) X" for c v q
      by (rule triI) (auto simp: leaves_def)
    show ?thesis unfolding w(1) option.case Let_def
      by (rule tri_pre [where P' = "leaves b"],
          intro tri_if tri_read tri_prod tri_seq [OF tri_save] tri_saved tri_seq [OF up] tri_ok)
         (auto simp: w(2) elim: leaves_mono)
  qed (auto simp: tri_def)
qed

text \<open>The end of a pass: the walk is still in hand where it is to be saved.\<close>

definition ready :: "'w gasp \<Rightarrow> bool" where
  "ready g \<longleftrightarrow> jk.here g \<and> alive g"

lemma readyD: "ready g \<Longrightarrow> leaves False g" "ready g \<Longrightarrow> leaves False g \<and> alive g"
  by (simp_all add: ready_def)

abbreviation ends :: "ingested + 'b \<Rightarrow> 'w gasp \<Rightarrow> bool" where
  "ends x g \<equiv> case x of Inl i \<Rightarrow> leaves (owed i) g | Inr _ \<Rightarrow> ready g"

lemma tri_alive: "keeps jk.here m \<Longrightarrow> keeps alive m
    \<Longrightarrow> tri ready m (\<lambda>_. ready) (\<lambda>_. True)"
  by (rule triI) (auto simp: ready_def dest: keepsD)

lemma tri_answer: "tri P m (\<lambda>i. leaves (owed i)) X \<Longrightarrow> tri P (seq m (\<lambda>i. ok (Inl i))) ends X"
  by (erule tri_seq) (rule tri_ok, simp)

lemma tri_landed: "tri (leaves False) (seq m (\<lambda>_. ok (Inl Ing_Completed))) ends (\<lambda>_. True)" if "keeps jk.here m"
  by (rule tri_seq [OF tri_here [OF that]]) (rule tri_ok, simp add: owed_def)

lemma tri_done:
  "tri ready (finish_end E p gid resumed (Inr Walk_Done)) ends (\<lambda>_. True)"
proof -
  have c: "tri ready (caught (complete_graph E gid)) (\<lambda>_. ready) (\<lambda>_. True)"
    by (intro tri_alive keeps_rules)
  have d: "tri ready (seq (discard E gid) (\<lambda>_. ok (Inr y))) ends (\<lambda>_. True)" for y :: "string \<times> bool"
    by (intro tri_seq [OF tri_alive] keeps_rules tri_ok) simp
  show ?thesis unfolding finish_end_def sum.case walk_end.case
  proof (rule tri_seq [OF c], goal_cases)
    case (1 r)
    show ?case
    proof (cases r)
      case (Inl e)
      then show ?thesis by (cases e) (auto intro: tri_ok d)
    next
      case (Inr b)
      then show ?thesis
        by (cases b) (auto simp: owed_def ready_def intro!: tri_ok tri_seq [OF tri_pre [OF tri_here]] tri_landed keeps_rules)
    qed
  qed
qed

lemma tri_finish_end:
  "tri ready (finish_end E p gid resumed ended) ends (\<lambda>_. True)"
proof -
  let ?P = ready
  have s: "tri ?P (seq (strike_or_drop E p gid e why own) (\<lambda>i. ok (Inl i))) ends (\<lambda>_. True)" for e why own
    by (rule tri_answer) (rule tri_pre [OF tri_strike_or_drop], rule readyD)
  have f: "tri ?P (seq (if resumed then ok True else walk_paid E) (\<lambda>paid.
              if \<not> paid then seq (discard E gid) (\<lambda>_. seq take_walk (\<lambda>_. err e))
              else
                seq count_idle_fault (\<lambda>idle.
                  if DEFERRED_GRAPH_MAX_IDLE_FAULTS \<le> idle
                  then seq (strike_or_drop E p gid e Idle_Faults True) (\<lambda>i. ok (Inl i))
                  else seq (discard E gid) (\<lambda>_. ok (Inr (''fault'', False)))))) ends (\<lambda>_. True)" for e
  proof (rule tri_seq [OF tri_alive], goal_cases)
    case (3 paid)
    have n1: "tri ?P (seq (discard E gid) (\<lambda>_. seq take_walk (\<lambda>_. err e))) ends (\<lambda>_. True)"
      by (intro tri_seq [OF tri_alive] tri_seq [OF tri_pre [OF tri_take [of False]]] alive_calls jk.here_discard tri_err) (auto dest: readyD)
    have n2: "tri ?P (seq (discard E gid) (\<lambda>_. ok (Inr (''fault'', False)))) ends (\<lambda>_. True)"
      by (intro tri_seq [OF tri_alive] keeps_rules tri_ok) simp
    show ?case by (intro tri_if s n1 n2 tri_seq [OF tri_alive [OF jk.here_idle_fault alive_steps(3)]])
  qed (intro keeps_rules)+
  show ?thesis
  proof (cases ended)
    case (Inl e)
    then show ?thesis by (simp add: finish_end_def s f)
  next
    case (Inr y)
    have "tri ?P (seq (refuse_expired E p) (\<lambda>i. ok (Inl i))) ends (\<lambda>_. True)"
      by (rule tri_answer) (rule tri_pre [OF tri_refuse], rule readyD)
    with Inr tri_done show ?thesis by (cases y) (auto simp: finish_end_def intro: tri_ok)
  qed
qed

lemma tri_finish_save:
  assumes "jk.saved_rooted s"
  shows "tri (leaves (s = Save_Yes \<or> s = Save_Retry)) (finish_save E p gid bcut s)
    (\<lambda>x g. case x of Inl i \<Rightarrow> leaves (owed i) g | Inr w \<Rightarrow> ready (goes_on w g)) (\<lambda>_. True)"
    (is "tri _ _ ?Q _")
proof -
  have on: "ready (goes_on w g)" if "owns p (wk_record w)" "jk.here g" for w g
    using that by (simp add: goes_on_def ready_def within_def)
  have yes: "tri (leaves True) (seq (discard E gid) (\<lambda>_. ok (Inl i))) ?Q (\<lambda>_. True)" for i
    by (intro tri_seq [OF tri_held] hk.here_discard tri_ok) (simp add: leaves_def have_here)
  have no: "tri (leaves False) (seq (discard E gid) (\<lambda>_. err e)) ?Q (\<lambda>_. True)" for e
    by (intro tri_seq [OF tri_here] jk.here_discard tri_err) simp
  have go: "tri (leaves False) (ok (Inr w)) ?Q (\<lambda>_. True)" if "owns p (wk_record w)" for w
    by (rule tri_ok) (use that on in simp)
  have un: "tri (leaves False) (unkept E why w) (\<lambda>v g. jk.here g \<and> owns p (wk_record v)) (\<lambda>_. True)"
    if "owns p (wk_record w)" for why w
    by (rule tri_pre [OF tri_gives [OF jk.unkept_gives [OF that]]]) simp_all
  have un': "tri (leaves False) (seq (unkept E why w) (\<lambda>w'. if \<not> (bcut \<and> why = Too_Many) then seq (discard E gid) (\<lambda>_. err e)
      else ok (Inr w'))) ?Q (\<lambda>_. True)" if "owns p (wk_record w)" for why w e
    by (rule tri_seq [OF un [OF that]], rule tri_pure) (use no go in \<open>simp add: tri_def\<close>)
  show ?thesis using assms unfolding finish_save_def
    by (cases s) (simp_all add: jk.saved_rooted_def yes no go un' [simplified])
qed

lemma tri_finish_round:
  "tri ready (finish_round E p ended) (\<lambda>x g. case x of Inl i \<Rightarrow> leaves (owed i) g | Inr w \<Rightarrow> ready (goes_on w g)) (\<lambda>_. True)"
proof -
  have s: "tri ready (save_walk E reason completed) (\<lambda>s g. leaves (s = Save_Yes \<or> s = Save_Retry) g \<and> jk.saved_rooted s) (\<lambda>_. True)"
    for reason completed
    by (rule tri_with [OF _ jk.save_walk_gives], rule tri_post [OF tri_pre [OF tri_save_walk [of False]]])
       (auto simp: ready_def)
  have k: "tri (ends x) (case x of
         Inl i \<Rightarrow> ok (Inl i)
       | Inr (reason, completed) \<Rightarrow> seq (save_walk E reason completed) (finish_save E p gid (budget_cut reason)))
     (\<lambda>x g. case x of Inl i \<Rightarrow> leaves (owed i) g | Inr w \<Rightarrow> ready (goes_on w g)) (\<lambda>_. True)" for x gid
    by (cases x) (auto intro!: tri_ok tri_seq [OF s] tri_pure tri_finish_save)
  show ?thesis unfolding finish_round_def
    by (intro tri_read tri_prod tri_seq [OF tri_finish_end] k)
qed

lemma ready_walk: "keeps ready (walk_graph E)"
  unfolding ready_def [abs_def] by (intro keeps_both keeps_rules)

lemma tri_pass: "tri ready (finish_pass E p ended) (\<lambda>i. leaves (owed i)) (\<lambda>_. True)"
  by (rule tri_finish_pass [OF tri_finish_round ready_walk])

text \<open>The fresh walk of a struck root keeps the record whatever fault ends its pass.\<close>

definition spared :: "'w gasp \<Rightarrow> bool" where
  "spared g \<longleftrightarrow> hk.here g \<and> light g"

lemma sparedD: "spared g \<Longrightarrow> hk.here g"
  by (simp add: spared_def)

lemma tri_spared: "keeps hk.here m \<Longrightarrow> keeps light m \<Longrightarrow> tri spared m (\<lambda>_. spared) hk.here"
  by (rule triI) (auto simp: spared_def dest: keepsD)

lemma tri_idle: "tri spared count_idle_fault (\<lambda>n g. spared g \<and> n = 0) X"
  by (rule triI) (auto simp: spared_def light_def count_idle_fault_def Let_def within_def split: option.splits)

lemma spared_done:
  "tri spared (finish_end E p gid False (Inr Walk_Done)) (\<lambda>x g. case x of Inl _ \<Rightarrow> True | Inr _ \<Rightarrow> spared g) hk.here"
proof -
  let ?Q = "\<lambda>(x :: ingested + string \<times> bool) g. case x of Inl _ \<Rightarrow> True | Inr _ \<Rightarrow> spared g"
  have d: "tri spared (seq (discard E gid) (\<lambda>_. ok (Inr y))) ?Q hk.here" for y
    by (intro tri_seq [OF tri_spared] hk.here_discard light_calls tri_ok) simp
  have f: "tri spared m ?Q hk.here" if "\<And>g g' x. m g = (g', Ok x) \<Longrightarrow> \<exists>i. x = Inl i" "faultless m" for m
    by (rule triI) (use that in \<open>fastforce simp: faultless_def\<close>)+
  show ?thesis unfolding finish_end_def sum.case walk_end.case
  proof (rule tri_seq [OF tri_spared], goal_cases)
    case (3 r)
    show ?case
    proof (cases r)
      case (Inl e)
      then show ?thesis by (cases e) (auto intro: tri_ok d)
    next
      case (Inr b)
      then show ?thesis
        by (cases b) (auto intro!: tri_ok f faultless_seq faultless_rules faultless_if faultless_drop elim!: seq_elim split: option.split)
    qed
  qed (intro keeps_rules)+
qed

lemma spared_end:
  "tri spared (finish_end E p gid False ended) (\<lambda>x g. case x of Inl _ \<Rightarrow> True | Inr _ \<Rightarrow> spared g) hk.here"
proof (cases ended)
  case (Inl e)
  let ?Q = "\<lambda>(x :: ingested + string \<times> bool) g. case x of Inl _ \<Rightarrow> True | Inr _ \<Rightarrow> spared g"
  have n: "tri spared (seq (discard E gid) (\<lambda>_. seq take_walk (\<lambda>_. err e))) Q hk.here" for Q :: "'z \<Rightarrow> 'w gasp \<Rightarrow> bool"
    by (rule tri_seq [OF tri_spared [OF hk.here_discard light_calls(2)]], rule tri_seq [where R = "\<lambda>_. hk.here"])
       (auto simp: spared_def intro: tri_err tri_pre [OF tri_keeps [OF hk.here_take]])
  have s: "tri spared (seq (strike_or_drop E p gid e Not_Held False) (\<lambda>i. ok (Inl i))) ?Q hk.here"
    by (rule tri_seq [where R = "\<lambda>_ _. True"], unfold strike_or_drop_def) (auto intro: n tri_ok simp del: seq_take_walk)
  have d: "tri spared (seq (discard E gid) (\<lambda>_. ok (Inr y))) ?Q hk.here" for y
    by (intro tri_seq [OF tri_spared] hk.here_discard light_calls tri_ok) simp
  have f: "tri spared (seq (walk_paid E) (\<lambda>paid.
              if \<not> paid then seq (discard E gid) (\<lambda>_. seq take_walk (\<lambda>_. err e))
              else
                seq count_idle_fault (\<lambda>idle.
                  if DEFERRED_GRAPH_MAX_IDLE_FAULTS \<le> idle
                  then seq (strike_or_drop E p gid e Idle_Faults True) (\<lambda>i. ok (Inl i))
                  else seq (discard E gid) (\<lambda>_. ok (Inr (''fault'', False)))))) ?Q hk.here"
    by (intro tri_seq [OF tri_spared [OF hk.here_paid light_calls(3)]] tri_if n tri_seq [OF tri_idle] tri_pure)
       (simp add: DEFERRED_GRAPH_MAX_IDLE_FAULTS_def, rule d)
  show ?thesis by (simp add: Inl finish_end_def s f)
next
  case (Inr y)
  with spared_done show ?thesis
    by (cases y) (auto simp: finish_end_def intro: tri_ok tri_answered faultless_refuse)
qed

lemma light_saved: "idle_faults (wk_record w) = 0 \<Longrightarrow> idle_faults (saved_record now reason completed w) = 0"
  by (simp add: saved_record_def Let_def)

definition unworn :: "walk \<Rightarrow> bool" where
  "unworn w \<longleftrightarrow> \<not> wk_resumed w \<and> idle_faults (wk_record w) = 0 \<and> owns p (wk_record w)"

lemma spared_save:
  "tri spared (save_walk E reason completed)
    (\<lambda>s g. hk.here g \<and> (case s of Save_Unkept _ w \<Rightarrow> unworn w | Save_Fault _ w \<Rightarrow> unworn w | Save_Ceiling w \<Rightarrow> unworn w | _ \<Rightarrow> True)) hk.here"
proof (rule triI)
  fix g g' s
  assume g: "spared g" and run: "save_walk E reason completed g = (g', Ok s)"
  have "hk.here g'" using keepsD [OF hk.here_save run] g by (simp add: spared_def)
  moreover have "case s of Save_Unkept _ w \<Rightarrow> unworn w | Save_Fault _ w \<Rightarrow> unworn w | Save_Ceiling w \<Rightarrow> unworn w | _ \<Rightarrow> True"
    using run g
    by (auto simp: save_walk_def spared_def Let_def unworn_def light_saved light_def within_def elim!: seq_elim
        split: option.splits if_splits sum.splits deferred_graph_save.splits)
  ultimately show "hk.here g' \<and> (case s of Save_Unkept _ w \<Rightarrow> unworn w | Save_Fault _ w \<Rightarrow> unworn w
      | Save_Ceiling w \<Rightarrow> unworn w | _ \<Rightarrow> True)" ..
next
  show "spared g \<Longrightarrow> save_walk E reason completed g = (g', Err e) \<Longrightarrow> hk.here g'" for g g' e
    using keepsD [OF hk.here_save] by (auto simp: spared_def)
qed

lemma spared_finish_save:
  assumes "case s of Save_Unkept _ w \<Rightarrow> unworn w | Save_Fault _ w \<Rightarrow> unworn w | Save_Ceiling w \<Rightarrow> unworn w | _ \<Rightarrow> True"
  shows "tri hk.here (finish_save E p gid bcut s) (\<lambda>x g. case x of Inl _ \<Rightarrow> True | Inr w \<Rightarrow> spared (goes_on w g)) hk.here"
    (is "tri _ _ ?Q _")
proof -
  have on: "spared (goes_on w g)" if "unworn w" "hk.here g" for w g
    using that by (simp add: goes_on_def spared_def unworn_def light_def within_def)
  have d: "tri hk.here (discard E gid) (\<lambda>_. hk.here) hk.here"
    by (rule tri_keeps [OF hk.here_discard])
  have yes: "tri hk.here (seq (discard E gid) (\<lambda>_. ok (Inl i))) ?Q hk.here" for i
    by (intro tri_seq [OF d] tri_ok) simp
  have no: "tri hk.here (seq (discard E gid) (\<lambda>_. err e)) ?Q hk.here" for e
    by (intro tri_seq [OF d] tri_err) simp
  have go: "tri hk.here (ok (Inr w)) ?Q hk.here" if "unworn w" for w
    by (rule tri_ok) (use that on in simp)
  have "unkept E why w = ok w" if "unworn w" for why w
    using that by (simp add: unkept_def unworn_def)
  then show ?thesis using assms unfolding finish_save_def
    by (cases s) (simp_all add: yes no go seq_answer)
qed

lemma spared_round:
  "tri spared (finish_round E p ended) (\<lambda>x g. case x of Inl _ \<Rightarrow> True | Inr w \<Rightarrow> spared (goes_on w g)) hk.here"
proof -
  let ?K = "\<lambda>gid x. case x of
         Inl i \<Rightarrow> ok (Inl i)
       | Inr (reason, completed) \<Rightarrow> seq (save_walk E reason completed) (finish_save E p gid (budget_cut reason))"
  let ?Q = "\<lambda>x g. case x of Inl _ \<Rightarrow> True | Inr w \<Rightarrow> spared (goes_on w g)"
  have k: "tri (\<lambda>g. case x of Inl _ \<Rightarrow> True | Inr _ \<Rightarrow> spared g) (?K gid x) ?Q hk.here" for gid and x :: "ingested + string \<times> bool"
    by (cases x) (auto intro!: tri_ok tri_seq [OF spared_save] tri_pure spared_finish_save)
  have t: "tri spared (seq (finish_end E p gid False ended) (?K gid)) ?Q hk.here" for gid
    by (rule tri_seq [OF spared_end k])
  have "finish_round E p ended g = seq (finish_end E p (graph_id_of (g_walk g) p) False ended) (?K (graph_id_of (g_walk g) p)) g"
    if "spared g" for g
  proof -
    have "(case g_walk g of None \<Rightarrow> False | Some w \<Rightarrow> wk_resumed w) = False"
      using that by (simp add: spared_def light_def split: option.split)
    then show ?thesis by (simp add: finish_round_def seq_answer)
  qed
  then show ?thesis using t by (simp add: tri_def)
qed

lemma spared_pass: "tri spared (finish_pass E p ended) (\<lambda>_ _. True) hk.here"
  by (rule tri_finish_pass [OF spared_round]) (unfold spared_def [abs_def], intro keeps_both keeps_rules)

lemma tri_pass_struck:
  "tri (\<lambda>g. ready g \<and> spared g) (finish_pass E p ended) (\<lambda>i. leaves (owed i)) (leaves True)"
  by (rule triI) (auto dest: triD [OF tri_pass] triD [OF spared_pass])

text \<open>What keeps the record held through an answer.\<close>

lemma tri_stay: "keeps hk.here m \<Longrightarrow> tri (leaves True) m (\<lambda>i. leaves (F i)) (\<lambda>_. True)"
  by (rule triI) (auto simp: leaves_def have_here dest: keepsD)

lemma tri_struck_out:
  assumes "owns p r"
  shows "tri (\<lambda>g. case out of Inl _ \<Rightarrow> leaves True g | Inr i \<Rightarrow> leaves (owed i) g) (case out of
        Inr i \<Rightarrow>
          if un \<and> i \<noteq> Ing_Completed \<and> i \<noteq> Ing_Expired
          then seq (keep_unanchorable E r) (\<lambda>_. ok Ing_Unanchorable)
          else if i = Ing_Retry \<and> dg_cursor_passable r
          then seq (caught (io (st_save_deferred_graph E r))) (\<lambda>saved.
               seq (if saved = Inr Saved then know_fault_record p else ok ()) (\<lambda>_.
                 ok (if un then Ing_Unanchorable else Ing_Deferred)))
          else ok i
      | Inl e \<Rightarrow>
          seq take_walk (\<lambda>_.
          seq take_fault (\<lambda>cls.
            case cls of
              Some c \<Rightarrow>
                if strikes c
                then seq (do_strike E sc p c (Some r)) (\<lambda>k. if passable k then ok Ing_Unanchorable else err e)
                else if un then seq (keep_unanchorable E r) (\<lambda>_. ok Ing_Unanchorable)
                else err e
            | None \<Rightarrow>
                if un then seq (keep_unanchorable E r) (\<lambda>_. ok Ing_Unanchorable) else err e)))
    (\<lambda>i. leaves (owed i)) (\<lambda>_. True)"
proof (cases out)
  case (Inl e)
  show ?thesis unfolding Inl sum.case
    by (rule tri_stay, intro keeps_rules keeps_option hk.here_take hk.here_take_fault hk.here_strike hk.here_keep assms)
next
  case (Inr i)
  have a: "tri (leaves (owed i)) (seq (keep_unanchorable E r) (\<lambda>_. ok Ing_Unanchorable)) (\<lambda>i. leaves (owed i)) (\<lambda>_. True)"
    if "owed i" using that by (auto intro!: tri_stay keeps_rules hk.here_keep assms)
  have b: "tri (leaves (owed i)) (seq (caught (io (st_save_deferred_graph E r))) (\<lambda>saved.
       seq (if saved = Inr Saved then know_fault_record p else ok ()) (\<lambda>_.
         ok (if un then Ing_Unanchorable else Ing_Deferred)))) (\<lambda>i. leaves (owed i)) (\<lambda>_. True)" if "owed i"
    using that by (auto intro!: tri_stay keeps_rules hk.here_marks hk.io_save assms)
  show ?thesis unfolding Inr sum.case
    by (intro tri_if a b tri_ok) (auto simp: owed_def)
qed

lemma put_struck: "tri (leaves True) (put_walk ((fresh_walk sc p cap)\<lparr>wk_struck := Some r\<rparr>)) (\<lambda>_ g. ready g \<and> spared g) X"
  by (rule triI) (auto simp: put_walk_def ready_def spared_def light_def fresh_walk_def fresh_record_def within_def owns_def has_def)

lemma tri_rewalk:
  assumes r0: "owns p r0"
  shows "tri (leaves True) (rewalk_struck E u p r0 cap) (\<lambda>i. leaves (owed i)) (\<lambda>_. True)"
proof -
  have w: "tri (\<lambda>g. ready g \<and> spared g) (caught (walk_graph E)) (\<lambda>_ g. ready g \<and> spared g) (\<lambda>_. True)"
    by (rule tri_keeps) (auto simp: spared_def [abs_def] intro!: keeps_rules keeps_both ready_walk)
  have r: "owns p (if b then r0\<lparr>unanchorable_retries := m, retry_at := n\<rparr> else r0)" for b m n
    using r0 by simp
  show ?thesis unfolding rewalk_struck_def Let_def
    by (intro tri_read tri_if tri_seq [OF tri_held] tri_seq [OF put_struck] tri_seq [OF w] tri_seq [OF tri_caught [OF tri_pass_struck]]
        tri_struck_out r tri_ok keeps_if keeps_ok hk.here_keep hk.io_save r0)
       (auto simp: leaves_def have_here)
qed

lemma tri_walk_and_finish:
  assumes "owns p (wk_record w)"
  shows "tri (leaves False) (walk_and_finish E sc p cap w) (\<lambda>i. leaves (owed i)) (\<lambda>_. True)"
proof -
  have put: "tri (leaves False) (put_walk w) (\<lambda>_. ready) (\<lambda>_. True)"
    by (rule triI) (use assms in \<open>auto simp: put_walk_def ready_def within_def\<close>)
  show ?thesis unfolding walk_and_finish_def
    by (rule tri_seq [OF put], rule tri_seq [OF tri_alive], intro keeps_rules keeps_cases, intro keeps_rules keeps_cases)
       (rule tri_pass)
qed

lemma tri_resume:
  assumes "owns p r"
  shows "tri (leaves True) (resume_record E sc p cap r) (\<lambda>i. leaves (owed i)) (\<lambda>_. True)"
proof -
  have weak: "tri (leaves False) m Q X \<Longrightarrow> tri (leaves True) m Q X" for m :: "('w gasp, 'b) act" and Q X
    by (erule tri_weak) simp
  have past: "keeps hk.here (case dg_nodes r of [] \<Rightarrow> ok False | n # _ \<Rightarrow> root_expired E (node n) p)"
    by (intro keeps_list keeps_rules)
  have refuse: "tri (leaves True) (seq (upd (\<lambda>g. g\<lparr>g_deferred := ins p (g_deferred g)\<rparr>)) (\<lambda>_. refuse_expired E p))
      (\<lambda>i. leaves (owed i)) (\<lambda>_. True)"
    by (rule weak, rule tri_seq [OF tri_here tri_refuse], rule keeps_upd) simp
  have drop: "tri (leaves True) (seq (drop_record E p Max_Passes) (\<lambda>_. err e)) (\<lambda>i. leaves (owed i)) (\<lambda>_. True)" for e
    by (rule weak, rule tri_seq [OF tri_here], rule jk.here_drop) (rule tri_err, simp)
  have up: "keeps hk.here (upd (\<lambda>g. if dg_cursor_passable r then g\<lparr>g_resume_idle := y\<rparr> else g))" for y
    by (rule keeps_upd) simp
  show ?thesis unfolding resume_record_def
    by (intro tri_seq [OF tri_held [OF past]] tri_if refuse tri_read tri_ok tri_seq [OF tri_held [OF up]] drop weak [OF tri_walk_and_finish])
       (use assms in \<open>auto simp: leaves_def have_here\<close>)
qed

lemma tri_sweep:
  assumes "\<And>x. r = Some x \<Longrightarrow> owns p x"
  shows "tri (leaves b) (sweep_expired_record E r) (\<lambda>swept. leaves (b \<and> \<not> swept)) (\<lambda>_. True)"
proof (cases r)
  case (Some x)
  then have x: "dg_outpoint x = p" using assms ownsD by blast
  have gone: "tri (leaves b) (seq (io (st_remember_expired E p ex)) (\<lambda>_. seq (io (st_delete_deferred_graph E p)) (\<lambda>_.
      seq (forget_record p) (\<lambda>_. seq (upd (\<lambda>g. g\<lparr>g_deferred := del p (g_deferred g), g_expired := ins p (g_expired g)\<rparr>)) (\<lambda>_.
        ok True))))) (\<lambda>swept. leaves (b \<and> \<not> swept)) (\<lambda>_. True)" for ex
    by (rule tri_weak [of False], intro tri_seq [OF tri_here] jk.io_rules jk.io_delete jk.here_marks keeps_upd tri_ok) simp_all
  show ?thesis unfolding Some sweep_expired_record_def option.case Let_def x
    by (intro tri_if tri_ok tri_seq [OF tri_both] jk.here_read_record hk.here_read_record tri_read gone) (simp_all add: leaves_def)
qed (auto simp: sweep_expired_record_def leaves_def intro!: tri_ok)

text \<open>The pass of one root, under the limbs of a pass or of the resumes.\<close>

lemma tri_found:
  "tri (leaves False) (io (st_get_deferred_graph E p)) (\<lambda>r g. leaves (r \<noteq> None) g \<and> (\<forall>x. r = Some x \<longrightarrow> owns p x)) (\<lambda>_. True)"
  by (rule tri_post [OF tri_get]) auto

lemma tri_read_held:
  "tri (leaves False) (read_held E p h) (\<lambda>r g. leaves (r \<noteq> None) g \<and> (\<forall>x. r = Some x \<longrightarrow> owns p x)) (\<lambda>_. True)"
  unfolding read_held_def
  by (intro tri_if tri_ok tri_seq [OF tri_found tri_pure] tri_seq [OF tri_both] jk.here_read_record hk.here_read_record keeps_upd) auto

lemma tri_pick:
  assumes "\<forall>x. rec = Some x \<longrightarrow> owns p x"
  shows "tri (leaves (rec \<noteq> None)) (case rec of
      Some r \<Rightarrow>
        if (is_unanchorable r \<or> is_dead r) \<and> dg_score r \<noteq> sc
        then seq (io (st_delete_deferred_graph E p)) (\<lambda>_. seq (forget_record p) (\<lambda>_. ok None))
        else ok rec
    | None \<Rightarrow> ok rec) (\<lambda>r g. leaves (r \<noteq> None) g \<and> (\<forall>x. r = Some x \<longrightarrow> owns p x)) (\<lambda>_. True)"
proof (cases rec)
  case (Some r)
  have "tri (leaves True) (seq (io (st_delete_deferred_graph E p)) (\<lambda>_. seq (forget_record p) (\<lambda>_. ok None)))
      (\<lambda>r g. leaves (r \<noteq> None) g \<and> (\<forall>x. r = Some x \<longrightarrow> owns p x)) (\<lambda>_. True)"
    by (rule tri_weak [of False], intro tri_seq [OF tri_here] jk.io_delete jk.here_marks tri_ok) simp_all
  with Some assms show ?thesis by (auto intro: tri_if tri_ok)
qed (auto intro: tri_ok)

lemma tri_budgeted: "tri (leaves False) (ingest_budgeted E u p cap h) (\<lambda>i. leaves (owed i)) (\<lambda>_. True)"
proof -
  have fresh: "tri (leaves False) (seq (start_half E (fresh_walk sc p cap)) (walk_and_finish E sc p cap))
      (\<lambda>i. leaves (owed i)) (\<lambda>_. True)" for sc
    by (rule tri_seq [OF tri_pre [OF tri_gives [OF jk.start_half_gives]]], simp_all)
       (rule tri_pure, rule tri_pre [OF tri_walk_and_finish], simp_all)
  have rest: "tri (leaves (r \<noteq> None)) (case r of
      None \<Rightarrow> seq (start_half E (fresh_walk sc p cap)) (walk_and_finish E sc p cap)
    | Some r \<Rightarrow> if is_struck r then rewalk_struck E u p r cap else resume_record E sc p cap r)
      (\<lambda>i. leaves (owed i)) (\<lambda>_. True)" if "\<forall>x. r = Some x \<longrightarrow> owns p x" for r sc
    using that fresh by (cases r) (auto intro: tri_rewalk tri_resume)
  show ?thesis unfolding ingest_budgeted_def Let_def
    by (rule tri_seq [OF tri_read_held], rule tri_pure, rule tri_seq [OF tri_sweep], simp,
        intro tri_if tri_ok tri_seq [OF tri_weak [OF tri_pick] tri_pure] rest)
       (auto simp: owed_def leaves_def)
qed

lemma tri_hold_back: "tri (leaves False) (hold_back E p) (\<lambda>i. leaves (owed i \<and> i \<noteq> Ing_Retry)) (\<lambda>_. True)"
proof -
  have rest: "tri (leaves (rec \<noteq> None)) (case rec of
             None \<Rightarrow> ok Ing_Retry
           | Some r \<Rightarrow>
               if waits_idle r now then ok Ing_Waiting
               else if is_dead r \<or> (is_unanchorable r \<and> now < retry_at r) then ok Ing_Unanchorable
               else if dg_reason r = ''retry:deadline'' then ok Ing_Retry
               else if is_struck r \<and> \<not> dg_cursor_passable r then ok Ing_Retry
               else if dg_cursor_passable r then ok Ing_HeldBack
               else
                 seq (io (st_save_deferred_graph E (r\<lparr>dg_cursor_passable := True\<rparr>))) (\<lambda>saved.
                   ok (if saved = Saved then Ing_HeldBack else Ing_Retry)))
      (\<lambda>i. leaves (owed i \<and> i \<noteq> Ing_Retry)) (\<lambda>_. True)" if "\<forall>x. rec = Some x \<longrightarrow> owns p x" for rec now
    using that by (cases rec) (auto intro!: tri_ok tri_stay keeps_rules hk.io_save)
  show ?thesis unfolding hold_back_def
    by (rule tri_seq [OF tri_found tri_pure],
        intro tri_seq [OF tri_both] jk.here_read_record hk.here_read_record tri_seq [OF tri_sweep] tri_if tri_ok tri_read tri_weak [OF rest])
       (auto simp: owed_def leaves_def)
qed

lemma tri_resume_pass: "tri (leaves False) (resume_pass E u p cap) (\<lambda>i. leaves (owed i)) (\<lambda>_. True)"
proof -
  have k: "tri (\<lambda>g. case out of Inl _ \<Rightarrow> True | Inr i \<Rightarrow> leaves (owed i) g)
     (seq (\<lambda>g. (g\<lparr>g_resume_idle := None\<rparr>, Ok (g_resume_idle g))) (\<lambda>idle.
      seq (got count) (\<lambda>count.
      seq (case idle of Some (prior, held) \<Rightarrow> if count then idle_resume E p prior held else ok () | None \<Rightarrow> ok ()) (\<lambda>_.
      seq (upd (\<lambda>g. g\<lparr>g_resume_left := charged cap at g\<rparr>)) (\<lambda>_. case out of Inr i \<Rightarrow> ok i | Inl e \<Rightarrow> err e)))))
     (\<lambda>i. leaves (owed i)) (\<lambda>_. True)" for out and count :: "'w gasp \<Rightarrow> bool" and at
  proof (cases out)
    case (Inl e)
    show ?thesis unfolding Inl sum.case
      by (rule triI) (auto elim!: seq_elim)
  next
    case (Inr i)
    have idle: "tri (leaves b) (case idle of Some (prior, held) \<Rightarrow> if c then idle_resume E p prior held else ok () | None \<Rightarrow> ok ())
        (\<lambda>_. leaves b) (\<lambda>_. True)" for b c and idle :: "(nat \<times> nat) option"
      by (rule tri_both; auto split: option.split intro!: keeps_if jk.here_idle_resume hk.here_idle_resume)
    have st: "tri (leaves b) (\<lambda>g. (g\<lparr>g_resume_idle := None\<rparr>, Ok (g_resume_idle g))) (\<lambda>_. leaves b) (\<lambda>_. True)" for b
      by (rule tri_both; rule keeps_state; simp)
    have up: "tri (leaves b) (upd (\<lambda>g. g\<lparr>g_resume_left := charged cap at g\<rparr>)) (\<lambda>_. leaves b) (\<lambda>_. True)" for b
      by (rule tri_both; rule keeps_upd; simp)
    show ?thesis unfolding Inr sum.case
      by (intro tri_seq [OF st] tri_read tri_seq [OF idle] tri_seq [OF up] tri_ok)
  qed
  show ?thesis unfolding resume_pass_def
    by (intro tri_read tri_seq [OF tri_caught [OF tri_budgeted]] k)
qed

text \<open>An ingest that lets the cursor pass the root without landing it leaves its record.\<close>

lemma ingest_leaves:
  "tri (leaves False) (ingest_utxo E u p) (\<lambda>i. leaves (owed i \<and> i \<noteq> Ing_Retry)) (\<lambda>_. True)"
proof -
  let ?Q = "\<lambda>i. leaves (owed i \<and> i \<noteq> Ing_Retry)"
  have weak: "tri (leaves False) m (\<lambda>i. leaves (owed i)) (\<lambda>_. True) \<Longrightarrow> tri (leaves False) m ?Q (\<lambda>_. True)" for m
    by (erule tri_post) (auto elim: leaves_mono)
  have up: "tri (leaves False) (upd (\<lambda>g. g\<lparr>g_last_fault := None, g_resume_idle := None, g_pass_saved := False\<rparr>)) (\<lambda>_. leaves False) (\<lambda>_. True)"
    "tri (leaves False) (upd (\<lambda>g. g\<lparr>g_deferred := del p (g_deferred g)\<rparr>)) (\<lambda>_. leaves False) (\<lambda>_. True)"
    by (rule tri_here; rule keeps_upd; simp)+
  have sw: "tri (leaves False) (if b then seq (io (st_get_deferred_graph E p)) (sweep_expired_record E) else ok False)
      (\<lambda>_. leaves False) (\<lambda>_. True)" for b
    by (rule tri_here, intro keeps_if keeps_ok keeps_gives [OF jk.get_gives] jk.here_sweep) simp
  show ?thesis unfolding ingest_utxo_def
    by (intro tri_seq [OF up(1)] tri_seq [OF up(2)] tri_read tri_prod tri_if tri_seq [OF sw] tri_ok weak [OF tri_refuse]
        weak [OF tri_budgeted] weak [OF tri_resume_pass] tri_hold_back tri_seq [OF tri_here [OF jk.here_share_due]])
       (simp add: owed_def)
qed

text \<open>What an ingest that starts with no walk in hand makes of the records.\<close>

lemma ingest_records:
  assumes "J (g_world g)" "g_walk g = None" "ingest_utxo E u p g = (g', a)"
  shows "J (g_world g')" "q \<noteq> p \<Longrightarrow> held (g_world g) q \<noteq> None \<Longrightarrow> held (g_world g') q \<noteq> None"
    "a = Ok i \<Longrightarrow> owed i \<Longrightarrow> i \<noteq> Ing_Retry \<Longrightarrow> held (g_world g') p \<noteq> None"
proof -
  have g: "jk.here g" using assms by (simp add: within_def)
  show "J (g_world g')" using keepsD [OF jk.here_ingest assms(3) g] by (rule withinD)
  show "held (g_world g') q \<noteq> None" if "q \<noteq> p" "held (g_world g) q \<noteq> None"
    using keepsD [OF world_kept.here_ingest [OF kept_other [OF that(1)]] assms(3)] that assms(1,2)
    by (simp add: within_def has_def)
  show "held (g_world g') p \<noteq> None" if "a = Ok i" "owed i" "i \<noteq> Ing_Retry"
    using triD(1) [OF ingest_leaves, of g] assms(3) g that by (fastforce simp: within_def has_def)
qed

end

end
