(* ===== verification/Gasp_Properties.thy ===== *)
theory Gasp_Properties
  imports Gasp_Cursor
begin

text \<open>
  What the sync of a peer guarantees: its cursor, the budget of a walk, the pruning of decoys, the push.
\<close>

subsection \<open>A peer in a script\<close>

text \<open>
  An environment with answers of its own, for concrete runs: the world is the number of nodes asked for; the peer
  serves three outputs, two of which the node holds, and has no node to give.
\<close>

definition out_a :: gasp_output where "out_a = \<lparr>go_txid = ''aa'', go_index = 0, go_score = 3\<rparr>"
definition out_b :: gasp_output where "out_b = \<lparr>go_txid = ''bb'', go_index = 1, go_score = 5\<rparr>"
definition out_c :: gasp_output where "out_c = \<lparr>go_txid = ''cc'', go_index = 0, go_score = 7\<rparr>"

definition script_env :: "nat gasp_env" where
  "script_env =
     \<lparr>st_sync_expiry = (\<lambda>_ _ _. Inr None), st_find_known_utxos = ok [out_a, out_c],
      st_find_needed_inputs = (\<lambda>_. ok None), st_append_to_graph = (\<lambda>_ _. ok ()), st_validate_graph_anchor = (\<lambda>_. ok ()),
      st_finalize_graph = (\<lambda>_. ok ()), st_discard_graph = (\<lambda>_. ok ()), st_load_deferred_graphs = ok [],
      st_get_deferred_graph = (\<lambda>_. ok None), st_save_deferred_graph = (\<lambda>_. ok Saved), st_delete_deferred_graph = (\<lambda>_. ok ()),
      st_read_fault_memos = (\<lambda>_. ok []), st_reserve_unanchorable_retry = (\<lambda>_. ok True), st_remember_expired = (\<lambda>_ _. ok ()),
      st_remembered_expired = (\<lambda>_. ok []), st_open_page = id, st_close_page = ok (),
      st_hydrate_gasp_node = (\<lambda>_ _. ok (''00'', None)), st_prefetch_page = (\<lambda>_. ok ()),
      rm_get_initial_response = (\<lambda>since. ok (filter (\<lambda>u. since \<le> go_u64 u) [out_a, out_b, out_c])),
      rm_request_node = (\<lambda>_ _ _ _ w. (w + 1, Err (RemoteError ''down''))), rm_submit_node = (\<lambda>_. ok None),
      fe_fetch_ancestor = None, fe_verified_proof_for = (\<lambda>_. ok None), hk_graph_completed = None,
      tm_now_secs = (\<lambda>_. 0), tm_deadline_due = ok False, tm_half_due = None, tm_share_due = None, tm_request_stop = None,
      tm_root_exhausted = (\<lambda>_. False), pb_pending = (\<lambda>_. False), pb_flush = ok (), gb_pass = \<lparr>pc_calls = 10, pc_bytes = 1000, pc_nodes = 10\<rparr>,
      cf_unidirectional = True, tx_id_of_hex = (\<lambda>h. Some h)\<rparr>"

definition idle_gasp :: "'w \<Rightarrow> 'w gasp" where
  "idle_gasp w =
     \<lparr>g_world = w, g_expired = [], g_deferred = [], g_fault_records = [], g_held_records = 0, g_pruned = [], g_absent = [],
      g_refused_expiry = None, g_root_expiries = [], g_resume_left = NO_CAP, g_share_started = False, g_calls_made = 0,
      g_bytes_fetched = 0, g_nodes_appended = 0, g_resume_idle = None, g_pass_saved = False, g_walk = None, g_last_fault = None\<rparr>"

definition idle_sync :: "'w \<Rightarrow> nat \<Rightarrow> 'w gsync" where
  "idle_sync w cursor =
     \<lparr>sy = idle_gasp w, last_interaction = cursor, completed_cursor = cursor, cursor_held_by = None, cursor_after_in_flight = 0,
      in_flight = None, page_floor = None, page_count = 0, page_advanced = False, page_reached_tip = False, lo_known = [],
      lo_shared = [], lo_failed = [], lo_min_failed = None, lo_completed = [], lo_initial = 0, lo_held_scores = [], lo_local = [],
      lo_keys = [], lo_served = [], lo_page = []\<rparr>"

subsection \<open>The cursor\<close>

lemma serves_from_script: "serves_from script_env"
  by (auto simp: serves_from_def script_env_def)

text \<open>
  C16: Wherever the sync of a peer stops (its end, an error, its future dropped in the middle of any call), the
  cursor it completed is not below the one it entered with, and every output the peer served on any page is
  settled, or the peer gave it a score below the entry cursor, or it is served again from the completed cursor.
  The floor of a page left open is below every output of that page. At the end \<open>last_interaction\<close> is that cursor.
\<close>

theorem sync_cursor_safe:
  assumes "serves_from E" "sync E s = (s', a)"
  shows "last_interaction s \<le> completed_cursor s' \<and>
    (\<forall>(q, x) \<in> set (lo_served s'). q \<in> set (lo_shared s') \<or>
       (\<exists>y. (q, y) \<in> set (lo_served s') \<union> set (lo_keys s') \<and> (y < last_interaction s \<or> completed_cursor s' \<le> y))) \<and>
    (\<forall>f. page_floor s' = Some f \<longrightarrow> (\<forall>(q, x) \<in> set (lo_page s'). x < last_interaction s \<or> f \<le> x)) \<and>
    (a = Ok () \<longrightarrow> last_interaction s' = completed_cursor s')"
proof -
  note t = sync_stop_ok [OF assms(1), of "last_interaction s"]
  have "stop_ok (last_interaction s) s'" "a = Ok () \<longrightarrow> last_interaction s' = completed_cursor s'"
    using tripleD [OF t refl] tripleZ [OF t refl assms(2)] assms(2) by (cases a; fastforce simp: ended_ok_def)+
  then show ?thesis unfolding stop_ok_def cursor_safe_def not_lost_def scored_def floor_ok_def
    by (elim conjE) (intro conjI; simp)
qed

theorem sync_cursor_safe_witness:
  "serves_from script_env \<and> 2 \<le> completed_cursor (fst (sync script_env (idle_sync 0 2)))"
proof -
  obtain s' a where run: "sync script_env (idle_sync 0 2) = (s', a)" by fastforce
  from sync_cursor_safe [OF serves_from_script run] run serves_from_script show ?thesis by (simp add: idle_sync_def)
qed

subsection \<open>A page lost at the deadline\<close>

lemma walkless_defer: "in_flight s = None \<Longrightarrow> g_walk (sy s) = None \<Longrightarrow> defer_in_flight E s = (s\<lparr>in_flight := None\<rparr>, Ok ())"
  by (simp add: defer_in_flight_def seq_def struck_in_hand_def)

text \<open>
  C37: The floor of a page is gone as soon as its close begins. A deadline that drops the sync while the page's
  batch is being written, followed by a write of the queue that fails, loses the page, and the cursor persisted is
  the completed one, above the floor the page was to fall back to.
\<close>

theorem lost_page_cursor_passed:
  assumes "page_floor s = Some f" "f < completed_cursor s" "entry < completed_cursor s" "in_flight s = None" "g_walk (sy s) = None"
    and "st_close_page E (g_world (sy s)) = (w, Cut_Sync)" "pb_pending E w" "pb_flush E w = (w', Err e)"
  shows "close_page E s = (s\<lparr>page_floor := None, sy := (sy s)\<lparr>g_world := w\<rparr>\<rparr>, Cut_Sync) \<and>
    (\<exists>s'. peer_cursor E entry Cut_Sync (fst (close_page E s)) = (s', Ok (Some (completed_cursor s))))"
proof -
  have c: "close_page E s = (s\<lparr>page_floor := None, sy := (sy s)\<lparr>g_world := w\<rparr>\<rparr>, Cut_Sync)"
    using assms by (simp add: close_page_def seq_def inner_def caught_def io_def)
  let ?t = "s\<lparr>page_floor := None, sy := (sy s)\<lparr>g_world := w'\<rparr>\<rparr>"
  have "page_lost E (fst (close_page E s)) = (?t, Ok True)"
    using assms by (simp add: c page_lost_def inner_def caught_def io_def seq_def)
  then have "peer_cursor E entry Cut_Sync (fst (close_page E s)) = (?t\<lparr>in_flight := None\<rparr>, Ok (Some (completed_cursor s)))"
    using assms by (simp add: peer_cursor_def seq_def walkless_defer)
  with c show ?thesis by blast
qed

definition cut_env :: "nat gasp_env" where
  "cut_env = script_env\<lparr>st_close_page := (\<lambda>w. (w, Cut_Sync)), pb_pending := (\<lambda>_. True), pb_flush := err (StorageError ''down'')\<rparr>"

theorem lost_page_cursor_passed_witness:
  "\<exists>s'. peer_cursor cut_env 3 Cut_Sync (fst (close_page cut_env ((idle_sync 0 7)\<lparr>page_floor := Some 3\<rparr>))) = (s', Ok (Some 7))"
  using lost_page_cursor_passed [of "(idle_sync 0 7)\<lparr>page_floor := Some 3\<rparr>" 3 3 cut_env 0 0 "StorageError ''down''"]
  by (auto simp: cut_env_def script_env_def idle_sync_def idle_gasp_def)

subsection \<open>The budget of a walk\<close>

text \<open>The calls an action counts on the walk in hand, at most.\<close>

definition costs :: "nat \<Rightarrow> ('w gasp, 'a) act \<Rightarrow> bool" where
  "costs n m \<longleftrightarrow> (\<forall>g. calls_of (g_walk (fst (m g))) \<le> calls_of (g_walk g) + n)"

named_theorems costs_rules \<open>the calls the routines of a walk count\<close>

lemma costsD: "costs n m \<Longrightarrow> m g = (g', a) \<Longrightarrow> calls_of (g_walk g') \<le> calls_of (g_walk g) + n"
  unfolding costs_def by (metis fst_conv)

lemma costsI: "(\<And>g g' a. m g = (g', a) \<Longrightarrow> calls_of (g_walk g') \<le> calls_of (g_walk g) + n) \<Longrightarrow> costs n m"
  unfolding costs_def by (metis prod.collapse)

lemma costs_pure [costs_rules]: "costs n (ok x)" "costs n (err e)" "costs n (got f)"
  by (simp_all add: costs_def)

lemma costs_upd: "(\<And>g. g_walk (f g) = g_walk g) \<Longrightarrow> costs n (upd f)"
  by (simp add: costs_def)

lemma costs_io [costs_rules]: "costs n (io m)"
  by (rule costsI) (auto simp: io_def split: prod.splits)

lemma costs_seq: "costs m x \<Longrightarrow> (\<And>y. costs n (k y)) \<Longrightarrow> costs (m + n) (seq x k)"
  by (rule costsI, erule seq_elim) (fastforce dest: costsD)+

lemma costs_free: "costs 0 x \<Longrightarrow> (\<And>y. costs n (k y)) \<Longrightarrow> costs n (seq x k)"
  using costs_seq [of 0 x n k] by simp

lemma costs_last: "costs n x \<Longrightarrow> (\<And>y. costs 0 (k y)) \<Longrightarrow> costs n (seq x k)"
  using costs_seq [of n x 0 k] by simp

lemma costs_caught: "costs n m \<Longrightarrow> costs n (caught m)"
  by (rule costsI) (auto simp: caught_def split: prod.splits answer.splits dest: costsD)

lemma costs_faulted: "costs n m \<Longrightarrow> costs n (faulted c m)"
  by (rule costsI) (auto simp: faulted_def split: prod.splits answer.splits gasp_error.splits dest: costsD)

lemma costs_call: "(\<And>y. costs n (k y)) \<Longrightarrow> costs (Suc n) (seq count_call k)"
proof -
  have "costs 1 count_call" by (auto simp: costs_def count_call_def upd_walk_def calls_of_def split: option.splits)
  then show "(\<And>y. costs n (k y)) \<Longrightarrow> costs (Suc n) (seq count_call k)" using costs_seq [of 1 count_call n k] by simp
qed

lemma costs_fetched [costs_rules]: "costs n (count_fetched x)"
  by (auto simp: costs_def count_fetched_def upd_walk_def calls_of_def split: option.splits)

lemma costs_expired [costs_rules]: "costs n (root_expired E x p)"
  by (auto simp: costs_def root_expired_def Let_def split: sum.splits option.splits)

lemma costs_absorbed [costs_rules]: "costs n (absorbed E item x)"
  unfolding absorbed_def absorb_def by (auto intro!: costs_faulted costs_free costs_rules)

lemma costs_hydrate [costs_rules]: "costs (Suc n) (hydrate_root E x)"
  unfolding hydrate_root_def by (auto split: option.splits intro!: costs_call costs_free costs_rules)

lemma costs_ask_peer [costs_rules]: "costs (Suc n) (ask_peer_for_input E item t i)"
  unfolding ask_peer_for_input_def
  by (rule costs_free, rule costs_rules, split if_split, intro conjI impI costs_rules costs_call costs_free costs_caught)
     (auto split: sum.splits intro!: costs_free costs_upd costs_rules)

lemma costs_step: "costs 2 (step E item)"
proof -
  have "costs 2 (fetch_root E item)" unfolding fetch_root_def numeral_2_eq_2
    by (split option.split, intro conjI impI allI costs_rules, split prod.split, intro conjI impI allI costs_call costs_free costs_rules)
       (auto intro!: costs_rules costs_last)
  then have root: "costs 2 (root_step E item)" unfolding root_step_def
    by (intro costs_last costs_faulted) (auto split: option.splits intro!: costs_rules)
  have fetcher: "costs 2 (fetcher_step E fetch item t i)" for fetch t i
    unfolding fetcher_step_def Let_def numeral_2_eq_2
    by (intro costs_call costs_free costs_caught costs_rules)
       (auto split: sum.splits intro!: costs_free [OF costs_pure(3)] costs_free [OF costs_fetched] costs_last costs_caught costs_faulted costs_rules)
  have peer: "costs 2 (peer_step E item t i)" for t i
    unfolding peer_step_def numeral_2_eq_2
    by (split if_split, intro conjI impI, intro costs_last costs_faulted costs_rules, intro costs_call costs_free costs_caught costs_rules)
       (auto split: sum.splits intro!: costs_free [OF costs_upd] costs_free [OF costs_fetched] costs_faulted costs_rules)
  show ?thesis unfolding step_def by (auto split: option.splits intro!: root fetcher peer costs_rules)
qed

lemma raced_walk: "raced m g = (g', a) \<Longrightarrow> \<exists>b. m g = (g', b)"
  by (auto simp: raced_def split: prod.splits answer.splits)

lemma walk_round_counts:
  assumes "walk_round E item g = (g', a)" "g_walk g = Some w"
  shows "\<exists>w'. g_walk g' = Some w' \<and> wk_cap w' = wk_cap w \<and> calls_this_pass w' \<le> calls_this_pass w + 2
    \<and> nodes_this_pass w' \<le> nodes_this_pass w + 1"
proof -
  have stepped: "\<exists>w'. g_walk g2 = Some w' \<and> uncounted w' = uncounted w \<and> calls_this_pass w' \<le> calls_this_pass w + 2"
    if "raced (step E item) g1 = (g2, b)" "g_walk g1 = Some w" for g1 g2 b
  proof -
    from raced_walk [OF that(1)] obtain c where st: "step E item g1 = (g2, c)" by blast
    have "same_walk (Some w) (g_walk g2)" using keeps_walks_on [OF keeps_step st] that(2) by simp
    then obtain w' where "g_walk g2 = Some w'" "uncounted w' = uncounted w" using same_walk_Some by blast
    with costsD [OF costs_step st] that(2) show ?thesis by (auto simp: calls_of_def)
  qed
  have committed: "\<exists>w'. g_walk (commit out g2) = Some w' \<and> wk_cap w' = wk_cap w \<and> calls_this_pass w' \<le> calls_this_pass w + 2
      \<and> nodes_this_pass w' \<le> nodes_this_pass w + 1"
    if "g_walk g2 = Some v" "uncounted v = uncounted w" "calls_this_pass v \<le> calls_this_pass w + 2" for g2 v out
    using that uncounted_fields(2,4) [OF that(2)] by (cases out) (auto simp: commit_def Let_def pop_pending_def)
  obtain g1 b where d: "io (tm_deadline_due E) g = (g1, b)" by fastforce
  then have g1: "g_walk g1 = Some w" using assms(2) by (auto simp: io_def split: prod.splits)
  obtain g2 c where r: "raced (step E item) g1 = (g2, c)" by fastforce
  from stepped [OF r g1] obtain v where v: "g_walk g2 = Some v" "uncounted v = uncounted w" "calls_this_pass v \<le> calls_this_pass w + 2"
    by blast
  note f = uncounted_fields(2,4) [OF v(2)]
  show ?thesis using assms(1) g1 v f committed [OF v] unfolding walk_round_def seq_def d r
    by (auto simp: root_bound_def r split: answer.splits bool.splits option.splits if_splits sum.splits)
qed

lemma walk_graph_counts:
  assumes "walk_graph E g = (g', a)" "g_walk g = Some w"
  shows "\<exists>w'. g_walk g' = Some w' \<and> wk_cap w' = wk_cap w
    \<and> calls_this_pass w' \<le> max (calls_this_pass w) (pc_calls (wk_cap w) + 1)
    \<and> nodes_this_pass w' \<le> max (nodes_this_pass w) (pc_nodes (wk_cap w))"
  using assms
proof (induction E g arbitrary: g' a w rule: walk_graph.induct)
  case (1 E g)
  let ?item = "last (dg_pending (wk_record w))"
  note run = 1(3) [unfolded walk_graph.simps [of E g]] and w = 1(4)
  show ?case
  proof (cases "dg_pending (wk_record w) = []")
    case False
    show ?thesis
    proof (cases "parent_proven ?item \<and> pi_outpoint ?item \<in> set (g_pruned g)")
      case True
      with run w False have "walk_graph E (g\<lparr>g_walk := Some (pop_pending w)\<rparr>) = (g', a)" by (simp add: Let_def)
      from 1(1) [OF w False refl True this] show ?thesis by (simp add: pop_pending_def)
    next
      case go: False
      show ?thesis
      proof (cases "walk_over w")
        case None
        obtain g1 b where r: "walk_round E ?item g = (g1, b)" by fastforce
        from walk_round_counts [OF r w] obtain v where v: "g_walk g1 = Some v" "wk_cap v = wk_cap w"
          "calls_this_pass v \<le> calls_this_pass w + 2" "nodes_this_pass v \<le> nodes_this_pass w + 1" by blast
        have lim: "calls_this_pass w < pc_calls (wk_cap w)" "nodes_this_pass w < pc_nodes (wk_cap w)"
          using None by (auto simp: walk_over_def split: if_splits)
        show ?thesis
        proof (cases "b = Ok None")
          case True
          with run w False go None r have "walk_graph E g1 = (g', a)" by (simp add: Let_def)
          from 1(2) [OF w False refl go None r [symmetric] True refl this v(1)] v lim show ?thesis by fastforce
        next
          case False
          with run w \<open>dg_pending (wk_record w) \<noteq> []\<close> go None r have "g' = g1"
            by (auto simp: Let_def split: answer.splits option.splits)
          with v lim show ?thesis by auto
        qed
      qed (use run w False go in \<open>auto simp: Let_def\<close>)
    qed
  qed (use run w in auto)
qed

text \<open>
  C17: A walk stays within its pass: whatever it ends with, it appended at most the nodes of the cap and counted at
  most one call more than the cap allows (the last step may ask a chain fetcher and then the peer).
\<close>

theorem walk_within_pass:
  assumes "walk_graph E g = (g', a)" "g_walk g = Some w" "calls_this_pass w = 0" "nodes_this_pass w = 0"
  shows "\<exists>w'. g_walk g' = Some w' \<and> calls_this_pass w' \<le> pc_calls (wk_cap w) + 1 \<and> nodes_this_pass w' \<le> pc_nodes (wk_cap w)"
  using walk_graph_counts [OF assms(1,2)] assms(3,4) by auto

theorem walk_within_pass_witness:
  "calls_of (g_walk (fst (walk_graph script_env ((idle_gasp 0)\<lparr>g_walk := Some (fresh_walk 5 ''bb.1'' (gb_pass script_env))\<rparr>)))) \<le> 11"
proof -
  let ?w = "fresh_walk 5 ''bb.1'' (gb_pass script_env)" and ?g = "(idle_gasp 0)\<lparr>g_walk := Some (fresh_walk 5 ''bb.1'' (gb_pass script_env))\<rparr>"
  obtain g' a where run: "walk_graph script_env ?g = (g', a)" by fastforce
  have w: "g_walk ?g = Some ?w" "calls_this_pass ?w = 0" "nodes_this_pass ?w = 0" "pc_calls (wk_cap ?w) = 10"
    by (simp_all add: fresh_walk_def script_env_def)
  from walk_within_pass [OF run w(1-3)] w(4) run show ?thesis by (auto simp: calls_of_def)
qed

subsection \<open>What is pruned\<close>

text \<open>
  C18: An input is dropped from a graph only when it names no outpoint, or when there is no chain fetcher, a proven
  node named it, and the peer answered that very request that it does not hold it. No other failure prunes.
\<close>

theorem pruned_only_when_absent:
  assumes "step E item g = (g', Ok Step_Pruned)"
  shows "pi_spent_by item \<noteq> None \<and>
    (parse_outpoint (pi_outpoint item) = None \<or>
     fe_fetch_ancestor E = None \<and> parent_proven item \<and>
     (\<exists>t i w' why. parse_outpoint (pi_outpoint item) = Some (t, i) \<and>
        rm_request_node E (pi_graph_id item) t i (pi_metadata item) (g_world g) = (w', Err (NodeNotFound why))))"
proof -
  have [simp]: "absorbed E item n h \<noteq> (h', Ok Step_Pruned)" for n h h'
    by (auto simp: absorbed_def faulted_def absorb_def elim!: seq_elim split: if_splits prod.splits answer.splits)
  have root: "root_step E item g \<noteq> (g', Ok Step_Pruned)"
    by (auto simp: root_step_def elim!: seq_elim split: option.splits)
  have fetcher: "fetcher_step E f item t i g \<noteq> (g', Ok Step_Pruned)" for f t i
    by (auto simp: fetcher_step_def Let_def faulted_def elim!: seq_elim split: sum.splits if_splits gasp_error.splits)
  have peer: "parent_proven item \<and> (\<exists>w' why. rm_request_node E (pi_graph_id item) t i (pi_metadata item) (g_world g) = (w', Err (NodeNotFound why)))"
    if "peer_step E item t i g = (g', Ok Step_Pruned)" for t i
    using that
    by (auto simp: peer_step_def count_call_def upd_walk_def faulted_def caught_def io_def is_not_found_def elim!: seq_elim
        split: sum.splits if_splits gasp_error.splits prod.splits answer.splits)
  show ?thesis using assms root fetcher peer by (auto simp: step_def split: if_splits option.splits)
qed

definition absent_env :: "nat gasp_env" where
  "absent_env = script_env\<lparr>rm_request_node := (\<lambda>_ _ _ _ w. (w + 1, Err (NodeNotFound ''no'')))\<rparr>"

definition decoy :: pending_input where
  "decoy = \<lparr>pi_outpoint = ''dd.2'', pi_graph_id = ''bb.1'', pi_metadata = True, pi_spent_by = Some ''bb.1'', parent_proven = True\<rparr>"

lemma parse_decoy: "parse_outpoint ''dd.2'' = Some (''dd'', 2)"
  by (simp add: parse_outpoint_def parse_u32_def char_digit_def)

theorem pruned_only_when_absent_witness:
  "step absent_env decoy (idle_gasp 0) = ((idle_gasp 1)\<lparr>g_pruned := [''dd.2''], g_calls_made := 1\<rparr>, Ok Step_Pruned)
   \<and> parent_proven decoy"
proof -
  have run: "step absent_env decoy (idle_gasp 0) = ((idle_gasp 1)\<lparr>g_pruned := [''dd.2''], g_calls_made := 1\<rparr>, Ok Step_Pruned)"
    by (simp add: step_def decoy_def parse_decoy absent_env_def script_env_def peer_step_def seq_def count_call_def upd_walk_def
        caught_def io_def is_not_found_def idle_gasp_def ins_def)
  from pruned_only_when_absent [OF run] run show ?thesis by (simp add: decoy_def parse_decoy)
qed

subsection \<open>A walk that goes on\<close>

text \<open>The state with another cap on the walk in hand.\<close>

definition recap :: "pass_cap \<Rightarrow> 'w gasp \<Rightarrow> 'w gasp" where
  "recap c g = upd_walk (\<lambda>w. w\<lparr>wk_cap := c\<rparr>) g"

text \<open>An action that neither reads nor writes the cap.\<close>

definition capless :: "('w gasp, 'a) act \<Rightarrow> bool" where
  "capless m \<longleftrightarrow> (\<forall>c g. m (recap c g) = map_prod (recap c) id (m g))"

named_theorems capless_rules \<open>the routines that do not look at the cap\<close>

lemma caplessD: "capless m \<Longrightarrow> m g = (g', a) \<Longrightarrow> m (recap c g) = (recap c g', a)"
  by (simp add: capless_def)

lemma caplessI: "(\<And>c g g' a. m g = (g', a) \<Longrightarrow> m (recap c g) = (recap c g', a)) \<Longrightarrow> capless m"
  by (simp add: capless_def) (metis eq_id_iff map_prod_simp prod.collapse)

lemma recap_fields [simp]:
  "g_world (recap c g) = g_world g" "g_absent (recap c g) = g_absent g" "g_pruned (recap c g) = g_pruned g"
  "g_root_expiries (recap c g) = g_root_expiries g" "g_nodes_appended (recap c g) = g_nodes_appended g"
  "g_walk (recap c g) = map_option (\<lambda>w. w\<lparr>wk_cap := c\<rparr>) (g_walk g)"
  "now_secs E (recap c g) = now_secs E g"
  by (simp_all add: recap_def upd_walk_def now_secs_def)

lemma recap_update [simp]:
  "(recap c g)\<lparr>g_world := w\<rparr> = recap c (g\<lparr>g_world := w\<rparr>)" "(recap c g)\<lparr>g_last_fault := f\<rparr> = recap c (g\<lparr>g_last_fault := f\<rparr>)"
  "(recap c g)\<lparr>g_absent := xs\<rparr> = recap c (g\<lparr>g_absent := xs\<rparr>)" "(recap c g)\<lparr>g_pruned := xs\<rparr> = recap c (g\<lparr>g_pruned := xs\<rparr>)"
  "(recap c g)\<lparr>g_root_expiries := t\<rparr> = recap c (g\<lparr>g_root_expiries := t\<rparr>)"
  "(recap c g)\<lparr>g_refused_expiry := e\<rparr> = recap c (g\<lparr>g_refused_expiry := e\<rparr>)"
  by (simp_all add: recap_def upd_walk_def)

lemma capless_pure [capless_rules]: "capless (ok x)" "capless (err e)"
  by (simp_all add: capless_def)

lemma capless_got: "(\<And>c g. f (recap c g) = f g) \<Longrightarrow> capless (got f)"
  by (simp add: capless_def)

lemma capless_upd: "(\<And>c g. f (recap c g) = recap c (f g)) \<Longrightarrow> capless (upd f)"
  by (simp add: capless_def)

lemma capless_io [capless_rules]: "capless (io m)"
  by (rule caplessI) (auto simp: io_def split: prod.splits)

lemma capless_seq [capless_rules]: "capless m \<Longrightarrow> (\<And>x. capless (k x)) \<Longrightarrow> capless (seq m k)"
  by (rule caplessI, erule seq_elim) (auto simp: seq_def caplessD)

lemma capless_caught [capless_rules]: "capless m \<Longrightarrow> capless (caught m)" "capless m \<Longrightarrow> capless (raced m)"
  by (rule caplessI; auto simp: caught_def raced_def caplessD split: prod.splits answer.splits)+

lemma capless_faulted [capless_rules]: "capless m \<Longrightarrow> capless (faulted cls m)"
  by (rule caplessI) (auto simp: faulted_def caplessD split: prod.splits answer.splits gasp_error.splits)

lemma capless_count [capless_rules]: "capless count_call" "capless (count_fetched n)"
  unfolding count_call_def count_fetched_def
  by (rule capless_upd, rename_tac c g, case_tac "g_walk g", simp_all add: recap_def upd_walk_def)+

lemma capless_expired [capless_rules]: "capless (root_expired E n p)"
  by (rule caplessI) (auto simp: root_expired_def Let_def split: sum.splits option.splits if_splits)

lemma capless_fetch [capless_rules]: "capless (fetch_root E item)" "capless (ask_peer_for_input E item t i)"
  unfolding fetch_root_def hydrate_root_def ask_peer_for_input_def
  by (auto split: option.splits sum.splits intro!: capless_rules capless_got capless_upd)

lemma capless_absorbed [capless_rules]: "capless (absorbed E item n)"
  unfolding absorbed_def absorb_def by (intro capless_rules capless_got) (auto split: option.splits intro!: capless_rules)

lemma capless_root [capless_rules]: "capless (root_step E item)"
  unfolding root_step_def by (auto split: option.splits intro!: capless_rules)

lemma capless_fetcher [capless_rules]: "capless (fetcher_step E f item t i)"
  unfolding fetcher_step_def Let_def
  by (intro capless_seq capless_caught capless_count capless_io) (auto split: sum.split intro!: capless_rules capless_got)

lemma capless_peer [capless_rules]: "capless (peer_step E item t i)"
  unfolding peer_step_def
  by (split if_split, intro conjI impI capless_seq capless_caught capless_count capless_io capless_faulted capless_fetch capless_absorbed)
     (auto split: sum.split intro!: capless_rules capless_upd)

lemma capless_step [capless_rules]: "capless (step E item)"
  unfolding step_def by (auto split: option.split intro!: capless_rules)

lemma capless_commit: "commit out (recap c g) = recap c (commit out g)"
  by (cases "g_walk g"; cases out) (auto simp: commit_def Let_def recap_def upd_walk_def pop_pending_def)

lemma capless_round: "capless (walk_round E item)"
proof -
  have "capless (\<lambda>g. case r of
       None \<Rightarrow> root_bound ''time'' g
     | Some res \<Rightarrow>
         if tm_root_exhausted E (g_world g) \<or> res = Inl CourierBudget then root_bound ''courier_rungs'' g
         else (case res of
                 Inl e \<Rightarrow> (g, Err e)
               | Inr out \<Rightarrow> if out = Step_Expired then (g, Ok (Some Walk_Expired)) else (commit out g, Ok None)))" for r
    by (auto simp: capless_def root_bound_def capless_commit split: option.splits sum.splits)
  then show ?thesis unfolding walk_round_def
    by (intro capless_seq capless_io) (auto intro!: capless_seq capless_caught capless_step simp: capless_def [of "root_bound _"] root_bound_def)
qed

lemma walk_round_ends:
  assumes "walk_round E item g = (g', Ok (Some (Walk_Deferred limb)))"
  shows "limb \<in> {''time'', ''courier_rungs''}"
  using assms
  by (auto simp: walk_round_def root_bound_def elim!: seq_elim split: if_splits option.splits sum.splits)

definition cap_le :: "pass_cap \<Rightarrow> pass_cap \<Rightarrow> bool" where
  "cap_le c d \<longleftrightarrow> pc_calls c \<le> pc_calls d \<and> pc_bytes c \<le> pc_bytes d \<and> pc_nodes c \<le> pc_nodes d"

lemma walk_over_le: "cap_le (wk_cap w) d \<Longrightarrow> walk_over w = None \<Longrightarrow> walk_over (w\<lparr>wk_cap := d\<rparr>) = None"
  by (auto simp: cap_le_def walk_over_def split: if_splits)

text \<open>
  C19: A walk that a counted limb cut and that goes on with a larger cap (a save its storage refused) makes the very
  walk it would have made had it never been cut: nothing asked for twice, nothing skipped, the same end.
\<close>

theorem going_on_is_uncut:
  assumes "walk_graph E g = (g1, Ok (Walk_Deferred limb))" "limb \<notin> {''time'', ''courier_rungs''}"
    and "\<And>w. g_walk g = Some w \<Longrightarrow> cap_le (wk_cap w) d"
  shows "walk_graph E (recap d g) = walk_graph E (recap d g1)"
  using assms
proof (induction E g rule: walk_graph.induct)
  case (1 E g)
  note run = 1(3) [unfolded walk_graph.simps [of E g]]
  obtain w where w: "g_walk g = Some w" using run by (cases "g_walk g") auto
  let ?item = "last (dg_pending (wk_record w))"
  have ne: "dg_pending (wk_record w) \<noteq> []" using run w by auto
  show ?case
  proof (cases "parent_proven ?item \<and> pi_outpoint ?item \<in> set (g_pruned g)")
    case True
    let ?g = "g\<lparr>g_walk := Some (pop_pending w)\<rparr>"
    have pop: "(recap d g)\<lparr>g_walk := Some (pop_pending (w\<lparr>wk_cap := d\<rparr>))\<rparr> = recap d ?g"
      using w by (simp add: recap_def upd_walk_def pop_pending_def)
    have "walk_graph E ?g = (g1, Ok (Walk_Deferred limb))" using run w ne True by (simp add: Let_def)
    from 1(1) [OF w ne refl True this 1(4)] 1(5) [OF w] have "walk_graph E (recap d ?g) = walk_graph E (recap d g1)"
      by (simp add: pop_pending_def)
    with w ne True pop show ?thesis by (simp add: walk_graph.simps [of E "recap d g"] Let_def)
  next
    case go: False
    show ?thesis
    proof (cases "walk_over w")
      case (Some l)
      then show ?thesis using run w ne go by (simp add: Let_def)
    next
      case None
      obtain g2 b where r: "walk_round E ?item g = (g2, b)" by fastforce
      have b: "b = Ok None"
        using run w ne go None r 1(4)
        by (auto simp: Let_def split: answer.splits option.splits dest: walk_round_ends)
      from walk_round_goes_on [OF r [unfolded b] w] obtain w2 where w2: "g_walk g2 = Some w2" "wk_cap w2 = wk_cap w" by blast
      have "walk_graph E g2 = (g1, Ok (Walk_Deferred limb))" using run w ne go None r b by (simp add: Let_def)
      from 1(2) [OF w ne refl go None r [symmetric] b refl this 1(4)] 1(5) [OF w] w2
      have ih: "walk_graph E (recap d g2) = walk_graph E (recap d g1)" by simp
      have "walk_round E ?item (recap d g) = (recap d g2, Ok None)" using caplessD [OF capless_round r] b by simp
      with ih w ne go walk_over_le [OF 1(5) [OF w] None] show ?thesis
        by (auto simp: walk_graph.simps [of E "recap d g"] Let_def)
    qed
  qed
qed

definition node_env :: "nat gasp_env" where
  "node_env = script_env\<lparr>rm_request_node := (\<lambda>gid t i _ w. (w + 1, Ok \<lparr>graph_id = gid, raw_tx = t, node_output_index = i,
      proof_hex = None, tx_metadata = None, output_metadata = None, node_inputs = None\<rparr>)),
      st_find_needed_inputs := (\<lambda>n. ok (if raw_tx n = ''bb'' then Some [(''dd.2'', True)] else None))\<rparr>"

definition one_call :: pass_cap where
  "one_call = \<lparr>pc_calls = 1, pc_bytes = 1000, pc_nodes = 10\<rparr>"

definition cut_start :: "nat gasp" where
  "cut_start = (idle_gasp 0)\<lparr>g_walk := Some (fresh_walk 5 ''bb.2'' one_call)\<rparr>"

lemma parse_root: "parse_outpoint ''bb.2'' = Some (''bb'', 2)"
  by (simp add: parse_outpoint_def parse_u32_def char_digit_def)

lemmas eval_walk = walk_graph.simps walk_round_def walk_over_def step_def root_step_def fetch_root_def count_call_def upd_walk_def
  commit_def pop_pending_def count_fetched_def root_expired_def hydrate_root_def absorbed_def absorb_def seq_def caught_def raced_def
  io_def faulted_def children_of_def node_bytes_def

lemma cut_run: "\<exists>g1. walk_graph node_env cut_start = (g1, Ok (Walk_Deferred ''calls''))"
  by (simp add: cut_start_def eval_walk node_env_def script_env_def idle_gasp_def fresh_walk_def fresh_record_def one_call_def
      parse_root parse_decoy)

theorem going_on_is_uncut_witness:
  "\<exists>g1. walk_graph node_env cut_start = (g1, Ok (Walk_Deferred ''calls''))
     \<and> walk_graph node_env (recap NO_CAP cut_start) = walk_graph node_env (recap NO_CAP g1)"
proof -
  obtain g1 where run: "walk_graph node_env cut_start = (g1, Ok (Walk_Deferred ''calls''))" using cut_run by blast
  have "cap_le (wk_cap w) NO_CAP" if "g_walk cut_start = Some w" for w
    using that by (auto simp: cut_start_def fresh_walk_def one_call_def NO_CAP_def cap_le_def U64_MAX_def)
  from going_on_is_uncut [OF run _ this] run show ?thesis by auto
qed

subsection \<open>The push\<close>

text \<open>
  The nodes a push sends, read off the world: \<open>sent\<close> grows by the node at every submit to the remote, whatever the
  remote answers, and hydrating a node leaves it alone.
\<close>

definition records_submits :: "'w gasp_env \<Rightarrow> ('w \<Rightarrow> gasp_node list) \<Rightarrow> bool" where
  "records_submits E sent \<longleftrightarrow>
     (\<forall>n w. sent (fst (rm_submit_node E n w)) = sent w @ [n]) \<and>
     (\<forall>t i w. sent (fst (st_hydrate_gasp_node E t i w)) = sent w)"

lemma outgoing_index: "to_graph_id (Outpoint gid i) = to_graph_id (Outpoint gid j) \<longleftrightarrow> i = j"
proof -
  have "show_nat i = show_nat j \<longleftrightarrow> i = j" by (metis option.inject parse_digits_show_nat)
  then show ?thesis by (simp add: to_graph_id_def)
qed

lemma hydrate_sent:
  assumes "records_submits E sent" "hydrate_gasp_node E gid t i g = (g', a)"
  shows "sent (g_world g') = sent (g_world g) \<and> (\<forall>n. a = Ok n \<longrightarrow> graph_id n = gid)"
proof -
  have "sent w' = sent w" if "st_hydrate_gasp_node E t i w = (w', y)" for w w' y
    using assms(1) that unfolding records_submits_def by (metis fst_conv)
  with assms(2) show ?thesis
    by (auto simp: hydrate_gasp_node_def hydrated_def io_def seq_def ok_def split: prod.splits answer.splits)
qed

lemma submit_sent:
  assumes "records_submits E sent" "io (rm_submit_node E n) g = (g', a)"
  shows "sent (g_world g') = sent (g_world g) @ [n]"
proof -
  have "sent w' = sent w @ [n]" if "rm_submit_node E n w = (w', y)" for w w' y
    using assms(1) that unfolding records_submits_def by (metis fst_conv)
  with assms(2) show ?thesis by (auto simp: io_def split: prod.splits)
qed

text \<open>The nodes a stretch of the push sent: of the graph, each under an id of its own that was not seen before.\<close>

definition sends :: "('w \<Rightarrow> gasp_node list) \<Rightarrow> string \<Rightarrow> string list \<Rightarrow> 'w gasp \<Rightarrow> 'w gasp \<Rightarrow> bool" where
  "sends sent gid seen g g' \<longleftrightarrow>
     (\<exists>ns. sent (g_world g') = sent (g_world g) @ ns \<and> distinct (map outgoing_id ns) \<and>
        (\<forall>n \<in> set ns. graph_id n = gid \<and> outgoing_id n \<notin> set seen))"

lemma sends_refl: "sent (g_world g') = sent (g_world g) \<Longrightarrow> sends sent gid seen g g'"
  by (auto simp: sends_def)

lemma sends_step: "sent (g_world g1) = sent (g_world g) \<Longrightarrow> sends sent gid seen g1 g' \<Longrightarrow> sends sent gid seen g g'"
  by (simp add: sends_def)

lemma sends_node:
  assumes "sent (g_world g2) = sent (g_world g) @ [n]" "graph_id n = gid" "outgoing_id n \<notin> set seen"
    and "sends sent gid (outgoing_id n # seen) g2 g'"
  shows "sends sent gid seen g g'"
proof -
  obtain ns where ns: "sent (g_world g') = sent (g_world g2) @ ns" "distinct (map outgoing_id ns)"
    "\<forall>m \<in> set ns. graph_id m = gid \<and> outgoing_id m \<notin> set (outgoing_id n # seen)"
    using assms(4) by (auto simp: sends_def)
  then have "distinct (map outgoing_id (n # ns))" by auto
  with ns assms(1-3) show ?thesis by (auto simp: sends_def intro!: exI [of _ "n # ns"])
qed

lemma process_outgoing_sends:
  assumes "records_submits E sent" "process_outgoing E gid frames seen g = (g', a)"
  shows "sends sent gid seen g g'"
  using assms
proof (induction E gid frames seen g rule: process_outgoing.induct)
  case (3 E gid p m rest frames seen g)
  show ?case
  proof (cases "parse_outpoint p")
    case None
    with 3 show ?thesis by simp
  next
    case (Some ti)
    obtain t i where ti: "ti = (t, i)" by fastforce
    obtain g1 h where hy: "hydrate_gasp_node E gid t i g = (g1, h)" by fastforce
    note g1 = hydrate_sent [OF "3.prems"(1) hy]
    show ?thesis
    proof (cases h)
      case (Ok n)
      show ?thesis
      proof (cases "outgoing_id n \<in> set seen")
        case True
        with 3 Some ti hy Ok g1 show ?thesis by (auto intro: sends_step)
      next
        case False
        obtain g2 r where sub: "io (rm_submit_node E n) g1 = (g2, r)" by fastforce
        have g2: "sent (g_world g2) = sent (g_world g) @ [n]" using submit_sent [OF "3.prems"(1) sub] g1 by simp
        have n: "graph_id n = gid" using g1 Ok by blast
        show ?thesis
        proof (cases r)
          case (Ok x)
          have "sends sent gid (outgoing_id n # seen) g2 g'"
            by (rule "3.IH"(3) [OF Some ti [symmetric] hy [symmetric] \<open>h = Ok n\<close> False sub [symmetric] Ok "3.prems"(1)])
              (use "3.prems"(2) Some ti hy \<open>h = Ok n\<close> False sub Ok in simp)
          with g2 n False show ?thesis by (rule sends_node)
        qed (use "3.prems" Some ti hy \<open>h = Ok n\<close> False sub sends_node [OF g2 n False sends_refl] in auto)
      qed
    qed (use 3 Some ti hy g1 in \<open>auto intro: sends_step sends_refl\<close>)
  qed
qed (auto simp: sends_refl)

text \<open>
  C38: A push sends at most one node per output index. A node of an outgoing graph is known by its graph and its
  output index alone, and every node of a push carries the graph of its root: whatever inputs the remote asks for and
  whatever it answers, the nodes the push submits are all of the root's graph and their output indices are distinct.
  So of two inputs with one output index, of whatever transactions, at most one is ever submitted, and an input that
  has the root's own output index never is, nor anything under it.
\<close>

theorem push_sends_each_index_once:
  assumes "records_submits E sent" "push_utxo E u g = (g', a)"
  shows "\<exists>ns. sent (g_world g') = sent (g_world g) @ ns \<and> distinct (map node_output_index ns) \<and>
    (\<forall>n \<in> set ns. graph_id n = go_outpoint u)"
proof -
  let ?gid = "go_outpoint u"
  obtain g1 h where hy: "hydrate_gasp_node E ?gid (go_txid u) (go_index u) g = (g1, h)" by fastforce
  note g1 = hydrate_sent [OF assms(1) hy]
  have "sends sent ?gid [] g g'"
  proof (cases "\<exists>n. h = Ok n \<and> \<not> cf_unidirectional E")
    case False
    then have "g' = g1" using assms(2) hy by (auto simp: push_utxo_def seq_def Let_def ok_def split: answer.splits if_splits)
    then show ?thesis using g1 sends_refl by blast
  next
    case True
    then obtain n where n: "h = Ok n" "\<not> cf_unidirectional E" "graph_id n = ?gid" using g1 by blast
    obtain g2 r where sub: "io (rm_submit_node E n) g1 = (g2, r)" by fastforce
    have g2: "sent (g_world g2) = sent (g_world g) @ [n]" using submit_sent [OF assms(1) sub] g1 by simp
    have "sends sent ?gid [outgoing_id n] g2 g'"
    proof (cases r)
      case (Ok x)
      then have "process_outgoing E ?gid (case x of None \<Rightarrow> [] | Some xs \<Rightarrow> [xs]) [outgoing_id n] g2 = (g', a)"
        using assms(2) hy n sub by (simp add: push_utxo_def seq_def Let_def)
      then show ?thesis by (rule process_outgoing_sends [OF assms(1)])
    qed (use assms(2) hy n sub in \<open>auto simp: push_utxo_def seq_def Let_def intro!: sends_refl\<close>)
    then show ?thesis using sends_node [OF g2 n(3)] by simp
  qed
  then obtain ns where ns: "sent (g_world g') = sent (g_world g) @ ns" "distinct (map outgoing_id ns)"
    "\<forall>n \<in> set ns. graph_id n = ?gid" by (auto simp: sends_def)
  have "map outgoing_id ns = map (\<lambda>i. to_graph_id (Outpoint ?gid i)) (map node_output_index ns)"
    using ns(3) by (simp add: outgoing_id_def)
  with ns(2) have "distinct (map node_output_index ns)" by (metis distinct_map)
  with ns(1,3) show ?thesis by blast
qed

text \<open>A remote that asks for \<open>dd.2\<close> and \<open>dd.1\<close> under every node, pushed the output \<open>bb.1\<close>.\<close>

definition push_env :: "gasp_node list gasp_env" where
  "push_env =
     \<lparr>st_sync_expiry = (\<lambda>_ _ _. Inr None), st_find_known_utxos = ok [],
      st_find_needed_inputs = (\<lambda>_. ok None), st_append_to_graph = (\<lambda>_ _. ok ()), st_validate_graph_anchor = (\<lambda>_. ok ()),
      st_finalize_graph = (\<lambda>_. ok ()), st_discard_graph = (\<lambda>_. ok ()), st_load_deferred_graphs = ok [],
      st_get_deferred_graph = (\<lambda>_. ok None), st_save_deferred_graph = (\<lambda>_. ok Saved), st_delete_deferred_graph = (\<lambda>_. ok ()),
      st_read_fault_memos = (\<lambda>_. ok []), st_reserve_unanchorable_retry = (\<lambda>_. ok True), st_remember_expired = (\<lambda>_ _. ok ()),
      st_remembered_expired = (\<lambda>_. ok []), st_open_page = id, st_close_page = ok (),
      st_hydrate_gasp_node = (\<lambda>t _. ok (t, None)), st_prefetch_page = (\<lambda>_. ok ()),
      rm_get_initial_response = (\<lambda>_. ok []), rm_request_node = (\<lambda>_ _ _ _ w. (w, Err (RemoteError ''down''))),
      rm_submit_node = (\<lambda>n w. (w @ [n], Ok (Some [(''dd.2'', True), (''dd.1'', True)]))),
      fe_fetch_ancestor = None, fe_verified_proof_for = (\<lambda>_. ok None), hk_graph_completed = None,
      tm_now_secs = (\<lambda>_. 0), tm_deadline_due = ok False, tm_half_due = None, tm_share_due = None, tm_request_stop = None,
      tm_root_exhausted = (\<lambda>_. False), pb_pending = (\<lambda>_. False), pb_flush = ok (), gb_pass = \<lparr>pc_calls = 10, pc_bytes = 1000, pc_nodes = 10\<rparr>,
      cf_unidirectional = False, tx_id_of_hex = (\<lambda>h. Some h)\<rparr>"

theorem push_sends_each_index_once_witness:
  "\<exists>ns. g_world (fst (push_utxo push_env out_b (idle_gasp []))) = ns \<and> distinct (map node_output_index ns)
     \<and> (\<forall>n \<in> set ns. graph_id n = go_outpoint out_b)"
proof -
  have "records_submits push_env id" by (simp add: records_submits_def push_env_def ok_def)
  from push_sends_each_index_once [OF this surjective_pairing, of out_b "idle_gasp []"] show ?thesis
    by (simp add: idle_gasp_def)
qed

end
