(* ===== verification/Overlay_Records.thy ===== *)
theory Overlay_Records
  imports Gasp_Overlay Gasp_Records Gasp_Properties Graph_Properties
begin

text \<open>
  The storage of a sync keeps the contract of the record store, so that an ingest over it leaves a record of a root
  it did not land and let the cursor pass.
\<close>

subsection \<open>The rows\<close>

type_synonym record_rows = "(gkey, fault_memo) table \<times> (gkey, deferred_graph) table \<times> (string, deferred_graph) table"

definition rows :: "('m, 'r) oworld \<Rightarrow> record_rows" where
  "rows w = (ms_fault_memos (ov_store (ow_overlay w)), ms_deferred_graphs (ov_store (ow_overlay w)), ov_memos (ow_overlay w))"

definition record_key :: "'m overlay_cfg \<Rightarrow> string \<Rightarrow> gkey" where
  "record_key C q = (oc_peer C, oc_topic C, q)"

definition held_row :: "'m overlay_cfg \<Rightarrow> record_rows \<Rightarrow> string \<Rightarrow> deferred_graph option" where
  "held_row C = (\<lambda>(memos, graphs, cache) q.
     case tbl_get cache q of
       Some r \<Rightarrow> Some r
     | None \<Rightarrow> (case tbl_get memos (record_key C q) of Some m \<Rightarrow> Some (into_record m) | None \<Rightarrow> tbl_get graphs (record_key C q)))"

definition held_record :: "'m overlay_cfg \<Rightarrow> ('m, 'r) oworld \<Rightarrow> string \<Rightarrow> deferred_graph option" where
  "held_record C w = held_row C (rows w)"

text \<open>
  The rows of one root: what is held under its key names it, and a memo kept in memory is held by the storage too.
\<close>

definition rows_ok :: "'m overlay_cfg \<Rightarrow> string \<Rightarrow> record_rows \<Rightarrow> bool" where
  "rows_ok C p = (\<lambda>(memos, graphs, cache).
     tbl_wf memos \<and>
     (\<forall>r. tbl_get cache p = Some r \<longrightarrow> owns p r \<and> tbl_get memos (record_key C p) \<noteq> None) \<and>
     (\<forall>m. tbl_get memos (record_key C p) = Some m \<longrightarrow> fm_outpoint m = p) \<and>
     (\<forall>r. tbl_get graphs (record_key C p) = Some r \<longrightarrow> owns p r))"

definition records_ok :: "'m overlay_cfg \<Rightarrow> string \<Rightarrow> ('m, 'r) oworld \<Rightarrow> bool" where
  "records_ok C p w \<longleftrightarrow> rows_ok C p (rows w)"

text \<open>
  Room for a memo of the root: the storage caps the fault memos of a topic at \<open>FAULT_MEMO_MAX_ROWS\<close> rows and drops the
  oldest beyond, of whatever root. Below the cap nothing is dropped.
\<close>

definition rows_room :: "'m overlay_cfg \<Rightarrow> string \<Rightarrow> record_rows \<Rightarrow> bool" where
  "rows_room C p = (\<lambda>(memos, _).
     length (filter (\<lambda>(_, m). fm_topic m = oc_topic C) (tbl_remove (record_key C p) memos)) < FAULT_MEMO_MAX_ROWS)"

definition memo_room :: "'m overlay_cfg \<Rightarrow> string \<Rightarrow> ('m, 'r) oworld \<Rightarrow> bool" where
  "memo_room C p w \<longleftrightarrow> rows_room C p (rows w)"

definition records_room :: "'m overlay_cfg \<Rightarrow> string \<Rightarrow> ('m, 'r) oworld \<Rightarrow> bool" where
  "records_room C p w \<longleftrightarrow> records_ok C p w \<and> memo_room C p w"

lemma length_insert_remove:
  "tbl_wf m \<Longrightarrow> length (filter P (tbl_insert k v m)) \<le> Suc (length (filter P (tbl_remove k m)))"
proof (induction m)
  case (Cons x m)
  show ?case
  proof (cases "fst x = k")
    case True
    then have "k \<notin> fst ` set m" using Cons(2) by (auto simp: tbl_wf_def)
    then have "AList.delete k m = m" by (induction m) auto
    then show ?thesis using True by (cases x) (simp add: tbl_insert_def tbl_remove_def)
  qed (use Cons in \<open>cases x; simp add: tbl_insert_def tbl_remove_def tbl_wf_def\<close>)
qed (simp add: tbl_insert_def)

lemma remove_insert: "tbl_remove k (tbl_insert k v m) = tbl_remove k m" "tbl_remove k (tbl_remove k m) = tbl_remove k m"
  by (simp_all add: tbl_remove_def tbl_insert_def delete_update_same delete_idem)

subsection \<open>Calls that leave the rows\<close>

lemma still_rows:
  assumes "\<And>R. keeps (\<lambda>w. rows w = R) m"
  shows "keeps (\<lambda>w. records_room C p w \<and> held_record C w = T) m"
  using assms unfolding keeps_def records_room_def records_ok_def memo_room_def held_record_def by metis

lemma rows_of [simp]: "rows (w\<lparr>ow_rest := r\<rparr>) = rows w"
  by (simp add: rows_def)

lemma rows_on_rest: "keeps (\<lambda>w. rows w = R) (on_rest m)"
  by (rule keepsI) (auto simp: on_rest_def split: prod.splits)

definition rowless :: "('m overlay, 'a) act \<Rightarrow> bool" where
  "rowless m \<longleftrightarrow> (\<forall>o'. case m o' of (o1, _) \<Rightarrow> ov_memos o1 = ov_memos o' \<and>
     ms_fault_memos (ov_store o1) = ms_fault_memos (ov_store o') \<and> ms_deferred_graphs (ov_store o1) = ms_deferred_graphs (ov_store o'))"

lemma rows_on_overlay: "rowless m \<Longrightarrow> keeps (\<lambda>w. rows w = R) (on_overlay m)"
  by (rule keepsI) (fastforce simp: rowless_def on_overlay_def rows_def split: prod.splits)

lemma rowless_calls:
  "rowless (append_to_graph C n x)" "rowless (ov_find_needed_inputs C n)" "rowless (validate_graph_anchor C q)"
  "rowless (finalize_graph C q)" "rowless (discard_graph q)" "rowless (ov_remember_expired C q t)"
proof -
  show "rowless (append_to_graph C n x)" by (simp add: rowless_def append_to_graph_def Let_def)
  show "rowless (ov_find_needed_inputs C n)"
    by (simp add: rowless_def ov_find_needed_inputs_def Let_def split: sum.split option.split prod.split)
  show "rowless (validate_graph_anchor C q)"
    by (simp add: rowless_def validate_graph_anchor_def keep_anchored_def split: sum.split option.split spv_verdict.split)
  show "rowless (finalize_graph C q)" by (simp add: rowless_def finalize_graph_def split: sum.split)
  show "rowless (discard_graph q)" by (simp add: rowless_def discard_graph_def)
  show "rowless (ov_remember_expired C q t)" by (simp add: rowless_def ov_remember_expired_def remember_expired_outpoint_def Let_def)
qed

text \<open>A submit that writes no record: what the hook of a sync relies on.\<close>

definition writes_no_record :: "(topic \<Rightarrow> bytes \<Rightarrow> (('m, 'r) oworld, mutation_report) act) option \<Rightarrow> bool" where
  "writes_no_record submit \<longleftrightarrow> (\<forall>f tp b R. submit = Some f \<longrightarrow> keeps (\<lambda>w. rows w = R) (f tp b))"

lemma rows_submits:
  assumes "\<And>tp b. keeps (\<lambda>w. rows w = R) (f tp b)"
  shows "keeps (\<lambda>w. rows w = R) (submit_finalized_graphs f gs)"
proof -
  have b: "keeps (\<lambda>w. rows w = R) (submit_beefs (f tp) tp bs)" for tp bs
    by (induction bs) (auto intro!: keeps_rules assms)
  show ?thesis by (induction gs) (auto intro!: keeps_rules b)
qed

lemma rows_completed:
  assumes "\<And>tp b R. keeps (\<lambda>w. rows w = R) (f tp b)"
  shows "keeps (\<lambda>w. rows w = R) (graph_completed f)"
proof (rule keepsI)
  fix w w' a
  assume run: "graph_completed f w = (w', a)" and w: "rows w = R"
  have "keeps (\<lambda>w. rows w = R) (seq (submit_finalized_graphs f gs) (\<lambda>landed. if landed then ok () else err e))" for gs e
    by (intro keeps_rules rows_submits assms)
  from keepsD [OF this] run w show "rows w' = R"
    by (simp add: graph_completed_def Let_def rows_def)
qed

subsection \<open>Calls on the rows of a root\<close>

lemma stamped_fields [simp]: "dg_outpoint (stamped C r) = dg_outpoint r" "is_struck (stamped C r) = is_struck r"
  "graph_key (stamped C r) = record_key C (dg_outpoint r)" "owns p (stamped C r) = owns p r" "dg_topic (stamped C r) = oc_topic C"
  by (simp_all add: stamped_def is_struck_def graph_key_def record_key_def owns_def)

lemma record_key_eq [simp]: "record_key C q = record_key C p \<longleftrightarrow> q = p"
  by (simp add: record_key_def)

lemma rows_ok_uncached: "rows_ok C p (M, G, K) \<Longrightarrow> rows_ok C p (M, G, tbl_remove p K)"
  by (simp add: rows_ok_def)

lemma rows_ok_memo: "rows_ok C p (M, G, K) \<Longrightarrow> fm_outpoint m = p \<Longrightarrow> rows_ok C p (tbl_insert (record_key C p) m M, G, K)"
  by (simp add: rows_ok_def)

lemma rows_room_simps [simp]:
  "rows_room C p (tbl_insert (record_key C p) m M, x) = rows_room C p (M, y)"
  "rows_room C p (tbl_remove (record_key C p) M, x) = rows_room C p (M, y)"
  by (simp_all add: rows_room_def remove_insert)

lemma held_uncached:
  "rows_ok C p (M, G, K) \<Longrightarrow> held_row C (M, G, K) q \<noteq> None \<Longrightarrow> held_row C (M, G, tbl_remove p K) q \<noteq> None"
  by (auto simp: rows_ok_def held_row_def split: option.splits)

lemma held_memo: "held_row C (M, G, K) q \<noteq> None \<Longrightarrow> held_row C (tbl_insert (record_key C p) m M, G, K) q \<noteq> None"
  by (auto simp: held_row_def split: option.splits)

lemma held_owned: "rows_ok C p R \<Longrightarrow> held_row C R p = Some r \<Longrightarrow> owns p r"
  by (auto simp: rows_ok_def held_row_def owns_def into_record_def split: option.splits prod.splits)

text \<open>A put under the key of the root: its answer, and the rows it leaves.\<close>

lemma put_rows:
  assumes ok: "rows_ok C p (ms_fault_memos st, ms_deferred_graphs st, cache)"
    and rm: "rows_room C p (ms_fault_memos st, ms_deferred_graphs st, cache)" and r: "owns p r"
    and run: "put_deferred_graph bs now (stamped C r) st = (st', a)"
  obtains "a \<noteq> Inr Saved" "ms_fault_memos st' = ms_fault_memos st" "ms_deferred_graphs st' = ms_deferred_graphs st"
  | m where "a = Inr Saved" "is_struck r" "fm_outpoint m = p" "ms_fault_memos st' = tbl_insert (record_key C p) m (ms_fault_memos st)"
      "ms_deferred_graphs st' = tbl_remove (record_key C p) (ms_deferred_graphs st)"
  | "a = Inr Saved" "\<not> is_struck r" "ms_fault_memos st' = tbl_remove (record_key C p) (ms_fault_memos st)"
      "ms_deferred_graphs st' = tbl_insert (record_key C p) (stamped C r) (ms_deferred_graphs st)"
proof (cases "from_record (stamped C r) now")
  case None
  then have "\<not> is_struck r" using from_record_iff_struck [of "stamped C r" now] by simp
  with that run None r show thesis
    by (auto simp: put_deferred_graph_def Let_def owns_def split: if_splits)
next
  case (Some m)
  then have s: "is_struck r" using from_record_iff_struck [of "stamped C r" now] by auto
  have m: "fm_outpoint m = p" using from_record_fields(3) [OF Some] r by (simp add: owns_def)
  have room: "cap_fault_memos (oc_topic C) (tbl_insert (record_key C p) x (ms_fault_memos st))
      = tbl_insert (record_key C p) x (ms_fault_memos st)" for x
    using length_insert_remove [of "ms_fault_memos st" "\<lambda>(_, m). fm_topic m = oc_topic C" "record_key C p" x] ok rm
    by (simp add: cap_fault_memos_def rows_ok_def rows_room_def Let_def)
  show thesis
  proof (cases "a = Inr Saved")
    case True
    let ?m = "case tbl_get (ms_fault_memos st) (record_key C p) of None \<Rightarrow> m
      | Some prior \<Rightarrow> if fm_score prior = fm_score m then m\<lparr>first_at := first_at prior\<rparr> else m"
    have "fm_outpoint ?m = p" using m by (simp split: option.split)
    moreover have "ms_fault_memos st' = tbl_insert (record_key C p) ?m (ms_fault_memos st)"
      "ms_deferred_graphs st' = tbl_remove (record_key C p) (ms_deferred_graphs st)"
      using run Some True r room by (auto simp: put_deferred_graph_def put_fault_memo_def Let_def owns_def split: if_splits prod.splits)
    ultimately show ?thesis using that(2) True s by blast
  next
    case False
    with that(1) run Some r show ?thesis
      by (auto simp: put_deferred_graph_def put_fault_memo_def Let_def owns_def split: if_splits prod.splits)
  qed
qed

lemma save_rows:
  assumes ok: "rows_ok C p (rows w)" and rm: "rows_room C p (rows w)" and r: "owns p r"
    and run: "on_overlay (ov_save_deferred_graph C now r) w = (w', a)"
  shows "rows_ok C p (rows w')" "rows_room C p (rows w')" "held_row C (rows w) q \<noteq> None \<Longrightarrow> held_row C (rows w') q \<noteq> None"
    "a = Ok Saved \<Longrightarrow> held_row C (rows w') p \<noteq> None"
proof -
  let ?st = "ov_store (ow_overlay w)"
  obtain st' b where put: "put_deferred_graph (oc_byte_size C) now (stamped C r) ?st = (st', b)" by fastforce
  have p: "dg_outpoint r = p" using r by (simp add: owns_def)
  have w': "ov_store (ow_overlay w') = st'" "a = Ok Saved \<longleftrightarrow> b = Inr Saved" "ov_memos (ow_overlay w') =
      (if b \<noteq> Inr Saved then ov_memos (ow_overlay w)
       else if is_struck r then tbl_insert p (stamped C r) (ov_memos (ow_overlay w)) else tbl_remove p (ov_memos (ow_overlay w)))"
    using run put p by (auto simp: on_overlay_def ov_save_deferred_graph_def Let_def split: sum.splits deferred_graph_save.splits)
  note R = ok [unfolded rows_def] note M = rm [unfolded rows_def]
  have "rows_ok C p (rows w') \<and> rows_room C p (rows w') \<and> (held_row C (rows w) q \<noteq> None \<longrightarrow> held_row C (rows w') q \<noteq> None)
      \<and> (a = Ok Saved \<longrightarrow> held_row C (rows w') p \<noteq> None)"
    using R M r put
  proof (cases rule: put_rows [consumes 4, case_names kept memo graph])
    case kept
    then show ?thesis using R M w' by (simp add: rows_def rows_room_def)
  next
    case (memo m)
    have "rows_room C p (rows w')" using memo M w' by (simp add: rows_def rows_room_def remove_insert)
    then show ?thesis using memo R r w' by (auto simp: rows_def rows_ok_def held_row_def split: option.splits)
  next
    case graph
    have "rows_room C p (rows w')" using graph M w' by (simp add: rows_def rows_room_def remove_insert)
    then show ?thesis using graph R r w' by (auto simp: rows_def rows_ok_def held_row_def split: option.splits)
  qed
  then show "rows_ok C p (rows w')" "rows_room C p (rows w')" "held_row C (rows w) q \<noteq> None \<Longrightarrow> held_row C (rows w') q \<noteq> None"
    "a = Ok Saved \<Longrightarrow> held_row C (rows w') p \<noteq> None" by blast+
qed

lemma reserve_rows:
  assumes ok: "rows_ok C p (rows w)" and r: "owns p r" and run: "on_overlay (ov_reserve_unanchorable_retry C now r) w = (w', a)"
  shows "rows_ok C p (rows w')" "rows_room C p (rows w) \<Longrightarrow> rows_room C p (rows w')"
    "held_row C (rows w) q \<noteq> None \<Longrightarrow> held_row C (rows w') q \<noteq> None"
proof -
  let ?st = "ov_store (ow_overlay w)"
  obtain st' b where res: "reserve_unanchorable_retry now (stamped C r) ?st = (st', b)" by fastforce
  have p: "dg_outpoint r = p" using r by (simp add: owns_def)
  have w': "ov_store (ow_overlay w') = st'" "ov_memos (ow_overlay w') =
      (case b of Inl _ \<Rightarrow> ov_memos (ow_overlay w) | Inr _ \<Rightarrow> tbl_remove p (ov_memos (ow_overlay w)))"
    using run res p by (auto simp: on_overlay_def ov_reserve_unanchorable_retry_def Let_def split: sum.splits)
  note R = ok [unfolded rows_def]
  have g: "ms_deferred_graphs st' = ms_deferred_graphs ?st" and m: "ms_fault_memos st' = ms_fault_memos ?st \<or>
      (\<exists>x prior. tbl_get (ms_fault_memos ?st) (record_key C p) = Some prior \<and> fm_outpoint x = fm_outpoint prior
         \<and> ms_fault_memos st' = tbl_insert (record_key C p) x (ms_fault_memos ?st))"
  proof -
    show "ms_deferred_graphs st' = ms_deferred_graphs ?st"
      using res by (auto simp: reserve_unanchorable_retry_def Let_def split: if_splits option.splits)
    show "ms_fault_memos st' = ms_fault_memos ?st \<or>
      (\<exists>x prior. tbl_get (ms_fault_memos ?st) (record_key C p) = Some prior \<and> fm_outpoint x = fm_outpoint prior
         \<and> ms_fault_memos st' = tbl_insert (record_key C p) x (ms_fault_memos ?st))"
    proof (cases "tbl_get (ms_fault_memos ?st) (record_key C p)")
      case (Some prior)
      let ?x = "prior\<lparr>fm_retries := unanchorable_retries (stamped C r), next_at := retry_at (stamped C r)\<rparr>"
      have "ms_fault_memos st' = ms_fault_memos ?st \<or> ms_fault_memos st' = tbl_insert (record_key C p) ?x (ms_fault_memos ?st)"
        using res p Some by (auto simp: reserve_unanchorable_retry_def Let_def split: if_splits)
      moreover have "fm_outpoint ?x = fm_outpoint prior" by simp
      ultimately show ?thesis using Some by blast
    qed (use res p in \<open>auto simp: reserve_unanchorable_retry_def Let_def split: if_splits\<close>)
  qed
  let ?G = "ms_deferred_graphs ?st" and ?K = "ov_memos (ow_overlay w)"
  have mid: "rows_ok C p (ms_fault_memos st', ?G, ?K) \<and>
      (held_row C (rows w) q \<noteq> None \<longrightarrow> held_row C (ms_fault_memos st', ?G, ?K) q \<noteq> None)"
    using m
  proof
    assume "\<exists>x prior. tbl_get (ms_fault_memos ?st) (record_key C p) = Some prior \<and> fm_outpoint x = fm_outpoint prior
         \<and> ms_fault_memos st' = tbl_insert (record_key C p) x (ms_fault_memos ?st)"
    then obtain x prior where x: "tbl_get (ms_fault_memos ?st) (record_key C p) = Some prior" "fm_outpoint x = fm_outpoint prior"
      "ms_fault_memos st' = tbl_insert (record_key C p) x (ms_fault_memos ?st)" by blast
    have "fm_outpoint x = p" using x R by (simp add: rows_ok_def)
    then show ?thesis unfolding x(3) rows_def using rows_ok_memo [OF R] held_memo by blast
  qed (use R in \<open>simp add: rows_def\<close>)
  have "rows w' = (ms_fault_memos st', ?G, ?K) \<or> rows w' = (ms_fault_memos st', ?G, tbl_remove p ?K)"
    using w' g by (cases b) (simp_all add: rows_def)
  with mid have "rows_ok C p (rows w') \<and> (held_row C (rows w) q \<noteq> None \<longrightarrow> held_row C (rows w') q \<noteq> None)"
    using rows_ok_uncached held_uncached by metis
  moreover show "rows_room C p (rows w')" if "rows_room C p (rows w)"
    using that m w'(1) by (auto simp: rows_def rows_room_def remove_insert)
  ultimately show "rows_ok C p (rows w')" "held_row C (rows w) q \<noteq> None \<Longrightarrow> held_row C (rows w') q \<noteq> None" by blast+
qed

lemma delete_rows:
  assumes ok: "rows_ok C p (rows w)" and run: "on_overlay (ov_delete_deferred_graph C p) w = (w', a)"
  shows "rows_ok C p (rows w')" "rows_room C p (rows w') = rows_room C p (rows w)"
    "q \<noteq> p \<Longrightarrow> held_row C (rows w') q = held_row C (rows w) q"
  using assms by (auto simp: on_overlay_def ov_delete_deferred_graph_def delete_deferred_graph_def rows_def rows_ok_def held_row_def
      rows_room_def record_key_def [of C p, symmetric] remove_insert split: option.splits)

lemma get_rows: "case on_overlay (ov_get_deferred_graph C p) w of (w', a) \<Rightarrow> rows w' = rows w \<and> a = Ok (held_row C (rows w) p)"
  by (cases "tbl_get (ov_memos (ow_overlay w)) p")
     (simp_all add: on_overlay_def ov_get_deferred_graph_def get_deferred_graph_def rows_def held_row_def record_key_def
       split: option.split)

subsection \<open>The contract, kept\<close>

lemma overlay_store:
  assumes "writes_no_record submit"
  shows "record_store (overlay_env C B submit) (records_room C p) (held_record C) p"
proof (unfold_locales, goal_cases)
  case (1 w r)
  then show ?case using held_owned [of C p "rows w" r] by (simp add: records_room_def records_ok_def held_record_def)
next
  case (14 T h)
  then obtain f where f: "submit = Some f" "h = graph_completed f" by (auto simp: overlay_env_def)
  with assms show ?case by (auto simp: writes_no_record_def intro!: still_rows rows_completed)
next
  case (15 w w' a)
  then show ?case using get_rows [where C = C and p = p and w = w] by (auto simp: overlay_env_def records_room_def records_ok_def memo_room_def held_record_def)
next
  case (16 w w' r a)
  then show ?case using save_rows [of C p w r "tm_now_secs B (ow_rest w)" w' a]
    by (auto simp: overlay_env_def records_room_def records_ok_def memo_room_def held_record_def)
next
  case (17 w w' r a)
  then show ?case using reserve_rows [of C p w r "tm_now_secs B (ow_rest w)" w' a]
    by (auto simp: overlay_env_def records_room_def records_ok_def memo_room_def held_record_def)
next
  case (18 w w' a)
  then show ?case using delete_rows [of C p w w' a] by (auto simp: overlay_env_def records_room_def records_ok_def memo_room_def held_record_def)
qed (auto simp: overlay_env_def intro!: still_rows rows_on_rest rows_on_overlay rowless_calls)

interpretation ov: record_store "overlay_env C B None" "records_room C p" "held_record C" p for C B p
  by (rule overlay_store) (simp add: writes_no_record_def)

text \<open>
  C23: The ingest of one root over this storage keeps the records, while the fault memos have room: while the storage
  holds fewer than 20,000 fault memos of other roots of the topic (\<open>memo_room\<close>). Then, whatever becomes of the ingest,
  the room stays, the records of the other roots of the peer stay held; and an ingest that answers other than that the
  root was completed, is refused as expired, or is to be asked for again, leaves a record of the root in the storage or
  among the memos of the page. Past that bound a memo saved for the root makes the storage drop the topic's oldest
  memos, which may be another root's: that case is outside the statement. (The submits of the finalized graphs are
  assumed to write no record.)
\<close>

theorem ingest_leaves_record:
  assumes "writes_no_record submit" "records_ok C p (g_world g)" "memo_room C p (g_world g)" "g_walk g = None"
    "ingest_utxo (overlay_env C B submit) u p g = (g', a)"
  shows "records_ok C p (g_world g') \<and> memo_room C p (g_world g') \<and>
    (\<forall>q. q \<noteq> p \<and> held_record C (g_world g) q \<noteq> None \<longrightarrow> held_record C (g_world g') q \<noteq> None) \<and>
    (\<forall>i. a = Ok i \<and> i \<notin> {Ing_Completed, Ing_Expired, Ing_Retry} \<longrightarrow> held_record C (g_world g') p \<noteq> None)"
proof -
  note store = overlay_store [OF assms(1), of C B p]
  have "records_room C p (g_world g)" using assms(2,3) by (simp add: records_room_def)
  note R = record_store.ingest_records [OF store this assms(4,5)]
  show ?thesis using R by (auto simp: record_store.owed_def [OF store] records_room_def simp del: not_None_eq)
qed

text \<open>A root whose graph waits in a record, in a sync whose resumes have no calls left.\<close>

definition kept_record :: deferred_graph where
  "kept_record = (fresh_record 3 ''aa.0'')\<lparr>dg_peer := ''h'', dg_topic := ''tm'', dg_reason := ''budget'', dg_calls := 4\<rparr>"

definition kept_world :: "(unit, nat) oworld" where
  "kept_world = \<lparr>ow_overlay = pair_overlay\<lparr>ov_store := ms_new\<lparr>ms_deferred_graphs := [((''h'', ''tm'', ''aa.0''), kept_record)]\<rparr>\<rparr>, ow_rest = 0\<rparr>"

definition kept_gasp :: "(unit, nat) oworld gasp" where
  "kept_gasp = (idle_gasp kept_world)\<lparr>g_deferred := [''aa.0''], g_resume_left := \<lparr>pc_calls = 0, pc_bytes = 9, pc_nodes = 9\<rparr>\<rparr>"

lemma kept_ok: "records_ok pair_cfg ''aa.0'' kept_world"
  by (simp add: records_ok_def rows_ok_def rows_def kept_world_def ms_new_def pair_overlay_def tbl_wf_def tbl_remove_def tbl_get_def
      record_key_def pair_cfg_def owns_def kept_record_def fresh_record_def)

lemma kept_room: "memo_room pair_cfg ''aa.0'' kept_world"
  by (simp add: memo_room_def rows_room_def rows_def kept_world_def ms_new_def pair_overlay_def tbl_remove_def FAULT_MEMO_MAX_ROWS_def)

lemma kept_env:
  "st_get_deferred_graph (overlay_env C B x) = (\<lambda>q. on_overlay (ov_get_deferred_graph C q))"
  "st_save_deferred_graph (overlay_env C B x) = (\<lambda>r w. on_overlay (ov_save_deferred_graph C (tm_now_secs B (ow_rest w)) r) w)"
  "tm_share_due (overlay_env C B x) = map_option on_rest (tm_share_due B)" "tm_now_secs (overlay_env C B x) w = tm_now_secs B (ow_rest w)"
  by (simp_all add: overlay_env_def)

lemma kept_get: "ov_get_deferred_graph pair_cfg ''aa.0'' (ow_overlay kept_world) =
    ((ow_overlay kept_world)\<lparr>ov_store := (ov_store (ow_overlay kept_world))\<lparr>ms_deferred_graph_reads := wrap64 1\<rparr>\<rparr>, Ok (Some kept_record))"
  by (simp add: ov_get_deferred_graph_def get_deferred_graph_def kept_world_def ms_new_def pair_overlay_def pair_cfg_def tbl_get_def)

lemma kept_save: "\<exists>o'. ov_save_deferred_graph pair_cfg 0 (kept_record\<lparr>dg_cursor_passable := True\<rparr>)
    ((ow_overlay kept_world)\<lparr>ov_store := (ov_store (ow_overlay kept_world))\<lparr>ms_deferred_graph_reads := n\<rparr>\<rparr>) = (o', Ok Saved)"
  by (simp add: ov_save_deferred_graph_def put_deferred_graph_def stamped_def kept_world_def ms_new_def pair_overlay_def Let_def
      from_record_def fault_class_def is_struck_def kept_record_def fresh_record_def)

lemma kept_run: "snd (ingest_utxo (overlay_env pair_cfg script_env None) out_a ''aa.0'' kept_gasp) = Ok Ing_HeldBack"
proof -
  have r: "dg_expiry kept_record = None" "\<not> is_struck kept_record" "\<not> waits_idle kept_record 0" "dg_reason kept_record = ''budget''"
    "\<not> dg_cursor_passable kept_record" "\<not> is_dead kept_record" "\<not> is_unanchorable kept_record"
    by (simp_all add: kept_record_def fresh_record_def is_struck_def waits_idle_def is_dead_def is_unanchorable_def)
  obtain o' where "ov_save_deferred_graph pair_cfg 0 (kept_record\<lparr>dg_cursor_passable := True\<rparr>)
    ((ow_overlay kept_world)\<lparr>ov_store := (ov_store (ow_overlay kept_world))\<lparr>ms_deferred_graph_reads := Suc 0\<rparr>\<rparr>) = (o', Ok Saved)"
    using kept_save by blast
  with r show ?thesis
    by (simp add: ingest_utxo_def kept_gasp_def idle_gasp_def hold_back_def seq_def upd_def got_def ok_def io_def share_due_def kept_env
     cap_spent_def on_overlay_def kept_get read_record_def sweep_expired_record_def now_secs_def script_env_def)
qed

theorem ingest_leaves_record_witness:
  "snd (ingest_utxo (overlay_env pair_cfg script_env None) out_a ''aa.0'' kept_gasp) = Ok Ing_HeldBack \<and>
   held_record pair_cfg (g_world (fst (ingest_utxo (overlay_env pair_cfg script_env None) out_a ''aa.0'' kept_gasp))) ''aa.0'' \<noteq> None"
proof -
  let ?run = "ingest_utxo (overlay_env pair_cfg script_env None) out_a ''aa.0'' kept_gasp"
  have w: "writes_no_record None" "records_ok pair_cfg ''aa.0'' (g_world kept_gasp)"
    "memo_room pair_cfg ''aa.0'' (g_world kept_gasp)" "g_walk kept_gasp = None"
    using kept_ok kept_room by (simp_all add: writes_no_record_def kept_gasp_def idle_gasp_def)
  from ingest_leaves_record [OF w surjective_pairing] kept_run show ?thesis by simp
qed

end
