(* ===== verification/Page_Batch.thy ===== *)
theory Page_Batch
  imports Storage_Properties
begin

text \<open>
  The page buffer of a sync (\<open>page_batch.rs\<close>) and the storage wrapper that uses it
  (\<open>load_storage.rs\<close>, \<open>MeteredStorage\<close>). While a page is open the admission writes are queued and the
  admissions' two reads are answered from the page; every other write, and every read of the tables the
  queue writes, flushes the queue first. The meter's counters are not modelled. The outcome of a
  flushed batch is an argument: done, failed before it was applied, or failed after.
\<close>

record page_state =
  pg_open :: bool
  pg_writes :: "page_write list"
  pg_outputs :: "(okey, Output option) table"
  pg_applied :: "(txid \<times> topic, bool) table"

definition page_new :: page_state where
  "page_new = \<lparr>pg_open = False, pg_writes = [], pg_outputs = [], pg_applied = []\<rparr>"

definition forget_answers :: "page_state \<Rightarrow> page_state" where
  "forget_answers p = p\<lparr>pg_outputs := [], pg_applied := []\<rparr>"

definition page_open :: "page_state \<Rightarrow> page_state" where
  "page_open p = (let q = p\<lparr>pg_open := True\<rparr> in if pg_writes q = [] then forget_answers q else q)"

definition page_close :: "page_state \<Rightarrow> page_state" where
  "page_close p = (let q = p\<lparr>pg_open := False\<rparr> in if pg_writes q = [] then forget_answers q else q)"

definition queue_output :: "Output \<Rightarrow> bool \<Rightarrow> page_state \<Rightarrow> page_state" where
  "queue_output o' g p =
     p\<lparr>pg_outputs := tbl_insert (key_of o') (Some (o'\<lparr>beef := None\<rparr>)) (pg_outputs p),
       pg_writes := pg_writes p @ [PW_Output o' g]\<rparr>"

definition queue_applied :: "txid \<Rightarrow> topic \<Rightarrow> page_state \<Rightarrow> page_state" where
  "queue_applied t tp p =
     p\<lparr>pg_applied := tbl_insert (t, tp) True (pg_applied p),
       pg_writes := pg_writes p @ [PW_Applied t tp]\<rparr>"

definition remember_output :: "okey \<Rightarrow> Output option \<Rightarrow> page_state \<Rightarrow> page_state" where
  "remember_output k a p = p\<lparr>pg_outputs := tbl_or_insert k a (pg_outputs p)\<rparr>"

definition remember_applied :: "txid \<times> topic \<Rightarrow> bool \<Rightarrow> page_state \<Rightarrow> page_state" where
  "remember_applied k a p = p\<lparr>pg_applied := tbl_or_insert k a (pg_applied p)\<rparr>"

definition page_discard :: "page_state \<Rightarrow> page_state" where
  "page_discard p = (forget_answers p)\<lparr>pg_writes := []\<rparr>"

datatype batch_outcome = Batch_done | Batch_lost string | Batch_landed string

record metered =
  m_store :: memory_storage
  m_page :: page_state

definition page_flush :: "batch_outcome \<Rightarrow> metered \<Rightarrow> metered \<times> storage_error option" where
  "page_flush out m =
     (let p = m_page m; ws = pg_writes p
      in if ws = [] then (m, None)
         else case out of
           Batch_lost e \<Rightarrow> (m, Some (Database e))
         | Batch_landed e \<Rightarrow> (m\<lparr>m_store := fst (write_batch ws (m_store m))\<rparr>, Some (Database e))
         | Batch_done \<Rightarrow>
             (case write_batch ws (m_store m) of
                (s, Inl e) \<Rightarrow> (m\<lparr>m_store := s\<rparr>, Some e)
              | (s, Inr _) \<Rightarrow> (\<lparr>m_store = s, m_page = p\<lparr>pg_writes := drop (length ws) (pg_writes p)\<rparr>\<rparr>, None)))"

definition barrier :: "bool \<Rightarrow> batch_outcome \<Rightarrow> metered \<Rightarrow> metered \<times> storage_error option" where
  "barrier rows out m =
     (if \<not> pg_open (m_page m) then (m, None)
      else case (if pg_writes (m_page m) \<noteq> [] then page_flush out m else (m, None)) of
             (m1, Some e) \<Rightarrow> (m1, Some e)
           | (m1, None) \<Rightarrow> (if rows then m1\<lparr>m_page := forget_answers (m_page m1)\<rparr> else m1, None))"

subsection \<open>The wrapper's methods\<close>

definition mt_insert :: "Output \<Rightarrow> bool \<Rightarrow> metered \<Rightarrow> metered" where
  "mt_insert o' g m =
     (if pg_open (m_page m) then m\<lparr>m_page := queue_output o' g (m_page m)\<rparr>
      else m\<lparr>m_store := insert_output_with_origin o' g (m_store m)\<rparr>)"

definition mt_insert_applied :: "txid \<Rightarrow> topic \<Rightarrow> metered \<Rightarrow> metered" where
  "mt_insert_applied t tp m =
     (if pg_open (m_page m) then m\<lparr>m_page := queue_applied t tp (m_page m)\<rparr>
      else m\<lparr>m_store := insert_applied_transaction t tp (m_store m)\<rparr>)"

text \<open>Every other write: the queue first, then the write; \<open>rows\<close> for one that changes output or applied rows.\<close>

definition mt_write ::
  "bool \<Rightarrow> (memory_storage \<Rightarrow> memory_storage) \<Rightarrow> batch_outcome \<Rightarrow> metered \<Rightarrow> metered \<times> storage_error option" where
  "mt_write rows f out m =
     (case barrier rows out m of
        (m1, Some e) \<Rightarrow> (m1, Some e)
      | (m1, None) \<Rightarrow> (m1\<lparr>m_store := f (m_store m1)\<rparr>, None))"

text \<open>A read of the tables the queue writes that the page does not answer.\<close>

definition mt_read :: "(memory_storage \<Rightarrow> 'a) \<Rightarrow> batch_outcome \<Rightarrow> metered \<Rightarrow> metered \<times> (storage_error + 'a)" where
  "mt_read f out m =
     (case barrier False out m of
        (m1, Some e) \<Rightarrow> (m1, Inl e)
      | (m1, None) \<Rightarrow> (m1, Inr (f (m_store m1))))"

definition mt_does_applied :: "txid \<Rightarrow> topic \<Rightarrow> metered \<Rightarrow> metered \<times> bool" where
  "mt_does_applied t tp m =
     (let p = m_page m
      in case (if pg_open p then tbl_get (pg_applied p) (t, tp) else None) of
           Some held \<Rightarrow> (m, held)
         | None \<Rightarrow>
             (let held = does_applied_transaction_exist (m_store m) t tp
              in (if pg_open p then m\<lparr>m_page := remember_applied (t, tp) held p\<rparr> else m, held)))"

text \<open>\<open>find_output\<close> with a topic, no spent filter and no BEEF; any other shape is an \<open>mt_read\<close>.\<close>

definition mt_find_output :: "txid \<Rightarrow> nat \<Rightarrow> topic \<Rightarrow> metered \<Rightarrow> metered \<times> Output option" where
  "mt_find_output t i tp m =
     (let p = m_page m
      in case (if pg_open p then tbl_get (pg_outputs p) (t, i, tp) else None) of
           Some known \<Rightarrow> (m, known)
         | None \<Rightarrow>
             (let answer = find_output (m_store m) t i (Some tp) None False
              in (if pg_open p then m\<lparr>m_page := remember_output (t, i, tp) answer p\<rparr> else m, answer)))"

definition prefetch_inputs :: "topic \<Rightarrow> (txid \<times> nat) list \<Rightarrow> page_state \<Rightarrow> (txid \<times> nat) list" where
  "prefetch_inputs tp ins p = remdups (filter (\<lambda>(t, i). tbl_get (pg_outputs p) (t, i, tp) = None) ins)"

definition prefetch_txids :: "topic \<Rightarrow> txid list \<Rightarrow> page_state \<Rightarrow> txid list" where
  "prefetch_txids tp ts p = remdups (filter (\<lambda>t. tbl_get (pg_applied p) (t, tp) = None) ts)"

text \<open>
  The two reads of a page's prefetch; \<open>ok1\<close> and \<open>ok2\<close> say whether each answered. The held rows are kept
  by (txid, index), the last of a key's answers winning as in a collected map.
\<close>

definition prefetch ::
  "topic \<Rightarrow> (txid \<times> nat) list \<Rightarrow> txid list \<Rightarrow> bool \<Rightarrow> bool \<Rightarrow> metered \<Rightarrow> metered" where
  "prefetch tp ins ts ok1 ok2 m =
     (if \<not> pg_open (m_page m) then m
      else
        let s = m_store m;
            asked = prefetch_inputs tp ins (m_page m);
            held = map (\<lambda>r. ((out_txid r, output_index r), r)) (find_topic_outputs s tp asked);
            p1 = (if ok1 then fold (\<lambda>(t, i). remember_output (t, i, tp) (map_of (rev held) (t, i))) asked (m_page m)
                  else m_page m);
            asked_t = prefetch_txids tp ts p1;
            app = find_applied_transactions s tp asked_t;
            p2 = (if ok2 then fold (\<lambda>t. remember_applied (t, tp) (t \<in> set app)) asked_t p1 else p1)
        in m\<lparr>m_page := p2\<rparr>)"

subsection \<open>Batches are idempotent\<close>

definition apply_write :: "page_write \<Rightarrow> memory_storage \<Rightarrow> memory_storage" where
  "apply_write wt s =
     (case wt of
        PW_Output o' g \<Rightarrow> insert_output_with_origin o' g s
      | PW_Applied t tp \<Rightarrow> insert_applied_transaction t tp s
      | PW_Backend \<Rightarrow> s)"

definition no_backend :: "page_write list \<Rightarrow> bool" where
  "no_backend ws = (PW_Backend \<notin> set ws)"

lemma write_batch_fold:
  "no_backend ws \<Longrightarrow> write_batch ws s = (fold apply_write ws s, Inr (length ws))"
proof -
  have "PW_Backend \<notin> set ws \<Longrightarrow> write_batch_loop ws s = (fold apply_write ws s, None)"
    by (induction ws s rule: write_batch_loop.induct) (simp_all add: apply_write_def)
  then show "no_backend ws \<Longrightarrow> ?thesis" by (simp add: no_backend_def write_batch_def)
qed

text \<open>A write that a store has taken.\<close>

definition taken :: "memory_storage \<Rightarrow> page_write \<Rightarrow> bool" where
  "taken s wt =
     (case wt of
        PW_Output o' g \<Rightarrow>
          row s (key_of o') \<noteq> None \<and>
          (beef o' \<noteq> None \<longrightarrow> tbl_get (ms_transactions s) (out_txid o') \<noteq> None \<and>
             (g \<longrightarrow> out_txid o' \<in> ms_gasp_transactions s))
      | PW_Applied t tp \<Rightarrow> tbl_get (ms_applied s) (t, tp) = Some True
      | PW_Backend \<Rightarrow> True)"

lemma update_same: "map_of m k = Some v \<Longrightarrow> AList.update k v m = m"
  by (induction m) (auto split: if_splits)

lemma tbl_or_insert_held: "tbl_get m k \<noteq> None \<Longrightarrow> tbl_or_insert k v m = m"
  by (auto simp: tbl_or_insert_def)

lemma taken_noop: "taken s wt \<Longrightarrow> apply_write wt s = s"
proof (cases wt)
  case (PW_Output o' g)
  assume "taken s wt"
  with PW_Output show ?thesis
    by (auto simp: taken_def apply_write_def insert_output_with_origin_def insert_output_def row_def
        upsert_beef_def tbl_or_insert_held Let_def insert_absorb split: option.splits)
next
  case (PW_Applied t tp)
  assume "taken s wt"
  with PW_Applied show ?thesis
    by (simp add: taken_def apply_write_def insert_applied_transaction_def tbl_insert_def tbl_get_def update_same)
qed (simp add: apply_write_def)

lemma insert_output_transactions:
  "tbl_get (ms_transactions (insert_output o' s)) t =
     (case beef o' of
        Some b \<Rightarrow> if t = out_txid o' \<and> tbl_get (ms_transactions s) t = None then Some b else tbl_get (ms_transactions s) t
      | None \<Rightarrow> tbl_get (ms_transactions s) t)"
  by (auto simp: insert_output_def Let_def upsert_beef_def stamp_created_def split: option.splits)

lemma insert_output_frame [frame_simps]:
  "ms_applied (insert_output o' s) = ms_applied s"
  "ms_gasp_transactions (insert_output o' s) = ms_gasp_transactions s"
  by (auto simp: insert_output_def Let_def upsert_beef_def stamp_created_def split: option.splits)

lemma origin_frame [frame_simps]:
  "ms_transactions (insert_output_with_origin o' g s) = ms_transactions (insert_output o' s)"
  "ms_applied (insert_output_with_origin o' g s) = ms_applied s"
  "ms_gasp_transactions (insert_output_with_origin o' g s) =
     (if g \<and> beef o' \<noteq> None then insert (out_txid o') (ms_gasp_transactions s) else ms_gasp_transactions s)"
  by (auto simp: insert_output_with_origin_def Let_def insert_output_frame)

lemma applied_frame [frame_simps]:
  "ms_transactions (insert_applied_transaction t tp s) = ms_transactions s"
  "ms_gasp_transactions (insert_applied_transaction t tp s) = ms_gasp_transactions s"
  "tbl_get (ms_applied (insert_applied_transaction t tp s)) k =
     (if k = (t, tp) then Some True else tbl_get (ms_applied s) k)"
  by (simp_all add: insert_applied_transaction_def)

lemma taken_apply: "taken (apply_write wt s) wt"
  by (cases wt) (auto simp: taken_def apply_write_def insert_output_transactions frame_simps split: option.splits)

lemma taken_kept: "taken s wt \<Longrightarrow> taken (apply_write wt' s) wt"
  by (cases wt; cases wt')
    (auto simp: taken_def apply_write_def insert_output_transactions frame_simps split: option.splits if_splits)

lemma taken_fold: "taken s wt \<or> wt \<in> set ws \<Longrightarrow> taken (fold apply_write ws s) wt"
  by (induction ws arbitrary: s) (auto simp: taken_kept taken_apply)

lemma fold_taken: "\<forall>wt \<in> set ws. taken s wt \<Longrightarrow> fold apply_write ws s = s"
  by (induction ws) (auto simp: taken_noop)

lemma fold_apply_twice: "fold apply_write ws (fold apply_write ws s) = fold apply_write ws s"
  by (rule fold_taken) (auto simp: taken_fold)

text \<open>
  C9: a page's batch applied twice writes once: on any store, the second run of the same batch changes
  nothing at all. So a batch whose answer was lost, landed or not, is safe to flush again, and the flush
  that answers leaves the store as one clean flush would have.
\<close>

theorem page_batch_idempotent:
  assumes "no_backend (pg_writes (m_page m))"
  shows "fst (write_batch (pg_writes (m_page m)) (fst (write_batch (pg_writes (m_page m)) (m_store m)))) =
           fst (write_batch (pg_writes (m_page m)) (m_store m)) \<and>
         m_store (fst (page_flush Batch_done (fst (page_flush out m)))) =
           fst (write_batch (pg_writes (m_page m)) (m_store m)) \<and>
         pg_writes (m_page (fst (page_flush Batch_done (fst (page_flush out m))))) = []"
proof -
  have "write_batch ws s = (fold apply_write ws s, Inr (length ws))" if "no_backend ws" for ws s
    using that by (rule write_batch_fold)
  then show ?thesis
    using assms
    by (cases out) (auto simp: page_flush_def Let_def fold_apply_twice no_backend_def)
qed

definition page_sample :: metered where
  "page_sample = \<lparr>m_store = ms_new, m_page = queue_output sample_output True (page_open page_new)\<rparr>"

theorem page_batch_idempotent_witness:
  "no_backend (pg_writes (m_page page_sample)) \<and>
   m_store (fst (page_flush Batch_done (fst (page_flush (Batch_landed ''late'') page_sample)))) =
     fst (write_batch (pg_writes (m_page page_sample)) (m_store page_sample))"
proof -
  have nb: "no_backend (pg_writes (m_page page_sample))"
    by (simp add: no_backend_def page_sample_def queue_output_def page_open_def page_new_def forget_answers_def Let_def)
  then show ?thesis using page_batch_idempotent [OF nb, of "Batch_landed ''late''"] by simp
qed

subsection \<open>The page and the store\<close>

text \<open>The store as it stands once the queue is written.\<close>

definition m_view :: "metered \<Rightarrow> memory_storage" where
  "m_view m = fold apply_write (pg_writes (m_page m)) (m_store m)"

text \<open>
  A page is coherent when the queue holds no backend statement, every answer it remembers is the one
  the written store gives, and every row or applied pair it has queued is answered.
\<close>

definition coherent :: "metered \<Rightarrow> bool" where
  "coherent m =
     (no_backend (pg_writes (m_page m)) \<and>
      (\<forall>k a. tbl_get (pg_outputs (m_page m)) k = Some a \<longrightarrow> a = row (m_view m) k) \<and>
      (\<forall>k. tbl_get (pg_outputs (m_page m)) k = None \<longrightarrow> row (m_view m) k = row (m_store m) k) \<and>
      (\<forall>k a. tbl_get (pg_applied (m_page m)) k = Some a \<longrightarrow>
         a = does_applied_transaction_exist (m_view m) (fst k) (snd k)) \<and>
      (\<forall>k. tbl_get (pg_applied (m_page m)) k = None \<longrightarrow>
         does_applied_transaction_exist (m_view m) (fst k) (snd k) =
         does_applied_transaction_exist (m_store m) (fst k) (snd k)))"

lemma m_view_queue:
  "m_view (m\<lparr>m_page := queue_output o' g (m_page m)\<rparr>) = insert_output_with_origin o' g (m_view m)"
  "m_view (m\<lparr>m_page := queue_applied t tp (m_page m)\<rparr>) = insert_applied_transaction t tp (m_view m)"
  by (simp_all add: m_view_def queue_output_def queue_applied_def apply_write_def)

lemma does_applied_frame [simp]:
  "does_applied_transaction_exist (insert_output_with_origin o' g s) t tp = does_applied_transaction_exist s t tp"
  "does_applied_transaction_exist (insert_applied_transaction t' tp' s) t tp =
     ((t, tp) = (t', tp') \<or> does_applied_transaction_exist s t tp)"
  by (auto simp: does_applied_transaction_exist_def frame_simps)

text \<open>A queued output is at a free key or repeats the row held there.\<close>

definition queueable :: "Output \<Rightarrow> memory_storage \<Rightarrow> bool" where
  "queueable o' s = (row s (key_of o') = None \<or> row s (key_of o') = Some (stored_row o'))"

lemma coherent_insert:
  assumes "coherent m" "pg_open (m_page m)" "queueable o' (m_view m)"
  shows "coherent (mt_insert o' g m)" "m_view (mt_insert o' g m) = insert_output_with_origin o' g (m_view m)"
proof -
  have v: "m_view (mt_insert o' g m) = insert_output_with_origin o' g (m_view m)"
    using assms(2) m_view_queue(1) by (simp add: mt_insert_def)
  then show "m_view (mt_insert o' g m) = insert_output_with_origin o' g (m_view m)" .
  have pg: "m_page (mt_insert o' g m) = queue_output o' g (m_page m)" "m_store (mt_insert o' g m) = m_store m"
    using assms(2) by (simp_all add: mt_insert_def)
  have rows: "row (insert_output_with_origin o' g (m_view m)) k =
      (if k = key_of o' then Some (stored_row o') else row (m_view m) k)" for k
    using assms(3) by (auto simp: queueable_def)
  show "coherent (mt_insert o' g m)"
    unfolding coherent_def v pg rows
    using assms(1) unfolding coherent_def
    by (simp add: queue_output_def no_backend_def stored_row_def)
qed

lemma coherent_applied:
  assumes "coherent m" "pg_open (m_page m)"
  shows "coherent (mt_insert_applied t tp m)"
    "m_view (mt_insert_applied t tp m) = insert_applied_transaction t tp (m_view m)"
proof -
  have v: "m_view (mt_insert_applied t tp m) = insert_applied_transaction t tp (m_view m)"
    using assms(2) m_view_queue(2) by (simp add: mt_insert_applied_def)
  then show "m_view (mt_insert_applied t tp m) = insert_applied_transaction t tp (m_view m)" .
  have pg: "m_page (mt_insert_applied t tp m) = queue_applied t tp (m_page m)"
    "m_store (mt_insert_applied t tp m) = m_store m"
    using assms(2) by (simp_all add: mt_insert_applied_def)
  show "coherent (mt_insert_applied t tp m)"
    unfolding coherent_def v pg
    using assms(1) unfolding coherent_def
    by (auto simp: queue_applied_def no_backend_def)
qed

lemma flush_done:
  assumes "coherent m"
  shows "snd (page_flush Batch_done m) = None" "m_store (fst (page_flush Batch_done m)) = m_view m"
    "pg_writes (m_page (fst (page_flush Batch_done m))) = []"
    "pg_outputs (m_page (fst (page_flush Batch_done m))) = pg_outputs (m_page m)"
    "pg_applied (m_page (fst (page_flush Batch_done m))) = pg_applied (m_page m)"
    "pg_open (m_page (fst (page_flush Batch_done m))) = pg_open (m_page m)"
  using assms write_batch_fold [of "pg_writes (m_page m)" "m_store m"]
  by (auto simp: page_flush_def Let_def m_view_def coherent_def)

lemma coherent_flush:
  assumes "coherent m"
  shows "coherent (fst (page_flush Batch_done m))" "m_view (fst (page_flush Batch_done m)) = m_view m"
proof -
  show v: "m_view (fst (page_flush Batch_done m)) = m_view m"
    using flush_done [OF assms] by (simp add: m_view_def)
  show "coherent (fst (page_flush Batch_done m))"
    using assms flush_done [OF assms] unfolding coherent_def v by (simp add: no_backend_def)
qed

lemma coherent_forget:
  "pg_writes (m_page m) = [] \<Longrightarrow> coherent (m\<lparr>m_page := forget_answers (m_page m)\<rparr>)"
  by (simp add: coherent_def forget_answers_def m_view_def no_backend_def)

lemma barrier_done:
  assumes "coherent m" "pg_open (m_page m)"
  obtains m1 where "barrier rows Batch_done m = (m1, None)" "m_store m1 = m_view m" "pg_writes (m_page m1) = []"
    "coherent m1" "pg_open (m_page m1)" "rows \<Longrightarrow> pg_outputs (m_page m1) = [] \<and> pg_applied (m_page m1) = []"
proof -
  define m0 where "m0 = (if pg_writes (m_page m) \<noteq> [] then fst (page_flush Batch_done m) else m)"
  have m0: "m_store m0 = m_view m" "pg_writes (m_page m0) = []" "coherent m0" "pg_open (m_page m0)"
    using flush_done [OF assms(1)] coherent_flush [OF assms(1)] assms by (auto simp: m0_def m_view_def)
  define m1 where "m1 = (if rows then m0\<lparr>m_page := forget_answers (m_page m0)\<rparr> else m0)"
  have "barrier rows Batch_done m = (m1, None)"
    using assms(2) flush_done(1) [OF assms(1)]
    by (auto simp: barrier_def m1_def m0_def split: prod.splits)
  moreover have "coherent m1" using m0 coherent_forget by (simp add: m1_def)
  ultimately show thesis
    using m0 by (intro that [of m1]) (auto simp: m1_def forget_answers_def)
qed

lemma coherent_write:
  assumes "coherent m" "pg_open (m_page m)"
    and "rows \<or> (\<forall>s. row (f s) = row s \<and> ms_applied (f s) = ms_applied s)"
  shows "coherent (fst (mt_write rows f Batch_done m))" "snd (mt_write rows f Batch_done m) = None"
    "m_view (fst (mt_write rows f Batch_done m)) = f (m_view m)"
    "pg_open (m_page (fst (mt_write rows f Batch_done m)))"
proof -
  obtain m1 where m1: "barrier rows Batch_done m = (m1, None)" "m_store m1 = m_view m" "pg_writes (m_page m1) = []"
    "coherent m1" "pg_open (m_page m1)" "rows \<Longrightarrow> pg_outputs (m_page m1) = [] \<and> pg_applied (m_page m1) = []"
    using barrier_done [OF assms(1,2), where rows = rows] by blast
  have eq: "mt_write rows f Batch_done m = (m1\<lparr>m_store := f (m_store m1)\<rparr>, None)"
    using m1(1) by (simp add: mt_write_def)
  have same: "row (f s) = row s" "does_applied_transaction_exist (f s) = does_applied_transaction_exist s"
    if "\<not> rows" for s
    using assms(3) that by (auto simp: does_applied_transaction_exist_def fun_eq_iff)
  show "coherent (fst (mt_write rows f Batch_done m))"
    using m1 same unfolding eq coherent_def by (cases rows) (simp_all add: m_view_def)
  show "snd (mt_write rows f Batch_done m) = None" "m_view (fst (mt_write rows f Batch_done m)) = f (m_view m)"
    "pg_open (m_page (fst (mt_write rows f Batch_done m)))"
    using m1 by (simp_all add: eq m_view_def)
qed

lemma coherent_read:
  assumes "coherent m" "pg_open (m_page m)"
  shows "coherent (fst (mt_read f Batch_done m))" "snd (mt_read f Batch_done m) = Inr (f (m_view m))"
    "m_view (fst (mt_read f Batch_done m)) = m_view m" "pg_open (m_page (fst (mt_read f Batch_done m)))"
proof -
  obtain m1 where m1: "barrier False Batch_done m = (m1, None)" "m_store m1 = m_view m" "pg_writes (m_page m1) = []"
    "coherent m1" "pg_open (m_page m1)"
    using barrier_done [OF assms, where rows = False] by blast
  then have "mt_read f Batch_done m = (m1, Inr (f (m_store m1)))" by (simp add: mt_read_def)
  with m1 show "coherent (fst (mt_read f Batch_done m))" "snd (mt_read f Batch_done m) = Inr (f (m_view m))"
    "m_view (fst (mt_read f Batch_done m)) = m_view m" "pg_open (m_page (fst (mt_read f Batch_done m)))"
    by (simp_all add: m_view_def)
qed

lemma m_view_page: "pg_writes p = pg_writes (m_page m) \<Longrightarrow> m_view (m\<lparr>m_page := p\<rparr>) = m_view m"
  by (simp add: m_view_def)

lemma coherent_remember:
  assumes "coherent m"
  shows "coherent (m\<lparr>m_page := remember_output k (row (m_view m) k) (m_page m)\<rparr>)"
    "coherent (m\<lparr>m_page := remember_applied j (does_applied_transaction_exist (m_view m) (fst j) (snd j)) (m_page m)\<rparr>)"
proof -
  have v: "m_view (m\<lparr>m_page := remember_output k a (m_page m)\<rparr>) = m_view m"
    "m_view (m\<lparr>m_page := remember_applied j b (m_page m)\<rparr>) = m_view m" for a b
    by (simp_all add: m_view_def remember_output_def remember_applied_def)
  show "coherent (m\<lparr>m_page := remember_output k (row (m_view m) k) (m_page m)\<rparr>)"
    using assms unfolding coherent_def v
    by (cases k) (simp add: remember_output_def split: option.splits)
  show "coherent (m\<lparr>m_page := remember_applied j (does_applied_transaction_exist (m_view m) (fst j) (snd j)) (m_page m)\<rparr>)"
    using assms unfolding coherent_def v
    by (cases j) (simp add: remember_applied_def split: option.splits)
qed

lemma coherent_unanswered:
  assumes "coherent m"
  shows "tbl_get (pg_outputs (m_page m)) k = None \<Longrightarrow> row (m_store m) k = row (m_view m) k"
    "tbl_get (pg_applied (m_page m)) j = None \<Longrightarrow>
       does_applied_transaction_exist (m_store m) (fst j) (snd j) =
       does_applied_transaction_exist (m_view m) (fst j) (snd j)"
    "tbl_get (pg_outputs (m_page m)) k = Some a \<Longrightarrow> a = row (m_view m) k"
    "tbl_get (pg_applied (m_page m)) j = Some b \<Longrightarrow> b = does_applied_transaction_exist (m_view m) (fst j) (snd j)"
  using assms unfolding coherent_def by metis+

lemma find_topic_row: "find_output s t i (Some tp) None False = row s (t, i, tp)"
  by (simp add: find_output_topic store_abs_def)

lemma coherent_find:
  assumes "coherent m" "pg_open (m_page m)"
  shows "coherent (fst (mt_find_output t i tp m))" "snd (mt_find_output t i tp m) = row (m_view m) (t, i, tp)"
    "m_view (fst (mt_find_output t i tp m)) = m_view m" "pg_open (m_page (fst (mt_find_output t i tp m)))"
  using assms coherent_unanswered(1,3) [OF assms(1), of "(t, i, tp)"]
    coherent_remember(1) [OF assms(1), of "(t, i, tp)"]
  by (auto simp: mt_find_output_def Let_def find_topic_row m_view_page remember_output_def split: option.splits)

lemma coherent_does_applied:
  assumes "coherent m" "pg_open (m_page m)"
  shows "coherent (fst (mt_does_applied t tp m))"
    "snd (mt_does_applied t tp m) = does_applied_transaction_exist (m_view m) t tp"
    "m_view (fst (mt_does_applied t tp m)) = m_view m" "pg_open (m_page (fst (mt_does_applied t tp m)))"
  using assms coherent_unanswered(2,4) [OF assms(1), of "(t, tp)"]
    coherent_remember(2) [OF assms(1), of "(t, tp)"]
  by (auto simp: mt_does_applied_def Let_def m_view_page remember_applied_def split: option.splits)

subsection \<open>Sequences of calls\<close>

text \<open>The calls of a sync's page: the admissions' own and those that flush.\<close>

datatype page_op =
    Op_insert Output bool
  | Op_insert_applied txid topic
  | Op_find txid nat topic
  | Op_does_applied txid topic
  | Op_delete txid nat topic
  | Op_mark txid nat topic
  | Op_consumed txid nat topic "outpoint list"
  | Op_unapply txid topic
  | Op_proven txid
  | Op_outputs_of txid bool

datatype page_answer = A_done | A_row "Output option" | A_bool bool | A_rows "Output list" | A_fault storage_error

fun direct_op :: "page_op \<Rightarrow> memory_storage \<Rightarrow> memory_storage \<times> page_answer" where
  "direct_op (Op_insert o' g) s = (insert_output_with_origin o' g s, A_done)"
| "direct_op (Op_insert_applied t tp) s = (insert_applied_transaction t tp s, A_done)"
| "direct_op (Op_find t i tp) s = (s, A_row (find_output s t i (Some tp) None False))"
| "direct_op (Op_does_applied t tp) s = (s, A_bool (does_applied_transaction_exist s t tp))"
| "direct_op (Op_delete t i tp) s = (delete_output t i tp s, A_done)"
| "direct_op (Op_mark t i tp) s = (mark_utxo_as_spent t i tp s, A_done)"
| "direct_op (Op_consumed t i tp ps) s = (update_consumed_by t i tp ps s, A_done)"
| "direct_op (Op_unapply t tp) s = (delete_applied_transaction t tp s, A_done)"
| "direct_op (Op_proven t) s = (mark_transaction_proven t s, A_done)"
| "direct_op (Op_outputs_of t inc) s = (s, A_rows (find_outputs_for_transaction s t inc))"

definition written :: "metered \<times> storage_error option \<Rightarrow> metered \<times> page_answer" where
  "written x = (fst x, case snd x of None \<Rightarrow> A_done | Some e \<Rightarrow> A_fault e)"

definition rows_read :: "metered \<times> (storage_error + Output list) \<Rightarrow> metered \<times> page_answer" where
  "rows_read x = (fst x, case snd x of Inl e \<Rightarrow> A_fault e | Inr rs \<Rightarrow> A_rows rs)"

fun paged_op :: "page_op \<Rightarrow> metered \<Rightarrow> metered \<times> page_answer" where
  "paged_op (Op_insert o' g) m = (mt_insert o' g m, A_done)"
| "paged_op (Op_insert_applied t tp) m = (mt_insert_applied t tp m, A_done)"
| "paged_op (Op_find t i tp) m = (fst (mt_find_output t i tp m), A_row (snd (mt_find_output t i tp m)))"
| "paged_op (Op_does_applied t tp) m = (fst (mt_does_applied t tp m), A_bool (snd (mt_does_applied t tp m)))"
| "paged_op (Op_delete t i tp) m = written (mt_write True (delete_output t i tp) Batch_done m)"
| "paged_op (Op_mark t i tp) m = written (mt_write True (mark_utxo_as_spent t i tp) Batch_done m)"
| "paged_op (Op_consumed t i tp ps) m = written (mt_write True (update_consumed_by t i tp ps) Batch_done m)"
| "paged_op (Op_unapply t tp) m = written (mt_write True (delete_applied_transaction t tp) Batch_done m)"
| "paged_op (Op_proven t) m = written (mt_write False (mark_transaction_proven t) Batch_done m)"
| "paged_op (Op_outputs_of t inc) m = rows_read (mt_read (\<lambda>s. find_outputs_for_transaction s t inc) Batch_done m)"

fun direct_run :: "page_op list \<Rightarrow> memory_storage \<Rightarrow> memory_storage \<times> page_answer list" where
  "direct_run [] s = (s, [])"
| "direct_run (c # cs) s =
     (let (s1, a) = direct_op c s; (s2, as) = direct_run cs s1 in (s2, a # as))"

fun paged_run :: "page_op list \<Rightarrow> metered \<Rightarrow> metered \<times> page_answer list" where
  "paged_run [] m = (m, [])"
| "paged_run (c # cs) m =
     (let (m1, a) = paged_op c m; (m2, as) = paged_run cs m1 in (m2, a # as))"

text \<open>Every output of the run is inserted at a key that is free then, or that holds that very row.\<close>

fun inserts_fresh :: "page_op list \<Rightarrow> memory_storage \<Rightarrow> bool" where
  "inserts_fresh [] s = True"
| "inserts_fresh (c # cs) s =
     ((case c of Op_insert o' g \<Rightarrow> queueable o' s | _ \<Rightarrow> True) \<and> inserts_fresh cs (fst (direct_op c s)))"

lemma paged_op_step:
  assumes "coherent m" "pg_open (m_page m)"
    "case c of Op_insert o' g \<Rightarrow> queueable o' (m_view m) | _ \<Rightarrow> True"
  shows "coherent (fst (paged_op c m)) \<and> pg_open (m_page (fst (paged_op c m))) \<and>
    m_view (fst (paged_op c m)) = fst (direct_op c (m_view m)) \<and> snd (paged_op c m) = snd (direct_op c (m_view m))"
proof (cases c)
  case (Op_insert o' g)
  then show ?thesis using coherent_insert [OF assms(1,2), of o' g] assms(2,3)
    by (simp add: mt_insert_def queue_output_def)
next
  case (Op_insert_applied t tp)
  then show ?thesis using coherent_applied [OF assms(1,2), of t tp] assms(2)
    by (simp add: mt_insert_applied_def queue_applied_def)
next
  case (Op_proven t)
  have "row (mark_transaction_proven t s) = row s \<and> ms_applied (mark_transaction_proven t s) = ms_applied s" for s
    by (simp add: mark_transaction_proven_def row_def fun_eq_iff)
  then show ?thesis
    using Op_proven coherent_write [OF assms(1,2), of False "mark_transaction_proven t"] by (simp add: written_def)
next
  case (Op_outputs_of t inc)
  then show ?thesis
    using coherent_read [OF assms(1,2), of "\<lambda>s. find_outputs_for_transaction s t inc"] by (simp add: rows_read_def)
qed (use coherent_find [OF assms(1,2)] coherent_does_applied [OF assms(1,2)]
       coherent_write [OF assms(1,2), of True]
     in \<open>simp_all add: written_def rows_read_def find_topic_row\<close>)

lemma paged_run_simulates:
  assumes "coherent m" "pg_open (m_page m)" "inserts_fresh cs (m_view m)"
  shows "coherent (fst (paged_run cs m)) \<and> m_view (fst (paged_run cs m)) = fst (direct_run cs (m_view m)) \<and>
    snd (paged_run cs m) = snd (direct_run cs (m_view m))"
  using assms
proof (induction cs arbitrary: m)
  case (Cons c cs)
  note st = paged_op_step [OF Cons.prems(1,2), of c]
  have q: "case c of Op_insert o' g \<Rightarrow> queueable o' (m_view m) | _ \<Rightarrow> True" using Cons.prems(3) by simp
  have "inserts_fresh cs (m_view (fst (paged_op c m)))" using Cons.prems(3) st [OF q] by simp
  from Cons.IH [OF _ _ this] show ?case
    using st [OF q] by (auto simp: Let_def case_prod_unfold)
qed simp

text \<open>
  C6: a sync's page is transparent. From a store and a freshly opened page, any sequence of the sync's
  calls answers, call by call, what the store itself would have answered, and when the page is flushed
  the store is the one those calls made directly give; this for outputs inserted at keys that are free
  or already hold the very row, as an admission's are.
\<close>

theorem page_buffer_refines_store:
  assumes "inserts_fresh cs s" "m = \<lparr>m_store = s, m_page = page_open page_new\<rparr>"
  shows "snd (paged_run cs m) = snd (direct_run cs s) \<and>
    m_store (fst (page_flush Batch_done (fst (paged_run cs m)))) = fst (direct_run cs s)"
proof -
  have c: "coherent m" "pg_open (m_page m)" "m_view m = s"
    using assms(2) by (simp_all add: coherent_def m_view_def page_open_def page_new_def forget_answers_def
        no_backend_def Let_def)
  note run = paged_run_simulates [OF c(1,2), of cs]
  show ?thesis using run c(3) assms(1) flush_done(2) by simp
qed

theorem page_buffer_refines_store_witness:
  "snd (paged_run [Op_insert sample_output True, Op_find ''aa'' 0 ''tm_a'', Op_mark ''aa'' 0 ''tm_a'', Op_find ''aa'' 0 ''tm_a'']
          \<lparr>m_store = ms_new, m_page = page_open page_new\<rparr>) =
   snd (direct_run [Op_insert sample_output True, Op_find ''aa'' 0 ''tm_a'', Op_mark ''aa'' 0 ''tm_a'', Op_find ''aa'' 0 ''tm_a''] ms_new)"
proof -
  have "inserts_fresh [Op_insert sample_output True, Op_find ''aa'' 0 ''tm_a'', Op_mark ''aa'' 0 ''tm_a'', Op_find ''aa'' 0 ''tm_a''] ms_new"
    by (simp add: queueable_def row_def ms_new_def)
  from page_buffer_refines_store [OF this refl] show ?thesis by simp
qed

subsection \<open>The prefetch\<close>

lemma map_of_unique: "(k, r) \<in> set xs \<Longrightarrow> (\<And>v. (k, v) \<in> set xs \<Longrightarrow> v = r) \<Longrightarrow> map_of xs k = Some r"
  using map_of_SomeD weak_map_of_SomeI by metis

lemma prefetch_row:
  assumes "ms_inv s" "(t, i) \<in> set asked"
  shows "map_of (rev (map (\<lambda>r. ((out_txid r, output_index r), r)) (find_topic_outputs s tp asked))) (t, i) =
    row s (t, i, tp)"
proof -
  let ?held = "rev (map (\<lambda>r. ((out_txid r, output_index r), r)) (find_topic_outputs s tp asked))"
  have mem: "r \<in> set (find_topic_outputs s tp asked) \<longleftrightarrow> (\<exists>t i. (t, i) \<in> set asked \<and> row s (t, i, tp) = Some r)" for r
    by (force simp: find_topic_outputs_def find_topic_row List.map_filter_def)
  have key: "row s (t', i', tp) = Some r \<Longrightarrow> out_txid r = t' \<and> output_index r = i'" for t' i' r
    using inv_row_key [OF assms(1), of "(t', i', tp)" r] by (simp add: key_of_def)
  have val: "((t, i), v) \<in> set ?held \<Longrightarrow> row s (t, i, tp) = Some v" for v
    using mem key by auto
  show ?thesis
  proof (cases "row s (t, i, tp)")
    case None
    have "map_of ?held (t, i) = None"
    proof (rule ccontr)
      assume "map_of ?held (t, i) \<noteq> None"
      then obtain v where "map_of ?held (t, i) = Some v" by blast
      then show False using val [OF map_of_SomeD] None by simp
    qed
    then show ?thesis using None by simp
  next
    case (Some r)
    have "r \<in> set (find_topic_outputs s tp asked)" using mem assms(2) Some by blast
    then have "((t, i), r) \<in> set ?held" using key [OF Some] by force
    then have "map_of ?held (t, i) = Some r" by (rule map_of_unique) (use val Some in auto)
    then show ?thesis using Some by simp
  qed
qed

lemma remember_output_frame [simp]:
  "pg_writes (remember_output k a p) = pg_writes p" "pg_open (remember_output k a p) = pg_open p"
  "pg_applied (remember_output k a p) = pg_applied p"
  "pg_writes (remember_applied j b p) = pg_writes p" "pg_open (remember_applied j b p) = pg_open p"
  by (simp_all add: remember_output_def remember_applied_def)

lemma coherent_remember_outputs:
  assumes "coherent m" "\<forall>(t, i) \<in> set asked. a t i = row (m_view m) (t, i, tp)"
  shows "coherent (m\<lparr>m_page := fold (\<lambda>(t, i). remember_output (t, i, tp) (a t i)) asked (m_page m)\<rparr>) \<and>
    pg_writes (fold (\<lambda>(t, i). remember_output (t, i, tp) (a t i)) asked (m_page m)) = pg_writes (m_page m)"
  using assms
proof (induction asked arbitrary: m)
  case (Cons x asked)
  obtain t i where x: "x = (t, i)" by (cases x)
  let ?m = "m\<lparr>m_page := remember_output (t, i, tp) (a t i) (m_page m)\<rparr>"
  have v: "m_view ?m = m_view m" by (rule m_view_page) simp
  have "coherent ?m" using coherent_remember(1) [OF Cons.prems(1), of "(t, i, tp)"] Cons.prems(2) x by simp
  moreover have "\<forall>(t, i) \<in> set asked. a t i = row (m_view ?m) (t, i, tp)" using Cons.prems(2) v by auto
  ultimately show ?case using Cons.IH [of ?m] x by simp
qed simp

lemma coherent_remember_applieds:
  assumes "coherent m" "\<forall>t \<in> set ts. b t = does_applied_transaction_exist (m_view m) t tp"
  shows "coherent (m\<lparr>m_page := fold (\<lambda>t. remember_applied (t, tp) (b t)) ts (m_page m)\<rparr>) \<and>
    pg_writes (fold (\<lambda>t. remember_applied (t, tp) (b t)) ts (m_page m)) = pg_writes (m_page m)"
  using assms
proof (induction ts arbitrary: m)
  case (Cons t ts)
  let ?m = "m\<lparr>m_page := remember_applied (t, tp) (b t) (m_page m)\<rparr>"
  have v: "m_view ?m = m_view m" by (rule m_view_page) simp
  have "coherent ?m" using coherent_remember(2) [OF Cons.prems(1), of "(t, tp)"] Cons.prems(2) by simp
  moreover have "\<forall>t \<in> set ts. b t = does_applied_transaction_exist (m_view ?m) t tp" using Cons.prems(2) v by auto
  ultimately show ?case using Cons.IH [of ?m] by simp
qed simp

text \<open>
  A page's prefetch, whichever of its two reads answer, changes no write and keeps every answer of
  the page the one the written store gives, over the page's own queued writes too.
\<close>

theorem prefetch_keeps_answers:
  assumes "coherent m" "ms_inv (m_store m)"
  shows "coherent (prefetch tp ins ts ok1 ok2 m) \<and> m_view (prefetch tp ins ts ok1 ok2 m) = m_view m"
proof (cases "pg_open (m_page m)")
  case True
  let ?asked = "prefetch_inputs tp ins (m_page m)"
  let ?a = "\<lambda>t i. map_of (rev (map (\<lambda>r. ((out_txid r, output_index r), r))
                               (find_topic_outputs (m_store m) tp ?asked))) (t, i)"
  define p1 where "p1 = (if ok1 then fold (\<lambda>(t, i). remember_output (t, i, tp) (?a t i)) ?asked (m_page m) else m_page m)"
  have "?a t i = row (m_view m) (t, i, tp)" if "(t, i) \<in> set ?asked" for t i
    using that prefetch_row [OF assms(2) that] coherent_unanswered(1) [OF assms(1), of "(t, i, tp)"]
    by (simp add: prefetch_inputs_def)
  then have p1: "coherent (m\<lparr>m_page := p1\<rparr>)" "pg_writes p1 = pg_writes (m_page m)"
    using coherent_remember_outputs [OF assms(1), of ?asked ?a tp] assms(1) by (auto simp: p1_def)
  let ?m1 = "m\<lparr>m_page := p1\<rparr>"
  have v1: "m_view ?m1 = m_view m" using p1(2) by (rule m_view_page)
  let ?ts = "prefetch_txids tp ts p1"
  let ?b = "\<lambda>t. t \<in> set (find_applied_transactions (m_store m) tp ?ts)"
  define p2 where "p2 = (if ok2 then fold (\<lambda>t. remember_applied (t, tp) (?b t)) ?ts p1 else p1)"
  have "?b t = does_applied_transaction_exist (m_view ?m1) t tp" if "t \<in> set ?ts" for t
    using that coherent_unanswered(2) [OF p1(1), of "(t, tp)"]
    by (simp add: prefetch_txids_def find_applied_transactions_def)
  then have p2: "coherent (?m1\<lparr>m_page := p2\<rparr>)" "pg_writes p2 = pg_writes p1"
    using coherent_remember_applieds [OF p1(1), of ?ts ?b tp] p1(1) by (auto simp: p2_def)
  have "prefetch tp ins ts ok1 ok2 m = ?m1\<lparr>m_page := p2\<rparr>"
    using True by (simp add: prefetch_def Let_def p1_def p2_def)
  then show ?thesis using p2 v1 m_view_page [of p2 ?m1] by simp
qed (use assms in \<open>simp add: prefetch_def\<close>)

theorem prefetch_keeps_answers_witness:
  "coherent (prefetch ''tm_a'' [(''aa'', 0)] [''aa''] True True \<lparr>m_store = sample_store, m_page = page_open page_new\<rparr>)"
proof -
  let ?m = "\<lparr>m_store = sample_store, m_page = page_open page_new\<rparr>"
  have "coherent ?m"
    by (simp add: coherent_def m_view_def page_open_def page_new_def forget_answers_def no_backend_def Let_def)
  from prefetch_keeps_answers [OF this] show ?thesis using sample_store_inv by simp
qed

end
