(* ===== verification/Wire_Codec.thy ===== *)
theory Wire_Codec
  imports Main
begin

text \<open>
  The contract of a stored or wire form: values that satisfy \<open>wf\<close> are written by \<open>to_wire\<close> and read
  back by \<open>of_wire\<close>, which answers \<open>None\<close> on what is not a written form. \<open>wire_codec\<close> is the law the
  writers of such columns rely on (a written value is read back); \<open>exact_wire_codec\<close> adds that nothing
  else is read, which the columns holding an enum's name promise.
\<close>

locale wire_codec =
  fixes wf :: "'v \<Rightarrow> bool"
    and to_wire :: "'v \<Rightarrow> 'w"
    and of_wire :: "'w \<Rightarrow> 'v option"
  assumes read_back: "wf v \<Longrightarrow> of_wire (to_wire v) = Some v"
begin

lemma to_wire_inj: "inj_on to_wire (Collect wf)"
  by (rule inj_onI) (metis mem_Collect_eq option.inject read_back)

lemma to_wire_eq_iff: "wf v \<Longrightarrow> wf w \<Longrightarrow> to_wire v = to_wire w \<longleftrightarrow> v = w"
  by (metis option.inject read_back)

end

locale exact_wire_codec = wire_codec +
  assumes read_only: "of_wire x = Some v \<Longrightarrow> wf v \<and> x = to_wire v"
begin

lemma of_wire_iff: "of_wire x = Some v \<longleftrightarrow> wf v \<and> x = to_wire v"
  using read_back read_only by blast

lemma of_wire_None_iff: "of_wire x = None \<longleftrightarrow> x \<notin> to_wire ` Collect wf"
proof (cases "of_wire x")
  case None
  then show ?thesis using read_back by fastforce
next
  case (Some v)
  then show ?thesis using read_only [OF Some] by auto
qed

lemma of_wire_inj: "of_wire x = Some v \<Longrightarrow> of_wire y = Some v \<Longrightarrow> x = y"
  using read_only by metis

end

end
