(* ===== verification/Covenant.thy ===== *)
theory Covenant
  imports Overlay_Types Wire_Codec "HOL-Library.Monad_Syntax"
begin

unbundle bit_operations_syntax

text \<open>
  The covenant of a pot (\<open>overlay-discovery/src/pot/mod.rs\<close> and \<open>pot/covenant.rs\<close>): the frozen
  template a funding lock is recognised by, the decoder and encoder of its ten committed parameters,
  the output sets those parameters mandate for a settle, a tie and a refund, and the classifier that
  reads the verdict of a spend from its outputs.

  The template's text is a file of the repository that the build includes; its HEAD and TAIL enter the
  definitions as \<open>pot_template\<close>, decoded from the text by \<open>template_of\<close> with \<open>hex::decode\<close> as a
  parameter. Amounts are \<open>u64\<close>, held as \<open>nat\<close>: every addition of the source on them is a
  \<open>checked_add\<close> or is bounded by one, and the byte decoder only ever sets bits below the 64th.
\<close>

subsection \<open>The frozen template\<close>

record pot_template =
  tpl_head :: bytes
  tpl_tail :: bytes

text \<open>\<open>s[..s.find(c)]\<close> and \<open>s[s.rfind(c) + 1..]\<close>; \<open>None\<close> where the character does not occur.\<close>

fun before_first :: "char \<Rightarrow> string \<Rightarrow> string option" where
  "before_first c [] = None"
| "before_first c (d # s) = (if d = c then Some [] else map_option ((#) d) (before_first c s))"

definition after_last :: "char \<Rightarrow> string \<Rightarrow> string option" where
  "after_last c s = map_option rev (before_first c (rev s))"

definition head_bytes :: "(string \<Rightarrow> bytes option) \<Rightarrow> string \<Rightarrow> bytes option" where
  "head_bytes hex_decode text = Option.bind (before_first CHR ''<'' text) hex_decode"

definition tail_bytes :: "(string \<Rightarrow> bytes option) \<Rightarrow> string \<Rightarrow> bytes option" where
  "tail_bytes hex_decode text = Option.bind (after_last CHR ''>'' text) hex_decode"

text \<open>\<open>None\<close> is the panic of the \<open>expect\<close> calls: a text without markers or with invalid hex.\<close>

definition template_of :: "(string \<Rightarrow> bytes option) \<Rightarrow> string \<Rightarrow> pot_template option" where
  "template_of hex_decode text = do {
     h \<leftarrow> head_bytes hex_decode text;
     t \<leftarrow> tail_bytes hex_decode text;
     Some \<lparr>tpl_head = h, tpl_tail = t\<rparr>
   }"

definition is_pot_covenant_script :: "pot_template \<Rightarrow> bytes \<Rightarrow> bool" where
  "is_pot_covenant_script T s \<longleftrightarrow>
     length (tpl_head T) + length (tpl_tail T) \<le> length s
     \<and> take (length (tpl_head T)) s = tpl_head T
     \<and> drop (length s - length (tpl_tail T)) s = tpl_tail T"

definition pot_covenant_param_region :: "pot_template \<Rightarrow> bytes \<Rightarrow> bytes option" where
  "pot_covenant_param_region T s =
     (if \<not> is_pot_covenant_script T s then None
      else Some (take (length s - length (tpl_tail T) - length (tpl_head T))
                   (drop (length (tpl_head T)) s)))"

subsection \<open>Parameters and their encoding\<close>

record covenant_params =
  pub_a :: bytes
  pub_b :: bytes
  pub_tower :: bytes
  pay_pkh_a :: bytes
  pay_pkh_b :: bytes
  rake_pkh :: bytes
  stake_a :: nat
  stake_b :: nat
  fee_sats :: nat
  recovery_height :: nat

text \<open>What the Rust types \<open>[u8; 33]\<close>, \<open>[u8; 20]\<close> and \<open>u64\<close> say of the fields.\<close>

definition params_wf :: "covenant_params \<Rightarrow> bool" where
  "params_wf p \<longleftrightarrow>
     length (pub_a p) = 33 \<and> length (pub_b p) = 33 \<and> length (pub_tower p) = 33
     \<and> length (pay_pkh_a p) = 20 \<and> length (pay_pkh_b p) = 20 \<and> length (rake_pkh p) = 20
     \<and> stake_a p \<le> U64_MAX \<and> stake_b p \<le> U64_MAX
     \<and> fee_sats p \<le> U64_MAX \<and> recovery_height p \<le> U64_MAX"

datatype param_push = Data bytes | Num nat

text \<open>The walk over the region: the list is what is left of it from \<open>i\<close> on.\<close>

function read_param_pushes :: "bytes \<Rightarrow> param_push list option" where
  "read_param_pushes [] = Some []"
| "read_param_pushes (op # rest) =
     (if op = 0 then map_option ((#) (Num 0)) (read_param_pushes rest)
      else if 0x51 \<le> op \<and> op \<le> 0x60
        then map_option ((#) (Num (unat (op - 0x50)))) (read_param_pushes rest)
      else if 1 \<le> op \<and> op \<le> 0x4b
        then if length rest < unat op then None
             else map_option ((#) (Data (take (unat op) rest)))
                    (read_param_pushes (drop (unat op) rest))
      else None)"
  by pat_completeness auto
termination by (relation "measure length") auto

text \<open>The loop of the decoder, over the bytes with their index.\<close>

fun script_num_loop :: "nat \<Rightarrow> nat \<Rightarrow> bytes \<Rightarrow> nat option" where
  "script_num_loop i v [] = Some v"
| "script_num_loop i v (b # bs) =
     (if 8 \<le> i then if b \<noteq> 0 then None else script_num_loop (i + 1) v bs
      else script_num_loop (i + 1) (v OR push_bit (8 * i) (unat b)) bs)"

definition script_num_u64 :: "bytes \<Rightarrow> nat option" where
  "script_num_u64 bs =
     (if bs = [] \<or> 9 < length bs then None
      else if last bs AND 0x80 \<noteq> 0 then None
      else script_num_loop 0 0 bs)"

definition param_data :: "nat \<Rightarrow> param_push \<Rightarrow> bytes option" where
  "param_data n p = (case p of Data d \<Rightarrow> if length d = n then Some d else None | Num _ \<Rightarrow> None)"

definition param_num :: "param_push \<Rightarrow> nat option" where
  "param_num p = (case p of Num n \<Rightarrow> Some n | Data d \<Rightarrow> script_num_u64 d)"

definition extract_covenant_params :: "pot_template \<Rightarrow> bytes \<Rightarrow> covenant_params option" where
  "extract_covenant_params T lock = do {
     region \<leftarrow> pot_covenant_param_region T lock;
     pushes \<leftarrow> read_param_pushes region;
     if length pushes \<noteq> 10 then None else do {
       a \<leftarrow> param_data 33 (pushes ! 0);
       b \<leftarrow> param_data 33 (pushes ! 1);
       t \<leftarrow> param_data 33 (pushes ! 2);
       pa \<leftarrow> param_data 20 (pushes ! 3);
       pb \<leftarrow> param_data 20 (pushes ! 4);
       pr \<leftarrow> param_data 20 (pushes ! 5);
       sa \<leftarrow> param_num (pushes ! 6);
       sb \<leftarrow> param_num (pushes ! 7);
       fee \<leftarrow> param_num (pushes ! 8);
       rh \<leftarrow> param_num (pushes ! 9);
       Some \<lparr>pub_a = a, pub_b = b, pub_tower = t, pay_pkh_a = pa, pay_pkh_b = pb, rake_pkh = pr,
             stake_a = sa, stake_b = sb, fee_sats = fee, recovery_height = rh\<rparr>
     }
   }"

text \<open>The decoded-column read path; \<open>hex::decode\<close> is a parameter.\<close>

definition hex_array :: "(string \<Rightarrow> bytes option) \<Rightarrow> nat \<Rightarrow> string \<Rightarrow> bytes option" where
  "hex_array hex_decode n h = do {
     d \<leftarrow> hex_decode h;
     if length d \<noteq> n then None else Some d
   }"

definition covenant_params_from_hex ::
  "(string \<Rightarrow> bytes option) \<Rightarrow> string \<Rightarrow> string \<Rightarrow> string \<Rightarrow> string \<Rightarrow> string \<Rightarrow> string
   \<Rightarrow> nat \<Rightarrow> nat \<Rightarrow> nat \<Rightarrow> nat \<Rightarrow> covenant_params option" where
  "covenant_params_from_hex hex_decode ha hb ht hpa hpb hpr sa sb fee rh = do {
     a \<leftarrow> hex_array hex_decode 33 ha;
     b \<leftarrow> hex_array hex_decode 33 hb;
     t \<leftarrow> hex_array hex_decode 33 ht;
     pa \<leftarrow> hex_array hex_decode 20 hpa;
     pb \<leftarrow> hex_array hex_decode 20 hpb;
     pr \<leftarrow> hex_array hex_decode 20 hpr;
     Some \<lparr>pub_a = a, pub_b = b, pub_tower = t, pay_pkh_a = pa, pay_pkh_b = pb, rake_pkh = pr,
           stake_a = sa, stake_b = sb, fee_sats = fee, recovery_height = rh\<rparr>
   }"

definition push_data :: "bytes \<Rightarrow> bytes" where
  "push_data d = word_of_nat (length d) # d"

text \<open>The \<open>while v > 0\<close> loop: the low byte, then the value shifted right by eight.\<close>

fun le_bytes :: "nat \<Rightarrow> bytes" where
  "le_bytes v = (if v = 0 then [] else word_of_nat (v mod 256) # le_bytes (v div 256))"

declare le_bytes.simps [simp del]

definition sign_guard :: "bytes \<Rightarrow> bytes" where
  "sign_guard bs = (if bs \<noteq> [] \<and> last bs AND 0x80 \<noteq> 0 then bs @ [0] else bs)"

definition push_minimal_int :: "nat \<Rightarrow> bytes" where
  "push_minimal_int n =
     (if n = 0 then [0]
      else if n \<le> 16 then [0x50 + word_of_nat n]
      else let bs = sign_guard (le_bytes n) in word_of_nat (length bs) # bs)"

definition encode_covenant_param_pushes :: "covenant_params \<Rightarrow> bytes" where
  "encode_covenant_param_pushes p =
     push_data (pub_a p) @ push_data (pub_b p) @ push_data (pub_tower p)
     @ push_data (pay_pkh_a p) @ push_data (pay_pkh_b p) @ push_data (rake_pkh p)
     @ push_minimal_int (stake_a p) @ push_minimal_int (stake_b p)
     @ push_minimal_int (fee_sats p) @ push_minimal_int (recovery_height p)"

definition covenant_lock_of :: "pot_template \<Rightarrow> covenant_params \<Rightarrow> bytes" where
  "covenant_lock_of T p = tpl_head T @ encode_covenant_param_pushes p @ tpl_tail T"

subsection \<open>Standard locks\<close>

definition p2pkh_lock :: "bytes \<Rightarrow> bytes" where
  "p2pkh_lock pkh = [0x76, 0xa9, 0x14] @ pkh @ [0x88, 0xac]"

definition is_p2pkh_lock :: "bytes \<Rightarrow> bool" where
  "is_p2pkh_lock s \<longleftrightarrow> length s = 25 \<and> s ! 0 = 0x76 \<and> s ! 1 = 0xa9 \<and> s ! 2 = 0x14
     \<and> s ! 23 = 0x88 \<and> s ! 24 = 0xac"

definition is_p2pkh_script :: "bytes \<Rightarrow> bool" where
  "is_p2pkh_script s \<longleftrightarrow> length s = 25 \<and> s ! 0 = 0x76 \<and> s ! 1 = 0xa9 \<and> s ! 2 = 0x14
     \<and> s ! 23 = 0x88 \<and> s ! 24 = 0xac"

definition is_bare_2of3_lock :: "bytes \<Rightarrow> bool" where
  "is_bare_2of3_lock s \<longleftrightarrow> length s = 105 \<and> s ! 0 = 0x52 \<and> s ! 1 = 33 \<and> s ! 35 = 33
     \<and> s ! 69 = 33 \<and> s ! 103 = 0x53 \<and> s ! 104 = 0xae"

subsection \<open>Output templates\<close>

type_synonym output_set = "(nat \<times> bytes) list"

definition TEMPLATE_RAKE_DIVISOR :: nat where
  "TEMPLATE_RAKE_DIVISOR = 100"

definition LOCKTIME_THRESHOLD :: nat where
  "LOCKTIME_THRESHOLD = 500000000"

definition winner_template :: "covenant_params \<Rightarrow> nat \<Rightarrow> nat \<Rightarrow> bytes \<Rightarrow> output_set" where
  "winner_template p net rake pkh =
     (if 0 < rake then [(rake, p2pkh_lock (rake_pkh p))] else [])
     @ [(net - rake, p2pkh_lock pkh)]"

definition settle_templates ::
  "covenant_params \<Rightarrow> (output_set \<times> output_set \<times> output_set) option" where
  "settle_templates p = do {
     pot \<leftarrow> checked_add64 (stake_a p) (stake_b p);
     if pot \<le> fee_sats p then None
     else let net = pot - fee_sats p; rake = pot div TEMPLATE_RAKE_DIVISOR in
       if net \<le> rake then None
       else let tie_rake = (if (net - min rake net) mod 2 = 1 then rake + 1 else rake) in
         if net \<le> tie_rake then None
         else let half = (net - tie_rake) div 2 in
           Some (winner_template p net rake (pay_pkh_a p),
                 winner_template p net rake (pay_pkh_b p),
                 (if 0 < tie_rake then [(tie_rake, p2pkh_lock (rake_pkh p))] else [])
                 @ [(half, p2pkh_lock (pay_pkh_a p)), (half, p2pkh_lock (pay_pkh_b p))])
   }"

definition refund_template :: "covenant_params \<Rightarrow> output_set option" where
  "refund_template p =
     (let fee_b = fee_sats p div 2; fee_a = fee_sats p - fee_b in
      if stake_a p < fee_a \<or> stake_b p < fee_b then None
      else Some [(stake_a p - fee_a, p2pkh_lock (pay_pkh_a p)),
                 (stake_b p - fee_b, p2pkh_lock (pay_pkh_b p))])"

subsection \<open>Classification\<close>

record raw_input =
  prev_txid :: txid
  prev_vout :: nat
  ri_sequence :: nat

record raw_tx =
  rt_inputs :: "raw_input list"
  rt_outputs :: output_set
  rt_lock_time :: nat

text \<open>The fields of a parsed \<open>bsv_rs\<close> transaction the projection reads.\<close>

record parsed_input =
  pi_source_txid :: "txid option"
  pi_source_output_index :: nat
  pi_sequence :: nat

record parsed_output =
  po_satoshis :: "nat option"
  po_locking_script :: bytes

record parsed_tx =
  pt_inputs :: "parsed_input list"
  pt_outputs :: "parsed_output list"
  pt_lock_time :: nat

fun raw_inputs :: "parsed_input list \<Rightarrow> raw_input list option" where
  "raw_inputs [] = Some []"
| "raw_inputs (i # is) = do {
     t \<leftarrow> pi_source_txid i;
     rest \<leftarrow> raw_inputs is;
     Some (\<lparr>prev_txid = to_ascii_lowercase t, prev_vout = pi_source_output_index i,
            ri_sequence = pi_sequence i\<rparr> # rest)
   }"

fun raw_outputs :: "parsed_output list \<Rightarrow> output_set option" where
  "raw_outputs [] = Some []"
| "raw_outputs (po # os) = do {
     v \<leftarrow> po_satoshis po;
     rest \<leftarrow> raw_outputs os;
     Some ((v, po_locking_script po) # rest)
   }"

definition from_transaction :: "parsed_tx \<Rightarrow> raw_tx option" where
  "from_transaction tx = do {
     is \<leftarrow> raw_inputs (pt_inputs tx);
     os \<leftarrow> raw_outputs (pt_outputs tx);
     Some \<lparr>rt_inputs = is, rt_outputs = os, rt_lock_time = pt_lock_time tx\<rparr>
   }"

datatype pot_verdict = WinnerA | WinnerB | Tie | Refund

fun verdict_as_str :: "pot_verdict \<Rightarrow> string" where
  "verdict_as_str WinnerA = ''winner-a''"
| "verdict_as_str WinnerB = ''winner-b''"
| "verdict_as_str Tie = ''tie''"
| "verdict_as_str Refund = ''refund''"

definition verdict_from_wire :: "string \<Rightarrow> pot_verdict option" where
  "verdict_from_wire s =
     (if s = ''winner-a'' then Some WinnerA
      else if s = ''winner-b'' then Some WinnerB
      else if s = ''tie'' then Some Tie
      else if s = ''refund'' then Some Refund
      else None)"

definition refund_gate_ok :: "covenant_params \<Rightarrow> raw_tx \<Rightarrow> nat \<Rightarrow> bool" where
  "refund_gate_ok p spender pot_sequence \<longleftrightarrow>
     recovery_height p \<le> rt_lock_time spender \<and> rt_lock_time spender < LOCKTIME_THRESHOLD
     \<and> 0 < rt_lock_time spender \<and> pot_sequence \<noteq> 0xffffffff"

definition classify_covenant :: "covenant_params \<Rightarrow> raw_tx \<Rightarrow> nat \<Rightarrow> pot_verdict option" where
  "classify_covenant p spender pot_sequence =
     (if pay_pkh_a p = pay_pkh_b p then None
      else do {
        (t_a, t_b, t_tie) \<leftarrow> settle_templates p;
        t_refund \<leftarrow> refund_template p;
        let os = rt_outputs spender; gate = refund_gate_ok p spender pot_sequence in
          case (os = t_a, os = t_b, os = t_tie, os = t_refund) of
            (True, False, False, False) \<Rightarrow> Some WinnerA
          | (False, True, False, False) \<Rightarrow> Some WinnerB
          | (False, False, True, False) \<Rightarrow> Some Tie
          | (False, False, False, True) \<Rightarrow> if gate then Some Refund else None
          | (False, False, True, True) \<Rightarrow> if gate then Some Refund else Some Tie
          | _ \<Rightarrow> None
      })"

subsection \<open>Script numbers\<close>

text \<open>The value of a little-endian byte string.\<close>

primrec le_value :: "bytes \<Rightarrow> nat" where
  "le_value [] = 0"
| "le_value (b # bs) = unat b + 256 * le_value bs"

lemma or_push_bit_add:
  fixes v b :: nat
  assumes "v < 2 ^ k"
  shows "v OR push_bit k b = v + 2 ^ k * b"
proof -
  have tb: "take_bit k v = v"
    using assms by (simp add: take_bit_nat_eq_self)
  have "\<not> bit v n \<or> \<not> bit (push_bit k b) n" for n
    using bit_take_bit_iff [of k v n] by (auto simp: tb bit_push_bit_iff)
  then have "v + push_bit k b = v OR push_bit k b"
    by (rule disjunctive_add)
  then show ?thesis by (simp add: push_bit_eq_mult mult.commute)
qed

lemma script_num_loop_short:
  "v < 2 ^ (8 * i) \<Longrightarrow> i + length bs \<le> 8 \<Longrightarrow>
   script_num_loop i v bs = Some (v + 2 ^ (8 * i) * le_value bs)"
proof (induction bs arbitrary: i v)
  case Nil
  then show ?case by simp
next
  case (Cons b bs)
  have b: "unat b < 256" using unsigned_less [of b, where ?'a = nat] by simp
  have step: "v OR push_bit (8 * i) (unat b) = v + 2 ^ (8 * i) * unat b"
    using Cons.prems(1) by (rule or_push_bit_add)
  have "v + 2 ^ (8 * i) * unat b < 2 ^ (8 * i) + 2 ^ (8 * i) * unat b"
    using Cons.prems(1) by simp
  also have "\<dots> = 2 ^ (8 * i) * (1 + unat b)" by simp
  also have "\<dots> \<le> 2 ^ (8 * i) * 256" using b by (intro mult_le_mono) simp_all
  finally have less: "v + 2 ^ (8 * i) * unat b < 2 ^ (8 * (i + 1))" by (simp add: power_add mult.commute)
  have "script_num_loop i v (b # bs) = script_num_loop (i + 1) (v + 2 ^ (8 * i) * unat b) bs"
    using Cons.prems(2) by (simp add: step)
  with Cons.IH [OF less] Cons.prems(2) show ?case
    by (simp add: power_add algebra_simps)
qed

lemma script_num_loop_long:
  "8 \<le> i \<Longrightarrow> script_num_loop i v bs = (if set bs \<subseteq> {0} then Some v else None)"
  by (induction bs arbitrary: i) auto

lemma script_num_loop_append:
  "script_num_loop i v (bs @ cs) =
     Option.bind (script_num_loop i v bs) (\<lambda>w. script_num_loop (i + length bs) w cs)"
  by (induction bs arbitrary: i v) auto

lemma script_num_u64_value:
  assumes "script_num_u64 bs = Some v"
  shows "v = le_value (take 8 bs)" "v \<le> U64_MAX"
proof -
  have len: "length bs \<le> 9" and loop: "script_num_loop 0 0 (take 8 bs @ drop 8 bs) = Some v"
    using assms by (auto simp: script_num_u64_def split: if_splits)
  have "script_num_loop 0 0 (take 8 bs) = Some (le_value (take 8 bs))"
    using script_num_loop_short [of 0 0 "take 8 bs"] by simp
  with loop show v: "v = le_value (take 8 bs)"
    unfolding script_num_loop_append
    by (cases "length bs \<le> 8") (auto simp: script_num_loop_long split: if_splits)
  have "le_value cs < 256 ^ length cs" for cs
  proof (induction cs)
    case (Cons c cs)
    have "unat c < 256" using unsigned_less [of c, where ?'a = nat] by simp
    with Cons show ?case by simp
  qed simp
  from this [of "take 8 bs"] have "v < 256 ^ length (take 8 bs)" unfolding v .
  also have "\<dots> \<le> 256 ^ 8" by (rule power_increasing) simp_all
  finally show "v \<le> U64_MAX" by (simp add: U64_MAX_def)
qed

lemma le_value_append: "le_value (bs @ cs) = le_value bs + 256 ^ length bs * le_value cs"
  by (induction bs) (auto simp: algebra_simps)

lemma le_value_le_bytes: "le_value (le_bytes v) = v"
proof (induction v rule: le_bytes.induct)
  case (1 v)
  then show ?case
    by (subst le_bytes.simps) (auto simp: unat_of_nat)
qed

lemma le_bytes_length: "v < 256 ^ k \<Longrightarrow> length (le_bytes v) \<le> k"
proof (induction k arbitrary: v)
  case 0
  then show ?case by (subst le_bytes.simps) simp
next
  case (Suc k)
  then have "v div 256 < 256 ^ k" by (simp add: less_mult_imp_div_less mult.commute)
  with Suc.IH show ?case by (subst le_bytes.simps) simp
qed

lemma le_bytes_nonempty [simp]: "0 < v \<Longrightarrow> le_bytes v \<noteq> []"
  by (subst le_bytes.simps) simp

lemma last_sign_guard: "bs \<noteq> [] \<Longrightarrow> last (sign_guard bs) AND 0x80 = 0"
  by (auto simp: sign_guard_def)

lemma script_num_u64_sign_guard:
  assumes "0 < n" "n \<le> U64_MAX"
  shows "script_num_u64 (sign_guard (le_bytes n)) = Some n" (is "script_num_u64 ?bs = _")
proof -
  have "length (le_bytes n) \<le> 8"
    using assms by (intro le_bytes_length) (simp add: U64_MAX_def)
  moreover from this have "script_num_loop 0 0 (le_bytes n) = Some n"
    using script_num_loop_short [of 0 0 "le_bytes n"] by (simp add: le_value_le_bytes)
  ultimately have "script_num_loop 0 0 ?bs = Some n" "length ?bs \<le> 9" "?bs \<noteq> []"
    using assms by (auto simp: sign_guard_def script_num_loop_append)
  with last_sign_guard [of "le_bytes n"] show ?thesis
    using assms by (simp add: script_num_u64_def)
qed

subsection \<open>Pushes\<close>

lemma read_param_pushes_data:
  assumes "d \<noteq> []" "length d \<le> 0x4b"
  shows "read_param_pushes (push_data d @ rest) = map_option ((#) (Data d)) (read_param_pushes rest)"
proof -
  define op where "op = (word_of_nat (length d) :: u8)"
  have op: "unat op = length d"
    using assms(2) by (simp add: op_def unat_of_nat)
  have "op \<noteq> 0" "\<not> 0x51 \<le> op" "1 \<le> op" "op \<le> 0x4b"
    using assms op by (auto simp: word_le_nat_alt Suc_le_eq unat_eq_0 [symmetric])
  then show ?thesis
    by (simp add: push_data_def op op_def [symmetric])
qed

text \<open>What the reader sees of a minimal integer.\<close>

definition int_push :: "nat \<Rightarrow> param_push" where
  "int_push n = (if n \<le> 16 then Num n else Data (sign_guard (le_bytes n)))"

lemma param_num_int_push: "n \<le> U64_MAX \<Longrightarrow> param_num (int_push n) = Some n"
  by (simp add: param_num_def int_push_def script_num_u64_sign_guard)

lemma read_param_pushes_int:
  assumes "n \<le> U64_MAX"
  shows "read_param_pushes (push_minimal_int n @ rest) =
    map_option ((#) (int_push n)) (read_param_pushes rest)"
proof (cases "n \<le> 16")
  case small: True
  show ?thesis
  proof (cases "n = 0")
    case False
    define op where "op = (0x50 + word_of_nat n :: u8)"
    have op: "unat op = 80 + n"
      using small by (simp add: op_def unat_word_ariths unat_of_nat)
    have "unat (op - 0x50) = n"
      using small by (simp add: op_def unat_of_nat)
    moreover have "op \<noteq> 0" "0x51 \<le> op" "op \<le> 0x60"
      using False small op by (auto simp: word_le_nat_alt unat_eq_0 [symmetric])
    ultimately show ?thesis
      using small False by (simp add: push_minimal_int_def int_push_def op_def [symmetric])
  qed (simp add: push_minimal_int_def int_push_def)
next
  case False
  have "length (le_bytes n) \<le> 8"
    using assms by (intro le_bytes_length) (simp add: U64_MAX_def)
  then have "length (sign_guard (le_bytes n)) \<le> 0x4b" "sign_guard (le_bytes n) \<noteq> []"
    using False by (auto simp: sign_guard_def)
  then show ?thesis
    using read_param_pushes_data [of "sign_guard (le_bytes n)" rest] False
    by (simp add: push_minimal_int_def int_push_def push_data_def Let_def)
qed

lemma read_encoded_params:
  assumes "params_wf p"
  shows "read_param_pushes (encode_covenant_param_pushes p) =
    Some [Data (pub_a p), Data (pub_b p), Data (pub_tower p), Data (pay_pkh_a p),
          Data (pay_pkh_b p), Data (rake_pkh p), int_push (stake_a p), int_push (stake_b p),
          int_push (fee_sats p), int_push (recovery_height p)]"
proof -
  have ne: "d \<noteq> []" if "length d = 33 \<or> length d = 20" for d :: bytes
    using that by auto
  have last: "read_param_pushes (push_minimal_int (recovery_height p)) =
      Some [int_push (recovery_height p)]"
    using read_param_pushes_int [of "recovery_height p" "[]"] assms by (simp add: params_wf_def)
  show ?thesis
    using assms unfolding encode_covenant_param_pushes_def params_wf_def
    by (simp add: read_param_pushes_data read_param_pushes_int ne last)
qed

lemma pot_covenant_param_region_built:
  "pot_covenant_param_region T (tpl_head T @ mid @ tpl_tail T) = Some mid"
  by (simp add: pot_covenant_param_region_def is_pot_covenant_script_def)

lemma param_numE:
  assumes "param_num q = Some n" "\<And>m. q = Num m \<Longrightarrow> m \<le> 16"
  shows "n \<le> U64_MAX"
  using assms script_num_u64_value(2)
  by (cases q) (fastforce simp: param_num_def U64_MAX_def)+

lemma read_param_pushes_small:
  "read_param_pushes bs = Some ps \<Longrightarrow> Num m \<in> set ps \<Longrightarrow> m \<le> 16"
proof (induction bs arbitrary: ps rule: read_param_pushes.induct)
  case (2 op rest)
  show ?case
  proof (cases "0x51 \<le> op \<and> op \<le> 0x60")
    case True
    then have "unat (op - 0x50) \<le> 16"
      by (auto simp: word_le_nat_alt unat_sub)
    with True 2 show ?thesis by (auto split: if_splits)
  next
    case False
    with 2 show ?thesis by (auto split: if_splits)
  qed
qed simp

lemma extract_covenant_params_wf:
  assumes "extract_covenant_params T lock = Some p"
  shows "params_wf p"
proof -
  obtain region ps where ps: "pot_covenant_param_region T lock = Some region"
    "read_param_pushes region = Some ps" "length ps = 10"
    using assms by (auto simp: extract_covenant_params_def bind_eq_Some_conv split: if_splits)
  have small: "m \<le> 16" if "ps ! k = Num m" "k < 10" for k m
    using read_param_pushes_small [OF ps(2)] that ps(3) by (metis nth_mem)
  have num: "n \<le> U64_MAX" if "param_num (ps ! k) = Some n" "k < 10" for k n
    using param_numE [OF that(1)] small that(2) by blast
  show ?thesis
    using assms ps num
    by (auto simp: extract_covenant_params_def bind_eq_Some_conv params_wf_def param_data_def
        split: param_push.splits if_splits)
qed

interpretation pot_lock: wire_codec params_wf "covenant_lock_of T" "extract_covenant_params T" for T
proof
  show "extract_covenant_params T (covenant_lock_of T v) = Some v" if "params_wf v" for v
    using that
    by (simp add: extract_covenant_params_def covenant_lock_of_def pot_covenant_param_region_built
        read_encoded_params [OF that] param_data_def param_num_int_push params_wf_def)
qed

interpretation verdict: exact_wire_codec "\<lambda>_. True" verdict_as_str verdict_from_wire
proof
  show "verdict_from_wire (verdict_as_str v) = Some v" for v
    by (cases v) (simp_all add: verdict_from_wire_def)
  show "True \<and> x = verdict_as_str v" if "verdict_from_wire x = Some v" for x v
    using that by (auto simp: verdict_from_wire_def split: if_splits)
qed

text \<open>
  C33: reading a lock built from committed parameters gives exactly those parameters back, for every
  template and every parameter set the types allow, whatever the size of the amounts (the sign guard
  of a number with its top bit set, and the one-opcode numbers up to sixteen, included).
\<close>
theorem covenant_lock_round_trip:
  assumes "params_wf p"
  shows "extract_covenant_params T (covenant_lock_of T p) = Some p"
  using assms by (rule pot_lock.read_back)

theorem covenant_lock_round_trip_witness:
  "extract_covenant_params \<lparr>tpl_head = [0x61], tpl_tail = [0x69]\<rparr>
     (covenant_lock_of \<lparr>tpl_head = [0x61], tpl_tail = [0x69]\<rparr>
       \<lparr>pub_a = replicate 33 2, pub_b = replicate 33 3, pub_tower = replicate 33 4,
        pay_pkh_a = replicate 20 0xAA, pay_pkh_b = replicate 20 0xBB, rake_pkh = replicate 20 0xCC,
        stake_a = 16, stake_b = 32768, fee_sats = 0, recovery_height = 900000\<rparr>)
   = Some \<lparr>pub_a = replicate 33 2, pub_b = replicate 33 3, pub_tower = replicate 33 4,
        pay_pkh_a = replicate 20 0xAA, pay_pkh_b = replicate 20 0xBB, rake_pkh = replicate 20 0xCC,
        stake_a = 16, stake_b = 32768, fee_sats = 0, recovery_height = 900000\<rparr>"
  by (rule covenant_lock_round_trip) (simp add: params_wf_def U64_MAX_def)

subsection \<open>The mandated exits\<close>

abbreviation total_sats :: "output_set \<Rightarrow> nat" where
  "total_sats os \<equiv> sum_list (map fst os)"

lemma p2pkh_lock_inj [simp]: "p2pkh_lock a = p2pkh_lock b \<longleftrightarrow> a = b"
  by (simp add: p2pkh_lock_def)

lemma settle_templatesE:
  assumes "settle_templates p = Some (t_a, t_b, t_tie)"
  obtains net rake tie_rake where
    "stake_a p + stake_b p \<le> U64_MAX" "fee_sats p + net = stake_a p + stake_b p"
    "rake = (stake_a p + stake_b p) div 100" "rake < net"
    "tie_rake = rake \<or> tie_rake = rake + 1" "tie_rake < net" "even (net - tie_rake)"
    "t_a = winner_template p net rake (pay_pkh_a p)" "t_b = winner_template p net rake (pay_pkh_b p)"
    "t_tie = (if 0 < tie_rake then [(tie_rake, p2pkh_lock (rake_pkh p))] else [])
       @ [((net - tie_rake) div 2, p2pkh_lock (pay_pkh_a p)),
          ((net - tie_rake) div 2, p2pkh_lock (pay_pkh_b p))]"
proof -
  define net where "net = stake_a p + stake_b p - fee_sats p"
  define rake where "rake = (stake_a p + stake_b p) div 100"
  define tie_rake where "tie_rake = (if (net - min rake net) mod 2 = 1 then rake + 1 else rake)"
  have pot: "stake_a p + stake_b p \<le> U64_MAX"
    using assms by (rule contrapos_pp) (simp add: settle_templates_def checked_add64_def)
  have "settle_templates p =
    (if stake_a p + stake_b p \<le> fee_sats p then None else if net \<le> rake then None
     else if net \<le> tie_rake then None
     else Some (winner_template p net rake (pay_pkh_a p), winner_template p net rake (pay_pkh_b p),
       (if 0 < tie_rake then [(tie_rake, p2pkh_lock (rake_pkh p))] else [])
       @ [((net - tie_rake) div 2, p2pkh_lock (pay_pkh_a p)),
          ((net - tie_rake) div 2, p2pkh_lock (pay_pkh_b p))]))"
    using pot
    unfolding settle_templates_def checked_add64_def TEMPLATE_RAKE_DIVISOR_def Let_def
      tie_rake_def rake_def net_def
    by (simp only: if_True Option.bind.simps)
  with assms pot have "stake_a p + stake_b p \<le> U64_MAX \<and> \<not> stake_a p + stake_b p \<le> fee_sats p
    \<and> \<not> net \<le> rake \<and> \<not> net \<le> tie_rake
    \<and> t_a = winner_template p net rake (pay_pkh_a p) \<and> t_b = winner_template p net rake (pay_pkh_b p)
    \<and> t_tie = (if 0 < tie_rake then [(tie_rake, p2pkh_lock (rake_pkh p))] else [])
       @ [((net - tie_rake) div 2, p2pkh_lock (pay_pkh_a p)),
          ((net - tie_rake) div 2, p2pkh_lock (pay_pkh_b p))]"
    by (metis option.distinct(1) option.inject prod.inject)
  note facts = this
  have tr: "tie_rake = rake \<or> tie_rake = rake + 1" by (simp add: tie_rake_def)
  have ev: "even (net - tie_rake)"
  proof (cases "(net - min rake net) mod 2 = 1")
    case True
    then have "tie_rake = rake + 1" "min rake net = rake" using facts by (simp_all add: tie_rake_def)
    with True show ?thesis by presburger
  next
    case False
    then have "tie_rake = rake" "min rake net = rake" using facts by (simp_all add: tie_rake_def)
    with False show ?thesis by presburger
  qed
  have net: "fee_sats p + net = stake_a p + stake_b p" using facts by (simp add: net_def)
  show thesis
    by (rule that [of net rake tie_rake]) (use facts tr ev net rake_def in \<open>simp_all only: not_le\<close>)
qed

lemma winner_total: "rake < net \<Longrightarrow> total_sats (winner_template p net rake pkh) = net"
  by (simp add: winner_template_def)

lemma settle_total:
  assumes "settle_templates p = Some (t_a, t_b, t_tie)"
  shows "fee_sats p + total_sats t_a = stake_a p + stake_b p"
    "fee_sats p + total_sats t_b = stake_a p + stake_b p"
    "fee_sats p + total_sats t_tie = stake_a p + stake_b p"
proof -
  obtain net rake tie_rake where t: "fee_sats p + net = stake_a p + stake_b p" "rake < net"
    "tie_rake < net" "even (net - tie_rake)"
    "t_a = winner_template p net rake (pay_pkh_a p)" "t_b = winner_template p net rake (pay_pkh_b p)"
    "t_tie = (if 0 < tie_rake then [(tie_rake, p2pkh_lock (rake_pkh p))] else [])
       @ [((net - tie_rake) div 2, p2pkh_lock (pay_pkh_a p)),
          ((net - tie_rake) div 2, p2pkh_lock (pay_pkh_b p))]"
    by (rule settle_templatesE [OF assms])
  show "fee_sats p + total_sats t_a = stake_a p + stake_b p"
    "fee_sats p + total_sats t_b = stake_a p + stake_b p"
    using t(1,2) by (simp_all add: t(5,6) winner_total)
  have "(net - tie_rake) div 2 + (net - tie_rake) div 2 = net - tie_rake"
    using t(4) by presburger
  then show "fee_sats p + total_sats t_tie = stake_a p + stake_b p"
    using t(1,3) by (simp add: t(7))
qed

lemma refund_total:
  "refund_template p = Some t \<Longrightarrow> fee_sats p + total_sats t = stake_a p + stake_b p"
  by (auto simp: refund_template_def Let_def split: if_splits)

lemma settle_distinct:
  assumes "settle_templates p = Some (t_a, t_b, t_tie)" "refund_template p = Some t_r"
    and "pay_pkh_a p \<noteq> pay_pkh_b p"
  shows "t_a \<noteq> t_b" "t_a \<noteq> t_tie" "t_b \<noteq> t_tie" "t_a \<noteq> t_r"
    "t_b = t_r \<Longrightarrow> rake_pkh p = pay_pkh_a p"
    "t_tie = t_r \<Longrightarrow> stake_a p + stake_b p < 100"
proof -
  obtain net rake tie_rake where t: "rake = (stake_a p + stake_b p) div 100"
    "tie_rake = rake \<or> tie_rake = rake + 1"
    "t_a = winner_template p net rake (pay_pkh_a p)" "t_b = winner_template p net rake (pay_pkh_b p)"
    "t_tie = (if 0 < tie_rake then [(tie_rake, p2pkh_lock (rake_pkh p))] else [])
       @ [((net - tie_rake) div 2, p2pkh_lock (pay_pkh_a p)),
          ((net - tie_rake) div 2, p2pkh_lock (pay_pkh_b p))]"
    by (rule settle_templatesE [OF assms(1)])
  obtain ra rb where r: "t_r = [(ra, p2pkh_lock (pay_pkh_a p)), (rb, p2pkh_lock (pay_pkh_b p))]"
    using assms(2) by (auto simp: refund_template_def Let_def split: if_splits)
  note shapes = t(3-5) r winner_template_def
  show "t_a \<noteq> t_b" using assms(3) by (simp add: shapes)
  show "t_a \<noteq> t_tie" "t_b \<noteq> t_tie" using t(2) by (auto simp: shapes)
  show "t_a \<noteq> t_r" using assms(3) by (simp add: shapes)
  show "rake_pkh p = pay_pkh_a p" if "t_b = t_r"
    using that by (simp add: shapes split: if_splits)
  show "stake_a p + stake_b p < 100" if "t_tie = t_r"
  proof -
    have "rake = 0" using that t(2) by (auto simp: shapes split: if_splits)
    then show ?thesis using t(1) by simp
  qed
qed

subsection \<open>Classification\<close>

lemma classify_covenant_cases:
  assumes "settle_templates p = Some (t_a, t_b, t_tie)" "refund_template p = Some t_r"
    and "pay_pkh_a p \<noteq> pay_pkh_b p"
  shows "classify_covenant p spender sq =
    (if rt_outputs spender = t_a then Some WinnerA
     else if rt_outputs spender = t_b then (if t_b = t_r then None else Some WinnerB)
     else if rt_outputs spender = t_r \<and> refund_gate_ok p spender sq then Some Refund
     else if rt_outputs spender = t_tie then Some Tie
     else None)"
  using settle_distinct(1-4) [OF assms] assms(3)
  by (auto simp: classify_covenant_def assms(1,2) Let_def split: bool.splits)

text \<open>
  The output set each verdict stands for: the specification the classifier is measured against.
\<close>

definition mandated_exit :: "covenant_params \<Rightarrow> pot_verdict \<Rightarrow> output_set option" where
  "mandated_exit p v =
     (case settle_templates p of None \<Rightarrow> None
      | Some (t_a, t_b, t_tie) \<Rightarrow>
          (case v of WinnerA \<Rightarrow> Some t_a | WinnerB \<Rightarrow> Some t_b | Tie \<Rightarrow> Some t_tie
           | Refund \<Rightarrow> refund_template p))"

lemma classify_covenant_SomeE:
  assumes "classify_covenant p spender sq = Some v"
  obtains t_a t_b t_tie t_r where "settle_templates p = Some (t_a, t_b, t_tie)"
    "refund_template p = Some t_r" "pay_pkh_a p \<noteq> pay_pkh_b p"
proof -
  have "pay_pkh_a p \<noteq> pay_pkh_b p" "settle_templates p \<noteq> None" "refund_template p \<noteq> None"
    using assms by (auto simp: classify_covenant_def split: if_splits bind_splits)
  with that show thesis by (auto simp: not_None_eq)
qed

text \<open>
  C34: a verdict is never a guess. When the classifier names an exit, the spend's outputs are that
  exit's mandated output set, byte for byte and in order; they pay out the two stakes less the fee, no
  satoshi more or less; and a refund is named only with its height gate observed on the wire.
\<close>
theorem verdict_means_mandated_payout:
  assumes "classify_covenant p spender sq = Some v"
  shows "mandated_exit p v = Some (rt_outputs spender)
    \<and> fee_sats p + total_sats (rt_outputs spender) = stake_a p + stake_b p
    \<and> (v = Refund \<longrightarrow> refund_gate_ok p spender sq)"
proof -
  obtain t_a t_b t_tie t_r where t: "settle_templates p = Some (t_a, t_b, t_tie)"
    "refund_template p = Some t_r" "pay_pkh_a p \<noteq> pay_pkh_b p"
    using assms by (rule classify_covenant_SomeE)
  show ?thesis
    using assms settle_total [OF t(1)] refund_total [OF t(2)]
    by (auto simp: classify_covenant_cases [OF t] mandated_exit_def t(1,2) split: if_splits)
qed

text \<open>The parameters of the crate's own tests, and their exits.\<close>

definition sample_params :: covenant_params where
  "sample_params = \<lparr>pub_a = replicate 33 2, pub_b = replicate 33 3, pub_tower = replicate 33 4,
     pay_pkh_a = replicate 20 0xAA, pay_pkh_b = replicate 20 0xBB, rake_pkh = replicate 20 0xCC,
     stake_a = 10000, stake_b = 10000, fee_sats = 200, recovery_height = 900000\<rparr>"

definition sample_refund :: raw_tx where
  "sample_refund = \<lparr>rt_inputs = [],
     rt_outputs = [(9900, p2pkh_lock (replicate 20 0xAA)), (9900, p2pkh_lock (replicate 20 0xBB))],
     rt_lock_time = 900001\<rparr>"

lemma sample_templates [simp]:
  "settle_templates sample_params =
     Some ([(200, p2pkh_lock (replicate 20 0xCC)), (19600, p2pkh_lock (replicate 20 0xAA))],
           [(200, p2pkh_lock (replicate 20 0xCC)), (19600, p2pkh_lock (replicate 20 0xBB))],
           [(200, p2pkh_lock (replicate 20 0xCC)), (9800, p2pkh_lock (replicate 20 0xAA)),
            (9800, p2pkh_lock (replicate 20 0xBB))])"
  "refund_template sample_params = Some (rt_outputs sample_refund)"
  by (simp_all add: sample_params_def sample_refund_def settle_templates_def refund_template_def
      checked_add64_def U64_MAX_def TEMPLATE_RAKE_DIVISOR_def winner_template_def Let_def)

lemma sample_refund_gate [simp]: "refund_gate_ok sample_params sample_refund 0"
  by (simp add: refund_gate_ok_def sample_params_def sample_refund_def LOCKTIME_THRESHOLD_def)

lemma sample_homes [simp]:
  "pay_pkh_a sample_params = replicate 20 0xAA" "pay_pkh_b sample_params = replicate 20 0xBB"
  "rake_pkh sample_params = replicate 20 0xCC"
  by (simp_all add: sample_params_def)

theorem verdict_means_mandated_payout_witness:
  "mandated_exit sample_params Refund = Some (rt_outputs sample_refund)
    \<and> fee_sats sample_params + total_sats (rt_outputs sample_refund)
        = stake_a sample_params + stake_b sample_params
    \<and> refund_gate_ok sample_params sample_refund 0"
proof -
  have "classify_covenant sample_params sample_refund 0 = Some Refund"
    by (simp add: classify_covenant_def) (simp add: sample_refund_def)
  from verdict_means_mandated_payout [OF this] show ?thesis by blast
qed



lemma winner_b_is_refund:
  assumes "settle_templates p = Some (t_a, t_b, t_tie)" "refund_template p = Some t_r"
  shows "t_b = t_r \<longleftrightarrow> rake_pkh p = pay_pkh_a p \<and> 0 < (stake_a p + stake_b p) div TEMPLATE_RAKE_DIVISOR
    \<and> stake_a p - (fee_sats p - fee_sats p div 2) = (stake_a p + stake_b p) div TEMPLATE_RAKE_DIVISOR"
proof -
  obtain net rake where t: "fee_sats p + net = stake_a p + stake_b p" "rake = (stake_a p + stake_b p) div 100" "rake < net"
    "t_b = winner_template p net rake (pay_pkh_b p)"
    by (rule settle_templatesE [OF assms(1)])
  have r: "t_r = [(stake_a p - (fee_sats p - fee_sats p div 2), p2pkh_lock (pay_pkh_a p)),
      (stake_b p - fee_sats p div 2, p2pkh_lock (pay_pkh_b p))]"
    "fee_sats p - fee_sats p div 2 \<le> stake_a p" "fee_sats p div 2 \<le> stake_b p"
    using assms(2) by (auto simp: refund_template_def Let_def split: if_splits)
  have "net - rake = stake_b p - fee_sats p div 2" if "stake_a p - (fee_sats p - fee_sats p div 2) = rake"
    using that t(1) r(2,3) by linarith
  then show ?thesis unfolding t(4) r(1) winner_template_def TEMPLATE_RAKE_DIVISOR_def t(2) [symmetric] by auto
qed

text \<open>
  C36: when a spend that pays seat B's mandated exit gets no verdict. Of a pot with two distinct pay homes and
  parameters that build both a settlement and a refund, such a spend is classified as seat B's win, whatever
  its lock time and sequence, unless the rake is paid to seat A's own home and is what the refund would pay
  seat A; then seat B's exit is also the refund's, and no verdict is emitted: the case the classifier's last
  arm calls impossible.
\<close>
theorem winner_b_hidden_exactly:
  assumes "mandated_exit p WinnerB = Some (rt_outputs spender)" "refund_template p \<noteq> None"
    and "pay_pkh_a p \<noteq> pay_pkh_b p"
  shows "classify_covenant p spender sq =
    (if rake_pkh p = pay_pkh_a p \<and> 0 < (stake_a p + stake_b p) div TEMPLATE_RAKE_DIVISOR
        \<and> stake_a p - (fee_sats p - fee_sats p div 2) = (stake_a p + stake_b p) div TEMPLATE_RAKE_DIVISOR
     then None else Some WinnerB)"
proof -
  obtain t_a t_b t_tie t_r where t: "settle_templates p = Some (t_a, t_b, t_tie)" "refund_template p = Some t_r"
    using assms(1,2) by (auto simp: mandated_exit_def split: option.splits)
  have "rt_outputs spender = t_b" using assms(1) by (simp add: mandated_exit_def t)
  with settle_distinct(1) [OF t assms(3)] show ?thesis
    by (simp add: classify_covenant_cases [OF t assms(3)] winner_b_is_refund [OF t])
qed

definition raked_home :: covenant_params where
  "raked_home = sample_params\<lparr>rake_pkh := pay_pkh_a sample_params, stake_a := 10, stake_b := 990, fee_sats := 0\<rparr>"

definition raked_spend :: raw_tx where
  "raked_spend = \<lparr>rt_inputs = [], rt_outputs = [(10, p2pkh_lock (pay_pkh_a raked_home)),
     (990, p2pkh_lock (pay_pkh_b raked_home))], rt_lock_time = 0\<rparr>"

theorem winner_b_hidden_exactly_witness:
  "mandated_exit raked_home WinnerB = Some (rt_outputs raked_spend) \<and> classify_covenant raked_home raked_spend 0 = None"
proof -
  have m: "mandated_exit raked_home WinnerB = Some (rt_outputs raked_spend)" "refund_template raked_home \<noteq> None"
    by (simp_all add: mandated_exit_def settle_templates_def refund_template_def raked_home_def raked_spend_def
        checked_add64_def U64_MAX_def TEMPLATE_RAKE_DIVISOR_def winner_template_def Let_def)
  have "pay_pkh_a raked_home \<noteq> pay_pkh_b raked_home" by (simp add: raked_home_def)
  from winner_b_hidden_exactly [OF m this, of 0] m(1) show ?thesis
    by (simp add: raked_home_def TEMPLATE_RAKE_DIVISOR_def)
qed

subsection \<open>Wire form of a verdict, standard locks\<close>

text \<open>
  The stored verdict column and the verdict are inverse to each other: a string is read as a verdict
  exactly when it is the string that verdict is written as.
\<close>
theorem verdict_wire_exact: "verdict_from_wire s = Some v \<longleftrightarrow> s = verdict_as_str v"
  using verdict.of_wire_iff by simp

lemma take_three: "3 \<le> length s \<Longrightarrow> take 3 s = [s ! 0, s ! 1, s ! 2]"
  by (auto simp: numeral_3_eq_3 numeral_2_eq_2 Suc_le_length_iff)

lemma drop_two: "length s = n + 2 \<Longrightarrow> drop n s = [s ! n, s ! (n + 1)]"
  by (simp add: Cons_nth_drop_Suc [symmetric])

text \<open>
  the recogniser of hop and payout locks accepts exactly the scripts the lock builder makes, and the
  recogniser the funding topic uses agrees with it.
\<close>
theorem p2pkh_recognised_exactly:
  "(is_p2pkh_lock s \<longleftrightarrow> (\<exists>pkh. length pkh = 20 \<and> s = p2pkh_lock pkh))
   \<and> (is_p2pkh_script s \<longleftrightarrow> is_p2pkh_lock s)"
proof -
  have "\<exists>pkh. length pkh = 20 \<and> s = p2pkh_lock pkh" if s: "is_p2pkh_lock s"
  proof (intro exI [of _ "take 20 (drop 3 s)"] conjI)
    have len: "length s = 25" using s by (simp add: is_p2pkh_lock_def)
    then show "length (take 20 (drop 3 s)) = 20" by simp
    have "s = take 3 s @ take 20 (drop 3 s) @ drop 20 (drop 3 s)"
      by (simp only: append_take_drop_id)
    also have "drop 20 (drop 3 s) = drop 23 s" by simp
    finally show "s = p2pkh_lock (take 20 (drop 3 s))"
      using s len take_three [of s] drop_two [of s 23] by (simp add: is_p2pkh_lock_def p2pkh_lock_def)
  qed
  moreover have "is_p2pkh_lock (p2pkh_lock pkh)" if "length pkh = 20" for pkh
    using that by (simp add: is_p2pkh_lock_def p2pkh_lock_def nth_append)
  ultimately show ?thesis
    by (auto simp: is_p2pkh_script_def is_p2pkh_lock_def)
qed

end
