(* ===== verification/Reorg_Rules.thy ===== *)
theory Reorg_Rules
  imports Overlay_Prelude
begin

text \<open>
  The decisions of the reorg reconcile (\<open>overlay-discovery/src/pot/reorg.rs\<close>): what a tip announce is,
  what a re-verification says of a stored proof, which window of heights a revalidation pass walks, and
  the readers of the broadcaster's reorg markers. The windows are shown to leave no height out between
  one pass and the next.
\<close>

subsection \<open>Tip announces\<close>

record header_seen =
  prior_hash_at_height :: "string option"
  max_height_before :: "nat option"

datatype tip_announce = Extends | Repeat | Old | Reorg nat

definition classify_tip_announce :: "nat \<Rightarrow> string \<Rightarrow> header_seen \<Rightarrow> tip_announce" where
  "classify_tip_announce height hash seen =
     (case prior_hash_at_height seen of
        Some prior \<Rightarrow> if eq_ignore_ascii_case prior hash then Repeat else Reorg height
      | None \<Rightarrow>
          (case max_height_before seen of
             Some m \<Rightarrow> if height < m then Old else Extends
           | None \<Rightarrow> Extends))"

datatype reverify_verdict = Standing | Stale | Fault | NoStoredProof

definition classify_reverify :: "string + bool \<Rightarrow> reverify_verdict" where
  "classify_reverify answer =
     (case answer of Inr True \<Rightarrow> Standing | Inr False \<Rightarrow> Stale | Inl _ \<Rightarrow> Fault)"

subsection \<open>Sweep windows\<close>

definition sweep_window :: "nat \<Rightarrow> nat \<Rightarrow> (nat \<times> nat) option" where
  "sweep_window tip depth =
     (if depth = 0 \<or> tip = 0 then None else Some (max (saturating_sub tip (depth - 1)) 1, tip))"

record row_key =
  rk_height :: nat
  rk_rowid :: int

record sweep_state =
  sw_lo :: nat
  sw_hi :: nat
  sw_cursor :: "row_key option"
  sw_exhausted :: bool

definition next_sweep_window :: "sweep_state option \<Rightarrow> nat \<Rightarrow> nat \<Rightarrow> sweep_state option" where
  "next_sweep_window prev tip depth =
     (if depth = 0 \<or> tip = 0 then None
      else case prev of
        Some p \<Rightarrow>
          if \<not> sw_exhausted p then Some p
          else let floor' = max (saturating_sub tip (depth - 1)) 1;
                   lo = max (min (wrap64 (sw_hi p + 1)) floor') 1
               in Some \<lparr>sw_lo = lo, sw_hi = max tip lo, sw_cursor = None, sw_exhausted = False\<rparr>
      | None \<Rightarrow>
          let floor' = max (saturating_sub tip (depth - 1)) 1; lo = max floor' 1
          in Some \<lparr>sw_lo = lo, sw_hi = max tip lo, sw_cursor = None, sw_exhausted = False\<rparr>)"

subsection \<open>Reorg markers\<close>

datatype arcade_reorg_marker_kind = Reanchor | Unmined

text \<open>
  \<open>str::trim\<close> on the bytes of a UTF-8 string: the encodings of the characters with the White\_Space
  property are taken off either end.
\<close>

definition white_space :: "string list" where
  "white_space =
     map (\<lambda>n. [char_of (n :: nat)]) [9, 10, 11, 12, 13, 32]
     @ map (\<lambda>n. [char_of (0xC2 :: nat), char_of (n :: nat)]) [0x85, 0xA0]
     @ [[char_of (0xE1 :: nat), char_of (0x9A :: nat), char_of (0x80 :: nat)]]
     @ map (\<lambda>n. [char_of (0xE2 :: nat), char_of (0x80 :: nat), char_of (n :: nat)]) ([0x80..<0x8B] @ [0xA8, 0xA9, 0xAF])
     @ [[char_of (0xE2 :: nat), char_of (0x81 :: nat), char_of (0x9F :: nat)],
        [char_of (0xE3 :: nat), char_of (0x80 :: nat), char_of (0x80 :: nat)]]"

fun first_prefix :: "string list \<Rightarrow> string \<Rightarrow> string option" where
  "first_prefix [] s = None"
| "first_prefix (w # ws) s = (case strip_prefix w s of Some r \<Rightarrow> Some r | None \<Rightarrow> first_prefix ws s)"

fun trim_front :: "nat \<Rightarrow> string list \<Rightarrow> string \<Rightarrow> string" where
  "trim_front 0 ws s = s"
| "trim_front (Suc n) ws s = (case first_prefix ws s of Some r \<Rightarrow> trim_front n ws r | None \<Rightarrow> s)"

definition trim :: "string \<Rightarrow> string" where
  "trim s =
     (let a = trim_front (length s) white_space s
      in rev (trim_front (length a) (map rev white_space) (rev a)))"

definition arcade_reorg_marker :: "string option \<Rightarrow> arcade_reorg_marker_kind option" where
  "arcade_reorg_marker extra_info =
     (case map_option trim extra_info of
        Some s \<Rightarrow> if s = ''reorg_reanchor'' then Some Reanchor
                  else if s = ''reorg_unmined'' then Some Unmined else None
      | None \<Rightarrow> None)"

record bump_anchor =
  ba_height :: nat
  ba_root :: string

definition is_reanchor :: "bump_anchor option \<Rightarrow> bump_anchor \<Rightarrow> bool" where
  "is_reanchor stored pushed =
     (case stored of None \<Rightarrow> False
      | Some s \<Rightarrow> ba_height s \<noteq> ba_height pushed \<or> \<not> eq_ignore_ascii_case (ba_root s) (ba_root pushed))"

subsection \<open>No height is left out\<close>

text \<open>The windows of a walker that exhausts each before it takes the next, at the tips it meets.\<close>

fun walked_windows :: "nat \<Rightarrow> sweep_state option \<Rightarrow> nat list \<Rightarrow> sweep_state list" where
  "walked_windows depth prev [] = []"
| "walked_windows depth prev (tip # tips) =
     (case next_sweep_window prev tip depth of
        None \<Rightarrow> walked_windows depth prev tips
      | Some w \<Rightarrow> w # walked_windows depth (Some (w\<lparr>sw_exhausted := True\<rparr>)) tips)"

definition window_heights :: "sweep_state \<Rightarrow> nat set" where
  "window_heights w = {sw_lo w..sw_hi w}"

lemma next_window_shape:
  assumes "next_sweep_window prev tip depth = Some w"
    and "prev = None \<or> (\<exists>p. prev = Some p \<and> sw_exhausted p)"
  shows "sw_lo w \<le> sw_hi w" "tip \<le> sw_hi w" "sw_hi w \<le> max tip 1" "0 < sw_lo w"
    "sw_cursor w = None" "\<not> sw_exhausted w"
  using assms by (auto simp: next_sweep_window_def Let_def split: if_splits)

lemma next_window_adjacent:
  assumes "next_sweep_window (Some p) tip depth = Some w" "sw_exhausted p" "sw_hi p + 1 < 2 ^ 64"
  shows "sw_lo w \<le> sw_hi p + 1"
  using assms by (auto simp: next_sweep_window_def Let_def split: if_splits)

lemma walked_cover:
  assumes "\<forall>t \<in> set tips. t + 1 < 2 ^ 64" "sw_exhausted p" "sw_hi p + 1 < 2 ^ 64"
    and "sw_hi p < h" "v \<in> set (walked_windows depth (Some p) tips)" "h \<le> sw_hi v"
  shows "\<exists>w \<in> set (walked_windows depth (Some p) tips). h \<in> window_heights w"
  using assms
proof (induction tips arbitrary: p)
  case (Cons tip tips)
  show ?case
  proof (cases "next_sweep_window (Some p) tip depth")
    case None
    with Cons show ?thesis by simp
  next
    case (Some w)
    define q where "q = w\<lparr>sw_exhausted := True\<rparr>"
    have ws: "walked_windows depth (Some p) (tip # tips) = w # walked_windows depth (Some q) tips"
      by (simp add: Some q_def)
    have lo: "sw_lo w \<le> sw_hi p + 1" "sw_lo w \<le> sw_hi w"
      using next_window_adjacent [OF Some Cons.prems(2,3)] next_window_shape(1) [OF Some] Cons.prems(2)
      by simp_all
    have hi: "sw_hi w + 1 < 2 ^ 64"
      using next_window_shape(3) [OF Some] Cons.prems(1,2) by (simp add: max_def split: if_splits)
    show ?thesis
    proof (cases "h \<le> sw_hi w")
      case True
      with Cons.prems(4) lo have "h \<in> window_heights w" by (simp add: window_heights_def)
      with ws show ?thesis by simp
    next
      case False
      with Cons.prems(5) [unfolded ws] Cons.prems(6) have "v \<in> set (walked_windows depth (Some q) tips)" by auto
      with Cons.IH [of q] Cons.prems(1,6) hi False show ?thesis unfolding ws by (simp add: q_def)
    qed
  qed
qed simp

text \<open>
  C32: a walker that exhausts its windows leaves no height out. Whatever tips it meets, in whatever order
  and however far apart, every height from the bottom of its first window to the top of any later one
  lies in a window it walked.
\<close>
theorem sweep_leaves_no_height_out:
  assumes "\<forall>t \<in> set tips. t + 1 < 2 ^ 64"
    and "walked_windows depth None tips = first # rest"
    and "v \<in> set (first # rest)" "sw_lo first \<le> h" "h \<le> sw_hi v"
  shows "\<exists>w \<in> set (first # rest). h \<in> window_heights w"
  using assms
proof (induction tips)
  case (Cons tip tips)
  show ?case
  proof (cases "next_sweep_window None tip depth")
    case None
    with Cons show ?thesis by simp
  next
    case (Some w)
    have w: "first = w" and rest: "rest = walked_windows depth (Some (w\<lparr>sw_exhausted := True\<rparr>)) tips"
      using Cons.prems(2) Some by auto
    have hi: "sw_hi w + 1 < 2 ^ 64"
      using next_window_shape(3) [OF Some] Cons.prems(1) by (simp add: max_def split: if_splits)
    show ?thesis
    proof (cases "h \<le> sw_hi w")
      case True
      with Cons.prems(4) w show ?thesis by (simp add: window_heights_def)
    next
      case False
      with Cons.prems(3,5) w have "v \<in> set rest" by auto
      with walked_cover [of tips "w\<lparr>sw_exhausted := True\<rparr>" h v depth] Cons.prems(1,5) hi False rest
      show ?thesis by simp
    qed
  qed
qed simp

theorem sweep_leaves_no_height_out_witness:
  "\<exists>w \<in> set [\<lparr>sw_lo = 91, sw_hi = 100, sw_cursor = None, sw_exhausted = False\<rparr>,
            \<lparr>sw_lo = 101, sw_hi = 140, sw_cursor = None, sw_exhausted = False\<rparr>].
     117 \<in> window_heights w"
  by (rule sweep_leaves_no_height_out
      [of "[100, 140]" 10 _ _ "\<lparr>sw_lo = 101, sw_hi = 140, sw_cursor = None, sw_exhausted = False\<rparr>"])
    (simp_all add: next_sweep_window_def)

end
