(* ===== verification/Pot_Storage.thy ===== *)
theory Pot_Storage
  imports Covenant Reorg_Rules "HOL-Library.Product_Lexorder" "HOL-Library.List_Lexorder" "HOL-Library.Char_ord"
begin

text \<open>
  The store of pot spends (\<open>overlay-discovery/src/pot/storage.rs\<close>): the record of one pot, the memory
  store behind the \<open>PotStorage\<close> trait with one definition per method, and the pure rules of the
  eviction ledger. The BEEF reader (\<open>beef_limits\<close>, over the streaming parser of \<open>bsv-rs\<close>) is the
  argument \<open>beef_reader\<close>. A \<open>HashMap\<close> is a table, a \<open>HashSet\<close> a list without repetitions whose order
  stands for the order the set is iterated in. The \<open>Mutex\<close> around each field is not modelled: a method
  runs to its end before the next begins, and a poisoned lock is a failed test.
\<close>

subsection \<open>Records\<close>

record pot_record =
  pr_txid :: txid
  pr_output_index :: nat
  pr_spent :: bool
  pr_spending_txid :: "txid option"
  pr_spent_confirmed :: bool
  pr_lock_kind :: "string option"
  pr_pub_a :: "string option"
  pr_pub_b :: "string option"
  pr_pub_tower :: "string option"
  pr_pay_pkh_a :: "string option"
  pr_pay_pkh_b :: "string option"
  pr_rake_pkh :: "string option"
  pr_stake_a :: "nat option"
  pr_stake_b :: "nat option"
  pr_fee_sats :: "nat option"
  pr_recovery_height :: "nat option"
  pr_pot_sats :: "nat option"
  pr_params_decoded :: bool
  pr_verdict :: "string option"
  pr_verdict_txid :: "txid option"
  pr_spent_height :: "nat option"
  pr_spender_final :: "bool option"
  pr_settle_signers :: "string option"
  pr_funding_size_bytes :: "nat option"
  pr_funding_fee_sats :: "nat option"
  pr_spender_facts_txid :: "txid option"
  pr_spender_size_bytes :: "nat option"
  pr_spender_fee_sats :: "nat option"
  pr_spender_pay_a_sats :: "nat option"
  pr_spender_pay_b_sats :: "nat option"

text \<open>\<open>PotRecord::default()\<close> with its key.\<close>

definition blank_record :: "txid \<Rightarrow> nat \<Rightarrow> pot_record" where
  "blank_record t i =
     \<lparr>pr_txid = t, pr_output_index = i, pr_spent = False, pr_spending_txid = None,
      pr_spent_confirmed = False, pr_lock_kind = None, pr_pub_a = None, pr_pub_b = None,
      pr_pub_tower = None, pr_pay_pkh_a = None, pr_pay_pkh_b = None, pr_rake_pkh = None,
      pr_stake_a = None, pr_stake_b = None, pr_fee_sats = None, pr_recovery_height = None,
      pr_pot_sats = None, pr_params_decoded = False, pr_verdict = None, pr_verdict_txid = None,
      pr_spent_height = None, pr_spender_final = None, pr_settle_signers = None,
      pr_funding_size_bytes = None, pr_funding_fee_sats = None, pr_spender_facts_txid = None,
      pr_spender_size_bytes = None, pr_spender_fee_sats = None, pr_spender_pay_a_sats = None,
      pr_spender_pay_b_sats = None\<rparr>"

record verdict_write =
  vw_verdict :: string
  vw_settle_signers :: "string option"

definition verdict_write_bare :: "string \<Rightarrow> verdict_write" where
  "verdict_write_bare v = \<lparr>vw_verdict = v, vw_settle_signers = None\<rparr>"

definition decoded_covenant_params ::
  "(string \<Rightarrow> bytes option) \<Rightarrow> pot_record \<Rightarrow> covenant_params option" where
  "decoded_covenant_params hex_decode r =
     (if pr_lock_kind r \<noteq> Some ''covenant'' then None
      else do {
        a \<leftarrow> pr_pub_a r; b \<leftarrow> pr_pub_b r; t \<leftarrow> pr_pub_tower r;
        pa \<leftarrow> pr_pay_pkh_a r; pb \<leftarrow> pr_pay_pkh_b r; rk \<leftarrow> pr_rake_pkh r;
        sa \<leftarrow> pr_stake_a r; sb \<leftarrow> pr_stake_b r; fee \<leftarrow> pr_fee_sats r; rh \<leftarrow> pr_recovery_height r;
        covenant_params_from_hex hex_decode a b t pa pb rk sa sb fee rh
      })"

definition is_hop_row :: "pot_record \<Rightarrow> bool" where
  "is_hop_row r \<longleftrightarrow> pr_lock_kind r = Some ''p2pkh''"

record tx_facts =
  size_bytes :: nat
  fact_fee_sats :: "nat option"

subsection \<open>The eviction ledger\<close>

record eviction_ledger_entry =
  ev_evicted_at :: int
  ev_readmitted_at :: "int option"
  ev_chain_word :: "string option"
  ev_refusal_class :: "string option"

definition REFUSAL_CLASSES :: "string list" where
  "REFUSAL_CLASSES =
     [''missing-parent'', ''double-spend'', ''non-final'', ''policy'', ''absence'']"

definition refusal_class_word :: "string option \<Rightarrow> string option" where
  "refusal_class_word stored =
     (case stored of None \<Rightarrow> None | Some s \<Rightarrow> List.find (\<lambda>c. c = s) REFUSAL_CLASSES)"

definition EVICTED_WORD :: string where
  "EVICTED_WORD = ''rejected''"

definition CONFLICTED_WORD :: string where
  "CONFLICTED_WORD = ''conflicted''"

definition CONFLICT_REASON_MARK :: string where
  "CONFLICT_REASON_MARK = '' spent by confirmed competitor ''"

definition ABSENCE_REASON_MARKS :: "string list" where
  "ABSENCE_REASON_MARKS =
     [''arcade missing, both indexers absent'', ''arcade faulted, both indexers absent'',
      ''arcade faulted, recorded '', ''retired unprovable: '']"

definition REJECTION_REASON_MARKS :: "string list" where
  "REJECTION_REASON_MARKS = [''arcade live '', ''; re-refused at the ladder)'']"

text \<open>\<open>str::contains\<close>.\<close>

fun contains_str :: "string \<Rightarrow> string \<Rightarrow> bool" where
  "contains_str m [] \<longleftrightarrow> m = []"
| "contains_str m (c # s) \<longleftrightarrow> starts_with m (c # s) \<or> contains_str m s"

definition eviction_chain_word :: "string \<Rightarrow> string option" where
  "eviction_chain_word reason =
     (if starts_with ''input '' reason \<and> contains_str CONFLICT_REASON_MARK reason
        then Some CONFLICTED_WORD
      else if list_ex (\<lambda>m. contains_str m reason) ABSENCE_REASON_MARKS then None
      else if list_ex (\<lambda>m. contains_str m reason) REJECTION_REASON_MARKS then Some EVICTED_WORD
      else None)"

record served_eviction =
  se_at :: int
  se_word :: "string option"
  se_readmitted_at :: "int option"
  se_class :: "string option"

definition served_eviction_value ::
  "int \<Rightarrow> int option \<Rightarrow> string option \<Rightarrow> string option \<Rightarrow> served_eviction" where
  "served_eviction_value at readmitted_at chain_word refusal_class =
     \<lparr>se_at = at, se_word = (if readmitted_at = None then chain_word else None),
      se_readmitted_at = readmitted_at,
      se_class = (case (readmitted_at, refusal_class) of (None, Some c) \<Rightarrow> Some c | _ \<Rightarrow> None)\<rparr>"

record seen_witness =
  sn_source :: "string option"
  sn_at_ms :: "int option"

definition open_eviction_hides_row :: "eviction_ledger_entry option \<Rightarrow> bool" where
  "open_eviction_hides_row entry =
     (case entry of Some e \<Rightarrow> ev_readmitted_at e = None | None \<Rightarrow> False)"

subsection \<open>The store\<close>

datatype pot_storage_error = Pot_Database string | Pot_Other string

type_synonym pkey = "txid \<times> nat"

record memory_pot_storage =
  mp_created_at_secs :: "(pkey, nat) table"
  mp_discovery_examined :: "pkey list"
  mp_records :: "pot_record list"
  mp_beefs :: "(txid, bytes) table"
  mp_clock_secs :: nat
  mp_beef_created_at :: "(txid, nat) table"
  mp_spent_at :: "(pkey, nat) table"
  mp_verified :: "txid list"
  mp_headers_seen :: "(nat, string) table"
  mp_ordinals :: "(pkey, int) table"
  mp_next_ordinal :: int
  mp_network_seen :: "txid list"
  mp_seen_by :: "(txid, seen_witness) table"
  mp_evictions :: "(unit + (txid, eviction_ledger_entry) table) option"
  mp_sweep_states :: "(string, sweep_state) table"
  mp_beef_ordinals :: "(txid, int) table"
  mp_proof_heights :: "(txid, nat) table"
  mp_unprovable :: "txid list"
  mp_block_times :: "(txid, nat) table"
  mp_fault_spent_status_reads :: nat
  mp_fault_beef_writes :: nat
  mp_held_transactions :: "(txid, bytes) table"

definition mp_new :: memory_pot_storage where
  "mp_new =
     \<lparr>mp_created_at_secs = [], mp_discovery_examined = [], mp_records = [], mp_beefs = [],
      mp_clock_secs = 0, mp_beef_created_at = [], mp_spent_at = [], mp_verified = [],
      mp_headers_seen = [], mp_ordinals = [], mp_next_ordinal = 0, mp_network_seen = [],
      mp_seen_by = [], mp_evictions = None, mp_sweep_states = [], mp_beef_ordinals = [],
      mp_proof_heights = [], mp_unprovable = [], mp_block_times = [],
      mp_fault_spent_status_reads = 0, mp_fault_beef_writes = 0, mp_held_transactions = []\<rparr>"

text \<open>What the BEEF reader answers of stored bytes: the subject, its own bump's height, its proof.\<close>

record beef_reader =
  transaction_from_beef :: "bytes \<Rightarrow> txid \<Rightarrow> parsed_tx option"
  own_bump_height :: "bytes \<Rightarrow> txid \<Rightarrow> nat option"
  beef_has_proof :: "bytes \<Rightarrow> txid \<Rightarrow> bool"

definition prow_key :: "pot_record \<Rightarrow> pkey" where
  "prow_key r = (pr_txid r, pr_output_index r)"

abbreviation is_row :: "txid \<Rightarrow> nat \<Rightarrow> pot_record \<Rightarrow> bool" where
  "is_row t i r \<equiv> pr_txid r = t \<and> pr_output_index r = i"

text \<open>\<open>for r in records.iter_mut() { if P(r) { .. } }\<close>, without and with a \<open>break\<close> at the first hit.\<close>

definition update_all :: "('a \<Rightarrow> bool) \<Rightarrow> ('a \<Rightarrow> 'a) \<Rightarrow> 'a list \<Rightarrow> 'a list" where
  "update_all P f xs = map (\<lambda>x. if P x then f x else x) xs"

fun update_first :: "('a \<Rightarrow> bool) \<Rightarrow> ('a \<Rightarrow> 'a) \<Rightarrow> 'a list \<Rightarrow> 'a list" where
  "update_first P f [] = []"
| "update_first P f (x # xs) = (if P x then f x # xs else x # update_first P f xs)"

definition gate_open :: "memory_pot_storage \<Rightarrow> nat option \<Rightarrow> nat \<Rightarrow> bool" where
  "gate_open s stamp min_age_secs \<longleftrightarrow>
     min_age_secs = 0
     \<or> (case stamp of None \<Rightarrow> True
        | Some t \<Rightarrow> min_age_secs \<le> saturating_sub (mp_clock_secs s) t)"

text \<open>The ordinals are an \<open>i64\<close> that counts rows from 1; below \<open>2 ^ 63\<close> rows the \<open>int\<close> is exact.\<close>

definition ordinal_of :: "txid \<Rightarrow> nat \<Rightarrow> memory_pot_storage \<Rightarrow> int \<times> memory_pot_storage" where
  "ordinal_of t i s =
     (case tbl_get (mp_ordinals s) (t, i) of
        Some n \<Rightarrow> (n, s)
      | None \<Rightarrow>
          let n = mp_next_ordinal s + 1
          in (n, s\<lparr>mp_next_ordinal := n, mp_ordinals := tbl_insert (t, i) n (mp_ordinals s)\<rparr>))"

definition beef_ordinal_of :: "txid \<Rightarrow> memory_pot_storage \<Rightarrow> int \<times> memory_pot_storage" where
  "beef_ordinal_of t s =
     (case tbl_get (mp_beef_ordinals s) t of
        Some n \<Rightarrow> (n, s)
      | None \<Rightarrow>
          let n = mp_next_ordinal s + 1
          in (n, s\<lparr>mp_next_ordinal := n, mp_beef_ordinals := tbl_insert t n (mp_beef_ordinals s)\<rparr>))"

definition spends_outpoint :: "parsed_tx \<Rightarrow> txid \<Rightarrow> nat \<Rightarrow> bool" where
  "spends_outpoint tx t i \<longleftrightarrow>
     list_ex (\<lambda>inp. (case pi_source_txid inp of None \<Rightarrow> False | Some u \<Rightarrow> eq_ignore_ascii_case u t)
                    \<and> pi_source_output_index inp = i) (pt_inputs tx)"

definition superseded_beefs ::
  "beef_reader \<Rightarrow> txid \<Rightarrow> nat \<Rightarrow> txid \<Rightarrow> memory_pot_storage \<Rightarrow> txid list" where
  "superseded_beefs br pot_txid i confirmed s =
     map fst (filter
       (\<lambda>(t, b). \<not> (eq_ignore_ascii_case t confirmed \<or> t \<in> set (mp_verified s))
          \<and> (case transaction_from_beef br b t of None \<Rightarrow> False
             | Some tx \<Rightarrow> spends_outpoint tx pot_txid i)) (mp_beefs s))"

definition retire_superseded_after_confirm ::
  "beef_reader \<Rightarrow> txid \<Rightarrow> nat \<Rightarrow> txid \<Rightarrow> memory_pot_storage \<Rightarrow> memory_pot_storage" where
  "retire_superseded_after_confirm br pot_txid i confirmed s =
     s\<lparr>mp_unprovable := fold List.insert (superseded_beefs br pot_txid i confirmed s)
         (filter (\<lambda>t. \<not> eq_ignore_ascii_case t confirmed) (mp_unprovable s))\<rparr>"

subsection \<open>Admission\<close>

definition fill :: "'a option \<Rightarrow> 'a option \<Rightarrow> 'a option" where
  "fill slot incoming = (if slot = None then incoming else slot)"

definition fill_record :: "pot_record \<Rightarrow> pot_record \<Rightarrow> pot_record" where
  "fill_record n r =
     r\<lparr>pr_lock_kind := fill (pr_lock_kind r) (pr_lock_kind n),
       pr_pub_a := fill (pr_pub_a r) (pr_pub_a n),
       pr_pub_b := fill (pr_pub_b r) (pr_pub_b n),
       pr_pub_tower := fill (pr_pub_tower r) (pr_pub_tower n),
       pr_pay_pkh_a := fill (pr_pay_pkh_a r) (pr_pay_pkh_a n),
       pr_pay_pkh_b := fill (pr_pay_pkh_b r) (pr_pay_pkh_b n),
       pr_rake_pkh := fill (pr_rake_pkh r) (pr_rake_pkh n),
       pr_stake_a := fill (pr_stake_a r) (pr_stake_a n),
       pr_stake_b := fill (pr_stake_b r) (pr_stake_b n),
       pr_fee_sats := fill (pr_fee_sats r) (pr_fee_sats n),
       pr_recovery_height := fill (pr_recovery_height r) (pr_recovery_height n),
       pr_pot_sats := fill (pr_pot_sats r) (pr_pot_sats n),
       pr_funding_size_bytes := fill (pr_funding_size_bytes r) (pr_funding_size_bytes n),
       pr_funding_fee_sats := fill (pr_funding_fee_sats r) (pr_funding_fee_sats n),
       pr_params_decoded := pr_params_decoded r \<or> pr_params_decoded n\<rparr>"

definition store_record :: "pot_record \<Rightarrow> memory_pot_storage \<Rightarrow> memory_pot_storage" where
  "store_record n s =
     (if list_ex (is_row (pr_txid n) (pr_output_index n)) (mp_records s)
      then s\<lparr>mp_records := update_first (is_row (pr_txid n) (pr_output_index n)) (fill_record n) (mp_records s)\<rparr>
      else snd (ordinal_of (pr_txid n) (pr_output_index n) (s\<lparr>mp_records := mp_records s @ [n]\<rparr>)))"

definition pot_row :: "memory_pot_storage \<Rightarrow> pkey \<Rightarrow> pot_record option" where
  "pot_row s k = List.find (\<lambda>r. prow_key r = k) (mp_records s)"

text \<open>\<open>take_fault\<close>: one injected fault of the counter, if any is left.\<close>

definition take_fault :: "string \<Rightarrow> nat \<Rightarrow> pot_storage_error option \<times> nat" where
  "take_fault what left =
     (if 0 < left then (Some (Pot_Database (''injected '' @ what @ '' fault'')), left - 1) else (None, left))"

definition get_spent_status ::
  "txid \<Rightarrow> nat \<Rightarrow> memory_pot_storage \<Rightarrow> (pot_storage_error + pot_record option) \<times> memory_pot_storage" where
  "get_spent_status t i s =
     (case take_fault ''pot record read'' (mp_fault_spent_status_reads s) of
        (Some e, n) \<Rightarrow> (Inl e, s\<lparr>mp_fault_spent_status_reads := n\<rparr>)
      | (None, n) \<Rightarrow> (Inr (pot_row s (t, i)), s\<lparr>mp_fault_spent_status_reads := n\<rparr>))"

fun get_spent_statuses ::
  "pkey list \<Rightarrow> memory_pot_storage
    \<Rightarrow> (pot_storage_error + pot_record option list) \<times> memory_pot_storage" where
  "get_spent_statuses [] s = (Inr [], s)"
| "get_spent_statuses ((t, i) # ks) s =
     (case get_spent_status t i s of
        (Inl e, s1) \<Rightarrow> (Inl e, s1)
      | (Inr r, s1) \<Rightarrow>
          (case get_spent_statuses ks s1 of
             (Inl e, s2) \<Rightarrow> (Inl e, s2)
           | (Inr rs, s2) \<Rightarrow> (Inr (r # rs), s2)))"

definition store_beef ::
  "txid \<Rightarrow> bytes \<Rightarrow> memory_pot_storage \<Rightarrow> pot_storage_error option \<times> memory_pot_storage" where
  "store_beef t b s =
     (case take_fault ''pot beef write'' (mp_fault_beef_writes s) of
        (Some e, n) \<Rightarrow> (Some e, s\<lparr>mp_fault_beef_writes := n\<rparr>)
      | (None, n) \<Rightarrow>
          (None,
           let s0 = s\<lparr>mp_fault_beef_writes := n\<rparr> in
           if b = [] then s0
           else let s1 = snd (beef_ordinal_of t s0) in
             if t \<in> set (mp_verified s1) then s1
             else case tbl_get (mp_beefs s1) t of
               Some old \<Rightarrow>
                 if length b \<le> length old then s1
                 else s1\<lparr>mp_beefs := tbl_insert t b (mp_beefs s1),
                         mp_beef_created_at := tbl_or_insert t (mp_clock_secs s1) (mp_beef_created_at s1)\<rparr>
             | None \<Rightarrow>
                 s1\<lparr>mp_beefs := tbl_insert t b (mp_beefs s1),
                    mp_beef_created_at := tbl_or_insert t (mp_clock_secs s1) (mp_beef_created_at s1)\<rparr>))"

subsection \<open>The spend pointer\<close>

text \<open>
  One row of \<open>mark_spent\<close>: \<open>None\<close> where the write is refused (an unconfirmed claim against a confirmed
  pointer), otherwise the row with everything that rides the pointer.
\<close>

definition keep_or_reset :: "bool \<Rightarrow> 'a option \<Rightarrow> 'a option \<Rightarrow> 'a option" where
  "keep_or_reset same incoming stored =
     (if same then (case incoming of Some v \<Rightarrow> Some v | None \<Rightarrow> stored) else incoming)"

definition set_verdict :: "txid \<Rightarrow> verdict_write \<Rightarrow> pot_record \<Rightarrow> pot_record" where
  "set_verdict sp v r =
     r\<lparr>pr_verdict := Some (vw_verdict v), pr_verdict_txid := Some sp,
       pr_settle_signers := vw_settle_signers v\<rparr>"

definition mark_spent_row ::
  "txid \<Rightarrow> bool \<Rightarrow> verdict_write option \<Rightarrow> nat option \<Rightarrow> bool option \<Rightarrow> pot_record \<Rightarrow> pot_record option" where
  "mark_spent_row sp confirmed verdict height final r =
     (let same = pr_spending_txid r = Some sp;
          pointed =
            (if confirmed
             then Some (r\<lparr>pr_spent := True, pr_spending_txid := Some sp, pr_spent_confirmed := True,
                          pr_spent_height := keep_or_reset same height (pr_spent_height r)\<rparr>)
             else if \<not> pr_spent_confirmed r
               then Some (r\<lparr>pr_spent := True, pr_spending_txid := Some sp\<rparr>)
             else None)
      in case pointed of
           None \<Rightarrow> None
         | Some q \<Rightarrow>
             let q1 = q\<lparr>pr_spender_final := keep_or_reset same final (pr_spender_final q)\<rparr>
             in Some (case verdict of None \<Rightarrow> q1 | Some v \<Rightarrow> set_verdict sp v q1))"

definition mark_spent ::
  "beef_reader \<Rightarrow> txid \<Rightarrow> nat \<Rightarrow> txid \<Rightarrow> bool \<Rightarrow> verdict_write option \<Rightarrow> nat option \<Rightarrow> bool option
    \<Rightarrow> memory_pot_storage \<Rightarrow> memory_pot_storage" where
  "mark_spent br t i sp confirmed verdict height final s =
     (let write = mark_spent_row sp confirmed verdict height final;
          wrote = list_ex (\<lambda>r. is_row t i r \<and> write r \<noteq> None) (mp_records s);
          s1 = s\<lparr>mp_records := update_all (is_row t i)
                    (\<lambda>r. case write r of None \<Rightarrow> r | Some q \<Rightarrow> q) (mp_records s)\<rparr>;
          s2 = (if wrote then s1\<lparr>mp_spent_at := tbl_insert (t, i) (mp_clock_secs s) (mp_spent_at s1)\<rparr> else s1)
      in if wrote \<and> confirmed then retire_superseded_after_confirm br t i sp s2 else s2)"

definition mark_verdict_for_spender ::
  "txid \<Rightarrow> nat \<Rightarrow> txid \<Rightarrow> verdict_write \<Rightarrow> memory_pot_storage \<Rightarrow> memory_pot_storage" where
  "mark_verdict_for_spender t i sp v s =
     s\<lparr>mp_records := update_all (\<lambda>r. is_row t i r \<and> pr_spending_txid r = Some sp)
         (set_verdict sp v) (mp_records s)\<rparr>"

definition displace_spend_for ::
  "beef_reader \<Rightarrow> txid \<Rightarrow> nat \<Rightarrow> txid \<Rightarrow> txid \<Rightarrow> nat option \<Rightarrow> bool option
    \<Rightarrow> memory_pot_storage \<Rightarrow> bool \<times> memory_pot_storage" where
  "displace_spend_for br t i from_spender to_spender height final s =
     (let P = (\<lambda>r. is_row t i r \<and> \<not> pr_spent_confirmed r \<and> pr_spending_txid r = Some from_spender);
          hit = list_ex P (mp_records s);
          s1 = s\<lparr>mp_records := update_all P
                   (\<lambda>r. r\<lparr>pr_spent := True, pr_spending_txid := Some to_spender, pr_spent_confirmed := True,
                          pr_spent_height := height, pr_spender_final := final\<rparr>) (mp_records s)\<rparr>
      in (hit, if hit then retire_superseded_after_confirm br t i to_spender s1 else s1))"

definition mark_spent_if_unpointed ::
  "txid \<Rightarrow> nat \<Rightarrow> txid \<Rightarrow> bool option \<Rightarrow> memory_pot_storage \<Rightarrow> bool \<times> memory_pot_storage" where
  "mark_spent_if_unpointed t i sp final s =
     (let P = (\<lambda>r. is_row t i r \<and> \<not> pr_spent r \<and> pr_spending_txid r = None \<and> \<not> pr_spent_confirmed r);
          hit = list_ex P (mp_records s);
          s1 = s\<lparr>mp_records := update_all P
                   (\<lambda>r. r\<lparr>pr_spent := True, pr_spending_txid := Some sp, pr_spender_final := final\<rparr>)
                   (mp_records s)\<rparr>
      in (hit, if hit then s1\<lparr>mp_spent_at := tbl_insert (t, i) (mp_clock_secs s) (mp_spent_at s1)\<rparr> else s1))"

definition mark_confirmed_for_spender ::
  "beef_reader \<Rightarrow> txid \<Rightarrow> nat \<Rightarrow> txid \<Rightarrow> nat option \<Rightarrow> memory_pot_storage \<Rightarrow> bool \<times> memory_pot_storage" where
  "mark_confirmed_for_spender br t i sp height s =
     (let P = (\<lambda>r. is_row t i r \<and> pr_spending_txid r = Some sp);
          hit = list_ex P (mp_records s);
          s1 = s\<lparr>mp_records := update_first P
                   (\<lambda>r. r\<lparr>pr_spent := True, pr_spent_confirmed := True,
                          pr_spent_height := (case height of Some h \<Rightarrow> Some h | None \<Rightarrow> pr_spent_height r)\<rparr>)
                   (mp_records s)\<rparr>
      in (hit, if hit then retire_superseded_after_confirm br t i sp s1 else s1))"

definition unconfirm :: "pot_record \<Rightarrow> pot_record" where
  "unconfirm r = r\<lparr>pr_spent_confirmed := False, pr_spent_height := None\<rparr>"

definition demote_confirmed_for_spender ::
  "txid \<Rightarrow> nat \<Rightarrow> txid \<Rightarrow> memory_pot_storage \<Rightarrow> bool \<times> memory_pot_storage" where
  "demote_confirmed_for_spender t i sp s =
     (let P = (\<lambda>r. is_row t i r \<and> pr_spent_confirmed r \<and> pr_spending_txid r = Some sp)
      in (list_ex P (mp_records s), s\<lparr>mp_records := update_first P unconfirm (mp_records s)\<rparr>))"

definition demote_confirmed_for_spender_at ::
  "txid \<Rightarrow> nat \<Rightarrow> txid \<Rightarrow> nat option \<Rightarrow> memory_pot_storage \<Rightarrow> bool \<times> memory_pot_storage" where
  "demote_confirmed_for_spender_at t i sp judged_height s =
     (let P = (\<lambda>r. is_row t i r \<and> pr_spent_confirmed r \<and> pr_spending_txid r = Some sp
                   \<and> pr_spent_height r = judged_height)
      in (list_ex P (mp_records s), s\<lparr>mp_records := update_first P unconfirm (mp_records s)\<rparr>))"

definition reanchor_confirmed_for_spender ::
  "txid \<Rightarrow> nat \<Rightarrow> txid \<Rightarrow> nat \<Rightarrow> memory_pot_storage \<Rightarrow> bool \<times> memory_pot_storage" where
  "reanchor_confirmed_for_spender t i sp new_height s =
     (let P = (\<lambda>r. is_row t i r \<and> pr_spent_confirmed r \<and> pr_spending_txid r = Some sp)
      in (list_ex P (mp_records s),
          s\<lparr>mp_records := update_first P (\<lambda>r. r\<lparr>pr_spent_height := Some new_height\<rparr>) (mp_records s)\<rparr>))"

subsection \<open>What the spender is known to be\<close>

definition store_spender_facts ::
  "txid \<Rightarrow> nat \<Rightarrow> txid \<Rightarrow> tx_facts \<Rightarrow> memory_pot_storage \<Rightarrow> memory_pot_storage" where
  "store_spender_facts t i sp facts s =
     s\<lparr>mp_records := update_first (is_row t i)
         (\<lambda>r. if pr_spending_txid r \<noteq> Some sp then r
              else if pr_spender_facts_txid r = Some sp
                then r\<lparr>pr_spender_size_bytes := fill (pr_spender_size_bytes r) (Some (size_bytes facts)),
                       pr_spender_fee_sats := fill (pr_spender_fee_sats r) (fact_fee_sats facts)\<rparr>
              else r\<lparr>pr_spender_facts_txid := Some sp, pr_spender_size_bytes := Some (size_bytes facts),
                     pr_spender_fee_sats := fact_fee_sats facts, pr_spender_pay_a_sats := None,
                     pr_spender_pay_b_sats := None\<rparr>) (mp_records s)\<rparr>"

definition store_spender_payouts ::
  "txid \<Rightarrow> nat \<Rightarrow> txid \<Rightarrow> nat option \<Rightarrow> nat option \<Rightarrow> memory_pot_storage \<Rightarrow> memory_pot_storage" where
  "store_spender_payouts t i sp pay_a pay_b s =
     s\<lparr>mp_records := update_first (is_row t i)
         (\<lambda>r. if pr_spending_txid r \<noteq> Some sp then r
              else r\<lparr>pr_spender_pay_a_sats := fill (pr_spender_pay_a_sats r) pay_a,
                     pr_spender_pay_b_sats := fill (pr_spender_pay_b_sats r) pay_b\<rparr>) (mp_records s)\<rparr>"

subsection \<open>Candidate scans\<close>

definition find_unspent_stale :: "nat \<Rightarrow> nat \<Rightarrow> memory_pot_storage \<Rightarrow> pot_record list" where
  "find_unspent_stale limit min_age_secs s =
     take limit
       (sort_key (\<lambda>r. (is_hop_row r, prow_key r \<in> set (mp_discovery_examined s), pr_txid r, pr_output_index r))
          (filter (\<lambda>r. \<not> pr_spent r) (mp_records s)))"

definition find_unspent_stale_with_age ::
  "nat \<Rightarrow> nat \<Rightarrow> memory_pot_storage \<Rightarrow> (pot_record \<times> nat option) list" where
  "find_unspent_stale_with_age limit min_age_secs s =
     map (\<lambda>r. (r, tbl_get (mp_created_at_secs s) (prow_key r))) (find_unspent_stale limit min_age_secs s)"

definition find_unspent_by_outpoints ::
  "pkey list \<Rightarrow> memory_pot_storage \<Rightarrow> (pot_record \<times> nat option) list" where
  "find_unspent_by_outpoints ks s =
     filter (\<lambda>(r, _). list_ex (\<lambda>(t, v). eq_ignore_ascii_case t (pr_txid r) \<and> v = pr_output_index r) ks)
       (find_unspent_stale_with_age U64_MAX 0 s)"

definition note_spend_discovery_attempt :: "txid \<Rightarrow> nat \<Rightarrow> memory_pot_storage \<Rightarrow> memory_pot_storage" where
  "note_spend_discovery_attempt t i s =
     s\<lparr>mp_discovery_examined := List.insert (t, i) (mp_discovery_examined s)\<rparr>"

definition find_params_undecoded :: "nat \<Rightarrow> memory_pot_storage \<Rightarrow> pot_record list" where
  "find_params_undecoded limit s = take limit (filter (\<lambda>r. \<not> pr_params_decoded r) (mp_records s))"

definition find_spent_unclassified :: "nat \<Rightarrow> memory_pot_storage \<Rightarrow> pot_record list" where
  "find_spent_unclassified limit s =
     take limit (filter
       (\<lambda>r. pr_spent r \<and> pr_spent_confirmed r \<and> pr_lock_kind r = Some ''covenant'' \<and> pr_pub_a r \<noteq> None
            \<and> (pr_verdict r = None \<or> pr_verdict_txid r \<noteq> pr_spending_txid r)
            \<and> (case pr_spending_txid r of None \<Rightarrow> False | Some t \<Rightarrow> tbl_get (mp_beefs s) t \<noteq> None))
       (mp_records s))"

definition find_settle_signers_unlatched :: "nat \<Rightarrow> memory_pot_storage \<Rightarrow> pot_record list" where
  "find_settle_signers_unlatched limit s =
     take limit (filter
       (\<lambda>r. pr_verdict r \<noteq> None \<and> pr_verdict_txid r \<noteq> None \<and> pr_verdict_txid r = pr_spending_txid r
            \<and> pr_settle_signers r = None) (mp_records s))"

definition find_spender_payouts_unlatched :: "nat \<Rightarrow> memory_pot_storage \<Rightarrow> pot_record list" where
  "find_spender_payouts_unlatched limit s =
     take limit (filter
       (\<lambda>r. pr_spending_txid r \<noteq> None \<and> pr_spender_pay_a_sats r = None \<and> pr_spender_pay_b_sats r = None
            \<and> (pr_pay_pkh_a r \<noteq> None \<or> pr_pay_pkh_b r \<noteq> None)) (mp_records s))"

definition find_spent_unconfirmed :: "nat \<Rightarrow> nat \<Rightarrow> memory_pot_storage \<Rightarrow> pot_record list" where
  "find_spent_unconfirmed limit min_age_secs s =
     take limit
       (filter (\<lambda>r. gate_open s (tbl_get (mp_spent_at s) (prow_key r)) min_age_secs)
         (filter (\<lambda>r. pr_spent r \<and> \<not> pr_spent_confirmed r
              \<and> \<not> (case pr_spending_txid r of None \<Rightarrow> False | Some t \<Rightarrow> t \<in> set (mp_unprovable s)))
            (mp_records s)))"

definition find_unconfirmed_by_spending_txid :: "txid \<Rightarrow> memory_pot_storage \<Rightarrow> pot_record list" where
  "find_unconfirmed_by_spending_txid sp s =
     filter (\<lambda>r. pr_spent r \<and> \<not> pr_spent_confirmed r \<and> pr_spending_txid r = Some sp) (mp_records s)"

definition find_confirmed_by_spending_txid :: "txid \<Rightarrow> memory_pot_storage \<Rightarrow> pot_record list" where
  "find_confirmed_by_spending_txid sp s =
     filter (\<lambda>r. pr_spent r \<and> pr_spent_confirmed r \<and> pr_spending_txid r = Some sp) (mp_records s)"

definition find_pot_beefs_for_proof_check :: "nat \<Rightarrow> nat \<Rightarrow> memory_pot_storage \<Rightarrow> (txid \<times> bytes) list" where
  "find_pot_beefs_for_proof_check limit min_age_secs s =
     take limit
       (filter (\<lambda>(t, _). gate_open s (tbl_get (mp_beef_created_at s) t) min_age_secs)
         (filter (\<lambda>(t, _). t \<notin> set (mp_verified s) \<and> t \<notin> set (mp_unprovable s)) (mp_beefs s)))"

subsection \<open>Headers and windowed walks\<close>

definition max_key :: "(nat, 'v) table \<Rightarrow> nat option" where
  "max_key m = (if m = [] then None else Some (fold max (map fst m) 0))"

definition record_header_seen :: "nat \<Rightarrow> string \<Rightarrow> memory_pot_storage \<Rightarrow> header_seen \<times> memory_pot_storage" where
  "record_header_seen height hash s =
     (\<lparr>prior_hash_at_height = tbl_get (mp_headers_seen s) height,
       max_height_before = max_key (mp_headers_seen s)\<rparr>,
      s\<lparr>mp_headers_seen := tbl_insert height (to_ascii_lowercase hash) (mp_headers_seen s)\<rparr>)"

text \<open>The rows of a window get their keys in the order of the store; a row without one is given one.\<close>

fun keyed_rows ::
  "pot_record list \<Rightarrow> memory_pot_storage \<Rightarrow> (row_key \<times> pot_record) list \<times> memory_pot_storage" where
  "keyed_rows [] s = ([], s)"
| "keyed_rows (r # rs) s =
     (case ordinal_of (pr_txid r) (pr_output_index r) s of
        (n, s1) \<Rightarrow>
          (case keyed_rows rs s1 of
             (ks, s2) \<Rightarrow>
               ((\<lparr>rk_height = (case pr_spent_height r of Some h \<Rightarrow> h | None \<Rightarrow> 0), rk_rowid = n\<rparr>, r) # ks, s2)))"

text \<open>\<open>sort_by_key(Reverse((height, rowid)))\<close>, a stable sort.\<close>

definition walk_order :: "row_key \<Rightarrow> int \<times> int" where
  "walk_order k = (- int (rk_height k), - rk_rowid k)"

definition after_cursor :: "row_key option \<Rightarrow> row_key \<Rightarrow> bool" where
  "after_cursor after k =
     (case after of None \<Rightarrow> True
      | Some a \<Rightarrow> rk_height k < rk_height a \<or> rk_height k = rk_height a \<and> rk_rowid k < rk_rowid a)"

definition in_window :: "nat \<Rightarrow> nat \<Rightarrow> pot_record \<Rightarrow> bool" where
  "in_window lo hi r \<longleftrightarrow>
     pr_spent_confirmed r
     \<and> (case pr_spent_height r of None \<Rightarrow> False | Some h \<Rightarrow> lo \<le> h \<and> h \<le> hi)"

definition confirmed_window_page ::
  "nat \<Rightarrow> nat \<Rightarrow> row_key option \<Rightarrow> nat \<Rightarrow> memory_pot_storage
    \<Rightarrow> (row_key \<times> pot_record) list \<times> memory_pot_storage" where
  "confirmed_window_page lo hi after limit s =
     (case keyed_rows (filter (in_window lo hi) (mp_records s)) s of
        (rows, s1) \<Rightarrow>
          (take limit (filter (\<lambda>(k, _). after_cursor after k) (sort_key (\<lambda>(k, _). walk_order k) rows)), s1))"

definition read_sweep_state :: "string \<Rightarrow> memory_pot_storage \<Rightarrow> sweep_state option" where
  "read_sweep_state name s = tbl_get (mp_sweep_states s) name"

definition write_sweep_state :: "string \<Rightarrow> sweep_state \<Rightarrow> memory_pot_storage \<Rightarrow> memory_pot_storage" where
  "write_sweep_state name w s = s\<lparr>mp_sweep_states := tbl_insert name w (mp_sweep_states s)\<rparr>"

fun keyed_beefs ::
  "nat \<Rightarrow> nat \<Rightarrow> txid list \<Rightarrow> memory_pot_storage
    \<Rightarrow> (row_key \<times> txid \<times> bytes) list \<times> memory_pot_storage" where
  "keyed_beefs lo hi [] s = ([], s)"
| "keyed_beefs lo hi (t # ts) s =
     (case (tbl_get (mp_proof_heights s) t, tbl_get (mp_beefs s) t) of
        (Some h, Some b) \<Rightarrow>
          if h < lo \<or> hi < h then keyed_beefs lo hi ts s
          else (case beef_ordinal_of t s of
                  (n, s1) \<Rightarrow>
                    (case keyed_beefs lo hi ts s1 of
                       (ks, s2) \<Rightarrow> ((\<lparr>rk_height = h, rk_rowid = n\<rparr>, t, b) # ks, s2)))
      | _ \<Rightarrow> keyed_beefs lo hi ts s)"

definition verified_pot_beefs_page ::
  "nat \<Rightarrow> nat \<Rightarrow> row_key option \<Rightarrow> nat \<Rightarrow> memory_pot_storage
    \<Rightarrow> (row_key \<times> txid \<times> bytes) list \<times> memory_pot_storage" where
  "verified_pot_beefs_page lo hi after limit s =
     (case keyed_beefs lo hi (mp_verified s) s of
        (rows, s1) \<Rightarrow>
          (take limit (filter (\<lambda>(k, _). after_cursor after k) (sort_key (\<lambda>(k, _). walk_order k) rows)), s1))"

subsection \<open>Proofs and block times\<close>

definition unlatch_pot_beef_proof :: "txid \<Rightarrow> memory_pot_storage \<Rightarrow> memory_pot_storage" where
  "unlatch_pot_beef_proof t s = s\<lparr>mp_verified := removeAll t (mp_verified s)\<rparr>"

definition pot_beef_has_proof :: "beef_reader \<Rightarrow> txid \<Rightarrow> bytes \<Rightarrow> bool" where
  "pot_beef_has_proof br t b = beef_has_proof br b t"

definition pot_beef_bump_height :: "beef_reader \<Rightarrow> txid \<Rightarrow> bytes \<Rightarrow> nat option" where
  "pot_beef_bump_height br t b = own_bump_height br b t"

definition compact_pot_beef :: "beef_reader \<Rightarrow> txid \<Rightarrow> bytes \<Rightarrow> memory_pot_storage \<Rightarrow> memory_pot_storage" where
  "compact_pot_beef br t b s =
     (if \<not> pot_beef_has_proof br t b then s
      else let s1 = snd (beef_ordinal_of t (s\<lparr>mp_beefs := tbl_insert t b (mp_beefs s)\<rparr>))
           in s1\<lparr>mp_verified := List.insert t (mp_verified s1),
                 mp_proof_heights :=
                   (case pot_beef_bump_height br t b of
                      Some h \<Rightarrow> tbl_insert t h (mp_proof_heights s1)
                    | None \<Rightarrow> tbl_remove t (mp_proof_heights s1)),
                 mp_unprovable := removeAll t (mp_unprovable s1)\<rparr>)"

definition mark_pot_beef_proven :: "txid \<Rightarrow> memory_pot_storage \<Rightarrow> memory_pot_storage" where
  "mark_pot_beef_proven t s =
     s\<lparr>mp_verified := List.insert t (mp_verified s), mp_unprovable := removeAll t (mp_unprovable s)\<rparr>"

definition mark_pot_beef_proven_at :: "txid \<Rightarrow> nat option \<Rightarrow> memory_pot_storage \<Rightarrow> memory_pot_storage" where
  "mark_pot_beef_proven_at t height s =
     (let s1 = mark_pot_beef_proven t s
      in case height of None \<Rightarrow> s1 | Some h \<Rightarrow> s1\<lparr>mp_proof_heights := tbl_insert t h (mp_proof_heights s1)\<rparr>)"

definition pot_beef_proof_verified :: "txid \<Rightarrow> memory_pot_storage \<Rightarrow> bool" where
  "pot_beef_proof_verified t s \<longleftrightarrow> t \<in> set (mp_verified s)"

definition BLOCK_TIME_STAMP_SLACK_SECS :: nat where
  "BLOCK_TIME_STAMP_SLACK_SECS = 7200"

definition created_at_after_block_time :: "nat option \<Rightarrow> nat \<Rightarrow> nat" where
  "created_at_after_block_time created_at block_time_secs =
     (case created_at of
        Some c \<Rightarrow> if c \<le> saturating_add64 block_time_secs BLOCK_TIME_STAMP_SLACK_SECS then c else block_time_secs
      | None \<Rightarrow> block_time_secs)"

definition verified_pots_without_block_time ::
  "string \<Rightarrow> nat \<Rightarrow> memory_pot_storage \<Rightarrow> (txid \<times> bytes) list" where
  "verified_pots_without_block_time start_key limit s =
     (let txids = remdups (sort (filter (\<lambda>t. tbl_get (mp_block_times s) t = None \<and> t \<in> set (mp_verified s))
                                   (map pr_txid (mp_records s))));
          ordered = filter (\<lambda>t. start_key \<le> t) txids @ filter (\<lambda>t. \<not> start_key \<le> t) txids
      in take limit (List.map_filter (\<lambda>t. map_option (Pair t) (tbl_get (mp_beefs s) t)) ordered))"

definition stamp_pot_block_time :: "txid \<Rightarrow> nat \<Rightarrow> memory_pot_storage \<Rightarrow> memory_pot_storage" where
  "stamp_pot_block_time t block_time_secs s =
     (if tbl_get (mp_block_times s) t \<noteq> None then s
      else let rows = filter (\<lambda>r. pr_txid r = t) (mp_records s);
               stamp = (\<lambda>r c. tbl_insert (prow_key r)
                          (created_at_after_block_time (tbl_get c (prow_key r)) block_time_secs) c);
               s1 = s\<lparr>mp_created_at_secs := fold stamp rows (mp_created_at_secs s)\<rparr>
           in if rows = [] then s1 else s1\<lparr>mp_block_times := tbl_insert t block_time_secs (mp_block_times s1)\<rparr>)"

subsection \<open>Witnesses, evictions and the engine's copies\<close>

definition mark_network_seen :: "txid \<Rightarrow> memory_pot_storage \<Rightarrow> memory_pot_storage" where
  "mark_network_seen t s = s\<lparr>mp_network_seen := List.insert (to_ascii_lowercase t) (mp_network_seen s)\<rparr>"

definition mark_network_seen_by :: "txid \<Rightarrow> string \<Rightarrow> int \<Rightarrow> memory_pot_storage \<Rightarrow> memory_pot_storage" where
  "mark_network_seen_by t source at_ms s =
     (let s1 = mark_network_seen t s
      in s1\<lparr>mp_seen_by := tbl_insert (to_ascii_lowercase t)
              \<lparr>sn_source = Some source, sn_at_ms = Some at_ms\<rparr> (mp_seen_by s1)\<rparr>)"

definition network_seen_for :: "txid list \<Rightarrow> memory_pot_storage \<Rightarrow> bool list" where
  "network_seen_for ts s = map (\<lambda>t. to_ascii_lowercase t \<in> set (mp_network_seen s)) ts"

definition network_seen_witness_for :: "txid list \<Rightarrow> memory_pot_storage \<Rightarrow> seen_witness option list" where
  "network_seen_witness_for ts s =
     map (\<lambda>t. let u = to_ascii_lowercase t in
              if u \<in> set (mp_network_seen s)
              then Some (case tbl_get (mp_seen_by s) u of
                           Some w \<Rightarrow> w | None \<Rightarrow> \<lparr>sn_source = None, sn_at_ms = None\<rparr>)
              else None) ts"

definition serve_evictions :: "memory_pot_storage \<Rightarrow> memory_pot_storage" where
  "serve_evictions s = s\<lparr>mp_evictions := Some (Inr [])\<rparr>"

definition record_eviction_classed ::
  "txid \<Rightarrow> int \<Rightarrow> int option \<Rightarrow> string option \<Rightarrow> string option \<Rightarrow> memory_pot_storage \<Rightarrow> memory_pot_storage" where
  "record_eviction_classed t evicted_at readmitted_at chain_word refusal_class s =
     (let m = (case mp_evictions s of Some (Inr m) \<Rightarrow> m | _ \<Rightarrow> [])
      in s\<lparr>mp_evictions := Some (Inr (tbl_insert (to_ascii_lowercase t)
             \<lparr>ev_evicted_at = evicted_at, ev_readmitted_at = readmitted_at, ev_chain_word = chain_word,
              ev_refusal_class = refusal_class\<rparr> m))\<rparr>)"

definition fault_evictions :: "memory_pot_storage \<Rightarrow> memory_pot_storage" where
  "fault_evictions s = s\<lparr>mp_evictions := Some (Inl ())\<rparr>"

definition evictions_for ::
  "txid list \<Rightarrow> memory_pot_storage \<Rightarrow> pot_storage_error + eviction_ledger_entry option list option" where
  "evictions_for ts s =
     (case mp_evictions s of
        None \<Rightarrow> Inr None
      | Some (Inl _) \<Rightarrow> Inl (Pot_Other ''eviction ledger read faulted (test hook)'')
      | Some (Inr m) \<Rightarrow> Inr (Some (map (\<lambda>t. tbl_get m (to_ascii_lowercase t)) ts)))"

definition fault_next_spent_status_reads :: "nat \<Rightarrow> memory_pot_storage \<Rightarrow> memory_pot_storage" where
  "fault_next_spent_status_reads n s = s\<lparr>mp_fault_spent_status_reads := n\<rparr>"

definition fault_next_beef_writes :: "nat \<Rightarrow> memory_pot_storage \<Rightarrow> memory_pot_storage" where
  "fault_next_beef_writes n s = s\<lparr>mp_fault_beef_writes := n\<rparr>"

definition take_record :: "txid \<Rightarrow> nat \<Rightarrow> memory_pot_storage \<Rightarrow> pot_record option \<times> memory_pot_storage" where
  "take_record t i s =
     (case pot_row s (t, i) of
        None \<Rightarrow> (None, s)
      | Some r \<Rightarrow> (Some r, s\<lparr>mp_records := remove1 r (mp_records s)\<rparr>))"

definition hold_transaction_beef :: "txid \<Rightarrow> bytes \<Rightarrow> memory_pot_storage \<Rightarrow> memory_pot_storage" where
  "hold_transaction_beef t b s =
     s\<lparr>mp_held_transactions := tbl_insert (to_ascii_lowercase t) b (mp_held_transactions s)\<rparr>"

definition held_transaction_beef :: "txid \<Rightarrow> memory_pot_storage \<Rightarrow> bytes option" where
  "held_transaction_beef t s = tbl_get (mp_held_transactions s) (to_ascii_lowercase t)"

definition get_beef :: "txid \<Rightarrow> memory_pot_storage \<Rightarrow> bytes option" where
  "get_beef t s = tbl_get (mp_beefs s) t"

definition has_beef :: "txid \<Rightarrow> memory_pot_storage \<Rightarrow> bool" where
  "has_beef t s \<longleftrightarrow> get_beef t s \<noteq> None"

definition pot_advance_clock :: "nat \<Rightarrow> memory_pot_storage \<Rightarrow> memory_pot_storage" where
  "pot_advance_clock secs s = s\<lparr>mp_clock_secs := wrap64 (mp_clock_secs s + secs)\<rparr>"

definition with_created_at :: "txid \<Rightarrow> nat \<Rightarrow> nat \<Rightarrow> memory_pot_storage \<Rightarrow> memory_pot_storage" where
  "with_created_at t i secs s = s\<lparr>mp_created_at_secs := tbl_insert (t, i) secs (mp_created_at_secs s)\<rparr>"

end
