(* ===== verification/Pot_Ledger.thy ===== *)
theory Pot_Ledger
  imports Pot_Storage
begin

text \<open>
  Histories of the pot store. \<open>pot_op\<close> is a call of one of the methods that change state, \<open>pot_exec\<close>
  the method it calls; a history is a list of calls in the order they ran. \<open>row_op\<close> is what a call means
  for one row alone: the specification of the ledger, with no other row, no stamp and no BEEF in sight.
  The locale \<open>spend_ledger\<close> is the contract the readers of the ledger rely on (a store's row answers
  as the specification does), interpreted on the memory store; the invariant of the store carries it.
\<close>

subsection \<open>Calls\<close>

datatype pot_op =
    Op_store_record pot_record
  | Op_store_beef txid bytes
  | Op_mark_spent txid nat txid bool "verdict_write option" "nat option" "bool option"
  | Op_mark_verdict txid nat txid verdict_write
  | Op_displace txid nat txid txid "nat option" "bool option"
  | Op_mark_unpointed txid nat txid "bool option"
  | Op_confirm txid nat txid "nat option"
  | Op_demote txid nat txid
  | Op_demote_at txid nat txid "nat option"
  | Op_reanchor txid nat txid nat
  | Op_facts txid nat txid tx_facts
  | Op_payouts txid nat txid "nat option" "nat option"
  | Op_note_discovery txid nat
  | Op_header nat string
  | Op_window_page nat nat "row_key option" nat
  | Op_beefs_page nat nat "row_key option" nat
  | Op_sweep_state string sweep_state
  | Op_unlatch txid
  | Op_compact txid bytes
  | Op_proven_at txid "nat option"
  | Op_block_time txid nat
  | Op_seen_by txid string int
  | Op_evict txid int "int option" "string option" "string option"
  | Op_read_status txid nat
  | Op_take_record txid nat
  | Op_hold_tx txid bytes
  | Op_clock nat

fun pot_exec :: "beef_reader \<Rightarrow> pot_op \<Rightarrow> memory_pot_storage \<Rightarrow> memory_pot_storage" where
  "pot_exec br (Op_store_record n) s = store_record n s"
| "pot_exec br (Op_store_beef t b) s = snd (store_beef t b s)"
| "pot_exec br (Op_mark_spent t i sp c v h f) s = mark_spent br t i sp c v h f s"
| "pot_exec br (Op_mark_verdict t i sp v) s = mark_verdict_for_spender t i sp v s"
| "pot_exec br (Op_displace t i a b h f) s = snd (displace_spend_for br t i a b h f s)"
| "pot_exec br (Op_mark_unpointed t i sp f) s = snd (mark_spent_if_unpointed t i sp f s)"
| "pot_exec br (Op_confirm t i sp h) s = snd (mark_confirmed_for_spender br t i sp h s)"
| "pot_exec br (Op_demote t i sp) s = snd (demote_confirmed_for_spender t i sp s)"
| "pot_exec br (Op_demote_at t i sp h) s = snd (demote_confirmed_for_spender_at t i sp h s)"
| "pot_exec br (Op_reanchor t i sp h) s = snd (reanchor_confirmed_for_spender t i sp h s)"
| "pot_exec br (Op_facts t i sp fs) s = store_spender_facts t i sp fs s"
| "pot_exec br (Op_payouts t i sp a b) s = store_spender_payouts t i sp a b s"
| "pot_exec br (Op_note_discovery t i) s = note_spend_discovery_attempt t i s"
| "pot_exec br (Op_header h x) s = snd (record_header_seen h x s)"
| "pot_exec br (Op_window_page lo hi a n) s = snd (confirmed_window_page lo hi a n s)"
| "pot_exec br (Op_beefs_page lo hi a n) s = snd (verified_pot_beefs_page lo hi a n s)"
| "pot_exec br (Op_sweep_state x w) s = write_sweep_state x w s"
| "pot_exec br (Op_unlatch t) s = unlatch_pot_beef_proof t s"
| "pot_exec br (Op_compact t b) s = compact_pot_beef br t b s"
| "pot_exec br (Op_proven_at t h) s = mark_pot_beef_proven_at t h s"
| "pot_exec br (Op_block_time t x) s = stamp_pot_block_time t x s"
| "pot_exec br (Op_seen_by t x a) s = mark_network_seen_by t x a s"
| "pot_exec br (Op_evict t a r w c) s = record_eviction_classed t a r w c s"
| "pot_exec br (Op_read_status t i) s = snd (get_spent_status t i s)"
| "pot_exec br (Op_take_record t i) s = snd (take_record t i s)"
| "pot_exec br (Op_hold_tx t b) s = hold_transaction_beef t b s"
| "pot_exec br (Op_clock n) s = pot_advance_clock n s"

definition pot_run :: "beef_reader \<Rightarrow> pot_op list \<Rightarrow> memory_pot_storage" where
  "pot_run br ops = fold (pot_exec br) ops mp_new"

text \<open>
  \<open>store_record\<close> is called with a record that has not been spent: its callers, the admission hook and the
  parameter backfill of the proof fetcher, build it new.
\<close>

definition fresh_record :: "pot_record \<Rightarrow> bool" where
  "fresh_record r \<longleftrightarrow>
     \<not> pr_spent r \<and> pr_spending_txid r = None \<and> \<not> pr_spent_confirmed r \<and> pr_verdict r = None
     \<and> pr_verdict_txid r = None \<and> pr_spent_height r = None \<and> pr_spender_final r = None
     \<and> pr_settle_signers r = None \<and> pr_spender_facts_txid r = None \<and> pr_spender_size_bytes r = None
     \<and> pr_spender_fee_sats r = None \<and> pr_spender_pay_a_sats r = None \<and> pr_spender_pay_b_sats r = None"

fun admissible :: "pot_op \<Rightarrow> bool" where
  "admissible (Op_store_record n) = fresh_record n"
| "admissible _ = True"

subsection \<open>One row\<close>

definition on_row :: "pkey \<Rightarrow> pkey \<Rightarrow> (pot_record \<Rightarrow> pot_record) \<Rightarrow> pot_record option \<Rightarrow> pot_record option" where
  "on_row k' k f ro = (if k = k' then map_option f ro else ro)"

definition confirm_row :: "nat option \<Rightarrow> pot_record \<Rightarrow> pot_record" where
  "confirm_row height r =
     r\<lparr>pr_spent := True, pr_spent_confirmed := True,
       pr_spent_height := (case height of Some h \<Rightarrow> Some h | None \<Rightarrow> pr_spent_height r)\<rparr>"

definition displace_row :: "txid \<Rightarrow> nat option \<Rightarrow> bool option \<Rightarrow> pot_record \<Rightarrow> pot_record" where
  "displace_row sp height final r =
     r\<lparr>pr_spent := True, pr_spending_txid := Some sp, pr_spent_confirmed := True,
       pr_spent_height := height, pr_spender_final := final\<rparr>"

definition facts_row :: "txid \<Rightarrow> tx_facts \<Rightarrow> pot_record \<Rightarrow> pot_record" where
  "facts_row sp fs r =
     (if pr_spender_facts_txid r = Some sp
      then r\<lparr>pr_spender_size_bytes := fill (pr_spender_size_bytes r) (Some (size_bytes fs)),
             pr_spender_fee_sats := fill (pr_spender_fee_sats r) (fact_fee_sats fs)\<rparr>
      else r\<lparr>pr_spender_facts_txid := Some sp, pr_spender_size_bytes := Some (size_bytes fs),
             pr_spender_fee_sats := fact_fee_sats fs, pr_spender_pay_a_sats := None,
             pr_spender_pay_b_sats := None\<rparr>)"

fun row_op :: "pot_op \<Rightarrow> pkey \<Rightarrow> pot_record option \<Rightarrow> pot_record option" where
  "row_op (Op_store_record n) k ro =
     (if k = prow_key n then Some (case ro of None \<Rightarrow> n | Some r \<Rightarrow> fill_record n r) else ro)"
| "row_op (Op_mark_spent t i sp c v h f) k ro =
     on_row (t, i) k (\<lambda>r. case mark_spent_row sp c v h f r of None \<Rightarrow> r | Some q \<Rightarrow> q) ro"
| "row_op (Op_mark_verdict t i sp v) k ro =
     on_row (t, i) k (\<lambda>r. if pr_spending_txid r = Some sp then set_verdict sp v r else r) ro"
| "row_op (Op_displace t i a b h f) k ro =
     on_row (t, i) k (\<lambda>r. if \<not> pr_spent_confirmed r \<and> pr_spending_txid r = Some a
                          then displace_row b h f r else r) ro"
| "row_op (Op_mark_unpointed t i sp f) k ro =
     on_row (t, i) k (\<lambda>r. if \<not> pr_spent r \<and> pr_spending_txid r = None \<and> \<not> pr_spent_confirmed r
                          then r\<lparr>pr_spent := True, pr_spending_txid := Some sp, pr_spender_final := f\<rparr>
                          else r) ro"
| "row_op (Op_confirm t i sp h) k ro =
     on_row (t, i) k (\<lambda>r. if pr_spending_txid r = Some sp then confirm_row h r else r) ro"
| "row_op (Op_demote t i sp) k ro =
     on_row (t, i) k (\<lambda>r. if pr_spent_confirmed r \<and> pr_spending_txid r = Some sp
                          then unconfirm r else r) ro"
| "row_op (Op_demote_at t i sp h) k ro =
     on_row (t, i) k (\<lambda>r. if pr_spent_confirmed r \<and> pr_spending_txid r = Some sp \<and> pr_spent_height r = h
                          then unconfirm r else r) ro"
| "row_op (Op_reanchor t i sp h) k ro =
     on_row (t, i) k (\<lambda>r. if pr_spent_confirmed r \<and> pr_spending_txid r = Some sp
                          then r\<lparr>pr_spent_height := Some h\<rparr> else r) ro"
| "row_op (Op_facts t i sp fs) k ro =
     on_row (t, i) k (\<lambda>r. if pr_spending_txid r = Some sp then facts_row sp fs r else r) ro"
| "row_op (Op_payouts t i sp a b) k ro =
     on_row (t, i) k (\<lambda>r. if pr_spending_txid r = Some sp
                          then r\<lparr>pr_spender_pay_a_sats := fill (pr_spender_pay_a_sats r) a,
                                 pr_spender_pay_b_sats := fill (pr_spender_pay_b_sats r) b\<rparr>
                          else r) ro"
| "row_op (Op_take_record t i) k ro = (if k = (t, i) then None else ro)"
| "row_op _ k ro = ro"

definition row_run :: "pot_op list \<Rightarrow> pkey \<Rightarrow> pot_record option" where
  "row_run ops k = fold (\<lambda>p. row_op p k) ops None"

text \<open>The contract of a ledger.\<close>

locale spend_ledger =
  fixes row :: "'s \<Rightarrow> pkey \<Rightarrow> pot_record option"
    and exec :: "pot_op \<Rightarrow> 's \<Rightarrow> 's"
    and ok :: "'s \<Rightarrow> bool"
    and start :: 's
  assumes start_ok: "ok start"
    and start_row: "row start k = None"
    and exec_ok: "ok s \<Longrightarrow> admissible p \<Longrightarrow> ok (exec p s)"
    and exec_row: "ok s \<Longrightarrow> admissible p \<Longrightarrow> row (exec p s) k = row_op p k (row s k)"
begin

lemma run_ok: "ok s \<Longrightarrow> list_all admissible ops \<Longrightarrow> ok (fold exec ops s)"
  by (induction ops arbitrary: s) (auto simp: exec_ok)

lemma run_row:
  "ok s \<Longrightarrow> list_all admissible ops \<Longrightarrow> row (fold exec ops s) k = fold (\<lambda>p. row_op p k) ops (row s k)"
  by (induction ops arbitrary: s) (auto simp: exec_ok exec_row)

lemma start_run_row: "list_all admissible ops \<Longrightarrow> row (fold exec ops start) k = row_run ops k"
  by (simp add: run_row start_ok start_row row_run_def)

end

subsection \<open>The invariant\<close>

text \<open>
  What the columns of a row promise each other: a pointer exactly on a spent row, a confirmation only on
  a spent one, a height only on a confirmed one, the verdict group whole.
\<close>

definition row_ok :: "pot_record \<Rightarrow> bool" where
  "row_ok r \<longleftrightarrow>
     (pr_spent r \<longleftrightarrow> pr_spending_txid r \<noteq> None)
     \<and> (pr_spent_confirmed r \<longrightarrow> pr_spent r)
     \<and> (pr_spent_height r \<noteq> None \<longrightarrow> pr_spent_confirmed r)
     \<and> (pr_verdict r = None \<longleftrightarrow> pr_verdict_txid r = None)
     \<and> (pr_settle_signers r \<noteq> None \<longrightarrow> pr_verdict r \<noteq> None)
     \<and> (pr_spender_facts_txid r = None \<longleftrightarrow> pr_spender_size_bytes r = None)
     \<and> (pr_spender_fee_sats r \<noteq> None \<longrightarrow> pr_spender_facts_txid r \<noteq> None)"

definition ordinals_ok :: "('k, int) table \<Rightarrow> int \<Rightarrow> bool" where
  "ordinals_ok m mx \<longleftrightarrow>
     (\<forall>k n. tbl_get m k = Some n \<longrightarrow> n \<le> mx)
     \<and> (\<forall>k k' n. tbl_get m k = Some n \<longrightarrow> tbl_get m k' = Some n \<longrightarrow> k = k')"

definition pot_inv :: "memory_pot_storage \<Rightarrow> bool" where
  "pot_inv s \<longleftrightarrow>
     distinct (map prow_key (mp_records s)) \<and> list_all row_ok (mp_records s)
     \<and> (\<forall>r \<in> set (mp_records s). tbl_get (mp_ordinals s) (prow_key r) \<noteq> None)
     \<and> ordinals_ok (mp_ordinals s) (mp_next_ordinal s)
     \<and> ordinals_ok (mp_beef_ordinals s) (mp_next_ordinal s)
     \<and> tbl_wf (mp_beefs s)
     \<and> (\<forall>t. tbl_get (mp_beefs s) t \<noteq> None \<longrightarrow> tbl_get (mp_beef_ordinals s) t \<noteq> None)
     \<and> distinct (mp_verified s)
     \<and> set (mp_verified s) \<inter> set (mp_unprovable s) = {}
     \<and> (\<forall>t \<in> set (mp_unprovable s). tbl_get (mp_beefs s) t \<noteq> None)
     \<and> (\<forall>h x. tbl_get (mp_headers_seen s) h = Some x \<longrightarrow> to_ascii_lowercase x = x)"

named_theorems pot_rows \<open>rows through the loops over the records\<close>

lemma find_update_all [pot_rows]:
  assumes "\<And>r. prow_key (f r) = prow_key r"
  shows "List.find (\<lambda>r. prow_key r = k) (update_all P f xs) =
    map_option (\<lambda>r. if P r then f r else r) (List.find (\<lambda>r. prow_key r = k) xs)"
  using assms by (induction xs) (auto simp: update_all_def)

lemma find_key_None: "List.find (\<lambda>r. prow_key r = k) xs = None \<longleftrightarrow> k \<notin> prow_key ` set xs"
  by (auto simp: find_None_iff)

lemma find_key_Some: "List.find (\<lambda>r. prow_key r = k) xs = Some r \<Longrightarrow> r \<in> set xs \<and> prow_key r = k"
  by (auto simp: find_Some_iff)

lemma find_update_first [pot_rows]:
  assumes "\<And>r. prow_key (f r) = prow_key r" "\<And>r. P r \<Longrightarrow> prow_key r = k'" "distinct (map prow_key xs)"
  shows "List.find (\<lambda>r. prow_key r = k) (update_first P f xs) =
    map_option (\<lambda>r. if P r then f r else r) (List.find (\<lambda>r. prow_key r = k) xs)"
  using assms(3)
proof (induction xs)
  case (Cons x xs)
  show ?case
  proof (cases "P x")
    case True
    have "List.find (\<lambda>r. prow_key r = prow_key x) xs = None"
      using Cons.prems by (simp add: find_key_None)
    moreover have "\<not> P r" if "List.find (\<lambda>r. prow_key r = k) xs = Some r" for r
      using find_key_Some [OF that] Cons.prems assms(2) [OF True] assms(2) [of r]
      by (metis distinct.simps(2) image_eqI list.simps(9) set_map)
    ultimately show ?thesis
      using True assms(1) [of x] by (cases "List.find (\<lambda>r. prow_key r = k) xs") auto
  next
    case False
    with Cons show ?thesis by auto
  qed
qed simp

lemma update_first_keys:
  "(\<And>r. prow_key (f r) = prow_key r) \<Longrightarrow> map prow_key (update_first P f xs) = map prow_key xs"
  by (induction xs) auto

lemma update_all_keys:
  "(\<And>r. prow_key (f r) = prow_key r) \<Longrightarrow> map prow_key (update_all P f xs) = map prow_key xs"
  by (induction xs) (auto simp: update_all_def)

lemma update_all_list_all:
  "list_all Q xs \<Longrightarrow> (\<And>r. Q r \<Longrightarrow> P r \<Longrightarrow> Q (f r)) \<Longrightarrow> list_all Q (update_all P f xs)"
  by (auto simp: update_all_def list_all_iff)

lemma update_first_list_all:
  "list_all Q xs \<Longrightarrow> (\<And>r. Q r \<Longrightarrow> P r \<Longrightarrow> Q (f r)) \<Longrightarrow> list_all Q (update_first P f xs)"
  by (induction xs) auto

lemma pot_inv_new: "pot_inv mp_new"
  by (simp add: pot_inv_def mp_new_def ordinals_ok_def)

lemma pot_inv_distinct: "pot_inv s \<Longrightarrow> distinct (map prow_key (mp_records s))"
  by (simp add: pot_inv_def)

lemma pot_inv_rows: "pot_inv s \<Longrightarrow> list_all row_ok (mp_records s)"
  by (simp add: pot_inv_def)

lemma pot_inv_records:
  assumes "pot_inv s" "map prow_key xs = map prow_key (mp_records s)" "list_all row_ok xs"
  shows "pot_inv (s\<lparr>mp_records := xs\<rparr>)"
proof -
  have "prow_key ` set xs = prow_key ` set (mp_records s)"
    using assms(2) by (metis set_map)
  then have "\<forall>r \<in> set xs. tbl_get (mp_ordinals s) (prow_key r) \<noteq> None"
    using assms(1) unfolding pot_inv_def by (metis (no_types, lifting) image_iff)
  with assms show ?thesis by (simp add: pot_inv_def)
qed

lemma pot_inv_update_all:
  assumes "pot_inv s" "\<And>r. prow_key (f r) = prow_key r" "\<And>r. row_ok r \<Longrightarrow> P r \<Longrightarrow> row_ok (f r)"
  shows "pot_inv (s\<lparr>mp_records := update_all P f (mp_records s)\<rparr>)"
  using assms by (intro pot_inv_records update_all_keys update_all_list_all) (auto simp: pot_inv_rows)

lemma pot_inv_update_first:
  assumes "pot_inv s" "\<And>r. prow_key (f r) = prow_key r" "\<And>r. row_ok r \<Longrightarrow> P r \<Longrightarrow> row_ok (f r)"
  shows "pot_inv (s\<lparr>mp_records := update_first P f (mp_records s)\<rparr>)"
  using assms by (intro pot_inv_records update_first_keys update_first_list_all) (auto simp: pot_inv_rows)

lemma ordinals_ok_insert:
  "ordinals_ok m mx \<Longrightarrow> tbl_get m k = None \<Longrightarrow> ordinals_ok (tbl_insert k (mx + 1) m) (mx + 1)"
  unfolding ordinals_ok_def by (auto simp: table_simps) (smt (verit))+

lemma ordinals_ok_mono: "ordinals_ok m mx \<Longrightarrow> mx \<le> mx' \<Longrightarrow> ordinals_ok m mx'"
  unfolding ordinals_ok_def by (meson order_trans)

subsection \<open>Every call keeps the invariant\<close>

lemma row_ok_fresh: "fresh_record r \<Longrightarrow> row_ok r"
  by (simp add: fresh_record_def row_ok_def)

lemma row_ok_fill: "row_ok r \<Longrightarrow> row_ok (fill_record n r)"
  by (auto simp: row_ok_def fill_record_def)

lemma row_ok_set_verdict: "row_ok r \<Longrightarrow> row_ok (set_verdict sp v r)"
  by (auto simp: row_ok_def set_verdict_def)

text \<open>An accepted write of the pointer, in one update.\<close>

definition point_row :: "txid \<Rightarrow> bool \<Rightarrow> nat option \<Rightarrow> bool option \<Rightarrow> pot_record \<Rightarrow> pot_record" where
  "point_row sp c h f r =
     r\<lparr>pr_spent := True, pr_spending_txid := Some sp, pr_spent_confirmed := c \<or> pr_spent_confirmed r,
       pr_spent_height := (if c then keep_or_reset (pr_spending_txid r = Some sp) h (pr_spent_height r)
                           else pr_spent_height r),
       pr_spender_final := keep_or_reset (pr_spending_txid r = Some sp) f (pr_spender_final r)\<rparr>"

lemma mark_spent_row_eq:
  "mark_spent_row sp c v h f r =
    (if c \<or> \<not> pr_spent_confirmed r
     then Some (case v of None \<Rightarrow> point_row sp c h f r | Some w \<Rightarrow> set_verdict sp w (point_row sp c h f r))
     else None)"
  by (cases c; cases v; cases r) (simp_all add: mark_spent_row_def point_row_def Let_def)

lemma row_ok_point: "row_ok r \<Longrightarrow> c \<or> \<not> pr_spent_confirmed r \<Longrightarrow> row_ok (point_row sp c h f r)"
  by (cases "pr_spent_height r") (auto simp: row_ok_def point_row_def)

lemma row_ok_mark_spent: "row_ok r \<Longrightarrow> mark_spent_row sp c v h f r = Some q \<Longrightarrow> row_ok q"
  by (auto simp: mark_spent_row_eq row_ok_point row_ok_set_verdict split: if_splits option.splits)

lemma row_ok_displace: "row_ok r \<Longrightarrow> row_ok (displace_row sp h f r)"
  by (auto simp: row_ok_def displace_row_def)

lemma row_ok_confirm: "row_ok r \<Longrightarrow> pr_spending_txid r = Some sp \<Longrightarrow> row_ok (confirm_row h r)"
  by (auto simp: row_ok_def confirm_row_def split: option.splits)

lemma row_ok_unconfirm: "row_ok r \<Longrightarrow> row_ok (unconfirm r)"
  by (auto simp: row_ok_def unconfirm_def)

lemma row_ok_facts: "row_ok r \<Longrightarrow> row_ok (facts_row sp fs r)"
  by (auto simp: row_ok_def facts_row_def fill_def)

lemma row_key_simps [simp]:
  "prow_key (fill_record n r) = prow_key r" "prow_key (set_verdict sp v r) = prow_key r"
  "prow_key (displace_row sp h f r) = prow_key r" "prow_key (confirm_row h r) = prow_key r"
  "prow_key (unconfirm r) = prow_key r" "prow_key (facts_row sp fs r) = prow_key r"
  "prow_key (pr_spent_height_update g r) = prow_key r"
  "prow_key (pr_spender_final_update g' r) = prow_key r"
  "prow_key (pr_spending_txid_update u r) = prow_key r"
  "prow_key (pr_spent_update u' r) = prow_key r"
  "prow_key (pr_spender_pay_a_sats_update w r) = prow_key r"
  "prow_key (pr_spender_pay_b_sats_update w r) = prow_key r"
  by (simp_all add: prow_key_def fill_record_def set_verdict_def displace_row_def confirm_row_def
      unconfirm_def facts_row_def)

lemma mark_spent_row_key: "mark_spent_row sp c v h f r = Some q \<Longrightarrow> prow_key q = prow_key r"
  by (auto simp: mark_spent_row_eq prow_key_def point_row_def set_verdict_def split: if_splits option.splits)

text \<open>The writers of one row, as updates of the records.\<close>

lemma displace_rows:
  "snd (displace_spend_for br t i a b h f s) =
    (let P = \<lambda>r. is_row t i r \<and> \<not> pr_spent_confirmed r \<and> pr_spending_txid r = Some a;
         s1 = s\<lparr>mp_records := update_all P (displace_row b h f) (mp_records s)\<rparr>
     in if list_ex P (mp_records s) then retire_superseded_after_confirm br t i b s1 else s1)"
  by (simp add: displace_spend_for_def Let_def displace_row_def [abs_def])

lemma confirm_rows:
  "snd (mark_confirmed_for_spender br t i sp h s) =
    (let P = \<lambda>r. is_row t i r \<and> pr_spending_txid r = Some sp;
         s1 = s\<lparr>mp_records := update_first P (confirm_row h) (mp_records s)\<rparr>
     in if list_ex P (mp_records s) then retire_superseded_after_confirm br t i sp s1 else s1)"
  by (simp add: mark_confirmed_for_spender_def Let_def confirm_row_def [abs_def])

lemma facts_rows:
  "store_spender_facts t i sp fs s =
    s\<lparr>mp_records := update_first (is_row t i)
        (\<lambda>r. if pr_spending_txid r = Some sp then facts_row sp fs r else r) (mp_records s)\<rparr>"
proof -
  have "(\<lambda>r. if pr_spending_txid r \<noteq> Some sp then r
       else if pr_spender_facts_txid r = Some sp
         then r\<lparr>pr_spender_size_bytes := fill (pr_spender_size_bytes r) (Some (size_bytes fs)),
                pr_spender_fee_sats := fill (pr_spender_fee_sats r) (fact_fee_sats fs)\<rparr>
         else r\<lparr>pr_spender_facts_txid := Some sp, pr_spender_size_bytes := Some (size_bytes fs),
                pr_spender_fee_sats := fact_fee_sats fs, pr_spender_pay_a_sats := None,
                pr_spender_pay_b_sats := None\<rparr>) =
     (\<lambda>r. if pr_spending_txid r = Some sp then facts_row sp fs r else r)"
    by (rule ext) (simp add: facts_row_def)
  then show ?thesis unfolding store_spender_facts_def by (rule arg_cong)
qed

lemma superseded_beefs_sub:
  "t \<in> set (superseded_beefs br pt i c s) \<Longrightarrow> t \<notin> set (mp_verified s) \<and> tbl_get (mp_beefs s) t \<noteq> None"
  unfolding superseded_beefs_def tbl_get_None by auto

lemma set_fold_insert: "set (fold List.insert xs ys) = set xs \<union> set ys"
  by (induction xs arbitrary: ys) auto

lemma pot_inv_retire: "pot_inv s \<Longrightarrow> pot_inv (retire_superseded_after_confirm br t i sp s)"
  using superseded_beefs_sub [of _ br t i sp s]
  by (auto simp: pot_inv_def retire_superseded_after_confirm_def set_fold_insert)

lemma pot_inv_ordinal_of: "pot_inv s \<Longrightarrow> pot_inv (snd (ordinal_of t i s))"
  by (auto simp: pot_inv_def ordinal_of_def Let_def ordinals_ok_insert split: option.splits
      intro: ordinals_ok_mono)

lemma pot_inv_beef_ordinal_of: "pot_inv s \<Longrightarrow> pot_inv (snd (beef_ordinal_of t s))"
  by (auto simp: pot_inv_def beef_ordinal_of_def Let_def ordinals_ok_insert split: option.splits
      intro: ordinals_ok_mono)

lemma ordinal_of_frame [simp]:
  "mp_records (snd (ordinal_of t i s)) = mp_records s"
  "tbl_get (mp_ordinals (snd (ordinal_of t i s))) (t, i) = Some (fst (ordinal_of t i s))"
  by (auto simp: ordinal_of_def Let_def split: option.splits)

lemma beef_ordinal_of_frame [simp]:
  "mp_records (snd (beef_ordinal_of t s)) = mp_records s"
  "mp_beefs (snd (beef_ordinal_of t s)) = mp_beefs s"
  "mp_verified (snd (beef_ordinal_of t s)) = mp_verified s"
  "mp_unprovable (snd (beef_ordinal_of t s)) = mp_unprovable s"
  "mp_headers_seen (snd (beef_ordinal_of t s)) = mp_headers_seen s"
  "tbl_get (mp_beef_ordinals (snd (beef_ordinal_of t s))) t = Some (fst (beef_ordinal_of t s))"
  by (auto simp: beef_ordinal_of_def Let_def split: option.splits)

lemma pot_inv_store_record: "pot_inv s \<Longrightarrow> fresh_record n \<Longrightarrow> pot_inv (store_record n s)"
proof -
  assume inv: "pot_inv s" and n: "fresh_record n"
  show ?thesis
  proof (cases "list_ex (is_row (pr_txid n) (pr_output_index n)) (mp_records s)")
    case True
    with inv show ?thesis
      by (simp add: store_record_def) (rule pot_inv_update_first; simp add: row_ok_fill)
  next
    case False
    then have "prow_key n \<notin> prow_key ` set (mp_records s)"
      by (auto simp: list_ex_iff prow_key_def)
    moreover have "pot_inv (snd (ordinal_of (pr_txid n) (pr_output_index n) s))"
      using inv by (rule pot_inv_ordinal_of)
    moreover have "snd (ordinal_of t i (s\<lparr>mp_records := xs\<rparr>)) = (snd (ordinal_of t i s))\<lparr>mp_records := xs\<rparr>"
      for t i xs by (simp add: ordinal_of_def Let_def split: option.splits)
    ultimately show ?thesis
      using False n ordinal_of_frame(2) [of "pr_txid n" "pr_output_index n" s]
      by (auto simp: store_record_def pot_inv_def row_ok_fresh prow_key_def)
  qed
qed

lemma pot_inv_spent_at [simp]: "pot_inv (s\<lparr>mp_spent_at := x\<rparr>) = pot_inv s"
  by (simp add: pot_inv_def)

lemma pot_inv_mark_spent: "pot_inv s \<Longrightarrow> pot_inv (mark_spent br t i sp c v h f s)"
proof -
  assume inv: "pot_inv s"
  have "pot_inv (s\<lparr>mp_records := update_all (is_row t i)
      (\<lambda>r. case mark_spent_row sp c v h f r of None \<Rightarrow> r | Some q \<Rightarrow> q) (mp_records s)\<rparr>)"
    using inv by (rule pot_inv_update_all)
      (auto simp: mark_spent_row_key row_ok_mark_spent split: option.splits)
  then show ?thesis
    by (cases c) (simp_all add: mark_spent_def Let_def pot_inv_retire)
qed

lemma pot_inv_verdict: "pot_inv s \<Longrightarrow> pot_inv (mark_verdict_for_spender t i sp v s)"
  unfolding mark_verdict_for_spender_def by (rule pot_inv_update_all) (auto simp: row_ok_set_verdict)

lemma pot_inv_displace: "pot_inv s \<Longrightarrow> pot_inv (snd (displace_spend_for br t i a b h f s))"
  unfolding displace_rows Let_def
  using pot_inv_update_all [of s "displace_row b h f"] by (simp add: row_ok_displace pot_inv_retire)

lemma row_ok_unpointed:
  "row_ok r \<Longrightarrow> \<not> pr_spent_confirmed r
    \<Longrightarrow> row_ok (r\<lparr>pr_spent := True, pr_spending_txid := Some sp, pr_spender_final := f\<rparr>)"
  by (auto simp: row_ok_def)

lemma pot_inv_unpointed: "pot_inv s \<Longrightarrow> pot_inv (snd (mark_spent_if_unpointed t i sp f s))"
  using pot_inv_update_all [of s "\<lambda>r. r\<lparr>pr_spent := True, pr_spending_txid := Some sp, pr_spender_final := f\<rparr>"
      "\<lambda>r. is_row t i r \<and> \<not> pr_spent r \<and> pr_spending_txid r = None \<and> \<not> pr_spent_confirmed r"]
  by (simp add: mark_spent_if_unpointed_def Let_def row_ok_unpointed)

lemma pot_inv_confirm: "pot_inv s \<Longrightarrow> pot_inv (snd (mark_confirmed_for_spender br t i sp h s))"
  unfolding confirm_rows Let_def
  using pot_inv_update_first [of s "confirm_row h" "\<lambda>r. is_row t i r \<and> pr_spending_txid r = Some sp"]
  by (auto simp: row_ok_confirm pot_inv_retire)

lemma pot_inv_demote:
  "pot_inv s \<Longrightarrow> pot_inv (snd (demote_confirmed_for_spender t i sp s))"
  "pot_inv s \<Longrightarrow> pot_inv (snd (demote_confirmed_for_spender_at t i sp j s))"
  by (simp_all add: demote_confirmed_for_spender_def demote_confirmed_for_spender_at_def Let_def
      pot_inv_update_first row_ok_unconfirm)

lemma pot_inv_reanchor: "pot_inv s \<Longrightarrow> pot_inv (snd (reanchor_confirmed_for_spender t i sp h s))"
  unfolding reanchor_confirmed_for_spender_def Let_def snd_conv
  by (rule pot_inv_update_first) (auto simp: row_ok_def)

lemma pot_inv_facts: "pot_inv s \<Longrightarrow> pot_inv (store_spender_facts t i sp fs s)"
  unfolding facts_rows by (rule pot_inv_update_first) (auto simp: row_ok_facts)

lemma pot_inv_payouts: "pot_inv s \<Longrightarrow> pot_inv (store_spender_payouts t i sp a b s)"
  unfolding store_spender_payouts_def by (rule pot_inv_update_first) (auto simp: row_ok_def)

lemma pot_inv_faults [simp]:
  "pot_inv (s\<lparr>mp_fault_beef_writes := n\<rparr>) = pot_inv s"
  "pot_inv (s\<lparr>mp_fault_spent_status_reads := n\<rparr>) = pot_inv s"
  by (simp_all add: pot_inv_def)

lemma pot_inv_put_beef:
  assumes "pot_inv s" "tbl_get (mp_beef_ordinals s) t \<noteq> None" "m = mp_beefs s"
  shows "pot_inv (s\<lparr>mp_beefs := tbl_insert t b m, mp_beef_created_at := y\<rparr>)"
  using assms by (auto simp: pot_inv_def)

lemma pot_inv_store_beef: "pot_inv s \<Longrightarrow> pot_inv (snd (store_beef t b s))"
  by (auto simp: store_beef_def take_fault_def Let_def pot_inv_beef_ordinal_of
      intro!: pot_inv_put_beef split: option.splits)

lemma pot_inv_compact: "pot_inv s \<Longrightarrow> pot_inv (compact_pot_beef br t b s)"
proof -
  assume inv: "pot_inv s"
  define s1 where "s1 = snd (beef_ordinal_of t s)"
  have s1: "pot_inv s1" "tbl_get (mp_beef_ordinals s1) t \<noteq> None" "mp_beefs s1 = mp_beefs s"
    unfolding s1_def using inv by (simp_all add: pot_inv_beef_ordinal_of)
  have "snd (beef_ordinal_of t (s\<lparr>mp_beefs := x\<rparr>)) = s1\<lparr>mp_beefs := x\<rparr>" for x
    by (simp add: s1_def beef_ordinal_of_def Let_def split: option.splits)
  with s1 inv show ?thesis
    by (auto simp: compact_pot_beef_def Let_def pot_inv_def)
qed

lemma keyed_rows_Cons:
  "keyed_rows (r # rs) s =
    ((\<lparr>rk_height = (case pr_spent_height r of Some h \<Rightarrow> h | None \<Rightarrow> 0),
       rk_rowid = fst (ordinal_of (pr_txid r) (pr_output_index r) s)\<rparr>, r)
     # fst (keyed_rows rs (snd (ordinal_of (pr_txid r) (pr_output_index r) s))),
     snd (keyed_rows rs (snd (ordinal_of (pr_txid r) (pr_output_index r) s))))"
  by (simp split: prod.splits)

lemma keyed_rows_inv: "pot_inv s \<Longrightarrow> pot_inv (snd (keyed_rows rs s))"
  by (induction rs arbitrary: s) (simp_all add: keyed_rows_Cons pot_inv_ordinal_of del: keyed_rows.simps(2))

lemma keyed_rows_records: "mp_records (snd (keyed_rows rs s)) = mp_records s"
  by (induction rs arbitrary: s) (simp_all add: keyed_rows_Cons del: keyed_rows.simps(2))

lemma keyed_beefs_inv:
  "pot_inv s \<Longrightarrow> pot_inv (snd (keyed_beefs lo hi ts s)) \<and> mp_records (snd (keyed_beefs lo hi ts s)) = mp_records s"
proof (induction ts arbitrary: s)
  case (Cons t ts)
  obtain n s1 where bo: "beef_ordinal_of t s = (n, s1)" by fastforce
  have s1: "pot_inv s1" "mp_records s1 = mp_records s"
    using pot_inv_beef_ordinal_of [OF Cons.prems, of t] beef_ordinal_of_frame(1) [of t s] by (simp_all add: bo)
  obtain ks s2 where kb: "keyed_beefs lo hi ts s1 = (ks, s2)" by fastforce
  show ?case
    using Cons.IH [OF Cons.prems] Cons.IH [OF s1(1)] s1(2) by (simp add: bo kb split: option.splits)
qed simp

lemma page_states:
  "snd (confirmed_window_page lo hi a n s) = snd (keyed_rows (filter (in_window lo hi) (mp_records s)) s)"
  "snd (verified_pot_beefs_page lo hi a n s) = snd (keyed_beefs lo hi (mp_verified s) s)"
  by (simp_all add: confirmed_window_page_def verified_pot_beefs_page_def split: prod.splits)

lemma pot_inv_pages:
  "pot_inv s \<Longrightarrow> pot_inv (snd (confirmed_window_page lo hi a n s))"
  "pot_inv s \<Longrightarrow> pot_inv (snd (verified_pot_beefs_page lo hi a n s))"
  by (simp_all add: page_states keyed_rows_inv keyed_beefs_inv)

lemma pot_inv_take_record: "pot_inv s \<Longrightarrow> pot_inv (snd (take_record t i s))"
proof -
  assume inv: "pot_inv s"
  have "distinct (map prow_key (remove1 r (mp_records s)))" for r
    using pot_inv_distinct [OF inv] by (simp add: distinct_map inj_on_def)
  with inv show ?thesis
    by (auto simp: take_record_def pot_inv_def list_all_iff split: option.splits dest: notin_set_remove1)
qed

lemma pot_inv_small [simp]:
  "pot_inv s \<Longrightarrow> pot_inv (note_spend_discovery_attempt t i s)"
  "pot_inv s \<Longrightarrow> pot_inv (snd (record_header_seen h x s))"
  "pot_inv s \<Longrightarrow> pot_inv (write_sweep_state nm w s)"
  "pot_inv s \<Longrightarrow> pot_inv (unlatch_pot_beef_proof t s)"
  "pot_inv s \<Longrightarrow> pot_inv (mark_pot_beef_proven_at t hh s)"
  "pot_inv s \<Longrightarrow> pot_inv (stamp_pot_block_time t n s)"
  "pot_inv s \<Longrightarrow> pot_inv (mark_network_seen_by t src at s)"
  "pot_inv s \<Longrightarrow> pot_inv (record_eviction_classed t ea rd cw rc s)"
  "pot_inv s \<Longrightarrow> pot_inv (snd (get_spent_status t i s))"
  "pot_inv s \<Longrightarrow> pot_inv (hold_transaction_beef t bb s)"
  "pot_inv s \<Longrightarrow> pot_inv (pot_advance_clock n s)"
  by (auto simp: pot_inv_def note_spend_discovery_attempt_def record_header_seen_def write_sweep_state_def
      unlatch_pot_beef_proof_def mark_pot_beef_proven_at_def mark_pot_beef_proven_def
      stamp_pot_block_time_def mark_network_seen_by_def mark_network_seen_def
      record_eviction_classed_def get_spent_status_def take_fault_def hold_transaction_beef_def
      pot_advance_clock_def Let_def distinct_removeAll split: option.splits if_splits)

lemmas pot_inv_ops = pot_inv_store_record pot_inv_mark_spent pot_inv_verdict pot_inv_displace
  pot_inv_unpointed pot_inv_confirm pot_inv_demote pot_inv_reanchor pot_inv_facts pot_inv_payouts
  pot_inv_store_beef pot_inv_compact pot_inv_pages pot_inv_take_record pot_inv_small

lemma pot_inv_exec: "pot_inv s \<Longrightarrow> admissible p \<Longrightarrow> pot_inv (pot_exec br p s)"
  by (cases p) (simp_all add: pot_inv_ops)

subsection \<open>The store answers as the rows do\<close>

lemma pot_row_cong: "mp_records s = mp_records s' \<Longrightarrow> pot_row s k = pot_row s' k"
  by (simp add: pot_row_def)

lemma pot_row_SomeD: "pot_row s k = Some r \<Longrightarrow> r \<in> set (mp_records s) \<and> prow_key r = k"
  unfolding pot_row_def by (rule find_key_Some)

lemma pot_row_update_all:
  assumes "\<And>r. prow_key (f r) = prow_key r" "\<And>r. P r \<longleftrightarrow> prow_key r = k' \<and> Q r"
    and "mp_records s' = update_all P f (mp_records s)"
  shows "pot_row s' k = on_row k' k (\<lambda>r. if Q r then f r else r) (pot_row s k)"
proof (cases "pot_row s k")
  case None
  then show ?thesis
    using find_update_all [OF assms(1), of k P "mp_records s"] assms(3) by (simp add: pot_row_def on_row_def)
next
  case (Some r)
  then show ?thesis
    using find_update_all [OF assms(1), of k P "mp_records s"] pot_row_SomeD [OF Some] assms(2,3)
    by (simp add: pot_row_def on_row_def)
qed

lemma pot_row_update_first:
  assumes "pot_inv s" "\<And>r. prow_key (f r) = prow_key r" "\<And>r. P r \<longleftrightarrow> prow_key r = k' \<and> Q r"
    and "mp_records s' = update_first P f (mp_records s)"
  shows "pot_row s' k = on_row k' k (\<lambda>r. if Q r then f r else r) (pot_row s k)"
proof -
  note find = find_update_first [where f = f and P = P and k' = k' and k = k,
      OF assms(2) _ pot_inv_distinct [OF assms(1)]]
  show ?thesis
  proof (cases "pot_row s k")
    case None
    then show ?thesis using find assms(3,4) by (simp add: pot_row_def on_row_def)
  next
    case (Some r)
    then show ?thesis
      using find pot_row_SomeD [OF Some] assms(3,4) by (simp add: pot_row_def on_row_def)
  qed
qed

lemma is_row_key: "is_row t i r \<longleftrightarrow> prow_key r = (t, i)"
  by (simp add: prow_key_def)

lemma retire_records [simp]: "mp_records (retire_superseded_after_confirm br t i sp s) = mp_records s"
  by (simp add: retire_superseded_after_confirm_def)

lemma row_mark_spent:
  "pot_row (mark_spent br t i sp c v h f s) k = row_op (Op_mark_spent t i sp c v h f) k (pot_row s k)"
proof -
  have "pot_row (mark_spent br t i sp c v h f s) k = on_row (t, i) k
      (\<lambda>r. if True then (case mark_spent_row sp c v h f r of None \<Rightarrow> r | Some q \<Rightarrow> q) else r) (pot_row s k)"
    by (rule pot_row_update_all [where P = "is_row t i"])
      (auto simp: is_row_key mark_spent_def Let_def mark_spent_row_key split: option.splits)
  then show ?thesis by simp
qed

lemma row_mark_verdict:
  "pot_row (mark_verdict_for_spender t i sp v s) k = row_op (Op_mark_verdict t i sp v) k (pot_row s k)"
  unfolding row_op.simps
  by (rule pot_row_update_all [where P = "\<lambda>r. is_row t i r \<and> pr_spending_txid r = Some sp"])
    (auto simp: is_row_key mark_verdict_for_spender_def)

lemma row_displace:
  "pot_row (snd (displace_spend_for br t i a b h f s)) k = row_op (Op_displace t i a b h f) k (pot_row s k)"
  unfolding row_op.simps displace_rows Let_def
  by (rule pot_row_update_all
      [where P = "\<lambda>r. is_row t i r \<and> \<not> pr_spent_confirmed r \<and> pr_spending_txid r = Some a"])
    (auto simp: is_row_key)

lemma row_unpointed:
  "pot_row (snd (mark_spent_if_unpointed t i sp f s)) k = row_op (Op_mark_unpointed t i sp f) k (pot_row s k)"
  unfolding row_op.simps mark_spent_if_unpointed_def Let_def
  by (rule pot_row_update_all [where
        P = "\<lambda>r. is_row t i r \<and> \<not> pr_spent r \<and> pr_spending_txid r = None \<and> \<not> pr_spent_confirmed r"])
    (auto simp: is_row_key)

lemma row_confirm:
  "pot_inv s \<Longrightarrow>
   pot_row (snd (mark_confirmed_for_spender br t i sp h s)) k = row_op (Op_confirm t i sp h) k (pot_row s k)"
  unfolding row_op.simps confirm_rows Let_def
  by (rule pot_row_update_first [where P = "\<lambda>r. is_row t i r \<and> pr_spending_txid r = Some sp"])
    (auto simp: is_row_key)

lemma row_demote:
  "pot_inv s \<Longrightarrow>
   pot_row (snd (demote_confirmed_for_spender t i sp s)) k = row_op (Op_demote t i sp) k (pot_row s k)"
  "pot_inv s \<Longrightarrow>
   pot_row (snd (demote_confirmed_for_spender_at t i sp j s)) k = row_op (Op_demote_at t i sp j) k (pot_row s k)"
  unfolding row_op.simps
  by (rule pot_row_update_first
      [where P = "\<lambda>r. is_row t i r \<and> pr_spent_confirmed r \<and> pr_spending_txid r = Some sp"];
      auto simp: is_row_key demote_confirmed_for_spender_def Let_def)
    (rule pot_row_update_first [where
        P = "\<lambda>r. is_row t i r \<and> pr_spent_confirmed r \<and> pr_spending_txid r = Some sp \<and> pr_spent_height r = j"];
      auto simp: is_row_key demote_confirmed_for_spender_at_def Let_def)

lemma row_reanchor:
  "pot_inv s \<Longrightarrow>
   pot_row (snd (reanchor_confirmed_for_spender t i sp h s)) k = row_op (Op_reanchor t i sp h) k (pot_row s k)"
  unfolding row_op.simps reanchor_confirmed_for_spender_def Let_def
  by (rule pot_row_update_first
      [where P = "\<lambda>r. is_row t i r \<and> pr_spent_confirmed r \<and> pr_spending_txid r = Some sp"])
    (auto simp: is_row_key)

lemma row_facts:
  "pot_inv s \<Longrightarrow>
   pot_row (store_spender_facts t i sp fs s) k = row_op (Op_facts t i sp fs) k (pot_row s k)"
  using pot_row_update_first [of s "\<lambda>r. if pr_spending_txid r = Some sp then facts_row sp fs r else r"
      "is_row t i" "(t, i)" "\<lambda>_. True"]
  by (simp add: facts_rows is_row_key)

lemma row_payouts:
  "pot_inv s \<Longrightarrow>
   pot_row (store_spender_payouts t i sp a b s) k = row_op (Op_payouts t i sp a b) k (pot_row s k)"
proof -
  assume inv: "pot_inv s"
  let ?g = "\<lambda>r. r\<lparr>pr_spender_pay_a_sats := fill (pr_spender_pay_a_sats r) a,
                pr_spender_pay_b_sats := fill (pr_spender_pay_b_sats r) b\<rparr>"
  have flip: "(\<lambda>r. if pr_spending_txid r \<noteq> Some sp then r else ?g r)
      = (\<lambda>r. if pr_spending_txid r = Some sp then ?g r else r)" by (rule ext) simp
  have "mp_records (store_spender_payouts t i sp a b s) =
      update_first (is_row t i) (\<lambda>r. if pr_spending_txid r = Some sp then ?g r else r) (mp_records s)"
    unfolding store_spender_payouts_def flip by simp
  from pot_row_update_first [OF inv _ _ this, of "(t, i)" "\<lambda>_. True"] show ?thesis
    by (simp add: is_row_key)
qed

lemma row_store_record:
  assumes "pot_inv s"
  shows "pot_row (store_record n s) k = row_op (Op_store_record n) k (pot_row s k)"
proof (cases "list_ex (is_row (pr_txid n) (pr_output_index n)) (mp_records s)")
  case True
  then have "pot_row s (prow_key n) \<noteq> None"
    by (auto simp: pot_row_def find_None_iff list_ex_iff prow_key_def)
  with True show ?thesis
    using pot_row_update_first [OF assms, of "fill_record n" "is_row (pr_txid n) (pr_output_index n)"
        "prow_key n" "\<lambda>_. True" "store_record n s" k]
    by (auto simp: store_record_def on_row_def is_row_key prow_key_def [of n] split: option.splits)
next
  case False
  then have "pot_row s (prow_key n) = None"
    by (auto simp: pot_row_def find_None_iff list_ex_iff prow_key_def)
  moreover have "mp_records (store_record n s) = mp_records s @ [n]"
    using False by (simp add: store_record_def)
  moreover have "List.find P (xs @ [n]) = (case List.find P xs of None \<Rightarrow> if P n then Some n else None | Some r \<Rightarrow> Some r)"
    for P xs by (induction xs) auto
  ultimately show ?thesis
    by (auto simp: pot_row_def split: option.splits)
qed

lemma row_take_record:
  assumes "pot_inv s"
  shows "pot_row (snd (take_record t i s)) k = row_op (Op_take_record t i) k (pot_row s k)"
proof (cases "pot_row s (t, i)")
  case None
  then show ?thesis by (simp add: take_record_def)
next
  case (Some r)
  have "List.find (\<lambda>q. prow_key q = k) (remove1 r xs) =
      (if k = prow_key r then None else List.find (\<lambda>q. prow_key q = k) xs)"
    if "r \<in> set xs" "distinct (map prow_key xs)" for xs
    using that by (induction xs) (auto simp: find_key_None)
  with Some pot_row_SomeD [OF Some] pot_inv_distinct [OF assms] show ?thesis
    by (simp add: take_record_def pot_row_def)
qed

lemma other_records [simp]:
  "mp_records (snd (store_beef t b s)) = mp_records s"
  "mp_records (note_spend_discovery_attempt t i s) = mp_records s"
  "mp_records (snd (record_header_seen h x s)) = mp_records s"
  "mp_records (snd (confirmed_window_page lo hi a n s)) = mp_records s"
  "mp_records (write_sweep_state nm w s) = mp_records s"
  "mp_records (unlatch_pot_beef_proof t s) = mp_records s"
  "mp_records (compact_pot_beef br t b s) = mp_records s"
  "mp_records (mark_pot_beef_proven_at t hh s) = mp_records s"
  "mp_records (stamp_pot_block_time t n s) = mp_records s"
  "mp_records (mark_network_seen_by t src at s) = mp_records s"
  "mp_records (record_eviction_classed t ea rd cw rc s) = mp_records s"
  "mp_records (snd (get_spent_status t i s)) = mp_records s"
  "mp_records (hold_transaction_beef t b s) = mp_records s"
  "mp_records (pot_advance_clock n s) = mp_records s"
  by (simp_all add: store_beef_def note_spend_discovery_attempt_def record_header_seen_def
      page_states keyed_rows_records write_sweep_state_def unlatch_pot_beef_proof_def compact_pot_beef_def
      mark_pot_beef_proven_at_def mark_pot_beef_proven_def stamp_pot_block_time_def
      mark_network_seen_by_def mark_network_seen_def record_eviction_classed_def get_spent_status_def
      take_fault_def hold_transaction_beef_def pot_advance_clock_def Let_def split: option.splits)

lemma beefs_page_records: "pot_inv s \<Longrightarrow> mp_records (snd (verified_pot_beefs_page lo hi a n s)) = mp_records s"
  by (simp add: page_states keyed_beefs_inv)

lemma pot_exec_row:
  assumes "pot_inv s" "admissible p"
  shows "pot_row (pot_exec br p s) k = row_op p k (pot_row s k)"
  using assms
  by (cases p; simp only: pot_exec.simps row_store_record row_mark_spent row_mark_verdict row_displace
      row_unpointed row_confirm row_demote row_reanchor row_facts row_payouts row_take_record)
    (auto intro!: pot_row_cong simp: beefs_page_records)

interpretation pot_mem: spend_ledger pot_row "pot_exec br" pot_inv mp_new for br
proof
  show "pot_inv mp_new" by (rule pot_inv_new)
  show "pot_row mp_new k = None" for k by (simp add: pot_row_def mp_new_def)
  show "pot_inv (pot_exec br p s)" if "pot_inv s" "admissible p" for s p
    using that by (rule pot_inv_exec)
  show "pot_row (pot_exec br p s) k = row_op p k (pot_row s k)" if "pot_inv s" "admissible p" for s p k
    using that by (rule pot_exec_row)
qed

end
