(* ===== verification/Pot_Properties.thy ===== *)
theory Pot_Properties
  imports Pot_Ledger "HOL-Library.Multiset"
begin

text \<open>
  What the pot ledger promises its readers: that its rows answer as the specification does after every
  history of calls, that a confirmed pointer is not displaced by a claim, that a verdict served was
  computed for the spender the pointer names, that a demotion undoes a confirmation, that of two racing
  displacements one wins, that admitted bytes never replace verified ones, and that the windowed walks of
  the reorg sweep meet every row once.
\<close>

subsection \<open>Refinement and invariant\<close>

text \<open>
  C26: after every history of calls the memory store's row of an outpoint is what the specification of a
  single row computes from the same calls: the other rows, the loops over the whole table, the stamps,
  the ordinals and the BEEF latches never show in a row, whatever the BEEF reader answers.
\<close>
theorem pot_ledger_refines:
  assumes "list_all admissible ops"
  shows "pot_row (pot_run br ops) k = row_run ops k"
  unfolding pot_run_def using assms by (rule pot_mem.start_run_row)

definition sample_reader :: beef_reader where
  "sample_reader = \<lparr>transaction_from_beef = (\<lambda>b t. None), own_bump_height = (\<lambda>b t. Some (length b)),
     beef_has_proof = (\<lambda>b t. b \<noteq> [])\<rparr>"

definition sample_ops :: "pot_op list" where
  "sample_ops = [Op_store_record (blank_record ''aa'' 0), Op_store_record (blank_record ''aa'' 1),
     Op_mark_spent ''aa'' 0 ''bb'' False None None (Some True), Op_confirm ''aa'' 0 ''bb'' (Some 900000)]"

lemma sample_ops_admissible [simp]: "list_all admissible sample_ops"
  by (simp add: sample_ops_def fresh_record_def blank_record_def)

theorem pot_ledger_refines_witness:
  "pot_row (pot_run sample_reader sample_ops) (''aa'', 0) = row_run sample_ops (''aa'', 0)"
  by (rule pot_ledger_refines) simp

text \<open>
  C29: every store the methods can reach keeps the invariant: one row per outpoint, a pointer exactly on a
  spent row, confirmations only on spent rows and heights only on confirmed ones, whole verdict groups,
  an ordinal for every row that no other row has, and no verified transaction among those latched as
  never provable.
\<close>
theorem pot_reachable_ok:
  assumes "list_all admissible ops"
  shows "pot_inv (pot_run br ops)"
  unfolding pot_run_def using pot_mem.start_ok assms by (rule pot_mem.run_ok)

theorem pot_reachable_ok_witness: "pot_inv (pot_run sample_reader sample_ops)"
  by (rule pot_reachable_ok) simp

subsection \<open>The confirmed pointer\<close>

text \<open>The calls that may move a confirmed pointer or take its confirmation away.\<close>

fun moves_confirmed :: "pkey \<Rightarrow> txid \<Rightarrow> pot_op \<Rightarrow> bool" where
  "moves_confirmed k sp (Op_mark_spent t i sp' c v h f) \<longleftrightarrow> (t, i) = k \<and> c \<and> sp' \<noteq> sp"
| "moves_confirmed k sp (Op_demote t i sp') \<longleftrightarrow> (t, i) = k \<and> sp' = sp"
| "moves_confirmed k sp (Op_demote_at t i sp' h) \<longleftrightarrow> (t, i) = k \<and> sp' = sp"
| "moves_confirmed k sp (Op_take_record t i) \<longleftrightarrow> (t, i) = k"
| "moves_confirmed k sp _ \<longleftrightarrow> False"

definition confirmed_at :: "txid \<Rightarrow> pot_record option \<Rightarrow> bool" where
  "confirmed_at sp ro \<longleftrightarrow> (\<exists>r. ro = Some r \<and> pr_spent_confirmed r \<and> pr_spending_txid r = Some sp)"

lemma confirmed_at_step:
  assumes "confirmed_at sp ro" "\<not> moves_confirmed k sp p"
  shows "confirmed_at sp (row_op p k ro)"
proof -
  obtain r where r: "ro = Some r" "pr_spent_confirmed r" "pr_spending_txid r = Some sp"
    using assms(1) by (auto simp: confirmed_at_def)
  show ?thesis
    using assms(2) r
    by (cases p) (auto simp: confirmed_at_def on_row_def mark_spent_row_eq point_row_def set_verdict_def
        fill_record_def confirm_row_def facts_row_def split: option.splits)
qed

lemma confirmed_at_run:
  "confirmed_at sp ro \<Longrightarrow> list_all (\<lambda>p. \<not> moves_confirmed k sp p) ops
    \<Longrightarrow> confirmed_at sp (fold (\<lambda>p. row_op p k) ops ro)"
  by (induction ops arbitrary: ro) (auto simp: confirmed_at_step)

text \<open>
  C27: a confirmed pointer stands. Once the store holds a pot as spent by a transaction with a verified
  proof, no later sequence of calls displaces it or takes its confirmation away, except a confirmed spend
  by another transaction, a demotion that names that very spender, or the removal of the row: unconfirmed
  claims, compare-and-set displacements and re-admissions of the pot, in any number and order, do not.
\<close>
theorem confirmed_pointer_stands:
  assumes "list_all admissible (ops @ later)"
    and "confirmed_at sp (pot_row (pot_run br ops) k)"
    and "list_all (\<lambda>p. \<not> moves_confirmed k sp p) later"
  shows "confirmed_at sp (pot_row (pot_run br (ops @ later)) k)"
proof -
  have "pot_row (pot_run br (ops @ later)) k = row_run (ops @ later) k"
    unfolding pot_run_def using assms(1) by (rule pot_mem.start_run_row)
  moreover have "pot_row (pot_run br ops) k = row_run ops k"
    unfolding pot_run_def using assms(1) by (intro pot_mem.start_run_row) simp
  ultimately show ?thesis
    using assms(2,3) by (simp add: row_run_def confirmed_at_run)
qed

theorem confirmed_pointer_stands_witness:
  "confirmed_at ''bb'' (pot_row (pot_run sample_reader (sample_ops @
     [Op_mark_spent ''aa'' 0 ''cc'' False None None None, Op_displace ''aa'' 0 ''bb'' ''dd'' None None,
      Op_store_record (blank_record ''aa'' 0)])) (''aa'', 0))"
proof (rule confirmed_pointer_stands)
  have "pot_row (pot_run sample_reader sample_ops) (''aa'', 0) = row_run sample_ops (''aa'', 0)"
    unfolding pot_run_def by (rule pot_mem.start_run_row) simp
  then show "confirmed_at ''bb'' (pot_row (pot_run sample_reader sample_ops) (''aa'', 0))"
    by (simp add: confirmed_at_def row_run_def sample_ops_def blank_record_def on_row_def
        mark_spent_row_eq point_row_def confirm_row_def prow_key_def)
qed (simp_all add: fresh_record_def blank_record_def)

subsection \<open>Verdicts\<close>

text \<open>The calls that write a verdict group for a spender of an outpoint.\<close>

fun writes_verdict :: "pkey \<Rightarrow> txid \<Rightarrow> string option \<Rightarrow> string option \<Rightarrow> pot_op \<Rightarrow> bool" where
  "writes_verdict k sp v g (Op_mark_spent t i sp' c w h f) \<longleftrightarrow>
     (t, i) = k \<and> sp' = sp \<and> (\<exists>u. w = Some u \<and> v = Some (vw_verdict u) \<and> g = vw_settle_signers u)"
| "writes_verdict k sp v g (Op_mark_verdict t i sp' u) \<longleftrightarrow>
     (t, i) = k \<and> sp' = sp \<and> v = Some (vw_verdict u) \<and> g = vw_settle_signers u"
| "writes_verdict k sp v g _ \<longleftrightarrow> False"

definition group_of :: "pot_record option \<Rightarrow> (txid \<times> string option \<times> string option) option" where
  "group_of ro =
     (case ro of None \<Rightarrow> None
      | Some r \<Rightarrow> map_option (\<lambda>sp. (sp, pr_verdict r, pr_settle_signers r)) (pr_verdict_txid r))"

lemma group_of_step:
  assumes "group_of (row_op p k ro) = Some (sp, v, g)" "admissible p"
  shows "group_of ro = Some (sp, v, g) \<or> writes_verdict k sp v g p"
  using assms
  by (cases p; cases ro)
    (auto simp: group_of_def on_row_def mark_spent_row_eq point_row_def set_verdict_def fill_record_def
      confirm_row_def facts_row_def displace_row_def unconfirm_def fresh_record_def
      split: option.splits if_splits)

lemma group_of_run:
  "list_all admissible ops \<Longrightarrow> group_of (row_run ops k) = Some (sp, v, g)
    \<Longrightarrow> \<exists>p \<in> set ops. writes_verdict k sp v g p"
proof (induction ops rule: rev_induct)
  case Nil
  then show ?case by (simp add: row_run_def group_of_def)
next
  case (snoc p ops)
  then show ?case
    using group_of_step [of p k "row_run ops k" sp v g] by (auto simp: row_run_def)
qed

text \<open>
  a current verdict was computed for the spender it is served with. Whatever calls ran, in whatever
  order and however often the pointer moved, a row whose verdict is keyed to its present pointer got that
  verdict and its signer classification, together, from a call that named this outpoint and this spender.
\<close>
theorem current_verdict_is_of_the_spender:
  assumes "list_all admissible ops" "pot_row (pot_run br ops) k = Some r"
    and "pr_spending_txid r = Some sp" "pr_verdict_txid r = Some sp"
  shows "\<exists>p \<in> set ops. writes_verdict k sp (pr_verdict r) (pr_settle_signers r) p"
proof -
  have "row_run ops k = pot_row (pot_run br ops) k"
    unfolding pot_run_def using assms(1) by (intro pot_mem.start_run_row [symmetric])
  with assms show ?thesis
    by (intro group_of_run) (simp_all add: group_of_def)
qed

definition verdict_ops :: "pot_op list" where
  "verdict_ops = sample_ops @ [Op_mark_verdict ''aa'' 0 ''bb'' (verdict_write_bare ''tie'')]"

lemma verdict_ops_row:
  "pot_row (pot_run sample_reader verdict_ops) (''aa'', 0) =
    Some ((blank_record ''aa'' 0)\<lparr>pr_spent := True, pr_spending_txid := Some ''bb'',
      pr_spent_confirmed := True, pr_spent_height := Some 900000, pr_spender_final := Some True,
      pr_verdict := Some ''tie'', pr_verdict_txid := Some ''bb''\<rparr>)"
proof -
  have "pot_row (pot_run sample_reader verdict_ops) (''aa'', 0) = row_run verdict_ops (''aa'', 0)"
    unfolding pot_run_def by (rule pot_mem.start_run_row)
      (simp add: verdict_ops_def sample_ops_def fresh_record_def blank_record_def)
  then show ?thesis
    by (simp add: row_run_def verdict_ops_def sample_ops_def blank_record_def on_row_def
        mark_spent_row_eq point_row_def confirm_row_def prow_key_def set_verdict_def
        verdict_write_bare_def keep_or_reset_def)
qed

theorem current_verdict_is_of_the_spender_witness:
  "\<exists>p \<in> set verdict_ops. writes_verdict (''aa'', 0) ''bb'' (Some ''tie'') None p"
proof -
  have "list_all admissible verdict_ops" by (simp add: verdict_ops_def)
  from current_verdict_is_of_the_spender [OF this verdict_ops_row, of "''bb''"]
  show ?thesis by (simp add: blank_record_def)
qed

subsection \<open>Demotion, races\<close>

lemma row_unconfirm_confirm:
  "row_ok r \<Longrightarrow> \<not> pr_spent_confirmed r \<Longrightarrow> pr_spending_txid r = Some sp
    \<Longrightarrow> unconfirm (confirm_row h r) = r"
  by (cases r) (auto simp: unconfirm_def confirm_row_def row_ok_def)

lemma pot_row_ok: "pot_inv s \<Longrightarrow> pot_row s k = Some r \<Longrightarrow> row_ok r"
  using pot_row_SomeD [of s k r] by (auto simp: pot_inv_def list_all_iff)

text \<open>
  a reorg's demotion undoes the confirmation it refutes, and nothing else. When a spend that was
  recorded unconfirmed is confirmed at some height and then demoted for the same spender, every row of
  the store is what it was before the confirmation.
\<close>
theorem demotion_undoes_confirmation:
  assumes "pot_inv s" "pot_row s (t, i) = Some r" "pr_spending_txid r = Some sp" "\<not> pr_spent_confirmed r"
  shows "pot_row (snd (demote_confirmed_for_spender t i sp
           (snd (mark_confirmed_for_spender br t i sp h s)))) k = pot_row s k"
  using assms row_unconfirm_confirm [OF pot_row_ok [OF assms(1,2)] assms(4,3), of h]
  by (auto simp: row_demote row_confirm pot_inv_confirm on_row_def confirm_row_def [of h r])

lemma list_ex_row:
  assumes "pot_inv s" "\<And>r. P r \<longleftrightarrow> prow_key r = k \<and> Q r"
  shows "list_ex P (mp_records s) \<longleftrightarrow> (\<exists>r. pot_row s k = Some r \<and> Q r)"
proof
  assume "list_ex P (mp_records s)"
  then obtain r where r: "r \<in> set (mp_records s)" "prow_key r = k" "Q r"
    using assms(2) by (auto simp: list_ex_iff)
  moreover obtain q where q: "pot_row s k = Some q"
    using r by (cases "pot_row s k") (auto simp: pot_row_def find_None_iff)
  ultimately have "q = r"
    using pot_row_SomeD [OF q] pot_inv_distinct [OF assms(1)] by (auto simp: distinct_map dest: inj_onD)
  with q r show "\<exists>r. pot_row s k = Some r \<and> Q r" by blast
next
  assume "\<exists>r. pot_row s k = Some r \<and> Q r"
  then show "list_ex P (mp_records s)"
    using assms(2) pot_row_SomeD by (fastforce simp: list_ex_iff)
qed

lemma displace_hit:
  "pot_inv s \<Longrightarrow> fst (displace_spend_for br t i a b h f s) \<longleftrightarrow>
    (\<exists>r. pot_row s (t, i) = Some r \<and> \<not> pr_spent_confirmed r \<and> pr_spending_txid r = Some a)"
  using list_ex_row [of s "\<lambda>r. is_row t i r \<and> \<not> pr_spent_confirmed r \<and> pr_spending_txid r = Some a"]
  by (simp add: displace_spend_for_def Let_def is_row_key)

lemma unpointed_hit:
  "pot_inv s \<Longrightarrow> fst (mark_spent_if_unpointed t i sp f s) \<longleftrightarrow>
    (\<exists>r. pot_row s (t, i) = Some r \<and> \<not> pr_spent r \<and> pr_spending_txid r = None \<and> \<not> pr_spent_confirmed r)"
  using list_ex_row [of s "\<lambda>r. is_row t i r \<and> \<not> pr_spent r \<and> pr_spending_txid r = None \<and> \<not> pr_spent_confirmed r"]
  by (simp add: mark_spent_if_unpointed_def Let_def is_row_key)

text \<open>
  Of two passes that race to displace the same recorded spender only the first writes: its spender is
  the confirmed pointer, the second answers that it did not hit and leaves every row alone, whatever
  spender it came with; and likewise of two passes that race to record a first spender.
\<close>
theorem racing_writers_one_wins:
  assumes "pot_inv s"
  shows "(fst (displace_spend_for br t i a b h f s)
      \<longrightarrow> (let s1 = snd (displace_spend_for br t i a b h f s) in
           confirmed_at b (pot_row s1 (t, i)) \<and> \<not> fst (displace_spend_for br t i a c h' f' s1)
           \<and> pot_row (snd (displace_spend_for br t i a c h' f' s1)) k = pot_row s1 k))
    \<and> (fst (mark_spent_if_unpointed t i b f s)
      \<longrightarrow> (let s1 = snd (mark_spent_if_unpointed t i b f s) in
           \<not> fst (mark_spent_if_unpointed t i c f' s1)
           \<and> pot_row (snd (mark_spent_if_unpointed t i c f' s1)) k = pot_row s1 k))"
proof (intro conjI impI)
  show "let s1 = snd (displace_spend_for br t i a b h f s) in
      confirmed_at b (pot_row s1 (t, i)) \<and> \<not> fst (displace_spend_for br t i a c h' f' s1)
      \<and> pot_row (snd (displace_spend_for br t i a c h' f' s1)) k = pot_row s1 k"
    if "fst (displace_spend_for br t i a b h f s)"
    using assms that
    by (auto simp: Let_def displace_hit pot_inv_displace row_displace on_row_def displace_row_def
        confirmed_at_def)
  show "let s1 = snd (mark_spent_if_unpointed t i b f s) in
      \<not> fst (mark_spent_if_unpointed t i c f' s1)
      \<and> pot_row (snd (mark_spent_if_unpointed t i c f' s1)) k = pot_row s1 k"
    if "fst (mark_spent_if_unpointed t i b f s)"
    using assms that
    by (auto simp: Let_def unpointed_hit pot_inv_unpointed row_unpointed on_row_def)
qed

text \<open>A pot recorded as spent by \<open>bb\<close>, not confirmed.\<close>

definition sample_pots :: memory_pot_storage where
  "sample_pots = pot_run sample_reader (take 3 sample_ops)"

lemma sample_pots_inv [simp]: "pot_inv sample_pots"
  unfolding sample_pots_def pot_run_def
  by (rule pot_mem.run_ok [OF pot_mem.start_ok])
    (simp add: sample_ops_def fresh_record_def blank_record_def)

lemma sample_pots_row [simp]:
  "pot_row sample_pots (''aa'', 0) = Some ((blank_record ''aa'' 0)\<lparr>pr_spent := True,
     pr_spending_txid := Some ''bb'', pr_spender_final := Some True\<rparr>)"
proof -
  have "pot_row sample_pots (''aa'', 0) = row_run (take 3 sample_ops) (''aa'', 0)"
    unfolding sample_pots_def pot_run_def
    by (rule pot_mem.start_run_row) (simp add: sample_ops_def fresh_record_def blank_record_def)
  then show ?thesis
    by (simp add: row_run_def sample_ops_def blank_record_def on_row_def mark_spent_row_eq
        point_row_def prow_key_def keep_or_reset_def)
qed

theorem demotion_undoes_confirmation_witness:
  "pot_row (snd (demote_confirmed_for_spender ''aa'' 0 ''bb''
     (snd (mark_confirmed_for_spender sample_reader ''aa'' 0 ''bb'' (Some 900000) sample_pots)))) (''aa'', 0)
   = pot_row sample_pots (''aa'', 0)"
  by (rule demotion_undoes_confirmation [OF sample_pots_inv sample_pots_row])
    (simp_all add: blank_record_def)

theorem racing_writers_one_wins_witness:
  "\<not> fst (displace_spend_for sample_reader ''aa'' 0 ''bb'' ''dd'' None None
     (snd (displace_spend_for sample_reader ''aa'' 0 ''bb'' ''cc'' (Some 7) None sample_pots)))"
  using racing_writers_one_wins [OF sample_pots_inv, of sample_reader "''aa''" 0 "''bb''" "''cc''" "Some 7"
      None "''dd''" None None]
  by (simp add: Let_def displace_hit blank_record_def)

subsection \<open>Bytes\<close>

text \<open>
  the admission path never makes stored bytes worse. A write of a pot's BEEF leaves a verified
  transaction's bytes alone, never replaces bytes by shorter or equally long ones, stores nothing when it
  is refused, and never touches another transaction's bytes or any latch.
\<close>
theorem admitted_bytes_never_worse:
  "let s' = snd (store_beef t b s) in
     (t \<in> set (mp_verified s) \<longrightarrow> get_beef t s' = get_beef t s)
     \<and> (\<forall>old. get_beef t s = Some old \<longrightarrow>
          (\<exists>new. get_beef t s' = Some new \<and> (new = old \<or> new = b \<and> length old < length b)))
     \<and> (\<forall>u. u \<noteq> t \<longrightarrow> get_beef u s' = get_beef u s)
     \<and> (fst (store_beef t b s) \<noteq> None \<longrightarrow> mp_beefs s' = mp_beefs s)
     \<and> mp_verified s' = mp_verified s \<and> mp_unprovable s' = mp_unprovable s"
  by (auto simp: Let_def store_beef_def take_fault_def get_beef_def split: option.splits)

theorem admitted_bytes_never_worse_witness:
  "get_beef ''aa'' (snd (store_beef ''aa'' [1] (snd (store_beef ''aa'' [1, 2] mp_new)))) = Some [1, 2]"
proof -
  have "get_beef ''aa'' (snd (store_beef ''aa'' [1, 2] mp_new)) = Some [1, 2]"
    by (simp add: store_beef_def take_fault_def get_beef_def mp_new_def beef_ordinal_of_def Let_def)
  then show ?thesis
    using admitted_bytes_never_worse [of "''aa''" "[1]" "snd (store_beef ''aa'' [1, 2] mp_new)"]
    by (auto simp: Let_def)
qed

subsection \<open>Windowed walks\<close>

text \<open>
  The contract of a paged window: its rows in strict walk order, and a page that is the first rows after
  the cursor. A reader asks for pages, each after the last row of the one before, until one is empty.
\<close>

fun page_walk ::
  "nat \<Rightarrow> nat \<Rightarrow> (row_key option \<Rightarrow> nat \<Rightarrow> (row_key \<times> 'r) list) \<Rightarrow> row_key option \<Rightarrow> (row_key \<times> 'r) list" where
  "page_walk 0 limit page c = []"
| "page_walk (Suc n) limit page c =
     (let p = page c limit in if p = [] then [] else p @ page_walk n limit page (Some (fst (last p))))"

locale paged_window =
  fixes rows :: "'s \<Rightarrow> (row_key \<times> 'r) list"
    and page :: "'s \<Rightarrow> row_key option \<Rightarrow> nat \<Rightarrow> (row_key \<times> 'r) list"
    and ok :: "'s \<Rightarrow> bool"
  assumes page_take: "ok s \<Longrightarrow> page s c n = take n (filter (\<lambda>x. after_cursor c (fst x)) (rows s))"
    and rows_strict: "ok s \<Longrightarrow> sorted_wrt (\<lambda>x y. walk_order (fst x) < walk_order (fst y)) (rows s)"
begin

lemma after_iff: "after_cursor (Some a) k \<longleftrightarrow> walk_order a < walk_order k"
  by (auto simp: after_cursor_def walk_order_def less_prod_def)

lemma filter_after:
  assumes "ok s" "j < length (rows s)"
  shows "filter (\<lambda>x. after_cursor (Some (fst (rows s ! j))) (fst x)) (rows s) = drop (Suc j) (rows s)"
proof -
  let ?A = "\<lambda>x. after_cursor (Some (fst (rows s ! j))) (fst x)"
  have lt: "walk_order (fst (rows s ! i)) < walk_order (fst (rows s ! i'))"
    if "i < i'" "i' < length (rows s)" for i i'
    using sorted_wrt_nth_less [OF rows_strict [OF assms(1)]] that by blast
  have "filter ?A (take (Suc j) (rows s)) = []"
  proof -
    have "walk_order (fst (rows s ! i)) \<le> walk_order (fst (rows s ! j))" if "i \<le> j" for i
      using lt [of i j] that assms(2) by (cases "i = j") auto
    then have "\<not> ?A (rows s ! i)" if "i \<le> j" for i
      using that by (simp add: after_iff not_less)
    with assms(2) show ?thesis
      by (auto simp: filter_empty_conv in_set_conv_nth simp del: split_paired_All) (metis fst_conv less_Suc_eq_le)
  qed
  moreover have "filter ?A (drop (Suc j) (rows s)) = drop (Suc j) (rows s)"
  proof (subst filter_id_conv, rule ballI)
    fix x assume "x \<in> set (drop (Suc j) (rows s))"
    then obtain i where "i < length (rows s) - Suc j" "x = rows s ! Suc (j + i)"
      unfolding in_set_conv_nth by auto
    with lt [of j "Suc (j + i)"] show "?A x" by (simp add: after_iff)
  qed
  ultimately show ?thesis
    by (metis append_self_conv2 append_take_drop_id filter_append)
qed

lemma walk_from:
  assumes "ok s" "0 < limit" "j < length (rows s)" "length (rows s) - Suc j < n"
  shows "page_walk n limit (page s) (Some (fst (rows s ! j))) = drop (Suc j) (rows s)"
  using assms(3,4)
proof (induction n arbitrary: j)
  case (Suc n)
  define p where "p = page s (Some (fst (rows s ! j))) limit"
  have p: "p = take limit (drop (Suc j) (rows s))"
    using page_take [OF assms(1)] filter_after [OF assms(1) Suc.prems(1)] by (simp add: p_def)
  show ?case
  proof (cases "Suc j < length (rows s)")
    case True
    define m where "m = min limit (length (rows s) - Suc j)"
    have m: "0 < m" "m \<le> length (rows s) - Suc j" "length p = m"
      using True assms(2) by (auto simp: m_def p)
    have "last p = rows s ! (j + m)"
      using m True by (subst last_conv_nth) (auto simp: p nth_drop)
    moreover have "page_walk n limit (page s) (Some (fst (rows s ! (j + m)))) = drop (Suc (j + m)) (rows s)"
      using Suc.prems m True by (intro Suc.IH) linarith+
    moreover have "p @ drop (Suc (j + m)) (rows s) = drop (Suc j) (rows s)"
    proof -
      have "p = take m (drop (Suc j) (rows s))" by (simp add: p m_def min_def)
      then show ?thesis by (metis add.commute add_Suc_right append_take_drop_id drop_drop)
    qed
    moreover have "p \<noteq> []" using m by auto
    ultimately show ?thesis by (simp add: p_def [symmetric] Let_def)
  next
    case False
    then show ?thesis by (simp add: p_def [symmetric] p Let_def)
  qed
qed simp

lemma walk_all:
  assumes "ok s" "0 < limit" "length (rows s) < n"
  shows "page_walk n limit (page s) None = rows s"
proof (cases "rows s")
  case Nil
  then show ?thesis using assms(3) page_take [OF assms(1)] by (cases n) (auto simp: Let_def)
next
  case (Cons x xs)
  define p where "p = page s None limit"
  have p: "p = take limit (rows s)"
    using page_take [OF assms(1)] by (simp add: p_def after_cursor_def)
  obtain n' where n: "n = Suc n'" using assms(3) by (cases n) auto
  define m where "m = min limit (length (rows s))"
  have m: "0 < m" "m \<le> length (rows s)" "length p = m" using Cons assms(2) by (auto simp: m_def p)
  have "last p = rows s ! (m - 1)"
    using m by (subst last_conv_nth) (auto simp: p)
  moreover have "page_walk n' limit (page s) (Some (fst (rows s ! (m - 1)))) = drop (Suc (m - 1)) (rows s)"
    using m assms n by (intro walk_from) linarith+
  moreover have "p @ drop m (rows s) = rows s"
    by (simp add: p m_def min_def)
  moreover have "p \<noteq> []" using m by auto
  ultimately show ?thesis using m(1) by (simp add: n p_def [symmetric] Let_def)
qed

end

definition row_key_of :: "memory_pot_storage \<Rightarrow> pot_record \<Rightarrow> row_key" where
  "row_key_of s r = \<lparr>rk_height = (case pr_spent_height r of Some h \<Rightarrow> h | None \<Rightarrow> 0),
     rk_rowid = the (tbl_get (mp_ordinals s) (prow_key r))\<rparr>"

definition beef_key_of :: "memory_pot_storage \<Rightarrow> txid \<Rightarrow> row_key" where
  "beef_key_of s t = \<lparr>rk_height = the (tbl_get (mp_proof_heights s) t),
     rk_rowid = the (tbl_get (mp_beef_ordinals s) t)\<rparr>"

definition beef_in_window :: "nat \<Rightarrow> nat \<Rightarrow> memory_pot_storage \<Rightarrow> txid \<Rightarrow> bool" where
  "beef_in_window lo hi s t \<longleftrightarrow>
     (case (tbl_get (mp_proof_heights s) t, tbl_get (mp_beefs s) t) of
        (Some h, Some b) \<Rightarrow> lo \<le> h \<and> h \<le> hi | _ \<Rightarrow> False)"

lemma keyed_rows_held:
  "\<forall>r \<in> set rs. tbl_get (mp_ordinals s) (prow_key r) \<noteq> None
    \<Longrightarrow> keyed_rows rs s = (map (\<lambda>r. (row_key_of s r, r)) rs, s)"
  by (induction rs) (auto simp: ordinal_of_def row_key_of_def prow_key_def)

lemma keyed_beefs_held:
  "\<forall>t. tbl_get (mp_beefs s) t \<noteq> None \<longrightarrow> tbl_get (mp_beef_ordinals s) t \<noteq> None
    \<Longrightarrow> keyed_beefs lo hi ts s =
      (map (\<lambda>t. (beef_key_of s t, t, the (tbl_get (mp_beefs s) t))) (filter (beef_in_window lo hi s) ts), s)"
proof (induction ts)
  case (Cons t ts)
  show ?case
  proof (cases "tbl_get (mp_beefs s) t")
    case None
    with Cons show ?thesis by (auto simp: beef_in_window_def split: option.splits)
  next
    case (Some b)
    with Cons.prems obtain n where "tbl_get (mp_beef_ordinals s) t = Some n" by blast
    with Some Cons show ?thesis
      by (auto simp: beef_in_window_def beef_key_of_def beef_ordinal_of_def split: option.splits)
  qed
qed simp

definition window_rows :: "nat \<Rightarrow> nat \<Rightarrow> memory_pot_storage \<Rightarrow> (row_key \<times> pot_record) list" where
  "window_rows lo hi s = sort_key (\<lambda>x. walk_order (fst x))
     (map (\<lambda>r. (row_key_of s r, r)) (filter (in_window lo hi) (mp_records s)))"

definition window_beefs :: "nat \<Rightarrow> nat \<Rightarrow> memory_pot_storage \<Rightarrow> (row_key \<times> txid \<times> bytes) list" where
  "window_beefs lo hi s = sort_key (\<lambda>x. walk_order (fst x))
     (map (\<lambda>t. (beef_key_of s t, t, the (tbl_get (mp_beefs s) t))) (filter (beef_in_window lo hi s) (mp_verified s)))"

lemma sort_key_strict:
  fixes f :: "'a \<Rightarrow> 'b :: linorder"
  assumes "distinct (map f xs)"
  shows "sorted_wrt (\<lambda>x y. f x < f y) (sort_key f xs)"
proof -
  have "mset (map f (sort_key f xs)) = mset (map f xs)"
    by (simp only: mset_map mset_sort)
  then have "distinct (map f (sort_key f xs))"
    using assms by (metis mset_eq_imp_distinct_iff)
  then have "sorted_wrt (<) (map f (sort_key f xs))"
    by (simp add: strict_sorted_iff)
  then show ?thesis by (simp add: sorted_wrt_map)
qed

lemma window_page_take:
  assumes "pot_inv s"
  shows "confirmed_window_page lo hi c n s =
    (take n (filter (\<lambda>x. after_cursor c (fst x)) (window_rows lo hi s)), s)"
proof -
  have "keyed_rows (filter (in_window lo hi) (mp_records s)) s =
      (map (\<lambda>r. (row_key_of s r, r)) (filter (in_window lo hi) (mp_records s)), s)"
    using assms by (intro keyed_rows_held) (simp add: pot_inv_def)
  then show ?thesis
    by (simp add: confirmed_window_page_def window_rows_def case_prod_unfold)
qed

lemma beefs_page_take:
  assumes "pot_inv s"
  shows "verified_pot_beefs_page lo hi c n s =
    (take n (filter (\<lambda>x. after_cursor c (fst x)) (window_beefs lo hi s)), s)"
proof -
  have "keyed_beefs lo hi (mp_verified s) s =
      (map (\<lambda>t. (beef_key_of s t, t, the (tbl_get (mp_beefs s) t))) (filter (beef_in_window lo hi s) (mp_verified s)), s)"
    using assms by (intro keyed_beefs_held) (simp add: pot_inv_def)
  then show ?thesis
    by (simp add: verified_pot_beefs_page_def window_beefs_def case_prod_unfold)
qed

lemma ordinals_okD:
  "ordinals_ok m mx \<Longrightarrow> tbl_get m k = Some n \<Longrightarrow> tbl_get m k' = Some n \<Longrightarrow> k = k'"
  unfolding ordinals_ok_def by blast

lemma window_rows_strict:
  assumes "pot_inv s"
  shows "sorted_wrt (\<lambda>x y. walk_order (fst x) < walk_order (fst y)) (window_rows lo hi s)"
  unfolding window_rows_def
proof (rule sort_key_strict)
  have inj: "r = q" if "r \<in> set (mp_records s)" "q \<in> set (mp_records s)"
    "walk_order (row_key_of s r) = walk_order (row_key_of s q)" for r q
  proof -
    note eq = that
    obtain n m where nm: "tbl_get (mp_ordinals s) (prow_key r) = Some n" "tbl_get (mp_ordinals s) (prow_key q) = Some m"
      using assms eq(1,2) unfolding pot_inv_def by blast
    moreover have "n = m" using eq(3) nm by (simp add: walk_order_def row_key_of_def)
    moreover have "ordinals_ok (mp_ordinals s) (mp_next_ordinal s)" using assms by (simp add: pot_inv_def)
    ultimately have "prow_key r = prow_key q" using ordinals_okD by metis
    with pot_inv_distinct [OF assms] eq(1,2) show ?thesis by (simp add: distinct_map inj_on_def)
  qed
  have "distinct (mp_records s)" using pot_inv_distinct [OF assms] by (simp add: distinct_map)
  with inj show "distinct (map (\<lambda>x. walk_order (fst x))
      (map (\<lambda>r. (row_key_of s r, r)) (filter (in_window lo hi) (mp_records s))))"
    by (simp add: distinct_map inj_on_def)
qed

lemma window_beefs_strict:
  assumes "pot_inv s"
  shows "sorted_wrt (\<lambda>x y. walk_order (fst x) < walk_order (fst y)) (window_beefs lo hi s)"
  unfolding window_beefs_def
proof (rule sort_key_strict)
  have inj: "t = u" if "beef_in_window lo hi s t" "beef_in_window lo hi s u"
    "walk_order (beef_key_of s t) = walk_order (beef_key_of s u)" for t u
  proof -
    note eq = that
    have held: "\<exists>n. tbl_get (mp_beef_ordinals s) v = Some n" if "beef_in_window lo hi s v" for v
      using assms that by (auto simp: beef_in_window_def pot_inv_def split: option.splits)
    obtain n m where nm: "tbl_get (mp_beef_ordinals s) t = Some n" "tbl_get (mp_beef_ordinals s) u = Some m"
      using held eq(1,2) by blast
    moreover have "n = m" using eq(3) nm by (simp add: walk_order_def beef_key_of_def)
    moreover have "ordinals_ok (mp_beef_ordinals s) (mp_next_ordinal s)" using assms by (simp add: pot_inv_def)
    ultimately show ?thesis using ordinals_okD by metis
  qed
  have "distinct (mp_verified s)" using assms by (simp add: pot_inv_def)
  with inj show "distinct (map (\<lambda>x. walk_order (fst x))
      (map (\<lambda>t. (beef_key_of s t, t, the (tbl_get (mp_beefs s) t))) (filter (beef_in_window lo hi s) (mp_verified s))))"
    by (simp add: distinct_map inj_on_def)
qed

interpretation spends: paged_window "window_rows lo hi" "\<lambda>s c n. fst (confirmed_window_page lo hi c n s)" pot_inv
  for lo hi
  by unfold_locales (simp_all add: window_page_take window_rows_strict)

interpretation proofs: paged_window "window_beefs lo hi" "\<lambda>s c n. fst (verified_pot_beefs_page lo hi c n s)" pot_inv
  for lo hi
  by unfold_locales (simp_all add: beefs_page_take window_beefs_strict)

text \<open>
  C31: a sweep meets every row of its window once. Reading pages of any size above zero, each after the
  last row of the one before, ends and yields exactly the confirmed spends of the window, none twice, from
  the newest height down, and the reads leave the store as it was; the walk over verified proofs likewise
  yields every verified transaction of the window with its stored bytes.
\<close>
theorem sweep_meets_every_row_once:
  assumes "pot_inv s" "0 < limit" "length (mp_records s) < n" "length (mp_verified s) < n"
  shows "mset (map snd (page_walk n limit (\<lambda>c m. fst (confirmed_window_page lo hi c m s)) None))
       = mset (filter (in_window lo hi) (mp_records s))
    \<and> sorted_wrt (\<lambda>x y. rk_height (fst x) \<ge> rk_height (fst y))
        (page_walk n limit (\<lambda>c m. fst (confirmed_window_page lo hi c m s)) None)
    \<and> mset (map snd (page_walk n limit (\<lambda>c m. fst (verified_pot_beefs_page lo hi c m s)) None))
       = mset (map (\<lambda>t. (t, the (get_beef t s))) (filter (beef_in_window lo hi s) (mp_verified s)))
    \<and> snd (confirmed_window_page lo hi c m s) = s \<and> snd (verified_pot_beefs_page lo hi c m s) = s"
proof (intro conjI)
  have rows: "page_walk n limit (\<lambda>c m. fst (confirmed_window_page lo hi c m s)) None = window_rows lo hi s"
    using assms(1,2) by (rule spends.walk_all)
      (use assms(3) in \<open>simp add: window_rows_def le_less_trans [OF length_filter_le]\<close>)
  have beefs: "page_walk n limit (\<lambda>c m. fst (verified_pot_beefs_page lo hi c m s)) None = window_beefs lo hi s"
    using assms(1,2) by (rule proofs.walk_all)
      (use assms(4) in \<open>simp add: window_beefs_def le_less_trans [OF length_filter_le]\<close>)
  show "mset (map snd (page_walk n limit (\<lambda>c m. fst (confirmed_window_page lo hi c m s)) None))
       = mset (filter (in_window lo hi) (mp_records s))"
    by (simp add: rows window_rows_def mset_map [symmetric] o_def del: mset_map)
      (simp add: image_mset.compositionality o_def)
  show "mset (map snd (page_walk n limit (\<lambda>c m. fst (verified_pot_beefs_page lo hi c m s)) None))
       = mset (map (\<lambda>t. (t, the (get_beef t s))) (filter (beef_in_window lo hi s) (mp_verified s)))"
    by (simp add: beefs window_beefs_def get_beef_def image_mset.compositionality o_def)
  show "sorted_wrt (\<lambda>x y. rk_height (fst x) \<ge> rk_height (fst y))
        (page_walk n limit (\<lambda>c m. fst (confirmed_window_page lo hi c m s)) None)"
    unfolding rows using window_rows_strict [OF assms(1)]
    by (rule sorted_wrt_mono_rel [rotated]) (auto simp: walk_order_def less_prod_def)
qed (simp_all add: window_page_take [OF assms(1)] beefs_page_take [OF assms(1)])

theorem sweep_meets_every_row_once_witness:
  "mset (map snd (page_walk 3 1 (\<lambda>c m. fst (confirmed_window_page 0 100 c m sample_pots)) None))
     = mset (filter (in_window 0 100) (mp_records sample_pots))"
proof -
  have "length (mp_records sample_pots) < 3" "length (mp_verified sample_pots) < 3"
    by (simp_all add: sample_pots_def pot_run_def sample_ops_def mp_new_def store_record_def
        ordinal_of_def mark_spent_def update_all_def Let_def mark_spent_row_eq blank_record_def)
  with sweep_meets_every_row_once [OF sample_pots_inv, of 1 3 0 100] show ?thesis by simp
qed

subsection \<open>Tip announces\<close>

lemma less_fold_max: "h < fold max xs a \<longleftrightarrow> h < a \<or> (\<exists>x \<in> set xs. h < x)" for h a :: nat
  by (induction xs arbitrary: a) auto

lemma above_max_key: "(\<exists>m. max_key t = Some m \<and> h < m) \<longleftrightarrow> (\<exists>h'. h < h' \<and> tbl_get t h' \<noteq> None)"
  unfolding max_key_def tbl_get_None by (auto simp: less_fold_max)

lemma header_lower: "pot_inv s \<Longrightarrow> tbl_get (mp_headers_seen s) h = Some x \<Longrightarrow> to_ascii_lowercase x = x"
  by (simp add: pot_inv_def)

text \<open>
  an announced header is judged by what the store holds at its height, and only a different hash at
  the same height is a reorg. The same hash again, in any case of its letters, is a repeat; an unseen
  height below a seen one is an old header and never a reorg; every other unseen height extends the
  chain. Announced again right away, the header is a repeat.
\<close>
theorem tip_announce_exact:
  assumes "pot_inv s"
  shows "let seen = fst (record_header_seen h x s); s' = snd (record_header_seen h x s);
             held = tbl_get (mp_headers_seen s); higher = (\<exists>h'. h < h' \<and> held h' \<noteq> None) in
    classify_tip_announce h x seen =
      (if held h = Some (to_ascii_lowercase x) then Repeat
       else if held h \<noteq> None then Reorg h
       else if higher then Old else Extends)
    \<and> classify_tip_announce h x (fst (record_header_seen h x s')) = Repeat"
proof -
  have "(\<exists>h'. h < h' \<and> tbl_get (mp_headers_seen s) h' \<noteq> None)
      \<longleftrightarrow> (case max_key (mp_headers_seen s) of None \<Rightarrow> False | Some m \<Rightarrow> h < m)"
    using above_max_key [of "mp_headers_seen s" h] by (auto split: option.splits)
  then show ?thesis
    using header_lower [OF assms, of h]
    by (auto simp: Let_def record_header_seen_def classify_tip_announce_def eq_ignore_ascii_case_def
        split: option.splits)
qed

theorem tip_announce_exact_witness:
  "classify_tip_announce 7 ''AB'' (fst (record_header_seen 7 ''AB''
     (snd (record_header_seen 7 ''ac'' sample_pots)))) = Reorg 7"
proof -
  have "pot_inv (snd (record_header_seen 7 ''ac'' sample_pots))" by simp
  moreover have "to_ascii_lowercase ''ac'' \<noteq> to_ascii_lowercase ''AB''" by code_simp
  ultimately show ?thesis
    using tip_announce_exact [of "snd (record_header_seen 7 ''ac'' sample_pots)" 7 "''AB''"]
    by (simp add: Let_def record_header_seen_def)
qed

end
