(* ===== verification/Script_Pushes.thy ===== *)
theory Script_Pushes
  imports Overlay_Prelude
begin

unbundle bit_operations_syntax

text \<open>
  The walk over Bitcoin push data that the marker parsers and the signer classifier share
  (\<open>read_pushes\<close> of \<open>pot/spend_signers.rs\<close> and \<open>hand/mod.rs\<close>): the pushed blobs in order, up to the
  first opcode that is not a push or the first push the bytes do not hold.
\<close>

text \<open>The length a push opcode announces, with what follows the length bytes.\<close>

definition push_len :: "u8 \<Rightarrow> bytes \<Rightarrow> (nat \<times> bytes) option" where
  "push_len op rest =
     (if op < 0x4c then Some (unat op, rest)
      else if op = 0x4c then (case rest of [] \<Rightarrow> None | a # r \<Rightarrow> Some (unat a, r))
      else if op = 0x4d then
        (case rest of a # b # r \<Rightarrow> Some (unat a OR push_bit 8 (unat b), r) | _ \<Rightarrow> None)
      else if op = 0x4e then
        (case rest of
           a # b # c # d # r \<Rightarrow>
             Some (unat a OR push_bit 8 (unat b) OR push_bit 16 (unat c) OR push_bit 24 (unat d), r)
         | _ \<Rightarrow> None)
      else None)"

lemma push_len_shorter: "push_len op rest = Some (n, r) \<Longrightarrow> length r \<le> length rest"
  by (auto simp: push_len_def split: if_splits list.splits)

function read_pushes :: "bytes \<Rightarrow> bytes list" where
  "read_pushes [] = []"
| "read_pushes (op # rest) =
     (case push_len op rest of
        None \<Rightarrow> []
      | Some (n, r) \<Rightarrow> if length r < n then [] else take n r # read_pushes (drop n r))"
  by pat_completeness auto
termination
  by (relation "measure length") (auto dest: push_len_shorter)

text \<open>The minimal push the builders write for a blob below 76 bytes, and for one below 256.\<close>

definition minimal_push :: "bytes \<Rightarrow> bytes" where
  "minimal_push d =
     (if length d < 0x4c then word_of_nat (length d) # d else 0x4c # word_of_nat (length d) # d)"

lemma read_minimal_push:
  assumes "length d < 256"
  shows "read_pushes (minimal_push d @ rest) = d # read_pushes rest"
proof (cases "length d < 0x4c")
  case True
  then have n: "unat (word_of_nat (length d) :: u8) = length d"
    using assms by (simp add: unat_of_nat)
  have "(word_of_nat (length d) :: u8) < 0x4c"
    using True n by (simp add: word_less_nat_alt)
  with True n show ?thesis by (simp add: minimal_push_def push_len_def)
next
  case False
  have "unat (word_of_nat (length d) :: u8) = length d"
    using assms by (simp add: unat_of_nat)
  with False show ?thesis by (simp add: minimal_push_def push_len_def)
qed

lemma read_minimal_pushes:
  "\<forall>d \<in> set ds. length d < 256 \<Longrightarrow> read_pushes (concat (map minimal_push ds)) = ds"
  by (induction ds) (simp_all add: read_minimal_push)

text \<open>No blob read is longer than the script: a crafted length never reads past the end.\<close>

lemma read_pushes_bounded: "d \<in> set (read_pushes bs) \<Longrightarrow> length d < length bs"
proof (induction bs rule: read_pushes.induct)
  case (2 op rest)
  show ?case
  proof (cases "push_len op rest")
    case None
    with 2 show ?thesis by simp
  next
    case (Some p)
    obtain n r where p: "p = (n, r)" by fastforce
    show ?thesis
      using 2 Some p push_len_shorter [of op rest n r]
      by (auto split: if_splits simp: less_Suc_eq_le) (meson diff_le_self dual_order.trans less_imp_le_nat)+
  qed
qed simp

end
