(* ===== verification/Spend_Verdict.thy ===== *)
theory Spend_Verdict
  imports Pot_Ledger Script_Pushes
begin

text \<open>
  Who signed a pot's spend and what it paid (\<open>pot/spend_signers.rs\<close>, \<open>pot/spend_verdict.rs\<close>): the one
  classifier every writer of the verdict group calls. The parser of raw transactions, the sighash and the
  ECDSA check are \<open>bsv-rs\<close>'s and enter as the argument \<open>sig_world\<close>.
\<close>

subsection \<open>Signers\<close>

datatype settle_signers = Coop | TowerA | TowerB

fun signers_as_str :: "settle_signers \<Rightarrow> string" where
  "signers_as_str Coop = ''coop''"
| "signers_as_str TowerA = ''tower-a''"
| "signers_as_str TowerB = ''tower-b''"

definition signers_from_wire :: "string \<Rightarrow> settle_signers option" where
  "signers_from_wire s =
     (if s = ''coop'' then Some Coop else if s = ''tower-a'' then Some TowerA
      else if s = ''tower-b'' then Some TowerB else None)"

definition tower_signed :: "settle_signers \<Rightarrow> bool" where
  "tower_signed g \<longleftrightarrow> g \<noteq> Coop"

interpretation signers: exact_wire_codec "\<lambda>_. True" signers_as_str signers_from_wire
proof
  show "signers_from_wire (signers_as_str g) = Some g" for g
    by (cases g) (simp_all add: signers_from_wire_def)
  show "True \<and> x = signers_as_str g" if "signers_from_wire x = Some g" for x g
    using that by (auto simp: signers_from_wire_def split: if_splits)
qed

text \<open>A parsed raw transaction: the scripts of its inputs, and the bytes the digest is taken over.\<close>

record sighash_tx =
  st_input_scripts :: "bytes list"
  st_bytes :: bytes

record sig_world =
  parse_transaction :: "bytes \<Rightarrow> sighash_tx option"
  sighash :: "sighash_tx \<Rightarrow> nat \<Rightarrow> bytes \<Rightarrow> nat \<Rightarrow> bytes"
  sig_verifies :: "bytes \<Rightarrow> bytes \<Rightarrow> bytes \<Rightarrow> bool"

definition MAX_SIG_CANDIDATES :: nat where
  "MAX_SIG_CANDIDATES = 16"

text \<open>The pushes without their sighash byte, at most sixteen of those that leave something.\<close>

definition sig_candidates :: "bytes \<Rightarrow> bytes list" where
  "sig_candidates script =
     take MAX_SIG_CANDIDATES
       (List.map_filter (\<lambda>p. let d = butlast p in if d = [] then None else Some d)
          (filter (\<lambda>p. p \<noteq> []) (read_pushes script)))"

text \<open>The two inner loops: a candidate that verifies under one key and another under the second.\<close>

definition pair_signed :: "(bytes \<Rightarrow> bytes \<Rightarrow> bool) \<Rightarrow> bytes \<Rightarrow> bytes \<Rightarrow> bytes list \<Rightarrow> bool" where
  "pair_signed ver ka kb ders \<longleftrightarrow>
     list_ex (\<lambda>a. ver ka (ders ! a) \<and> list_ex (\<lambda>b. b \<noteq> a \<and> ver kb (ders ! b)) [0..<length ders])
       [0..<length ders]"

definition classify_spend_signers ::
  "sig_world \<Rightarrow> covenant_params \<Rightarrow> bytes \<Rightarrow> nat \<Rightarrow> bytes \<Rightarrow> nat \<Rightarrow> settle_signers option" where
  "classify_spend_signers W p funding_lock pot_sats spender_raw pot_input_index = do {
     parsed \<leftarrow> parse_transaction W spender_raw;
     script \<leftarrow> (if pot_input_index < length (st_input_scripts parsed)
               then Some (st_input_scripts parsed ! pot_input_index) else None);
     let digest = sighash W parsed pot_input_index funding_lock pot_sats;
         ver = (\<lambda>key der. sig_verifies W key digest der);
         ders = sig_candidates script in
     if length ders < 2 then None
     else if pair_signed ver (pub_a p) (pub_b p) ders then Some Coop
     else if pair_signed ver (pub_a p) (pub_tower p) ders then Some TowerA
     else if pair_signed ver (pub_b p) (pub_tower p) ders then Some TowerB
     else None
   }"

definition settle_signers_for_spend ::
  "pot_template \<Rightarrow> sig_world \<Rightarrow> covenant_params \<Rightarrow> nat \<Rightarrow> bytes \<Rightarrow> nat \<Rightarrow> settle_signers option" where
  "settle_signers_for_spend T W p pot_sats spender_raw pot_input_index = do {
     pot \<leftarrow> checked_add64 (stake_a p) (stake_b p);
     if pot \<noteq> pot_sats then None
     else classify_spend_signers W p (covenant_lock_of T p) pot_sats spender_raw pot_input_index
   }"

subsection \<open>Verdict groups\<close>

record spend_verdict =
  sv_verdict :: pot_verdict
  sv_signers :: "settle_signers option"

definition verdict_group_write :: "spend_verdict \<Rightarrow> verdict_write" where
  "verdict_group_write g =
     \<lparr>vw_verdict = verdict_as_str (sv_verdict g), vw_settle_signers = map_option signers_as_str (sv_signers g)\<rparr>"

definition verdict_group_write_concluded :: "spend_verdict \<Rightarrow> verdict_write" where
  "verdict_group_write_concluded g =
     \<lparr>vw_verdict = verdict_as_str (sv_verdict g),
      vw_settle_signers = Some (case sv_signers g of None \<Rightarrow> ''unresolved'' | Some x \<Rightarrow> signers_as_str x)\<rparr>"

definition sources_outpoint :: "txid \<Rightarrow> nat \<Rightarrow> parsed_input \<Rightarrow> bool" where
  "sources_outpoint t i inp \<longleftrightarrow>
     (case pi_source_txid inp of None \<Rightarrow> False | Some u \<Rightarrow> eq_ignore_ascii_case u t)
     \<and> pi_source_output_index inp = i"

fun find_pot_input :: "nat \<Rightarrow> txid \<Rightarrow> nat \<Rightarrow> parsed_input list \<Rightarrow> (nat \<times> nat) option" where
  "find_pot_input n t i [] = None"
| "find_pot_input n t i (inp # is) =
     (if sources_outpoint t i inp then Some (n, pi_sequence inp) else find_pot_input (n + 1) t i is)"

definition classify_pot_spend_tx ::
  "pot_template \<Rightarrow> sig_world \<Rightarrow> (parsed_tx \<Rightarrow> bytes) \<Rightarrow> covenant_params \<Rightarrow> nat \<Rightarrow> txid \<Rightarrow> nat \<Rightarrow> parsed_tx
    \<Rightarrow> spend_verdict option" where
  "classify_pot_spend_tx T W to_binary p pot_sats pot_txid pot_vout tx = do {
     pot \<leftarrow> checked_add64 (stake_a p) (stake_b p);
     if pot \<noteq> pot_sats then None
     else do {
       (n, sq) \<leftarrow> find_pot_input 0 pot_txid pot_vout (pt_inputs tx);
       spender \<leftarrow> from_transaction tx;
       v \<leftarrow> classify_covenant p spender sq;
       Some \<lparr>sv_verdict = v, sv_signers = settle_signers_for_spend T W p pot_sats (to_binary tx) n\<rparr>
     }
   }"

definition classify_record_spend ::
  "pot_template \<Rightarrow> sig_world \<Rightarrow> (parsed_tx \<Rightarrow> bytes) \<Rightarrow> (string \<Rightarrow> bytes option) \<Rightarrow> pot_record \<Rightarrow> parsed_tx
    \<Rightarrow> spend_verdict option" where
  "classify_record_spend T W to_binary hex_decode r tx = do {
     p \<leftarrow> decoded_covenant_params hex_decode r;
     pot_sats \<leftarrow> pr_pot_sats r;
     classify_pot_spend_tx T W to_binary p pot_sats (pr_txid r) (pr_output_index r) tx
   }"

subsection \<open>What a group means\<close>










definition no_sigs :: sig_world where
  "no_sigs = \<lparr>parse_transaction = (\<lambda>_. None), sighash = (\<lambda>_ _ _ _. []), sig_verifies = (\<lambda>_ _ _. False)\<rparr>"

definition sample_spend :: parsed_tx where
  "sample_spend = \<lparr>pt_inputs = [\<lparr>pi_source_txid = Some ''aa'', pi_source_output_index = 0, pi_sequence = 0\<rparr>],
     pt_outputs = [\<lparr>po_satoshis = Some 9900, po_locking_script = p2pkh_lock (replicate 20 0xAA)\<rparr>,
       \<lparr>po_satoshis = Some 9900, po_locking_script = p2pkh_lock (replicate 20 0xBB)\<rparr>],
     pt_lock_time = 900001\<rparr>"

lemma sample_spend_classified:
  "classify_pot_spend_tx T no_sigs (\<lambda>_. []) sample_params 20000 ''aa'' 0 sample_spend =
     Some \<lparr>sv_verdict = Refund, sv_signers = None\<rparr>"
proof -
  have "from_transaction sample_spend = Some (sample_refund\<lparr>rt_inputs := rt_inputs (the (from_transaction sample_spend))\<rparr>)"
    by (simp add: sample_spend_def sample_refund_def from_transaction_def)
  then obtain r where r: "from_transaction sample_spend = Some r" "rt_outputs r = rt_outputs sample_refund"
    "rt_lock_time r = rt_lock_time sample_refund" by simp
  have "refund_gate_ok sample_params r 0"
    using sample_refund_gate r(3) by (simp add: refund_gate_ok_def)
  then have "classify_covenant sample_params r 0 = Some Refund"
    using r(2) by (simp add: classify_covenant_def) (simp add: sample_refund_def)
  moreover have "settle_signers_for_spend T no_sigs sample_params 20000 [] 0 = None"
    by (simp add: settle_signers_for_spend_def classify_spend_signers_def no_sigs_def checked_add64_def
        sample_params_def U64_MAX_def)
  moreover have "find_pot_input 0 ''aa'' 0 (pt_inputs sample_spend) = Some (0, 0)"
    by (simp add: sample_spend_def sources_outpoint_def)
  ultimately show ?thesis
    using r(1) by (simp add: classify_pot_spend_tx_def checked_add64_def U64_MAX_def sample_params_def)
qed









end
