(* ===== verification/Pot_Lookup.thy ===== *)
theory Pot_Lookup
  imports Pot_Properties Spend_Verdict
begin

text \<open>
  The pot lookup service (\<open>pot/lookup_service.rs\<close>, \<open>tx_facts.rs\<close>, \<open>env_name.rs\<close>): the hook the engine
  calls when it admits an output, the one it calls when an output is spent, with the healing of a record
  or bytes the index lost, and the spent-status lookup. What \<open>bsv-rs\<close> computes (parsing a BEEF, ids,
  re-serialising, Merkle roots, hex) is the argument \<open>pot_env\<close>. The log lines and the two test notes
  (\<open>note_recorded_at_spend\<close>, \<open>note_bytes_completed_at_spend\<close>) write nothing the service reads.
\<close>

record pot_env =
  pe_template :: pot_template
  pe_sigs :: sig_world
  pe_reader :: beef_reader
  pe_hex_decode :: "string \<Rightarrow> bytes option"
  pe_hex_encode :: "bytes \<Rightarrow> string"
  pe_subject :: "bytes \<Rightarrow> parsed_tx option"
  pe_tx_id :: "parsed_tx \<Rightarrow> txid"
  pe_to_binary :: "parsed_tx \<Rightarrow> bytes"
  pe_find :: "bytes \<Rightarrow> (txid \<Rightarrow> (parsed_tx \<times> nat) option) option"
  pe_bump :: "bytes \<Rightarrow> txid \<Rightarrow> (nat \<times> string option) option"
  pe_tracker :: "(string \<Rightarrow> nat \<Rightarrow> string + bool) option"
  pe_source_beef :: "parsed_input \<Rightarrow> bytes option option"
  pe_atomic :: "bytes \<Rightarrow> txid \<Rightarrow> bytes option"

datatype lookup_error =
    LS_Storage pot_storage_error
  | LS_Other string
  | LS_InvalidQuery string
  | LS_Unsupported string

subsection \<open>Names\<close>

definition name_matches :: "string \<Rightarrow> string \<Rightarrow> bool" where
  "name_matches actual base =
     (case strip_prefix base actual of
        Some [] \<Rightarrow> True
      | Some (c # rest) \<Rightarrow> c = CHR ''_'' \<and> rest \<noteq> []
      | None \<Rightarrow> False)"

definition indexed_topic :: "topic \<Rightarrow> bool" where
  "indexed_topic tp \<longleftrightarrow> name_matches tp ''tm_pot'' \<or> name_matches tp ''tm_lowfund''"

subsection \<open>Facts of a transaction\<close>

fun inputs_value :: "(txid \<Rightarrow> (parsed_tx \<times> nat) option) \<Rightarrow> parsed_input list \<Rightarrow> nat \<Rightarrow> nat option" where
  "inputs_value beef_tx [] acc = Some acc"
| "inputs_value beef_tx (inp # ins) acc = do {
     t \<leftarrow> pi_source_txid inp;
     (src, _) \<leftarrow> beef_tx t;
     po \<leftarrow> (if pi_source_output_index inp < length (pt_outputs src)
            then Some (pt_outputs src ! pi_source_output_index inp) else None);
     v \<leftarrow> po_satoshis po;
     inputs_value beef_tx ins (saturating_add64 acc v)
   }"

definition outputs_value :: "parsed_tx \<Rightarrow> nat" where
  "outputs_value tx =
     wrap64 (sum_list (map (\<lambda>po. case po_satoshis po of Some v \<Rightarrow> v | None \<Rightarrow> 0) (pt_outputs tx)))"

definition facts_from_atomic_beef :: "pot_env \<Rightarrow> bytes \<Rightarrow> txid \<Rightarrow> tx_facts option" where
  "facts_from_atomic_beef E bf t = do {
     beef_tx \<leftarrow> pe_find E bf;
     (tx, size) \<leftarrow> beef_tx t;
     let total = (if pt_inputs tx = [] then None else inputs_value beef_tx (pt_inputs tx) 0) in
     Some \<lparr>size_bytes = size,
           fact_fee_sats = (case total of
              Some v \<Rightarrow> if outputs_value tx \<le> v then Some (v - outputs_value tx) else None
            | None \<Rightarrow> None)\<rparr>
   }"

definition pay_lock_of :: "(string \<Rightarrow> bytes option) \<Rightarrow> string option \<Rightarrow> bytes option" where
  "pay_lock_of hex_decode pkh_hex = do {
     h \<leftarrow> pkh_hex;
     b \<leftarrow> hex_decode h;
     if length b = 20 then Some (p2pkh_lock b) else None
   }"

definition sum_to :: "parsed_tx \<Rightarrow> bytes \<Rightarrow> nat" where
  "sum_to tx lock =
     fold (\<lambda>v acc. saturating_add64 acc v)
       (List.map_filter po_satoshis (filter (\<lambda>po. po_locking_script po = lock) (pt_outputs tx))) 0"

definition spend_payouts ::
  "(string \<Rightarrow> bytes option) \<Rightarrow> parsed_tx \<Rightarrow> string option \<Rightarrow> string option \<Rightarrow> nat option \<times> nat option" where
  "spend_payouts hex_decode tx a b =
     (map_option (sum_to tx) (pay_lock_of hex_decode a), map_option (sum_to tx) (pay_lock_of hex_decode b))"

fun checked_out_sum :: "parsed_output list \<Rightarrow> nat \<Rightarrow> nat option" where
  "checked_out_sum [] acc = Some acc"
| "checked_out_sum (po # pos) acc = do {
     v \<leftarrow> po_satoshis po;
     acc' \<leftarrow> checked_add64 acc v;
     checked_out_sum pos acc'
   }"

definition single_input_pot_fee :: "parsed_tx \<Rightarrow> txid \<Rightarrow> nat \<Rightarrow> nat option \<Rightarrow> nat option" where
  "single_input_pot_fee tx pot_txid pot_vout pot_sats = do {
     pot \<leftarrow> pot_sats;
     (case pt_inputs tx of
        [only] \<Rightarrow>
          if \<not> sources_outpoint pot_txid pot_vout only then None
          else do {
            out_sum \<leftarrow> checked_out_sum (pt_outputs tx) 0;
            if out_sum \<le> pot then Some (pot - out_sum) else None
          }
      | _ \<Rightarrow> None)
   }"

subsection \<open>Confirmation\<close>

definition bump_verifies :: "(string \<Rightarrow> nat \<Rightarrow> string + bool) \<Rightarrow> nat \<times> string option \<Rightarrow> bool" where
  "bump_verifies tracker bump =
     (case bump of
        (height, None) \<Rightarrow> False
      | (height, Some root) \<Rightarrow> (case tracker root height of Inr valid \<Rightarrow> valid | Inl _ \<Rightarrow> False))"

definition spend_confirmed_height :: "pot_env \<Rightarrow> bytes \<Rightarrow> txid \<Rightarrow> nat option" where
  "spend_confirmed_height E bf sp = do {
     tracker \<leftarrow> pe_tracker E;
     bump \<leftarrow> pe_bump E bf sp;
     if bump_verifies tracker bump then Some (fst bump) else None
   }"

definition bytes_final :: "parsed_tx \<Rightarrow> bool" where
  "bytes_final tx \<longleftrightarrow>
     \<not> (0 < pt_lock_time tx \<and> list_ex (\<lambda>inp. pi_sequence inp < 0xffffffff) (pt_inputs tx))"

subsection \<open>Admission\<close>

definition admission_record :: "pot_env \<Rightarrow> bool \<Rightarrow> txid \<Rightarrow> nat \<Rightarrow> parsed_output \<Rightarrow> tx_facts option \<Rightarrow> pot_record" where
  "admission_record E is_pot_topic t i po facts =
     (let r = (blank_record t i)\<lparr>pr_pot_sats := po_satoshis po, pr_params_decoded := True,
                pr_funding_size_bytes := map_option size_bytes facts,
                pr_funding_fee_sats := Option.bind facts fact_fee_sats\<rparr>
      in if is_pot_topic
         then let r1 = r\<lparr>pr_lock_kind := Some ''covenant''\<rparr> in
           case extract_covenant_params (pe_template E) (po_locking_script po) of
             None \<Rightarrow> r1
           | Some p \<Rightarrow>
               r1\<lparr>pr_pub_a := Some (pe_hex_encode E (pub_a p)),
                  pr_pub_b := Some (pe_hex_encode E (pub_b p)),
                  pr_pub_tower := Some (pe_hex_encode E (pub_tower p)),
                  pr_pay_pkh_a := Some (pe_hex_encode E (pay_pkh_a p)),
                  pr_pay_pkh_b := Some (pe_hex_encode E (pay_pkh_b p)),
                  pr_rake_pkh := Some (pe_hex_encode E (rake_pkh p)),
                  pr_stake_a := Some (stake_a p), pr_stake_b := Some (stake_b p),
                  pr_fee_sats := Some (fee_sats p), pr_recovery_height := Some (recovery_height p)\<rparr>
         else r\<lparr>pr_lock_kind := Some ''p2pkh''\<rparr>)"

definition pot_output_admitted_by_topic ::
  "pot_env \<Rightarrow> output_admitted_by_topic \<Rightarrow> memory_pot_storage \<Rightarrow> lookup_error option \<times> memory_pot_storage" where
  "pot_output_admitted_by_topic E payload s =
     (case payload of
        Admitted_WholeTx bf i tp _ \<Rightarrow>
          if \<not> indexed_topic tp then (None, s)
          else (case pe_subject E bf of
            None \<Rightarrow> (None, s)
          | Some tx \<Rightarrow>
              if \<not> i < length (pt_outputs tx) then (None, s)
              else
                let po = pt_outputs tx ! i; is_pot_topic = name_matches tp ''tm_pot'';
                    shape_ok = (if is_pot_topic
                                then is_pot_covenant_script (pe_template E) (po_locking_script po)
                                else is_p2pkh_script (po_locking_script po)) in
                if \<not> shape_ok then (None, s)
                else
                  let t = pe_tx_id E tx;
                      s1 = store_record
                             (admission_record E is_pot_topic t i po (facts_from_atomic_beef E bf t)) s
                  in (case store_beef t bf s1 of
                        (None, s2) \<Rightarrow> (None, s2)
                      | (Some e, s2) \<Rightarrow> (Some (LS_Storage e), s2)))
      | _ \<Rightarrow> (Some (LS_Other ''Expected whole-tx mode''), s))"

subsection \<open>Healing at the spend\<close>

text \<open>The pot's own BEEF, from the spender's carried source or the engine's copy, bound to its id.\<close>

definition held_output_bytes :: "pot_env \<Rightarrow> txid \<Rightarrow> nat \<Rightarrow> parsed_tx \<Rightarrow> memory_pot_storage \<Rightarrow> bytes option" where
  "held_output_bytes E t i tx s = do {
     bf \<leftarrow> (case Option.bind (List.find (sources_outpoint t i) (pt_inputs tx)) (pe_source_beef E) of
               Some serialized \<Rightarrow> serialized
             | None \<Rightarrow> held_transaction_beef t s);
     atomic \<leftarrow> pe_atomic E bf t;
     subject \<leftarrow> pe_subject E atomic;
     if eq_ignore_ascii_case (pe_tx_id E subject) t then Some atomic else None
   }"

definition heal_under_open_eviction :: "txid \<Rightarrow> memory_pot_storage \<Rightarrow> lookup_error + bool" where
  "heal_under_open_eviction t s =
     (case evictions_for [to_ascii_lowercase t] s of
        Inl e \<Rightarrow> Inl (LS_Storage e)
      | Inr None \<Rightarrow> Inr False
      | Inr (Some rows) \<Rightarrow> Inr (open_eviction_hides_row (case rows of [] \<Rightarrow> None | r # _ \<Rightarrow> r)))"

definition complete_held_output_bytes ::
  "pot_env \<Rightarrow> txid \<Rightarrow> nat \<Rightarrow> parsed_tx \<Rightarrow> memory_pot_storage \<Rightarrow> lookup_error option \<times> memory_pot_storage" where
  "complete_held_output_bytes E t i tx s =
     (if has_beef t s then (None, s)
      else case heal_under_open_eviction t s of
        Inl e \<Rightarrow> (Some e, s)
      | Inr True \<Rightarrow> (None, s)
      | Inr False \<Rightarrow>
          (case held_output_bytes E t i tx s of
             None \<Rightarrow> (None, s)
           | Some atomic \<Rightarrow>
               (case store_beef t atomic s of
                  (None, s1) \<Rightarrow> (None, s1)
                | (Some e, s1) \<Rightarrow> (Some (LS_Storage e), s1))))"

definition record_held_output_from_spender ::
  "pot_env \<Rightarrow> txid \<Rightarrow> nat \<Rightarrow> topic \<Rightarrow> parsed_tx \<Rightarrow> memory_pot_storage
    \<Rightarrow> (lookup_error + pot_record option) \<times> memory_pot_storage" where
  "record_held_output_from_spender E t i tp tx s =
     (case heal_under_open_eviction t s of
        Inl e \<Rightarrow> (Inl e, s)
      | Inr True \<Rightarrow> (Inr None, s)
      | Inr False \<Rightarrow>
          (case held_output_bytes E t i tx s of
             None \<Rightarrow> (Inr None, s)
           | Some atomic \<Rightarrow>
               (case pot_output_admitted_by_topic E (Admitted_WholeTx atomic i tp None) s of
                  (Some e, s1) \<Rightarrow> (Inl e, s1)
                | (None, s1) \<Rightarrow>
                    (case get_spent_status t i s1 of
                       (Inl e, s2) \<Rightarrow> (Inl (LS_Storage e), s2)
                     | (Inr r, s2) \<Rightarrow> (Inr r, s2)))))"

subsection \<open>The spend\<close>

definition spend_facts :: "pot_env \<Rightarrow> bytes \<Rightarrow> txid \<Rightarrow> nat \<Rightarrow> txid \<Rightarrow> parsed_tx \<Rightarrow> pot_record \<Rightarrow> tx_facts option" where
  "spend_facts E bf t i sp tx r =
     map_option
       (\<lambda>f. if fact_fee_sats f = None
            then f\<lparr>fact_fee_sats := single_input_pot_fee tx t i (pr_pot_sats r)\<rparr> else f)
       (facts_from_atomic_beef E bf sp)"

definition describe_spender ::
  "pot_env \<Rightarrow> bytes \<Rightarrow> txid \<Rightarrow> nat \<Rightarrow> txid \<Rightarrow> parsed_tx \<Rightarrow> pot_record \<Rightarrow> memory_pot_storage \<Rightarrow> memory_pot_storage" where
  "describe_spender E bf t i sp tx r s =
     (let s1 = (case spend_facts E bf t i sp tx r of
                  None \<Rightarrow> s | Some f \<Rightarrow> store_spender_facts t i sp f s);
          (a, b) = spend_payouts (pe_hex_decode E) tx (pr_pay_pkh_a r) (pr_pay_pkh_b r)
      in if a \<noteq> None \<or> b \<noteq> None then store_spender_payouts t i sp a b s1 else s1)"

text \<open>From the record read on: the pointer with all that rides it, the display facts, the bytes.\<close>

definition record_spend ::
  "pot_env \<Rightarrow> bytes \<Rightarrow> txid \<Rightarrow> nat \<Rightarrow> parsed_tx \<Rightarrow> pot_record option \<Rightarrow> memory_pot_storage
    \<Rightarrow> lookup_error option \<times> memory_pot_storage" where
  "record_spend E bf t i tx admitted s =
     (let sp = pe_tx_id E tx;
          height = spend_confirmed_height E bf sp;
          verdict = Option.bind admitted (\<lambda>r. map_option verdict_group_write
             (classify_record_spend (pe_template E) (pe_sigs E) (pe_to_binary E) (pe_hex_decode E) r tx));
          s1 = mark_spent (pe_reader E) t i sp (height \<noteq> None) verdict height (Some (bytes_final tx)) s;
          s2 = (case admitted of None \<Rightarrow> s1 | Some r \<Rightarrow> describe_spender E bf t i sp tx r s1)
      in (case store_beef sp bf s2 of
            (None, s3) \<Rightarrow> (None, s3)
          | (Some e, s3) \<Rightarrow> (Some (LS_Storage e), s3)))"

definition pot_output_spent ::
  "pot_env \<Rightarrow> output_spent \<Rightarrow> memory_pot_storage \<Rightarrow> lookup_error option \<times> memory_pot_storage" where
  "pot_output_spent E payload s =
     (case payload of
        Spent_WholeTx t i tp bf _ \<Rightarrow>
          if \<not> indexed_topic tp then (None, s)
          else (case pe_subject E bf of
            None \<Rightarrow> (None, s)
          | Some tx \<Rightarrow>
              (case get_spent_status t i s of
                 (Inl e, s1) \<Rightarrow> (Some (LS_Storage e), s1)
               | (Inr (Some r), s1) \<Rightarrow>
                   (case complete_held_output_bytes E t i tx s1 of
                      (Some e, s2) \<Rightarrow> (Some e, s2)
                    | (None, s2) \<Rightarrow> record_spend E bf t i tx (Some r) s2)
               | (Inr None, s1) \<Rightarrow>
                   (case record_held_output_from_spender E t i tp tx s1 of
                      (Inl e, s2) \<Rightarrow> (Some e, s2)
                    | (Inr ro, s2) \<Rightarrow> record_spend E bf t i tx ro s2)))
      | _ \<Rightarrow> (None, s))"

subsection \<open>The lookup\<close>

definition MAX_SPENT_STATUS_OUTPOINTS :: nat where
  "MAX_SPENT_STATUS_OUTPOINTS = 100"

text \<open>One entry of the answer; \<open>None\<close> is JSON's null, \<open>st_evicted\<close> without a value an absent key.\<close>

record spent_status =
  st_txid :: txid
  st_vout :: nat
  st_known :: bool
  st_spent :: "bool option"
  st_spending_txid :: "txid option"
  st_spent_confirmed :: "bool option"
  st_settle_signers :: "string option"
  st_network_seen :: "bool option"
  st_network_seen_by :: "seen_witness option"
  st_evicted :: "served_eviction option option"

definition served_signers :: "pot_record \<Rightarrow> string option" where
  "served_signers r =
     (case (pr_verdict_txid r, pr_spending_txid r, pr_settle_signers r) of
        (Some vt, Some sp, Some sig) \<Rightarrow>
          if eq_ignore_ascii_case vt sp \<and> sig \<noteq> ''unresolved'' then Some sig else None
      | _ \<Rightarrow> None)"

definition status_entry ::
  "(txid \<Rightarrow> eviction_ledger_entry option) option \<Rightarrow> txid \<times> nat \<Rightarrow> pot_record option \<Rightarrow> seen_witness option
    \<Rightarrow> spent_status" where
  "status_entry ledger k record seen =
     (let row = (case ledger of None \<Rightarrow> None | Some l \<Rightarrow> l (to_ascii_lowercase (fst k)));
          r = (if open_eviction_hides_row row then None else record)
      in \<lparr>st_txid = fst k, st_vout = snd k, st_known = (r \<noteq> None), st_spent = map_option pr_spent r,
          st_spending_txid = Option.bind r pr_spending_txid,
          st_spent_confirmed = map_option pr_spent_confirmed r,
          st_settle_signers = Option.bind r served_signers,
          st_network_seen = (if r \<noteq> None then Some (seen \<noteq> None) else None),
          st_network_seen_by = (if r \<noteq> None then seen else None),
          st_evicted = map_option (\<lambda>_. map_option (\<lambda>e. served_eviction_value (ev_evicted_at e)
             (ev_readmitted_at e) (ev_chain_word e) (ev_refusal_class e)) row) ledger\<rparr>)"

fun zip3 :: "'a list \<Rightarrow> 'b list \<Rightarrow> 'c list \<Rightarrow> ('a \<times> 'b \<times> 'c) list" where
  "zip3 (a # as) (b # bs) (c # cs) = (a, b, c) # zip3 as bs cs"
| "zip3 _ _ _ = []"

definition ledger_of :: "txid list \<Rightarrow> memory_pot_storage \<Rightarrow> (txid \<Rightarrow> eviction_ledger_entry option) option" where
  "ledger_of ts s =
     (let distinct_ts = remdups ts in
      case evictions_for distinct_ts s of
        Inr (Some rows) \<Rightarrow>
          if length rows = length distinct_ts
          then Some (\<lambda>t. Option.bind (map_of (zip distinct_ts rows) t) (\<lambda>r. r)) else None
      | _ \<Rightarrow> None)"

definition spent_status_lookup ::
  "string \<Rightarrow> (txid \<times> nat) list \<Rightarrow> memory_pot_storage
    \<Rightarrow> (lookup_error + spent_status list) \<times> memory_pot_storage" where
  "spent_status_lookup service outpoints s =
     (if \<not> name_matches service ''ls_pot'' then (Inl (LS_Unsupported service), s)
      else if MAX_SPENT_STATUS_OUTPOINTS < length outpoints
        then (Inl (LS_InvalidQuery ''at most 100 outpoints per query''), s)
      else let keys = map (\<lambda>(t, i). (to_ascii_lowercase t, i)) outpoints in
        case get_spent_statuses keys s of
          (Inl e, s1) \<Rightarrow> (Inl (LS_Storage e), s1)
        | (Inr records, s1) \<Rightarrow>
            let ts = map fst keys; seen = network_seen_witness_for ts s1; ledger = ledger_of ts s1
            in (Inr (map (\<lambda>(k, r, w). status_entry ledger k r w) (zip3 outpoints records seen)), s1))"

end
