(* ===== verification/Pot_Service.thy ===== *)
theory Pot_Service
  imports Pot_Lookup
begin

text \<open>
  The pot lookup service over its ledger: every hook is a history of ledger calls, so what the ledger
  promises holds of the service; an admitted covenant's columns rebuild its parameters; a spend told to
  the service is recorded with its verdict, whatever the service knew before; the spent-status answer is
  what the rows and the eviction ledger say.
\<close>

subsection \<open>Hooks as histories\<close>

definition admit_ops :: "pot_env \<Rightarrow> output_admitted_by_topic \<Rightarrow> pot_op list" where
  "admit_ops E payload =
     (case payload of
        Admitted_WholeTx bf i tp _ \<Rightarrow>
          (case pe_subject E bf of
             Some tx \<Rightarrow>
               if indexed_topic tp \<and> i < length (pt_outputs tx)
                 \<and> (if name_matches tp ''tm_pot''
                     then is_pot_covenant_script (pe_template E) (po_locking_script (pt_outputs tx ! i))
                     else is_p2pkh_script (po_locking_script (pt_outputs tx ! i)))
               then [Op_store_record (admission_record E (name_matches tp ''tm_pot'') (pe_tx_id E tx) i
                       (pt_outputs tx ! i) (facts_from_atomic_beef E bf (pe_tx_id E tx))),
                     Op_store_beef (pe_tx_id E tx) bf]
               else []
           | None \<Rightarrow> [])
      | _ \<Rightarrow> [])"

definition spend_write :: "pot_env \<Rightarrow> bytes \<Rightarrow> txid \<Rightarrow> nat \<Rightarrow> parsed_tx \<Rightarrow> pot_record option \<Rightarrow> pot_op" where
  "spend_write E bf t i tx admitted =
     (let sp = pe_tx_id E tx; height = spend_confirmed_height E bf sp
      in Op_mark_spent t i sp (height \<noteq> None)
           (Option.bind admitted (\<lambda>r. map_option verdict_group_write
              (classify_record_spend (pe_template E) (pe_sigs E) (pe_to_binary E) (pe_hex_decode E) r tx)))
           height (Some (bytes_final tx)))"

definition describe_ops :: "pot_env \<Rightarrow> bytes \<Rightarrow> txid \<Rightarrow> nat \<Rightarrow> txid \<Rightarrow> parsed_tx \<Rightarrow> pot_record \<Rightarrow> pot_op list" where
  "describe_ops E bf t i sp tx r =
     (case spend_facts E bf t i sp tx r of None \<Rightarrow> [] | Some f \<Rightarrow> [Op_facts t i sp f])
     @ (let (a, b) = spend_payouts (pe_hex_decode E) tx (pr_pay_pkh_a r) (pr_pay_pkh_b r)
        in if a \<noteq> None \<or> b \<noteq> None then [Op_payouts t i sp a b] else [])"

definition spend_ops :: "pot_env \<Rightarrow> bytes \<Rightarrow> txid \<Rightarrow> nat \<Rightarrow> parsed_tx \<Rightarrow> pot_record option \<Rightarrow> pot_op list" where
  "spend_ops E bf t i tx admitted =
     spend_write E bf t i tx admitted
     # (case admitted of None \<Rightarrow> [] | Some r \<Rightarrow> describe_ops E bf t i (pe_tx_id E tx) tx r)
     @ [Op_store_beef (pe_tx_id E tx) bf]"

abbreviation run_ops :: "pot_env \<Rightarrow> pot_op list \<Rightarrow> memory_pot_storage \<Rightarrow> memory_pot_storage" where
  "run_ops E \<equiv> fold (pot_exec (pe_reader E))"

lemma admission_record_fresh: "fresh_record (admission_record E c t i po f)"
  by (auto simp: admission_record_def fresh_record_def blank_record_def Let_def split: option.splits)

lemma admission_record_key: "prow_key (admission_record E c t i po f) = (t, i)"
  by (auto simp: admission_record_def prow_key_def blank_record_def Let_def split: option.splits)

lemma admit_ops_admissible: "list_all admissible (admit_ops E payload)"
  by (auto simp: admit_ops_def admission_record_fresh
      split: output_admitted_by_topic.splits option.splits)

lemma admit_runs_ops: "snd (pot_output_admitted_by_topic E payload s) = run_ops E (admit_ops E payload) s"
  by (auto simp: pot_output_admitted_by_topic_def admit_ops_def Let_def
      split: output_admitted_by_topic.splits option.splits prod.splits if_splits)

lemma describe_runs_ops: "describe_spender E bf t i sp tx r s = run_ops E (describe_ops E bf t i sp tx r) s"
  by (auto simp: describe_spender_def describe_ops_def Let_def split: option.splits prod.splits)

lemma record_spend_runs_ops:
  "snd (record_spend E bf t i tx admitted s) = run_ops E (spend_ops E bf t i tx admitted) s"
  by (auto simp: record_spend_def spend_ops_def spend_write_def Let_def describe_runs_ops
      split: option.splits prod.splits)

lemma spend_ops_admissible: "list_all admissible (spend_ops E bf t i tx admitted)"
  by (auto simp: spend_ops_def spend_write_def describe_ops_def Let_def split: option.splits prod.splits)

definition runs_admissible :: "pot_env \<Rightarrow> memory_pot_storage \<Rightarrow> memory_pot_storage \<Rightarrow> bool" where
  "runs_admissible E s s' \<longleftrightarrow> (\<exists>ops. list_all admissible ops \<and> s' = run_ops E ops s)"

lemma runs_admissible_refl [simp]: "runs_admissible E s s"
  unfolding runs_admissible_def by (rule exI [of _ "[]"]) simp

lemma runs_admissible_ops: "list_all admissible ops \<Longrightarrow> runs_admissible E s (run_ops E ops s)"
  unfolding runs_admissible_def by blast

lemma runs_admissible_trans:
  "runs_admissible E s s' \<Longrightarrow> runs_admissible E s' s'' \<Longrightarrow> runs_admissible E s s''"
  unfolding runs_admissible_def by (metis comp_apply fold_append list_all_append)

lemma runs_status: "get_spent_status t i s = (r, s1) \<Longrightarrow> runs_admissible E s s1"
  using runs_admissible_ops [of "[Op_read_status t i]" E s] by simp

lemma runs_beef: "store_beef t b s = (r, s1) \<Longrightarrow> runs_admissible E s s1"
  using runs_admissible_ops [of "[Op_store_beef t b]" E s] by simp

lemma runs_admit: "pot_output_admitted_by_topic E p s = (r, s1) \<Longrightarrow> runs_admissible E s s1"
  using runs_admissible_ops [OF admit_ops_admissible] admit_runs_ops [of E p s] by (metis snd_conv)

lemma runs_record_spend: "record_spend E bf t i tx ro s = (r, s1) \<Longrightarrow> runs_admissible E s s1"
  using runs_admissible_ops [OF spend_ops_admissible] record_spend_runs_ops [of E bf t i tx ro s]
  by (metis snd_conv)

lemma runs_complete: "complete_held_output_bytes E t i tx s = (r, s1) \<Longrightarrow> runs_admissible E s s1"
  by (auto simp: complete_held_output_bytes_def split: if_splits sum.splits bool.splits option.splits prod.splits
      intro: runs_beef)

lemma runs_record_held: "record_held_output_from_spender E t i tp tx s = (r, s1) \<Longrightarrow> runs_admissible E s s1"
  by (auto simp: record_held_output_from_spender_def
      split: sum.splits bool.splits option.splits prod.splits
      intro: runs_admit runs_admissible_trans [OF runs_admit runs_status])

lemma runs_spent: "pot_output_spent E p s = (r, s1) \<Longrightarrow> runs_admissible E s s1"
proof (cases p)
  case (Spent_WholeTx t i tp bf off)
  assume run: "pot_output_spent E p s = (r, s1)"
  show ?thesis
  proof (cases "indexed_topic tp \<and> pe_subject E bf \<noteq> None")
    case False
    with run Spent_WholeTx show ?thesis by (auto simp: pot_output_spent_def split: option.splits if_splits)
  next
    case True
    then obtain tx where tx: "pe_subject E bf = Some tx" "indexed_topic tp" by blast
    obtain q s0 where q: "get_spent_status t i s = (q, s0)" by fastforce
    note st = runs_status [OF q, of E]
    show ?thesis
      using run Spent_WholeTx tx q
      by (auto simp: pot_output_spent_def split: sum.splits option.splits prod.splits
          intro: st runs_admissible_trans [OF st] runs_complete runs_record_held
            runs_admissible_trans [OF st runs_admissible_trans [OF runs_complete runs_record_spend]]
            runs_admissible_trans [OF st runs_admissible_trans [OF runs_record_held runs_record_spend]])
  qed
qed (simp_all add: pot_output_spent_def)


subsection \<open>A spend is recorded\<close>

text \<open>No injected fault is pending: the reads and writes of the store answer.\<close>

definition answers :: "memory_pot_storage \<Rightarrow> bool" where
  "answers s \<longleftrightarrow> mp_fault_spent_status_reads s = 0 \<and> mp_fault_beef_writes s = 0 \<and> mp_evictions s \<noteq> Some (Inl ())"

lemma answers_frame [simp]:
  "answers (store_record n s) = answers s"
  "answers (mark_spent br t i sp c v h f s) = answers s"
  "answers (store_spender_facts t i sp fs s) = answers s"
  "answers (store_spender_payouts t i sp a b s) = answers s"
  "answers s \<Longrightarrow> answers (snd (store_beef t w s))"
  by (simp_all add: answers_def store_record_def mark_spent_def store_spender_facts_def
      store_spender_payouts_def store_beef_def take_fault_def retire_superseded_after_confirm_def
      ordinal_of_def beef_ordinal_of_def Let_def split: option.splits)

lemma answers_status [simp]: "answers s \<Longrightarrow> get_spent_status t i s = (Inr (pot_row s (t, i)), s)"
  by (simp add: answers_def get_spent_status_def take_fault_def)

lemma answers_beef [simp]: "answers s \<Longrightarrow> fst (store_beef t b s) = None"
  by (simp add: answers_def store_beef_def take_fault_def)

lemma answers_beefD:
  assumes "store_beef t b s = (r, s1)" "answers s"
  shows "r = None \<and> answers s1 \<and> mp_records s1 = mp_records s"
  using assms answers_beef [OF assms(2), of t b] answers_frame(5) [OF assms(2), of t b] other_records(1) [of t b s]
  by simp

lemma answers_heal: "answers s \<Longrightarrow> \<exists>b. heal_under_open_eviction t s = Inr b"
  by (cases "mp_evictions s")
    (auto simp: answers_def heal_under_open_eviction_def evictions_for_def split: sum.splits)

lemma answers_describe [simp]: "answers (describe_spender E bf t i sp tx r s) = answers s"
  by (auto simp: describe_spender_def Let_def split: option.splits prod.splits)

lemma complete_answers:
  assumes "answers s" "pot_inv s"
  obtains s1 where "complete_held_output_bytes E t i tx s = (None, s1)" "answers s1" "pot_inv s1"
    "\<And>k. pot_row s1 k = pot_row s k"
proof -
  obtain r s1 where c: "complete_held_output_bytes E t i tx s = (r, s1)" by fastforce
  have "pot_inv s1"
    using runs_complete [OF c] pot_mem.run_ok [OF assms(2)] by (auto simp: runs_admissible_def)
  moreover have "r = None \<and> answers s1 \<and> mp_records s1 = mp_records s"
    using c answers_heal [OF assms(1), of t] assms(1)
    by (auto simp: complete_held_output_bytes_def split: if_splits bool.splits option.splits prod.splits
        dest: answers_beefD)
  ultimately show ?thesis using that c by (simp add: pot_row_def)
qed

definition verdict_of :: "pot_env \<Rightarrow> pot_record \<Rightarrow> parsed_tx \<Rightarrow> verdict_write option" where
  "verdict_of E r tx = map_option verdict_group_write
     (classify_record_spend (pe_template E) (pe_sigs E) (pe_to_binary E) (pe_hex_decode E) r tx)"

lemma spend_ops_row:
  assumes "height = spend_confirmed_height E bf (pe_tx_id E tx)" "height \<noteq> None \<or> \<not> pr_spent_confirmed r"
  shows "\<exists>q. fold (\<lambda>p. row_op p (t, i)) (spend_ops E bf t i tx (Some r)) (Some r) = Some q
    \<and> pr_spent q \<and> pr_spending_txid q = Some (pe_tx_id E tx) \<and> pr_spent_confirmed q = (height \<noteq> None)
    \<and> pr_spender_final q = Some (bytes_final tx)
    \<and> (height \<noteq> None \<longrightarrow> pr_spent_height q = height)
    \<and> (\<forall>v. verdict_of E r tx = Some v \<longrightarrow> pr_verdict q = Some (vw_verdict v)
         \<and> pr_verdict_txid q = Some (pe_tx_id E tx) \<and> pr_settle_signers q = vw_settle_signers v)"
  using assms
  by (auto simp: spend_ops_def spend_write_def describe_ops_def Let_def on_row_def mark_spent_row_eq
      point_row_def set_verdict_def facts_row_def verdict_of_def keep_or_reset_def
      split: option.splits prod.splits if_splits)


lemma record_spend_answers: "answers s \<Longrightarrow> fst (record_spend E bf t i tx ro s) = None"
  by (auto simp: record_spend_def Let_def split: option.splits prod.splits dest!: answers_beefD)

text \<open>
  a spend told to the service is recorded whole. For a held pot, with the store answering and either
  a verified proof in the spender's bytes or no confirmed pointer on the row, the hook succeeds and the
  row then points at that spender, confirmed exactly when the proof verified (with its height), carries
  the finality of its bytes, and, where the pot's committed parameters classify the spend, the verdict
  and the signers of that very spend; whatever earlier spender the row named, and whether or not the
  pot's own bytes had to be healed on the way.
\<close>
theorem spend_hook_records:
  assumes "pot_inv s" "answers s" "pot_row s (t, i) = Some r"
    and "indexed_topic tp" "pe_subject E bf = Some tx"
    and "height = spend_confirmed_height E bf (pe_tx_id E tx)" "height \<noteq> None \<or> \<not> pr_spent_confirmed r"
  shows "\<exists>s' q. pot_output_spent E (Spent_WholeTx t i tp bf off) s = (None, s') \<and> pot_row s' (t, i) = Some q
    \<and> pr_spent q \<and> pr_spending_txid q = Some (pe_tx_id E tx) \<and> pr_spent_confirmed q = (height \<noteq> None)
    \<and> pr_spender_final q = Some (bytes_final tx)
    \<and> (height \<noteq> None \<longrightarrow> pr_spent_height q = height)
    \<and> (\<forall>v. verdict_of E r tx = Some v \<longrightarrow> pr_verdict q = Some (vw_verdict v)
         \<and> pr_verdict_txid q = Some (pe_tx_id E tx) \<and> pr_settle_signers q = vw_settle_signers v)"
proof -
  obtain s1 where s1: "complete_held_output_bytes E t i tx s = (None, s1)" "answers s1" "pot_inv s1"
    "\<And>k. pot_row s1 k = pot_row s k"
    using complete_answers [OF assms(2,1)] by blast
  have hook: "pot_output_spent E (Spent_WholeTx t i tp bf off) s = record_spend E bf t i tx (Some r) s1"
    using assms(2-5) s1(1) by (simp add: pot_output_spent_def)
  obtain s2 where s2: "record_spend E bf t i tx (Some r) s1 = (None, s2)"
    using record_spend_answers [OF s1(2), of E bf t i tx "Some r"] by (metis prod.collapse)
  have "pot_row s2 (t, i) = fold (\<lambda>p. row_op p (t, i)) (spend_ops E bf t i tx (Some r)) (Some r)"
    using record_spend_runs_ops [of E bf t i tx "Some r" s1] s2 s1(4) assms(3)
      pot_mem.run_row [OF s1(3) spend_ops_admissible] by simp
  with spend_ops_row [OF assms(6,7), of t i] hook s2 show ?thesis by auto
qed


subsection \<open>Committed columns\<close>

lemma admitted_columns:
  assumes law: "\<And>b. pe_hex_decode E (pe_hex_encode E b) = Some b"
    and p: "extract_covenant_params (pe_template E) (po_locking_script po) = Some p"
  shows "decoded_covenant_params (pe_hex_decode E) (admission_record E True t i po f) = Some p"
proof -
  have wf: "params_wf p" using p by (rule extract_covenant_params_wf)
  show ?thesis
    using p wf
    by (cases p) (simp add: decoded_covenant_params_def admission_record_def Let_def params_wf_def
        covenant_params_from_hex_def hex_array_def law)
qed

lemma covenant_lock_recognised: "is_pot_covenant_script T (covenant_lock_of T p)"
  by (simp add: is_pot_covenant_script_def covenant_lock_of_def)

lemma admission_record_sats [simp]: "pr_pot_sats (admission_record E c t i po f) = po_satoshis po"
  by (auto simp: admission_record_def Let_def split: option.splits)

lemma admission_record_id [simp]:
  "pr_txid (admission_record E c t i po f) = t" "pr_output_index (admission_record E c t i po f) = i"
  using admission_record_key [of E c t i po f] by (simp_all add: prow_key_def)

lemma admission_record_unconfirmed [simp]: "\<not> pr_spent_confirmed (admission_record E c t i po f)"
  using admission_record_fresh [of E c t i po f] by (simp add: fresh_record_def)

lemma admit_hook:
  assumes "pot_inv s" "answers s" "pot_row s (pe_tx_id E tx, i) = None" "pe_subject E bf = Some tx"
    and "i < length (pt_outputs tx)" "name_matches tp ''tm_pot''"
    and "is_pot_covenant_script (pe_template E) (po_locking_script (pt_outputs tx ! i))"
  obtains s' where "pot_output_admitted_by_topic E (Admitted_WholeTx bf i tp off) s = (None, s')"
    "pot_inv s'" "answers s'"
    "pot_row s' (pe_tx_id E tx, i) =
       Some (admission_record E True (pe_tx_id E tx) i (pt_outputs tx ! i)
         (facts_from_atomic_beef E bf (pe_tx_id E tx)))"
proof -
  define t where "t = pe_tx_id E tx"
  define r where "r = admission_record E True t i (pt_outputs tx ! i) (facts_from_atomic_beef E bf t)"
  define s' where "s' = snd (pot_output_admitted_by_topic E (Admitted_WholeTx bf i tp off) s)"
  have ops: "admit_ops E (Admitted_WholeTx bf i tp off) = [Op_store_record r, Op_store_beef t bf]"
    using assms(4-7) by (simp add: admit_ops_def indexed_topic_def t_def r_def)
  have s': "s' = snd (store_beef t bf (store_record r s))"
    unfolding s'_def admit_runs_ops ops by simp
  have "pot_output_admitted_by_topic E (Admitted_WholeTx bf i tp off) s = (None, s')"
    using assms(2,4-7) s' answers_beefD [of t bf "store_record r s"]
    by (auto simp: pot_output_admitted_by_topic_def indexed_topic_def Let_def t_def r_def split: prod.splits option.splits)
  moreover have "pot_inv s'" "pot_row s' (t, i) = Some r"
    using pot_mem.run_ok [OF assms(1) admit_ops_admissible, of "pe_reader E" E "Admitted_WholeTx bf i tp off"]
      pot_mem.run_row [OF assms(1) admit_ops_admissible, of "pe_reader E" E "Admitted_WholeTx bf i tp off" "(t, i)"]
      assms(3) admission_record_key [of E True t i]
    by (simp_all add: ops s' t_def r_def)
  moreover have "answers s'" using assms(2) s' by simp
  ultimately show ?thesis using that by (simp add: t_def r_def)
qed

text \<open>
  C25: from a pot's admission to its verdict. Let a transaction fund the covenant lock of well-formed
  parameters \<open>p\<close>, be admitted under the pot topic and then be spent. Both hooks succeed, and the row
  the index holds then names the spender, is confirmed exactly when the spender's proof verified, and
  where the spend classifies under \<open>p\<close>, the parameters that were committed in the lock, carries that
  verdict: nothing is lost between the lock's bytes, the hex columns and the classifier.
\<close>
theorem admitted_pot_gets_its_verdict:
  assumes law: "\<And>b. pe_hex_decode E (pe_hex_encode E b) = Some b"
    and s: "pot_inv s" "answers s" "pot_row s (pe_tx_id E tx, i) = None"
    and pot: "pe_subject E bf = Some tx" "i < length (pt_outputs tx)" "params_wf p"
      "pt_outputs tx ! i = \<lparr>po_satoshis = Some v, po_locking_script = covenant_lock_of (pe_template E) p\<rparr>"
    and spend: "pe_subject E bf' = Some tx'" "name_matches tp ''tm_pot''"
  shows "\<exists>s1 s2 q. pot_output_admitted_by_topic E (Admitted_WholeTx bf i tp None) s = (None, s1)
    \<and> pot_output_spent E (Spent_WholeTx (pe_tx_id E tx) i tp bf' None) s1 = (None, s2)
    \<and> pot_row s2 (pe_tx_id E tx, i) = Some q
    \<and> pr_spending_txid q = Some (pe_tx_id E tx')
    \<and> pr_spent_confirmed q = (spend_confirmed_height E bf' (pe_tx_id E tx') \<noteq> None)
    \<and> (\<forall>g. classify_pot_spend_tx (pe_template E) (pe_sigs E) (pe_to_binary E) p v (pe_tx_id E tx) i tx' = Some g
         \<longrightarrow> pr_verdict q = Some (verdict_as_str (sv_verdict g)) \<and> pr_verdict_txid q = Some (pe_tx_id E tx'))"
proof -
  let ?t = "pe_tx_id E tx"
  have "is_pot_covenant_script (pe_template E) (po_locking_script (pt_outputs tx ! i))"
    by (simp add: pot(4) covenant_lock_recognised)
  then obtain s1 where s1: "pot_output_admitted_by_topic E (Admitted_WholeTx bf i tp None) s = (None, s1)"
    "pot_inv s1" "answers s1"
    "pot_row s1 (?t, i) = Some (admission_record E True ?t i (pt_outputs tx ! i) (facts_from_atomic_beef E bf ?t))"
    using admit_hook [OF s pot(1,2) spend(2)] by blast
  have ex: "extract_covenant_params (pe_template E) (po_locking_script (pt_outputs tx ! i)) = Some p"
    using pot_lock.read_back [OF pot(3)] by (simp add: pot(4))
  have "verdict_of E (admission_record E True ?t i (pt_outputs tx ! i) (facts_from_atomic_beef E bf ?t)) tx'
      = map_option verdict_group_write
          (classify_pot_spend_tx (pe_template E) (pe_sigs E) (pe_to_binary E) p v ?t i tx')"
    using admitted_columns [OF law ex] by (simp add: verdict_of_def classify_record_spend_def pot(4))
  with spend_hook_records [OF s1(2-4) _ spend(1) refl, of tp None] spend(2) s1(1) show ?thesis
    by (fastforce simp: indexed_topic_def verdict_group_write_def)
qed


text \<open>A lower-case hex codec, and a service over two transactions: a pot and its refund.\<close>

definition hex_digit :: "nat \<Rightarrow> char" where
  "hex_digit n = ''0123456789abcdef'' ! n"

definition hex_text :: "bytes \<Rightarrow> string" where
  "hex_text bs = concat (map (\<lambda>b. [hex_digit (unat b div 16), hex_digit (unat b mod 16)]) bs)"

definition hex_value :: "char \<Rightarrow> nat option" where
  "hex_value c = map_of (zip ''0123456789abcdef'' [0..<16]) c"

fun hex_bytes :: "string \<Rightarrow> bytes option" where
  "hex_bytes [] = Some []"
| "hex_bytes [_] = None"
| "hex_bytes (a # b # s) = do {
     h \<leftarrow> hex_value a; l \<leftarrow> hex_value b; bs \<leftarrow> hex_bytes s; Some (word_of_nat (16 * h + l) # bs)
   }"

lemma hex_value_digit: "n < 16 \<Longrightarrow> hex_value (hex_digit n) = Some n"
proof -
  have "list_all (\<lambda>n. hex_value (hex_digit n) = Some n) [0..<16]" by code_simp
  then show "n < 16 \<Longrightarrow> hex_value (hex_digit n) = Some n" by (simp add: list_all_iff)
qed

lemma hex_bytes_text: "hex_bytes (hex_text bs) = Some bs"
proof (induction bs)
  case (Cons b bs)
  have "unat b < 256" using unsigned_less [of b, where ?'a = nat] by simp
  then have "hex_value (hex_digit (unat b div 16)) = Some (unat b div 16)"
    "hex_value (hex_digit (unat b mod 16)) = Some (unat b mod 16)"
    by (simp_all add: hex_value_digit)
  moreover have "word_of_nat (16 * (unat b div 16) + unat b mod 16) = b" by simp
  ultimately show ?case
    using Cons by (simp add: hex_text_def del: of_nat_add of_nat_mult mult_div_mod_eq)
qed (simp add: hex_text_def)

definition sample_pot_tx :: parsed_tx where
  "sample_pot_tx = \<lparr>pt_inputs = [],
     pt_outputs = [\<lparr>po_satoshis = Some 20000,
       po_locking_script = covenant_lock_of \<lparr>tpl_head = [0x61], tpl_tail = [0x69]\<rparr> sample_params\<rparr>],
     pt_lock_time = 0\<rparr>"

definition sample_env :: pot_env where
  "sample_env = \<lparr>pe_template = \<lparr>tpl_head = [0x61], tpl_tail = [0x69]\<rparr>, pe_sigs = no_sigs,
     pe_reader = sample_reader, pe_hex_decode = hex_bytes, pe_hex_encode = hex_text,
     pe_subject = (\<lambda>b. if b = [1] then Some sample_pot_tx else if b = [2] then Some sample_spend else None),
     pe_tx_id = (\<lambda>tx. if pt_lock_time tx = 0 then ''aa'' else ''bb''), pe_to_binary = (\<lambda>_. []),
     pe_find = (\<lambda>_. None), pe_bump = (\<lambda>b t. if b = [2] then Some (900002, Some ''root'') else None),
     pe_tracker = Some (\<lambda>root h. Inr (root = ''root'')), pe_source_beef = (\<lambda>_. None),
     pe_atomic = (\<lambda>b t. None)\<rparr>"

lemma sample_params_wf: "params_wf sample_params"
  by (simp add: params_wf_def sample_params_def U64_MAX_def)

lemma sample_env_simps [simp]:
  "pe_subject sample_env [1] = Some sample_pot_tx" "pe_subject sample_env [2] = Some sample_spend"
  "pe_tx_id sample_env sample_pot_tx = ''aa''" "pe_tx_id sample_env sample_spend = ''bb''"
  "spend_confirmed_height sample_env [2] ''bb'' = Some 900002"
  by (simp_all add: sample_env_def sample_pot_tx_def sample_spend_def spend_confirmed_height_def bump_verifies_def)

lemma mp_new_simps [simp]: "pot_row mp_new k = None" "answers mp_new"
  by (simp_all add: pot_row_def mp_new_def answers_def)

lemma tm_pot_matches [simp]: "name_matches ''tm_pot'' ''tm_pot''"
  by (simp add: name_matches_def)

theorem admitted_pot_gets_its_verdict_witness:
  "\<exists>s1 s2 q. pot_output_admitted_by_topic sample_env (Admitted_WholeTx [1] 0 ''tm_pot'' None) mp_new = (None, s1)
    \<and> pot_output_spent sample_env (Spent_WholeTx ''aa'' 0 ''tm_pot'' [2] None) s1 = (None, s2)
    \<and> pot_row s2 (''aa'', 0) = Some q \<and> pr_spending_txid q = Some ''bb'' \<and> pr_spent_confirmed q
    \<and> pr_verdict q = Some ''refund'' \<and> pr_verdict_txid q = Some ''bb''"
proof -
  have "\<And>b. pe_hex_decode sample_env (pe_hex_encode sample_env b) = Some b"
    by (simp add: sample_env_def hex_bytes_text)
  moreover have "pt_outputs sample_pot_tx ! 0 =
      \<lparr>po_satoshis = Some 20000, po_locking_script = covenant_lock_of (pe_template sample_env) sample_params\<rparr>"
    by (simp add: sample_pot_tx_def sample_env_def)
  moreover have "classify_pot_spend_tx (pe_template sample_env) (pe_sigs sample_env) (pe_to_binary sample_env)
      sample_params 20000 ''aa'' 0 sample_spend = Some \<lparr>sv_verdict = Refund, sv_signers = None\<rparr>"
    using sample_spend_classified by (simp add: sample_env_def)
  ultimately show ?thesis
    using admitted_pot_gets_its_verdict [of sample_env mp_new sample_pot_tx 0 "[1]" sample_params 20000
        "[2]" sample_spend "''tm_pot''"] sample_params_wf pot_inv_new
    by (simp add: sample_pot_tx_def [THEN arg_cong, of pt_outputs])
qed


lemma sample_pots_answers [simp]: "answers sample_pots"
  by (simp add: sample_pots_def pot_run_def sample_ops_def)

theorem spend_hook_records_witness:
  "\<exists>s' q. pot_output_spent sample_env (Spent_WholeTx ''aa'' 0 ''tm_pot'' [2] None) sample_pots = (None, s')
    \<and> pot_row s' (''aa'', 0) = Some q \<and> pr_spending_txid q = Some ''bb'' \<and> pr_spent_confirmed q
    \<and> pr_spent_height q = Some 900002"
  using spend_hook_records [OF sample_pots_inv sample_pots_answers sample_pots_row,
      of "''tm_pot''" sample_env "[2]" sample_spend "Some 900002" None]
  by (auto simp: indexed_topic_def)

subsection \<open>The spent-status answer\<close>

lemma get_spent_statuses_answers:
  "answers s \<Longrightarrow> get_spent_statuses ks s = (Inr (map (pot_row s) ks), s)"
  by (induction ks) auto

lemma zip3_map: "zip3 xs (map f xs) (map g xs) = map (\<lambda>x. (x, f x, g x)) xs"
  by (induction xs) auto

lemma spent_status_exact:
  assumes "answers s" "name_matches service ''ls_pot''"
  shows "spent_status_lookup service ks s =
    (if length ks \<le> MAX_SPENT_STATUS_OUTPOINTS
     then (Inr (map (\<lambda>k. status_entry (ledger_of (map (to_ascii_lowercase \<circ> fst) ks) s) k
                  (pot_row s (to_ascii_lowercase (fst k), snd k))
                  (hd (network_seen_witness_for [to_ascii_lowercase (fst k)] s))) ks), s)
     else (Inl (LS_InvalidQuery ''at most 100 outpoints per query''), s))"
proof -
  have seen: "network_seen_witness_for (map f ks) s = map (\<lambda>k. hd (network_seen_witness_for [f k] s)) ks"
    for f :: "txid \<times> nat \<Rightarrow> txid"
    by (simp add: network_seen_witness_for_def)
  have keys: "map (\<lambda>(t, i). (to_ascii_lowercase t, i)) ks = map (\<lambda>k. (to_ascii_lowercase (fst k), snd k)) ks"
    by (simp add: split_def)
  show ?thesis
    using assms
    by (simp add: spent_status_lookup_def get_spent_statuses_answers keys seen o_def zip3_map Let_def not_le)
qed


definition hidden_by_eviction :: "txid \<Rightarrow> memory_pot_storage \<Rightarrow> bool" where
  "hidden_by_eviction t s \<longleftrightarrow>
     (\<exists>m e. mp_evictions s = Some (Inr m) \<and> tbl_get m (to_ascii_lowercase t) = Some e
        \<and> ev_readmitted_at e = None)"

lemma ledger_of_answers:
  assumes "answers s" "to_ascii_lowercase t \<in> set ts"
  shows "open_eviction_hides_row (case ledger_of ts s of None \<Rightarrow> None | Some l \<Rightarrow> l (to_ascii_lowercase t))
    \<longleftrightarrow> hidden_by_eviction t s"
proof (cases "mp_evictions s")
  case None
  then show ?thesis
    by (simp add: ledger_of_def evictions_for_def hidden_by_eviction_def open_eviction_hides_row_def Let_def)
next
  case (Some x)
  then obtain m where m: "mp_evictions s = Some (Inr m)" using assms(1) by (cases x) (auto simp: answers_def)
  have "map_of (zip ds (map f ds)) u = Some (f u)" if "u \<in> set ds" for ds u and f :: "txid \<Rightarrow> eviction_ledger_entry option"
    using that by (simp add: map_of_zip_map)
  with assms(2) m show ?thesis
    by (auto simp: ledger_of_def evictions_for_def hidden_by_eviction_def open_eviction_hides_row_def Let_def
        split: option.splits)
qed

lemma ledger_of_row:
  assumes "answers s" "to_ascii_lowercase t \<in> set ts" "\<forall>u \<in> set ts. to_ascii_lowercase u = u"
  shows "map_option (\<lambda>l. l (to_ascii_lowercase t)) (ledger_of ts s) =
    (case mp_evictions s of Some (Inr m) \<Rightarrow> Some (tbl_get m (to_ascii_lowercase t)) | _ \<Rightarrow> None)"
proof (cases "mp_evictions s")
  case (Some x)
  then obtain m where m: "mp_evictions s = Some (Inr m)" using assms(1) by (cases x) (auto simp: answers_def)
  have "map_of (zip ds (map f ds)) u = Some (f u)" if "u \<in> set ds" for ds u and f :: "txid \<Rightarrow> eviction_ledger_entry option"
    using that by (simp add: map_of_zip_map)
  with assms(2,3) m show ?thesis by (auto simp: ledger_of_def evictions_for_def Let_def)
qed (simp add: ledger_of_def evictions_for_def)

text \<open>
  C30: what the spent-status lookup serves is the ledger's own, for every outpoint asked. With the store
  answering, a query of at most a hundred outpoints changes nothing and gets one entry per outpoint, in
  order; an outpoint is known exactly when the index holds a row for it that no open eviction hides; the
  spent flag, the pointer and the confirmation of a known one are the row's, a pointer is there exactly on a
  spent row and a confirmation only on a spent one; the signers served are the row's, and exactly those of a
  resolved verdict computed for the served spender; an unknown outpoint serves none of these. The eviction
  field is served to known and unknown outpoints alike: absent without an eviction ledger, otherwise what
  the ledger holds for the txid.
\<close>
theorem served_status_sound:
  assumes "pot_inv s" "answers s" "name_matches service ''ls_pot''"
    and "length ks \<le> MAX_SPENT_STATUS_OUTPOINTS" "n < length ks" "ks ! n = (t, i)"
  shows "\<exists>es. spent_status_lookup service ks s = (Inr es, s) \<and> length es = length ks
    \<and> (let e = es ! n; row = pot_row s (to_ascii_lowercase t, i) in
        st_txid e = t \<and> st_vout e = i
        \<and> (st_known e \<longleftrightarrow> row \<noteq> None \<and> \<not> hidden_by_eviction t s)
        \<and> (\<not> st_known e \<longrightarrow> st_spent e = None \<and> st_spending_txid e = None \<and> st_spent_confirmed e = None
             \<and> st_settle_signers e = None \<and> st_network_seen e = None \<and> st_network_seen_by e = None)
        \<and> (st_known e \<longrightarrow> st_spent e = map_option pr_spent row
             \<and> st_spending_txid e = Option.bind row pr_spending_txid
             \<and> st_spent_confirmed e = map_option pr_spent_confirmed row)
        \<and> (st_spent e = Some True \<longleftrightarrow> st_spending_txid e \<noteq> None)
        \<and> (st_spent_confirmed e = Some True \<longrightarrow> st_spent e = Some True)
        \<and> (\<forall>sg. st_settle_signers e = Some sg \<longleftrightarrow> st_known e \<and> sg \<noteq> ''unresolved''
             \<and> Option.bind row pr_settle_signers = Some sg
             \<and> (\<exists>sp vt. st_spending_txid e = Some sp \<and> Option.bind row pr_verdict_txid = Some vt
                  \<and> eq_ignore_ascii_case vt sp))
        \<and> st_evicted e = (case mp_evictions s of
             Some (Inr m) \<Rightarrow> Some (map_option (\<lambda>v. served_eviction_value (ev_evicted_at v) (ev_readmitted_at v)
                                (ev_chain_word v) (ev_refusal_class v)) (tbl_get m (to_ascii_lowercase t)))
           | _ \<Rightarrow> None))"
proof -
  let ?row = "pot_row s (to_ascii_lowercase t, i)"
  let ?seen = "hd (network_seen_witness_for [to_ascii_lowercase t] s)"
  let ?ts = "map (to_ascii_lowercase \<circ> fst) ks" let ?l = "ledger_of ?ts s"
  let ?ev = "\<lambda>v. served_eviction_value (ev_evicted_at v) (ev_readmitted_at v) (ev_chain_word v) (ev_refusal_class v)"
  have "(t, i) \<in> set ks" using assms(5,6) by (metis nth_mem)
  then have lt: "to_ascii_lowercase t \<in> set ?ts" by force
  have low: "\<forall>u \<in> set ?ts. to_ascii_lowercase u = u" by auto
  note hid = ledger_of_answers [OF assms(2) lt]
  have ok: "row_ok r" if "?row = Some r" for r
    using pot_row_ok [OF assms(1) that] .
  define es where "es = map (\<lambda>k. status_entry ?l k (pot_row s (to_ascii_lowercase (fst k), snd k))
                  (hd (network_seen_witness_for [to_ascii_lowercase (fst k)] s))) ks"
  have es: "spent_status_lookup service ks s = (Inr es, s)" "length es = length ks"
    using spent_status_exact [OF assms(2,3), of ks] assms(4) by (simp_all add: es_def)
  define e where "e = es ! n"
  have e: "e = status_entry ?l (t, i) ?row ?seen"
    using assms(5,6) by (simp add: e_def es_def)
  define hides where "hides = open_eviction_hides_row (case ?l of None \<Rightarrow> None | Some l \<Rightarrow> l (to_ascii_lowercase t))"
  have f: "st_txid e = t" "st_vout e = i" "st_known e = (\<not> hides \<and> ?row \<noteq> None)"
    "st_spent e = (if hides then None else map_option pr_spent ?row)"
    "st_spending_txid e = (if hides then None else Option.bind ?row pr_spending_txid)"
    "st_spent_confirmed e = (if hides then None else map_option pr_spent_confirmed ?row)"
    "st_settle_signers e = (if hides then None else Option.bind ?row served_signers)"
    "\<not> st_known e \<Longrightarrow> st_network_seen e = None \<and> st_network_seen_by e = None"
    unfolding e status_entry_def Let_def fst_conv snd_conv hides_def [symmetric] by auto
  have "st_evicted e = map_option (map_option ?ev) (map_option (\<lambda>l. l (to_ascii_lowercase t)) ?l)"
    by (cases ?l) (simp_all add: e status_entry_def Let_def)
  then have ev: "st_evicted e = (case mp_evictions s of
      Some (Inr m) \<Rightarrow> Some (map_option ?ev (tbl_get m (to_ascii_lowercase t))) | _ \<Rightarrow> None)"
    unfolding ledger_of_row [OF assms(2) lt low] by (auto split: option.split sum.split)
  have sg: "served_signers r = Some x \<longleftrightarrow> x \<noteq> ''unresolved'' \<and> pr_settle_signers r = Some x \<and>
      (\<exists>sp vt. pr_spending_txid r = Some sp \<and> pr_verdict_txid r = Some vt \<and> eq_ignore_ascii_case vt sp)" for r x
    by (auto simp: served_signers_def split: option.splits)
  have k: "st_known e \<longleftrightarrow> ?row \<noteq> None \<and> \<not> hidden_by_eviction t s" using f(3) hid [folded hides_def] by blast
  have none: "\<not> st_known e \<longrightarrow> st_spent e = None \<and> st_spending_txid e = None \<and> st_spent_confirmed e = None
      \<and> st_settle_signers e = None \<and> st_network_seen e = None \<and> st_network_seen_by e = None"
    using f(3-8) by (cases ?row) auto
  have own: "st_known e \<longrightarrow> st_spent e = map_option pr_spent ?row
      \<and> st_spending_txid e = Option.bind ?row pr_spending_txid \<and> st_spent_confirmed e = map_option pr_spent_confirmed ?row"
    using f(3-6) by simp
  have ptr: "(st_spent e = Some True \<longleftrightarrow> st_spending_txid e \<noteq> None) \<and> (st_spent_confirmed e = Some True \<longrightarrow> st_spent e = Some True)"
    using f(4-6) ok by (cases ?row) (auto simp: row_ok_def)
  have sigs: "\<forall>x. st_settle_signers e = Some x \<longleftrightarrow> st_known e \<and> x \<noteq> ''unresolved'' \<and> Option.bind ?row pr_settle_signers = Some x
      \<and> (\<exists>sp vt. st_spending_txid e = Some sp \<and> Option.bind ?row pr_verdict_txid = Some vt \<and> eq_ignore_ascii_case vt sp)"
    using f(3,5,7) sg by (cases ?row) auto
  show ?thesis
    unfolding Let_def
    by (rule exI [of _ es], unfold e_def [symmetric])
      (intro conjI es f(1,2) k none own ptr [THEN conjunct1] ptr [THEN conjunct2] sigs ev)
qed

theorem served_status_sound_witness:
  "\<exists>es. spent_status_lookup ''ls_pot'' [(''AA'', 0), (''cc'', 7)] sample_pots = (Inr es, sample_pots)
    \<and> length es = 2 \<and> st_known (es ! 0) \<and> st_spending_txid (es ! 0) = Some ''bb''"
proof -
  have "\<not> hidden_by_eviction ''AA'' sample_pots"
    by (simp add: hidden_by_eviction_def sample_pots_def pot_run_def sample_ops_def mp_new_def
        store_record_def mark_spent_def ordinal_of_def Let_def)
  moreover have "to_ascii_lowercase ''AA'' = ''aa''" by code_simp
  ultimately show ?thesis
    using served_status_sound [OF sample_pots_inv sample_pots_answers, of "''ls_pot''" "[(''AA'', 0), (''cc'', 7)]"
        0 "''AA''" 0]
    by (auto simp: name_matches_def MAX_SPENT_STATUS_OUTPOINTS_def Let_def)
qed

end
