(* ===== verification/Spec2Isabelle.thy ===== *)
theory Spec2Isabelle
  imports Door_Properties Engine_Admin Overlay_Inputs Overlay_Records Page_Batch Pot_Service
begin

text \<open>
  \<^bold>\<open>The overlay engine and the pot index, verified.\<close>

  The program is a BSV overlay node: transactions are submitted with their ancestry (BEEF), topic
  managers say which of their outputs a topic admits, the engine writes the outputs to its storage and
  tells lookup services, and peers exchange what they hold (GASP). The discovery crate holds the topic
  managers and lookup services of one deployment, among them the pot index: the record of every wager
  covenant, who spent it, whether that spend is confirmed and what it paid.

  \<^bold>\<open>Layout.\<close>
  \<^item> \<open>Overlay_Prelude\<close>: integer widths (\<open>wrap64\<close>, \<open>checked_add64\<close>), hash maps as association lists behind
    the contract \<open>keyed_table\<close>, the standard library's string functions. \<open>Wire_Codec\<close>: the contract of a
    stored or wire form, interpreted on the covenant lock, the verdict word and the signer word.
    \<open>Script_Pushes\<close>: the walk over push data of a script.
  \<^item> \<open>Overlay_Types\<close> (\<open>overlay-engine/src/types.rs\<close>), \<open>Sync_Rules\<close> (the pure rules of \<open>gasp.rs\<close>,
    \<open>proof_window.rs\<close>, \<open>sync_load.rs\<close>), \<open>Deferred_Graphs\<close> (the deferred graph of \<open>gasp.rs\<close> and
    \<open>fault_memo.rs\<close>).
  \<^item> \<open>Memory_Storage\<close> (\<open>storage.rs\<close>, \<open>MemoryStorage\<close>, one definition per method over the record
    \<open>memory_storage\<close>), \<open>Storage_Contract\<close> (the contract \<open>output_store\<close> the engine relies on and the
    refinement to maps), \<open>Storage_Invariant\<close> and \<open>Storage_Properties\<close>.
  \<^item> \<open>Engine_World\<close> (the calls of a submit, each of which may fault before or after it landed),
    \<open>Submit_Engine\<close> (\<open>engine.rs\<close>: one topic's validation reads and Phase 3 of \<open>submit_counted_inner\<close>),
    \<open>Deep_Delete\<close> (\<open>delete_utxo_deep\<close>), \<open>Submit_Proofs\<close>, \<open>Submit_Properties\<close>,
    \<open>Submit_Frame\<close> (the contract \<open>kept_by_writes\<close>, interpreted on the applied rows) and \<open>Submit_Claims\<close>;
    \<open>Successor_Rule\<close> (\<open>unlanded_predecessor\<close>: the walk up the ancestry that finds what has not landed),
    \<open>Submit_Door\<close> (the whole submit: opening, \<open>run_validation\<close>, \<open>successors_waiting\<close>, \<open>land_carried\<close>,
    Phase 3) and \<open>Door_Properties\<close> (what it promises, over \<open>kept_by_submit\<close>, which extends that contract);
    \<open>Engine_Admin\<close> (\<open>renotify_admitted\<close>, \<open>forget_phantom_applied\<close>, \<open>evict_output\<close>).
  \<^item> \<open>Page_Batch\<close> (\<open>page_batch.rs\<close>, \<open>load_storage.rs\<close>): the write buffer of a sync page.
  \<^item> The sync of a peer (\<open>gasp.rs\<close>, \<open>GASPSync\<close>): \<open>Gasp_Base\<close> (awaited calls and the traits as the argument
    \<open>gasp_env\<close>, the state of a sync), \<open>Gasp_Walk\<close> (one step and the walk of a graph), \<open>Gasp_Ingest\<close> (records,
    strikes, drops), \<open>Gasp_Pass\<close> (a pass over one root), \<open>Gasp_Push\<close>, \<open>Gasp_Sync\<close> (held records, pages, the
    cursor, the deadline), \<open>Gasp_Cursor\<close> and \<open>Gasp_Properties\<close>; \<open>Gasp_Kept\<close> and \<open>Gasp_Records\<close> (the contract
    \<open>record_store\<close> of the storage of records and what an ingest makes of it).
  \<^item> The storage of a sync (\<open>gasp_overlay.rs\<close>, \<open>OverlayGASPStorage\<close>): \<open>Graph_Order\<close> (\<open>ordered_keys\<close>),
    \<open>Graph_Assembly\<close> and \<open>Assembly_Facts\<close> (\<open>GraphAssembly\<close>: parse, check, BEEF), \<open>Graph_Anchor\<close> (append, the
    anchor check with its replay, finalize, discard), \<open>Graph_Properties\<close>; \<open>Gasp_Overlay\<close> (needed inputs, known
    outputs, served nodes, records and memos, the submits of finalized graphs, and \<open>overlay_env\<close>, the
    environment of a sync over this storage), \<open>Overlay_Inputs\<close>, \<open>Overlay_Records\<close> (which interprets
    \<open>record_store\<close> on it).
  \<^item> \<open>Covenant\<close> (\<open>overlay-discovery/src/pot/mod.rs\<close>, \<open>pot/covenant.rs\<close>), \<open>Spend_Verdict\<close>
    (\<open>pot/spend_signers.rs\<close>, \<open>pot/spend_verdict.rs\<close>), \<open>Reorg_Rules\<close> (\<open>pot/reorg.rs\<close>), \<open>Pot_Storage\<close>
    (\<open>pot/storage.rs\<close>, \<open>MemoryPotStorage\<close> over the record \<open>memory_pot_storage\<close>), \<open>Pot_Ledger\<close> (histories of
    its calls, the specification of one row, the contract \<open>spend_ledger\<close>), \<open>Pot_Properties\<close>,
    \<open>Pot_Lookup\<close> (\<open>pot/lookup_service.rs\<close>, \<open>tx_facts.rs\<close>, \<open>env_name.rs\<close>) and \<open>Pot_Service\<close>.

  \<^bold>\<open>How the parts meet.\<close> A submit reads and writes the storage through numbered calls; the outcome of
  each call (done, failed, failed after it landed) is a schedule the theorems quantify over. The opened BEEF,
  its script walk, the judgement of a topic manager and the hooks of a lookup service are arguments of the submit. The page buffer stands
  between a sync and the storage and is proved to answer as the storage would. A sync asks a peer for roots,
  walks each graph within a budget, and hands it to its storage, which checks it and gives it to the hook that
  submits it; a graph it cannot finish becomes a record or a fault memo of the engine's storage. A call of a sync
  may be cut by a deadline, and what it did before stays done. The pot lookup service is
  such a service: its hooks take the engine's payloads and write the pot store, which every other pass of
  the deployment (confirmation, displacement, reorg sweep, backfills) writes too; \<open>Pot_Ledger\<close> runs them in
  any order.

  \<^bold>\<open>What is proved.\<close>
  \<^item> Submit: a topic's mutation is atomic against one faulted call; recorded as applied it has landed with no
    fault reported (the errors the code drops, of services told of a deletion and of inner deletes, are not
    reported); it lands without faults, keeps a head chain single, and a submit that did not land leaves no
    applied row, so that its replay runs Phase 1 again, is judged alike and lands; the recursive delete ends.
    Two limits are exact statements: a faulted insert leaves a chain without an unspent head until the replay,
    and the STEAK names the removed inputs only when the stale coins precede the retained ones.
  \<^item> Successor rule: its silence means that every transaction its walk reaches was settled by the spends met when
    it was asked (an opener named only by bodies asked later is not found), its answers have a cause, a topic
    cleared after its landings is settled in that sense, a landed predecessor is recorded, a whole submit
    keeps the storage invariant and makes at most 256 such reads.
  \<^item> Storage: refinement to the abstract store of maps, the invariant of every reachable store, the
    exact answer of its reads, the retry reservation, the quarantine of a peer.
  \<^item> Page batch: refinement of the store by a buffered page, idempotence of a retried flush.
  \<^item> Sync: the cursor never passes an unsettled output, wherever the sync stops; a walk stays within its
    pass; only an input the peer says it lacks is pruned; a walk that goes on is the uncut walk; an ingest that
    lets the cursor pass an unlanded root leaves a record of it and takes no other root's while the fault memos of
    the topic are below their cap; a push sends at most one node per output index.
  \<^item> Temporary graphs: the finalize order is the recursion's, ancestors first; a graph the anchor check
    passes is linked, spends nothing twice and has its root admitted; the graph kept for the finalize changes
    nothing of it; a node asks exactly for what its topic neither holds nor (when admitted) landed.
  \<^item> Covenant and verdict: the lock codec round trip, a verdict means the mandated payout, every mandated
    exit is recognised but for the stated collisions, named signers did sign the pot's input.
  \<^item> Pot ledger: its rows refine the specification of one row, the invariant of reachable stores, a
    confirmed pointer stands, a current verdict is of the spender it is served with, a demotion undoes a
    confirmation, racing writers, admitted bytes, the sweep windows and pages leave nothing out.
  \<^item> Pot service: every hook is a history of ledger calls; from admission to verdict nothing is lost
    between the lock's bytes, the hex columns and the classifier; the spent-status answer is sound.

  \<^bold>\<open>Bounds and fuel.\<close> The recursive delete is given a depth of the number of rows plus two, which
  \<open>Deep_Delete\<close> shows is never reached. A walk over pages is given more steps than the window has rows, and
  it is proved to end within them. The walk of the successor rule, the stack of landings and the loop of a
  topic end because each round takes reads of the submit's allowance of 256. A walk of a graph ends because
  each step takes a call, a node or a pending input; a pass goes on at most once. The stacks that order, check
  and collect a graph end because each entry opens a key not opened before or shortens the stack. \<open>le_bytes\<close> and \<open>read_pushes\<close> recurse on a value or a list that gets
  smaller. Counts and heights are \<open>nat\<close> with the wrap, the saturation or the check of the source written
  out where it adds; bytes are \<open>8 word\<close>.

  \<^bold>\<open>Parameters.\<close> What \<open>bsv-rs\<close> and the hex crate compute is an argument: BEEF parsing, transaction ids,
  Merkle roots, the BIP-143 digest, ECDSA (\<open>beef_reader\<close>, \<open>sig_world\<close>, \<open>pot_env\<close>). The one law assumed of
  them is that hex decoding inverts hex encoding; its witness uses a concrete codec. For a sync: the peer, the
  chain fetcher, the clocks and the topic manager are arguments; the peer is assumed to serve from the score it is
  asked (\<open>serves_from\<close>), SHA-256 to separate the transactions of one graph, and the submit of a finalized graph to
  write no record (\<open>writes_no_record\<close>), each with a concrete instance in a witness.

  \<^bold>\<open>Not modelled.\<close> The BEEF parse and SPV walk before Phase 3 and the script interpreter (third-party
  code, arguments of the submit), the broadcast of Phase 2 (it writes nothing), the call deadlines of the GASP
  finalize, the batch request of a page's roots, a sync without a per-graph budget and the counts a sync only
  reports, the delegation of a sync's storage to an installed page batch (\<open>Page_Batch\<close> holds the batch itself), the other topic managers and lookup services of the
  discovery crate, the D1 (SQL) stores, HTTP routes and queues of the Cloudflare worker, and the
  application layer. The texts of error messages are shortened to their fixed part, and log lines are left
  out. Concurrency inside one call is not modelled: the memory stores hold a lock per call, and the
  interleaving of calls is the order of a history.
\<close>

end
